(* ===== verification/Prelude.thy ===== *)
theory Prelude
  imports Main "HOL-Library.Word" "HOL-Library.Multiset"
begin

text \<open>
  The shared layer of the development: the machine types the C++ code uses, the
  exceptions it throws as values, the two standard containers every component keeps its
  state in (\<^verbatim>\<open>std::map\<close> as a strictly sorted association list,
  \<^verbatim>\<open>std::set\<close> as a strictly sorted list, both iterated in key order),
  the interface locales of the two containers, and the little-endian image of a
  \<^verbatim>\<open>uint64_t\<close> that \<^verbatim>\<open>memcpy\<close> puts into a log record.
\<close>

section \<open>Machine types\<close>

type_synonym u8 = "8 word"
type_synonym u32 = "32 word"
type_synonym u64 = "64 word"
type_synonym bytes = "8 word list"

text \<open>\<^verbatim>\<open>static_cast<int>(x)\<close> of an unsigned 64-bit value keeps the low 32 bits and
  reads them as two's complement.\<close>

definition to_int32 :: "u64 \<Rightarrow> int" where
  "to_int32 x = sint (ucast x :: u32)"

section \<open>Exceptions as values\<close>

text \<open>
  \<open>StoreException\<close> is \<^verbatim>\<open>qpid::store::StoreException\<close> (its text without the
  \<^verbatim>\<open>file:line\<close> suffix of the macro), \<open>JException\<close> is
  \<^verbatim>\<open>mrg::journal::jexception\<close> with its error number, class and function,
  \<open>DbException\<close> is Berkeley DB's, \<open>QpidException\<close> is \<^verbatim>\<open>qpid::Exception\<close>,
  \<open>BadAlloc\<close> what \<^verbatim>\<open>operator new\<close> and the containers throw when memory is short or a
  length is beyond their limits (\<^verbatim>\<open>std::bad_alloc\<close>, \<^verbatim>\<open>std::length_error\<close>). A \<open>Fault\<close> is no C++ exception: it marks an execution whose behaviour the language
  leaves undefined, that the hardware stops, or that never returns.
\<close>

datatype fault = DivisionByZero | NullPointer | OutOfBounds | NoReturn | UseAfterFree

datatype exn =
    StoreException string
  | JException u32 string string string
  | DbException int
  | QpidException string
  | BadAlloc
  | Fault fault

named_theorems smap_simps
  \<open>rewriting of the sorted association lists\<close>
named_theorems sset_simps
  \<open>rewriting of the sorted lists that stand for sets\<close>

section \<open>std::map as a strictly sorted association list\<close>

type_synonym ('k, 'v) smap = "('k \<times> 'v) list"

definition smap_ok :: "('k::linorder, 'v) smap \<Rightarrow> bool" where
  "smap_ok m = sorted_wrt (<) (map fst m)"

text \<open>\<^verbatim>\<open>insert(value_type(k, v))\<close> leaves an existing entry alone; \<^verbatim>\<open>m[k] = v\<close>
  overwrites it; \<^verbatim>\<open>erase(it)\<close> removes it.\<close>

fun smap_insert :: "'k::linorder \<Rightarrow> 'v \<Rightarrow> ('k, 'v) smap \<Rightarrow> ('k, 'v) smap" where
  "smap_insert k v [] = [(k, v)]"
| "smap_insert k v ((a, b) # m) =
     (if k < a then (k, v) # (a, b) # m
      else if k = a then (a, b) # m
      else (a, b) # smap_insert k v m)"

fun smap_assign :: "'k::linorder \<Rightarrow> 'v \<Rightarrow> ('k, 'v) smap \<Rightarrow> ('k, 'v) smap" where
  "smap_assign k v [] = [(k, v)]"
| "smap_assign k v ((a, b) # m) =
     (if k < a then (k, v) # (a, b) # m
      else if k = a then (k, v) # m
      else (a, b) # smap_assign k v m)"

definition smap_erase :: "'k \<Rightarrow> ('k, 'v) smap \<Rightarrow> ('k, 'v) smap" where
  "smap_erase k m = filter (\<lambda>(a, _). a \<noteq> k) m"

section \<open>std::set as a strictly sorted list\<close>

type_synonym 'k sset = "'k list"

definition sset_ok :: "'k::linorder sset \<Rightarrow> bool" where
  "sset_ok s = sorted_wrt (<) s"

fun sset_insert :: "'k::linorder \<Rightarrow> 'k sset \<Rightarrow> 'k sset" where
  "sset_insert k [] = [k]"
| "sset_insert k (a # s) =
     (if k < a then k # a # s else if k = a then a # s else a # sset_insert k s)"

definition sset_erase :: "'k \<Rightarrow> 'k sset \<Rightarrow> 'k sset" where
  "sset_erase k s = filter (\<lambda>a. a \<noteq> k) s"

section \<open>The memory image of a uint64_t\<close>

text \<open>The image \<^verbatim>\<open>memcpy(&buf[i], &x, sizeof(uint64_t))\<close> leaves on a little-endian
  machine, and its inverse.\<close>

definition u64_bytes :: "u64 \<Rightarrow> bytes" where
  "u64_bytes x = map (\<lambda>i. ucast (drop_bit (8 * i) x)) [0..<8]"

definition bytes_u64 :: "bytes \<Rightarrow> u64" where
  "bytes_u64 bs = word_of_int (horner_sum uint (2 ^ LENGTH(8)) bs)"

section \<open>Decimal output\<close>

text \<open>What \<^verbatim>\<open>ostream << n\<close> prints for an integer.\<close>

fun nat_string :: "nat \<Rightarrow> string" where
  "nat_string n = (if n < 10 then [char_of (48 + n)] else nat_string (n div 10) @ [char_of (48 + n mod 10)])"

declare nat_string.simps [simp del]

definition int_string :: "int \<Rightarrow> string" where
  "int_string i = (if i < 0 then CHR ''-'' # nat_string (nat (- i)) else nat_string (nat i))"

section \<open>The contract of a keyed store\<close>

text \<open>
  What the components rely on when they keep entries under keys: looking up after an
  insertion that keeps an existing entry, after an overwriting assignment and after an
  erasure. The flat \<^verbatim>\<open>std::map\<close> and the two-level map of pending operations
  (queue id, then message id) both provide it.
\<close>

locale keyed_store =
  fixes lookup :: "'m \<Rightarrow> 'k \<Rightarrow> 'v option"
    and add :: "'k \<Rightarrow> 'v \<Rightarrow> 'm \<Rightarrow> 'm"
    and remove :: "'k \<Rightarrow> 'm \<Rightarrow> 'm"
    and ok :: "'m \<Rightarrow> bool"
  assumes lookup_add: "ok m \<Longrightarrow> lookup (add k v m) k' =
      (if k' = k then (case lookup m k of None \<Rightarrow> Some v | Some w \<Rightarrow> Some w) else lookup m k')"
    and lookup_remove: "ok m \<Longrightarrow> lookup (remove k m) k' = (if k' = k then None else lookup m k')"
    and ok_add: "ok m \<Longrightarrow> ok (add k v m)"
    and ok_remove: "ok m \<Longrightarrow> ok (remove k m)"
begin

lemma lookup_add_other: "ok m \<Longrightarrow> k' \<noteq> k \<Longrightarrow> lookup (add k v m) k' = lookup m k'"
  by (simp add: lookup_add)

lemma add_then_remove: "ok m \<Longrightarrow> lookup m k = None \<Longrightarrow> lookup (remove k (add k v m)) = lookup m"
  by (auto simp: fun_eq_iff lookup_add lookup_remove ok_add)

lemma add_absorbs: "ok m \<Longrightarrow> lookup (add k v (add k w m)) = lookup (add k w m)"
  by (auto simp: fun_eq_iff lookup_add ok_add split: option.splits)

lemma dom_add: "ok m \<Longrightarrow> dom (lookup (add k v m)) = insert k (dom (lookup m))"
  by (auto simp: lookup_add dom_def split: option.splits)

lemma dom_remove: "ok m \<Longrightarrow> dom (lookup (remove k m)) = dom (lookup m) - {k}"
  by (auto simp: lookup_remove dom_def)

end

section \<open>Lemmas on the sorted association lists\<close>

lemma smap_ok_Nil [simp]: "smap_ok []"
  by (simp add: smap_ok_def)

lemma smap_ok_Cons [simp]:
  "smap_ok ((k, v) # m) \<longleftrightarrow> (\<forall>x \<in> fst ` set m. k < x) \<and> smap_ok m"
  by (auto simp: smap_ok_def)

lemma keys_smap_insert [smap_simps]: "fst ` set (smap_insert k v m) = insert k (fst ` set m)"
  by (induction k v m rule: smap_insert.induct) auto

lemma keys_smap_assign [smap_simps]: "fst ` set (smap_assign k v m) = insert k (fst ` set m)"
  by (induction k v m rule: smap_assign.induct) auto

lemma smap_ok_insert [simp]: "smap_ok m \<Longrightarrow> smap_ok (smap_insert k v m)"
  by (induction k v m rule: smap_insert.induct) (fastforce simp: keys_smap_insert)+

lemma smap_ok_assign [simp]: "smap_ok m \<Longrightarrow> smap_ok (smap_assign k v m)"
  by (induction k v m rule: smap_assign.induct) (fastforce simp: keys_smap_assign)+

lemma smap_ok_erase [simp]: "smap_ok m \<Longrightarrow> smap_ok (smap_erase k m)"
  by (induction m) (auto simp: smap_erase_def)

lemma map_of_smap_insert [smap_simps]:
  "smap_ok m \<Longrightarrow> map_of (smap_insert k v m) =
     (case map_of m k of None \<Rightarrow> (map_of m)(k \<mapsto> v) | Some _ \<Rightarrow> map_of m)"
proof (induction k v m rule: smap_insert.induct)
  case (2 k v a b m)
  have "map_of m k = None" if "k < a"
    using "2.prems" that by (auto simp: map_of_eq_None_iff)
  with 2 show ?case by (auto simp: fun_eq_iff split: option.splits)
qed simp

lemma map_of_smap_assign [smap_simps]: "map_of (smap_assign k v m) = (map_of m)(k \<mapsto> v)"
  by (induction k v m rule: smap_assign.induct) (auto simp: fun_eq_iff)

lemma map_of_smap_erase [smap_simps]: "map_of (smap_erase k m) = (map_of m)(k := None)"
  by (induction m) (auto simp: smap_erase_def fun_eq_iff)

lemma smap_ok_distinct: "smap_ok m \<Longrightarrow> distinct (map fst m)"
  by (simp add: smap_ok_def strict_sorted_iff)

lemma set_smap_iff: "smap_ok m \<Longrightarrow> (k, v) \<in> set m \<longleftrightarrow> map_of m k = Some v"
  by (metis map_of_SomeD map_of_eq_Some_iff smap_ok_distinct)

lemma smap_empty_iff: "m = [] \<longleftrightarrow> (\<forall>k. map_of m k = None)"
proof
  assume "\<forall>k. map_of m k = None"
  then have "fst ` set m = {}" by (auto simp: map_of_eq_None_iff)
  then show "m = []" by simp
qed simp

text \<open>A strictly sorted association list is the only one with its lookup function.\<close>

lemma smap_eqI:
  assumes "smap_ok m" and "smap_ok n" and "map_of m = map_of n"
  shows "m = n"
proof (rule map_sorted_distinct_set_unique[of fst])
  show "inj_on fst (set m \<union> set n)"
    using assms by (auto simp: inj_on_def set_smap_iff)
  show "sorted (map fst m)" "sorted (map fst n)" "distinct (map fst m)" "distinct (map fst n)"
    using assms(1,2) by (simp_all add: smap_ok_def strict_sorted_iff)
  show "set m = set n"
    using assms by (auto simp: set_smap_iff)
qed

interpretation smap_store: keyed_store map_of smap_insert smap_erase smap_ok
  by unfold_locales (auto simp: smap_simps split: option.splits)

section \<open>Lemmas on the sorted lists that stand for sets\<close>

lemma sset_ok_Nil [simp]: "sset_ok []"
  by (simp add: sset_ok_def)

lemma sset_ok_Cons [simp]: "sset_ok (a # s) \<longleftrightarrow> (\<forall>x \<in> set s. a < x) \<and> sset_ok s"
  by (simp add: sset_ok_def)

lemma set_sset_insert [sset_simps, simp]: "set (sset_insert k s) = insert k (set s)"
  by (induction k s rule: sset_insert.induct) auto

lemma sset_ok_insert [simp]: "sset_ok s \<Longrightarrow> sset_ok (sset_insert k s)"
  by (induction k s rule: sset_insert.induct) auto

lemma set_sset_erase [sset_simps, simp]: "set (sset_erase k s) = set s - {k}"
  by (auto simp: sset_erase_def)

lemma sset_ok_erase [simp]: "sset_ok s \<Longrightarrow> sset_ok (sset_erase k s)"
  by (simp add: sset_ok_def sset_erase_def sorted_wrt_filter)

lemma sset_eqI: "sset_ok s \<Longrightarrow> sset_ok t \<Longrightarrow> set s = set t \<Longrightarrow> s = t"
  by (simp add: sset_ok_def strict_sorted_equal)

lemma sset_insert_not_Nil [simp]: "sset_insert k s \<noteq> []"
  by (metis empty_iff insert_iff set_empty set_sset_insert)

section \<open>Lemmas on the memory image\<close>

lemma length_u64_bytes [simp]: "length (u64_bytes x) = 8"
  by (simp add: u64_bytes_def)

lemma bytes_u64_bytes [simp]: "bytes_u64 (u64_bytes x) = x"
proof (rule bit_eqI)
  fix n assume "possible_bit TYPE(u64) n"
  then have n: "n < 64" by simp
  then have "n div 8 < 8" by simp
  with n show "bit (bytes_u64 (u64_bytes x)) n = bit x n"
    by (simp add: bytes_u64_def u64_bytes_def bit_word_of_int_iff bit_unsigned_iff bit_drop_bit_eq
        bit_horner_sum_uint_exp_iff[where 'a = 8, simplified])
qed

lemma take_u64_bytes [simp]: "take 8 (u64_bytes x @ r) = u64_bytes x"
  by simp

lemma drop_u64_bytes [simp]: "drop 8 (u64_bytes x @ r) = r"
  by simp

section \<open>Lemmas on decimal output\<close>

definition string_nat :: "string \<Rightarrow> nat" where
  "string_nat s = foldl (\<lambda>n c. 10 * n + (of_char c - 48)) 0 s"

lemma string_nat_string [simp]: "string_nat (nat_string n) = n"
proof (induction n rule: nat_string.induct)
  case (1 n)
  have d: "of_char (char_of (48 + m) :: char) - 48 = m" if "m < 10" for m :: nat
    using that by (simp add: of_char_of)
  show ?case
  proof (cases "n < 10")
    case True
    then show ?thesis by (subst nat_string.simps) (simp add: string_nat_def d)
  next
    case False
    then have "string_nat (nat_string n) = 10 * (n div 10) + n mod 10"
      using 1 d[of "n mod 10"] by (subst nat_string.simps) (simp add: string_nat_def)
    then show ?thesis by simp
  qed
qed

lemma nat_string_inj [simp]: "nat_string m = nat_string n \<longleftrightarrow> m = n"
  by (metis string_nat_string)

lemma nat_string_not_Nil [simp]: "nat_string n \<noteq> []"
  by (subst nat_string.simps) auto

section \<open>Lemmas on unsigned words and the narrowing cast\<close>

lemma unat_add_one: "unat (x :: u64) < unat (y :: u64) \<Longrightarrow> unat (x + 1) = Suc (unat x)"
proof -
  assume "unat x < unat y"
  then have "Suc (unat x) \<le> unat y" by simp
  also have "unat y < 2 ^ LENGTH(64)" by (rule unsigned_less)
  finally show ?thesis by (simp add: unat_word_ariths)
qed

lemma to_int32_eq: "to_int32 x = signed_take_bit 31 (uint x)"
proof -
  have "to_int32 x = signed_take_bit 31 (take_bit 32 (uint x))"
    by (simp only: to_int32_def sint_uint unsigned_ucast_eq) simp
  then show ?thesis by (simp add: signed_take_bit_take_bit)
qed

lemma uint_window: "- (2 ^ 31) \<le> uint (x :: u64)" "- uint (x :: u64) < 2 ^ 31"
  using uint_nonnegative[of x] by (smt (verit) zero_less_power)+

lemma to_int32_nonneg: "unat x < 2 ^ 31 \<Longrightarrow> to_int32 x = int (unat x)"
proof -
  assume "unat x < 2 ^ 31"
  then have "int (unat x) < int (2 ^ 31)" by (simp only: of_nat_less_iff)
  then have "uint x < 2 ^ 31" by simp
  then have "signed_take_bit 31 (uint x) = uint x"
    by (rule signed_take_bit_int_eq_self[OF uint_window(1)])
  then show ?thesis by (simp add: to_int32_eq)
qed

lemma to_int32_neg: "unat x \<le> 2 ^ 31 \<Longrightarrow> to_int32 (- x) = - int (unat x)"
proof -
  assume "unat x \<le> 2 ^ 31"
  then have "int (unat x) \<le> int (2 ^ 31)" by (simp only: of_nat_le_iff)
  then have "- (2 ^ 31) \<le> - uint x" by simp
  then have s: "signed_take_bit 31 (- uint x) = - uint x"
    using uint_window(2) by (rule signed_take_bit_int_eq_self)
  have "to_int32 (- x) = signed_take_bit 31 (take_bit 64 (- uint x))"
    by (simp only: to_int32_eq uint_word_ariths take_bit_eq_mod) simp
  also have "\<dots> = - uint x"
    by (simp add: signed_take_bit_take_bit s)
  finally show ?thesis by simp
qed

end
