(* ===== verification/PidTracker.thy ===== *)
theory PidTracker
  imports Prelude
begin

text \<open>
  \<^verbatim>\<open>lib/PidTracker.h\<close> and \<^verbatim>\<open>lib/PidTracker.cpp\<close>: which persistence ids have
  been enqueued. The main record keeps the highest id below which everything is enqueued
  and the set of ids enqueued beyond a gap; the duplicate map holds further enqueues of
  an id that was already given out; the pending map holds the tokens of the smart
  asynchronous mode. Every operation runs under its mutex, so it is one function on the
  tracker. \<^verbatim>\<open>waitForPid\<close> blocks: it is a function of the list of tracker states the
  thread sees, one at every acquisition of a mutex (on entry to a phase and after every
  wake-up), and \<open>Blocked\<close> when the list ends before it returns.
\<close>

section \<open>State\<close>

type_synonym qm_map = "(u64, u64 sset) smap"

record pid_record =
  lastPid :: u64
  gapPidSet :: "u64 sset"

record pid_tracker =
  dupMap :: qm_map
  pendMap :: qm_map
  mainRecord :: pid_record
  stopped :: bool

definition PidRecord :: "u64 \<Rightarrow> pid_record" where
  "PidRecord p = \<lparr>lastPid = p, gapPidSet = []\<rparr>"

definition PidRecord_copy :: "pid_record \<Rightarrow> pid_record" where
  "PidRecord_copy r = \<lparr>lastPid = lastPid r, gapPidSet = gapPidSet r\<rparr>"

definition PidRecord_assign :: "pid_record \<Rightarrow> pid_record \<Rightarrow> pid_record" where
  "PidRecord_assign r other =
     r\<lparr>lastPid := lastPid other, gapPidSet := fold sset_insert (gapPidSet other) []\<rparr>"

definition PidTracker_new :: pid_tracker where
  "PidTracker_new = \<lparr>dupMap = [], pendMap = [], mainRecord = PidRecord 0, stopped = False\<rparr>"

definition PidTracker_reset :: "u64 \<Rightarrow> pid_tracker \<Rightarrow> pid_tracker" where
  "PidTracker_reset p t = t\<lparr>mainRecord := (mainRecord t)\<lparr>lastPid := p, gapPidSet := []\<rparr>\<rparr>"

section \<open>Operations\<close>

text \<open>\<^verbatim>\<open>m.find(qid)\<close> followed by \<^verbatim>\<open>find(pid)\<close> in the set found.\<close>

definition qm_mem :: "qm_map \<Rightarrow> u64 \<Rightarrow> u64 \<Rightarrow> bool" where
  "qm_mem m q p = (case map_of m q of None \<Rightarrow> False | Some s \<Rightarrow> p \<in> set s)"

text \<open>The two condition variables a call may signal.\<close>

datatype signal = DuplicateNotEnqueued | NotYetEnqueued

text \<open>The loop of \<^verbatim>\<open>addPid\<close> over the gap set. The code dereferences the iterator before it
  compares it with \<^verbatim>\<open>end()\<close>; whatever it reads there, the second conjunct ends the loop.\<close>

fun absorb :: "u64 \<Rightarrow> u64 sset \<Rightarrow> pid_record" where
  "absorb l [] = \<lparr>lastPid = l, gapPidSet = []\<rparr>"
| "absorb l (g # gs) =
     (if to_int32 (g - l) \<le> 1 then absorb (max g l) gs
      else \<lparr>lastPid = l, gapPidSet = g # gs\<rparr>)"

definition add_main :: "u64 \<Rightarrow> pid_record \<Rightarrow> bool \<times> pid_record" where
  "add_main p r =
     (if to_int32 (p - lastPid r) > 1
      then (False, if p > lastPid r then r\<lparr>gapPidSet := sset_insert p (gapPidSet r)\<rparr> else r)
      else (True, absorb (max p (lastPid r)) (gapPidSet r)))"

definition addPid :: "u64 \<Rightarrow> u64 \<Rightarrow> pid_tracker \<Rightarrow> bool \<times> signal list \<times> pid_tracker" where
  "addPid p q t =
     (case map_of (dupMap t) q of
        Some s \<Rightarrow>
          if p \<in> set s then
            (let s' = sset_erase p s;
                 d = (if s' = [] then smap_erase q (dupMap t) else smap_assign q s' (dupMap t))
             in (True, [DuplicateNotEnqueued, NotYetEnqueued], t\<lparr>dupMap := d\<rparr>))
          else (case add_main p (mainRecord t) of
                  (u, r) \<Rightarrow> (u, if u then [NotYetEnqueued] else [], t\<lparr>mainRecord := r\<rparr>))
      | None \<Rightarrow> (case add_main p (mainRecord t) of
                  (u, r) \<Rightarrow> (u, if u then [NotYetEnqueued] else [], t\<lparr>mainRecord := r\<rparr>)))"

definition addDuplicate :: "u64 \<Rightarrow> u64 \<Rightarrow> pid_tracker \<Rightarrow> bool \<times> pid_tracker" where
  "addDuplicate p q t =
     (case map_of (dupMap t) q of
        Some s \<Rightarrow> (True, t\<lparr>dupMap := smap_assign q (sset_insert p s) (dupMap t)\<rparr>)
      | None \<Rightarrow> (True, t\<lparr>dupMap := smap_insert q [p] (dupMap t)\<rparr>))"

datatype wait_result = Returned int | Blocked

fun wait_main :: "u64 \<Rightarrow> nat \<Rightarrow> pid_tracker list \<Rightarrow> wait_result" where
  "wait_main p n [] = Blocked"
| "wait_main p n (s # ss) =
     (if p > lastPid (mainRecord s) then
        (case ss of
           [] \<Rightarrow> Blocked
         | w # _ \<Rightarrow>
             if stopped w then Returned (-2)
             else if Suc n > 100 then Returned (-1)
             else wait_main p (Suc n) ss)
      else Returned (int n))"

fun wait_dup :: "u64 \<Rightarrow> u64 \<Rightarrow> nat \<Rightarrow> pid_tracker list \<Rightarrow> wait_result" where
  "wait_dup p q n [] = Blocked"
| "wait_dup p q n (s # ss) =
     (if qm_mem (dupMap s) q p then
        (case ss of
           [] \<Rightarrow> Blocked
         | w # _ \<Rightarrow>
             if stopped w then Returned (-2)
             else if Suc n > 100 then Returned (-1)
             else wait_dup p q (Suc n) ss)
      else if n > 100 then Returned (-1)
      else wait_main p n ss)"

definition waitForPid :: "u64 \<Rightarrow> u64 \<Rightarrow> pid_tracker list \<Rightarrow> wait_result" where
  "waitForPid p q obs = wait_dup p q 0 obs"

definition willEnqueue :: "u64 \<Rightarrow> u64 \<Rightarrow> pid_tracker \<Rightarrow> bool \<times> pid_tracker" where
  "willEnqueue p q t =
     (case map_of (pendMap t) q of
        Some s \<Rightarrow> (p \<notin> set s, t\<lparr>pendMap := smap_assign q (sset_insert p s) (pendMap t)\<rparr>)
      | None \<Rightarrow> (True, t\<lparr>pendMap := smap_insert q [p] (pendMap t)\<rparr>))"

definition dequeueCheck :: "u64 \<Rightarrow> u64 \<Rightarrow> pid_tracker \<Rightarrow> bool \<times> pid_tracker" where
  "dequeueCheck p q t =
     (case map_of (pendMap t) q of
        Some s \<Rightarrow>
          if p \<in> set s then (False, t\<lparr>pendMap := smap_assign q (sset_erase p s) (pendMap t)\<rparr>)
          else (True, t)
      | None \<Rightarrow> (True, t))"

definition enqueueCheck :: "u64 \<Rightarrow> u64 \<Rightarrow> pid_tracker \<Rightarrow> bool \<times> pid_tracker" where
  "enqueueCheck p q t =
     (case map_of (pendMap t) q of
        Some s \<Rightarrow>
          if p \<in> set s then (True, t\<lparr>pendMap := smap_assign q (sset_erase p s) (pendMap t)\<rparr>)
          else (False, t)
      | None \<Rightarrow> (False, t))"

definition PidTracker_stop :: "pid_tracker \<Rightarrow> signal list \<times> pid_tracker" where
  "PidTracker_stop t = ([NotYetEnqueued, DuplicateNotEnqueued], t\<lparr>stopped := True\<rparr>)"

section \<open>What the main record stands for\<close>

text \<open>The ids the record counts as enqueued, and the shape the operations keep it in: the
  gap set is sorted, starts at least two above the last id and stays below the point where
  the narrowing cast of the difference turns negative.\<close>

definition enqueued :: "pid_record \<Rightarrow> u64 set" where
  "enqueued r = {p. p \<le> lastPid r} \<union> set (gapPidSet r)"

definition below_window :: "u64 \<Rightarrow> u64 \<Rightarrow> bool" where
  "below_window l p \<longleftrightarrow> unat p < unat l + 2 ^ 31"

definition record_ok :: "pid_record \<Rightarrow> bool" where
  "record_ok r \<longleftrightarrow> sset_ok (gapPidSet r) \<and>
     (\<forall>g \<in> set (gapPidSet r). unat (lastPid r) + 1 < unat g \<and> below_window (lastPid r) g)"

text \<open>A set of ids that grows by single insertions and whose representation is canonical:
  the order in which the ids arrive cannot be seen in the result.\<close>

locale seen_set =
  fixes step :: "'a \<Rightarrow> 's \<Rightarrow> 's"
    and seen :: "'s \<Rightarrow> 'a set"
    and ok :: "'s \<Rightarrow> bool"
    and adm :: "'s \<Rightarrow> 'a \<Rightarrow> bool"
  assumes seen_step: "ok s \<Longrightarrow> adm s a \<Longrightarrow> seen (step a s) = insert a (seen s)"
    and ok_step: "ok s \<Longrightarrow> adm s a \<Longrightarrow> ok (step a s)"
    and adm_step: "ok s \<Longrightarrow> adm s a \<Longrightarrow> adm s b \<Longrightarrow> adm (step a s) b"
    and canonical: "ok s \<Longrightarrow> ok t \<Longrightarrow> seen s = seen t \<Longrightarrow> s = t"
begin

lemma fold_seen:
  "ok s \<Longrightarrow> \<forall>a \<in> set xs. adm s a \<Longrightarrow> ok (fold step xs s) \<and> seen (fold step xs s) = seen s \<union> set xs"
proof (induction xs arbitrary: s)
  case (Cons x xs)
  then have "ok (step x s)" and "\<forall>a \<in> set xs. adm (step x s) a"
    by (auto intro: ok_step adm_step)
  with Cons.IH have "ok (fold step xs (step x s)) \<and>
      seen (fold step xs (step x s)) = seen (step x s) \<union> set xs"
    by blast
  with Cons.prems show ?case by (simp add: seen_step)
qed simp

lemma fold_order_irrelevant:
  assumes "ok s" and "\<forall>a \<in> set xs. adm s a" and "set xs = set ys"
  shows "fold step xs s = fold step ys s"
  using fold_seen[of s xs] fold_seen[of s ys] assms by (intro canonical) simp_all

lemma fold_reaches:
  assumes "ok s" and "\<forall>a \<in> set xs. adm s a" and "ok t" and "seen t = seen s \<union> set xs"
  shows "fold step xs s = t"
  using fold_seen[of s xs] assms by (intro canonical) simp_all

end

section \<open>Lemmas on the main record\<close>

lemma diff_above: "l \<le> (p :: u64) \<Longrightarrow> below_window l p \<Longrightarrow> to_int32 (p - l) = int (unat p) - int (unat l)"
proof -
  assume a: "l \<le> p" "below_window l p"
  then have "unat l \<le> unat p" "unat (p - l) = unat p - unat l"
    by (simp_all add: word_le_nat_alt unat_sub)
  with a(2) show ?thesis
    by (simp add: to_int32_nonneg below_window_def)
qed

lemma diff_above_iff:
  "l \<le> (p :: u64) \<Longrightarrow> below_window l p \<Longrightarrow> to_int32 (p - l) > 1 \<longleftrightarrow> Suc (unat l) < unat p"
  using diff_above[of l p] by linarith

lemma diff_below: "p < (l :: u64) \<Longrightarrow> unat l \<le> unat p + 2 ^ 31 \<Longrightarrow> to_int32 (p - l) \<le> 0"
proof -
  assume a: "p < l" "unat l \<le> unat p + 2 ^ 31"
  then have "unat (l - p) \<le> 2 ^ 31" by (simp add: unat_sub less_imp_le)
  then have "to_int32 (- (l - p)) \<le> 0" by (subst to_int32_neg) simp_all
  then show ?thesis by simp
qed

lemma absorb_spec:
  assumes "sset_ok gs" and "\<forall>g \<in> set gs. l < g \<and> below_window l g"
  shows "record_ok (absorb l gs) \<and> enqueued (absorb l gs) = {p. p \<le> l} \<union> set gs
    \<and> l \<le> lastPid (absorb l gs)"
  using assms
proof (induction l gs rule: absorb.induct)
  case (1 l)
  then show ?case by (simp add: record_ok_def enqueued_def)
next
  case (2 l g gs)
  then have g: "l < g" "below_window l g" by simp_all
  then have diff: "to_int32 (g - l) = int (unat g) - int (unat l)"
    by (intro diff_above) simp_all
  have tail: "\<forall>h \<in> set gs. g < h \<and> below_window g h"
    using "2.prems" g(1) by (auto simp: below_window_def word_less_nat_alt)
  show ?case
  proof (cases "to_int32 (g - l) \<le> 1")
    case True
    with diff have "int (unat g) - int (unat l) \<le> 1" by simp
    moreover have "unat l < unat g" using g(1) by (simp add: word_less_nat_alt)
    ultimately have "unat g = Suc (unat l)" by linarith
    then have le: "{p. p \<le> g} = insert g {p. p \<le> l}"
      by (auto simp: word_le_nat_alt le_Suc_eq word_unat_eq_iff)
    have mx: "max g l = g" using g(1) by (intro max_absorb1) simp
    have "record_ok (absorb g gs) \<and> enqueued (absorb g gs) = {p. p \<le> g} \<union> set gs
        \<and> g \<le> lastPid (absorb g gs)"
      using "2.IH"[OF True] "2.prems"(1) tail by (simp add: mx)
    with True g(1) show ?thesis by (auto simp: mx le)
  next
    case False
    with diff have "Suc (unat l) < unat g" by linarith
    with "2.prems" False show ?thesis
      by (auto simp: record_ok_def enqueued_def word_less_nat_alt)
  qed
qed

lemma record_canonical:
  assumes "record_ok r" and "record_ok s" and "enqueued r = enqueued s"
  shows "r = s"
proof -
  have le: "lastPid a \<le> lastPid b"
    if "record_ok a" "record_ok b" "enqueued a = enqueued b" for a b
  proof (rule ccontr)
    assume "\<not> lastPid a \<le> lastPid b"
    then have lt: "unat (lastPid b) < unat (lastPid a)" by (simp add: word_le_nat_alt)
    then have u: "unat (lastPid b + 1) = Suc (unat (lastPid b))"
      by (rule unat_add_one)
    then have "lastPid b + 1 \<in> enqueued a"
      using lt by (simp add: enqueued_def word_le_nat_alt)
    with that have "lastPid b + 1 \<in> enqueued b" by simp
    with that(2) u show False
      by (auto simp: enqueued_def record_ok_def word_le_nat_alt)
  qed
  from le[OF assms] le[OF assms(2,1) assms(3)[symmetric]] have l: "lastPid r = lastPid s" by simp
  have "set (gapPidSet a) = enqueued a - {p. p \<le> lastPid a}" if "record_ok a" for a
    using that by (auto simp: enqueued_def record_ok_def word_le_nat_alt)
  with assms l have "set (gapPidSet r) = set (gapPidSet s)" by simp
  with assms have "gapPidSet r = gapPidSet s" by (auto simp: record_ok_def intro: sset_eqI)
  with l show ?thesis by simp
qed

lemma add_main_spec:
  assumes "record_ok r" and "below_window (lastPid r) p"
  shows "record_ok (snd (add_main p r)) \<and> enqueued (snd (add_main p r)) = insert p (enqueued r)
    \<and> lastPid r \<le> lastPid (snd (add_main p r))"
proof (cases "lastPid r < p")
  case True
  then have diff: "to_int32 (p - lastPid r) = int (unat p) - int (unat (lastPid r))"
    using assms(2) by (intro diff_above) simp_all
  show ?thesis
  proof (cases "to_int32 (p - lastPid r) > 1")
    case far: True
    with diff have "Suc (unat (lastPid r)) < unat p" by linarith
    with far True assms show ?thesis
      by (auto simp: add_main_def record_ok_def enqueued_def)
  next
    case False
    with diff have "int (unat p) - int (unat (lastPid r)) \<le> 1" by simp
    moreover have "unat (lastPid r) < unat p" using True by (simp add: word_less_nat_alt)
    ultimately have "unat p = Suc (unat (lastPid r))" by linarith
    then have le: "{x. x \<le> p} = insert p {x. x \<le> lastPid r}"
      by (auto simp: word_le_nat_alt le_Suc_eq word_unat_eq_iff)
    have "\<forall>g \<in> set (gapPidSet r). p < g \<and> below_window p g"
      using assms \<open>unat p = _\<close> by (auto simp: record_ok_def below_window_def word_less_nat_alt)
    with assms(1) absorb_spec[of "gapPidSet r" p] True False le show ?thesis
      by (auto simp: add_main_def record_ok_def enqueued_def max_def)
  qed
next
  case False
  then have p: "p \<in> enqueued r" "max p (lastPid r) = lastPid r"
    by (auto simp: enqueued_def max_def)
  have "\<forall>g \<in> set (gapPidSet r). lastPid r < g \<and> below_window (lastPid r) g"
    using assms(1) by (auto simp: record_ok_def word_less_nat_alt)
  with assms(1) absorb_spec[of "gapPidSet r" "lastPid r"] False p show ?thesis
    by (auto simp: add_main_def insert_absorb record_ok_def enqueued_def)
qed

interpretation main_record: seen_set "\<lambda>p r. snd (add_main p r)" enqueued record_ok
  "\<lambda>r p. below_window (lastPid r) p"
proof unfold_locales
  fix r p q
  assume "record_ok r" and p: "below_window (lastPid r) p" and q: "below_window (lastPid r) q"
  then have "lastPid r \<le> lastPid (snd (add_main p r))" using add_main_spec by blast
  with q show "below_window (lastPid (snd (add_main p r))) q"
    by (simp add: below_window_def word_le_nat_alt)
qed (use add_main_spec record_canonical in blast)+

lemma add_main_updated:
  assumes "record_ok r" and "below_window (lastPid r) p" and "unat (lastPid r) \<le> unat p + 2 ^ 31"
  shows "fst (add_main p r) \<longleftrightarrow> p \<le> lastPid (snd (add_main p r))"
proof (cases "to_int32 (p - lastPid r) > 1")
  case True
  then have "lastPid r < p"
    using diff_below[of p "lastPid r"] assms(3)
    by (cases "lastPid r" p rule: linorder_cases) (auto simp: to_int32_eq)
  with True show ?thesis by (auto simp: add_main_def)
next
  case False
  have "p \<in> enqueued (snd (add_main p r))" "record_ok (snd (add_main p r))"
    using add_main_spec[OF assms(1,2)] by auto
  then have "p \<le> lastPid (snd (add_main p r)) \<or> unat (lastPid r) + 1 < unat p"
    using add_main_spec[OF assms(1,2)] by (auto simp: enqueued_def record_ok_def word_le_nat_alt)
  then have "p \<le> lastPid (snd (add_main p r))"
    using False diff_above_iff[of "lastPid r" p] assms(2) by (auto simp: word_le_nat_alt)
  with False show ?thesis by (simp add: add_main_def)
qed

lemma addPid_fresh:
  "\<not> qm_mem (dupMap t) q p \<Longrightarrow>
   addPid p q t = (let (u, r) = add_main p (mainRecord t)
                   in (u, if u then [NotYetEnqueued] else [], t\<lparr>mainRecord := r\<rparr>))"
  by (auto simp: addPid_def qm_mem_def split: option.splits prod.splits)

section \<open>Properties\<close>

text \<open>C16. \<^verbatim>\<open>addPid\<close> of an id that is no registered duplicate adds exactly that id to the
  ids counted as enqueued, whatever the gaps, keeps the record well formed and leaves the
  rest of the tracker alone. It reports an update, and signals the waiting dequeuers,
  exactly when the id is now below the contiguous mark they wait for.\<close>

theorem addPid_refines_insert:
  assumes "record_ok (mainRecord t)" and "\<not> qm_mem (dupMap t) q p"
    and "below_window (lastPid (mainRecord t)) p"
    and "unat (lastPid (mainRecord t)) \<le> unat p + 2 ^ 31"
    and "addPid p q t = (u, sg, t')"
  shows "enqueued (mainRecord t') = insert p (enqueued (mainRecord t)) \<and>
    record_ok (mainRecord t') \<and>
    (u \<longleftrightarrow> p \<le> lastPid (mainRecord t')) \<and>
    (NotYetEnqueued \<in> set sg \<longleftrightarrow> u) \<and>
    dupMap t' = dupMap t \<and> pendMap t' = pendMap t \<and> stopped t' = stopped t"
proof -
  have main: "u = fst (add_main p (mainRecord t))" "mainRecord t' = snd (add_main p (mainRecord t))"
    and frame: "NotYetEnqueued \<in> set sg \<longleftrightarrow> u" "dupMap t' = dupMap t" "pendMap t' = pendMap t"
      "stopped t' = stopped t"
    using assms(5) by (auto simp: addPid_fresh[OF assms(2)] split: prod.splits if_splits)
  show ?thesis
    unfolding main(2) using add_main_spec[OF assms(1,3)] add_main_updated[OF assms(1,3,4)]
    by (simp only: frame main(1) simp_thms)
qed

theorem addPid_refines_insert_witness:
  "addPid 7 1 (PidTracker_reset 5 PidTracker_new) =
     (False, [], PidTracker_new\<lparr>mainRecord := \<lparr>lastPid = 5, gapPidSet = [7]\<rparr>\<rparr>) \<and>
   enqueued \<lparr>lastPid = 5, gapPidSet = [7]\<rparr> = insert 7 (enqueued (PidRecord 5))"
proof -
  have e: "addPid 7 1 (PidTracker_reset 5 PidTracker_new) =
     (False, [], PidTracker_new\<lparr>mainRecord := \<lparr>lastPid = 5, gapPidSet = [7]\<rparr>\<rparr>)"
    by (simp add: addPid_def PidTracker_reset_def PidTracker_new_def PidRecord_def add_main_def to_int32_def)
  show ?thesis
    using e addPid_refines_insert[OF _ _ _ _ e]
    by (simp add: record_ok_def qm_mem_def below_window_def PidTracker_reset_def PidTracker_new_def
        PidRecord_def)
qed

text \<open>Enqueues may complete in any order: once every id from the last contiguous one up
  to \<open>n\<close> has been added, in whatever order and however often, the record is exactly the
  one with \<open>n\<close> as its last id and no gap left.\<close>

theorem addPid_any_order:
  assumes "set ps = {p. l < p \<and> p \<le> n}" and "l \<le> n" and "below_window l n"
  shows "fold (\<lambda>p r. snd (add_main p r)) ps (PidRecord l) = PidRecord n"
proof (rule main_record.fold_reaches)
  show "record_ok (PidRecord l)" "record_ok (PidRecord n)"
    by (simp_all add: record_ok_def PidRecord_def)
  show "\<forall>a\<in>set ps. below_window (lastPid (PidRecord l)) a"
    using assms(1,3) by (auto simp: below_window_def PidRecord_def word_le_nat_alt)
  show "enqueued (PidRecord n) = enqueued (PidRecord l) \<union> set ps"
    unfolding enqueued_def PidRecord_def assms(1) using assms(2)
    by (auto simp del: word_not_simps intro: order_trans)
qed

theorem addPid_any_order_witness:
  "fold (\<lambda>p r. snd (add_main p r)) [8, 6, 7] (PidRecord 5) = PidRecord 8"
proof (rule addPid_any_order)
  have "x = 6 \<or> x = 7 \<or> x = 8" if "5 < x" "x \<le> 8" for x :: u64
  proof -
    have "unat x = 6 \<or> unat x = 7 \<or> unat x = 8"
      using that by (simp add: word_less_nat_alt word_le_nat_alt) arith
    then show ?thesis by (auto simp: word_unat_eq_iff)
  qed
  then show "set [8, 6, 7] = {p :: u64. 5 < p \<and> p \<le> 8}" by auto
qed (simp_all add: below_window_def)

lemma wait_main_success: "wait_main p n obs = Returned k \<Longrightarrow> 0 \<le> k \<Longrightarrow>
    \<exists>s \<in> set obs. p \<le> lastPid (mainRecord s)"
  by (induction p n obs rule: wait_main.induct) (auto split: if_splits list.splits)

lemma wait_dup_success: "wait_dup p q n obs = Returned k \<Longrightarrow> 0 \<le> k \<Longrightarrow>
    (\<exists>s \<in> set obs. \<not> qm_mem (dupMap s) q p) \<and> (\<exists>s \<in> set obs. p \<le> lastPid (mainRecord s))"
  by (induction p q n obs rule: wait_dup.induct)
    (auto dest: wait_main_success split: if_splits list.splits)



text \<open>What an answer \<open>k\<close> says about the states seen.\<close>

definition wait_answer :: "nat \<Rightarrow> pid_tracker list \<Rightarrow> int \<Rightarrow> bool" where
  "wait_answer n obs k \<longleftrightarrow> (0 \<le> k \<and> k \<le> 100) \<or> (k = -2 \<and> (\<exists>s \<in> set obs. stopped s)) \<or>
     (k = -1 \<and> 101 < n + length obs)"

lemma wait_answer_Cons: "wait_answer (Suc n) ss k \<Longrightarrow> wait_answer n (s # ss) k"
  by (auto simp: wait_answer_def)

lemma wait_answer_skip: "wait_answer n ss k \<Longrightarrow> wait_answer n (s # ss) k"
  by (auto simp: wait_answer_def)

lemma wait_main_returns: "n \<le> 100 \<Longrightarrow> 101 - n < length obs \<Longrightarrow> wait_main p n obs \<noteq> Blocked"
  by (induction p n obs rule: wait_main.induct) (auto split: list.splits)

lemma wait_dup_returns: "n \<le> 100 \<Longrightarrow> Suc (101 - n) < length obs \<Longrightarrow> wait_dup p q n obs \<noteq> Blocked"
proof (induction p q n obs rule: wait_dup.induct)
  case (2 p q n s ss)
  then have "wait_main p n ss \<noteq> Blocked" by (intro wait_main_returns) auto
  with 2 show ?case by (cases ss) (auto simp del: wait_main.simps)
qed simp

lemma wait_main_code: "n \<le> 100 \<Longrightarrow> wait_main p n obs = Returned k \<Longrightarrow> wait_answer n obs k"
proof (induction p n obs rule: wait_main.induct)
  case (2 p n s ss)
  consider "k = int n" | w ws where "ss = w # ws" "stopped w" "k = -2"
    | w ws where "ss = w # ws" "n = 100" "k = -1"
    | w ws where "ss = w # ws" "p > lastPid (mainRecord s)" "\<not> stopped w" "n < 100"
        "wait_main p (Suc n) ss = Returned k"
    using "2.prems" by (auto simp del: wait_main.simps simp: wait_main.simps(2)[of p n s ss] split: if_splits list.splits)
  then show ?case
  proof cases
    case 4
    with "2.IH"[OF _ 4(1)] show ?thesis by (intro wait_answer_Cons) simp
  qed (use "2.prems" in \<open>auto simp: wait_answer_def\<close>)
qed simp

lemma wait_dup_code: "n \<le> 100 \<Longrightarrow> wait_dup p q n obs = Returned k \<Longrightarrow> wait_answer n obs k"
proof (induction p q n obs rule: wait_dup.induct)
  case (2 p q n s ss)
  note eq = wait_dup.simps(2)[of p q n s ss]
  show ?case
  proof (cases "qm_mem (dupMap s) q p")
    case False
    with "2.prems" eq have "wait_main p n ss = Returned k" by (simp del: wait_dup.simps wait_main.simps)
    with "2.prems"(1) show ?thesis by (intro wait_answer_skip wait_main_code)
  next
    case True
    with "2.prems" obtain w ws where ss: "ss = w # ws" by (cases ss) simp_all
    show ?thesis
    proof (cases "stopped w \<or> n = 100")
      case stop: True
      with True "2.prems" eq ss show ?thesis
        by (auto simp del: wait_dup.simps simp: wait_answer_def split: if_splits)
    next
      case False
      with True "2.prems" eq ss have "wait_dup p q (Suc n) ss = Returned k" by (simp del: wait_dup.simps)
      with "2.IH"[OF True ss] False "2.prems"(1) show ?thesis by (intro wait_answer_Cons) auto
    qed
  qed
qed simp

text \<open>C30. The wait is bounded and honest: after at most 101 wake-ups \<^verbatim>\<open>waitForPid\<close>
  returns; a non-negative answer means that the duplicate entry was seen gone and the id
  was seen at or below the contiguous mark; \<open>-2\<close> is answered only after a stop and
  \<open>-1\<close> only after more than a hundred wake-ups.\<close>

theorem waitForPid_bounded:
  "(102 < length obs \<longrightarrow> waitForPid p q obs \<noteq> Blocked) \<and>
   (\<forall>k. waitForPid p q obs = Returned k \<longrightarrow>
      (0 \<le> k \<and> k \<le> 100 \<and> (\<exists>s \<in> set obs. \<not> qm_mem (dupMap s) q p) \<and>
         (\<exists>s \<in> set obs. p \<le> lastPid (mainRecord s))) \<or>
      (k = -2 \<and> (\<exists>s \<in> set obs. stopped s)) \<or>
      (k = -1 \<and> 101 < length obs))"
proof (intro conjI impI allI)
  assume "102 < length obs"
  then show "waitForPid p q obs \<noteq> Blocked"
    unfolding waitForPid_def by (intro wait_dup_returns) simp_all
next
  fix k assume k: "waitForPid p q obs = Returned k"
  then have "0 \<le> k \<and> k \<le> 100 \<or> k = - 2 \<and> (\<exists>s\<in>set obs. stopped s) \<or> k = - 1 \<and> 101 < length obs"
    unfolding waitForPid_def using wait_dup_code[of 0 p q obs k] by (simp add: wait_answer_def)
  then show "(0 \<le> k \<and> k \<le> 100 \<and> (\<exists>s \<in> set obs. \<not> qm_mem (dupMap s) q p) \<and>
      (\<exists>s \<in> set obs. p \<le> lastPid (mainRecord s))) \<or>
    (k = -2 \<and> (\<exists>s \<in> set obs. stopped s)) \<or> (k = -1 \<and> 101 < length obs)"
    using wait_dup_success[of p q 0 obs k] k by (auto simp: waitForPid_def)
qed

theorem waitForPid_bounded_witness:
  "waitForPid 3 1 [PidTracker_new, PidTracker_new, PidTracker_reset 3 PidTracker_new] = Returned 1 \<and>
   waitForPid 3 1 (replicate 103 PidTracker_new) \<noteq> Blocked \<and>
   (\<exists>s \<in> set [PidTracker_new, PidTracker_new, PidTracker_reset 3 PidTracker_new].
      3 \<le> lastPid (mainRecord s))"
proof -
  have e: "waitForPid 3 1 [PidTracker_new, PidTracker_new, PidTracker_reset 3 PidTracker_new] = Returned 1"
    by code_simp
  have "waitForPid 3 1 (replicate 103 PidTracker_new) \<noteq> Blocked"
    using waitForPid_bounded[of "replicate 103 PidTracker_new" 3 1] by simp
  moreover have "\<exists>s \<in> set [PidTracker_new, PidTracker_new, PidTracker_reset 3 PidTracker_new].
      3 \<le> lastPid (mainRecord s)"
    using waitForPid_bounded[of "[PidTracker_new, PidTracker_new, PidTracker_reset 3 PidTracker_new]" 3 1] e
    by auto
  ultimately show ?thesis using e by blast
qed

lemma qm_mem_assign: "qm_mem (smap_assign q s m) q' p' = (if q' = q then p' \<in> set s else qm_mem m q' p')"
  by (simp add: qm_mem_def smap_simps)

lemma qm_mem_insert_new: "smap_ok m \<Longrightarrow> map_of m q = None \<Longrightarrow>
    qm_mem (smap_insert q s m) q' p' = (if q' = q then p' \<in> set s else qm_mem m q' p')"
  by (simp add: qm_mem_def smap_simps)

lemma willEnqueue_mem: "smap_ok (pendMap t) \<Longrightarrow>
    smap_ok (pendMap (snd (willEnqueue p q t))) \<and>
    (\<forall>q' p'. qm_mem (pendMap (snd (willEnqueue p q t))) q' p' \<longleftrightarrow> (q', p') = (q, p) \<or> qm_mem (pendMap t) q' p')"
  by (auto simp: willEnqueue_def qm_mem_assign qm_mem_insert_new split: option.splits)
    (auto simp: qm_mem_def split: option.splits)

lemma check_mem:
  "fst (dequeueCheck p q t) = (\<not> qm_mem (pendMap t) q p)"
  "fst (enqueueCheck p q t) = qm_mem (pendMap t) q p"
  "qm_mem (pendMap (snd (dequeueCheck p q t))) q' p' \<longleftrightarrow> qm_mem (pendMap t) q' p' \<and> (q', p') \<noteq> (q, p)"
  "qm_mem (pendMap (snd (enqueueCheck p q t))) q' p' \<longleftrightarrow> qm_mem (pendMap t) q' p' \<and> (q', p') \<noteq> (q, p)"
  unfolding dequeueCheck_def enqueueCheck_def
  by (auto simp: qm_mem_assign split: option.splits) (auto simp: qm_mem_def split: option.splits)

text \<open>C29. The smart asynchronous mode decides each message once: after \<^verbatim>\<open>willEnqueue\<close>, the
  worker's \<^verbatim>\<open>enqueueCheck\<close> and the consumer's \<^verbatim>\<open>dequeueCheck\<close> give the same answer in
  whichever order they run. Either the message is written and its removal is scheduled, or
  neither happens; the token is spent and no other message's token is touched.\<close>

theorem smart_async_decides_once:
  assumes "smap_ok (pendMap t)" and "t1 = snd (willEnqueue p q t)"
  shows "fst (enqueueCheck p q t1) \<and> fst (dequeueCheck p q (snd (enqueueCheck p q t1))) \<and>
    \<not> fst (dequeueCheck p q t1) \<and> \<not> fst (enqueueCheck p q (snd (dequeueCheck p q t1))) \<and>
    (\<forall>q' p'. (q', p') \<noteq> (q, p) \<longrightarrow>
       qm_mem (pendMap (snd (enqueueCheck p q t1))) q' p' = qm_mem (pendMap t) q' p' \<and>
       qm_mem (pendMap (snd (dequeueCheck p q t1))) q' p' = qm_mem (pendMap t) q' p')"
  using willEnqueue_mem[OF assms(1), of p q] by (auto simp: check_mem assms(2))

theorem smart_async_decides_once_witness:
  "smap_ok (pendMap PidTracker_new) \<and>
   fst (enqueueCheck 4 2 (snd (willEnqueue 4 2 PidTracker_new))) \<and>
   \<not> fst (dequeueCheck 4 2 (snd (willEnqueue 4 2 PidTracker_new)))"
proof -
  have "smap_ok (pendMap PidTracker_new)" by (simp add: PidTracker_new_def)
  from this smart_async_decides_once[OF this refl, of 4 2] show ?thesis by blast
qed



end
