(* ===== verification/PendingOps.thy ===== *)
theory PendingOps
  imports Prelude
begin

text \<open>
  \<^verbatim>\<open>lib/PendingOperationType.h\<close>, \<^verbatim>\<open>lib/PendingOperationSet.h\<close> and the comparison
  operators at the end of \<^verbatim>\<open>lib/AsyncOperationLogger.cpp\<close>: the descriptors of
  asynchronous operations, the two-level maps (queue id, then message id) they are kept
  in, and the matching of a start record with its completion that the log readers do with
  a pair of such maps, the pending operations and the completions seen before their start.
\<close>

section \<open>Descriptors\<close>

record pending_op =
  msgId :: u64
  queueId :: u64

record pending_enq = pending_op +
  enq_buff :: bytes
  enq_size :: u64
  enq_transient :: bool

type_synonym pending_deq = pending_op

definition PendingAsyncOperation :: "u64 \<Rightarrow> u64 \<Rightarrow> pending_op" where
  "PendingAsyncOperation m q = \<lparr>msgId = m, queueId = q\<rparr>"

definition PendingAsyncDequeue :: "u64 \<Rightarrow> u64 \<Rightarrow> pending_deq" where
  "PendingAsyncDequeue m q = PendingAsyncOperation m q"

definition PendingAsyncEnqueue :: "u64 \<Rightarrow> u64 \<Rightarrow> bool \<Rightarrow> pending_enq" where
  "PendingAsyncEnqueue m q t =
     \<lparr>msgId = m, queueId = q, enq_buff = [], enq_size = 0, enq_transient = t\<rparr>"

definition opId :: "'a pending_op_scheme \<Rightarrow> u64 \<times> u64" where
  "opId x = (msgId x, queueId x)"

definition pao_eq :: "pending_op \<Rightarrow> pending_op \<Rightarrow> bool" where
  "pao_eq l r = (msgId l = msgId r \<and> queueId l = queueId r)"

definition pao_neq :: "pending_op \<Rightarrow> pending_op \<Rightarrow> bool" where
  "pao_neq l r = (msgId l \<noteq> msgId r \<or> queueId l \<noteq> queueId r)"

definition pao_less :: "pending_op \<Rightarrow> pending_op \<Rightarrow> bool" where
  "pao_less l r = (if msgId l < msgId r then True else if queueId l < queueId r then True else False)"

definition pao_greater :: "pending_op \<Rightarrow> pending_op \<Rightarrow> bool" where
  "pao_greater l r = (if msgId l > msgId r then True else if queueId l > queueId r then True else False)"

definition pao_le :: "pending_op \<Rightarrow> pending_op \<Rightarrow> bool" where
  "pao_le l r = (pao_eq l r \<or> pao_less l r)"

definition pao_ge :: "pending_op \<Rightarrow> pending_op \<Rightarrow> bool" where
  "pao_ge l r = (pao_eq l r \<or> pao_greater l r)"

section \<open>Two-level maps\<close>

type_synonym 'v psub = "(u64, 'v) smap"
type_synonym 'v pset = "(u64, 'v psub) smap"

type_synonym PendingOperationSet = "pending_op pset"
type_synonym PendingDequeueSet = "pending_deq pset"
type_synonym PendingEnqueueSet = "pending_enq pset"

text \<open>The \<^verbatim>\<open>find(qid)\<close> / \<^verbatim>\<open>find(pid)\<close> pair, the insertion that creates the inner map when
  the queue has none, and the erasure that drops an inner map left empty.\<close>

definition pset_find :: "'v pset \<Rightarrow> u64 \<Rightarrow> u64 \<Rightarrow> 'v option" where
  "pset_find m q p = (case map_of m q of None \<Rightarrow> None | Some s \<Rightarrow> map_of s p)"

definition pset_insert :: "u64 \<Rightarrow> u64 \<Rightarrow> 'v \<Rightarrow> 'v pset \<Rightarrow> 'v pset" where
  "pset_insert q p v m =
     (case map_of m q of
        Some s \<Rightarrow> smap_assign q (smap_insert p v s) m
      | None \<Rightarrow> smap_insert q [(p, v)] m)"

definition pset_erase :: "u64 \<Rightarrow> u64 \<Rightarrow> 'v pset \<Rightarrow> 'v pset" where
  "pset_erase q p m =
     (case map_of m q of
        None \<Rightarrow> m
      | Some s \<Rightarrow>
          (case map_of s p of
             None \<Rightarrow> m
           | Some _ \<Rightarrow>
               (let s' = smap_erase p s
                in if s' = [] then smap_erase q m else smap_assign q s' m)))"

text \<open>The nested \<^verbatim>\<open>for\<close> loops over such a map visit the entries in this order.\<close>

definition pset_list :: "'v pset \<Rightarrow> 'v list" where
  "pset_list m = concat (map (\<lambda>(q, s). map snd s) m)"

definition pset_ok :: "'v pset \<Rightarrow> bool" where
  "pset_ok m \<longleftrightarrow> smap_ok m \<and> (\<forall>(q, s) \<in> set m. smap_ok s \<and> s \<noteq> [])"

section \<open>Matching starts with completions\<close>

text \<open>What both log readers do with a start record: a completion already seen for the
  operation cancels it, otherwise the operation becomes pending. A completion record
  removes the pending operation, or is remembered as lost when there is none.\<close>

type_synonym 'v replay_state = "'v pset \<times> PendingOperationSet"

fun log_start :: "u64 \<times> u64 \<Rightarrow> 'v \<Rightarrow> 'v replay_state \<Rightarrow> 'v replay_state" where
  "log_start (q, p) v (pend, lost) =
     (if pset_find lost q p \<noteq> None then (pend, pset_erase q p lost)
      else (pset_insert q p v pend, lost))"

fun log_complete :: "u64 \<times> u64 \<Rightarrow> 'v replay_state \<Rightarrow> 'v replay_state" where
  "log_complete (q, p) (pend, lost) =
     (if pset_find pend q p \<noteq> None then (pset_erase q p pend, lost)
      else (pend, pset_insert q p (PendingAsyncOperation p q) lost))"

text \<open>The records of a log, and the effect of reading them in sequence.\<close>

datatype ('k, 'v) oprec = Started 'k 'v | Completed 'k

fun replay :: "('k \<Rightarrow> 'v \<Rightarrow> 's \<Rightarrow> 's) \<Rightarrow> ('k \<Rightarrow> 's \<Rightarrow> 's) \<Rightarrow> ('k, 'v) oprec list \<Rightarrow> 's \<Rightarrow> 's" where
  "replay st cp [] s = s"
| "replay st cp (Started k v # rs) s = replay st cp rs (st k v s)"
| "replay st cp (Completed k # rs) s = replay st cp rs (cp k s)"

section \<open>One operation seen through the log\<close>

text \<open>The life of a single operation: an abstract three-state machine that both readers
  are shown to run for every key at once.\<close>

datatype 'v kstat = Idle | Pending 'v | Lost

fun k_start :: "'v \<Rightarrow> 'v kstat \<Rightarrow> 'v kstat" where
  "k_start v Idle = Pending v"
| "k_start v (Pending w) = Pending w"
| "k_start v Lost = Idle"

fun k_complete :: "'v kstat \<Rightarrow> 'v kstat" where
  "k_complete Idle = Lost"
| "k_complete (Pending w) = Idle"
| "k_complete Lost = Lost"

fun key_run :: "'k \<Rightarrow> ('k, 'v) oprec list \<Rightarrow> 'v kstat \<Rightarrow> 'v kstat" where
  "key_run k [] x = x"
| "key_run k (Started k' v # rs) x = key_run k rs (if k' = k then k_start v x else x)"
| "key_run k (Completed k' # rs) x = key_run k rs (if k' = k then k_complete x else x)"

fun starts :: "'k \<Rightarrow> ('k, 'v) oprec list \<Rightarrow> 'v list" where
  "starts k [] = []"
| "starts k (Started k' v # rs) = (if k' = k then v # starts k rs else starts k rs)"
| "starts k (Completed k' # rs) = starts k rs"

text \<open>Every operation is started at most once.\<close>

definition started_once :: "('k, 'v) oprec list \<Rightarrow> bool" where
  "started_once rs \<longleftrightarrow> (\<forall>k. length (starts k rs) \<le> 1)"

text \<open>The reader's contract, free of order: an operation is pending when its start was
  logged and its completion was not.\<close>

definition pending_at :: "('k, 'v) oprec list \<Rightarrow> 'k \<Rightarrow> 'v \<Rightarrow> bool" where
  "pending_at rs k v \<longleftrightarrow> Started k v \<in> set rs \<and> Completed k \<notin> set rs"

text \<open>The records a pair of pending and lost operations is written back as.\<close>

definition opkey :: "'a pending_op_scheme \<Rightarrow> u64 \<times> u64" where
  "opkey x = (queueId x, msgId x)"

definition start_records :: "'a pending_op_scheme pset \<Rightarrow> (u64 \<times> u64, 'a pending_op_scheme) oprec list" where
  "start_records m = map (\<lambda>v. Started (opkey v) v) (pset_list m)"

definition complete_records :: "PendingOperationSet \<Rightarrow> (u64 \<times> u64, 'v) oprec list" where
  "complete_records m = map (\<lambda>v. Completed (opkey v)) (pset_list m)"

text \<open>Every record files the operation under its own identifiers.\<close>

definition well_keyed :: "(u64 \<times> u64, 'a pending_op_scheme) oprec list \<Rightarrow> bool" where
  "well_keyed rs \<longleftrightarrow> (\<forall>k v. Started k v \<in> set rs \<longrightarrow> opkey v = k)"

definition replay_all :: "(u64 \<times> u64, 'v) oprec list \<Rightarrow> 'v replay_state" where
  "replay_all rs = replay log_start log_complete rs ([], [])"

definition pset_status :: "'v replay_state \<Rightarrow> u64 \<times> u64 \<Rightarrow> 'v kstat" where
  "pset_status s k =
     (case pset_find (fst s) (fst k) (snd k) of
        Some v \<Rightarrow> Pending v
      | None \<Rightarrow> if pset_find (snd s) (fst k) (snd k) \<noteq> None then Lost else Idle)"

definition replay_ok :: "'v replay_state \<Rightarrow> bool" where
  "replay_ok s \<longleftrightarrow> pset_ok (fst s) \<and> pset_ok (snd s) \<and>
     (\<forall>q p. pset_find (fst s) q p = None \<or> pset_find (snd s) q p = None)"

section \<open>The contract of a log reader\<close>

locale pending_log =
  fixes start :: "'k \<Rightarrow> 'v \<Rightarrow> 's \<Rightarrow> 's"
    and complete :: "'k \<Rightarrow> 's \<Rightarrow> 's"
    and status :: "'s \<Rightarrow> 'k \<Rightarrow> 'v kstat"
    and ok :: "'s \<Rightarrow> bool"
  assumes ok_start: "ok s \<Longrightarrow> ok (start k v s)"
    and ok_complete: "ok s \<Longrightarrow> ok (complete k s)"
    and status_start: "ok s \<Longrightarrow> status (start k v s) k' = (if k' = k then k_start v (status s k) else status s k')"
    and status_complete: "ok s \<Longrightarrow> status (complete k s) k' = (if k' = k then k_complete (status s k) else status s k')"
begin

lemma ok_replay: "ok s \<Longrightarrow> ok (replay start complete rs s)"
proof (induction rs arbitrary: s)
  case (Cons r rs)
  then show ?case by (cases r) (auto simp: ok_start ok_complete)
qed simp

lemma status_replay: "ok s \<Longrightarrow> status (replay start complete rs s) k = key_run k rs (status s k)"
proof (induction rs arbitrary: s)
  case (Cons r rs)
  then show ?case
    by (cases r) (auto simp: ok_start ok_complete status_start status_complete)
qed simp

end

section \<open>Lemmas on the two-level maps\<close>

lemma pset_ok_Nil [simp]: "pset_ok []"
  by (simp add: pset_ok_def)

lemma pset_find_Nil [simp]: "pset_find [] q p = None"
  by (simp add: pset_find_def)

lemma pset_find_Some_iff: "pset_find m q p = Some v \<longleftrightarrow> (\<exists>s. map_of m q = Some s \<and> map_of s p = Some v)"
  by (simp add: pset_find_def split: option.split)

lemma pset_ok_inner: "pset_ok m \<Longrightarrow> map_of m q = Some s \<Longrightarrow> smap_ok s \<and> s \<noteq> []"
  by (auto simp: pset_ok_def dest: map_of_SomeD)

lemma set_smap_assign: "smap_ok m \<Longrightarrow> (a, b) \<in> set (smap_assign k v m) \<longleftrightarrow> (a, b) = (k, v) \<or> (a \<noteq> k \<and> (a, b) \<in> set m)"
  by (auto simp: set_smap_iff map_of_smap_assign)

lemma set_smap_insert_new: "smap_ok m \<Longrightarrow> map_of m k = None \<Longrightarrow>
    (a, b) \<in> set (smap_insert k v m) \<longleftrightarrow> (a, b) = (k, v) \<or> (a, b) \<in> set m"
  by (auto simp: set_smap_iff map_of_smap_insert)

lemma smap_insert_not_Nil [simp]: "smap_insert k v m \<noteq> []"
  by (cases "(k, v, m)" rule: smap_insert.cases) auto

lemma pset_ok_insert: "pset_ok m \<Longrightarrow> pset_ok (pset_insert q p v m)"
proof -
  assume ok: "pset_ok m"
  then have m: "smap_ok m" by (simp add: pset_ok_def)
  show ?thesis
  proof (cases "map_of m q")
    case None
    with ok m show ?thesis by (auto simp: pset_insert_def pset_ok_def set_smap_insert_new)
  next
    case (Some s)
    from pset_ok_inner[OF ok Some] have s: "smap_ok (smap_insert p v s)" "smap_insert p v s \<noteq> []" by simp_all
    have "smap_ok b \<and> b \<noteq> []" if "(a, b) \<in> set (smap_assign q (smap_insert p v s) m)" for a b
      using that s ok m by (auto simp: set_smap_assign pset_ok_def)
    with m Some show ?thesis by (fastforce simp: pset_insert_def pset_ok_def)
  qed
qed

lemma pset_ok_erase: "pset_ok m \<Longrightarrow> pset_ok (pset_erase q p m)"
proof -
  assume ok: "pset_ok m"
  then have m: "smap_ok m" by (simp add: pset_ok_def)
  show ?thesis
  proof (cases "map_of m q")
    case None
    with ok show ?thesis by (simp add: pset_erase_def)
  next
    case (Some s)
    from pset_ok_inner[OF ok Some] have s: "smap_ok (smap_erase p s)" by simp
    have "smap_ok b \<and> b \<noteq> []" if "(a, b) \<in> set (smap_assign q (smap_erase p s) m)" "smap_erase p s \<noteq> []" for a b
      using that s ok m by (auto simp: set_smap_assign pset_ok_def)
    moreover have "pset_ok (smap_erase q m)"
      using ok by (auto simp: pset_ok_def smap_erase_def smap_ok_def sorted_wrt_filter sorted_wrt_map)
    ultimately show ?thesis
      using ok m Some by (fastforce simp: pset_erase_def pset_ok_def Let_def split: option.splits)
  qed
qed

lemma map_of_pset_insert:
  "pset_ok m \<Longrightarrow> map_of (pset_insert q p v m) =
     (map_of m)(q \<mapsto> (case map_of m q of Some s \<Rightarrow> smap_insert p v s | None \<Rightarrow> [(p, v)]))"
  by (simp add: pset_insert_def pset_ok_def smap_simps split: option.split)

lemma pset_find_insert:
  assumes ok: "pset_ok m"
  shows "pset_find (pset_insert q p v m) q' p' =
     (if (q', p') = (q, p) then (case pset_find m q p of None \<Rightarrow> Some v | Some w \<Rightarrow> Some w)
      else pset_find m q' p')"
proof (cases "map_of m q")
  case None
  then show ?thesis by (simp add: pset_find_def map_of_pset_insert[OF ok])
next
  case (Some s)
  with pset_ok_inner[OF ok Some] show ?thesis
    by (simp add: pset_find_def map_of_pset_insert[OF ok] map_of_smap_insert split: option.split)
qed

lemma map_of_pset_erase:
  "pset_ok m \<Longrightarrow> map_of m q = Some s \<Longrightarrow> map_of s p \<noteq> None \<Longrightarrow> map_of (pset_erase q p m) =
     (map_of m)(q := if smap_erase p s = [] then None else Some (smap_erase p s))"
  by (auto simp: pset_erase_def pset_ok_def smap_simps Let_def)

lemma pset_find_erase:
  assumes ok: "pset_ok m"
  shows "pset_find (pset_erase q p m) q' p' = (if (q', p') = (q, p) then None else pset_find m q' p')"
proof (cases "pset_find m q p")
  case None
  then have "pset_erase q p m = m" by (auto simp: pset_find_def pset_erase_def split: option.splits)
  with None show ?thesis by simp
next
  case (Some w)
  then obtain s where s: "map_of m q = Some s" "map_of s p \<noteq> None" by (auto simp: pset_find_Some_iff)
  have "map_of (smap_erase p s) p' = (if p' = p then None else map_of s p')"
    by (simp add: map_of_smap_erase)
  with s show ?thesis by (auto simp: pset_find_def map_of_pset_erase[OF ok s])
qed

interpretation pset_store: keyed_store
  "\<lambda>m k. pset_find m (fst k) (snd k)" "\<lambda>k v. pset_insert (fst k) (snd k) v"
  "\<lambda>k. pset_erase (fst k) (snd k)" pset_ok
  by unfold_locales
    (auto simp: pset_find_insert pset_find_erase pset_ok_insert pset_ok_erase prod_eq_iff
      split: option.splits)

text \<open>Two well-formed two-level maps with the same entries are the same map.\<close>

lemma pset_eqI:
  assumes ok: "pset_ok m" "pset_ok n" and eq: "\<And>q p. pset_find m q p = pset_find n q p"
  shows "m = n"
proof (rule smap_eqI)
  show "smap_ok m" "smap_ok n" using ok by (simp_all add: pset_ok_def)
  have half: "map_of b q = Some s"
    if "map_of a q = Some s" "pset_ok a" "pset_ok b" "\<And>q p. pset_find a q p = pset_find b q p" for a b :: "'a pset" and q s
  proof -
    from pset_ok_inner[OF that(2,1)] have s: "smap_ok s" "s \<noteq> []" by auto
    then obtain p v where "map_of s p = Some v" by (auto simp: smap_empty_iff)
    with that(1) have "pset_find a q p = Some v" by (simp add: pset_find_def)
    with that(4) obtain t where t: "map_of b q = Some t"
      by (auto simp: pset_find_def split: option.splits)
    have "map_of s = map_of t"
      using that(4)[of q] that(1) t by (auto simp: pset_find_def fun_eq_iff)
    with s(1) pset_ok_inner[OF that(3) t] have "s = t" by (auto intro: smap_eqI)
    with t show ?thesis by simp
  qed
  show "map_of m = map_of n"
  proof
    fix q
    show "map_of m q = map_of n q"
      using half[of m q _ n] half[of n q _ m] ok eq
      by (cases "map_of m q"; cases "map_of n q") auto
  qed
qed

lemma set_pset_list: "pset_ok m \<Longrightarrow> v \<in> set (pset_list m) \<longleftrightarrow> (\<exists>q p. pset_find m q p = Some v)"
proof -
  assume ok: "pset_ok m"
  then have m: "smap_ok m" by (simp add: pset_ok_def)
  have "v \<in> set (pset_list m) \<longleftrightarrow> (\<exists>q s p. (q, s) \<in> set m \<and> (p, v) \<in> set s)"
    by (force simp: pset_list_def)
  also have "\<dots> \<longleftrightarrow> (\<exists>q s p. map_of m q = Some s \<and> map_of s p = Some v)"
    using pset_ok_inner[OF ok] by (metis m set_smap_iff)
  also have "\<dots> \<longleftrightarrow> (\<exists>q p. pset_find m q p = Some v)"
    by (auto simp: pset_find_Some_iff)
  finally show ?thesis .
qed

section \<open>The log readers meet the contract\<close>

lemma replay_okD: "replay_ok (a, b) \<Longrightarrow> pset_ok a \<and> pset_ok b \<and> (pset_find a q p = None \<or> pset_find b q p = None)"
  by (simp add: replay_ok_def)

lemma status_log_start:
  "replay_ok s \<Longrightarrow> pset_status (log_start k v s) k' = (if k' = k then k_start v (pset_status s k) else pset_status s k')"
  using replay_okD[of "fst s" "snd s" "fst k" "snd k"]
  by (cases s; cases k; cases k')
    (auto simp: pset_status_def pset_find_insert pset_find_erase split: option.splits)

lemma status_log_complete:
  "replay_ok s \<Longrightarrow> pset_status (log_complete k s) k' = (if k' = k then k_complete (pset_status s k) else pset_status s k')"
  using replay_okD[of "fst s" "snd s" "fst k" "snd k"]
  by (cases s; cases k; cases k')
    (auto simp: pset_status_def pset_find_insert pset_find_erase split: option.splits)

lemma replay_ok_start: "replay_ok s \<Longrightarrow> replay_ok (log_start k v s)"
  by (cases s; cases k)
    (auto simp: replay_ok_def pset_ok_insert pset_ok_erase pset_find_insert pset_find_erase split: option.splits)

lemma replay_ok_complete: "replay_ok s \<Longrightarrow> replay_ok (log_complete k s)"
  by (cases s; cases k)
    (auto simp: replay_ok_def pset_ok_insert pset_ok_erase pset_find_insert pset_find_erase split: option.splits)

interpretation aol: pending_log log_start log_complete pset_status replay_ok
  by unfold_locales
    (simp_all only: status_log_start status_log_complete replay_ok_start replay_ok_complete)

section \<open>The three-state machine and the order-free contract\<close>

lemma replay_append: "replay st cp (xs @ ys) s = replay st cp ys (replay st cp xs s)"
  by (induction st cp xs s rule: replay.induct) auto

lemma key_run_append: "key_run k (xs @ ys) x = key_run k ys (key_run k xs x)"
  by (induction k xs x rule: key_run.induct) auto

lemma starts_append [simp]: "starts k (xs @ ys) = starts k xs @ starts k ys"
  by (induction k xs rule: starts.induct) auto

lemma starts_iff: "v \<in> set (starts k rs) \<longleftrightarrow> Started k v \<in> set rs"
  by (induction k rs rule: starts.induct) auto

lemma key_run_untouched: "starts k rs = [] \<Longrightarrow> Completed k \<notin> set rs \<Longrightarrow> key_run k rs x = x"
  by (induction k rs x rule: key_run.induct) (auto split: if_splits)

lemma key_run_Lost_no_start: "starts k rs = [] \<Longrightarrow> key_run k rs Lost = Lost"
  by (induction k rs rule: starts.induct) (auto split: if_splits)

lemma key_run_no_start:
  "starts k rs = [] \<Longrightarrow> key_run k rs Idle = (if Completed k \<in> set rs then Lost else Idle)"
  by (induction k rs rule: starts.induct) (auto simp: key_run_Lost_no_start split: if_splits)

lemma key_run_started: "key_run k rs x = Pending v \<Longrightarrow> x = Pending v \<or> Started k v \<in> set rs"
proof (induction rs arbitrary: x)
  case (Cons r rs)
  show ?case
  proof (cases r)
    case (Started k' w)
    with Cons.prems Cons.IH[of "if k' = k then k_start w x else x"] show ?thesis
      by (cases x) (auto split: if_splits)
  next
    case (Completed k')
    with Cons.prems Cons.IH[of "if k' = k then k_complete x else x"] show ?thesis
      by (cases x) (auto split: if_splits)
  qed
qed simp

lemma key_run_Pending_no_start:
  "starts k rs = [] \<Longrightarrow> key_run k rs (Pending v) = Pending w \<longleftrightarrow> v = w \<and> Completed k \<notin> set rs"
proof (induction rs)
  case (Cons r rs)
  then show ?case
    using key_run_no_start[of k rs] by (cases r) (auto split: if_splits)
qed auto

lemma key_run_Lost_not_pending: "length (starts k rs) \<le> 1 \<Longrightarrow> key_run k rs Lost \<noteq> Pending v"
proof (induction rs)
  case (Cons r rs)
  then show ?case
    using key_run_no_start[of k rs] by (cases r) (auto split: if_splits)
qed auto

lemma key_run_pending_iff:
  "length (starts k rs) \<le> 1 \<Longrightarrow> key_run k rs Idle = Pending v \<longleftrightarrow> pending_at rs k v"
proof (induction rs)
  case (Cons r rs)
  show ?case
  proof (cases r)
    case (Started k' w)
    then show ?thesis
      using Cons key_run_Pending_no_start[of k rs w v] starts_iff[of v k rs]
      by (auto simp: pending_at_def split: if_splits)
  next
    case (Completed k')
    then show ?thesis
      using Cons key_run_Lost_not_pending[of k rs v] by (auto simp: pending_at_def)
  qed
qed (simp add: pending_at_def)

lemma key_run_Lost_completed: "key_run k rs Idle = Lost \<Longrightarrow> Completed k \<in> set rs"
proof (induction rs rule: rev_induct)
  case (snoc r rs)
  then show ?case by (cases r; cases "key_run k rs Idle") (auto simp: key_run_append split: if_splits)
qed simp

lemma key_run_Idle_matched: "key_run k rs Idle = Idle \<Longrightarrow> Completed k \<in> set rs \<Longrightarrow> starts k rs \<noteq> []"
  using key_run_no_start[of k rs] by auto

lemma started_onceD: "started_once rs \<Longrightarrow> length (starts k rs) \<le> 1"
  unfolding started_once_def by blast

lemma started_once_append: "started_once (xs @ ys) \<Longrightarrow> started_once xs \<and> started_once ys"
  by (auto simp: started_once_def) (metis add_leD1, metis add_leD2)

section \<open>What reading a whole log yields\<close>

lemma replay_ok_Nil [simp]: "replay_ok ([], [])"
  by (simp add: replay_ok_def)

lemma replay_ok_all: "replay_ok (replay_all rs)"
  unfolding replay_all_def by (rule aol.ok_replay) simp

lemma status_replay_all: "pset_status (replay_all rs) k = key_run k rs Idle"
  unfolding replay_all_def by (subst aol.status_replay) (simp_all add: pset_status_def)

lemma pset_status_iff:
  "replay_ok s \<Longrightarrow> pset_find (fst s) q p = Some v \<longleftrightarrow> pset_status s (q, p) = Pending v"
  "replay_ok s \<Longrightarrow> pset_find (snd s) q p \<noteq> None \<longleftrightarrow> pset_status s (q, p) = Lost"
  using replay_okD[of "fst s" "snd s" q p] by (auto simp: pset_status_def split: option.splits)

lemma find_replay_all:
  "pset_find (fst (replay_all rs)) q p = Some v \<longleftrightarrow> key_run (q, p) rs Idle = Pending v"
  "pset_find (snd (replay_all rs)) q p \<noteq> None \<longleftrightarrow> key_run (q, p) rs Idle = Lost"
  by (simp_all only: pset_status_iff[OF replay_ok_all] status_replay_all)

lemma well_keyed_append [simp]: "well_keyed (xs @ ys) \<longleftrightarrow> well_keyed xs \<and> well_keyed ys"
  by (auto simp: well_keyed_def)

lemma pending_keyed: "well_keyed rs \<Longrightarrow> pset_find (fst (replay_all rs)) q p = Some v \<Longrightarrow> opkey v = (q, p)"
  using key_run_started[of "(q, p)" rs Idle v] by (auto simp: find_replay_all well_keyed_def)

text \<open>Entries of a lost set carry their own key; the set is only ever filled that way.\<close>

definition keyed :: "'a pending_op_scheme pset \<Rightarrow> bool" where
  "keyed m \<longleftrightarrow> (\<forall>q p v. pset_find m q p = Some v \<longrightarrow> opkey v = (q, p))"

lemma keyed_lost_step:
  "pset_ok (snd s) \<Longrightarrow> keyed (snd s) \<Longrightarrow> keyed (snd (log_start k v s))"
  "pset_ok (snd s) \<Longrightarrow> keyed (snd s) \<Longrightarrow> keyed (snd (log_complete k s))"
  by (cases s; cases k;
      auto simp: keyed_def pset_find_erase pset_find_insert opkey_def PendingAsyncOperation_def
        split: option.splits if_splits)+

lemma keyed_lost: "keyed (snd (replay_all rs))"
proof -
  have "replay_ok s \<Longrightarrow> keyed (snd s) \<Longrightarrow> keyed (snd (replay log_start log_complete rs s))" for s :: "'a replay_state"
  proof (induction rs arbitrary: s)
    case (Cons r rs)
    from Cons.prems(1) have "pset_ok (snd s)" by (simp add: replay_ok_def)
    with Cons show ?case
      by (cases r) (simp_all add: aol.ok_start aol.ok_complete keyed_lost_step)
  qed simp
  from this[OF replay_ok_Nil] show ?thesis by (simp add: replay_all_def keyed_def)
qed

lemma image_pset_list:
  assumes "pset_ok m" and "keyed m"
  shows "(\<lambda>v. f (opkey v) v) ` set (pset_list m) = {f (q, p) v | q p v. pset_find m q p = Some v}"
proof (rule set_eqI)
  fix x
  have "x \<in> (\<lambda>v. f (opkey v) v) ` set (pset_list m) \<longleftrightarrow> (\<exists>q p v. pset_find m q p = Some v \<and> x = f (opkey v) v)"
    unfolding image_iff Bex_def set_pset_list[OF assms(1)] by blast
  also have "\<dots> \<longleftrightarrow> (\<exists>q p v. pset_find m q p = Some v \<and> x = f (q, p) v)"
    using assms(2) unfolding keyed_def by metis
  finally show "x \<in> (\<lambda>v. f (opkey v) v) ` set (pset_list m) \<longleftrightarrow> x \<in> {f (q, p) v | q p v. pset_find m q p = Some v}"
    by auto
qed

lemma set_start_records:
  "pset_ok m \<Longrightarrow> keyed m \<Longrightarrow> set (start_records m) = {Started (q, p) v | q p v. pset_find m q p = Some v}"
  using image_pset_list[of m Started] by (simp add: start_records_def)

lemma set_complete_records:
  "pset_ok m \<Longrightarrow> keyed m \<Longrightarrow> set (complete_records m) = {Completed (q, p) | q p. pset_find m q p \<noteq> None}"
  using image_pset_list[of m "\<lambda>k v. Completed k"] by (simp add: complete_records_def)

lemma distinct_opkeys: "pset_ok m \<Longrightarrow> keyed m \<Longrightarrow> distinct (map opkey (pset_list m))"
proof (induction m)
  case (Cons e m)
  obtain q s where e: "e = (q, s)" by (cases e)
  from Cons.prems(1) e have qs: "smap_ok ((q, s) # m)" "smap_ok s" "pset_ok m"
    by (auto simp: pset_ok_def)
  have k: "opkey v = (q, p)" if "(p, v) \<in> set s" for p v
    using Cons.prems(2) e qs(2) that by (auto simp: keyed_def pset_find_def set_smap_iff)
  have km: "keyed m"
    using Cons.prems(2) e qs(1) unfolding keyed_def
    by (auto simp: pset_find_Some_iff) (metis image_eqI fst_conv less_irrefl map_of_SomeD)
  have "map (opkey \<circ> snd) s = map (Pair q \<circ> fst) s" by (auto simp: k)
  moreover have "distinct (map (Pair q \<circ> fst) s)"
    using smap_ok_distinct[OF qs(2)] by (simp add: distinct_map inj_on_def flip: map_map)
  ultimately have d: "distinct (map (opkey \<circ> snd) s)" by (simp only:)
  have q: "q \<notin> fst ` opkey ` set (pset_list m)"
    using km qs by (auto simp: set_pset_list keyed_def pset_find_Some_iff)
      (metis fst_conv image_eqI less_irrefl map_of_SomeD)
  have "fst ` opkey ` snd ` set s \<subseteq> {q}" using k by auto
  with q have "opkey ` snd ` set s \<inter> opkey ` set (pset_list m) = {}" by blast
  moreover have "pset_list (e # m) = map snd s @ pset_list m" by (simp add: pset_list_def e)
  ultimately show ?case
    using Cons.IH[OF qs(3) km] d by (simp add: image_comp)
qed (simp add: pset_list_def)

lemma starts_map_Started: "k \<notin> opkey ` set vs \<Longrightarrow> starts k (map (\<lambda>v. Started (opkey v) v) vs) = []"
  by (induction vs) auto

lemma starts_start_records_le: "pset_ok m \<Longrightarrow> keyed m \<Longrightarrow> length (starts k (start_records m)) \<le> 1"
proof -
  have "distinct (map opkey vs) \<Longrightarrow> length (starts k (map (\<lambda>v. Started (opkey v) v) vs)) \<le> 1" for vs :: "'a pending_op_scheme list"
    by (induction vs) (auto simp: starts_map_Started)
  then show "pset_ok m \<Longrightarrow> keyed m \<Longrightarrow> ?thesis" by (simp add: start_records_def distinct_opkeys)
qed

lemma keyed_pend: "well_keyed rs \<Longrightarrow> keyed (fst (replay_all rs))"
  by (simp add: keyed_def pending_keyed)

lemma pset_ok_replay_all: "pset_ok (fst (replay_all rs))" "pset_ok (snd (replay_all rs))"
  using replay_ok_all[of rs] by (simp_all add: replay_ok_def)

lemma find_pending_iff:
  "started_once rs \<Longrightarrow> pset_find (fst (replay_all rs)) q p = Some v \<longleftrightarrow> pending_at rs (q, p) v"
  by (simp add: find_replay_all key_run_pending_iff started_once_def)

lemma starts_map_Completed [simp]: "starts k (map (\<lambda>v. Completed (f v)) vs) = []"
  by (induction vs) auto

lemma starts_complete_records [simp]: "starts k (complete_records m) = []"
  by (simp add: complete_records_def)

lemma Completed_start_records [simp]: "Completed k \<notin> set (start_records m)"
  by (auto simp: start_records_def)

lemma well_keyed_start_records [simp]: "well_keyed (start_records m)"
  by (auto simp: well_keyed_def start_records_def)

text \<open>Logging the pending operations afresh and reading them back gives the same set.\<close>

lemma replay_start_records:
  assumes "pset_ok m" and "keyed m"
  shows "fst (replay_all (start_records m)) = m"
proof (rule pset_eqI[OF pset_ok_replay_all(1) assms(1)])
  fix q p
  have "started_once (start_records m)"
    using starts_start_records_le[OF assms] by (simp add: started_once_def)
  then have "pset_find (fst (replay_all (start_records m))) q p = Some v \<longleftrightarrow> pset_find m q p = Some v" for v
    using assms by (auto simp: find_pending_iff pending_at_def set_start_records)
  then show "pset_find (fst (replay_all (start_records m))) q p = pset_find m q p"
    by (metis not_None_eq)
qed

lemma length_starts_mset:
  "length (starts k rs) = size (filter_mset (\<lambda>r. case r of Started k' v \<Rightarrow> k' = k | Completed k' \<Rightarrow> False) (mset rs))"
  by (induction k rs rule: starts.induct) auto

lemma started_once_mset: "mset xs = mset ys \<Longrightarrow> started_once xs \<longleftrightarrow> started_once ys"
  by (simp add: started_once_def length_starts_mset)

lemma pending_at_mset: "mset xs = mset ys \<Longrightarrow> pending_at xs = pending_at ys"
  by (auto simp: pending_at_def fun_eq_iff dest: mset_eq_setD)

lemma replay_all_mset:
  assumes "mset xs = mset ys" and "started_once xs"
  shows "fst (replay_all xs) = fst (replay_all ys)"
proof (rule pset_eqI[OF pset_ok_replay_all(1) pset_ok_replay_all(1)])
  fix q p
  have "pset_find (fst (replay_all xs)) q p = Some v \<longleftrightarrow> pset_find (fst (replay_all ys)) q p = Some v" for v
    using assms started_once_mset[OF assms(1)] by (simp add: find_pending_iff pending_at_mset[OF assms(1)])
  then show "pset_find (fst (replay_all xs)) q p = pset_find (fst (replay_all ys)) q p"
    by (metis not_None_eq)
qed

text \<open>Compacting one part of a log: its pending operations are kept, its unmatched
  completions are moved to the rest, the matched pairs disappear.\<close>

definition compacted :: "(u64 \<times> u64, 'a pending_op_scheme) oprec list \<Rightarrow> (u64 \<times> u64, 'a pending_op_scheme) oprec list" where
  "compacted h = start_records (fst (replay_all h)) @ complete_records (snd (replay_all h))"

lemma started_once_compacted:
  assumes "well_keyed h" and "started_once (h @ a)"
  shows "started_once (compacted h @ a)"
  unfolding started_once_def
proof
  fix k :: "u64 \<times> u64"
  let ?P = "start_records (fst (replay_all h))"
  have P: "length (starts k ?P) \<le> 1"
    by (rule starts_start_records_le[OF pset_ok_replay_all(1) keyed_pend[OF assms(1)]])
  have "starts k h \<noteq> []" if "starts k ?P \<noteq> []"
  proof -
    from that obtain v where "Started k v \<in> set ?P" using starts_iff by (metis list.set_intros(1) neq_Nil_conv)
    then have "key_run k h Idle = Pending v"
      using assms(1) by (auto simp: set_start_records pset_ok_replay_all keyed_pend find_replay_all)
    then have "Started k v \<in> set h" using key_run_started by fastforce
    then have "v \<in> set (starts k h)" by (simp only: starts_iff)
    then show ?thesis by auto
  qed
  moreover have "length (starts k h) + length (starts k a) \<le> 1"
    using started_onceD[OF assms(2), of k] by simp
  ultimately show "length (starts k (compacted h @ a)) \<le> 1"
    using P by (cases "starts k ?P"; cases "starts k h") (simp_all add: compacted_def)
qed

lemma pending_at_compacted:
  assumes wk: "well_keyed h" and once: "started_once (h @ a)"
  shows "pending_at (compacted h @ a) = pending_at (h @ a)"
proof (intro ext)
  fix k :: "u64 \<times> u64" and v
  obtain q p where k: "k = (q, p)" by (cases k)
  let ?s = "key_run k h Idle"
  have s: "set (compacted h) = {Started (q, p) v | q p v. key_run (q, p) h Idle = Pending v} \<union> {Completed (q, p) | q p. key_run (q, p) h Idle = Lost}"
    using wk by (simp add: compacted_def set_start_records set_complete_records pset_ok_replay_all keyed_pend keyed_lost find_replay_all del: not_None_eq)
  have h: "length (starts k h) \<le> 1" and ha: "length (starts k h) + length (starts k a) \<le> 1"
    using started_onceD[OF once, of k] by simp_all
  have 1: "Started k v \<in> set (compacted h) \<longleftrightarrow> pending_at h k v" for v
    using key_run_pending_iff[OF h] by (auto simp: s k)
  have 2: "Completed k \<in> set (compacted h) \<longleftrightarrow> ?s = Lost" by (auto simp: s k)
  have 3: "?s = Lost \<Longrightarrow> Completed k \<in> set h" by (rule key_run_Lost_completed)
  have 4: "starts k a = []" if "Completed k \<in> set h" "?s \<noteq> Lost"
  proof -
    have "starts k h \<noteq> []"
    proof (cases ?s)
      case Idle
      then show ?thesis using that key_run_Idle_matched by metis
    next
      case (Pending w)
      then show ?thesis using key_run_started[of k h Idle w] starts_iff[of w k h] by auto
    qed (use that in simp)
    with ha show ?thesis by (cases "starts k h") auto
  qed
  show "pending_at (compacted h @ a) k v = pending_at (h @ a) k v"
    using 1 2 3 4 starts_iff[of v k a] by (auto simp: pending_at_def)
qed

section \<open>The comparison operators\<close>

text \<open>The operators are no ordering: of two operations whose message ids and queue ids
  are ordered in opposite ways each is less than the other, and both are greater.\<close>

theorem pao_less_both_ways:
  assumes "msgId a < msgId b" and "queueId b < queueId a"
  shows "pao_less a b \<and> pao_less b a \<and> pao_greater a b \<and> pao_greater b a \<and> pao_le a b \<and> pao_le b a \<and> pao_neq a b"
  using assms by (auto simp: pao_less_def pao_greater_def pao_le_def pao_neq_def)

theorem pao_less_both_ways_witness:
  "pao_less (PendingAsyncOperation 1 2) (PendingAsyncOperation 2 1) \<and>
   pao_less (PendingAsyncOperation 2 1) (PendingAsyncOperation 1 2)"
  using pao_less_both_ways[of "PendingAsyncOperation 1 2" "PendingAsyncOperation 2 1"]
  by (simp add: PendingAsyncOperation_def)

end
