(* ===== verification/LogMachine.thy ===== *)
theory LogMachine
  imports PendingOps
begin

text \<open>
  The contract of a two-file operation log with a background cleaner, over records instead
  of bytes. Loggers append to the active file at any moment; the cleaner switches the
  files, compacts the inactive one and logs the unmatched completions again, one lock
  acquisition at a time. \<open>AsyncOperationLogger\<close> shows that both sides of the real logger
  implement this machine.
\<close>

section \<open>Logs that tell the same story\<close>

text \<open>\<open>log_equiv H g\<close>: the log \<open>g\<close> has the pending operations of the history \<open>H\<close>, never
  more starts, and the same completions for operations still to be started.\<close>

definition log_equiv :: "('k, 'v) oprec list \<Rightarrow> ('k, 'v) oprec list \<Rightarrow> bool" where
  "log_equiv H g \<longleftrightarrow> (\<forall>k. length (starts k g) \<le> length (starts k H) \<and>
     (\<forall>v. pending_at g k v = pending_at H k v) \<and>
     (starts k H = [] \<longrightarrow> (Completed k \<in> set g \<longleftrightarrow> Completed k \<in> set H)))"

lemma log_equiv_refl [simp]: "log_equiv H H"
  by (simp add: log_equiv_def)

lemma log_equiv_starts: "log_equiv H g \<Longrightarrow> length (starts k g) \<le> length (starts k H)"
  unfolding log_equiv_def by blast

lemma log_equiv_mset: "log_equiv H g \<Longrightarrow> mset g' = mset g \<Longrightarrow> log_equiv H g'"
  unfolding log_equiv_def length_starts_mset
  using pending_at_mset[of g' g] mset_eq_setD[of g' g] by metis

lemma log_equiv_started_once: "log_equiv H g \<Longrightarrow> started_once H \<Longrightarrow> started_once g"
  unfolding log_equiv_def started_once_def by (meson le_trans)

lemma log_equiv_snoc:
  assumes eq: "log_equiv H g" and once: "started_once (H @ [r])"
  shows "log_equiv (H @ [r]) (g @ [r])"
proof (cases r)
  case (Completed k)
  with eq show ?thesis by (auto simp: log_equiv_def pending_at_def)
next
  case (Started k v)
  then have H: "starts k H = []" using started_onceD[OF once, of k] by simp
  with eq have "starts k g = []" by (auto simp: log_equiv_def)
  then have "Started k w \<notin> set g" "Started k w \<notin> set H" for w
    using H starts_iff[of w k] by (metis emptyE list.set(1))+
  with eq H Started show ?thesis by (auto simp: log_equiv_def pending_at_def)
qed

lemma log_equiv_compact:
  assumes eq: "log_equiv H (h @ a)" and once: "started_once H" and wk: "well_keyed h"
  shows "log_equiv H (compacted h @ a)"
proof -
  have oh: "started_once (h @ a)" by (rule log_equiv_started_once[OF eq once])
  have le: "length (starts k (compacted h @ a)) \<le> length (starts k (h @ a))" for k
  proof (cases "starts k (h @ a)")
    case Nil
    have "key_run k h Idle \<noteq> Pending v" for v
      using Nil key_run_started[of k h Idle v] starts_iff[of v k h] by auto
    then have "Started k v \<notin> set (compacted h)" for v
      using wk by (auto simp: compacted_def set_start_records set_complete_records pset_ok_replay_all keyed_pend keyed_lost find_replay_all)
    then have "starts k (compacted h) = []" using starts_iff[of _ k "compacted h"] by (metis list.set_intros(1) neq_Nil_conv)
    with Nil show ?thesis by simp
  next
    case (Cons v vs)
    then have "1 \<le> length (starts k (h @ a))" by simp
    then show ?thesis using started_onceD[OF started_once_compacted[OF wk oh], of k] by linarith
  qed
  have cp: "Completed k \<in> set (compacted h @ a) \<longleftrightarrow> Completed k \<in> set (h @ a)" if "starts k (h @ a) = []" for k
  proof -
    have "key_run k h Idle = Lost \<longleftrightarrow> Completed k \<in> set h" using that key_run_no_start[of k h] by auto
    moreover have "Completed k \<in> set (compacted h) \<longleftrightarrow> key_run k h Idle = Lost"
      by (cases k) (auto simp: compacted_def set_complete_records pset_ok_replay_all keyed_lost find_replay_all simp del: not_None_eq)
    ultimately show ?thesis by simp
  qed
  have nil: "starts k H = [] \<Longrightarrow> starts k (h @ a) = []" for k
    using log_equiv_starts[OF eq, of k] by simp
  show ?thesis
    unfolding log_equiv_def pending_at_compacted[OF wk oh]
  proof (intro allI conjI impI)
    fix k v
    show "length (starts k (compacted h @ a)) \<le> length (starts k H)"
      using le[of k] log_equiv_starts[OF eq, of k] by linarith
    show "pending_at (h @ a) k v = pending_at H k v" using eq unfolding log_equiv_def by blast
    show "Completed k \<in> set (compacted h @ a) \<longleftrightarrow> Completed k \<in> set H" if "starts k H = []"
      using cp[OF nil[OF that]] eq that unfolding log_equiv_def by blast
  qed
qed

lemma log_equiv_replay_all:
  assumes "log_equiv H g" and "started_once H"
  shows "fst (replay_all g) = fst (replay_all H)"
proof (rule pset_eqI[OF pset_ok_replay_all(1) pset_ok_replay_all(1)])
  fix q p
  have "pset_find (fst (replay_all g)) q p = Some v \<longleftrightarrow> pset_find (fst (replay_all H)) q p = Some v" for v
    using assms(1) find_pending_iff[OF assms(2)] find_pending_iff[OF log_equiv_started_once[OF assms]]
    unfolding log_equiv_def by blast
  then show "pset_find (fst (replay_all g)) q p = pset_find (fst (replay_all H)) q p"
    by (metis not_None_eq)
qed

section \<open>The machine\<close>

datatype cleaner = CIdle | CSwitched int | CRelog "pending_op list"

datatype 'v log_event = EvStart 'v | EvComplete u64 u64 | EvSwitch | EvRewrite | EvRelog

type_synonym 'v rlog = "(u64 \<times> u64, 'v) oprec list \<times> (u64 \<times> u64, 'v) oprec list"

definition rl_app :: "int \<Rightarrow> (u64 \<times> u64, 'v) oprec list \<Rightarrow> 'v rlog \<Rightarrow> 'v rlog" where
  "rl_app i rs = (\<lambda>(f0, f1). if i = 0 then (f0 @ rs, f1) else (f0, f1 @ rs))"

definition rl_file :: "int \<Rightarrow> 'v rlog \<Rightarrow> (u64 \<times> u64, 'v) oprec list" where
  "rl_file i fs = (if i = 0 then fst fs else snd fs)"

definition rl_set :: "int \<Rightarrow> (u64 \<times> u64, 'v) oprec list \<Rightarrow> 'v rlog \<Rightarrow> 'v rlog" where
  "rl_set i rs = (\<lambda>(f0, f1). if i = 0 then (rs, f1) else (f0, rs))"

fun rl_exec :: "'a pending_op_scheme log_event \<Rightarrow> 'a pending_op_scheme rlog \<times> int \<times> cleaner \<Rightarrow>
    'a pending_op_scheme rlog \<times> int \<times> cleaner" where
  "rl_exec (EvStart v) (fs, i, c) = (rl_app i [Started (opkey v) v] fs, i, c)"
| "rl_exec (EvComplete p q) (fs, i, c) = (rl_app i [Completed (q, p)] fs, i, c)"
| "rl_exec EvSwitch (fs, i, c) =
     (case c of CIdle \<Rightarrow> (fs, (i + 1) mod 2, CSwitched i) | _ \<Rightarrow> (fs, i, c))"
| "rl_exec EvRewrite (fs, i, c) =
     (case c of
        CSwitched j \<Rightarrow>
          (let (pend, lost) = replay_all (rl_file j fs)
           in (rl_set j (start_records pend) fs, i, CRelog (pset_list lost)))
      | _ \<Rightarrow> (fs, i, c))"
| "rl_exec EvRelog (fs, i, c) =
     (case c of
        CRelog [] \<Rightarrow> (fs, i, CIdle)
      | CRelog (x # xs) \<Rightarrow> (rl_app i [Completed (opkey x)] fs, i, CRelog xs)
      | _ \<Rightarrow> (fs, i, c))"

fun rl_run :: "'a pending_op_scheme log_event list \<Rightarrow> 'a pending_op_scheme rlog \<times> int \<times> cleaner \<Rightarrow>
    'a pending_op_scheme rlog \<times> int \<times> cleaner" where
  "rl_run [] s = s"
| "rl_run (e # es) s = rl_run es (rl_exec e s)"

text \<open>What the loggers wrote, in order, as if there were one file and no cleaner.\<close>

fun history :: "'a pending_op_scheme log_event list \<Rightarrow> (u64 \<times> u64, 'a pending_op_scheme) oprec list" where
  "history [] = []"
| "history (EvStart v # es) = Started (opkey v) v # history es"
| "history (EvComplete p q # es) = Completed (q, p) # history es"
| "history (e # es) = history es"

text \<open>Completions the cleaner holds in memory.\<close>

fun in_flight :: "cleaner \<Rightarrow> (u64 \<times> u64, 'v) oprec list" where
  "in_flight (CRelog xs) = map (\<lambda>x. Completed (opkey x)) xs"
| "in_flight c = []"

definition rl_inv :: "(u64 \<times> u64, 'a pending_op_scheme) oprec list \<Rightarrow> 'a pending_op_scheme rlog \<times> int \<times> cleaner \<Rightarrow> bool" where
  "rl_inv H = (\<lambda>(fs, i, c).
     (i = 0 \<or> i = 1) \<and> well_keyed (fst fs @ snd fs) \<and> log_equiv H (fst fs @ snd fs @ in_flight c) \<and>
     (\<forall>j. c = CSwitched j \<longrightarrow> j = 1 - i))"

section \<open>The invariant\<close>

lemma mset_rl_app: "mset (fst (rl_app i rs fs) @ snd (rl_app i rs fs)) = mset (fst fs @ snd fs @ rs)"
  by (cases fs) (simp add: rl_app_def)

lemma well_keyed_mset: "mset a = mset b \<Longrightarrow> well_keyed a \<longleftrightarrow> well_keyed b"
  unfolding well_keyed_def by (metis mset_eq_setD)

lemma well_keyed_rl_app:
  "well_keyed (fst (rl_app i rs fs) @ snd (rl_app i rs fs)) \<longleftrightarrow> well_keyed (fst fs @ snd fs @ rs)"
  by (rule well_keyed_mset[OF mset_rl_app])

lemma well_keyed_single [simp]: "well_keyed [Started (opkey v) v]" "well_keyed [Completed k]" "well_keyed []"
  by (simp_all add: well_keyed_def)

lemma rl_inv_append:
  assumes inv: "rl_inv H (fs, i, c)" and once: "started_once (H @ [r])" and wk: "well_keyed [r]"
  shows "rl_inv (H @ [r]) (rl_app i [r] fs, i, c)"
proof -
  have "log_equiv (H @ [r]) ((fst fs @ snd fs @ in_flight c) @ [r])"
    by (rule log_equiv_snoc[OF _ once]) (use inv in \<open>simp add: rl_inv_def\<close>)
  moreover have "mset (fst (rl_app i [r] fs) @ snd (rl_app i [r] fs) @ in_flight c) = mset ((fst fs @ snd fs @ in_flight c) @ [r])"
    using mset_rl_app[of i "[r]" fs] by (simp add: union_ac)
  ultimately have "log_equiv (H @ [r]) (fst (rl_app i [r] fs) @ snd (rl_app i [r] fs) @ in_flight c)"
    using log_equiv_mset by blast
  moreover have "well_keyed (fst (rl_app i [r] fs) @ snd (rl_app i [r] fs))"
    using inv wk by (subst well_keyed_rl_app) (simp add: rl_inv_def)
  ultimately show ?thesis using inv by (auto simp: rl_inv_def)
qed

lemma rl_inv_rewrite:
  assumes inv: "rl_inv H (fs, i, CSwitched j)" and once: "started_once H"
    and rp: "replay_all (rl_file j fs) = (pend, lost)"
  shows "rl_inv H (rl_set j (start_records pend) fs, i, CRelog (pset_list lost))"
proof -
  let ?h = "rl_file j fs" and ?a = "rl_file (1 - j) fs"
  have j: "j = 0 \<or> j = 1" using inv by (auto simp: rl_inv_def)
  have wk: "well_keyed ?h" "well_keyed ?a" using inv by (auto simp: rl_inv_def rl_file_def)
  have "mset (?h @ ?a) = mset (fst fs @ snd fs)" using j by (auto simp: rl_file_def)
  moreover have "log_equiv H (fst fs @ snd fs)" using inv by (simp add: rl_inv_def)
  ultimately have "log_equiv H (?h @ ?a)" using log_equiv_mset by blast
  then have le: "log_equiv H (compacted ?h @ ?a)" by (rule log_equiv_compact[OF _ once wk(1)])
  have c: "compacted ?h = start_records pend @ in_flight (CRelog (pset_list lost))"
    by (simp add: compacted_def rp complete_records_def)
  let ?fs = "rl_set j (start_records pend) fs"
  have "mset (fst ?fs @ snd ?fs @ in_flight (CRelog (pset_list lost))) = mset (compacted ?h @ ?a)"
    using j c by (cases fs) (auto simp: rl_set_def rl_file_def union_ac)
  with le have "log_equiv H (fst ?fs @ snd ?fs @ in_flight (CRelog (pset_list lost)))"
    using log_equiv_mset by blast
  moreover have "well_keyed (fst ?fs @ snd ?fs)"
    using j wk by (cases fs) (auto simp: rl_set_def rl_file_def)
  ultimately show ?thesis using inv by (auto simp: rl_inv_def)
qed

lemma rl_inv_relog:
  assumes "rl_inv H (fs, i, CRelog (x # xs))"
  shows "rl_inv H (rl_app i [Completed (opkey x)] fs, i, CRelog xs)"
proof -
  let ?r = "[Completed (opkey x)]" and ?fs = "rl_app i [Completed (opkey x)] fs"
  have "mset (fst ?fs @ snd ?fs @ in_flight (CRelog xs)) = mset (fst fs @ snd fs @ in_flight (CRelog (x # xs)))"
    using mset_rl_app[of i ?r fs] by (simp add: union_ac)
  with assms have "log_equiv H (fst ?fs @ snd ?fs @ in_flight (CRelog xs))"
    using log_equiv_mset by (fastforce simp: rl_inv_def)
  moreover have "well_keyed (fst ?fs @ snd ?fs)"
    using assms by (subst well_keyed_rl_app) (simp add: rl_inv_def)
  ultimately show ?thesis using assms by (auto simp: rl_inv_def)
qed

lemma history_append: "history (xs @ ys) = history xs @ history ys"
  by (induction xs rule: history.induct) auto

lemma rl_inv_exec:
  assumes inv: "rl_inv H s" and once: "started_once (H @ history [e])"
  shows "rl_inv (H @ history [e]) (rl_exec e s)"
proof -
  obtain fs i c where s: "s = (fs, i, c)" by (cases s)
  have onceH: "started_once H" using started_once_append[OF once] by simp
  show ?thesis
  proof (cases e)
    case (EvStart v)
    with inv once show ?thesis by (simp add: s rl_inv_append)
  next
    case (EvComplete p q)
    with inv once show ?thesis by (simp add: s rl_inv_append)
  next
    case EvSwitch
    with inv show ?thesis by (cases c) (auto simp: s rl_inv_def)
  next
    case EvRewrite
    then show ?thesis using inv rl_inv_rewrite[OF _ onceH]
      by (cases c) (auto simp: s Let_def split: prod.splits)
  next
    case EvRelog
    then show ?thesis using inv rl_inv_relog[of H fs i]
      by (cases c) (auto simp: s rl_inv_def split: list.splits)
  qed
qed

lemma rl_inv_run:
  "rl_inv H s \<Longrightarrow> started_once (H @ history es) \<Longrightarrow> rl_inv (H @ history es) (rl_run es s)"
proof (induction es arbitrary: H s)
  case (Cons e es)
  have h: "history (e # es) = history [e] @ history es" using history_append[of "[e]" es] by simp
  have "started_once (H @ history [e])"
    using Cons.prems(2) started_once_append[of "H @ history [e]" "history es"] by (simp add: h)
  with Cons.prems(1) have "rl_inv (H @ history [e]) (rl_exec e s)" by (rule rl_inv_exec)
  moreover have "started_once ((H @ history [e]) @ history es)" using Cons.prems(2) by (simp add: h)
  ultimately have "rl_inv ((H @ history [e]) @ history es) (rl_run es (rl_exec e s))" by (rule Cons.IH)
  then show ?case by (simp add: h)
qed simp

end
