(* ===== verification/FileStream.thy ===== *)
theory FileStream
  imports Prelude
begin

text \<open>
  The part of the C and C++ run-time the logger is written against: files kept under
  their path, \<^verbatim>\<open>std::ofstream\<close> objects in append mode, \<^verbatim>\<open>remove\<close> and \<^verbatim>\<open>rename\<close>, and
  the outcome of an allocation. A stream never throws (its exception mask is empty): a
  failed \<^verbatim>\<open>open\<close> or a \<^verbatim>\<open>write\<close> on a stream that is not open only sets the failure flag.
\<close>

section \<open>The machine\<close>

text \<open>\<open>can_open p\<close>: the process may open the file at \<open>p\<close>; \<open>can_alloc v n\<close>: the
  allocation of \<open>n\<close> bytes for the variable \<open>v\<close> succeeds.\<close>

record os =
  files :: "string \<Rightarrow> bytes option"
  can_open :: "string \<Rightarrow> bool"
  can_alloc :: "string \<Rightarrow> nat \<Rightarrow> bool"

definition content :: "os \<Rightarrow> string \<Rightarrow> bytes" where
  "content w p = (case files w p of None \<Rightarrow> [] | Some bs \<Rightarrow> bs)"

definition os_remove :: "string \<Rightarrow> os \<Rightarrow> os" where
  "os_remove p w = w\<lparr>files := (files w)(p := None)\<rparr>"

definition os_rename :: "string \<Rightarrow> string \<Rightarrow> os \<Rightarrow> os" where
  "os_rename a b w =
     (case files w a of
        None \<Rightarrow> w
      | Some bs \<Rightarrow> w\<lparr>files := (files w)(a := None, b := Some bs)\<rparr>)"

section \<open>Output streams in append mode\<close>

record ofs =
  ofs_path :: string
  ofs_open :: bool
  ofs_fail :: bool

definition ofs_new :: ofs where
  "ofs_new = \<lparr>ofs_path = [], ofs_open = False, ofs_fail = False\<rparr>"

text \<open>\<^verbatim>\<open>open(p, out|app|binary)\<close> creates a missing file and keeps an existing one.\<close>

definition ofs_open_app :: "string \<Rightarrow> ofs \<times> os \<Rightarrow> ofs \<times> os" where
  "ofs_open_app p = (\<lambda>(f, w).
     if ofs_open f then (f\<lparr>ofs_fail := True\<rparr>, w)
     else if can_open w p
       then (\<lparr>ofs_path = p, ofs_open = True, ofs_fail = False\<rparr>,
             w\<lparr>files := (files w)(p := Some (content w p))\<rparr>)
     else (f\<lparr>ofs_fail := True\<rparr>, w))"

definition ofs_close :: "ofs \<Rightarrow> ofs" where
  "ofs_close f = (if ofs_open f then f\<lparr>ofs_open := False\<rparr> else f\<lparr>ofs_fail := True\<rparr>)"

definition ofs_write :: "bytes \<Rightarrow> ofs \<times> os \<Rightarrow> ofs \<times> os" where
  "ofs_write bs = (\<lambda>(f, w).
     if ofs_open f \<and> \<not> ofs_fail f
     then (f, w\<lparr>files := (files w)(ofs_path f := Some (content w (ofs_path f) @ bs))\<rparr>)
     else (f\<lparr>ofs_fail := True\<rparr>, w))"

text \<open>A stream ready to take records at the end of the file at \<open>p\<close>.\<close>

definition ofs_at :: "string \<Rightarrow> ofs \<Rightarrow> bool" where
  "ofs_at p f \<longleftrightarrow> ofs_open f \<and> \<not> ofs_fail f \<and> ofs_path f = p"

section \<open>Lemmas\<close>

named_theorems fs_simps \<open>contents of files after stream and file operations\<close>

lemma content_remove [fs_simps]: "content (os_remove p w) q = (if q = p then [] else content w q)"
  by (simp add: os_remove_def content_def)

lemma content_rename [fs_simps]:
  "files w a \<noteq> None \<Longrightarrow> a \<noteq> b \<Longrightarrow> content (os_rename a b w) q =
     (if q = b then content w a else if q = a then [] else content w q)"
  by (auto simp: os_rename_def content_def)

lemma content_open [fs_simps]: "content (snd (ofs_open_app p (f, w))) q = content w q"
  by (simp add: ofs_open_app_def content_def)

lemma ofs_at_open [fs_simps]: "\<not> ofs_open f \<Longrightarrow> can_open w p \<Longrightarrow> ofs_at p (fst (ofs_open_app p (f, w)))"
  by (simp add: ofs_open_app_def ofs_at_def)

lemma files_open [fs_simps]: "\<not> ofs_open f \<Longrightarrow> can_open w p \<Longrightarrow> files (snd (ofs_open_app p (f, w))) p \<noteq> None"
  by (simp add: ofs_open_app_def)

lemma ofs_open_close [simp]: "\<not> ofs_open (ofs_close f)"
  by (simp add: ofs_close_def)

lemma content_write [fs_simps]:
  "ofs_at p f \<Longrightarrow> content (snd (ofs_write bs (f, w))) q = (if q = p then content w p @ bs else content w q)"
  by (auto simp: ofs_write_def ofs_at_def content_def)

lemma ofs_write_stream [fs_simps]: "ofs_at p f \<Longrightarrow> fst (ofs_write bs (f, w)) = f"
  by (simp add: ofs_write_def ofs_at_def)

lemma files_write [fs_simps]:
  "files (snd (ofs_write bs (f, w))) q = None \<longleftrightarrow> files w q = None \<and> \<not> (ofs_open f \<and> \<not> ofs_fail f \<and> q = ofs_path f)"
  by (simp add: ofs_write_def)

lemma ofs_write_append: "ofs_at p f \<Longrightarrow> ofs_write b (ofs_write a (f, w)) = ofs_write (a @ b) (f, w)"
  by (simp add: ofs_write_def ofs_at_def content_def)

lemma ofs_write_Nil: "ofs_at p f \<Longrightarrow> files w p \<noteq> None \<Longrightarrow> ofs_write [] (f, w) = (f, w)"
  by (cases w) (auto simp: ofs_write_def ofs_at_def content_def)

lemma os_frame [simp]:
  "can_open (os_remove p w) = can_open w" "can_alloc (os_remove p w) = can_alloc w"
  "can_open (os_rename a b w) = can_open w" "can_alloc (os_rename a b w) = can_alloc w"
  "can_open (snd (ofs_open_app p fw)) = can_open (snd fw)" "can_alloc (snd (ofs_open_app p fw)) = can_alloc (snd fw)"
  "can_open (snd (ofs_write bs fw)) = can_open (snd fw)" "can_alloc (snd (ofs_write bs fw)) = can_alloc (snd fw)"
  by (auto simp: os_remove_def os_rename_def ofs_open_app_def ofs_write_def split: option.splits prod.splits)

end
