(* ===== verification/AsyncOperationLogger.thy ===== *)
theory AsyncOperationLogger
  imports LogMachine FileStream
begin

text \<open>
  \<^verbatim>\<open>lib/AsyncOperationLogger.h\<close> and \<^verbatim>\<open>lib/AsyncOperationLogger.cpp\<close>: the write-ahead logs
  of asynchronous enqueues and dequeues. Each side keeps two files (\<^verbatim>\<open>enq00.log\<close> and
  \<^verbatim>\<open>enq01.log\<close>, \<^verbatim>\<open>deq00.log\<close> and \<^verbatim>\<open>deq01.log\<close>), writes to one of them, and has a cleaner
  that switches files and compacts the other. The scratch buffers of the class are
  overwritten before every use, so only the success of their allocation is modelled.
\<close>

section \<open>State\<close>

record aol =
  enqueueFileIndex :: int
  dequeueFileIndex :: int
  enqueueFile :: ofs
  dequeueFile :: ofs
  logBaseDir :: string

definition aolog_dequeue_start :: u8 where "aolog_dequeue_start = 2"
definition aolog_dequeue_complete :: u8 where "aolog_dequeue_complete = 3"
definition aolog_enqueue_start :: u8 where "aolog_enqueue_start = 4"
definition aolog_enqueue_complete :: u8 where "aolog_enqueue_complete = 5"

lemmas aolog_codes = aolog_dequeue_start_def aolog_dequeue_complete_def
  aolog_enqueue_start_def aolog_enqueue_complete_def

definition deqStartSize :: nat where "deqStartSize = 1 + 8 + 8"
definition deqCompleteSize :: nat where "deqCompleteSize = 1 + 8 + 8"
definition enqCompleteSize :: nat where "enqCompleteSize = 1 + 8 + 8"
definition enqDataPreambleSize :: nat where "enqDataPreambleSize = 1 + 8 + 8 + 8 + 1"

lemmas aolog_sizes = deqStartSize_def deqCompleteSize_def enqCompleteSize_def enqDataPreambleSize_def

definition buildEnqLogName :: "aol \<Rightarrow> int \<Rightarrow> bool \<Rightarrow> string" where
  "buildEnqLogName A index temp =
     logBaseDir A @ ''/enq'' @ (if \<not> temp then ''0'' @ int_string index else ''_tmp'') @ ''.log''"

definition buildDeqLogName :: "aol \<Rightarrow> int \<Rightarrow> bool \<Rightarrow> string" where
  "buildDeqLogName A index temp =
     logBaseDir A @ ''/deq'' @ (if \<not> temp then ''0'' @ int_string index else ''_tmp'') @ ''.log''"

section \<open>Construction and destruction\<close>

text \<open>The two ends of the log of one side, opened on the file of an index.\<close>

definition open_enq :: "int \<Rightarrow> aol \<times> os \<Rightarrow> aol \<times> os" where
  "open_enq index = (\<lambda>(A, w).
     let (f, w') = ofs_open_app (buildEnqLogName A index False) (enqueueFile A, w)
     in (A\<lparr>enqueueFileIndex := index, enqueueFile := f\<rparr>, w'))"

definition open_deq :: "int \<Rightarrow> aol \<times> os \<Rightarrow> aol \<times> os" where
  "open_deq index = (\<lambda>(A, w).
     let (f, w') = ofs_open_app (buildDeqLogName A index False) (dequeueFile A, w)
     in (A\<lparr>dequeueFileIndex := index, dequeueFile := f\<rparr>, w'))"

definition AsyncOperationLogger :: "string \<Rightarrow> os \<Rightarrow> exn + aol \<times> os" where
  "AsyncOperationLogger basedir w =
     (if \<not> can_alloc w ''deqStartBuff'' deqStartSize
      then Inl (StoreException ''Unable to allocate dequeue start log buffer'')
      else if \<not> can_alloc w ''deqCompleteBuff'' deqCompleteSize
      then Inl (StoreException ''Unable to allocate dequeue complete log buffer'')
      else if \<not> can_alloc w ''enqRawBuff'' enqCompleteSize
      then Inl (StoreException ''Unable to allocate enqueue complete log buffer'')
      else if \<not> can_alloc w ''enqDataPreambleBuff'' enqDataPreambleSize
      then Inl (StoreException ''Unable to allocate enqueue data preamble log buffer'')
      else Inr (open_deq 0 (open_enq 0
        (\<lparr>enqueueFileIndex = 0, dequeueFileIndex = 0, enqueueFile = ofs_new,
          dequeueFile = ofs_new, logBaseDir = basedir\<rparr>, w))))"

definition AsyncOperationLogger_destroy :: "aol \<Rightarrow> aol" where
  "AsyncOperationLogger_destroy A =
     A\<lparr>enqueueFile := if ofs_open (enqueueFile A) then ofs_close (enqueueFile A) else enqueueFile A,
       dequeueFile := if ofs_open (dequeueFile A) then ofs_close (dequeueFile A) else dequeueFile A\<rparr>"

section \<open>The image of a record\<close>

definition deq_start_record :: "u64 \<Rightarrow> u64 \<Rightarrow> bytes" where
  "deq_start_record pid qid = aolog_dequeue_start # u64_bytes pid @ u64_bytes qid"

definition deq_complete_record :: "u64 \<Rightarrow> u64 \<Rightarrow> bytes" where
  "deq_complete_record pid qid = aolog_dequeue_complete # u64_bytes pid @ u64_bytes qid"

definition enq_complete_record :: "u64 \<Rightarrow> u64 \<Rightarrow> bytes" where
  "enq_complete_record pid qid = aolog_enqueue_complete # u64_bytes pid @ u64_bytes qid"

definition enq_preamble :: "u64 \<Rightarrow> u64 \<Rightarrow> u64 \<Rightarrow> bool \<Rightarrow> bytes" where
  "enq_preamble pid qid buffsize transient =
     aolog_enqueue_start # u64_bytes pid @ u64_bytes qid @ u64_bytes buffsize @ [if transient then 1 else 0]"

section \<open>Logging one operation\<close>

text \<open>The \<^verbatim>\<open>catch (...)\<close> arms that answer \<^verbatim>\<open>-1\<close> are not reached: the streams do not throw.\<close>

definition log_dequeue_start_on_file :: "u64 \<Rightarrow> u64 \<Rightarrow> ofs \<times> os \<Rightarrow> int \<times> ofs \<times> os" where
  "log_dequeue_start_on_file pid qid fw = (0, ofs_write (deq_start_record pid qid) fw)"

text \<open>\<^verbatim>\<open>write(&buff[0], buffsize)\<close> reads past the vector when \<^verbatim>\<open>buffsize\<close> exceeds its length.\<close>

definition log_enqueue_start_on_file ::
    "u64 \<Rightarrow> u64 \<Rightarrow> bytes \<Rightarrow> u64 \<Rightarrow> bool \<Rightarrow> ofs \<times> os \<Rightarrow> exn + int \<times> ofs \<times> os" where
  "log_enqueue_start_on_file pid qid buff buffsize transient fw =
     (if length buff < unat buffsize then Inl (Fault OutOfBounds)
      else Inr (0, ofs_write (take (unat buffsize) buff) (ofs_write (enq_preamble pid qid buffsize transient) fw)))"

definition log_dequeue_start :: "u64 \<Rightarrow> u64 \<Rightarrow> aol \<times> os \<Rightarrow> int \<times> aol \<times> os" where
  "log_dequeue_start pid qid = (\<lambda>(A, w).
     let (r, f, w') = log_dequeue_start_on_file pid qid (dequeueFile A, w)
     in (if r = 0 then dequeueFileIndex A else -1, A\<lparr>dequeueFile := f\<rparr>, w'))"

definition log_dequeue_complete :: "u64 \<Rightarrow> u64 \<Rightarrow> aol \<times> os \<Rightarrow> int \<times> aol \<times> os" where
  "log_dequeue_complete pid qid = (\<lambda>(A, w).
     let (f, w') = ofs_write (deq_complete_record pid qid) (dequeueFile A, w)
     in (dequeueFileIndex A, A\<lparr>dequeueFile := f\<rparr>, w'))"

definition log_enqueue_start :: "u64 \<Rightarrow> u64 \<Rightarrow> bytes \<Rightarrow> u64 \<Rightarrow> bool \<Rightarrow> aol \<times> os \<Rightarrow> exn + int \<times> aol \<times> os" where
  "log_enqueue_start pid qid buff buffsize transient = (\<lambda>(A, w).
     case log_enqueue_start_on_file pid qid buff buffsize transient (enqueueFile A, w) of
       Inl e \<Rightarrow> Inl e
     | Inr (r, f, w') \<Rightarrow> Inr (if r = 0 then enqueueFileIndex A else -1, A\<lparr>enqueueFile := f\<rparr>, w'))"

definition log_enqueue_complete :: "u64 \<Rightarrow> u64 \<Rightarrow> aol \<times> os \<Rightarrow> int \<times> aol \<times> os" where
  "log_enqueue_complete pid qid = (\<lambda>(A, w).
     let (f, w') = ofs_write (enq_complete_record pid qid) (enqueueFile A, w)
     in (enqueueFileIndex A, A\<lparr>enqueueFile := f\<rparr>, w'))"

section \<open>Logging many completions\<close>

fun each_dequeue_complete :: "(u64 \<times> u64) list \<Rightarrow> int \<times> aol \<times> os \<Rightarrow> int \<times> aol \<times> os" where
  "each_dequeue_complete [] rAw = rAw"
| "each_dequeue_complete ((pid, qid) # ids) (r, Aw) = each_dequeue_complete ids (log_dequeue_complete pid qid Aw)"

fun each_enqueue_complete :: "(u64 \<times> u64) list \<Rightarrow> int \<times> aol \<times> os \<Rightarrow> int \<times> aol \<times> os" where
  "each_enqueue_complete [] rAw = rAw"
| "each_enqueue_complete ((pid, qid) # ids) (r, Aw) = each_enqueue_complete ids (log_enqueue_complete pid qid Aw)"

text \<open>\<^verbatim>\<open>int local_buff_size = size * n\<close>: the product is cut to 32 bits, and a negative value
  reaches \<^verbatim>\<open>malloc\<close> as a huge \<^verbatim>\<open>size_t\<close>.\<close>

definition local_buff_size :: "nat \<Rightarrow> int" where
  "local_buff_size n = sint (word_of_nat n :: u32)"

definition log_mass_dequeue_complete :: "(u64 \<times> u64) list \<Rightarrow> aol \<times> os \<Rightarrow> exn + int \<times> aol \<times> os" where
  "log_mass_dequeue_complete pid_list = (\<lambda>(A, w).
     let sz = local_buff_size (deqCompleteSize * length pid_list)
     in if can_alloc w ''bigbuff'' (nat (sz mod 2 ^ 64))
        then if sz < int (deqCompleteSize * length pid_list) then Inl (Fault OutOfBounds)
             else let (f, w') = ofs_write (concat (map (\<lambda>(pid, qid). deq_complete_record pid qid) pid_list)) (dequeueFile A, w)
                  in Inr (dequeueFileIndex A, A\<lparr>dequeueFile := f\<rparr>, w')
        else Inr (each_dequeue_complete pid_list (0, A, w)))"

definition log_mass_enqueue_complete :: "(u64 \<times> u64) list \<Rightarrow> aol \<times> os \<Rightarrow> exn + int \<times> aol \<times> os" where
  "log_mass_enqueue_complete pid_list = (\<lambda>(A, w).
     let sz = local_buff_size (enqCompleteSize * length pid_list)
     in if can_alloc w ''bigbuff'' (nat (sz mod 2 ^ 64))
        then if sz < int (enqCompleteSize * length pid_list) then Inl (Fault OutOfBounds)
             else let (f, w') = ofs_write (concat (map (\<lambda>(pid, qid). enq_complete_record pid qid) pid_list)) (enqueueFile A, w)
                  in Inr (enqueueFileIndex A, A\<lparr>enqueueFile := f\<rparr>, w')
        else Inr (each_enqueue_complete pid_list (0, A, w)))"

definition log_mass_enqueue_dequeue_complete :: "(u64 \<times> u64) list \<Rightarrow> aol \<times> os \<Rightarrow> exn + bool \<times> aol \<times> os" where
  "log_mass_enqueue_dequeue_complete pid_list Aw =
     (case log_mass_enqueue_complete pid_list Aw of
        Inl e \<Rightarrow> Inl e
      | Inr (r, Aw') \<Rightarrow>
          (case log_mass_dequeue_complete pid_list Aw' of
             Inl e \<Rightarrow> Inl e
           | Inr (r', Aw'') \<Rightarrow> Inr (r \<noteq> -1 \<and> r' \<noteq> -1, Aw'')))"

section \<open>Reading a log\<close>

text \<open>The read loops: an unknown opcode is skipped, a short read ends the file. The start
  record of an enqueue carries its size; \<^verbatim>\<open>std::vector<char>(size)\<close> may fail to allocate.\<close>

function deq_read_loop :: "bytes \<Rightarrow> pending_deq replay_state \<Rightarrow> pending_deq replay_state" where
  "deq_read_loop [] s = s"
| "deq_read_loop (opcode # r) s =
     (if opcode = aolog_dequeue_start then
        (if length r < deqStartSize - 1 then s
         else let pid = bytes_u64 (take 8 r); qid = bytes_u64 (take 8 (drop 8 r))
              in deq_read_loop (drop 16 r) (log_start (qid, pid) (PendingAsyncDequeue pid qid) s))
      else if opcode = aolog_dequeue_complete then
        (if length r < deqCompleteSize - 1 then s
         else let pid = bytes_u64 (take 8 r); qid = bytes_u64 (take 8 (drop 8 r))
              in deq_read_loop (drop 16 r) (log_complete (qid, pid) s))
      else deq_read_loop r s)"
  by pat_completeness auto
termination by (relation "measure (length \<circ> fst)") auto

function enq_read_loop :: "(nat \<Rightarrow> bool) \<Rightarrow> bytes \<Rightarrow> pending_enq replay_state \<Rightarrow> exn + pending_enq replay_state" where
  "enq_read_loop alloc [] s = Inr s"
| "enq_read_loop alloc (opcode # r) s =
     (if opcode = aolog_enqueue_start then
        (if length r < enqDataPreambleSize - 1 then Inr s
         else let pid = bytes_u64 (take 8 r); qid = bytes_u64 (take 8 (drop 8 r));
                  size = bytes_u64 (take 8 (drop 16 r)); transientFlag = (r ! 24 \<noteq> 0)
              in if \<not> alloc (unat size) then Inl BadAlloc
                 else if length (drop 25 r) < unat size then Inr s
                 else enq_read_loop alloc (drop (25 + unat size) r)
                   (log_start (qid, pid)
                     ((PendingAsyncEnqueue pid qid transientFlag)\<lparr>enq_size := size,
                        enq_buff := take (unat size) (drop 25 r)\<rparr>) s))
      else if opcode = aolog_enqueue_complete then
        (if length r < enqCompleteSize - 1 then Inr s
         else let pid = bytes_u64 (take 8 r); qid = bytes_u64 (take 8 (drop 8 r))
              in enq_read_loop alloc (drop 16 r) (log_complete (qid, pid) s))
      else enq_read_loop alloc r s)"
  by pat_completeness auto
termination by (relation "measure (length \<circ> fst \<circ> snd)") auto

definition extractPendingDequeueFromFile ::
    "aol \<times> os \<Rightarrow> int \<Rightarrow> pending_deq replay_state \<Rightarrow> pending_deq replay_state" where
  "extractPendingDequeueFromFile = (\<lambda>(A, w) fileIndex s.
     if \<not> can_alloc w ''startbuff'' deqStartSize \<or> \<not> can_alloc w ''completebuff'' deqCompleteSize then s
     else let p = buildDeqLogName A fileIndex False
          in case files w p of
               None \<Rightarrow> s
             | Some bs \<Rightarrow> if can_open w p then deq_read_loop bs s else s)"

definition extractPendingEnqueueFromFile ::
    "aol \<times> os \<Rightarrow> int \<Rightarrow> pending_enq replay_state \<Rightarrow> exn + pending_enq replay_state" where
  "extractPendingEnqueueFromFile = (\<lambda>(A, w) fileIndex s.
     if \<not> can_alloc w ''startbuff'' enqDataPreambleSize \<or> \<not> can_alloc w ''completebuff'' enqCompleteSize then Inr s
     else let p = buildEnqLogName A fileIndex False
          in case files w p of
               None \<Rightarrow> Inr s
             | Some bs \<Rightarrow> if can_open w p then enq_read_loop (can_alloc w ''pae.buff'') bs s else Inr s)"

section \<open>Recovery\<close>

fun relog_dequeues :: "pending_deq list \<Rightarrow> aol \<times> os \<Rightarrow> aol \<times> os" where
  "relog_dequeues [] Aw = Aw"
| "relog_dequeues (d # ds) Aw = relog_dequeues ds (snd (log_dequeue_start (msgId d) (queueId d) Aw))"

fun relog_enqueues :: "pending_enq list \<Rightarrow> aol \<times> os \<Rightarrow> exn + aol \<times> os" where
  "relog_enqueues [] Aw = Inr Aw"
| "relog_enqueues (e # es) Aw =
     (case log_enqueue_start (msgId e) (queueId e) (enq_buff e) (enq_size e) (enq_transient e) Aw of
        Inl x \<Rightarrow> Inl x
      | Inr (_, Aw') \<Rightarrow> relog_enqueues es Aw')"

definition recoverAsyncDequeue :: "PendingDequeueSet \<Rightarrow> aol \<times> os \<Rightarrow> int \<times> PendingDequeueSet \<times> aol \<times> os" where
  "recoverAsyncDequeue adset = (\<lambda>(A, w).
     let A1 = A\<lparr>dequeueFile := if ofs_open (dequeueFile A) then ofs_close (dequeueFile A) else dequeueFile A\<rparr>;
         s0 = extractPendingDequeueFromFile (A1, w) 0 (adset, []);
         w0 = os_remove (buildDeqLogName A1 0 False) w;
         s1 = extractPendingDequeueFromFile (A1, w0) 1 s0;
         w1 = os_remove (buildDeqLogName A1 1 False) w0
     in (0, fst s1, relog_dequeues (pset_list (fst s1)) (open_deq 0 (A1, w1))))"

definition recoverAsyncEnqueue :: "PendingEnqueueSet \<Rightarrow> aol \<times> os \<Rightarrow> exn + int \<times> PendingEnqueueSet \<times> aol \<times> os" where
  "recoverAsyncEnqueue aeset = (\<lambda>(A, w).
     let A1 = A\<lparr>enqueueFile := if ofs_open (enqueueFile A) then ofs_close (enqueueFile A) else enqueueFile A\<rparr>
     in case extractPendingEnqueueFromFile (A1, w) 0 (aeset, []) of
          Inl x \<Rightarrow> Inl x
        | Inr s0 \<Rightarrow>
            (let w0 = os_remove (buildEnqLogName A1 0 False) w
             in case extractPendingEnqueueFromFile (A1, w0) 1 s0 of
                  Inl x \<Rightarrow> Inl x
                | Inr s1 \<Rightarrow>
                    (let w1 = os_remove (buildEnqLogName A1 1 False) w0
                     in case relog_enqueues (pset_list (fst s1)) (open_enq 0 (A1, w1)) of
                          Inl x \<Rightarrow> Inl x
                        | Inr Aw \<Rightarrow> Inr (0, fst s1, Aw))))"

section \<open>The cleaners\<close>

text \<open>One pass of a cleaner is three steps with the lock free between them: switch to the
  other file, compact the file left behind through a temporary, log the completions
  that found no start again.\<close>

fun write_dequeues :: "pending_deq list \<Rightarrow> ofs \<times> os \<Rightarrow> ofs \<times> os" where
  "write_dequeues [] fw = fw"
| "write_dequeues (d # ds) fw = write_dequeues ds (snd (log_dequeue_start_on_file (msgId d) (queueId d) fw))"

fun write_enqueues :: "pending_enq list \<Rightarrow> ofs \<times> os \<Rightarrow> exn + ofs \<times> os" where
  "write_enqueues [] fw = Inr fw"
| "write_enqueues (e # es) fw =
     (case log_enqueue_start_on_file (msgId e) (queueId e) (enq_buff e) (enq_size e) (enq_transient e) fw of
        Inl x \<Rightarrow> Inl x
      | Inr (_, fw') \<Rightarrow> write_enqueues es fw')"

fun relog_lost_enqueues :: "pending_op list \<Rightarrow> aol \<times> os \<Rightarrow> aol \<times> os" where
  "relog_lost_enqueues [] Aw = Aw"
| "relog_lost_enqueues (x # xs) Aw = relog_lost_enqueues xs (snd (log_enqueue_complete (msgId x) (queueId x) Aw))"

fun relog_lost_dequeues :: "pending_op list \<Rightarrow> aol \<times> os \<Rightarrow> aol \<times> os" where
  "relog_lost_dequeues [] Aw = Aw"
| "relog_lost_dequeues (x # xs) Aw = relog_lost_dequeues xs (snd (log_dequeue_complete (msgId x) (queueId x) Aw))"

definition cleanEnqueue_switch :: "aol \<times> os \<Rightarrow> int \<times> aol \<times> os" where
  "cleanEnqueue_switch = (\<lambda>(A, w).
     (enqueueFileIndex A,
      open_enq ((enqueueFileIndex A + 1) mod 2) (A\<lparr>enqueueFile := ofs_close (enqueueFile A)\<rparr>, w)))"

definition cleanEnqueue_rewrite :: "int \<Rightarrow> aol \<times> os \<Rightarrow> exn + PendingOperationSet \<times> os" where
  "cleanEnqueue_rewrite handlingIndex = (\<lambda>(A, w).
     case extractPendingEnqueueFromFile (A, w) handlingIndex ([], []) of
       Inl x \<Rightarrow> Inl x
     | Inr (aeset, lostSet) \<Rightarrow>
         (let handlingLogname = buildEnqLogName A handlingIndex False;
              tmpLogName = buildEnqLogName A 0 True;
              (tmplog, w1) = ofs_open_app tmpLogName (ofs_new, w)
          in if \<not> ofs_fail tmplog
             then (case write_enqueues (pset_list aeset) (tmplog, w1) of
                     Inl x \<Rightarrow> Inl x
                   | Inr (_, w2) \<Rightarrow>
                       Inr (lostSet, os_rename tmpLogName handlingLogname (os_remove handlingLogname w2)))
             else Inr (lostSet, w1)))"

definition cleanEnqueue_pass :: "aol \<times> os \<Rightarrow> exn + aol \<times> os" where
  "cleanEnqueue_pass Aw =
     (let (handlingIndex, A1, w1) = cleanEnqueue_switch Aw
      in case cleanEnqueue_rewrite handlingIndex (A1, w1) of
           Inl x \<Rightarrow> Inl x
         | Inr (lostSet, w2) \<Rightarrow> Inr (relog_lost_enqueues (pset_list lostSet) (A1, w2)))"

definition cleanDequeue_switch :: "aol \<times> os \<Rightarrow> int \<times> aol \<times> os" where
  "cleanDequeue_switch = (\<lambda>(A, w).
     (dequeueFileIndex A,
      open_deq ((dequeueFileIndex A + 1) mod 2) (A\<lparr>dequeueFile := ofs_close (dequeueFile A)\<rparr>, w)))"

definition cleanDequeue_rewrite :: "int \<Rightarrow> aol \<times> os \<Rightarrow> PendingOperationSet \<times> os" where
  "cleanDequeue_rewrite handlingIndex = (\<lambda>(A, w).
     let (adset, lostSet) = extractPendingDequeueFromFile (A, w) handlingIndex ([], []);
         handlingLogname = buildDeqLogName A handlingIndex False;
         tmpLogName = buildDeqLogName A 0 True;
         (tmplog, w1) = ofs_open_app tmpLogName (ofs_new, w)
     in if \<not> ofs_fail tmplog
        then (let (_, w2) = write_dequeues (pset_list adset) (tmplog, w1)
              in (lostSet, os_rename tmpLogName handlingLogname (os_remove handlingLogname w2)))
        else (lostSet, w1))"

definition cleanDequeue_pass :: "aol \<times> os \<Rightarrow> aol \<times> os" where
  "cleanDequeue_pass Aw =
     (let (handlingIndex, A1, w1) = cleanDequeue_switch Aw;
          (lostSet, w2) = cleanDequeue_rewrite handlingIndex (A1, w1)
      in relog_lost_dequeues (pset_list lostSet) (A1, w2))"

text \<open>The guard of the loop, and the loop itself over the moments it wakes up: the clock in
  seconds and the write position of the log file at that moment.\<close>

definition clean_due :: "int \<Rightarrow> int \<Rightarrow> int \<Rightarrow> int \<Rightarrow> bool" where
  "clean_due dur intervalInSeconds pos warningSize =
     (let notNow = (if dur < intervalInSeconds then (if pos < warningSize then True else False) else False)
      in \<not> notNow)"

fun cleanEnqueue_loop :: "int \<Rightarrow> int \<Rightarrow> int \<Rightarrow> (int \<times> int) list \<Rightarrow> aol \<times> os \<Rightarrow> exn + aol \<times> os" where
  "cleanEnqueue_loop intervalInSeconds warningSize last_exec [] Aw = Inr Aw"
| "cleanEnqueue_loop intervalInSeconds warningSize last_exec ((now, pos) # ticks) Aw =
     (if clean_due (now - last_exec) intervalInSeconds pos warningSize
      then (case cleanEnqueue_pass Aw of
              Inl x \<Rightarrow> Inl x
            | Inr Aw' \<Rightarrow> cleanEnqueue_loop intervalInSeconds warningSize now ticks Aw')
      else cleanEnqueue_loop intervalInSeconds warningSize last_exec ticks Aw)"

definition cleanEnqueueLog :: "int \<Rightarrow> int \<Rightarrow> int \<Rightarrow> (int \<times> int) list \<Rightarrow> aol \<times> os \<Rightarrow> exn + aol \<times> os" where
  "cleanEnqueueLog intervalInSeconds warningSize start ticks Aw =
     (if \<not> can_alloc (snd Aw) ''wbuff'' enqDataPreambleSize
      then Inl (StoreException ''Unable to allocate memory for write buffer used by the enqueue log cleaner'')
      else cleanEnqueue_loop intervalInSeconds warningSize start ticks Aw)"

fun cleanDequeue_loop :: "int \<Rightarrow> int \<Rightarrow> int \<Rightarrow> (int \<times> int) list \<Rightarrow> aol \<times> os \<Rightarrow> aol \<times> os" where
  "cleanDequeue_loop intervalInSeconds warningSize last_exec [] Aw = Aw"
| "cleanDequeue_loop intervalInSeconds warningSize last_exec ((now, pos) # ticks) Aw =
     (if clean_due (now - last_exec) intervalInSeconds pos warningSize
      then cleanDequeue_loop intervalInSeconds warningSize now ticks (cleanDequeue_pass Aw)
      else cleanDequeue_loop intervalInSeconds warningSize last_exec ticks Aw)"

definition cleanDequeueLog :: "int \<Rightarrow> int \<Rightarrow> int \<Rightarrow> (int \<times> int) list \<Rightarrow> aol \<times> os \<Rightarrow> exn + aol \<times> os" where
  "cleanDequeueLog intervalInSeconds warningSize start ticks Aw =
     (if \<not> can_alloc (snd Aw) ''wbuff'' deqStartSize
      then Inl (StoreException ''Unable to allocate memory for write buffer used by the dequeue log cleaner'')
      else Inr (cleanDequeue_loop intervalInSeconds warningSize start ticks Aw))"

end
