(* ===== verification/LogRecovery.thy ===== *)
theory LogRecovery
  imports AsyncOperationLogger
begin

text \<open>
  Correctness of the write-ahead logs: the byte format is a codec that tolerates a record
  cut short, every logging call and every cleaner step of
  \<^verbatim>\<open>lib/AsyncOperationLogger.cpp\<close> implements the step of the record machine of
  \<open>LogMachine\<close>, and therefore recovery after a crash returns exactly the operations that
  were started and not completed.
\<close>

section \<open>Records and their bytes\<close>

type_synonym deq_rec = "(u64 \<times> u64, pending_deq) oprec"
type_synonym enq_rec = "(u64 \<times> u64, pending_enq) oprec"

text \<open>A log seen as records; keys are (queue id, message id) as in the two-level maps.\<close>

fun deq_bytes :: "deq_rec \<Rightarrow> bytes" where
  "deq_bytes (Started (q, p) d) = deq_start_record p q"
| "deq_bytes (Completed (q, p)) = deq_complete_record p q"

fun enq_bytes :: "enq_rec \<Rightarrow> bytes" where
  "enq_bytes (Started (q, p) e) = enq_preamble p q (enq_size e) (enq_transient e) @ enq_buff e"
| "enq_bytes (Completed (q, p)) = enq_complete_record p q"

fun deq_valid :: "deq_rec \<Rightarrow> bool" where
  "deq_valid (Started (q, p) d) \<longleftrightarrow> d = PendingAsyncDequeue p q"
| "deq_valid (Completed k) \<longleftrightarrow> True"

fun enq_valid :: "(nat \<Rightarrow> bool) \<Rightarrow> enq_rec \<Rightarrow> bool" where
  "enq_valid alloc (Started (q, p) e) \<longleftrightarrow>
     msgId e = p \<and> queueId e = q \<and> length (enq_buff e) = unat (enq_size e) \<and> alloc (unat (enq_size e))"
| "enq_valid alloc (Completed k) \<longleftrightarrow> True"

definition encode :: "('r \<Rightarrow> bytes) \<Rightarrow> 'r list \<Rightarrow> bytes" where
  "encode enc rs = concat (map enc rs)"

text \<open>The bytes of a log whose last record may have been cut short by a crash.\<close>

definition torn_log :: "('r \<Rightarrow> bytes) \<Rightarrow> ('r \<Rightarrow> bool) \<Rightarrow> 'r list \<Rightarrow> bytes \<Rightarrow> bool" where
  "torn_log enc valid rs bs \<longleftrightarrow>
     (\<exists>t. bs = encode enc rs @ t \<and> (t = [] \<or> (\<exists>r u. valid r \<and> enc r = t @ u \<and> u \<noteq> [])))"

lemma encode_simps [simp]:
  "encode enc [] = []" "encode enc (r # rs) = enc r @ encode enc rs"
  "encode enc (rs @ ts) = encode enc rs @ encode enc ts"
  by (simp_all add: encode_def)

lemma torn_log_encode [simp]: "torn_log enc valid rs (encode enc rs)"
  by (simp add: torn_log_def)

text \<open>What a reader owes the writer: a record read in front of other bytes has the effect of
  the record, and a record cut short at the end of the file has none.\<close>

locale log_codec =
  fixes enc :: "('k, 'v) oprec \<Rightarrow> bytes"
    and dec :: "bytes \<Rightarrow> 's \<Rightarrow> exn + 's"
    and st :: "'k \<Rightarrow> 'v \<Rightarrow> 's \<Rightarrow> 's" and cp :: "'k \<Rightarrow> 's \<Rightarrow> 's"
    and valid :: "('k, 'v) oprec \<Rightarrow> bool"
  assumes dec_Nil: "dec [] s = Inr s"
    and dec_enc: "valid r \<Longrightarrow> dec (enc r @ bs) s = dec bs (replay st cp [r] s)"
    and dec_torn: "valid r \<Longrightarrow> enc r = t @ u \<Longrightarrow> u \<noteq> [] \<Longrightarrow> dec t s = Inr s"
begin

lemma dec_encode: "list_all valid rs \<Longrightarrow> dec (encode enc rs @ bs) s = dec bs (replay st cp rs s)"
proof (induction rs arbitrary: s)
  case (Cons r rs)
  then have "dec (encode enc (r # rs) @ bs) s = dec (encode enc rs @ bs) (replay st cp [r] s)"
    by (simp add: dec_enc)
  with Cons show ?case by (cases r) simp_all
qed simp

lemma dec_torn_log:
  assumes "list_all valid rs" and "torn_log enc valid rs bs"
  shows "dec bs s = Inr (replay st cp rs s)"
proof -
  obtain t where bs: "bs = encode enc rs @ t"
    and t: "t = [] \<or> (\<exists>r u. valid r \<and> enc r = t @ u \<and> u \<noteq> [])"
    using assms(2) by (auto simp: torn_log_def)
  have "dec t s' = Inr s'" for s' using t dec_Nil dec_torn by blast
  with bs show ?thesis by (simp add: dec_encode[OF assms(1)])
qed

end

section \<open>The readers meet the codec contract\<close>

lemma bytes_u64_take [simp]:
  "bytes_u64 (take 8 (u64_bytes x @ r)) = x"
  "bytes_u64 (take 8 (drop 8 (u64_bytes y @ u64_bytes x @ r))) = x"
  "bytes_u64 (take 8 (drop 8 (u64_bytes y @ u64_bytes x))) = x"
  "bytes_u64 (take 8 (drop 16 (u64_bytes z @ u64_bytes y @ u64_bytes x @ r))) = x"
  by simp_all

lemma length_deq_bytes: "length (deq_bytes r) = 17"
  by (cases r rule: deq_bytes.cases) (simp_all add: deq_start_record_def deq_complete_record_def)

interpretation deq_codec: log_codec deq_bytes "\<lambda>bs s. Inr (deq_read_loop bs s)" log_start log_complete deq_valid
proof
  fix s :: "pending_deq replay_state"
  show "Inr (deq_read_loop [] s) = Inr s" by simp
next
  fix r :: deq_rec and bs s
  assume "deq_valid r"
  then show "Inr (deq_read_loop (deq_bytes r @ bs) s) = Inr (deq_read_loop bs (replay log_start log_complete [r] s))"
    by (cases r rule: deq_bytes.cases)
      (simp_all add: deq_start_record_def deq_complete_record_def aolog_codes aolog_sizes)
next
  fix r :: deq_rec and t u :: bytes and s
  assume "deq_bytes r = t @ u" "u \<noteq> []"
  moreover from this have "length t < 17"
    using length_deq_bytes[of r] by (cases u) auto
  ultimately show "Inr (deq_read_loop t s) = Inr s"
    by (cases r rule: deq_bytes.cases; cases t)
      (auto simp: deq_start_record_def deq_complete_record_def aolog_codes aolog_sizes)
qed

lemma enq_start_read:
  assumes "enq_valid alloc (Started (q, p) e)"
  shows "enq_read_loop alloc (enq_bytes (Started (q, p) e) @ bs) s = enq_read_loop alloc bs (log_start (q, p) e s)"
proof -
  have e: "(PendingAsyncEnqueue p q (enq_transient e))\<lparr>enq_size := enq_size e, enq_buff := enq_buff e\<rparr> = e"
    using assms by (cases e) (simp add: PendingAsyncEnqueue_def)
  show ?thesis
    using assms e by (cases "enq_transient e")
      (simp_all add: enq_preamble_def aolog_codes aolog_sizes nth_append)
qed

lemma enq_start_torn:
  assumes v: "enq_valid alloc (Started (q, p) e)" and b: "enq_bytes (Started (q, p) e) = t @ u" and u: "u \<noteq> []"
  shows "enq_read_loop alloc t s = Inr s"
proof (cases t)
  case (Cons c r)
  define h where "h = u64_bytes p @ u64_bytes q @ u64_bytes (enq_size e) @ [if enq_transient e then 1 else 0]"
  have c: "c = aolog_enqueue_start" and r: "r @ u = h @ enq_buff e"
    using b Cons by (simp_all add: enq_preamble_def h_def)
  show ?thesis
  proof (cases "length r < 25")
    case True
    then show ?thesis by (simp add: Cons c aolog_codes aolog_sizes)
  next
    case False
    then have h: "length h \<le> length r" by (simp add: h_def)
    with r obtain d where d: "r = h @ d" "d @ u = enq_buff e"
      by (auto simp: append_eq_append_conv2)
    then have "length d + length u = unat (enq_size e)" using v by (metis enq_valid.simps(1) length_append)
    then have "length d < unat (enq_size e)" using u by (cases u) auto
    then show ?thesis using v by (simp add: Cons c d(1) h_def aolog_codes aolog_sizes)
  qed
qed simp

interpretation enq_codec: log_codec enq_bytes "enq_read_loop alloc" log_start log_complete "enq_valid alloc" for alloc
proof
  fix s :: "pending_enq replay_state"
  show "enq_read_loop alloc [] s = Inr s" by simp
next
  fix r :: enq_rec and bs s
  assume "enq_valid alloc r"
  then show "enq_read_loop alloc (enq_bytes r @ bs) s = enq_read_loop alloc bs (replay log_start log_complete [r] s)"
    by (cases r rule: enq_bytes.cases)
      (simp_all add: enq_start_read enq_complete_record_def aolog_codes aolog_sizes del: enq_bytes.simps(1))
next
  fix r :: enq_rec and t u :: bytes and s
  assume v: "enq_valid alloc r" and b: "enq_bytes r = t @ u" and u: "u \<noteq> []"
  show "enq_read_loop alloc t s = Inr s"
  proof (cases r rule: enq_bytes.cases)
    case (1 q p e)
    with v b u show ?thesis using enq_start_torn by blast
  next
    case (2 q p)
    then have "length (enq_bytes r) = 17" by (simp add: enq_complete_record_def)
    with b have "length t + length u = 17" by simp
    with u have "length t < 17" by (cases u) auto
    with 2 b show ?thesis
      by (cases t) (auto simp: enq_complete_record_def aolog_codes aolog_sizes)
  qed
qed

section \<open>The log files as two lists of records\<close>

text \<open>A machine on which every open and every allocation succeeds.\<close>

definition calm :: "os \<Rightarrow> bool" where
  "calm w \<longleftrightarrow> (\<forall>p. can_open w p) \<and> (\<forall>v n. can_alloc w v n)"

definition enq_files :: "aol \<Rightarrow> os \<Rightarrow> pending_enq rlog \<Rightarrow> bool" where
  "enq_files A w fs \<longleftrightarrow> calm w \<and>
     content w (buildEnqLogName A 0 False) = encode enq_bytes (fst fs) \<and>
     content w (buildEnqLogName A 1 False) = encode enq_bytes (snd fs) \<and>
     list_all (enq_valid (can_alloc w ''pae.buff'')) (fst fs @ snd fs) \<and>
     files w (buildEnqLogName A 0 True) = None"

definition enq_abs :: "aol \<Rightarrow> os \<Rightarrow> pending_enq rlog \<Rightarrow> bool" where
  "enq_abs A w fs \<longleftrightarrow> enq_files A w fs \<and> (enqueueFileIndex A = 0 \<or> enqueueFileIndex A = 1) \<and>
     ofs_at (buildEnqLogName A (enqueueFileIndex A) False) (enqueueFile A)"

definition deq_files :: "aol \<Rightarrow> os \<Rightarrow> pending_deq rlog \<Rightarrow> bool" where
  "deq_files A w fs \<longleftrightarrow> calm w \<and>
     content w (buildDeqLogName A 0 False) = encode deq_bytes (fst fs) \<and>
     content w (buildDeqLogName A 1 False) = encode deq_bytes (snd fs) \<and>
     list_all deq_valid (fst fs @ snd fs) \<and>
     files w (buildDeqLogName A 0 True) = None"

definition deq_abs :: "aol \<Rightarrow> os \<Rightarrow> pending_deq rlog \<Rightarrow> bool" where
  "deq_abs A w fs \<longleftrightarrow> deq_files A w fs \<and> (dequeueFileIndex A = 0 \<or> dequeueFileIndex A = 1) \<and>
     ofs_at (buildDeqLogName A (dequeueFileIndex A) False) (dequeueFile A)"

lemmas enq_abs_defs = enq_abs_def enq_files_def
lemmas deq_abs_defs = deq_abs_def deq_files_def

lemma int_string_01 [simp]: "int_string 0 = ''0''" "int_string 1 = ''1''"
  by (simp_all add: int_string_def nat_string.simps char_of_def bit_Suc_0_iff)

lemma log_names [simp]:
  "buildEnqLogName A 0 False \<noteq> buildEnqLogName A 1 False" "buildEnqLogName A 1 False \<noteq> buildEnqLogName A 0 False"
  "buildEnqLogName A i True \<noteq> buildEnqLogName A 0 False" "buildEnqLogName A i True \<noteq> buildEnqLogName A 1 False"
  "buildEnqLogName A 0 False \<noteq> buildEnqLogName A i True" "buildEnqLogName A 1 False \<noteq> buildEnqLogName A i True"
  "buildDeqLogName A 0 False \<noteq> buildDeqLogName A 1 False" "buildDeqLogName A 1 False \<noteq> buildDeqLogName A 0 False"
  "buildDeqLogName A i True \<noteq> buildDeqLogName A 0 False" "buildDeqLogName A i True \<noteq> buildDeqLogName A 1 False"
  "buildDeqLogName A 0 False \<noteq> buildDeqLogName A i True" "buildDeqLogName A 1 False \<noteq> buildDeqLogName A i True"
  by (simp_all add: buildEnqLogName_def buildDeqLogName_def)

lemma sides_apart [simp]:
  "buildEnqLogName A i b \<noteq> buildDeqLogName A j c" "buildDeqLogName A j c \<noteq> buildEnqLogName A i b"
  by (simp_all add: buildEnqLogName_def buildDeqLogName_def)

lemma log_names_upd [simp]:
  "buildEnqLogName (A\<lparr>enqueueFile := f\<rparr>) = buildEnqLogName A" "buildEnqLogName (A\<lparr>enqueueFileIndex := x\<rparr>) = buildEnqLogName A"
  "buildEnqLogName (A\<lparr>dequeueFile := f\<rparr>) = buildEnqLogName A" "buildEnqLogName (A\<lparr>dequeueFileIndex := x\<rparr>) = buildEnqLogName A"
  "buildDeqLogName (A\<lparr>enqueueFile := f\<rparr>) = buildDeqLogName A" "buildDeqLogName (A\<lparr>enqueueFileIndex := x\<rparr>) = buildDeqLogName A"
  "buildDeqLogName (A\<lparr>dequeueFile := f\<rparr>) = buildDeqLogName A" "buildDeqLogName (A\<lparr>dequeueFileIndex := x\<rparr>) = buildDeqLogName A"
  by (intro ext; simp add: buildEnqLogName_def buildDeqLogName_def)+

lemma calm_frame [simp]:
  "calm (os_remove p w) = calm w" "calm (os_rename a b w) = calm w"
  "calm (snd (ofs_open_app p fw)) = calm (snd fw)" "calm (snd (ofs_write bs fw)) = calm (snd fw)"
  by (simp_all add: calm_def)

text \<open>Writing records to the active file of one side.\<close>

lemma enq_abs_write:
  assumes abs: "enq_abs A w fs" and v: "list_all (enq_valid (can_alloc w ''pae.buff'')) rs"
  shows "fst (ofs_write (encode enq_bytes rs) (enqueueFile A, w)) = enqueueFile A"
    and "enq_abs A (snd (ofs_write (encode enq_bytes rs) (enqueueFile A, w))) (rl_app (enqueueFileIndex A) rs fs)"
proof -
  let ?p = "buildEnqLogName A (enqueueFileIndex A) False"
  have at: "ofs_at ?p (enqueueFile A)" and i: "enqueueFileIndex A = 0 \<or> enqueueFileIndex A = 1"
    using abs by (simp_all add: enq_abs_def)
  show "fst (ofs_write (encode enq_bytes rs) (enqueueFile A, w)) = enqueueFile A"
    using at by (rule ofs_write_stream)
  show "enq_abs A (snd (ofs_write (encode enq_bytes rs) (enqueueFile A, w))) (rl_app (enqueueFileIndex A) rs fs)"
    using i
  proof
    assume i: "enqueueFileIndex A = 0"
    with abs v at show ?thesis
      by (cases fs) (simp add: enq_abs_defs rl_app_def content_write[OF at] files_write ofs_at_def)
  next
    assume i: "enqueueFileIndex A = 1"
    with abs v at show ?thesis
      by (cases fs) (simp add: enq_abs_defs rl_app_def content_write[OF at] files_write ofs_at_def)
  qed
qed

lemma deq_abs_write:
  assumes abs: "deq_abs A w fs" and v: "list_all deq_valid rs"
  shows "fst (ofs_write (encode deq_bytes rs) (dequeueFile A, w)) = dequeueFile A"
    and "deq_abs A (snd (ofs_write (encode deq_bytes rs) (dequeueFile A, w))) (rl_app (dequeueFileIndex A) rs fs)"
proof -
  let ?p = "buildDeqLogName A (dequeueFileIndex A) False"
  have at: "ofs_at ?p (dequeueFile A)" and i: "dequeueFileIndex A = 0 \<or> dequeueFileIndex A = 1"
    using abs by (simp_all add: deq_abs_def)
  show "fst (ofs_write (encode deq_bytes rs) (dequeueFile A, w)) = dequeueFile A"
    using at by (rule ofs_write_stream)
  show "deq_abs A (snd (ofs_write (encode deq_bytes rs) (dequeueFile A, w))) (rl_app (dequeueFileIndex A) rs fs)"
    using i
  proof
    assume i: "dequeueFileIndex A = 0"
    with abs v at show ?thesis
      by (cases fs) (simp add: deq_abs_defs rl_app_def content_write[OF at] files_write ofs_at_def)
  next
    assume i: "dequeueFileIndex A = 1"
    with abs v at show ?thesis
      by (cases fs) (simp add: deq_abs_defs rl_app_def content_write[OF at] files_write ofs_at_def)
  qed
qed

section \<open>Each logging call appends its record\<close>

lemma log_enqueue_start_abs:
  assumes abs: "enq_abs A w fs" and v: "length (enq_buff e) = unat (enq_size e)"
  shows "\<exists>w'. log_enqueue_start (msgId e) (queueId e) (enq_buff e) (enq_size e) (enq_transient e) (A, w)
      = Inr (enqueueFileIndex A, A, w') \<and>
    enq_abs A w' (rl_app (enqueueFileIndex A) [Started (opkey e) e] fs)"
proof -
  have at: "ofs_at (buildEnqLogName A (enqueueFileIndex A) False) (enqueueFile A)"
    using abs by (simp add: enq_abs_def)
  have "list_all (enq_valid (can_alloc w ''pae.buff'')) [Started (opkey e) e]"
    using abs v by (simp add: opkey_def enq_abs_defs calm_def)
  note wr = enq_abs_write[OF abs this]
  then show ?thesis
    using v by (auto simp: log_enqueue_start_def log_enqueue_start_on_file_def opkey_def
        ofs_write_append[OF at] encode_def split: prod.splits)
qed

lemma log_enqueue_complete_abs:
  assumes abs: "enq_abs A w fs"
  shows "\<exists>w'. log_enqueue_complete p q (A, w) = (enqueueFileIndex A, A, w') \<and>
    enq_abs A w' (rl_app (enqueueFileIndex A) [Completed (q, p)] fs)"
  using enq_abs_write[OF abs, of "[Completed (q, p)]"]
  by (auto simp: log_enqueue_complete_def encode_def split: prod.splits)

lemma log_dequeue_start_abs:
  assumes abs: "deq_abs A w fs"
  shows "\<exists>w'. log_dequeue_start p q (A, w) = (dequeueFileIndex A, A, w') \<and>
    deq_abs A w' (rl_app (dequeueFileIndex A) [Started (q, p) (PendingAsyncDequeue p q)] fs)"
  using deq_abs_write[OF abs, of "[Started (q, p) (PendingAsyncDequeue p q)]"]
  by (auto simp: log_dequeue_start_def log_dequeue_start_on_file_def encode_def split: prod.splits)

lemma log_dequeue_complete_abs:
  assumes abs: "deq_abs A w fs"
  shows "\<exists>w'. log_dequeue_complete p q (A, w) = (dequeueFileIndex A, A, w') \<and>
    deq_abs A w' (rl_app (dequeueFileIndex A) [Completed (q, p)] fs)"
  using deq_abs_write[OF abs, of "[Completed (q, p)]"]
  by (auto simp: log_dequeue_complete_def encode_def split: prod.splits)

section \<open>Each cleaner step implements the step of the machine\<close>

lemma enq_abs_valid_file: "enq_abs A w fs \<Longrightarrow> list_all (enq_valid (can_alloc w ''pae.buff'')) (rl_file j fs)"
  by (simp add: enq_abs_defs rl_file_def)

lemma extract_enq_abs:
  assumes abs: "enq_abs A w fs" and j: "j = 0 \<or> j = 1"
  shows "extractPendingEnqueueFromFile (A, w) j s = Inr (replay log_start log_complete (rl_file j fs) s)"
proof -
  let ?p = "buildEnqLogName A j False"
  have c: "content w ?p = encode enq_bytes (rl_file j fs)"
    using abs j by (auto simp: enq_abs_defs rl_file_def)
  have d: "enq_read_loop (can_alloc w ''pae.buff'') (content w ?p) s = Inr (replay log_start log_complete (rl_file j fs) s)"
    unfolding c by (rule enq_codec.dec_torn_log[OF enq_abs_valid_file[OF abs]]) simp
  show ?thesis
    using abs d by (cases "files w ?p") (simp_all add: extractPendingEnqueueFromFile_def enq_abs_defs calm_def content_def)
qed

lemma extract_deq_abs:
  assumes abs: "deq_abs A w fs" and j: "j = 0 \<or> j = 1"
  shows "extractPendingDequeueFromFile (A, w) j s = replay log_start log_complete (rl_file j fs) s"
proof -
  let ?p = "buildDeqLogName A j False"
  have c: "content w ?p = encode deq_bytes (rl_file j fs)" and v: "list_all deq_valid (rl_file j fs)"
    using abs j by (auto simp: deq_abs_defs rl_file_def)
  have "Inr (deq_read_loop (content w ?p) s) = (Inr (replay log_start log_complete (rl_file j fs) s) :: exn + _)"
    unfolding c by (rule deq_codec.dec_torn_log[OF v]) simp
  then show ?thesis
    using abs by (cases "files w ?p") (simp_all add: extractPendingDequeueFromFile_def deq_abs_defs calm_def content_def)
qed

lemma open_enq_abs:
  assumes "enq_files A w fs" and "\<not> ofs_open (enqueueFile A)" and "i = 0 \<or> i = 1"
  shows "enq_abs (fst (open_enq i (A, w))) (snd (open_enq i (A, w))) fs"
    and "enqueueFileIndex (fst (open_enq i (A, w))) = i"
proof -
  let ?p = "buildEnqLogName A i False"
  have co: "can_open w ?p" using assms(1) by (simp add: enq_files_def calm_def)
  have o: "fst (open_enq i (A, w)) = A\<lparr>enqueueFileIndex := i, enqueueFile := fst (ofs_open_app ?p (enqueueFile A, w))\<rparr>"
    "snd (open_enq i (A, w)) = snd (ofs_open_app ?p (enqueueFile A, w))"
    by (simp_all add: open_enq_def split_beta)
  have "files (snd (ofs_open_app ?p (enqueueFile A, w))) (buildEnqLogName A 0 True) = None"
    using assms(1,3) by (auto simp: ofs_open_app_def enq_files_def)
  then show "enq_abs (fst (open_enq i (A, w))) (snd (open_enq i (A, w))) fs"
    using assms ofs_at_open[OF assms(2) co] by (simp add: o enq_abs_defs content_open)
  show "enqueueFileIndex (fst (open_enq i (A, w))) = i" by (simp add: o)
qed

lemma open_deq_abs:
  assumes "deq_files A w fs" and "\<not> ofs_open (dequeueFile A)" and "i = 0 \<or> i = 1"
  shows "deq_abs (fst (open_deq i (A, w))) (snd (open_deq i (A, w))) fs"
    and "dequeueFileIndex (fst (open_deq i (A, w))) = i"
proof -
  let ?p = "buildDeqLogName A i False"
  have co: "can_open w ?p" using assms(1) by (simp add: deq_files_def calm_def)
  have o: "fst (open_deq i (A, w)) = A\<lparr>dequeueFileIndex := i, dequeueFile := fst (ofs_open_app ?p (dequeueFile A, w))\<rparr>"
    "snd (open_deq i (A, w)) = snd (ofs_open_app ?p (dequeueFile A, w))"
    by (simp_all add: open_deq_def split_beta)
  have "files (snd (ofs_open_app ?p (dequeueFile A, w))) (buildDeqLogName A 0 True) = None"
    using assms(1,3) by (auto simp: ofs_open_app_def deq_files_def)
  then show "deq_abs (fst (open_deq i (A, w))) (snd (open_deq i (A, w))) fs"
    using assms ofs_at_open[OF assms(2) co] by (simp add: o deq_abs_defs content_open)
  show "dequeueFileIndex (fst (open_deq i (A, w))) = i" by (simp add: o)
qed

lemma mod2_cases: "(i::int) = 0 \<or> i = 1 \<Longrightarrow> (i + 1) mod 2 = 1 - i \<and> (1 - i = 0 \<or> 1 - i = 1)"
  by auto

lemma cleanEnqueue_switch_abs:
  assumes "enq_abs A w fs"
  shows "\<exists>A' w'. cleanEnqueue_switch (A, w) = (enqueueFileIndex A, A', w') \<and>
    enqueueFileIndex A' = (enqueueFileIndex A + 1) mod 2 \<and> enq_abs A' w' fs"
proof -
  let ?A = "A\<lparr>enqueueFile := ofs_close (enqueueFile A)\<rparr>" and ?i = "(enqueueFileIndex A + 1) mod 2"
  have f: "enq_files ?A w fs" using assms by (simp add: enq_abs_defs)
  have i: "?i = 0 \<or> ?i = 1" using assms mod2_cases[of "enqueueFileIndex A"] by (simp add: enq_abs_def)
  show ?thesis
    using open_enq_abs[OF f _ i] by (cases "open_enq ?i (?A, w)") (simp add: cleanEnqueue_switch_def)
qed

lemma cleanDequeue_switch_abs:
  assumes "deq_abs A w fs"
  shows "\<exists>A' w'. cleanDequeue_switch (A, w) = (dequeueFileIndex A, A', w') \<and>
    dequeueFileIndex A' = (dequeueFileIndex A + 1) mod 2 \<and> deq_abs A' w' fs"
proof -
  let ?A = "A\<lparr>dequeueFile := ofs_close (dequeueFile A)\<rparr>" and ?i = "(dequeueFileIndex A + 1) mod 2"
  have f: "deq_files ?A w fs" using assms by (simp add: deq_abs_defs)
  have i: "?i = 0 \<or> ?i = 1" using assms mod2_cases[of "dequeueFileIndex A"] by (simp add: deq_abs_def)
  show ?thesis
    using open_deq_abs[OF f _ i] by (cases "open_deq ?i (?A, w)") (simp add: cleanDequeue_switch_def)
qed

lemma write_enqueues_at:
  "ofs_at p f \<Longrightarrow> files w p \<noteq> None \<Longrightarrow> \<forall>e \<in> set es. length (enq_buff e) = unat (enq_size e) \<Longrightarrow>
     write_enqueues es (f, w) = Inr (ofs_write (encode enq_bytes (map (\<lambda>e. Started (opkey e) e) es)) (f, w))"
proof (induction es arbitrary: w)
  case (Cons e es)
  let ?b = "enq_bytes (Started (opkey e) e)"
  have w: "ofs_write ?b (f, w) = (f, snd (ofs_write ?b (f, w)))"
    using Cons.prems(1) by (simp add: prod_eq_iff ofs_write_stream)
  have "log_enqueue_start_on_file (msgId e) (queueId e) (enq_buff e) (enq_size e) (enq_transient e) (f, w)
      = Inr (0, ofs_write ?b (f, w))"
    using Cons.prems by (simp add: log_enqueue_start_on_file_def ofs_write_append opkey_def)
  then have "write_enqueues (e # es) (f, w) = write_enqueues es (f, snd (ofs_write ?b (f, w)))"
    using w by simp
  also have "\<dots> = Inr (ofs_write (encode enq_bytes (map (\<lambda>e. Started (opkey e) e) es)) (f, snd (ofs_write ?b (f, w))))"
    using Cons.prems by (intro Cons.IH) (auto simp: files_write)
  also have "\<dots> = Inr (ofs_write (encode enq_bytes (map (\<lambda>e. Started (opkey e) e) (e # es))) (f, w))"
    using ofs_write_append[OF Cons.prems(1), of _ ?b w] w by simp
  finally show ?case .
qed (simp add: ofs_write_Nil)

lemma write_dequeues_at:
  "ofs_at p f \<Longrightarrow> files w p \<noteq> None \<Longrightarrow>
     write_dequeues ds (f, w) = ofs_write (encode deq_bytes (map (\<lambda>d. Started (opkey d) d) ds)) (f, w)"
proof (induction ds arbitrary: w)
  case (Cons d ds)
  let ?b = "deq_bytes (Started (opkey d) d)"
  have w: "ofs_write ?b (f, w) = (f, snd (ofs_write ?b (f, w)))"
    using Cons.prems(1) by (simp add: prod_eq_iff ofs_write_stream)
  have "write_dequeues (d # ds) (f, w) = write_dequeues ds (f, snd (ofs_write ?b (f, w)))"
    using w by (simp add: log_dequeue_start_on_file_def opkey_def)
  also have "\<dots> = ofs_write (encode deq_bytes (map (\<lambda>d. Started (opkey d) d) ds)) (f, snd (ofs_write ?b (f, w)))"
    using Cons.prems by (intro Cons.IH) (auto simp: files_write)
  also have "\<dots> = ofs_write (encode deq_bytes (map (\<lambda>d. Started (opkey d) d) (d # ds))) (f, w)"
    using ofs_write_append[OF Cons.prems(1), of _ ?b w] w by simp
  finally show ?case .
qed (simp add: ofs_write_Nil)

lemma enq_valid_keyed: "list_all (enq_valid a) rs \<Longrightarrow> well_keyed rs"
  unfolding well_keyed_def list_all_iff by (force simp: opkey_def)

lemma deq_valid_keyed: "list_all deq_valid rs \<Longrightarrow> well_keyed rs"
  unfolding well_keyed_def list_all_iff
  by (force simp: opkey_def PendingAsyncDequeue_def PendingAsyncOperation_def)

lemma pending_was_started:
  assumes "well_keyed rs" and "e \<in> set (pset_list (fst (replay_all rs)))"
  shows "Started (opkey e) e \<in> set rs"
proof -
  obtain q p where f: "pset_find (fst (replay_all rs)) q p = Some e"
    using assms(2) by (auto simp: set_pset_list pset_ok_replay_all)
  then have "Started (q, p) e \<in> set rs"
    using key_run_started[of "(q, p)" rs Idle e] by (simp add: find_replay_all)
  with assms(1) show ?thesis by (auto simp: well_keyed_def)
qed

lemma valid_start_records:
  assumes "well_keyed rs" and "list_all V rs"
  shows "list_all V (start_records (fst (replay_all rs)))"
  using pending_was_started[OF assms(1)] assms(2) by (auto simp: start_records_def list_all_iff)

text \<open>The temporary file takes the place of the file being cleaned.\<close>

lemma replace_via_tmp:
  assumes tmp: "files w t = None" "can_open w t" and th: "t \<noteq> h"
    and w2: "w2 = snd (ofs_write bs (ofs_open_app t (ofs_new, w)))"
  shows "content (os_rename t h (os_remove h w2)) p = (if p = h then bs else if p = t then [] else content w p)"
    and "files (os_rename t h (os_remove h w2)) t = None"
    and "can_open (os_rename t h (os_remove h w2)) = can_open w"
    and "can_alloc (os_rename t h (os_remove h w2)) = can_alloc w"
  using assms by (auto simp: w2 ofs_new_def ofs_open_app_def ofs_write_def os_remove_def os_rename_def content_def)

lemma cleanEnqueue_rewrite_abs:
  assumes abs: "enq_abs A w fs" and j: "j = 0 \<or> j = 1" and r: "replay_all (rl_file j fs) = (pend, lost)"
  shows "\<exists>w'. cleanEnqueue_rewrite j (A, w) = Inr (lost, w') \<and> enq_abs A w' (rl_set j (start_records pend) fs)"
proof -
  let ?t = "buildEnqLogName A 0 True" and ?h = "buildEnqLogName A j False"
  let ?b = "encode enq_bytes (start_records pend)"
  define w2 where "w2 = snd (ofs_write ?b (ofs_open_app ?t (ofs_new, w)))"
  have t: "files w ?t = None" "can_open w ?t" "?t \<noteq> ?h"
    using abs j by (auto simp: enq_abs_defs calm_def)
  have v: "list_all (enq_valid (can_alloc w ''pae.buff'')) (rl_file j fs)" by (rule enq_abs_valid_file[OF abs])
  have vp: "list_all (enq_valid (can_alloc w ''pae.buff'')) (start_records pend)"
    using valid_start_records[OF enq_valid_keyed[OF v] v] by (simp add: r)
  have x: "extractPendingEnqueueFromFile (A, w) j ([], []) = Inr (pend, lost)"
    using extract_enq_abs[OF abs j] r by (simp add: replay_all_def)
  obtain f w1 where o: "ofs_open_app ?t (ofs_new, w) = (f, w1)" by (cases "ofs_open_app ?t (ofs_new, w)")
  then have f: "ofs_at ?t f" "files w1 ?t \<noteq> None"
    using ofs_at_open[OF _ t(2), of ofs_new] files_open[OF _ t(2), of ofs_new] by (simp_all add: ofs_new_def)
  have "\<forall>e \<in> set (pset_list pend). length (enq_buff e) = unat (enq_size e)"
    using vp by (auto simp: start_records_def list_all_iff opkey_def)
  then have we: "write_enqueues (pset_list pend) (f, w1) = Inr (ofs_write ?b (f, w1))"
    using write_enqueues_at[OF f] by (simp add: start_records_def)
  have "cleanEnqueue_rewrite j (A, w) = Inr (lost, os_rename ?t ?h (os_remove ?h w2))"
    using x o f(1) we by (simp add: cleanEnqueue_rewrite_def ofs_at_def w2_def split_beta Let_def)
  moreover have "enq_abs A (os_rename ?t ?h (os_remove ?h w2)) (rl_set j (start_records pend) fs)"
    using abs j v vp replace_via_tmp[OF t w2_def]
    by (cases fs) (auto simp: enq_abs_defs calm_def rl_set_def)
  ultimately show ?thesis by blast
qed

lemma cleanDequeue_rewrite_abs:
  assumes abs: "deq_abs A w fs" and j: "j = 0 \<or> j = 1" and r: "replay_all (rl_file j fs) = (pend, lost)"
  shows "\<exists>w'. cleanDequeue_rewrite j (A, w) = (lost, w') \<and> deq_abs A w' (rl_set j (start_records pend) fs)"
proof -
  let ?t = "buildDeqLogName A 0 True" and ?h = "buildDeqLogName A j False"
  let ?b = "encode deq_bytes (start_records pend)"
  define w2 where "w2 = snd (ofs_write ?b (ofs_open_app ?t (ofs_new, w)))"
  have t: "files w ?t = None" "can_open w ?t" "?t \<noteq> ?h"
    using abs j by (auto simp: deq_abs_defs calm_def)
  have v: "list_all deq_valid (rl_file j fs)" using abs by (simp add: deq_abs_defs rl_file_def)
  have vp: "list_all deq_valid (start_records pend)"
    using valid_start_records[OF deq_valid_keyed[OF v] v] by (simp add: r)
  have x: "extractPendingDequeueFromFile (A, w) j ([], []) = (pend, lost)"
    using extract_deq_abs[OF abs j] r by (simp add: replay_all_def)
  obtain f w1 where o: "ofs_open_app ?t (ofs_new, w) = (f, w1)" by (cases "ofs_open_app ?t (ofs_new, w)")
  then have f: "ofs_at ?t f" "files w1 ?t \<noteq> None"
    using ofs_at_open[OF _ t(2), of ofs_new] files_open[OF _ t(2), of ofs_new] by (simp_all add: ofs_new_def)
  have we: "write_dequeues (pset_list pend) (f, w1) = ofs_write ?b (f, w1)"
    using write_dequeues_at[OF f] by (simp add: start_records_def)
  have "cleanDequeue_rewrite j (A, w) = (lost, os_rename ?t ?h (os_remove ?h w2))"
    using x o f(1) we by (simp add: cleanDequeue_rewrite_def ofs_at_def w2_def split_beta Let_def)
  moreover have "deq_abs A (os_rename ?t ?h (os_remove ?h w2)) (rl_set j (start_records pend) fs)"
    using abs j v vp replace_via_tmp[OF t w2_def]
    by (cases fs) (auto simp: deq_abs_defs calm_def rl_set_def)
  ultimately show ?thesis by blast
qed

section \<open>The logger at work\<close>

text \<open>The calls other threads make and the steps of the cleaner thread, in any order; a
  cleaner step that is not due changes nothing. The record of an enqueue event is the
  descriptor passed to \<^verbatim>\<open>log_enqueue_start\<close>.\<close>

fun enq_exec :: "pending_enq log_event \<Rightarrow> aol \<times> os \<times> cleaner \<Rightarrow> exn + aol \<times> os \<times> cleaner" where
  "enq_exec (EvStart e) (A, w, c) =
     (case log_enqueue_start (msgId e) (queueId e) (enq_buff e) (enq_size e) (enq_transient e) (A, w) of
        Inl x \<Rightarrow> Inl x
      | Inr (_, A', w') \<Rightarrow> Inr (A', w', c))"
| "enq_exec (EvComplete p q) (A, w, c) = (let (_, A', w') = log_enqueue_complete p q (A, w) in Inr (A', w', c))"
| "enq_exec EvSwitch (A, w, c) =
     (case c of
        CIdle \<Rightarrow> let (i, A', w') = cleanEnqueue_switch (A, w) in Inr (A', w', CSwitched i)
      | _ \<Rightarrow> Inr (A, w, c))"
| "enq_exec EvRewrite (A, w, c) =
     (case c of
        CSwitched j \<Rightarrow>
          (case cleanEnqueue_rewrite j (A, w) of
             Inl x \<Rightarrow> Inl x
           | Inr (lost, w') \<Rightarrow> Inr (A, w', CRelog (pset_list lost)))
      | _ \<Rightarrow> Inr (A, w, c))"
| "enq_exec EvRelog (A, w, c) =
     (case c of
        CRelog [] \<Rightarrow> Inr (A, w, CIdle)
      | CRelog (x # xs) \<Rightarrow>
          (let (_, A', w') = log_enqueue_complete (msgId x) (queueId x) (A, w) in Inr (A', w', CRelog xs))
      | _ \<Rightarrow> Inr (A, w, c))"

fun enq_run :: "pending_enq log_event list \<Rightarrow> aol \<times> os \<times> cleaner \<Rightarrow> exn + aol \<times> os \<times> cleaner" where
  "enq_run [] s = Inr s"
| "enq_run (e # es) s = (case enq_exec e s of Inl x \<Rightarrow> Inl x | Inr s' \<Rightarrow> enq_run es s')"

fun deq_exec :: "pending_deq log_event \<Rightarrow> aol \<times> os \<times> cleaner \<Rightarrow> aol \<times> os \<times> cleaner" where
  "deq_exec (EvStart d) (A, w, c) = (let (_, A', w') = log_dequeue_start (msgId d) (queueId d) (A, w) in (A', w', c))"
| "deq_exec (EvComplete p q) (A, w, c) = (let (_, A', w') = log_dequeue_complete p q (A, w) in (A', w', c))"
| "deq_exec EvSwitch (A, w, c) =
     (case c of
        CIdle \<Rightarrow> let (i, A', w') = cleanDequeue_switch (A, w) in (A', w', CSwitched i)
      | _ \<Rightarrow> (A, w, c))"
| "deq_exec EvRewrite (A, w, c) =
     (case c of
        CSwitched j \<Rightarrow> let (lost, w') = cleanDequeue_rewrite j (A, w) in (A, w', CRelog (pset_list lost))
      | _ \<Rightarrow> (A, w, c))"
| "deq_exec EvRelog (A, w, c) =
     (case c of
        CRelog [] \<Rightarrow> (A, w, CIdle)
      | CRelog (x # xs) \<Rightarrow>
          (let (_, A', w') = log_dequeue_complete (msgId x) (queueId x) (A, w) in (A', w', CRelog xs))
      | _ \<Rightarrow> (A, w, c))"

fun deq_run :: "pending_deq log_event list \<Rightarrow> aol \<times> os \<times> cleaner \<Rightarrow> aol \<times> os \<times> cleaner" where
  "deq_run [] s = s"
| "deq_run (e # es) s = deq_run es (deq_exec e s)"

text \<open>Events a caller can produce: \<^verbatim>\<open>buffsize\<close> is the size of the buffer handed over.\<close>

fun enq_event_ok :: "pending_enq log_event \<Rightarrow> bool" where
  "enq_event_ok (EvStart e) \<longleftrightarrow> length (enq_buff e) = unat (enq_size e)"
| "enq_event_ok _ \<longleftrightarrow> True"

text \<open>The cleaner's idea of the file it handles is never the active one.\<close>

definition cleaner_ok :: "int \<Rightarrow> cleaner \<Rightarrow> bool" where
  "cleaner_ok i c \<longleftrightarrow> (\<forall>j. c = CSwitched j \<longrightarrow> j = 1 - i)"

lemma enq_exec_simulates:
  assumes abs: "enq_abs A w fs" and c: "cleaner_ok (enqueueFileIndex A) c" and e: "enq_event_ok e"
  shows "\<exists>A' w' c'. enq_exec e (A, w, c) = Inr (A', w', c') \<and>
    enq_abs A' w' (fst (rl_exec e (fs, enqueueFileIndex A, c))) \<and>
    snd (rl_exec e (fs, enqueueFileIndex A, c)) = (enqueueFileIndex A', c') \<and>
    cleaner_ok (enqueueFileIndex A') c'"
proof (cases e)
  case (EvStart v)
  with e log_enqueue_start_abs[OF abs, of v] c show ?thesis by auto
next
  case (EvComplete p q)
  with log_enqueue_complete_abs[OF abs, of p q] c show ?thesis by auto
next
  case EvSwitch
  have "enqueueFileIndex A = 1 - (enqueueFileIndex A + 1) mod 2" using abs by (auto simp: enq_abs_def)
  with EvSwitch cleanEnqueue_switch_abs[OF abs] c abs show ?thesis
    by (cases c) (auto simp: cleaner_ok_def)
next
  case EvRewrite
  have j: "j = 1 - enqueueFileIndex A \<Longrightarrow> j = 0 \<or> j = 1" for j using abs by (auto simp: enq_abs_def)
  show ?thesis
  proof (cases c)
    case (CSwitched j)
    then have "j = 0 \<or> j = 1" using c j by (simp add: cleaner_ok_def)
    then show ?thesis
      using cleanEnqueue_rewrite_abs[OF abs _ surjective_pairing] CSwitched
      by (fastforce simp: EvRewrite split_beta Let_def cleaner_ok_def)
  qed (use abs c in \<open>auto simp: EvRewrite\<close>)
next
  case EvRelog
  show ?thesis
  proof (cases c)
    case (CRelog xs)
    show ?thesis
    proof (cases xs)
      case (Cons x xs')
      with log_enqueue_complete_abs[OF abs, of "msgId x" "queueId x"] CRelog show ?thesis
        by (auto simp: EvRelog cleaner_ok_def opkey_def)
    qed (use abs CRelog in \<open>auto simp: EvRelog cleaner_ok_def\<close>)
  qed (use abs c in \<open>auto simp: EvRelog\<close>)
qed

lemma PendingAsyncDequeue_eta: "PendingAsyncDequeue (msgId v) (queueId v) = v"
  by (cases v) (simp add: PendingAsyncDequeue_def PendingAsyncOperation_def)

lemma deq_exec_simulates:
  assumes abs: "deq_abs A w fs" and c: "cleaner_ok (dequeueFileIndex A) c"
  shows "\<exists>A' w' c'. deq_exec e (A, w, c) = (A', w', c') \<and>
    deq_abs A' w' (fst (rl_exec e (fs, dequeueFileIndex A, c))) \<and>
    snd (rl_exec e (fs, dequeueFileIndex A, c)) = (dequeueFileIndex A', c') \<and>
    cleaner_ok (dequeueFileIndex A') c'"
proof (cases e)
  case (EvStart v)
  with log_dequeue_start_abs[OF abs, of "msgId v" "queueId v"] c show ?thesis
    by (auto simp: opkey_def PendingAsyncDequeue_eta)
next
  case (EvComplete p q)
  with log_dequeue_complete_abs[OF abs, of p q] c show ?thesis by auto
next
  case EvSwitch
  have "dequeueFileIndex A = 1 - (dequeueFileIndex A + 1) mod 2" using abs by (auto simp: deq_abs_def)
  with EvSwitch cleanDequeue_switch_abs[OF abs] c abs show ?thesis
    by (cases c) (auto simp: cleaner_ok_def)
next
  case EvRewrite
  have j: "j = 1 - dequeueFileIndex A \<Longrightarrow> j = 0 \<or> j = 1" for j using abs by (auto simp: deq_abs_def)
  show ?thesis
  proof (cases c)
    case (CSwitched j)
    then have "j = 0 \<or> j = 1" using c j by (simp add: cleaner_ok_def)
    then show ?thesis
      using cleanDequeue_rewrite_abs[OF abs _ surjective_pairing] CSwitched
      by (fastforce simp: EvRewrite split_beta Let_def cleaner_ok_def)
  qed (use abs c in \<open>auto simp: EvRewrite\<close>)
next
  case EvRelog
  show ?thesis
  proof (cases c)
    case (CRelog xs)
    show ?thesis
    proof (cases xs)
      case (Cons x xs')
      with log_dequeue_complete_abs[OF abs, of "msgId x" "queueId x"] CRelog show ?thesis
        by (auto simp: EvRelog cleaner_ok_def opkey_def)
    qed (use abs CRelog in \<open>auto simp: EvRelog cleaner_ok_def\<close>)
  qed (use abs c in \<open>auto simp: EvRelog\<close>)
qed

text \<open>Runs of the real logger and of the machine proceed in step.\<close>

lemma enq_run_simulates:
  "enq_abs A w fs \<Longrightarrow> cleaner_ok (enqueueFileIndex A) c \<Longrightarrow> list_all enq_event_ok es \<Longrightarrow>
    \<exists>A' w' c'. enq_run es (A, w, c) = Inr (A', w', c') \<and>
      enq_abs A' w' (fst (rl_run es (fs, enqueueFileIndex A, c))) \<and>
      snd (rl_run es (fs, enqueueFileIndex A, c)) = (enqueueFileIndex A', c')"
proof (induction es arbitrary: A w fs c)
  case (Cons e es)
  from Cons.prems obtain A' w' c' where 1: "enq_exec e (A, w, c) = Inr (A', w', c')"
    "enq_abs A' w' (fst (rl_exec e (fs, enqueueFileIndex A, c)))"
    "snd (rl_exec e (fs, enqueueFileIndex A, c)) = (enqueueFileIndex A', c')"
    "cleaner_ok (enqueueFileIndex A') c'"
    using enq_exec_simulates[of A w fs c e] by auto
  have 2: "rl_exec e (fs, enqueueFileIndex A, c) = (fst (rl_exec e (fs, enqueueFileIndex A, c)), enqueueFileIndex A', c')"
    using 1(3) by (metis prod.collapse)
  show ?case using Cons.IH[OF 1(2,4)] Cons.prems(3) 1(1) 2 by simp
qed auto

lemma log_op_base [simp]:
  "logBaseDir (fst (snd (log_enqueue_complete p q Aw))) = logBaseDir (fst Aw)"
  "logBaseDir (fst (snd (log_dequeue_complete p q Aw))) = logBaseDir (fst Aw)"
  "logBaseDir (fst (snd (log_dequeue_start p q Aw))) = logBaseDir (fst Aw)"
  "logBaseDir (fst (snd (cleanEnqueue_switch Aw))) = logBaseDir (fst Aw)"
  "logBaseDir (fst (snd (cleanDequeue_switch Aw))) = logBaseDir (fst Aw)"
  by (simp_all add: log_enqueue_complete_def log_dequeue_complete_def log_dequeue_start_def cleanEnqueue_switch_def
      cleanDequeue_switch_def open_enq_def open_deq_def split_beta Let_def)

lemma log_enqueue_start_base:
  "log_enqueue_start p q b n t (A, w) = Inr (r, A', w') \<Longrightarrow> logBaseDir A' = logBaseDir A"
  by (auto simp: log_enqueue_start_def split: sum.splits)

lemma enq_exec_base: "enq_exec e (A, w, c) = Inr (A', w', c') \<Longrightarrow> logBaseDir A' = logBaseDir A"
  using log_op_base(1)[of _ _ "(A, w)"] log_op_base(4)[of "(A, w)"]
  by (cases e) (auto split: sum.splits cleaner.splits list.splits dest: log_enqueue_start_base simp: split_beta Let_def)

lemma enq_run_base: "enq_run es (A, w, c) = Inr (A', w', c') \<Longrightarrow> logBaseDir A' = logBaseDir A"
proof (induction es arbitrary: A w c)
  case (Cons e es)
  then obtain A1 w1 c1 where 1: "enq_exec e (A, w, c) = Inr (A1, w1, c1)" "enq_run es (A1, w1, c1) = Inr (A', w', c')"
    by (auto split: sum.splits)
  with Cons.IH enq_exec_base[OF 1(1)] show ?case by simp
qed simp

lemma deq_exec_base: "deq_exec e (A, w, c) = (A', w', c') \<Longrightarrow> logBaseDir A' = logBaseDir A"
  using log_op_base(2,3)[of _ _ "(A, w)"] log_op_base(5)[of "(A, w)"]
  by (cases e) (auto split: cleaner.splits list.splits simp: split_beta Let_def)

lemma deq_run_base: "deq_run es (A, w, c) = (A', w', c') \<Longrightarrow> logBaseDir A' = logBaseDir A"
proof (induction es arbitrary: A w c)
  case (Cons e es)
  then show ?case by (cases "deq_exec e (A, w, c)") (auto dest: deq_exec_base)
qed simp

lemma deq_run_simulates:
  "deq_abs A w fs \<Longrightarrow> cleaner_ok (dequeueFileIndex A) c \<Longrightarrow>
    \<exists>A' w' c'. deq_run es (A, w, c) = (A', w', c') \<and>
      deq_abs A' w' (fst (rl_run es (fs, dequeueFileIndex A, c))) \<and>
      snd (rl_run es (fs, dequeueFileIndex A, c)) = (dequeueFileIndex A', c')"
proof (induction es arbitrary: A w fs c)
  case (Cons e es)
  from Cons.prems obtain A' w' c' where 1: "deq_exec e (A, w, c) = (A', w', c')"
    "deq_abs A' w' (fst (rl_exec e (fs, dequeueFileIndex A, c)))"
    "snd (rl_exec e (fs, dequeueFileIndex A, c)) = (dequeueFileIndex A', c')"
    "cleaner_ok (dequeueFileIndex A') c'"
    using deq_exec_simulates[of A w fs c e] by auto
  have 2: "rl_exec e (fs, dequeueFileIndex A, c) = (fst (rl_exec e (fs, dequeueFileIndex A, c)), dequeueFileIndex A', c')"
    using 1(3) by (metis prod.collapse)
  show ?case using Cons.IH[OF 1(2,4)] 1(1) 2 by simp
qed auto

section \<open>Recovery after a crash\<close>

text \<open>What a crash leaves of a log: the files, the active one with the beginning of a
  record that was being written.\<close>

definition crash_image :: "string \<Rightarrow> bytes \<Rightarrow> os \<Rightarrow> os" where
  "crash_image p t w = w\<lparr>files := (files w)(p := Some (content w p @ t))\<rparr>"

definition cut_record :: "('r \<Rightarrow> bytes) \<Rightarrow> ('r \<Rightarrow> bool) \<Rightarrow> bytes \<Rightarrow> bool" where
  "cut_record enc valid t \<longleftrightarrow> t = [] \<or> (\<exists>r u. valid r \<and> enc r = t @ u \<and> u \<noteq> [])"

text \<open>The two files of one side, each perhaps with a record cut short at its end.\<close>

definition enq_torn_files :: "aol \<Rightarrow> os \<Rightarrow> pending_enq rlog \<Rightarrow> bool" where
  "enq_torn_files A w fs \<longleftrightarrow> calm w \<and>
     torn_log enq_bytes (enq_valid (can_alloc w ''pae.buff'')) (fst fs) (content w (buildEnqLogName A 0 False)) \<and>
     torn_log enq_bytes (enq_valid (can_alloc w ''pae.buff'')) (snd fs) (content w (buildEnqLogName A 1 False)) \<and>
     list_all (enq_valid (can_alloc w ''pae.buff'')) (fst fs @ snd fs) \<and>
     files w (buildEnqLogName A 0 True) = None"

definition deq_torn_files :: "aol \<Rightarrow> os \<Rightarrow> pending_deq rlog \<Rightarrow> bool" where
  "deq_torn_files A w fs \<longleftrightarrow> calm w \<and>
     torn_log deq_bytes deq_valid (fst fs) (content w (buildDeqLogName A 0 False)) \<and>
     torn_log deq_bytes deq_valid (snd fs) (content w (buildDeqLogName A 1 False)) \<and>
     list_all deq_valid (fst fs @ snd fs) \<and>
     files w (buildDeqLogName A 0 True) = None"

lemma extract_enq_torn:
  assumes "calm w" and "torn_log enq_bytes (enq_valid (can_alloc w ''pae.buff'')) rs (content w (buildEnqLogName A j False))"
    and "list_all (enq_valid (can_alloc w ''pae.buff'')) rs"
  shows "extractPendingEnqueueFromFile (A, w) j s = Inr (replay log_start log_complete rs s)"
  using enq_codec.dec_torn_log[OF assms(3,2), of s] assms(1)
  by (cases "files w (buildEnqLogName A j False)") (simp_all add: extractPendingEnqueueFromFile_def calm_def content_def)

lemma extract_deq_torn:
  assumes "calm w" and "torn_log deq_bytes deq_valid rs (content w (buildDeqLogName A j False))"
    and "list_all deq_valid rs"
  shows "extractPendingDequeueFromFile (A, w) j s = replay log_start log_complete rs s"
  using deq_codec.dec_torn_log[OF assms(3,2), of s] assms(1)
  by (cases "files w (buildDeqLogName A j False)") (simp_all add: extractPendingDequeueFromFile_def calm_def content_def)

lemma rl_app_app: "rl_app i ys (rl_app i xs fs) = rl_app i (xs @ ys) fs"
  by (cases fs) (simp add: rl_app_def)

lemma relog_enqueues_abs:
  "enq_abs A w fs \<Longrightarrow> \<forall>e \<in> set es. length (enq_buff e) = unat (enq_size e) \<Longrightarrow>
    \<exists>w'. relog_enqueues es (A, w) = Inr (A, w') \<and>
      enq_abs A w' (rl_app (enqueueFileIndex A) (map (\<lambda>e. Started (opkey e) e) es) fs)"
proof (induction es arbitrary: w fs)
  case Nil
  then show ?case by (cases fs) (simp add: rl_app_def)
next
  case (Cons e es)
  then obtain w1 where 1: "log_enqueue_start (msgId e) (queueId e) (enq_buff e) (enq_size e) (enq_transient e) (A, w)
      = Inr (enqueueFileIndex A, A, w1)" "enq_abs A w1 (rl_app (enqueueFileIndex A) [Started (opkey e) e] fs)"
    using log_enqueue_start_abs[of A w fs e] by auto
  with Cons.IH[OF 1(2)] Cons.prems(2) 1(1) show ?case by (simp add: rl_app_app)
qed

lemma relog_dequeues_abs:
  "deq_abs A w fs \<Longrightarrow>
    \<exists>w'. relog_dequeues ds (A, w) = (A, w') \<and>
      deq_abs A w' (rl_app (dequeueFileIndex A) (map (\<lambda>d. Started (opkey d) d) ds) fs)"
proof (induction ds arbitrary: w fs)
  case Nil
  then show ?case by (cases fs) (simp add: rl_app_def)
next
  case (Cons d ds)
  then obtain w1 where 1: "log_dequeue_start (msgId d) (queueId d) (A, w) = (dequeueFileIndex A, A, w1)"
    "deq_abs A w1 (rl_app (dequeueFileIndex A) [Started (opkey d) d] fs)"
    using log_dequeue_start_abs[of A w fs "msgId d" "queueId d"] by (auto simp: opkey_def PendingAsyncDequeue_eta)
  with Cons.IH[OF 1(2)] 1(1) show ?case by (simp add: rl_app_app)
qed

lemma replay_two: "replay log_start log_complete b (replay log_start log_complete a ([], [])) = replay_all (a @ b)"
  by (simp add: replay_all_def replay_append)

lemma recoverAsyncEnqueue_torn:
  assumes torn: "enq_torn_files A w fs"
  shows "\<exists>A' w'. recoverAsyncEnqueue [] (A, w) = Inr (0, fst (replay_all (fst fs @ snd fs)), A', w') \<and>
    enq_abs A' w' (start_records (fst (replay_all (fst fs @ snd fs))), []) \<and> enqueueFileIndex A' = 0"
proof -
  define A1 where "A1 = A\<lparr>enqueueFile := if ofs_open (enqueueFile A) then ofs_close (enqueueFile A) else enqueueFile A\<rparr>"
  have n: "buildEnqLogName A1 = buildEnqLogName A" by (simp add: A1_def)
  define w0 where "w0 = os_remove (buildEnqLogName A 0 False) w"
  define w1 where "w1 = os_remove (buildEnqLogName A 1 False) w0"
  let ?pend = "fst (replay_all (fst fs @ snd fs))" and ?V = "enq_valid (can_alloc w ''pae.buff'')"
  have v: "list_all ?V (fst fs @ snd fs)" using torn by (simp add: enq_torn_files_def)
  have vp: "list_all ?V (start_records ?pend)" by (rule valid_start_records[OF enq_valid_keyed[OF v] v])
  have x0: "extractPendingEnqueueFromFile (A1, w) 0 ([], []) = Inr (replay log_start log_complete (fst fs) ([], []))"
    using torn by (intro extract_enq_torn) (simp_all add: enq_torn_files_def n)
  have x1: "extractPendingEnqueueFromFile (A1, w0) 1 s = Inr (replay log_start log_complete (snd fs) s)" for s
    using torn by (intro extract_enq_torn) (simp_all add: enq_torn_files_def n w0_def content_remove)
  have f: "enq_files A1 w1 ([], [])"
    using torn by (simp add: enq_files_def enq_torn_files_def n w0_def w1_def content_remove)
      (simp add: os_remove_def)
  let ?A2 = "fst (open_enq 0 (A1, w1))" and ?w2 = "snd (open_enq 0 (A1, w1))"
  have o: "enq_abs ?A2 ?w2 ([], [])" "enqueueFileIndex ?A2 = 0"
    by (rule open_enq_abs[OF f]; simp add: A1_def)+
  have "\<forall>e \<in> set (pset_list ?pend). length (enq_buff e) = unat (enq_size e)"
    using vp by (auto simp: start_records_def list_all_iff opkey_def)
  from relog_enqueues_abs[OF o(1) this] obtain w3
    where 3: "relog_enqueues (pset_list ?pend) (?A2, ?w2) = Inr (?A2, w3)"
      "enq_abs ?A2 w3 (start_records ?pend, [])"
    using o(2) by (auto simp: rl_app_def start_records_def)
  show ?thesis
    using x0 x1 3 o(2)
    by (simp add: recoverAsyncEnqueue_def Let_def replay_two n flip: A1_def w0_def w1_def)
qed

lemma recoverAsyncDequeue_torn:
  assumes torn: "deq_torn_files A w fs"
  shows "\<exists>A' w'. recoverAsyncDequeue [] (A, w) = (0, fst (replay_all (fst fs @ snd fs)), A', w') \<and>
    deq_abs A' w' (start_records (fst (replay_all (fst fs @ snd fs))), []) \<and> dequeueFileIndex A' = 0"
proof -
  define A1 where "A1 = A\<lparr>dequeueFile := if ofs_open (dequeueFile A) then ofs_close (dequeueFile A) else dequeueFile A\<rparr>"
  have n: "buildDeqLogName A1 = buildDeqLogName A" by (simp add: A1_def)
  define w0 where "w0 = os_remove (buildDeqLogName A 0 False) w"
  define w1 where "w1 = os_remove (buildDeqLogName A 1 False) w0"
  let ?pend = "fst (replay_all (fst fs @ snd fs))"
  have x0: "extractPendingDequeueFromFile (A1, w) 0 ([], []) = replay log_start log_complete (fst fs) ([], [])"
    using torn by (intro extract_deq_torn) (simp_all add: deq_torn_files_def n)
  have x1: "extractPendingDequeueFromFile (A1, w0) 1 s = replay log_start log_complete (snd fs) s" for s
    using torn by (intro extract_deq_torn) (simp_all add: deq_torn_files_def n w0_def content_remove)
  have f: "deq_files A1 w1 ([], [])"
    using torn by (simp add: deq_files_def deq_torn_files_def n w0_def w1_def content_remove)
      (simp add: os_remove_def)
  let ?A2 = "fst (open_deq 0 (A1, w1))" and ?w2 = "snd (open_deq 0 (A1, w1))"
  have o: "deq_abs ?A2 ?w2 ([], [])" "dequeueFileIndex ?A2 = 0"
    by (rule open_deq_abs[OF f]; simp add: A1_def)+
  from relog_dequeues_abs[OF o(1)] obtain w3
    where 3: "relog_dequeues (pset_list ?pend) (?A2, ?w2) = (?A2, w3)"
      "deq_abs ?A2 w3 (start_records ?pend, [])"
    using o(2) by (fastforce simp: rl_app_def start_records_def)
  show ?thesis
    using x0 x1 3 o(2)
    by (simp add: recoverAsyncDequeue_def Let_def replay_two n flip: A1_def w0_def w1_def)
qed

section \<open>A new logger, and a logger on the remains of another\<close>

text \<open>Nothing below the directory of the logs yet.\<close>

definition fresh_dir :: "string \<Rightarrow> os \<Rightarrow> bool" where
  "fresh_dir base w \<longleftrightarrow> (\<forall>s. files w (base @ CHR ''/'' # s) = None)"

lemma new_logger:
  assumes "calm w"
  obtains A w' where "AsyncOperationLogger base w = Inr (A, w')" and "logBaseDir A = base"
    and "enqueueFileIndex A = 0" and "dequeueFileIndex A = 0"
    and "ofs_at (buildEnqLogName A 0 False) (enqueueFile A)" and "ofs_at (buildDeqLogName A 0 False) (dequeueFile A)"
    and "\<And>p. content w' p = content w p" and "calm w'" and "can_alloc w' = can_alloc w"
    and "\<And>p. files w p = None \<Longrightarrow> p \<noteq> buildEnqLogName A 0 False \<Longrightarrow> p \<noteq> buildDeqLogName A 0 False \<Longrightarrow> files w' p = None"
proof -
  let ?A = "\<lparr>enqueueFileIndex = 0, dequeueFileIndex = 0, enqueueFile = ofs_new, dequeueFile = ofs_new, logBaseDir = base\<rparr>"
  obtain A w' where Aw: "open_deq 0 (open_enq 0 (?A, w)) = (A, w')" by (metis surj_pair)
  have "AsyncOperationLogger base w = Inr (A, w')"
    using assms Aw by (simp add: AsyncOperationLogger_def calm_def)
  moreover have "enqueueFileIndex A = 0 \<and> dequeueFileIndex A = 0 \<and> logBaseDir A = base \<and>
      ofs_at (buildEnqLogName A 0 False) (enqueueFile A) \<and> ofs_at (buildDeqLogName A 0 False) (dequeueFile A) \<and>
      (\<forall>p. content w' p = content w p) \<and> calm w' \<and> can_alloc w' = can_alloc w \<and>
      (\<forall>p. files w p = None \<longrightarrow> p \<noteq> buildEnqLogName A 0 False \<longrightarrow> p \<noteq> buildDeqLogName A 0 False \<longrightarrow> files w' p = None)"
    using Aw assms
    by (auto simp: open_enq_def open_deq_def ofs_open_app_def ofs_new_def ofs_at_def calm_def content_def
        buildEnqLogName_def buildDeqLogName_def)
  ultimately show thesis using that by blast
qed

lemma new_logger_abs:
  assumes "calm w" and "fresh_dir base w"
  obtains A w' where "AsyncOperationLogger base w = Inr (A, w')" and "logBaseDir A = base"
    and "enqueueFileIndex A = 0" and "dequeueFileIndex A = 0"
    and "enq_abs A w' ([], [])" and "deq_abs A w' ([], [])"
proof -
  obtain A w' where A: "AsyncOperationLogger base w = Inr (A, w')" "logBaseDir A = base"
    "enqueueFileIndex A = 0" "dequeueFileIndex A = 0"
    "ofs_at (buildEnqLogName A 0 False) (enqueueFile A)" "ofs_at (buildDeqLogName A 0 False) (dequeueFile A)"
    "\<And>p. content w' p = content w p" "calm w'" "can_alloc w' = can_alloc w"
    "\<And>p. files w p = None \<Longrightarrow> p \<noteq> buildEnqLogName A 0 False \<Longrightarrow> p \<noteq> buildDeqLogName A 0 False \<Longrightarrow> files w' p = None"
    by (rule new_logger[OF assms(1), of base]) (rule that)
  have f: "files w (buildEnqLogName A i b) = None" "files w (buildDeqLogName A i b) = None" for i b
    using assms(2) A(2) by (simp_all add: fresh_dir_def buildEnqLogName_def buildDeqLogName_def)
  then have "content w (buildEnqLogName A i b) = []" "content w (buildDeqLogName A i b) = []" for i b
    by (simp_all add: content_def)
  with A f show thesis by (intro that[of A w']) (simp_all add: enq_abs_defs deq_abs_defs)
qed

lemma torn_log_cut: "cut_record enc v t \<Longrightarrow> torn_log enc v rs (encode enc rs @ t)"
  by (simp add: torn_log_def cut_record_def)

lemma crash_torn_enq:
  assumes abs: "enq_abs A w fs" and cut: "cut_record enq_bytes (enq_valid (\<lambda>_. True)) t"
    and B: "AsyncOperationLogger (logBaseDir A) (crash_image (ofs_path (enqueueFile A)) t w) = Inr (B, w')"
  shows "enq_torn_files B w' fs"
proof -
  let ?w = "crash_image (ofs_path (enqueueFile A)) t w" and ?i = "enqueueFileIndex A"
  have p: "ofs_path (enqueueFile A) = buildEnqLogName A ?i False" and i: "?i = 0 \<or> ?i = 1"
    using abs by (auto simp: enq_abs_def ofs_at_def)
  have cw: "content ?w x = (if x = buildEnqLogName A ?i False then content w x @ t else content w x)" for x
    by (simp add: crash_image_def p content_def)
  have calm: "calm ?w" using abs by (simp add: crash_image_def calm_def enq_abs_defs)
  have al: "can_alloc w = (\<lambda>_ _. True)" "can_alloc ?w = can_alloc w"
    using abs by (auto simp: enq_abs_defs calm_def crash_image_def fun_eq_iff)
  have tmp: "files ?w (buildEnqLogName A 0 True) = None"
    using abs i by (auto simp: enq_abs_defs crash_image_def p)
  obtain A' w'' where A': "AsyncOperationLogger (logBaseDir A) ?w = Inr (A', w'')" "logBaseDir A' = logBaseDir A"
    "\<And>p. content w'' p = content ?w p" "calm w''" "can_alloc w'' = can_alloc ?w"
    "\<And>p. files ?w p = None \<Longrightarrow> p \<noteq> buildEnqLogName A' 0 False \<Longrightarrow> p \<noteq> buildDeqLogName A' 0 False \<Longrightarrow> files w'' p = None"
    by (rule new_logger[OF calm, of "logBaseDir A"]) (rule that)
  have AB: "A' = B" "w'' = w'" using B A'(1) by simp_all
  have n: "buildEnqLogName B = buildEnqLogName A"
    using A'(2) by (intro ext) (simp add: AB buildEnqLogName_def)
  have "files w' (buildEnqLogName A 0 True) = None"
    using A'(6)[OF tmp] by (simp add: AB flip: n)
  moreover have cw': "content w' x = (if x = buildEnqLogName A ?i False then content w x @ t else content w x)" for x
    using A'(3)[of x] cw[of x] by (simp only: AB)
  have fi: "content w (buildEnqLogName A 0 False) = encode enq_bytes (fst fs)"
    "content w (buildEnqLogName A 1 False) = encode enq_bytes (snd fs)"
    using abs by (simp_all add: enq_abs_defs)
  have "torn_log enq_bytes (enq_valid (\<lambda>_. True)) (rl_file j fs) (content w' (buildEnqLogName A j False))"
    if "j = 0 \<or> j = 1" for j
  proof -
    have "content w' (buildEnqLogName A j False) = encode enq_bytes (rl_file j fs) @ (if j = ?i then t else [])"
      using that i
    proof (elim disjE)
    qed (use cw' fi in \<open>simp_all add: rl_file_def\<close>)
    then show ?thesis using torn_log_cut[OF cut] by (simp del: encode_simps)
  qed
  note this[of 0] this[of 1]
  ultimately show ?thesis
    using A'(4,5) abs by (simp add: enq_torn_files_def AB n al rl_file_def enq_abs_defs)
qed

lemma crash_torn_deq:
  assumes abs: "deq_abs A w fs" and cut: "cut_record deq_bytes deq_valid t"
    and B: "AsyncOperationLogger (logBaseDir A) (crash_image (ofs_path (dequeueFile A)) t w) = Inr (B, w')"
  shows "deq_torn_files B w' fs"
proof -
  let ?w = "crash_image (ofs_path (dequeueFile A)) t w" and ?i = "dequeueFileIndex A"
  have p: "ofs_path (dequeueFile A) = buildDeqLogName A ?i False" and i: "?i = 0 \<or> ?i = 1"
    using abs by (auto simp: deq_abs_def ofs_at_def)
  have cw: "content ?w x = (if x = buildDeqLogName A ?i False then content w x @ t else content w x)" for x
    by (simp add: crash_image_def p content_def)
  have calm: "calm ?w" using abs by (simp add: crash_image_def calm_def deq_abs_defs)
  have tmp: "files ?w (buildDeqLogName A 0 True) = None"
    using abs i by (auto simp: deq_abs_defs crash_image_def p)
  obtain A' w'' where A': "AsyncOperationLogger (logBaseDir A) ?w = Inr (A', w'')" "logBaseDir A' = logBaseDir A"
    "\<And>p. content w'' p = content ?w p" "calm w''" "can_alloc w'' = can_alloc ?w"
    "\<And>p. files ?w p = None \<Longrightarrow> p \<noteq> buildEnqLogName A' 0 False \<Longrightarrow> p \<noteq> buildDeqLogName A' 0 False \<Longrightarrow> files w'' p = None"
    by (rule new_logger[OF calm, of "logBaseDir A"]) (rule that)
  have AB: "A' = B" "w'' = w'" using B A'(1) by simp_all
  have n: "buildDeqLogName B = buildDeqLogName A"
    using A'(2) by (intro ext) (simp add: AB buildDeqLogName_def)
  have "files w' (buildDeqLogName A 0 True) = None"
    using A'(6)[OF tmp] by (simp add: AB flip: n)
  moreover have cw': "content w' x = (if x = buildDeqLogName A ?i False then content w x @ t else content w x)" for x
    using A'(3)[of x] cw[of x] by (simp only: AB)
  have fi: "content w (buildDeqLogName A 0 False) = encode deq_bytes (fst fs)"
    "content w (buildDeqLogName A 1 False) = encode deq_bytes (snd fs)"
    using abs by (simp_all add: deq_abs_defs)
  have "torn_log deq_bytes deq_valid (rl_file j fs) (content w' (buildDeqLogName A j False))"
    if "j = 0 \<or> j = 1" for j
  proof -
    have "content w' (buildDeqLogName A j False) = encode deq_bytes (rl_file j fs) @ (if j = ?i then t else [])"
      using that i
    proof (elim disjE)
    qed (use cw' fi in \<open>simp_all add: rl_file_def\<close>)
    then show ?thesis using torn_log_cut[OF cut] by (simp del: encode_simps)
  qed
  note this[of 0] this[of 1]
  ultimately show ?thesis
    using A'(4) abs by (simp add: deq_torn_files_def AB n rl_file_def deq_abs_defs)
qed

section \<open>The theorems of the logs\<close>

text \<open>What the machine's invariant says about the files alone.\<close>

lemma rl_inv_recovered:
  fixes H :: "(u64 \<times> u64, 'a pending_op_scheme) oprec list"
  assumes inv: "rl_inv H (fs, i, c)" and once: "started_once H"
  shows "pending_at H (q, p) v \<Longrightarrow> pset_find (fst (replay_all (fst fs @ snd fs))) q p = Some v"
    and "in_flight c = ([] :: (u64 \<times> u64, 'a pending_op_scheme) oprec list) \<Longrightarrow>
      pset_find (fst (replay_all (fst fs @ snd fs))) q p = Some v \<Longrightarrow> pending_at H (q, p) v"
proof -
  let ?f = "fst fs @ snd fs" and ?L = "in_flight c :: (u64 \<times> u64, 'a pending_op_scheme) oprec list"
  have eq: "log_equiv H (?f @ ?L)" using inv by (simp add: rl_inv_def)
  then have "started_once (?f @ ?L)" by (rule log_equiv_started_once[OF _ once])
  then have o: "started_once ?f" by (rule started_once_append[THEN conjunct1])
  have L: "Started (q, p) v \<notin> set ?L" by (cases c) auto
  have p: "pending_at H (q, p) v \<longleftrightarrow> pending_at (?f @ ?L) (q, p) v" using eq unfolding log_equiv_def by blast
  show "pending_at H (q, p) v \<Longrightarrow> pset_find (fst (replay_all ?f)) q p = Some v"
    using p L find_pending_iff[OF o, of q p v] by (simp add: pending_at_def)
  show "?L = [] \<Longrightarrow> pset_find (fst (replay_all ?f)) q p = Some v \<Longrightarrow> pending_at H (q, p) v"
    using p find_pending_iff[OF o, of q p v] by (simp add: pending_at_def)
qed

lemma rl_inv_start: "rl_inv [] (([], []), 0, CIdle)"
  by (simp add: rl_inv_def)


definition wit_os :: os where
  "wit_os = \<lparr>files = \<lambda>_. None, can_open = \<lambda>_. True, can_alloc = \<lambda>_ _. True\<rparr>"

definition wit_enq :: "u64 \<Rightarrow> u64 \<Rightarrow> bytes \<Rightarrow> pending_enq" where
  "wit_enq m q b = (PendingAsyncEnqueue m q False)\<lparr>enq_size := of_nat (length b), enq_buff := b\<rparr>"

lemma wit_os_ok [simp]: "calm wit_os" "fresh_dir d wit_os"
  by (simp_all add: calm_def fresh_dir_def wit_os_def)




definition completions :: "(u64 \<Rightarrow> u64 \<Rightarrow> bytes) \<Rightarrow> (u64 \<times> u64) list \<Rightarrow> bytes" where
  "completions rec ids = concat (map (\<lambda>(pid, qid). rec pid qid) ids)"

lemma each_dequeue_complete_writes:
  "ofs_at p (dequeueFile A) \<Longrightarrow> files w p \<noteq> None \<Longrightarrow>
     each_dequeue_complete ids (r, A, w) =
       (if ids = [] then r else dequeueFileIndex A, A, snd (ofs_write (completions deq_complete_record ids) (dequeueFile A, w)))"
proof (induction ids arbitrary: r w)
  case Nil
  then show ?case by (simp add: completions_def ofs_write_Nil)
next
  case (Cons a ids)
  obtain pid qid where a: "a = (pid, qid)" by (cases a)
  let ?b = "deq_complete_record pid qid"
  let ?w = "snd (ofs_write ?b (dequeueFile A, w))"
  have l: "log_dequeue_complete pid qid (A, w) = (dequeueFileIndex A, A, ?w)"
    using ofs_write_stream[OF Cons.prems(1)] by (simp add: log_dequeue_complete_def split_beta)
  have "files ?w p \<noteq> None" using Cons.prems(2) by (simp add: files_write)
  from Cons.IH[OF Cons.prems(1) this] show ?case
    using ofs_write_append[OF Cons.prems(1), of _ ?b w] ofs_write_stream[OF Cons.prems(1), of ?b w]
    by (simp add: a l completions_def) (metis prod.collapse)
qed

lemma each_enqueue_complete_writes:
  "ofs_at p (enqueueFile A) \<Longrightarrow> files w p \<noteq> None \<Longrightarrow>
     each_enqueue_complete ids (r, A, w) =
       (if ids = [] then r else enqueueFileIndex A, A, snd (ofs_write (completions enq_complete_record ids) (enqueueFile A, w)))"
proof (induction ids arbitrary: r w)
  case Nil
  then show ?case by (simp add: completions_def ofs_write_Nil)
next
  case (Cons a ids)
  obtain pid qid where a: "a = (pid, qid)" by (cases a)
  let ?b = "enq_complete_record pid qid"
  let ?w = "snd (ofs_write ?b (enqueueFile A, w))"
  have l: "log_enqueue_complete pid qid (A, w) = (enqueueFileIndex A, A, ?w)"
    using ofs_write_stream[OF Cons.prems(1)] by (simp add: log_enqueue_complete_def split_beta)
  have "files ?w p \<noteq> None" using Cons.prems(2) by (simp add: files_write)
  from Cons.IH[OF Cons.prems(1) this] show ?case
    using ofs_write_append[OF Cons.prems(1), of _ ?b w] ofs_write_stream[OF Cons.prems(1), of ?b w]
    by (simp add: a l completions_def) (metis prod.collapse)
qed

lemma local_buff_size_exact: "n < 2 ^ 31 \<Longrightarrow> local_buff_size n = int n"
  by (simp add: local_buff_size_def signed_of_nat signed_take_bit_int_eq_self)

text \<open>Logging a batch of completions with one write and, when its buffer cannot be
  allocated, record by record leaves the same bytes on both sides; the call reports
  success. (The batch is short enough for its size to fit a 32-bit \<^verbatim>\<open>int\<close>.)\<close>

theorem mass_complete_writes_all:
  assumes e: "ofs_at p (enqueueFile A)" "files w p \<noteq> None" "enqueueFileIndex A \<in> {0, 1}"
    and d: "ofs_at q (dequeueFile A)" "files w q \<noteq> None" "dequeueFileIndex A \<in> {0, 1}"
    and n: "17 * length ids < 2 ^ 31" and pq: "p \<noteq> q"
  shows "\<exists>w'. log_mass_enqueue_dequeue_complete ids (A, w) = Inr (True, A, w') \<and>
    content w' p = content w p @ completions enq_complete_record ids \<and>
    content w' q = content w q @ completions deq_complete_record ids"
proof -
  define w1 where "w1 = snd (ofs_write (completions enq_complete_record ids) (enqueueFile A, w))"
  define w2 where "w2 = snd (ofs_write (completions deq_complete_record ids) (dequeueFile A, w1))"
  have sz: "local_buff_size (17 * length ids) = int (17 * length ids)" by (rule local_buff_size_exact[OF n])
  have q1: "files w1 q \<noteq> None" using d(2) by (simp add: w1_def files_write)
  have 1: "\<exists>r. log_mass_enqueue_complete ids (A, w) = Inr (r, A, w1) \<and> r \<noteq> -1"
    using each_enqueue_complete_writes[OF e(1,2)] ofs_write_stream[OF e(1)] e(3) sz
    by (auto simp: log_mass_enqueue_complete_def aolog_sizes w1_def completions_def split_beta Let_def)
  have 2: "\<exists>r. log_mass_dequeue_complete ids (A, w1) = Inr (r, A, w2) \<and> r \<noteq> -1"
    using each_dequeue_complete_writes[OF d(1) q1] ofs_write_stream[OF d(1)] d(3) sz
    by (auto simp: log_mass_dequeue_complete_def aolog_sizes w2_def completions_def split_beta Let_def)
  have "log_mass_enqueue_dequeue_complete ids (A, w) = Inr (True, A, w2)"
    using 1 2 by (auto simp: log_mass_enqueue_dequeue_complete_def)
  moreover have "content w2 p = content w p @ completions enq_complete_record ids"
    "content w2 q = content w q @ completions deq_complete_record ids"
    using pq by (simp_all add: w2_def w1_def content_write[OF d(1)] content_write[OF e(1)])
  ultimately show ?thesis by blast
qed

theorem mass_complete_writes_all_witness:
  "\<exists>A w w'. log_mass_enqueue_dequeue_complete [(1, 7), (2, 7)] (A, w) = Inr (True, A, w') \<and>
    \<not> can_alloc w ''bigbuff'' 34 \<and>
    content w' ''e'' = [9] @ completions enq_complete_record [(1, 7), (2, 7)] \<and>
    content w' ''d'' = [] @ completions deq_complete_record [(1, 7), (2, 7)]"
proof -
  let ?f = "\<lambda>p. \<lparr>ofs_path = p, ofs_open = True, ofs_fail = False\<rparr>"
  let ?A = "\<lparr>enqueueFileIndex = 0, dequeueFileIndex = 1, enqueueFile = ?f ''e'', dequeueFile = ?f ''d'', logBaseDir = []\<rparr>"
  let ?w = "\<lparr>files = \<lambda>p. if p = ''e'' then Some [9] else Some [], can_open = \<lambda>_. True, can_alloc = \<lambda>_ _. False\<rparr>"
  have c: "content ?w ''e'' = [9]" "content ?w ''d'' = []" "\<not> can_alloc ?w ''bigbuff'' 34" by (simp_all add: content_def)
  have "\<exists>w'. log_mass_enqueue_dequeue_complete [(1, 7), (2, 7)] (?A, ?w) = Inr (True, ?A, w') \<and>
    content w' ''e'' = content ?w ''e'' @ completions enq_complete_record [(1, 7), (2, 7)] \<and>
    content w' ''d'' = content ?w ''d'' @ completions deq_complete_record [(1, 7), (2, 7)]"
    by (rule mass_complete_writes_all) (simp_all add: ofs_at_def)
  then show ?thesis using c by metis
qed

text \<open>C32. A batch of 252645136 completions needs \<open>2\<^sup>3\<^sup>2 + 16\<close> bytes; the \<^verbatim>\<open>int\<close> that holds the
  size keeps 16, and the fill loop runs past the end of that allocation.\<close>

theorem mass_complete_overflow:
  assumes "length ids = 252645136" and "can_alloc w ''bigbuff'' 16"
  shows "log_mass_dequeue_complete ids (A, w) = Inl (Fault OutOfBounds)"
proof -
  have "local_buff_size (deqCompleteSize * length ids) = 16"
    by (simp add: assms(1) aolog_sizes local_buff_size_def)
  then show ?thesis using assms by (simp add: log_mass_dequeue_complete_def aolog_sizes)
qed

theorem mass_complete_overflow_witness:
  "\<exists>A. log_mass_dequeue_complete (replicate 252645136 (0, 0)) (A, wit_os) = Inl (Fault OutOfBounds)"
  using mass_complete_overflow[of "replicate 252645136 (0, 0)" wit_os]
  by (simp add: wit_os_def)

section \<open>The cleaner loop\<close>

lemma relog_lost_enqueues_abs:
  "enq_abs A w fs \<Longrightarrow>
    \<exists>w'. relog_lost_enqueues xs (A, w) = (A, w') \<and>
      enq_abs A w' (rl_app (enqueueFileIndex A) (map (\<lambda>x. Completed (opkey x)) xs) fs)"
proof (induction xs arbitrary: w fs)
  case Nil
  then show ?case by (cases fs) (simp add: rl_app_def)
next
  case (Cons x xs)
  then obtain w1 where 1: "log_enqueue_complete (msgId x) (queueId x) (A, w) = (enqueueFileIndex A, A, w1)"
    "enq_abs A w1 (rl_app (enqueueFileIndex A) [Completed (opkey x)] fs)"
    using log_enqueue_complete_abs[of A w fs "msgId x" "queueId x"] by (auto simp: opkey_def)
  with Cons.IH[OF 1(2)] show ?case by (simp add: rl_app_app)
qed

lemma cleanEnqueue_pass_abs:
  assumes abs: "enq_abs A w fs" and once: "started_once (fst fs @ snd fs)"
  shows "\<exists>A' w' fs'. cleanEnqueue_pass (A, w) = Inr (A', w') \<and> enq_abs A' w' fs' \<and>
    log_equiv (fst fs @ snd fs) (fst fs' @ snd fs') \<and>
    rl_file (enqueueFileIndex A) fs' = start_records (fst (replay_all (rl_file (enqueueFileIndex A) fs)))"
proof -
  let ?i = "enqueueFileIndex A"
  obtain A1 w1 where 1: "cleanEnqueue_switch (A, w) = (?i, A1, w1)" "enqueueFileIndex A1 = (?i + 1) mod 2" "enq_abs A1 w1 fs"
    using cleanEnqueue_switch_abs[OF abs] by blast
  have i: "?i = 0 \<or> ?i = 1" using abs by (simp add: enq_abs_def)
  obtain pend lost where r: "replay_all (rl_file ?i fs) = (pend, lost)" by (metis surj_pair)
  obtain w2 where 2: "cleanEnqueue_rewrite ?i (A1, w1) = Inr (lost, w2)" "enq_abs A1 w2 (rl_set ?i (start_records pend) fs)"
    using cleanEnqueue_rewrite_abs[OF 1(3) i r] by blast
  let ?fs = "rl_app (1 - ?i) (complete_records lost) (rl_set ?i (start_records pend) fs)"
  obtain w3 where 3: "relog_lost_enqueues (pset_list lost) (A1, w2) = (A1, w3)" "enq_abs A1 w3 ?fs"
    using relog_lost_enqueues_abs[OF 2(2)] 1(2) mod2_cases[OF i] by (fastforce simp: complete_records_def)
  have wk: "well_keyed (rl_file ?i fs)" by (rule enq_valid_keyed[OF enq_abs_valid_file[OF abs]])
  have m: "mset (rl_file ?i fs @ rl_file (1 - ?i) fs) = mset (fst fs @ snd fs)" using i by (auto simp: rl_file_def)
  have "log_equiv (fst fs @ snd fs) (rl_file ?i fs @ rl_file (1 - ?i) fs)"
    using log_equiv_mset[OF log_equiv_refl m] .
  then have "log_equiv (fst fs @ snd fs) (compacted (rl_file ?i fs) @ rl_file (1 - ?i) fs)"
    by (rule log_equiv_compact[OF _ once wk])
  moreover have "mset (fst ?fs @ snd ?fs) = mset (compacted (rl_file ?i fs) @ rl_file (1 - ?i) fs)"
    using i r by (cases fs) (auto simp: rl_app_def rl_set_def rl_file_def compacted_def)
  ultimately have "log_equiv (fst fs @ snd fs) (fst ?fs @ snd ?fs)" using log_equiv_mset by blast
  moreover have "rl_file ?i ?fs = start_records (fst (replay_all (rl_file ?i fs)))"
    using i r by (cases fs) (auto simp: rl_app_def rl_set_def rl_file_def)
  moreover have "cleanEnqueue_pass (A, w) = Inr (A1, w3)"
    using 1(1) 2(1) 3(1) by (simp add: cleanEnqueue_pass_def)
  ultimately show ?thesis using 3(2) by blast
qed

lemma log_equiv_trans: "log_equiv a b \<Longrightarrow> log_equiv b c \<Longrightarrow> log_equiv a c"
  unfolding log_equiv_def by (metis le_trans le_zero_eq length_0_conv list.size(3))

text \<open>C31. However often and whenever the cleaner thread wakes up, the loop never fails and
  the two enqueue files it leaves hold the same pending enqueues as before.\<close>

theorem cleanEnqueueLog_keeps_pending:
  assumes "enq_abs A w fs" and "started_once (fst fs @ snd fs)"
  shows "\<exists>A' w' fs'. cleanEnqueueLog interval warn start ticks (A, w) = Inr (A', w') \<and> enq_abs A' w' fs' \<and>
    fst (replay_all (fst fs' @ snd fs')) = fst (replay_all (fst fs @ snd fs))"
proof -
  have loop: "\<exists>A' w' fs'. cleanEnqueue_loop interval warn last ticks (A, w) = Inr (A', w') \<and> enq_abs A' w' fs' \<and>
      log_equiv (fst fs @ snd fs) (fst fs' @ snd fs')" for last
    using assms
  proof (induction ticks arbitrary: A w fs last)
    case Nil
    then show ?case by (intro exI[of _ A] exI[of _ w] exI[of _ fs]) simp
  next
    case (Cons tick ticks)
    obtain now pos where t: "tick = (now, pos)" by (cases tick)
    show ?case
    proof (cases "clean_due (now - last) interval pos warn")
      case False
      with Cons.IH[OF Cons.prems] show ?thesis by (simp add: t)
    next
      case True
      obtain A1 w1 fs1 where 1: "cleanEnqueue_pass (A, w) = Inr (A1, w1)" "enq_abs A1 w1 fs1"
        "log_equiv (fst fs @ snd fs) (fst fs1 @ snd fs1)"
        using cleanEnqueue_pass_abs[OF Cons.prems] by blast
      from Cons.IH[OF 1(2) log_equiv_started_once[OF 1(3) Cons.prems(2)]] obtain A' w' fs' where
        2: "cleanEnqueue_loop interval warn now ticks (A1, w1) = Inr (A', w')" "enq_abs A' w' fs'"
           "log_equiv (fst fs1 @ snd fs1) (fst fs' @ snd fs')" by blast
      show ?thesis using True 1(1) 2(1,2) log_equiv_trans[OF 1(3) 2(3)]
        by (intro exI[of _ A'] exI[of _ w'] exI[of _ fs']) (simp add: t)
    qed
  qed
  have al: "can_alloc w ''wbuff'' enqDataPreambleSize" using assms(1) by (simp add: enq_abs_defs calm_def)
  obtain A' w' fs' where l: "cleanEnqueue_loop interval warn start ticks (A, w) = Inr (A', w')" "enq_abs A' w' fs'"
    "log_equiv (fst fs @ snd fs) (fst fs' @ snd fs')" using loop by blast
  have "fst (replay_all (fst fs' @ snd fs')) = fst (replay_all (fst fs @ snd fs))"
    using l(3) assms(2) by (rule log_equiv_replay_all)
  with l(1,2) al show ?thesis
    by (intro exI[of _ A'] exI[of _ w'] exI[of _ fs']) (simp add: cleanEnqueueLog_def)
qed

theorem cleanEnqueueLog_keeps_pending_witness:
  "\<exists>A w A' w' fs'. cleanEnqueueLog 600 1000000 0 [(30, 0), (601, 0), (700, 2000000)] (A, w) = Inr (A', w') \<and>
    enq_abs A' w' fs' \<and> fst (replay_all (fst fs' @ snd fs')) = []"
proof -
  obtain A w where a: "enq_abs A w ([], [])" by (rule new_logger_abs[OF wit_os_ok]) (rule that)
  then show ?thesis
    using cleanEnqueueLog_keeps_pending[OF a, of 600 1000000 0 "[(30, 0), (601, 0), (700, 2000000)]"]
    by (auto simp: started_once_def replay_all_def) blast
qed

end
