(* ===== verification/BdbApi.thy ===== *)
theory BdbApi
  imports Prelude
begin

text \<open>
  The library the store is written against, as a parameter: Berkeley DB's C++ classes are
  not part of this repository, so a record of the operations the code calls stands for
  them, and what the code relies on of their documented behaviour is the predicate
  \<open>bdb_laws\<close>. Around it: \<^verbatim>\<open>lib/IdSequence.cpp\<close>, \<^verbatim>\<open>lib/TxnCtxt.cpp\<close>, \<^verbatim>\<open>lib/Cursor.h\<close>,
  \<^verbatim>\<open>lib/IdDbt.cpp\<close> and the key comparison of \<^verbatim>\<open>lib/JournalImpl.cpp\<close>.
\<close>

section \<open>The parameter\<close>

text \<open>Return codes the code tells apart; a \<open>DbException\<close> is the left side of a result.\<close>

datatype dbst = DbOk | DbKeyExist | DbNotFound | DbOther int

record 'db dbapi =
  api_put :: "u64 \<Rightarrow> bytes \<Rightarrow> 'db \<Rightarrow> int + dbst \<times> 'db"
  api_del :: "u64 \<Rightarrow> 'db \<Rightarrow> int + dbst \<times> 'db"
  api_get :: "u64 \<Rightarrow> 'db \<Rightarrow> int + dbst \<times> bytes"
  api_exists :: "u64 \<Rightarrow> 'db \<Rightarrow> int + dbst"
  api_scan :: "'db \<Rightarrow> (u64 \<times> bytes) list"
  api_open :: "string \<Rightarrow> int + 'db"
  api_txn_begin :: "int + int"
  api_txn_commit :: "int + unit"

section \<open>Keys\<close>

text \<open>\<^verbatim>\<open>bt_compare_func\<close>: the 64-bit difference of the keys, cut to an \<^verbatim>\<open>int\<close>.\<close>

definition bt_compare_func :: "u64 \<Rightarrow> u64 \<Rightarrow> int" where
  "bt_compare_func first_key second_key = to_int32 (first_key - second_key)"

text \<open>A comparison a B-tree can be built on: a total preorder on the keys in use.\<close>

definition orders :: "(u64 \<Rightarrow> u64 \<Rightarrow> int) \<Rightarrow> u64 set \<Rightarrow> bool" where
  "orders cmp K \<longleftrightarrow> (\<forall>x \<in> K. cmp x x = 0) \<and> (\<forall>x \<in> K. \<forall>y \<in> K. sgn (cmp x y) = - sgn (cmp y x)) \<and>
     (\<forall>x \<in> K. \<forall>y \<in> K. \<forall>z \<in> K. cmp x y \<le> 0 \<longrightarrow> cmp y z \<le> 0 \<longrightarrow> cmp x z \<le> 0)"

text \<open>
  The documented behaviour: with a comparison that orders the keys, \<^verbatim>\<open>put\<close> with
  \<^verbatim>\<open>DB_NOOVERWRITE\<close> refuses a key that compares equal to a stored one, \<^verbatim>\<open>del\<close>, \<^verbatim>\<open>get\<close> and
  \<^verbatim>\<open>exists\<close> find a key through the comparison, a cursor walks the pairs stored, and
  transactions begin and commit.
\<close>

definition bdb_laws :: "(u64 \<Rightarrow> u64 \<Rightarrow> int) \<Rightarrow> 'db dbapi \<Rightarrow> ('db \<Rightarrow> u64 \<Rightarrow> bytes option) \<Rightarrow> bool" where
  "bdb_laws cmp api view \<longleftrightarrow>
     api_txn_begin api = Inr 0 \<and> api_txn_commit api = Inr () \<and>
     (\<forall>d. distinct (map fst (api_scan api d)) \<and> map_of (api_scan api d) = view d) \<and>
     (\<forall>d k v. orders cmp (insert k (dom (view d))) \<longrightarrow>
        (if \<exists>k' \<in> dom (view d). cmp k k' = 0
         then (\<exists>d'. api_put api k v d = Inr (DbKeyExist, d') \<and> view d' = view d)
         else (\<exists>d'. api_put api k v d = Inr (DbOk, d') \<and> view d' = (view d)(k \<mapsto> v)))) \<and>
     (\<forall>d k. orders cmp (insert k (dom (view d))) \<longrightarrow>
        (if \<exists>k' \<in> dom (view d). cmp k k' = 0
         then (\<exists>d'. api_del api k d = Inr (DbOk, d') \<and>
                (\<forall>k'. view d' k' = (if cmp k k' = 0 then None else view d k')))
         else (\<exists>d'. api_del api k d = Inr (DbNotFound, d') \<and> view d' = view d))) \<and>
     (\<forall>d k. orders cmp (insert k (dom (view d))) \<longrightarrow>
        (if \<exists>k' \<in> dom (view d). cmp k k' = 0
         then api_exists api k d = Inr DbOk \<and>
              (\<exists>k' v. cmp k k' = 0 \<and> view d k' = Some v \<and> api_get api k d = Inr (DbOk, v))
         else api_exists api k d = Inr DbNotFound \<and> api_get api k d = Inr (DbNotFound, [])))"

section \<open>IdSequence\<close>

definition IdSequence :: u64 where
  "IdSequence = 1"

definition IdSequence_next :: "u64 \<Rightarrow> u64 \<times> u64" where
  "IdSequence_next i = (let i' = (if i = 0 then i + 1 else i) in (i', i' + 1))"

definition IdSequence_reset :: "u64 \<Rightarrow> u64 \<Rightarrow> u64" where
  "IdSequence_reset value i = value"

fun draw :: "nat \<Rightarrow> u64 \<Rightarrow> u64 list \<times> u64" where
  "draw 0 i = ([], i)"
| "draw (Suc n) i = (let (x, i') = IdSequence_next i; (xs, i'') = draw n i' in (x # xs, i''))"

section \<open>TxnCtxt\<close>

text \<open>The part of \<^verbatim>\<open>TxnCtxt\<close> that wraps a Berkeley DB transaction: whether one is open. The
  body of a \<^verbatim>\<open>try\<close> block is run on the database, and its effect is kept only when the
  commit succeeds.\<close>

definition TxnCtxt_begin :: "'db dbapi \<Rightarrow> exn + bool" where
  "TxnCtxt_begin api =
     (case api_txn_begin api of
        Inl n \<Rightarrow> Inl (DbException n)
      | Inr err \<Rightarrow> if err \<noteq> 0
          then Inl (StoreException (''Error: Env::txn_begin() returned error code: '' @ int_string err))
          else Inr True)"

definition TxnCtxt_commit :: "'db dbapi \<Rightarrow> bool \<Rightarrow> exn + bool" where
  "TxnCtxt_commit api txn =
     (if txn then (case api_txn_commit api of Inl n \<Rightarrow> Inl (DbException n) | Inr _ \<Rightarrow> Inr False) else Inr txn)"

definition TxnCtxt_abort :: "bool \<Rightarrow> bool" where
  "TxnCtxt_abort txn = (if txn then False else txn)"

text \<open>\<^verbatim>\<open>begin; try { body; commit } catch (...) { abort; throw }\<close>.\<close>

definition in_txn :: "'db dbapi \<Rightarrow> (int + 'r) \<Rightarrow> exn + 'r" where
  "in_txn api body =
     (case TxnCtxt_begin api of
        Inl e \<Rightarrow> Inl e
      | Inr txn \<Rightarrow>
          (case body of
             Inl n \<Rightarrow> Inl (DbException n)
           | Inr r \<Rightarrow> (case TxnCtxt_commit api txn of Inl e \<Rightarrow> Inl e | Inr _ \<Rightarrow> Inr r)))"

section \<open>Cursors\<close>

text \<open>A cursor opened on a database stands before the pairs still to be read.\<close>

definition Cursor_next :: "(u64 \<times> bytes) list \<Rightarrow> ((u64 \<times> bytes) \<times> (u64 \<times> bytes) list) option" where
  "Cursor_next c = (case c of [] \<Rightarrow> None | r # rs \<Rightarrow> Some (r, rs))"

section \<open>Lemmas on the key comparison\<close>

lemma bt_compare_le:
  assumes "b \<le> a" and "unat a - unat b < 2 ^ 31"
  shows "bt_compare_func a b = int (unat a) - int (unat b)" and "bt_compare_func b a = int (unat b) - int (unat a)"
proof -
  have le: "unat b \<le> unat a" using assms(1) by (simp add: word_le_nat_alt)
  have u: "unat (a - b) = unat a - unat b" using assms(1) by (simp add: unat_sub word_le_nat_alt)
  then have s: "unat (a - b) < 2 ^ 31" using assms(2) by simp
  have i: "int (unat (a - b)) = int (unat a) - int (unat b)" using u le by (simp only: of_nat_diff)
  show "bt_compare_func a b = int (unat a) - int (unat b)"
    using to_int32_nonneg[OF s] i by (simp only: bt_compare_func_def)
  have "to_int32 (- (a - b)) = - int (unat (a - b))" by (rule to_int32_neg) (use s in linarith)
  then show "bt_compare_func b a = int (unat b) - int (unat a)"
    using i by (simp only: bt_compare_func_def minus_diff_eq)
qed

text \<open>Keys that fit a window of \<open>2\<^sup>3\<^sup>1\<close> are compared as numbers.\<close>

definition key_window :: "u64 set \<Rightarrow> bool" where
  "key_window K \<longleftrightarrow> (\<forall>x \<in> K. \<forall>y \<in> K. y \<le> x \<longrightarrow> unat x - unat y < 2 ^ 31)"

lemma bt_compare_window:
  "key_window K \<Longrightarrow> x \<in> K \<Longrightarrow> y \<in> K \<Longrightarrow> bt_compare_func x y = int (unat x) - int (unat y)"
  unfolding key_window_def by (metis bt_compare_le linear)

lemma bt_compare_eq_window: "key_window K \<Longrightarrow> x \<in> K \<Longrightarrow> y \<in> K \<Longrightarrow> bt_compare_func x y = 0 \<longleftrightarrow> x = y"
  using bt_compare_window[of K x y] by (metis eq_iff_diff_eq_0 of_nat_eq_iff word_unat_eq_iff)

lemma orders_window: "key_window K \<Longrightarrow> orders bt_compare_func K"
  unfolding orders_def using bt_compare_window[of K] by (auto simp: sgn_if)

lemma key_window_subset: "key_window K \<Longrightarrow> L \<subseteq> K \<Longrightarrow> key_window L"
  unfolding key_window_def by blast

lemma bt_compare_collision: "bt_compare_func x (x + 2 ^ 32) = 0"
proof -
  have "to_int32 (- (2 ^ 32)) = 0" by (simp add: to_int32_def)
  then show ?thesis by (simp add: bt_compare_func_def)
qed

section \<open>Using the laws\<close>

lemma law_put:
  assumes "bdb_laws bt_compare_func api view" and "key_window (insert k (dom (view d)))"
  shows "view d k = None \<Longrightarrow> \<exists>d'. api_put api k v d = Inr (DbOk, d') \<and> view d' = (view d)(k \<mapsto> v)"
    and "view d k \<noteq> None \<Longrightarrow> \<exists>d'. api_put api k v d = Inr (DbKeyExist, d') \<and> view d' = view d"
proof -
  have "(\<exists>k' \<in> dom (view d). bt_compare_func k k' = 0) \<longleftrightarrow> view d k \<noteq> None"
    using bt_compare_eq_window[OF assms(2), of k] by blast
  moreover have "if \<exists>k' \<in> dom (view d). bt_compare_func k k' = 0
       then (\<exists>d'. api_put api k v d = Inr (DbKeyExist, d') \<and> view d' = view d)
       else (\<exists>d'. api_put api k v d = Inr (DbOk, d') \<and> view d' = (view d)(k \<mapsto> v))"
    using assms(1) orders_window[OF assms(2)] unfolding bdb_laws_def by blast
  ultimately show "view d k = None \<Longrightarrow> \<exists>d'. api_put api k v d = Inr (DbOk, d') \<and> view d' = (view d)(k \<mapsto> v)"
    "view d k \<noteq> None \<Longrightarrow> \<exists>d'. api_put api k v d = Inr (DbKeyExist, d') \<and> view d' = view d"
    by (simp_all only: if_True if_False simp_thms)
qed

lemma law_del:
  assumes "bdb_laws bt_compare_func api view" and "key_window (insert k (dom (view d)))"
  shows "\<exists>d'. api_del api k d = Inr (if view d k \<noteq> None then DbOk else DbNotFound, d') \<and> view d' = (view d)(k := None)"
proof -
  have z: "bt_compare_func k k' = 0 \<longleftrightarrow> k' = k" if "k' \<in> dom (view d)" for k'
    using bt_compare_eq_window[OF assms(2), of k k'] that by blast
  have c0: "bt_compare_func k k = 0" using bt_compare_eq_window[OF assms(2), of k k] by simp
  have e: "(\<exists>k' \<in> dom (view d). bt_compare_func k k' = 0) \<longleftrightarrow> view d k \<noteq> None"
    using z by blast
  have l: "if \<exists>k' \<in> dom (view d). bt_compare_func k k' = 0
       then (\<exists>d'. api_del api k d = Inr (DbOk, d') \<and>
              (\<forall>k'. view d' k' = (if bt_compare_func k k' = 0 then None else view d k')))
       else (\<exists>d'. api_del api k d = Inr (DbNotFound, d') \<and> view d' = view d)"
    using assms(1) orders_window[OF assms(2)] unfolding bdb_laws_def by blast
  show ?thesis
  proof (cases "view d k")
    case None
    with e l obtain d' where "api_del api k d = Inr (DbNotFound, d')" "view d' = view d" by auto
    with None show ?thesis by (auto simp: fun_eq_iff)
  next
    case (Some v)
    with e l obtain d' where d': "api_del api k d = Inr (DbOk, d')"
      "\<forall>k'. view d' k' = (if bt_compare_func k k' = 0 then None else view d k')" by auto
    have "view d' = (view d)(k := None)"
    proof
      fix k'
      show "view d' k' = ((view d)(k := None)) k'"
        using d'(2) z[of k'] c0 by (cases "view d k'") auto
    qed
    with d'(1) Some show ?thesis by simp
  qed
qed

lemma law_get:
  assumes "bdb_laws bt_compare_func api view" and "key_window (insert k (dom (view d)))"
  shows "view d k = Some v \<Longrightarrow> api_get api k d = Inr (DbOk, v) \<and> api_exists api k d = Inr DbOk"
    and "view d k = None \<Longrightarrow> api_get api k d = Inr (DbNotFound, []) \<and> api_exists api k d = Inr DbNotFound"
proof -
  have z: "bt_compare_func k k' = 0 \<longleftrightarrow> k' = k" if "k' \<in> dom (view d)" for k'
    using bt_compare_eq_window[OF assms(2), of k k'] that by blast
  have e: "(\<exists>k' \<in> dom (view d). bt_compare_func k k' = 0) \<longleftrightarrow> view d k \<noteq> None"
    using z by blast
  have l: "if \<exists>k' \<in> dom (view d). bt_compare_func k k' = 0
       then api_exists api k d = Inr DbOk \<and>
            (\<exists>k' v. bt_compare_func k k' = 0 \<and> view d k' = Some v \<and> api_get api k d = Inr (DbOk, v))
       else api_exists api k d = Inr DbNotFound \<and> api_get api k d = Inr (DbNotFound, [])"
    using assms(1) orders_window[OF assms(2)] unfolding bdb_laws_def by blast
  show "view d k = None \<Longrightarrow> api_get api k d = Inr (DbNotFound, []) \<and> api_exists api k d = Inr DbNotFound"
    using e l by auto
  show "view d k = Some v \<Longrightarrow> api_get api k d = Inr (DbOk, v) \<and> api_exists api k d = Inr DbOk"
    using e l z by (metis domI option.distinct(1) option.inject)
qed

lemma law_scan: "bdb_laws cmp api view \<Longrightarrow> distinct (map fst (api_scan api d)) \<and> map_of (api_scan api d) = view d"
  unfolding bdb_laws_def by blast

lemma law_txn: "bdb_laws cmp api view \<Longrightarrow> in_txn api (Inr r) = Inr r"
  by (simp add: bdb_laws_def in_txn_def TxnCtxt_begin_def TxnCtxt_commit_def)

section \<open>A database that obeys the laws\<close>

text \<open>An instance of the parameter, to show that the laws can be met: the pairs in insertion
  order, looked up through the comparison.\<close>

definition list_db :: "(u64 \<Rightarrow> u64 \<Rightarrow> int) \<Rightarrow> (u64 \<times> bytes) list dbapi" where
  "list_db cmp = \<lparr>
     api_put = \<lambda>k v d. Inr (if \<exists>e \<in> set d. cmp k (fst e) = 0 then (DbKeyExist, d) else (DbOk, d @ [(k, v)])),
     api_del = \<lambda>k d. Inr (if \<exists>e \<in> set d. cmp k (fst e) = 0
                          then (DbOk, filter (\<lambda>e. cmp k (fst e) \<noteq> 0) d) else (DbNotFound, d)),
     api_get = \<lambda>k d. Inr (case filter (\<lambda>e. cmp k (fst e) = 0) d of [] \<Rightarrow> (DbNotFound, []) | e # _ \<Rightarrow> (DbOk, snd e)),
     api_exists = \<lambda>k d. Inr (if \<exists>e \<in> set d. cmp k (fst e) = 0 then DbOk else DbNotFound),
     api_scan = \<lambda>d. foldr (\<lambda>(k, v) m. smap_assign k v m) d [],
     api_open = \<lambda>_. Inr [],
     api_txn_begin = Inr 0,
     api_txn_commit = Inr ()\<rparr>"

lemma smap_of_list:
  "smap_ok (foldr (\<lambda>(k, v) m. smap_assign k v m) d []) \<and> map_of (foldr (\<lambda>(k, v) m. smap_assign k v m) d []) = map_of d"
  by (induction d) (auto simp: map_of_smap_assign)

lemma map_of_filter_cmp: "map_of (filter (\<lambda>e. P (fst e)) d) k = (if P k then map_of d k else None)"
  by (induction d) auto

lemma list_db_get:
  assumes "filter (\<lambda>e. P (fst e)) d = e # es"
  shows "P (fst e) \<and> map_of d (fst e) = Some (snd e)"
proof -
  have "map_of (filter (\<lambda>e. P (fst e)) d) (fst e) = Some (snd e)" using assms by (cases e) simp
  then show ?thesis by (simp add: map_of_filter_cmp split: if_splits)
qed

lemma dom_list_db: "(\<exists>k' \<in> dom (map_of d). cmp k k' = 0) \<longleftrightarrow> (\<exists>e \<in> set d. cmp k (fst e) = (0 :: int))"
  by (simp add: dom_map_of_conv_image_fst)

lemma list_db_laws: "bdb_laws cmp (list_db cmp) map_of"
  unfolding bdb_laws_def dom_list_db
proof (intro conjI allI impI)
  fix d :: "(u64 \<times> bytes) list" and k v
  show "distinct (map fst (api_scan (list_db cmp) d))" "map_of (api_scan (list_db cmp) d) = map_of d"
    using smap_of_list[of d] smap_ok_distinct[of "foldr (\<lambda>(k, v) m. smap_assign k v m) d []"]
    by (simp_all add: list_db_def)
  assume o: "orders cmp (insert k (dom (map_of d)))"
  have kk: "cmp k k = 0" using o by (simp add: orders_def)
  show "if \<exists>e \<in> set d. cmp k (fst e) = 0
      then \<exists>d'. api_put (list_db cmp) k v d = Inr (DbKeyExist, d') \<and> map_of d' = map_of d
      else \<exists>d'. api_put (list_db cmp) k v d = Inr (DbOk, d') \<and> map_of d' = (map_of d)(k \<mapsto> v)"
  proof (cases "\<exists>e \<in> set d. cmp k (fst e) = 0")
    case True
    then show ?thesis by (simp add: list_db_def)
  next
    case False
    with kk have "map_of d k = None" by (force simp: map_of_eq_None_iff)
    then have "map_of (d @ [(k, v)]) = (map_of d)(k \<mapsto> v)"
      by (auto simp: fun_eq_iff map_add_def split: option.splits)
    with False show ?thesis by (simp add: list_db_def)
  qed
next
  fix d :: "(u64 \<times> bytes) list" and k
  show "if \<exists>e \<in> set d. cmp k (fst e) = 0
      then \<exists>d'. api_del (list_db cmp) k d = Inr (DbOk, d') \<and> (\<forall>k'. map_of d' k' = (if cmp k k' = 0 then None else map_of d k'))
      else \<exists>d'. api_del (list_db cmp) k d = Inr (DbNotFound, d') \<and> map_of d' = map_of d"
    using map_of_filter_cmp[of "\<lambda>x. cmp k x \<noteq> 0" d] by (auto simp: list_db_def)
next
  fix d :: "(u64 \<times> bytes) list" and k
  show "if \<exists>e \<in> set d. cmp k (fst e) = 0
      then api_exists (list_db cmp) k d = Inr DbOk \<and>
        (\<exists>k' v. cmp k k' = 0 \<and> map_of d k' = Some v \<and> api_get (list_db cmp) k d = Inr (DbOk, v))
      else api_exists (list_db cmp) k d = Inr DbNotFound \<and> api_get (list_db cmp) k d = Inr (DbNotFound, [])"
  proof (cases "filter (\<lambda>e. cmp k (fst e) = 0) d")
    case Nil
    then have "\<not> (\<exists>e \<in> set d. cmp k (fst e) = 0)" by (simp add: filter_empty_conv)
    with Nil show ?thesis by (simp add: list_db_def)
  next
    case (Cons e es)
    then have "e \<in> set (filter (\<lambda>e. cmp k (fst e) = 0) d)" by simp
    then have "e \<in> set d \<and> cmp k (fst e) = 0" by simp
    with Cons list_db_get[OF Cons] show ?thesis by (auto simp: list_db_def)
  qed
qed (simp_all add: list_db_def)

section \<open>The identifiers of the sequence\<close>

lemma draw_Suc: "draw (Suc n) i = (let x = (if i = 0 then 1 else i) in (x # fst (draw n (x + 1)), snd (draw n (x + 1))))"
  by (simp add: IdSequence_next_def split_beta Let_def)

lemma unat_minus_1_max: "unat (- 1 :: u64) = 2 ^ 64 - 1"
  by (simp add: unsigned_minus_1_eq_mask mask_eq_exp_minus_1)

lemma unat_next:
  assumes "x \<noteq> (0 :: u64)" and y: "y = (if x + 1 = 0 then 1 else x + 1)"
  shows "unat y - 1 = (unat x - 1 + 1) mod (2 ^ 64 - 1)"
proof (cases "x + 1 = 0")
  case True
  then have "x = - 1" by (metis add_eq_0_iff2)
  then have "unat x - 1 + 1 = 2 ^ 64 - 1" by (simp add: unat_minus_1_max)
  moreover have "unat y - 1 = 0" using True y by simp
  ultimately show ?thesis by (simp only: mod_self)
next
  case False
  have "unat x \<noteq> 2 ^ 64 - 1"
    using False unat_minus_1_max by (metis add.left_inverse word_unat_eq_iff add.commute)
  moreover have "unat x < 2 ^ LENGTH(64)" by (rule unsigned_less)
  ultimately have lt: "unat x < 2 ^ 64 - 1" by simp
  have "unat (x + 1) = unat x + 1" using lt by (simp add: unat_word_ariths)
  moreover have "0 < unat x" using assms(1) by (simp add: unat_gt_0)
  ultimately show ?thesis using False y lt by simp
qed

lemma draw_nth:
  "j < n \<Longrightarrow> fst (draw n i) ! j \<noteq> 0 \<and>
     unat (fst (draw n i) ! j) - 1 = (unat (if i = 0 then 1 else i) - 1 + j) mod (2 ^ 64 - 1)"
proof (induction n arbitrary: i j)
  case (Suc n)
  define x where "x = (if i = 0 then 1 else i)"
  have x0: "x \<noteq> 0" by (simp add: x_def)
  have d: "fst (draw (Suc n) i) = x # fst (draw n (x + 1))" by (simp add: draw_Suc x_def Let_def del: draw.simps(2))
  show ?case
  proof (cases j)
    case 0
    have "unat x < 2 ^ LENGTH(64)" by (rule unsigned_less)
    then have "unat x - 1 < 2 ^ 64 - 1" using x0 by (simp add: less_diff_conv2 unat_gt_0 Suc_leI)
    then show ?thesis by (simp only: d 0 nth_Cons_0 x_def[symmetric] add_0_right mod_less x0) simp
  next
    case (Suc m)
    let ?y = "if x + 1 = 0 then 1 else x + 1"
    have IH: "fst (draw n (x + 1)) ! m \<noteq> 0"
      "unat (fst (draw n (x + 1)) ! m) - 1 = (unat ?y - 1 + m) mod (2 ^ 64 - 1)"
      using Suc.IH[of m "x + 1"] Suc.prems Suc by auto
    have "(unat ?y - 1 + m) mod (2 ^ 64 - 1) = (unat x - 1 + j) mod (2 ^ 64 - 1)"
      by (subst unat_next[OF x0 refl]) (simp only: mod_add_left_eq Suc, simp only: add.assoc plus_1_eq_Suc add_Suc_right add_Suc add_0)
    with IH show ?thesis by (simp only: d Suc nth_Cons_Suc x_def[symmetric]) simp
  qed
qed simp

lemma length_draw: "length (fst (draw n i)) = n"
  by (induction n arbitrary: i) (simp_all add: draw_Suc Let_def del: draw.simps(2))

lemma mod_shift_inj:
  assumes "a < (N :: nat)" and "b < N" and "(c + a) mod N = (c + b) mod N"
  shows "a = b"
proof -
  have le: "x \<ge> y" if "x < N" "y < N" "(c + x) mod N = (c + y) mod N" for x y
  proof (rule ccontr)
    assume "\<not> y \<le> x"
    then have "N dvd (c + y) - (c + x)" using that mod_eq_dvd_iff_nat[of "c + x" "c + y" N] by simp
    then have "N dvd y - x" by simp
    with \<open>\<not> y \<le> x\<close> have "N \<le> y - x" by (simp add: dvd_imp_le)
    with that show False by linarith
  qed
  show ?thesis using le[OF assms] le[OF assms(2,1) assms(3)[symmetric]] by simp
qed

text \<open>A sequence never hands out 0, and from any starting point the next \<open>2\<^sup>6\<^sup>4 - 1\<close>
  identifiers are distinct, the wrap-around included.\<close>

theorem IdSequence_distinct:
  assumes "n \<le> 2 ^ 64 - 1"
  shows "distinct (fst (draw n i)) \<and> 0 \<notin> set (fst (draw n i))"
proof
  show "0 \<notin> set (fst (draw n i))"
    using draw_nth[of _ n i] by (auto simp: in_set_conv_nth length_draw)
  show "distinct (fst (draw n i))"
  proof (subst distinct_conv_nth, intro allI impI)
    fix a b
    assume ab: "a < length (fst (draw n i))" "b < length (fst (draw n i))" "a \<noteq> b"
    let ?c = "unat (if i = 0 then 1 else i) - 1" and ?N = "2 ^ 64 - 1 :: nat"
    have "a < ?N" "b < ?N" using ab assms by (simp_all add: length_draw)
    then have "(?c + a) mod ?N \<noteq> (?c + b) mod ?N"
      using ab(3) mod_shift_inj by blast
    then show "fst (draw n i) ! a \<noteq> fst (draw n i) ! b"
      using draw_nth[of a n i] draw_nth[of b n i] ab by (metis length_draw)
  qed
qed

theorem IdSequence_distinct_witness:
  "distinct (fst (draw 3 (- 2))) \<and> 0 \<notin> set (fst (draw 3 (- 2))) \<and> fst (draw 3 (- 2)) = [- 2, - 1, 1]"
  using IdSequence_distinct[of 3 "- 2"] by (simp add: numeral_3_eq_3 draw_Suc Let_def del: draw.simps(2))

end
