(* ===== verification/Jerrno.thy ===== *)
theory Jerrno
  imports Prelude
begin

text \<open>
  \<^verbatim>\<open>lib/jrnl/jerrno.cpp\<close>, \<^verbatim>\<open>lib/jrnl/jexception.cpp\<close> and \<^verbatim>\<open>lib/jrnl/time_ns.hpp\<close>: the error
  numbers of the journal and their texts, the exception that carries one, and the
  arithmetic of nanosecond time stamps.
\<close>

section \<open>Hexadecimal output\<close>

text \<open>\<^verbatim>\<open>std::hex\<close> and \<^verbatim>\<open>std::setfill('0') << std::setw(n)\<close>.\<close>

definition hex_digit :: "nat \<Rightarrow> char" where
  "hex_digit d = char_of (if d < 10 then 48 + d else 87 + d)"

fun hex_string :: "nat \<Rightarrow> string" where
  "hex_string n = (if n < 16 then [hex_digit n] else hex_string (n div 16) @ [hex_digit (n mod 16)])"

declare hex_string.simps [simp del]

definition pad0 :: "nat \<Rightarrow> string \<Rightarrow> string" where
  "pad0 w s = replicate (w - length s) CHR ''0'' @ s"

section \<open>Error numbers\<close>

text \<open>The constants of \<^verbatim>\<open>jerrno\<close> with their names, their values and the text that
  \<^verbatim>\<open>__init\<close> gives to each, in the order of its assignments.\<close>

definition jerr_table :: "(string \<times> u32 \<times> string) list" where
  "jerr_table = [(''JERR__MALLOC'', 0x0100,
        ''JERR__MALLOC: Buffer memory allocation failed.''),
     (''JERR__UNDERFLOW'', 0x0101,
        ''JERR__UNDERFLOW: Underflow error''),
     (''JERR__NINIT'', 0x0102,
        ''JERR__NINIT: Operation on uninitialized class.''),
     (''JERR__AIO'', 0x0103,
        ''JERR__AIO: AIO error.''),
     (''JERR__FILEIO'', 0x0104,
        ''JERR__FILEIO: File read or write failure.''),
     (''JERR__RTCLOCK'', 0x0105,
        ''JERR__RTCLOCK: Reading real-time clock failed.''),
     (''JERR__PTHREAD'', 0x0106,
        ''JERR__PTHREAD: pthread failure.''),
     (''JERR__TIMEOUT'', 0x0107,
        ''JERR__TIMEOUT: Timeout waiting for event.''),
     (''JERR__UNEXPRESPONSE'', 0x0108,
        ''JERR__UNEXPRESPONSE: Unexpected response to call or event.''),
     (''JERR__RECNFOUND'', 0x0109,
        ''JERR__RECNFOUND: Record not found.''),
     (''JERR__NOTIMPL'', 0x010a,
        ''JERR__NOTIMPL: Not implemented''),
     (''JERR_JCNTL_STOPPED'', 0x0200,
        ''JERR_JCNTL_STOPPED: Operation on stopped journal.''),
     (''JERR_JCNTL_READONLY'', 0x0201,
        ''JERR_JCNTL_READONLY: Write operation on read-only journal (during recovery).''),
     (''JERR_JCNTL_AIOCMPLWAIT'', 0x0202,
        ''JERR_JCNTL_AIOCMPLWAIT: Timeout waiting for AIOs to complete.''),
     (''JERR_JCNTL_UNKNOWNMAGIC'', 0x0203,
        ''JERR_JCNTL_UNKNOWNMAGIC: Found record with unknown magic.''),
     (''JERR_JCNTL_NOTRECOVERED'', 0x0204,
        ''JERR_JCNTL_NOTRECOVERED: Operation requires recover() to be run first.''),
     (''JERR_JCNTL_RECOVERJFULL'', 0x0205,
        ''JERR_JCNTL_RECOVERJFULL: Journal data files full, cannot write.''),
     (''JERR_JCNTL_OWIMISMATCH'', 0x0206,
        ''JERR_JCNTL_OWIMISMATCH: Overwrite Indicator (OWI) change found in unexpected location.''),
     (''JERR_JDIR_NOTDIR'', 0x0300,
        ''JERR_JDIR_NOTDIR: Directory name exists but is not a directory.''),
     (''JERR_JDIR_MKDIR'', 0x0301,
        ''JERR_JDIR_MKDIR: Directory creation failed.''),
     (''JERR_JDIR_OPENDIR'', 0x0302,
        ''JERR_JDIR_OPENDIR: Directory open failed.''),
     (''JERR_JDIR_READDIR'', 0x0303,
        ''JERR_JDIR_READDIR: Directory read failed.''),
     (''JERR_JDIR_CLOSEDIR'', 0x0304,
        ''JERR_JDIR_CLOSEDIR: Directory close failed.''),
     (''JERR_JDIR_RMDIR'', 0x0305,
        ''JERR_JDIR_RMDIR: Directory delete failed.''),
     (''JERR_JDIR_NOSUCHFILE'', 0x0306,
        ''JERR_JDIR_NOSUCHFILE: File does not exist.''),
     (''JERR_JDIR_FMOVE'', 0x0307,
        ''JERR_JDIR_FMOVE: File move failed.''),
     (''JERR_JDIR_STAT'', 0x0308,
        ''JERR_JDIR_STAT: File stat failed.''),
     (''JERR_JDIR_UNLINK'', 0x0309,
        ''JERR_JDIR_UNLINK: File delete failed.''),
     (''JERR_JDIR_BADFTYPE'', 0x030a,
        ''JERR_JDIR_BADFTYPE: Bad or unknown file type (stat mode).''),
     (''JERR_FCNTL_OPENWR'', 0x0400,
        ''JERR_FCNTL_OPENWR: Unable to open file for write.''),
     (''JERR_FCNTL_WRITE'', 0x0401,
        ''JERR_FCNTL_WRITE: Unable to write to file.''),
     (''JERR_FCNTL_CLOSE'', 0x0402,
        ''JERR_FCNTL_CLOSE: File close failed.''),
     (''JERR_FCNTL_FILEOFFSOVFL'', 0x0403,
        ''JERR_FCNTL_FILEOFFSOVFL: Attempted increase file offset past file size.''),
     (''JERR_FCNTL_CMPLOFFSOVFL'', 0x0404,
        ''JERR_FCNTL_CMPLOFFSOVFL: Attempted increase completed file offset past submitted offset.''),
     (''JERR_FCNTL_RDOFFSOVFL'', 0x0405,
        ''JERR_FCNTL_RDOFFSOVFL: Attempted increase read offset past write offset.''),
     (''JERR_LFMGR_BADAEFNUMLIM'', 0x0500,
        ''JERR_LFMGR_BADAEFNUMLIM: Auto-expand file number limit lower than initial number of journal files.''),
     (''JERR_LFMGR_AEFNUMLIMIT'', 0x0501,
        ''JERR_LFMGR_AEFNUMLIMIT: Exceeded auto-expand file number limit.''),
     (''JERR_LFMGR_AEDISABLED'', 0x0502,
        ''JERR_LFMGR_AEDISABLED: Attempted to expand with auto-expand disabled.''),
     (''JERR_RRFC_OPENRD'', 0x0600,
        ''JERR_RRFC_OPENRD: Unable to open file for read.''),
     (''JERR_JREC_BADRECHDR'', 0x0700,
        ''JERR_JREC_BADRECHDR: Invalid data record header.''),
     (''JERR_JREC_BADRECTAIL'', 0x0701,
        ''JERR_JREC_BADRECTAIL: Invalid data record tail.''),
     (''JERR_WMGR_BADPGSTATE'', 0x0801,
        ''JERR_WMGR_BADPGSTATE: Page buffer in illegal state for operation.''),
     (''JERR_WMGR_BADDTOKSTATE'', 0x0802,
        ''JERR_WMGR_BADDTOKSTATE: Data token in illegal state for operation.''),
     (''JERR_WMGR_ENQDISCONT'', 0x0803,
        ''JERR_WMGR_ENQDISCONT: Enqueued new dtok when previous enqueue returned partly completed (state ENQ_PART).''),
     (''JERR_WMGR_DEQDISCONT'', 0x0804,
        ''JERR_WMGR_DEQDISCONT: Dequeued new dtok when previous dequeue returned partly completed (state DEQ_PART).''),
     (''JERR_WMGR_DEQRIDNOTENQ'', 0x0805,
        ''JERR_WMGR_DEQRIDNOTENQ: Dequeue rid is not enqueued.''),
     (''JERR_RMGR_UNKNOWNMAGIC'', 0x0900,
        ''JERR_RMGR_UNKNOWNMAGIC: Found record with unknown magic.''),
     (''JERR_RMGR_RIDMISMATCH'', 0x0901,
        ''JERR_RMGR_RIDMISMATCH: RID mismatch between current record and dtok RID''),
     (''JERR_RMGR_ENQSTATE'', 0x0903,
        ''JERR_RMGR_ENQSTATE: Attempted read when data token wstate was not ENQ''),
     (''JERR_RMGR_BADRECTYPE'', 0x0904,
        ''JERR_RMGR_BADRECTYPE: Attempted operation on inappropriate record type''),
     (''JERR_DTOK_ILLEGALSTATE'', 0x0a00,
        ''JERR_MTOK_ILLEGALSTATE: Attempted to change to illegal state.''),
     (''JERR_MAP_DUPLICATE'', 0x0b00,
        ''JERR_MAP_DUPLICATE: Attempted to insert record into map using duplicate key.''),
     (''JERR_MAP_NOTFOUND'', 0x0b01,
        ''JERR_MAP_NOTFOUND: Key not found in map.''),
     (''JERR_MAP_LOCKED'', 0x0b02,
        ''JERR_MAP_LOCKED: Record ID locked by a pending transaction.''),
     (''JERR_JINF_CVALIDFAIL'', 0x0c00,
        ''JERR_JINF_CVALIDFAIL: Journal compatibility validation failure.''),
     (''JERR_JINF_NOVALUESTR'', 0x0c01,
        ''JERR_JINF_NOVALUESTR: No value attribute found in jinf file.''),
     (''JERR_JINF_BADVALUESTR'', 0x0c02,
        ''JERR_JINF_BADVALUESTR: Bad format for value attribute in jinf file''),
     (''JERR_JINF_JDATEMPTY'', 0x0c03,
        ''JERR_JINF_JDATEMPTY: Journal data files empty.''),
     (''JERR_JINF_TOOMANYFILES'', 0x0c04,
        ''JERR_JINF_TOOMANYFILES: Too many journal data files.''),
     (''JERR_JINF_INVALIDFHDR'', 0x0c05,
        ''JERR_JINF_INVALIDFHDR: Invalid journal data file header''),
     (''JERR_JINF_STAT'', 0x0c06,
        ''JERR_JINF_STAT: Error while trying to stat a journal data file''),
     (''JERR_JINF_NOTREGFILE'', 0x0c07,
        ''JERR_JINF_NOTREGFILE: Target journal data file is not a regular file''),
     (''JERR_JINF_BADFILESIZE'', 0x0c08,
        ''JERR_JINF_BADFILESIZE: Journal data file is of incorrect or unexpected size''),
     (''JERR_JINF_OWIBAD'', 0x0c09,
        ''JERR_JINF_OWIBAD: Journal data files have inconsistent OWI flags; >1 transition found in non-auto-expand or min-size journal'')]"

text \<open>\<^verbatim>\<open>_err_map\<close> after the static initialisation.\<close>

definition err_map :: "(u32, string) smap" where
  "err_map = fold (\<lambda>(name, code, txt) m. smap_assign code txt m) jerr_table []"

definition err_msg :: "u32 \<Rightarrow> string" where
  "err_msg err_no = (case map_of err_map err_no of None \<Rightarrow> ''<Unknown error code>'' | Some txt \<Rightarrow> txt)"

definition JERR__NOTIMPL :: u32 where "JERR__NOTIMPL = 0x010a"
definition JERR_JDIR_NOTDIR :: u32 where "JERR_JDIR_NOTDIR = 0x0300"
definition JERR_JDIR_MKDIR :: u32 where "JERR_JDIR_MKDIR = 0x0301"
definition JERR_JDIR_OPENDIR :: u32 where "JERR_JDIR_OPENDIR = 0x0302"
definition JERR_JDIR_CLOSEDIR :: u32 where "JERR_JDIR_CLOSEDIR = 0x0304"
definition JERR_JDIR_RMDIR :: u32 where "JERR_JDIR_RMDIR = 0x0305"
definition JERR_JDIR_NOSUCHFILE :: u32 where "JERR_JDIR_NOSUCHFILE = 0x0306"
definition JERR_JDIR_FMOVE :: u32 where "JERR_JDIR_FMOVE = 0x0307"
definition JERR_JDIR_STAT :: u32 where "JERR_JDIR_STAT = 0x0308"
definition JERR_JDIR_UNLINK :: u32 where "JERR_JDIR_UNLINK = 0x0309"
definition JERR_JDIR_BADFTYPE :: u32 where "JERR_JDIR_BADFTYPE = 0x030a"

lemmas jerr_defs = JERR__NOTIMPL_def JERR_JDIR_NOTDIR_def JERR_JDIR_MKDIR_def JERR_JDIR_OPENDIR_def
  JERR_JDIR_CLOSEDIR_def JERR_JDIR_RMDIR_def JERR_JDIR_NOSUCHFILE_def JERR_JDIR_FMOVE_def
  JERR_JDIR_STAT_def JERR_JDIR_UNLINK_def JERR_JDIR_BADFTYPE_def

section \<open>The exception\<close>

text \<open>The constructors of \<^verbatim>\<open>jexception\<close>: the fields a constructor does not take stay empty.\<close>

definition jexception_new :: exn where
  "jexception_new = JException 0 [] [] []"

definition jexception_code :: "u32 \<Rightarrow> exn" where
  "jexception_code err_code = JException err_code [] [] []"

definition jexception_info :: "string \<Rightarrow> exn" where
  "jexception_info additional_info = JException 0 additional_info [] []"

definition jexception_code_info :: "u32 \<Rightarrow> string \<Rightarrow> exn" where
  "jexception_code_info err_code additional_info = JException err_code additional_info [] []"

definition jexception_in :: "u32 \<Rightarrow> string \<Rightarrow> string \<Rightarrow> exn" where
  "jexception_in err_code throwing_class throwing_fn = JException err_code [] throwing_class throwing_fn"

definition jexception_full :: "u32 \<Rightarrow> string \<Rightarrow> string \<Rightarrow> string \<Rightarrow> exn" where
  "jexception_full err_code additional_info throwing_class throwing_fn =
     JException err_code additional_info throwing_class throwing_fn"

lemmas jexception_defs = jexception_new_def jexception_code_def jexception_info_def
  jexception_code_info_def jexception_in_def jexception_full_def

definition format :: "u32 \<Rightarrow> string \<Rightarrow> string \<Rightarrow> string \<Rightarrow> string" where
  "format err_code additional_info throwing_class throwing_fn =
     (let ai = additional_info \<noteq> []; tc = throwing_class \<noteq> []; tf = throwing_fn \<noteq> []
      in ''jexception 0x'' @ pad0 4 (hex_string (unat err_code)) @ '' '' @
         (if tc then throwing_class @ (if tf then ''::'' else '' '') else []) @
         (if tf then throwing_fn @ ''() '' else []) @
         (if tc \<or> tf then ''threw '' @ err_msg err_code else []) @
         (if ai then '' ('' @ additional_info @ '')'' else []))"

text \<open>\<^verbatim>\<open>what()\<close> of the exceptions the code catches by type.\<close>

definition jexception_what :: "exn \<Rightarrow> string" where
  "jexception_what e =
     (case e of JException n i c f \<Rightarrow> format n i c f | StoreException s \<Rightarrow> s | QpidException s \<Rightarrow> s | _ \<Rightarrow> [])"

section \<open>Time stamps\<close>

text \<open>\<^verbatim>\<open>time_t\<close> and \<^verbatim>\<open>long\<close> are signed: an overflow is undefined behaviour, so the model has
  integers.\<close>

record time_ns =
  tv_sec :: int
  tv_nsec :: int

definition time_new :: "int \<Rightarrow> int \<Rightarrow> time_ns" where
  "time_new sec nsec = \<lparr>tv_sec = sec, tv_nsec = nsec\<rparr>"

definition set_zero :: "time_ns \<Rightarrow> time_ns" where
  "set_zero t = t\<lparr>tv_sec := 0, tv_nsec := 0\<rparr>"

definition is_zero :: "time_ns \<Rightarrow> bool" where
  "is_zero t = (tv_sec t = 0 \<and> tv_nsec t = 0)"

definition time_add :: "time_ns \<Rightarrow> time_ns \<Rightarrow> time_ns" where
  "time_add t rhs =
     (let n = tv_nsec t + tv_nsec rhs;
          t' = (if n \<ge> 1000000000 then t\<lparr>tv_sec := tv_sec t + 1, tv_nsec := n - 1000000000\<rparr> else t\<lparr>tv_nsec := n\<rparr>)
      in t'\<lparr>tv_sec := tv_sec t' + tv_sec rhs\<rparr>)"

definition time_add_ns :: "time_ns \<Rightarrow> int \<Rightarrow> time_ns" where
  "time_add_ns t ns =
     (let n = tv_nsec t + ns
      in if n \<ge> 1000000000 then t\<lparr>tv_sec := tv_sec t + 1, tv_nsec := n - 1000000000\<rparr> else t\<lparr>tv_nsec := n\<rparr>)"

definition time_sub_ns :: "time_ns \<Rightarrow> int \<Rightarrow> time_ns" where
  "time_sub_ns t ns =
     (let n = tv_nsec t - ns
      in if n < 0 then t\<lparr>tv_sec := tv_sec t - 1, tv_nsec := n + 1000000000\<rparr> else t\<lparr>tv_nsec := n\<rparr>)"

definition time_sub :: "time_ns \<Rightarrow> time_ns \<Rightarrow> time_ns" where
  "time_sub t rhs =
     (let n = tv_nsec t - tv_nsec rhs;
          t' = (if n < 0 then t\<lparr>tv_sec := tv_sec t - 1, tv_nsec := n + 1000000000\<rparr> else t\<lparr>tv_nsec := n\<rparr>)
      in t'\<lparr>tv_sec := tv_sec t' - tv_sec rhs\<rparr>)"

definition time_less :: "time_ns \<Rightarrow> time_ns \<Rightarrow> bool" where
  "time_less t rhs = (if tv_sec t = tv_sec rhs then tv_nsec t < tv_nsec rhs else tv_sec t < tv_sec rhs)"

definition time_le :: "time_ns \<Rightarrow> time_ns \<Rightarrow> bool" where
  "time_le t rhs = (if tv_sec t = tv_sec rhs then tv_nsec t \<le> tv_nsec rhs else tv_sec t \<le> tv_sec rhs)"

definition time_greater :: "time_ns \<Rightarrow> time_ns \<Rightarrow> bool" where
  "time_greater t rhs = (if tv_sec t = tv_sec rhs then tv_nsec t > tv_nsec rhs else tv_sec t > tv_sec rhs)"

definition time_ge :: "time_ns \<Rightarrow> time_ns \<Rightarrow> bool" where
  "time_ge t rhs = (if tv_sec t = tv_sec rhs then tv_nsec t \<ge> tv_nsec rhs else tv_sec t \<ge> tv_sec rhs)"

definition time_eq :: "time_ns \<Rightarrow> time_ns \<Rightarrow> bool" where
  "time_eq t rhs = (tv_sec t = tv_sec rhs \<and> tv_nsec t = tv_nsec rhs)"

definition time_neq :: "time_ns \<Rightarrow> time_ns \<Rightarrow> bool" where
  "time_neq t rhs = (tv_sec t \<noteq> tv_sec rhs \<or> tv_nsec t \<noteq> tv_nsec rhs)"

section \<open>What the operations mean\<close>

definition total_ns :: "time_ns \<Rightarrow> int" where
  "total_ns t = tv_sec t * 1000000000 + tv_nsec t"

definition normal :: "time_ns \<Rightarrow> bool" where
  "normal t \<longleftrightarrow> 0 \<le> tv_nsec t \<and> tv_nsec t < 1000000000"

lemmas time_defs = time_add_def time_add_ns_def time_sub_ns_def time_sub_def time_less_def time_le_def
  time_greater_def time_ge_def time_eq_def time_neq_def total_ns_def normal_def Let_def

lemma total_ns_eq:
  assumes "normal s" and "normal t" and "total_ns s = total_ns t"
  shows "tv_sec s = tv_sec t \<and> tv_nsec s = tv_nsec t"
proof -
  have "tv_sec s = total_ns s div 1000000000" "tv_sec t = total_ns t div 1000000000"
    using assms(1,2) by (simp_all add: total_ns_def normal_def)
  then have "tv_sec s = tv_sec t" using assms(3) by simp
  with assms(3) show ?thesis by (simp add: total_ns_def)
qed

text \<open>On normalised time stamps the operators are arithmetic on the number of nanoseconds,
  they keep the time stamps normalised, and the comparisons are those of that number.\<close>

theorem time_ns_is_nanoseconds:
  assumes "normal s" and "normal t"
  shows "normal (time_add s t) \<and> total_ns (time_add s t) = total_ns s + total_ns t \<and>
    normal (time_sub s t) \<and> total_ns (time_sub s t) = total_ns s - total_ns t \<and>
    (time_less s t \<longleftrightarrow> total_ns s < total_ns t) \<and> (time_le s t \<longleftrightarrow> total_ns s \<le> total_ns t) \<and>
    (time_greater s t \<longleftrightarrow> time_less t s) \<and> (time_ge s t \<longleftrightarrow> time_le t s) \<and>
    (time_eq s t \<longleftrightarrow> total_ns s = total_ns t) \<and> (time_neq s t \<longleftrightarrow> \<not> time_eq s t)"
proof -
  have "time_eq s t \<longleftrightarrow> total_ns s = total_ns t"
    using total_ns_eq[OF assms] by (auto simp: time_eq_def total_ns_def)
  moreover have "normal (time_add s t) \<and> total_ns (time_add s t) = total_ns s + total_ns t"
    "normal (time_sub s t) \<and> total_ns (time_sub s t) = total_ns s - total_ns t"
    using assms by (simp_all add: time_defs)
  moreover have "time_less s t \<longleftrightarrow> total_ns s < total_ns t" "time_le s t \<longleftrightarrow> total_ns s \<le> total_ns t"
    using assms by (simp_all add: time_defs) linarith+
  moreover have "time_greater s t \<longleftrightarrow> time_less t s" "time_ge s t \<longleftrightarrow> time_le t s" "time_neq s t \<longleftrightarrow> \<not> time_eq s t"
    by (simp_all add: time_greater_def time_less_def time_ge_def time_le_def time_neq_def time_eq_def)
  ultimately show ?thesis by simp
qed

theorem time_ns_is_nanoseconds_witness:
  "total_ns (time_add (time_new 1 999999999) (time_new 2 2)) = 4000000001 \<and>
   total_ns (time_sub (time_new 3 1) (time_new 1 2)) = 1999999999"
  using time_ns_is_nanoseconds[of "time_new 1 999999999" "time_new 2 2"]
    time_ns_is_nanoseconds[of "time_new 3 1" "time_new 1 2"]
  by (simp add: normal_def total_ns_def time_new_def)

section \<open>The texts\<close>

lemma fold_assign_sorted:
  "sorted_wrt (<) (map fst m @ map (fst \<circ> snd) xs) \<Longrightarrow> fold (\<lambda>(n, c, t) m. smap_assign c t m) xs m = m @ map snd xs"
proof (induction xs arbitrary: m)
  case (Cons x xs)
  obtain n c t where x: "x = (n, c, t)" by (cases x)
  have "smap_assign c t m = m @ [(c, t)]" if "\<forall>a \<in> fst ` set m. a < c" for m :: "('a \<times> 'b) list"
    using that by (induction m) auto
  then have "smap_assign c t m = m @ [(c, t)]" using Cons.prems x by (auto simp: sorted_wrt_append)
  then show ?case using Cons.IH[of "m @ [(c, t)]"] Cons.prems x by simp
qed simp

lemma jerr_table_sorted: "sorted_wrt (<) (map (fst \<circ> snd) jerr_table)"
  by (simp add: jerr_table_def)

lemma err_map_table: "err_map = map snd jerr_table"
  using fold_assign_sorted[of "[]" jerr_table] jerr_table_sorted by (simp add: err_map_def)

lemma err_msg_table: "(name, c, txt) \<in> set jerr_table \<Longrightarrow> err_msg c = txt"
proof -
  assume "(name, c, txt) \<in> set jerr_table"
  moreover have "distinct (map fst (map snd jerr_table))"
    using jerr_table_sorted by (simp add: strict_sorted_iff)
  ultimately have "map_of err_map c = Some txt"
    by (force simp: err_map_table intro!: map_of_is_SomeI)
  then show ?thesis by (simp add: err_msg_def)
qed

text \<open>The error numbers are distinct, every one has its text, and the text starts with the
  name of the constant; the only exception is \<^verbatim>\<open>JERR_DTOK_ILLEGALSTATE\<close>, whose text names
  another constant.\<close>

theorem err_msg_names_the_code:
  "distinct (map (fst \<circ> snd) jerr_table) \<and>
   map (\<lambda>(name, c, _). (name, c)) (filter (\<lambda>(name, c, _). take (length name + 1) (err_msg c) \<noteq> name @ '':'') jerr_table) =
     [(''JERR_DTOK_ILLEGALSTATE'', 0x0a00)] \<and>
   err_msg 0x0a00 = ''JERR_MTOK_ILLEGALSTATE: Attempted to change to illegal state.''"
proof (intro conjI)
  show "distinct (map (fst \<circ> snd) jerr_table)" using jerr_table_sorted by (simp add: strict_sorted_iff)
  have "filter (\<lambda>(name, c, _). take (length name + 1) (err_msg c) \<noteq> name @ '':'') jerr_table =
      filter (\<lambda>(name, c, txt). take (length name + 1) txt \<noteq> name @ '':'') jerr_table"
    by (rule filter_cong) (auto dest: err_msg_table)
  also have "\<dots> = [(''JERR_DTOK_ILLEGALSTATE'', 0x0a00, ''JERR_MTOK_ILLEGALSTATE: Attempted to change to illegal state.'')]"
    by (simp add: jerr_table_def)
  finally show "map (\<lambda>(name, c, _). (name, c)) (filter (\<lambda>(name, c, _). take (length name + 1) (err_msg c) \<noteq> name @ '':'') jerr_table) =
     [(''JERR_DTOK_ILLEGALSTATE'', 0x0a00)]" by simp
  show "err_msg 0x0a00 = ''JERR_MTOK_ILLEGALSTATE: Attempted to change to illegal state.''"
    by (rule err_msg_table[of "''JERR_DTOK_ILLEGALSTATE''"]) (simp add: jerr_table_def)
qed

end
