(* ===== verification/Journal.thy ===== *)
theory Journal
  imports BdbApi Jerrno
begin

text \<open>
  \<^verbatim>\<open>lib/JournalImpl.h\<close> and \<^verbatim>\<open>lib/JournalImpl.cpp\<close>: the message store of one queue, spread by
  message id over \<^verbatim>\<open>num_jfiles\<close> Berkeley databases; and the completion half of
  \<^verbatim>\<open>lib/TxnCtxt.cpp\<close>, which calls the journal back. Logging, the management object's
  attributes and its events are not modelled (only whether the object exists).
\<close>

section \<open>State\<close>

record 'db journal =
  writeActivityFlag :: bool
  flushTriggeredFlag :: bool
  is_init :: bool
  journalName :: string
  queuePid :: u64
  journalDirectory :: string
  bdbDir :: string
  num_jfiles :: int
  create_bdb :: bool
  mgmtObject :: bool
  transientList :: "u64 list"
  acceptedList :: "u64 list"
  messageDbs :: "'db option list"

text \<open>The initializer list sets the member \<^verbatim>\<open>create_bdb\<close> to \<^verbatim>\<open>true\<close>, whatever the argument of
  the same name; a negative file count makes \<^verbatim>\<open>std::vector\<close> throw.\<close>

definition JournalImpl ::
    "string \<Rightarrow> u64 \<Rightarrow> string \<Rightarrow> string \<Rightarrow> int \<Rightarrow> bool \<Rightarrow> bool \<Rightarrow> exn + 'db journal" where
  "JournalImpl journalId qpid jdir bdir n create agent =
     (if n < 0 then Inl BadAlloc
      else let J = \<lparr>writeActivityFlag = False, flushTriggeredFlag = True, is_init = False,
                    journalName = journalId, queuePid = qpid, journalDirectory = jdir, bdbDir = bdir,
                    num_jfiles = n, create_bdb = True, mgmtObject = agent,
                    transientList = [], acceptedList = [], messageDbs = replicate (nat n) None\<rparr>
           in Inr (if \<not> create then J\<lparr>num_jfiles := 0, messageDbs := []\<rparr> else J))"

definition JournalImpl_destroy :: "'db journal \<Rightarrow> 'db journal" where
  "JournalImpl_destroy J = J\<lparr>mgmtObject := False, messageDbs := []\<rparr>"

definition getJournalDirPath :: "'db journal \<Rightarrow> string" where
  "getJournalDirPath J = bdbDir J @ journalDirectory J"

definition pad3 :: "string \<Rightarrow> string" where
  "pad3 s = replicate (3 - length s) CHR ''0'' @ s"

definition getSubDbName :: "'db journal \<Rightarrow> nat \<Rightarrow> string" where
  "getSubDbName J sid = journalName J @ ''_s'' @ pad3 (nat_string sid) @ ''.db''"

definition getSubDbPath :: "'db journal \<Rightarrow> nat \<Rightarrow> string" where
  "getSubDbPath J sid = journalDirectory J @ getSubDbName J sid"

text \<open>Closes and removes the databases that are open; the paths given to \<^verbatim>\<open>DbEnv::dbremove\<close>
  and the directory then given to \<^verbatim>\<open>jdir::delete_dir\<close> are returned with the new state.\<close>

definition delete_jrnl_files :: "'db journal \<Rightarrow> 'db journal \<times> string list \<times> string" where
  "delete_jrnl_files J =
     (J\<lparr>messageDbs := map (\<lambda>_. None) (messageDbs J)\<rparr>,
      map (getSubDbPath J) (filter (\<lambda>k. messageDbs J ! k \<noteq> None) [0..<length (messageDbs J)]),
      getJournalDirPath J)"

section \<open>Opening the databases\<close>

fun open_dbs :: "'db dbapi \<Rightarrow> string list \<Rightarrow> exn + 'db option list" where
  "open_dbs api [] = Inr []"
| "open_dbs api (p # ps) =
     (case in_txn api (api_open api p) of
        Inl e \<Rightarrow> Inl e
      | Inr d \<Rightarrow> (case open_dbs api ps of Inl e \<Rightarrow> Inl e | Inr ds \<Rightarrow> Inr (Some d # ds)))"

definition init_message_db :: "'db dbapi \<Rightarrow> 'db journal \<Rightarrow> exn + 'db journal" where
  "init_message_db api J =
     (if \<not> is_init J
      then (case open_dbs api (map (getSubDbPath J) [0..<nat (num_jfiles J)]) of
              Inl e \<Rightarrow> Inl e
            | Inr ds \<Rightarrow> Inr (J\<lparr>messageDbs := ds, is_init := True\<rparr>))
      else Inr J)"

definition initialize :: "'db dbapi \<Rightarrow> 'db journal \<Rightarrow> exn + 'db journal" where
  "initialize api J = init_message_db api J"

text \<open>\<^verbatim>\<open>recover\<close> only logs: neither the journal nor \<^verbatim>\<open>highest_rid\<close> changes.\<close>

definition recover :: "u64 \<Rightarrow> u64 \<Rightarrow> 'db journal \<Rightarrow> u64 \<times> 'db journal" where
  "recover highest_rid queue_id J = (highest_rid, J)"

section \<open>Choosing the database of a message\<close>

text \<open>\<^verbatim>\<open>messageDbs[id % num_jfiles]\<close>, dereferenced.\<close>

definition sub_db :: "'db journal \<Rightarrow> u64 \<Rightarrow> exn + nat \<times> 'db" where
  "sub_db J pid =
     (if num_jfiles J = 0 then Inl (Fault DivisionByZero)
      else let k = unat (pid mod word_of_int (num_jfiles J))
           in if length (messageDbs J) \<le> k then Inl (Fault OutOfBounds)
              else case messageDbs J ! k of None \<Rightarrow> Inl (Fault NullPointer) | Some d \<Rightarrow> Inr (k, d))"

definition put_db :: "nat \<Rightarrow> 'db \<Rightarrow> 'db journal \<Rightarrow> 'db journal" where
  "put_db k d J = J\<lparr>messageDbs := (messageDbs J)[k := Some d]\<rparr>"

section \<open>Storing and removing\<close>

definition store_msg :: "'db dbapi \<Rightarrow> 'db \<Rightarrow> u64 \<Rightarrow> bytes \<Rightarrow> 'db journal \<Rightarrow> exn + bool \<times> 'db \<times> 'db journal" where
  "store_msg api db pid p J =
     (if \<not> create_bdb J then Inr (False, db, J)
      else let J' = J\<lparr>writeActivityFlag := True\<rparr>
           in case in_txn api (api_put api pid p db) of
                Inl e \<Rightarrow> Inl e
              | Inr (status, db') \<Rightarrow> Inr (if status = DbKeyExist then False else True, db', J'))"

definition remove_msg :: "'db dbapi \<Rightarrow> 'db \<Rightarrow> u64 \<Rightarrow> 'db journal \<Rightarrow> exn + 'db \<times> 'db journal" where
  "remove_msg api db pid J =
     (if \<not> create_bdb J then Inr (db, J)
      else let J' = J\<lparr>writeActivityFlag := True\<rparr>
           in case in_txn api (api_del api pid db) of
                Inl e \<Rightarrow> Inl e
              | Inr (resp, db') \<Rightarrow> Inr (db', J'))"

text \<open>\<^verbatim>\<open>catch (const DbException&)\<close> turns a database error into a store error.\<close>

definition as_store_error :: "string \<Rightarrow> exn \<Rightarrow> exn" where
  "as_store_error msg e = (case e of DbException n \<Rightarrow> StoreException msg | _ \<Rightarrow> e)"

definition enqueue_data :: "'db dbapi \<Rightarrow> bytes \<Rightarrow> u64 \<Rightarrow> 'db journal \<Rightarrow> exn + 'db journal" where
  "enqueue_data api data_buff pid J =
     (if \<not> create_bdb J then Inr J
      else case sub_db J pid of
             Inl e \<Rightarrow> Inl e
           | Inr (k, db) \<Rightarrow>
               (case store_msg api db pid data_buff J of
                  Inl e \<Rightarrow> Inl (as_store_error ''Error storing the message'' e)
                | Inr (_, db', J') \<Rightarrow> Inr (put_db k db' J')))"

definition dequeue_data :: "'db dbapi \<Rightarrow> u64 \<Rightarrow> 'db journal \<Rightarrow> exn + 'db journal" where
  "dequeue_data api pid J =
     (if \<not> create_bdb J then Inr J
      else case sub_db J pid of
             Inl e \<Rightarrow> Inl e
           | Inr (k, db) \<Rightarrow>
               (case remove_msg api db pid J of
                  Inl e \<Rightarrow> Inl (as_store_error ''Error removing the message'' e)
                | Inr (db', J') \<Rightarrow> Inr (put_db k db' J')))"

definition is_enqueued :: "'db dbapi \<Rightarrow> u64 \<Rightarrow> 'db journal \<Rightarrow> exn + bool" where
  "is_enqueued api rid J =
     (if \<not> create_bdb J then Inr False
      else case sub_db J rid of
             Inl e \<Rightarrow> Inl e
           | Inr (k, db) \<Rightarrow>
               (case api_exists api rid db of
                  Inl n \<Rightarrow> Inl (DbException n)
                | Inr st \<Rightarrow> Inr (if st \<noteq> DbNotFound then True else False)))"

section \<open>Loading a part of a message\<close>

text \<open>The header length is read with \<^verbatim>\<open>qpid::framing::Buffer::getLong\<close>, the parameter
  \<open>getLong\<close>. \<^verbatim>\<open>contentOffset\<close> and the subtraction of the sizes are 32-bit unsigned, the rest
  64-bit; \<^verbatim>\<open>append\<close> throws for a length no string can have, and a range that leaves the
  buffer is a fault.\<close>

definition slice :: "bytes \<Rightarrow> nat \<Rightarrow> nat \<Rightarrow> exn + bytes" where
  "slice bs off n =
     (if 2 ^ 63 \<le> n then Inl BadAlloc
      else if off + n \<le> length bs then Inr (take n (drop off bs)) else Inl (Fault OutOfBounds))"

definition loadMsgContent ::
    "'db dbapi \<Rightarrow> (bytes \<Rightarrow> u32) \<Rightarrow> u64 \<Rightarrow> bytes \<Rightarrow> u64 \<Rightarrow> u64 \<Rightarrow> 'db journal \<Rightarrow> exn + bool \<times> bytes" where
  "loadMsgContent api getLong rid data len offset J =
     (if \<not> create_bdb J then Inr (False, data)
      else case sub_db J rid of
        Inl e \<Rightarrow> Inl e
      | Inr (k, db) \<Rightarrow>
          (case api_get api rid db of
             Inl n \<Rightarrow> Inl (DbException n)
           | Inr (st, v) \<Rightarrow>
               (if st \<noteq> DbOk then Inr (False, data)
                else if length v < 5 then Inl (Fault OutOfBounds)
                else let headerSize = getLong (drop 1 v);
                         contentOffset = headerSize + 5 :: u32;
                         size = of_nat (length v) :: u32;
                         contentSize = ucast (size - contentOffset) :: u64
                     in if ucast contentOffset + offset + len > ucast size
                        then (case slice v (unat (ucast contentOffset + offset)) (unat (contentSize - offset)) of
                                Inl e \<Rightarrow> Inl e | Inr d \<Rightarrow> Inr (True, data @ d))
                        else (case slice v (unat (ucast contentOffset + offset)) (unat len) of
                                Inl e \<Rightarrow> Inl e | Inr d \<Rightarrow> Inr (True, data @ d)))))"

section \<open>Reading everything back\<close>

text \<open>The loop over the cursors in turn: \<open>cs\<close> what each cursor has still to deliver, \<open>fin\<close> the
  vector \<^verbatim>\<open>cursorsDone\<close>. It may run at most \<open>fuel\<close> times; \<open>round_robin_total\<close> below says
  how much is enough.\<close>

fun round_robin :: "nat \<Rightarrow> (u64 \<times> bytes) list list \<Rightarrow> bool list \<Rightarrow> nat \<Rightarrow> nat \<Rightarrow> (u64 \<times> bytes) list
    \<Rightarrow> (u64 \<times> bytes) list option" where
  "round_robin fuel cs fin sindex doneCnt recovered =
     (if doneCnt < length cs
      then (case fuel of
              0 \<Rightarrow> None
            | Suc fuel' \<Rightarrow>
                (let next = (sindex + 1) mod length cs
                 in if \<not> fin ! sindex
                    then (case Cursor_next (cs ! sindex) of
                            Some (r, c) \<Rightarrow> round_robin fuel' (cs[sindex := c]) fin next doneCnt (recovered @ [r])
                          | None \<Rightarrow> round_robin fuel' cs (fin[sindex := True]) next (doneCnt + 1) recovered)
                    else round_robin fuel' cs fin next doneCnt recovered))
      else Some recovered)"

declare round_robin.simps [simp del]

definition rr_fuel :: "(u64 \<times> bytes) list list \<Rightarrow> nat" where
  "rr_fuel cs = length cs * (Max (insert 0 (length ` set cs)) + 1)"

fun open_handles :: "'db option list \<Rightarrow> exn + 'db list" where
  "open_handles [] = Inr []"
| "open_handles (None # ds) = Inl (Fault NullPointer)"
| "open_handles (Some d # ds) = (case open_handles ds of Inl e \<Rightarrow> Inl e | Inr es \<Rightarrow> Inr (d # es))"

definition recoverMessages ::
    "'db dbapi \<Rightarrow> (u64 \<times> bytes) list \<Rightarrow> 'db journal \<Rightarrow> exn + (u64 \<times> bytes) list \<times> 'db journal" where
  "recoverMessages api recovered J =
     (case init_message_db api J of
        Inl e \<Rightarrow> Inl e
      | Inr J' \<Rightarrow>
          (if \<not> create_bdb J' then Inr (recovered, J')
           else case open_handles (messageDbs J') of
                  Inl e \<Rightarrow> Inl e
                | Inr ds \<Rightarrow>
                    (let cs = map (api_scan api) ds
                     in case round_robin (rr_fuel cs) cs (replicate (length cs) False) 0 0 recovered of
                          None \<Rightarrow> Inl (Fault NoReturn)
                        | Some r \<Rightarrow> Inr (r, J'))))"

section \<open>Messages to be discarded\<close>

definition register_as_transient :: "u64 list \<Rightarrow> 'db journal \<Rightarrow> 'db journal" where
  "register_as_transient trList J = J\<lparr>transientList := trList @ transientList J, writeActivityFlag := True\<rparr>"

definition register_as_accepted :: "u64 list \<Rightarrow> 'db journal \<Rightarrow> 'db journal" where
  "register_as_accepted acList J = J\<lparr>acceptedList := acList @ acceptedList J, writeActivityFlag := True\<rparr>"

text \<open>The deletion loops, with the count of messages deleted and the error flag.\<close>

fun del_each :: "'db dbapi \<Rightarrow> (dbst \<Rightarrow> bool) \<Rightarrow> u64 list \<Rightarrow> nat \<times> bool \<times> 'db journal \<Rightarrow> exn + nat \<times> bool \<times> 'db journal" where
  "del_each api good [] s = Inr s"
| "del_each api good (i # is) (cnt, err, J) =
     (case sub_db J i of
        Inl e \<Rightarrow> Inl e
      | Inr (k, db) \<Rightarrow>
          (case api_del api i db of
             Inl n \<Rightarrow> Inl (DbException n)
           | Inr (st, db') \<Rightarrow>
               (if good st then del_each api good is (cnt + 1, err, put_db k db' J)
                else del_each api good is (cnt, True, put_db k db' J))))"

definition discard_transient_message :: "'db dbapi \<Rightarrow> 'db journal \<Rightarrow> exn + 'db journal" where
  "discard_transient_message api J =
     (if create_bdb J
      then if transientList J = [] then Inr J
           else (case del_each api (\<lambda>st. st = DbOk) (transientList J) (0, False, J) of
                   Inl e \<Rightarrow> Inl e
                 | Inr (_, _, J') \<Rightarrow> Inr (J'\<lparr>transientList := []\<rparr>))
      else Inr (J\<lparr>transientList := []\<rparr>))"

definition discard_accepted_message :: "'db dbapi \<Rightarrow> 'db journal \<Rightarrow> exn + 'db journal" where
  "discard_accepted_message api J =
     (if create_bdb J
      then if acceptedList J = [] then Inr J
           else (case del_each api (\<lambda>st. st = DbOk \<or> st = DbNotFound) (acceptedList J) (0, False, J) of
                   Inl e \<Rightarrow> Inl e
                 | Inr (_, _, J') \<Rightarrow> Inr (J'\<lparr>acceptedList := []\<rparr>))
      else Inr (J\<lparr>acceptedList := []\<rparr>))"

definition recover_complete :: "'db dbapi \<Rightarrow> 'db journal \<Rightarrow> exn + 'db journal" where
  "recover_complete api J =
     (case discard_transient_message api J of
        Inl e \<Rightarrow> Inl e
      | Inr J' \<Rightarrow> discard_accepted_message api J')"

definition compact_message_database :: "'db journal \<Rightarrow> 'db journal" where
  "compact_message_database J = J"

section \<open>Flushing, stopping, transactions, management\<close>

text \<open>The call that would set \<^verbatim>\<open>ret\<close> is commented out, so \<^verbatim>\<open>dbOk\<close> stays true.\<close>

fun flush_loop :: "nat \<Rightarrow> int \<Rightarrow> bool \<Rightarrow> bool" where
  "flush_loop 0 ret dbOk = dbOk"
| "flush_loop (Suc k) ret dbOk = flush_loop k ret (if dbOk \<and> ret \<noteq> 0 then False else dbOk)"

definition flush :: "'db journal \<Rightarrow> bool" where
  "flush J = (if \<not> create_bdb J then True else flush_loop (nat (num_jfiles J)) 0 True)"

definition flushFire :: "'db journal \<Rightarrow> 'db journal" where
  "flushFire J =
     (if writeActivityFlag J then J\<lparr>writeActivityFlag := False, flushTriggeredFlag := False\<rparr>
      else if \<not> flushTriggeredFlag J then (let _ = flush J in J\<lparr>flushTriggeredFlag := True\<rparr>)
      else J)"

definition InactivityFireEvent_fire :: "'db journal option \<Rightarrow> 'db journal option" where
  "InactivityFireEvent_fire parent = (case parent of None \<Rightarrow> None | Some J \<Rightarrow> Some (flushFire J))"

definition InactivityFireEvent_cancel :: "'db journal option \<Rightarrow> 'db journal option" where
  "InactivityFireEvent_cancel parent = None"

definition journal_stop :: "'db journal \<Rightarrow> 'db journal" where
  "journal_stop J = (if mgmtObject J then J\<lparr>mgmtObject := False\<rparr> else J)"

definition txn_abort :: "string \<Rightarrow> 'db journal \<Rightarrow> exn + 'db journal" where
  "txn_abort xid J = Inl (jexception_in JERR__NOTIMPL ''BdbMessageStoreImpl'' ''txn_abort'')"

definition txn_commit :: "string \<Rightarrow> 'db journal \<Rightarrow> exn + 'db journal" where
  "txn_commit xid J = Inl (jexception_in JERR__NOTIMPL ''BdbMessageStoreImpl'' ''txn_commit'')"

definition is_txn_synced :: "string \<Rightarrow> 'db journal \<Rightarrow> bool" where
  "is_txn_synced xid J = True"

datatype mgmt_status = STATUS_UNKNOWN_METHOD | STATUS_NOT_IMPLEMENTED

definition ManagementMethod :: "u32 \<Rightarrow> mgmt_status" where
  "ManagementMethod methodId = (if methodId \<noteq> 0 then STATUS_NOT_IMPLEMENTED else STATUS_UNKNOWN_METHOD)"

section \<open>Completing a transaction context\<close>

record 'db txn_ctxt =
  impactedQueues :: "'db journal list"
  loggedtx :: bool
  preparedXidStorePtr :: "'db journal option"
  tid :: string

definition TxnCtxt :: "bool \<Rightarrow> u64 \<Rightarrow> bytes \<Rightarrow> (bytes \<Rightarrow> string) \<Rightarrow> 'db txn_ctxt \<times> u64" where
  "TxnCtxt logged uuidSeq uuid chars =
     (if logged
      then let (c, seq') = IdSequence_next uuidSeq
           in (\<lparr>impactedQueues = [], loggedtx = True, preparedXidStorePtr = None, tid = chars (u64_bytes c @ uuid)\<rparr>, seq')
      else (\<lparr>impactedQueues = [], loggedtx = False, preparedXidStorePtr = None, tid = []\<rparr>, uuidSeq))"

definition jrnl_flush :: "'db txn_ctxt \<Rightarrow> 'db journal option \<Rightarrow> bool" where
  "jrnl_flush t jc = (case jc of None \<Rightarrow> False | Some J \<Rightarrow> if \<not> is_txn_synced (tid t) J then flush J else False)"

text \<open>\<^verbatim>\<open>sync\<close> flushes the journals that are not in sync: how many that were.\<close>

definition txn_sync :: "'db txn_ctxt \<Rightarrow> nat" where
  "txn_sync t = (if loggedtx t
     then length (filter (jrnl_flush t) (map Some (impactedQueues t) @ [preparedXidStorePtr t]))
     else 0)"

definition commitTxn :: "'db txn_ctxt \<Rightarrow> 'db journal option \<Rightarrow> bool \<Rightarrow> exn + unit" where
  "commitTxn t jc commit =
     (case jc of
        None \<Rightarrow> Inr ()
      | Some J \<Rightarrow>
          (if loggedtx t
           then (case (if commit then txn_commit (tid t) J else txn_abort (tid t) J) of
                   Inl (JException n i c f) \<Rightarrow> Inl (StoreException (''Error commit'' @ jexception_what (JException n i c f)))
                 | Inl e \<Rightarrow> Inl e
                 | Inr _ \<Rightarrow> Inr ())
           else Inr ()))"

fun commit_each :: "'db txn_ctxt \<Rightarrow> bool \<Rightarrow> 'db journal list \<Rightarrow> exn + unit" where
  "commit_each t commit [] = Inr ()"
| "commit_each t commit (J # Js) =
     (case commitTxn t (Some J) commit of Inl e \<Rightarrow> Inl e | Inr _ \<Rightarrow> commit_each t commit Js)"

definition completeTxn :: "'db txn_ctxt \<Rightarrow> bool \<Rightarrow> exn + 'db txn_ctxt" where
  "completeTxn t commit =
     (let _ = txn_sync t
      in case commit_each t commit (impactedQueues t) of
           Inl e \<Rightarrow> Inl e
         | Inr _ \<Rightarrow>
             (let t' = t\<lparr>impactedQueues := []\<rparr>
              in case preparedXidStorePtr t' of
                   None \<Rightarrow> Inr t'
                 | Some J \<Rightarrow> (case commitTxn t' (Some J) commit of Inl e \<Rightarrow> Inl e | Inr _ \<Rightarrow> Inr t')))"

text \<open>\<^verbatim>\<open>impactedQueues\<close> is a set of pointers; a journal is known by the id of its queue.\<close>

definition addXidRecord :: "'db journal \<Rightarrow> 'db txn_ctxt \<Rightarrow> 'db txn_ctxt" where
  "addXidRecord q t =
     (if queuePid q \<in> queuePid ` set (impactedQueues t) then t
      else t\<lparr>impactedQueues := q # impactedQueues t\<rparr>)"

definition impactedQueuesEmpty :: "'db txn_ctxt \<Rightarrow> bool" where
  "impactedQueuesEmpty t = (impactedQueues t = [])"

section \<open>The order of recovery\<close>

text \<open>What the loop is meant to deliver: the first message of every database, then the second
  of every database, and so on.\<close>

function rounds :: "'a list list \<Rightarrow> 'a list" where
  "rounds L = (if \<forall>l \<in> set L. l = [] then [] else concat (map (take 1) L) @ rounds (map tl L))"
  by auto
termination
proof (relation "measure (\<lambda>L. sum_list (map length L))")
  fix L :: "'a list list"
  assume "\<not> (\<forall>l \<in> set L. l = [])"
  then obtain l where "l \<in> set L" "l \<noteq> []" by blast
  then have "sum_list (map (length \<circ> tl) L) < sum_list (map length L)"
    by (induction L) (auto simp: add_less_le_mono add_le_less_mono sum_list_mono)
  then show "(map tl L, L) \<in> measure (\<lambda>L. sum_list (map length L))" by (simp add: comp_def)
qed simp

declare rounds.simps [simp del]

lemma rounds_step: "rounds L = concat (map (take 1) L) @ rounds (map tl L)"
proof (cases "\<forall>l \<in> set L. l = []")
  case True
  then have "concat (map (take 1) L) = []" "\<forall>l \<in> set (map tl L). l = []" by auto
  with True show ?thesis by (simp add: rounds.simps)
next
  case False
  then show ?thesis by (subst rounds.simps) (simp only: if_False)
qed

lemma mset_rounds: "mset (rounds L) = mset (concat L)"
proof (induction L rule: rounds.induct)
  case (1 L)
  have h: "mset (concat (map (take 1) L)) + mset (concat (map tl L)) = mset (concat L)"
  proof (induction L)
    case (Cons l L)
    then show ?case by (cases l) auto
  qed simp
  show ?case
  proof (cases "\<forall>l \<in> set L. l = []")
    case True
    then show ?thesis by (subst rounds.simps) simp
  next
    case False
    from 1[OF this] h show ?thesis by (subst rounds_step) simp
  qed
qed

text \<open>How often a cursor still has to be asked: once per message and once to see the end.\<close>

definition asks :: "bool \<Rightarrow> 'a list \<Rightarrow> nat" where
  "asks d c = (if d then 0 else length c + 1)"

definition rr_inv :: "'a list list \<Rightarrow> bool list \<Rightarrow> nat \<Rightarrow> bool" where
  "rr_inv cs fin cnt \<longleftrightarrow> length fin = length cs \<and> cnt = length (filter id fin) \<and>
     (\<forall>j < length cs. fin ! j \<longrightarrow> cs ! j = [])"

definition rr_out :: "nat \<Rightarrow> 'a list list \<Rightarrow> 'a list" where
  "rr_out k cs = concat (map (take 1) (drop k cs)) @ rounds (take k cs @ map tl (drop k cs))"

lemma rr_out_step: "k < length cs \<Longrightarrow> rr_out k cs = take 1 (cs ! k) @ rr_out (Suc k) (cs[k := tl (cs ! k)])"
  by (simp add: rr_out_def take_Suc_conv_app_nth take_update_cancel drop_update_cancel flip: Cons_nth_drop_Suc)

lemma rr_out_wrap: "rr_out (length cs) cs = rr_out 0 cs"
  by (simp add: rr_out_def rounds_step[of cs])

lemma filter_id_full: "length (filter id fin) = length fin \<Longrightarrow> j < length fin \<Longrightarrow> fin ! j"
  by (metis filter_id_conv id_apply length_filter_less less_irrefl nth_mem)

lemma rr_all_done:
  assumes "rr_inv cs fin cnt" and "cnt = length cs"
  shows "rr_out k cs = []"
proof -
  have "fin ! j" if "j < length cs" for j
    using filter_id_full[of fin j] assms that by (simp add: rr_inv_def)
  then have "cs ! j = []" if "j < length cs" for j using assms(1) that by (simp add: rr_inv_def)
  then have "l = []" if "l \<in> set cs" for l using that by (metis in_set_conv_nth)
  then have "\<forall>l \<in> set (take k cs @ map tl (drop k cs)). l = []" "concat (map (take 1) (drop k cs)) = []"
    by (force dest: in_set_takeD in_set_dropD)+
  then show ?thesis unfolding rr_out_def by (subst rounds.simps) simp
qed

lemma count_le: "rr_inv cs fin cnt \<Longrightarrow> cnt \<le> length cs"
  by (metis length_filter_le rr_inv_def)

lemma filter_id_update: "k < length fin \<Longrightarrow> \<not> fin ! k \<Longrightarrow> length (filter id (fin[k := True])) = length (filter id fin) + 1"
  by (induction fin arbitrary: k) (auto simp: nth_Cons split: nat.splits)

text \<open>The loop from index \<open>k\<close> of a pass: \<open>P\<close> more passes are enough after this one.\<close>

text \<open>One turn of the loop: the cursor \<open>k\<close> moves on, and its database is marked when it has nothing more.\<close>

lemma rr_turn:
  assumes inv: "rr_inv cs fin cnt" and k: "k < length cs" and lt: "cnt < length cs"
  defines "cs' \<equiv> cs[k := tl (cs ! k)]" and "fin' \<equiv> fin[k := fin ! k \<or> cs ! k = []]" and "cnt' \<equiv> if \<not> fin ! k \<and> cs ! k = [] then cnt + 1 else cnt"
  shows "round_robin (Suc fuel) cs fin k cnt acc = round_robin fuel cs' fin' ((k + 1) mod length cs) cnt' (acc @ take 1 (cs ! k))"
    and "rr_inv cs' fin' cnt'"
    and "j < length cs \<Longrightarrow> asks (fin' ! j) (cs' ! j) = (if j = k then asks (fin ! j) (cs ! j) - 1 else asks (fin ! j) (cs ! j))"
proof -
  have lf: "length fin = length cs" using inv by (simp add: rr_inv_def)
  show "round_robin (Suc fuel) cs fin k cnt acc = round_robin fuel cs' fin' ((k + 1) mod length cs) cnt' (acc @ take 1 (cs ! k))"
  proof (cases "fin ! k")
    case True
    then have c: "cs ! k = []" using inv k by (simp add: rr_inv_def)
    have "cs[k := []] = cs" "fin[k := True] = fin" using True c by (metis list_update_id)+
    with True lt c show ?thesis by (subst round_robin.simps) (simp add: cs'_def fin'_def cnt'_def)
  next
    case False
    then have "cs ! k = [] \<Longrightarrow> cs[k := []] = cs" "fin[k := False] = fin" by (metis list_update_id)+
    with False lt show ?thesis
      by (subst round_robin.simps) (cases "cs ! k"; simp add: cs'_def fin'_def cnt'_def Cursor_next_def)
  qed
  have same: "fin ! k \<Longrightarrow> fin[k := True] = fin" "\<not> fin ! k \<Longrightarrow> fin[k := False] = fin" by (metis list_update_id)+
  show "rr_inv cs' fin' cnt'"
    using inv k filter_id_update[of k fin] by (auto simp: rr_inv_def cs'_def fin'_def cnt'_def nth_list_update same lf)
  show "j < length cs \<Longrightarrow> asks (fin' ! j) (cs' ! j) = (if j = k then asks (fin ! j) (cs ! j) - 1 else asks (fin ! j) (cs ! j))"
    using inv by (auto simp: asks_def cs'_def fin'_def nth_list_update lf rr_inv_def)
qed

lemma round_robin_from:
  assumes "rr_inv cs fin cnt" and "k < length cs"
    and "\<forall>j < k. asks (fin ! j) (cs ! j) \<le> P"
    and "\<forall>j < length cs. asks (fin ! j) (cs ! j) \<le> P + 1"
    and "length cs - k + length cs * P \<le> fuel"
  shows "round_robin fuel cs fin k cnt acc = Some (acc @ rr_out k cs)"
  using assms
proof (induction fuel arbitrary: cs fin cnt k P acc)
  case 0
  then show ?case by simp
next
  case (Suc fuel)
  let ?n = "length cs"
  show ?case
  proof (cases "cnt < ?n")
    case False
    with count_le[OF Suc.prems(1)] have "cnt = ?n" by simp
    with rr_all_done[OF Suc.prems(1)] show ?thesis by (simp add: round_robin.simps)
  next
    case lt: True
    define cs' where "cs' = cs[k := tl (cs ! k)]"
    define fin' where "fin' = fin[k := fin ! k \<or> cs ! k = []]"
    define cnt' where "cnt' = (if \<not> fin ! k \<and> cs ! k = [] then cnt + 1 else cnt)"
    note turn = rr_turn[OF Suc.prems(1,2) lt, folded cs'_def fin'_def cnt'_def]
    have lf: "length fin = ?n" using Suc.prems(1) by (simp add: rr_inv_def)
    note step = turn(1)[of fuel acc] and inv' = turn(2) and asks' = turn(3)
    have le: "asks (fin' ! j) (cs' ! j) \<le> P" if "j \<le> k" for j
      using that asks'[of j] Suc.prems(2,3) Suc.prems(4)[rule_format, of j] by (cases "j = k") auto
    have le1: "asks (fin' ! j) (cs' ! j) \<le> P + 1" if "j < ?n" for j
      using that asks'[of j] Suc.prems(4) by (auto intro: le_trans diff_le_self)
    have n': "length cs' = ?n" by (simp add: cs'_def)
    have out: "take 1 (cs ! k) @ rr_out (Suc k) cs' = rr_out k cs"
      using rr_out_step[OF Suc.prems(2)] by (simp add: cs'_def)
    show ?thesis
    proof (cases "Suc k < ?n")
      case True
      have "round_robin fuel cs' fin' (Suc k) cnt' (acc @ take 1 (cs ! k)) = Some ((acc @ take 1 (cs ! k)) @ rr_out (Suc k) cs')"
        using True inv' le le1 Suc.prems(5) by (intro Suc.IH[where P = P]) (auto simp: n' less_Suc_eq_le)
      with step True out show ?thesis by simp
    next
      case last: False
      then have k: "Suc k = ?n" using Suc.prems(2) by simp
      have out0: "rr_out (Suc k) cs' = rr_out 0 cs'" using rr_out_wrap[of cs'] by (simp add: k n')
      have "round_robin fuel cs' fin' 0 cnt' (acc @ take 1 (cs ! k)) = Some ((acc @ take 1 (cs ! k)) @ rr_out 0 cs')"
      proof (cases P)
        case 0
        have "fin' ! j" if "j < length fin'" for j
          using le[of j] that k 0 by (auto simp: asks_def fin'_def lf split: if_splits)
        then have "filter id fin' = fin'" by (simp add: filter_id_conv all_set_conv_all_nth)
        then have "cnt' = length cs'" using inv' by (simp add: rr_inv_def)
        with rr_all_done[OF inv'] show ?thesis by (simp add: round_robin.simps)
      next
        case (Suc P')
        then show ?thesis
          using inv' le k Suc.prems(2,5) by (intro Suc.IH[where P = P']) (auto simp: n' less_Suc_eq_le)
      qed
      with step k out out0 show ?thesis by simp
    qed
  qed
qed

lemma round_robin_total:
  "round_robin (rr_fuel cs) cs (replicate (length cs) False) 0 0 acc = Some (acc @ rounds cs)"
proof (cases "cs = []")
  case True
  then show ?thesis by (subst round_robin.simps) (simp add: rounds.simps)
next
  case False
  let ?M = "Max (insert 0 (length ` set cs))"
  have inv: "rr_inv cs (replicate (length cs) False) 0" by (simp add: rr_inv_def)
  have "length (cs ! j) \<le> ?M" if "j < length cs" for j using that by (intro Max_ge) auto
  then have "round_robin (rr_fuel cs) cs (replicate (length cs) False) 0 0 acc = Some (acc @ rr_out 0 cs)"
    using False by (intro round_robin_from[OF inv, where P = ?M]) (auto simp: asks_def rr_fuel_def)
  then show ?thesis by (simp add: rr_out_def rounds_step[of cs])
qed

section \<open>The journal as one map\<close>

definition jindex :: "'db journal \<Rightarrow> u64 \<Rightarrow> nat" where
  "jindex J pid = unat pid mod nat (num_jfiles J)"

text \<open>The messages of a journal, seen through the view of its databases.\<close>

definition jview :: "('db \<Rightarrow> u64 \<Rightarrow> bytes option) \<Rightarrow> 'db journal \<Rightarrow> u64 \<Rightarrow> bytes option" where
  "jview view J pid = (case messageDbs J ! jindex J pid of None \<Rightarrow> None | Some d \<Rightarrow> view d pid)"

text \<open>A journal in working order: every database is open and holds only the ids that fall
  to it.\<close>

definition jinv :: "('db \<Rightarrow> u64 \<Rightarrow> bytes option) \<Rightarrow> 'db journal \<Rightarrow> bool" where
  "jinv view J \<longleftrightarrow> create_bdb J \<and> is_init J \<and> 0 < num_jfiles J \<and> num_jfiles J < 2 ^ 31 \<and>
     length (messageDbs J) = nat (num_jfiles J) \<and>
     (\<forall>k < length (messageDbs J). \<exists>d. messageDbs J ! k = Some d \<and> (\<forall>p \<in> dom (view d). jindex J p = k))"

lemma jindex_less: "jinv view J \<Longrightarrow> jindex J pid < length (messageDbs J)"
  by (simp add: jinv_def jindex_def)

lemma sub_db_index:
  assumes "jinv view J"
  obtains d where "sub_db J pid = Inr (jindex J pid, d)" and "messageDbs J ! jindex J pid = Some d"
    and "jview view J pid = view d pid" and "dom (view d) \<subseteq> dom (jview view J)"
proof -
  let ?k = "jindex J pid"
  have k: "?k < length (messageDbs J)" by (rule jindex_less[OF assms])
  obtain d where d: "messageDbs J ! ?k = Some d" "\<forall>p \<in> dom (view d). jindex J p = ?k"
    using assms k by (auto simp: jinv_def)
  have n: "0 < num_jfiles J" "num_jfiles J < 2 ^ 31" using assms by (simp_all add: jinv_def)
  have "unat (word_of_int (num_jfiles J) :: u64) = nat (num_jfiles J)"
    using n by (simp add: unsigned_of_int take_bit_int_eq_self)
  then have "unat (pid mod word_of_int (num_jfiles J)) = ?k" by (simp add: unat_mod jindex_def)
  with n k d(1) have "sub_db J pid = Inr (?k, d)" by (simp add: sub_db_def)
  moreover have "jview view J pid = view d pid" using d(1) by (simp add: jview_def)
  moreover have "dom (view d) \<subseteq> dom (jview view J)"
    using d by (auto simp: jview_def dom_def)
  ultimately show thesis using that d(1) by blast
qed

lemma messageDbs_put_db [simp]: "messageDbs (put_db k d J) = (messageDbs J)[k := Some d]"
  by (simp add: put_db_def)

lemma queuePid_put_db [simp]: "queuePid (put_db k d J) = queuePid J"
  by (simp add: put_db_def)

lemma jindex_upd [simp]:
  "jindex (J\<lparr>writeActivityFlag := b\<rparr>) = jindex J" "jindex (put_db k d J) = jindex J"
  "jindex (J\<lparr>transientList := l\<rparr>) = jindex J" "jindex (J\<lparr>acceptedList := l\<rparr>) = jindex J"
  by (simp_all add: jindex_def put_db_def fun_eq_iff)

lemma jview_upd [simp]:
  "jview view (J\<lparr>writeActivityFlag := b\<rparr>) = jview view J"
  "jview view (J\<lparr>transientList := l\<rparr>) = jview view J" "jview view (J\<lparr>acceptedList := l\<rparr>) = jview view J"
  by (simp_all add: jview_def fun_eq_iff)

lemma jinv_upd [simp]:
  "jinv view (J\<lparr>writeActivityFlag := b\<rparr>) = jinv view J"
  "jinv view (J\<lparr>transientList := l\<rparr>) = jinv view J" "jinv view (J\<lparr>acceptedList := l\<rparr>) = jinv view J"
  by (simp_all add: jinv_def)

text \<open>Replacing one database by another that differs only at ids that fall to it.\<close>

lemma put_db_view:
  assumes inv: "jinv view J" and k: "messageDbs J ! jindex J pid = Some d"
    and d': "\<And>p. view d' p = (if p = pid then x else view d p)"
  shows "jinv view (put_db (jindex J pid) d' J)" and "jview view (put_db (jindex J pid) d' J) = (jview view J)(pid := x)"
proof -
  have l: "jindex J p < length (messageDbs J)" for p by (rule jindex_less[OF inv])
  have own: "jindex J p = jindex J pid" if "view d p \<noteq> None" for p
    using inv l[of pid] k that unfolding jinv_def by (metis domIff option.inject)
  have "\<exists>e. messageDbs (put_db (jindex J pid) d' J) ! j = Some e \<and> (\<forall>p \<in> dom (view e). jindex J p = j)"
    if "j < length (messageDbs J)" for j
  proof (cases "j = jindex J pid")
    case True
    have "jindex J p = jindex J pid" if "p \<in> dom (view d')" for p
      using that d'[of p] own[of p] by (metis domIff)
    with True l[of pid] show ?thesis by simp
  next
    case False
    with inv that show ?thesis by (simp add: jinv_def)
  qed
  then show "jinv view (put_db (jindex J pid) d' J)"
    using inv by (simp add: jinv_def) (simp add: put_db_def)
  show "jview view (put_db (jindex J pid) d' J) = (jview view J)(pid := x)"
  proof
    fix p
    show "jview view (put_db (jindex J pid) d' J) p = ((jview view J)(pid := x)) p"
      using l[of pid] k d'[of p] by (cases "jindex J p = jindex J pid") (auto simp: jview_def)
  qed
qed

lemma del_sub_db:
  assumes "bdb_laws bt_compare_func api view" and "jinv view J"
    and "key_window (insert pid (dom (jview view J)))"
  obtains d st d' where "sub_db J pid = Inr (jindex J pid, d)" and "api_del api pid d = Inr (st, d')"
    and "st = (if jview view J pid \<noteq> None then DbOk else DbNotFound)"
    and "jinv view (put_db (jindex J pid) d' J)"
    and "jview view (put_db (jindex J pid) d' J) = (jview view J)(pid := None)"
proof -
  obtain d where d: "sub_db J pid = Inr (jindex J pid, d)" "messageDbs J ! jindex J pid = Some d"
    "jview view J pid = view d pid" "dom (view d) \<subseteq> dom (jview view J)"
    by (rule sub_db_index[OF assms(2)])
  have "key_window (insert pid (dom (view d)))" by (rule key_window_subset[OF assms(3)]) (use d(4) in blast)
  from law_del[OF assms(1) this] obtain d' where
    "api_del api pid d = Inr (if view d pid \<noteq> None then DbOk else DbNotFound, d')" "view d' = (view d)(pid := None)" by blast
  with put_db_view[OF assms(2) d(2), of d' None] d that show thesis by auto
qed

lemma is_enqueued_view:
  assumes laws: "bdb_laws bt_compare_func api view" and inv: "jinv view J"
    and win: "key_window (insert pid (dom (jview view J)))"
  shows "is_enqueued api pid J = Inr (jview view J pid \<noteq> None)"
proof -
  obtain d where d: "sub_db J pid = Inr (jindex J pid, d)" "jview view J pid = view d pid" "dom (view d) \<subseteq> dom (jview view J)"
    by (rule sub_db_index[OF inv])
  have win': "key_window (insert pid (dom (view d)))" by (rule key_window_subset[OF win]) (use d(3) in blast)
  have c: "create_bdb J" using inv by (simp add: jinv_def)
  show ?thesis using c d law_get[OF laws win'] by (cases "view d pid") (auto simp: is_enqueued_def)
qed

lemma journal_map:
  assumes laws: "bdb_laws bt_compare_func api view" and inv: "jinv view J"
    and win: "key_window (insert pid (dom (jview view J)))"
  shows "(\<exists>J'. enqueue_data api v pid J = Inr J' \<and> jinv view J' \<and>
           jview view J' = (if jview view J pid = None then (jview view J)(pid \<mapsto> v) else jview view J) \<and> queuePid J' = queuePid J) \<and>
         (\<exists>J'. dequeue_data api pid J = Inr J' \<and> jinv view J' \<and> jview view J' = (jview view J)(pid := None) \<and> queuePid J' = queuePid J) \<and>
         is_enqueued api pid J = Inr (jview view J pid \<noteq> None)"
proof (intro conjI)
  obtain d where d: "sub_db J pid = Inr (jindex J pid, d)" "messageDbs J ! jindex J pid = Some d"
    "jview view J pid = view d pid" "dom (view d) \<subseteq> dom (jview view J)"
    by (rule sub_db_index[OF inv])
  have win': "key_window (insert pid (dom (view d)))" by (rule key_window_subset[OF win]) (use d(4) in blast)
  have c: "create_bdb J" using inv by (simp add: jinv_def)
  obtain st d' where put: "api_put api pid v d = Inr (st, d')" "view d' = (if view d pid = None then (view d)(pid \<mapsto> v) else view d)"
    using law_put[OF laws win', where v = v] by (cases "view d pid") auto
  let ?x = "if view d pid = None then Some v else view d pid"
  have "view d' p = (if p = pid then ?x else view d p)" for p using put(2) by auto
  note pv = put_db_view[OF inv d(2) this]
  have "enqueue_data api v pid J = Inr (put_db (jindex J pid) d' (J\<lparr>writeActivityFlag := True\<rparr>))"
    using c d(1) put(1) by (simp add: enqueue_data_def store_msg_def law_txn[OF laws])
  moreover have "put_db (jindex J pid) d' (J\<lparr>writeActivityFlag := True\<rparr>) = (put_db (jindex J pid) d' J)\<lparr>writeActivityFlag := True\<rparr>"
    by (simp add: put_db_def)
  moreover have "(jview view J)(pid := ?x) = (if jview view J pid = None then (jview view J)(pid \<mapsto> v) else jview view J)"
    using d(3) by (auto simp: fun_eq_iff)
  ultimately show "\<exists>J'. enqueue_data api v pid J = Inr J' \<and> jinv view J' \<and>
      jview view J' = (if jview view J pid = None then (jview view J)(pid \<mapsto> v) else jview view J) \<and> queuePid J' = queuePid J"
    using pv by simp
  obtain e st' d'' where e: "sub_db J pid = Inr (jindex J pid, e)" "api_del api pid e = Inr (st', d'')"
    "jinv view (put_db (jindex J pid) d'' J)" "jview view (put_db (jindex J pid) d'' J) = (jview view J)(pid := None)"
    by (rule del_sub_db[OF laws inv win])
  have "dequeue_data api pid J = Inr ((put_db (jindex J pid) d'' J)\<lparr>writeActivityFlag := True\<rparr>)"
    using c e(1,2) by (simp add: dequeue_data_def remove_msg_def law_txn[OF laws] put_db_def)
  with e(3,4) show "\<exists>J'. dequeue_data api pid J = Inr J' \<and> jinv view J' \<and> jview view J' = (jview view J)(pid := None) \<and> queuePid J' = queuePid J"
    by simp
  show "is_enqueued api pid J = Inr (jview view J pid \<noteq> None)" by (rule is_enqueued_view[OF laws inv win])
qed

text \<open>C18. While the ids in use fit a window of \<open>2\<^sup>3\<^sup>1\<close>, the journal is a map from ids to
  messages over its databases together: an enqueue adds its message unless the id is
  taken, a dequeue removes exactly its own, and \<^verbatim>\<open>is_enqueued\<close> answers truthfully.\<close>

theorem journal_refines_map:
  assumes laws: "bdb_laws bt_compare_func api view" and inv: "jinv view J"
    and win: "key_window (insert pid (dom (jview view J)))"
  shows "(\<exists>J'. enqueue_data api v pid J = Inr J' \<and> jinv view J' \<and>
           jview view J' = (if jview view J pid = None then (jview view J)(pid \<mapsto> v) else jview view J)) \<and>
         (\<exists>J'. dequeue_data api pid J = Inr J' \<and> jinv view J' \<and> jview view J' = (jview view J)(pid := None)) \<and>
         is_enqueued api pid J = Inr (jview view J pid \<noteq> None)"
  using journal_map[OF assms, of v] by blast

definition wit_journal :: "(u64 \<times> bytes) list journal" where
  "wit_journal = \<lparr>writeActivityFlag = False, flushTriggeredFlag = True, is_init = True,
     journalName = ''q'', queuePid = 7, journalDirectory = ''j/'', bdbDir = ''d/'',
     num_jfiles = 2, create_bdb = True, mgmtObject = False, transientList = [4], acceptedList = [5],
     messageDbs = [Some [(4, [1])], Some [(5, [2, 2])]]\<rparr>"

lemma dom_wit_journal: "dom (jview map_of wit_journal) = {4, 5}"
proof (rule set_eqI)
  fix p :: u64
  have "unat p mod 2 = 0 \<or> unat p mod 2 = 1" by arith
  then show "p \<in> dom (jview map_of wit_journal) \<longleftrightarrow> p \<in> {4, 5}"
    by (auto simp: jview_def jindex_def wit_journal_def split: if_splits)
qed

lemma wit_journal_inv: "jinv map_of wit_journal"
  by (auto simp: jinv_def jindex_def wit_journal_def less_Suc_eq split: if_splits)

lemma wit_journal_window: "key_window {4, 5, 6}"
  by (auto simp: key_window_def)

theorem journal_refines_map_witness:
  "(\<exists>J'. enqueue_data (list_db bt_compare_func) [9] 6 wit_journal = Inr J' \<and> jview map_of J' 6 = Some [9] \<and> jview map_of J' 4 = Some [1]) \<and>
   is_enqueued (list_db bt_compare_func) 6 wit_journal = Inr False"
proof -
  have w: "key_window (insert 6 (dom (jview map_of wit_journal)))"
    using wit_journal_window by (simp add: dom_wit_journal insert_commute)
  have "jview map_of wit_journal 6 = None" "jview map_of wit_journal 4 = Some [1]"
    by (simp_all add: jview_def jindex_def wit_journal_def)
  then show ?thesis
    using journal_refines_map[OF list_db_laws wit_journal_inv w, of "[9]"] by auto
qed

section \<open>Recovery returns every message once\<close>

lemma open_handles_all:
  "\<forall>k < length ds. ds ! k \<noteq> None \<Longrightarrow> open_handles ds = Inr (map the ds)"
proof (induction ds)
  case (Cons x ds)
  then obtain d where "x = Some d" by force
  moreover have "open_handles ds = Inr (map the ds)" using Cons by (intro Cons.IH) auto
  ultimately show ?case by simp
qed simp

lemma in_concat_nth: "x \<in> set (concat L) \<longleftrightarrow> (\<exists>j < length L. x \<in> set (L ! j))"
  by (induction L rule: rev_induct) (auto simp: nth_append less_Suc_eq)

lemma distinct_keys_parts:
  assumes "\<And>k. k < length L \<Longrightarrow> distinct (map fst (L ! k))"
    and "\<And>k x. k < length L \<Longrightarrow> x \<in> set (L ! k) \<Longrightarrow> idx (fst x) = k"
  shows "distinct (map fst (concat L))"
  using assms
proof (induction L rule: rev_induct)
  case (snoc l L)
  have "distinct (map fst (concat L))"
  proof (rule snoc.IH)
    show "distinct (map fst (L ! k))" if "k < length L" for k
      using that snoc.prems(1)[of k] by (simp add: nth_append)
    show "idx (fst x) = k" if "k < length L" "x \<in> set (L ! k)" for k x
      using that snoc.prems(2)[of k x] by (simp add: nth_append)
  qed
  moreover have "distinct (map fst l)" using snoc.prems(1)[of "length L"] by simp
  moreover have "idx (fst x) < length L" if "x \<in> set (concat L)" for x
  proof -
    from that obtain k where "k < length L" "x \<in> set (L ! k)" unfolding in_concat_nth by blast
    then show ?thesis using snoc.prems(2)[of k x] by (simp add: nth_append)
  qed
  moreover have "idx (fst x) = length L" if "x \<in> set l" for x
    using that snoc.prems(2)[of "length L" x] by simp
  ultimately show ?case by (fastforce simp del: set_concat)
qed simp

lemma recover_every_message:
  assumes laws: "bdb_laws bt_compare_func api view" and inv: "jinv view J"
  shows "\<exists>ms. recoverMessages api recovered J = Inr (recovered @ ms, J) \<and>
    ms = rounds (map (\<lambda>d. api_scan api (the d)) (messageDbs J)) \<and>
    distinct (map fst ms) \<and> map_of ms = jview view J"
proof -
  let ?L = "map (\<lambda>d. api_scan api (the d)) (messageDbs J)"
  let ?ms = "rounds ?L"
  have some: "\<forall>k < length (messageDbs J). messageDbs J ! k \<noteq> None" using inv by (auto simp: jinv_def)
  have "map (api_scan api) (map the (messageDbs J)) = ?L" by simp
  then have r: "recoverMessages api recovered J = Inr (recovered @ ?ms, J)"
    using inv open_handles_all[OF some] round_robin_total[of ?L recovered]
    by (simp add: recoverMessages_def init_message_db_def jinv_def comp_def)
  have parts: "distinct (map fst (?L ! k)) \<and> (\<forall>x \<in> set (?L ! k). jindex J (fst x) = k)" if "k < length ?L" for k
  proof -
    obtain d where d: "messageDbs J ! k = Some d" "\<forall>p \<in> dom (view d). jindex J p = k"
      using inv \<open>k < length ?L\<close> by (auto simp: jinv_def)
    have "distinct (map fst (api_scan api d))" "map_of (api_scan api d) = view d" using law_scan[OF laws, of d] by simp_all
    moreover have "?L ! k = api_scan api d" using d(1) that by simp
    moreover have "fst x \<in> dom (view d)" if "x \<in> set (api_scan api d)" for x
      using that calculation(2) dom_map_of_conv_image_fst[of "api_scan api d"] by (metis image_eqI)
    ultimately show ?thesis using d(2) by simp
  qed
  have dc: "distinct (map fst (concat ?L))" by (rule distinct_keys_parts[where idx = "jindex J"]) (use parts in auto)
  have m: "mset ?ms = mset (concat ?L)" by (rule mset_rounds)
  have dm: "distinct (map fst ?ms)" using dc mset_eq_imp_distinct_iff[of "map fst ?ms" "map fst (concat ?L)"] m by simp
  have "map_of ?ms = jview view J"
  proof
    fix p
    let ?k = "jindex J p"
    have k: "?k < length (messageDbs J)" by (rule jindex_less[OF inv])
    have mem: "(p, v) \<in> set (concat ?L) \<longleftrightarrow> (p, v) \<in> set (?L ! ?k)" for v
    proof -
      have "j = ?k" if "j < length ?L" "(p, v) \<in> set (?L ! j)" for j
        using parts[OF that(1)] that(2) by auto
      moreover have "?k < length ?L" using k by simp
      ultimately show ?thesis unfolding in_concat_nth by blast
    qed
    obtain d where d: "messageDbs J ! ?k = Some d" using some k by auto
    have "map_of (?L ! ?k) p = view d p" using law_scan[OF laws, of d] d k by simp
    moreover have dk: "distinct (map fst (?L ! ?k))" using parts[of ?k] k by simp
    have "map_of ?ms p = Some v \<longleftrightarrow> map_of (?L ! ?k) p = Some v" for v
      by (simp only: map_of_eq_Some_iff[OF dm] map_of_eq_Some_iff[OF dk] mset_eq_setD[OF m] mem)
    ultimately show "map_of ?ms p = jview view J p" using d by (simp add: jview_def) (metis not_None_eq)
  qed
  with r dm show ?thesis by blast
qed

text \<open>C19. \<^verbatim>\<open>recoverMessages\<close> terminates and delivers, in rounds over the databases, every message
  of the journal exactly once under its id, and nothing else.\<close>

theorem recoverMessages_complete:
  assumes laws: "bdb_laws bt_compare_func api view" and inv: "jinv view J"
  shows "\<exists>ms. recoverMessages api recovered J = Inr (recovered @ ms, J) \<and>
    ms = rounds (map (\<lambda>d. api_scan api (the d)) (messageDbs J)) \<and>
    distinct (map fst ms) \<and> map_of ms = jview view J"
  by (rule recover_every_message[OF assms])

theorem recoverMessages_complete_witness:
  "\<exists>ms. recoverMessages (list_db bt_compare_func) [] wit_journal = Inr (ms, wit_journal) \<and>
    distinct (map fst ms) \<and> map_of ms 5 = Some [2, 2]"
  using recoverMessages_complete[OF list_db_laws wit_journal_inv, of "[]"]
  by (auto simp: jview_def jindex_def wit_journal_def)

section \<open>Discarding\<close>

lemma del_each_removes:
  assumes laws: "bdb_laws bt_compare_func api view"
  shows "jinv view J \<Longrightarrow> key_window (set is \<union> dom (jview view J)) \<Longrightarrow>
    \<exists>cnt' err' J'. del_each api good is (cnt, err, J) = Inr (cnt', err', J') \<and> jinv view J' \<and>
      jview view J' = (\<lambda>p. if p \<in> set is then None else jview view J p) \<and>
      transientList J' = transientList J \<and> acceptedList J' = acceptedList J \<and> queuePid J' = queuePid J"
proof (induction "is" arbitrary: cnt err J)
  case Nil
  then show ?case by simp
next
  case (Cons i "is")
  have w: "key_window (insert i (dom (jview view J)))" by (rule key_window_subset[OF Cons.prems(2)]) auto
  obtain d st d' where d: "sub_db J i = Inr (jindex J i, d)" "api_del api i d = Inr (st, d')"
    "jinv view (put_db (jindex J i) d' J)" "jview view (put_db (jindex J i) d' J) = (jview view J)(i := None)"
    by (rule del_sub_db[OF laws Cons.prems(1) w])
  have "key_window (set is \<union> dom (jview view (put_db (jindex J i) d' J)))"
    by (rule key_window_subset[OF Cons.prems(2)]) (auto simp: d(4))
  note IH = Cons.IH[OF d(3) this, of "if good st then cnt + 1 else cnt" "if good st then err else True"]
  have "del_each api good (i # is) (cnt, err, J) = del_each api good is
      (if good st then cnt + 1 else cnt, if good st then err else True, put_db (jindex J i) d' J)"
    using d(1,2) by simp
  moreover have "(\<lambda>p. if p \<in> set is then None else jview view (put_db (jindex J i) d' J) p) =
      (\<lambda>p. if p \<in> set (i # is) then None else jview view J p)" by (auto simp: d(4) fun_eq_iff)
  ultimately show ?case using IH by (simp add: put_db_def)
qed

lemma discard_both:
  assumes laws: "bdb_laws bt_compare_func api view" and inv: "jinv view J"
    and win: "key_window (set (transientList J) \<union> set (acceptedList J) \<union> dom (jview view J))"
  shows "\<exists>J1 J'. discard_transient_message api J = Inr J1 \<and> discard_accepted_message api J1 = Inr J' \<and> jinv view J' \<and> queuePid J' = queuePid J \<and> transientList J' = [] \<and> acceptedList J' = [] \<and>
    jview view J' = (\<lambda>p. if p \<in> set (transientList J) \<union> set (acceptedList J) then None else jview view J p)"
proof -
  have c: "create_bdb J" using inv by (simp add: jinv_def)
  have w1: "key_window (set (transientList J) \<union> dom (jview view J))" by (rule key_window_subset[OF win]) auto
  from del_each_removes[OF laws inv w1, of "\<lambda>st. st = DbOk" 0 False]
  obtain J1 where 1: "discard_transient_message api J = Inr J1" "jinv view J1" "transientList J1 = []"
    "acceptedList J1 = acceptedList J" "jview view J1 = (\<lambda>p. if p \<in> set (transientList J) then None else jview view J p)" "queuePid J1 = queuePid J"
    using c inv by (cases "transientList J = []") (auto simp: discard_transient_message_def)
  have w2: "key_window (set (acceptedList J1) \<union> dom (jview view J1))"
    by (rule key_window_subset[OF win]) (auto simp: 1(4,5) split: if_splits)
  have c1: "create_bdb J1" using 1(2) by (simp add: jinv_def)
  from del_each_removes[OF laws 1(2) w2, of "\<lambda>st. st = DbOk \<or> st = DbNotFound" 0 False]
  obtain J2 where 2: "discard_accepted_message api J1 = Inr J2" "jinv view J2" "transientList J2 = []"
    "acceptedList J2 = []" "jview view J2 = (\<lambda>p. if p \<in> set (acceptedList J1) then None else jview view J1 p)" "queuePid J2 = queuePid J1"
    using c1 1(2,3) by (cases "acceptedList J1 = []") (auto simp: discard_accepted_message_def)
  have "jview view J2 = (\<lambda>p. if p \<in> set (transientList J) \<union> set (acceptedList J) then None else jview view J p)"
    by (auto simp: 2(5) 1(4,5) fun_eq_iff)
  with 1(1,6) 2 show ?thesis by (intro exI[of _ J1] exI[of _ J2]) simp
qed

text \<open>\<^verbatim>\<open>recover_complete\<close> removes the messages registered as transient or as accepted while
  the broker was down, leaves every other message alone, and empties both lists.\<close>

theorem recover_complete_discards:
  assumes laws: "bdb_laws bt_compare_func api view" and inv: "jinv view J"
    and win: "key_window (set (transientList J) \<union> set (acceptedList J) \<union> dom (jview view J))"
  shows "\<exists>J'. recover_complete api J = Inr J' \<and> jinv view J' \<and> transientList J' = [] \<and> acceptedList J' = [] \<and>
    jview view J' = (\<lambda>p. if p \<in> set (transientList J) \<union> set (acceptedList J) then None else jview view J p)"
  using discard_both[OF assms] by (auto simp: recover_complete_def)

theorem recover_complete_discards_witness:
  "\<exists>J'. recover_complete (list_db bt_compare_func) wit_journal = Inr J' \<and> transientList J' = [] \<and> jview map_of J' 4 = None"
proof -
  have l: "transientList wit_journal = [4]" "acceptedList wit_journal = [5]" by (simp_all add: wit_journal_def)
  have w: "key_window (set (transientList wit_journal) \<union> set (acceptedList wit_journal) \<union> dom (jview map_of wit_journal))"
    by (rule key_window_subset[OF wit_journal_window]) (auto simp: l dom_wit_journal)
  show ?thesis
    using recover_complete_discards[OF list_db_laws wit_journal_inv w] by (auto simp: l fun_eq_iff)
qed

section \<open>Loading a slice\<close>

text \<open>What the code relies on of \<^verbatim>\<open>getLong\<close>: it reads back what \<^verbatim>\<open>putLong\<close> wrote.\<close>

definition long_codec :: "(u32 \<Rightarrow> bytes) \<Rightarrow> (bytes \<Rightarrow> u32) \<Rightarrow> bool" where
  "long_codec putLong getLong \<longleftrightarrow> (\<forall>x r. length (putLong x) = 4 \<and> getLong (putLong x @ r) = x)"

text \<open>A stored message: the transient flag, the length of the header, the header, the
  content.\<close>

definition stored_msg :: "(u32 \<Rightarrow> bytes) \<Rightarrow> u8 \<Rightarrow> bytes \<Rightarrow> bytes \<Rightarrow> bytes" where
  "stored_msg putLong flag hdr cont = flag # putLong (of_nat (length hdr)) @ hdr @ cont"

lemma unat_u32 [simp]: "n < 2 ^ 32 \<Longrightarrow> unat (of_nat n :: u32) = n"
  by (simp add: unsigned_of_nat take_bit_nat_eq_self)

lemma unat_ucast_u32 [simp]: "unat (ucast (x :: u32) :: u64) = unat x"
proof -
  have "unat x < 2 ^ LENGTH(32)" by (rule unsigned_less)
  then show ?thesis by (simp add: unsigned_ucast_eq take_bit_nat_eq_self)
qed

lemma unat_add_u64: "unat x + unat y < 2 ^ 64 \<Longrightarrow> unat (x + y :: u64) = unat x + unat y"
  by (simp add: unat_word_ariths)

lemma loadMsgContent_unfold:
  assumes laws: "bdb_laws bt_compare_func api view" and inv: "jinv view J"
    and win: "key_window (insert rid (dom (jview view J)))"
    and cod: "long_codec putLong getLong"
    and v: "jview view J rid = Some (stored_msg putLong flag hdr cont)"
    and sz: "length hdr + length cont + 5 < 2 ^ 32"
    and off: "unat offset < 2 ^ 62" and len: "unat len < 2 ^ 62"
  shows "loadMsgContent api getLong rid data len offset J =
    (case slice (stored_msg putLong flag hdr cont) (length hdr + 5 + unat offset)
        (if length cont < unat offset + unat len then unat (of_nat (length cont) - offset) else unat len) of
       Inl e \<Rightarrow> Inl e | Inr d \<Rightarrow> Inr (True, data @ d))"
proof -
  let ?v = "stored_msg putLong flag hdr cont" and ?h = "length hdr" and ?c = "length cont"
  obtain d where d: "sub_db J rid = Inr (jindex J rid, d)" "jview view J rid = view d rid" "dom (view d) \<subseteq> dom (jview view J)"
    by (rule sub_db_index[OF inv])
  have "key_window (insert rid (dom (view d)))" by (rule key_window_subset[OF win]) (use d(3) in blast)
  then have g: "api_get api rid d = Inr (DbOk, ?v)" using law_get(1)[OF laws] d(2) v by simp
  have l: "length ?v = ?h + 5 + ?c" and gl: "getLong (drop (Suc 0) ?v) = of_nat ?h"
    using cod by (simp_all add: stored_msg_def long_codec_def)
  define H S :: u32 where "H = of_nat (?h + 5)" and "S = of_nat (?h + 5 + ?c)"
  have co: "of_nat ?h + 5 = H" by (simp add: H_def)
  have cs: "S - H = of_nat ?c" by (simp add: H_def S_def)
  have uH: "unat H = ?h + 5" unfolding H_def by (rule unat_u32) (use sz in simp)
  have uS: "unat S = ?h + 5 + ?c" unfolding S_def by (rule unat_u32) (use sz in simp)
  have u1: "unat (ucast H + offset :: u64) = ?h + 5 + unat offset"
    using sz off uH by (subst unat_add_u64) simp_all
  have u2: "unat (ucast H + offset + len :: u64) = ?h + 5 + unat offset + unat len"
    using sz off len u1 by (subst unat_add_u64) simp_all
  have u3: "(ucast (of_nat ?c :: u32) :: u64) = of_nat ?c"
  proof -
    have "unat (of_nat ?c :: u64) = ?c" using sz by (simp add: unsigned_of_nat take_bit_nat_eq_self)
    then show ?thesis using sz by (simp add: word_unat_eq_iff)
  qed
  have gt: "ucast H + offset + len > (ucast S :: u64) \<longleftrightarrow> ?c < unat offset + unat len"
    by (simp only: word_less_nat_alt u2 unat_ucast_u32 uS) linarith
  have lS: "of_nat (length ?v) = S" by (simp only: l S_def)
  have "\<not> length ?v < 5" using l by simp
  then show ?thesis
    using inv d(1) g unfolding loadMsgContent_def
    by (simp add: jinv_def Let_def gl co lS cs u1 u3 gt)
qed

text \<open>C33. Asked for a range that starts inside the content, \<^verbatim>\<open>loadMsgContent\<close> appends exactly the
  bytes of the content from the offset on, as many as asked for or as there are.\<close>

theorem loadMsgContent_slice:
  assumes "bdb_laws bt_compare_func api view" and "jinv view J"
    and "key_window (insert rid (dom (jview view J)))" and "long_codec putLong getLong"
    and "jview view J rid = Some (stored_msg putLong flag hdr cont)"
    and "length hdr + length cont + 5 < 2 ^ 32"
    and "unat offset \<le> length cont" and "unat len < 2 ^ 62"
  shows "loadMsgContent api getLong rid data len offset J =
    Inr (True, data @ take (unat len) (drop (unat offset) cont))"
proof -
  have o: "unat offset < 2 ^ 62" using assms(6,7) by simp
  have p: "length (putLong x) = 4" for x using assms(4) by (simp add: long_codec_def)
  have uc: "unat (of_nat (length cont) :: u64) = length cont"
    using assms(6) by (simp add: unsigned_of_nat take_bit_nat_eq_self)
  have le: "offset \<le> of_nat (length cont)" using assms(7) uc by (simp add: word_le_nat_alt)
  have us: "unat (of_nat (length cont) - offset) = length cont - unat offset"
    using unat_sub[OF le] uc by simp
  have s: "slice (stored_msg putLong flag hdr cont) (length hdr + 5 + unat offset) n = Inr (take n (drop (unat offset) cont))"
    if "unat offset + n \<le> length cont" for n
  proof -
    have "drop (length hdr + 5 + unat offset) (stored_msg putLong flag hdr cont) = drop (unat offset) cont"
      using p by (simp add: stored_msg_def numeral_eq_Suc)
    then show ?thesis using that assms(6) p by (simp add: slice_def) (simp add: stored_msg_def)
  qed
  show ?thesis
    unfolding loadMsgContent_unfold[OF assms(1-6) o assms(8)]
    using s[of "unat len"] s[of "length cont - unat offset"] assms(7) us by auto
qed

text \<open>C34. An offset behind the end of the content makes the length wrap around; the call
  throws instead of answering (and the buffer Berkeley DB allocated is lost).\<close>

theorem loadMsgContent_past_end:
  assumes "bdb_laws bt_compare_func api view" and "jinv view J"
    and "key_window (insert rid (dom (jview view J)))" and "long_codec putLong getLong"
    and "jview view J rid = Some (stored_msg putLong flag hdr cont)"
    and "length hdr + length cont + 5 < 2 ^ 32"
    and "length cont < unat offset" and "unat offset < 2 ^ 62" and "unat len < 2 ^ 62"
  shows "loadMsgContent api getLong rid data len offset J = Inl BadAlloc"
proof -
  let ?c = "of_nat (length cont) :: u64"
  have uc: "unat ?c = length cont" using assms(6) by (simp add: unsigned_of_nat take_bit_nat_eq_self)
  then have lt: "?c < offset" using assms(7) by (simp add: word_less_nat_alt)
  have "2 ^ 63 \<le> unat (?c - offset)"
  proof (rule ccontr)
    assume n: "\<not> 2 ^ 63 \<le> unat (?c - offset)"
    have "unat (offset - ?c) = unat offset - length cont" using lt uc by (simp add: unat_sub order_less_imp_le)
    then have "unat (offset - ?c) < 2 ^ 62" "0 < unat (offset - ?c)" using assms(7,8) by simp_all
    with n unat_add_u64[of "?c - offset" "offset - ?c"] show False by simp
  qed
  with assms(7) show ?thesis
    unfolding loadMsgContent_unfold[OF assms(1-6,8,9)] by (simp add: slice_def)
qed

definition wit_putLong :: "u32 \<Rightarrow> bytes" where
  "wit_putLong x = map (\<lambda>i. ucast (drop_bit (8 * i) x)) [0..<4]"

definition wit_getLong :: "bytes \<Rightarrow> u32" where
  "wit_getLong bs = word_of_int (horner_sum uint (2 ^ LENGTH(8)) (take 4 bs))"

lemma wit_long_codec: "long_codec wit_putLong wit_getLong"
  unfolding long_codec_def
proof (intro allI conjI)
  fix x :: u32 and r :: bytes
  show "length (wit_putLong x) = 4" by (simp add: wit_putLong_def)
  have "wit_getLong (wit_putLong x @ r) = wit_getLong (wit_putLong x)" by (simp add: wit_getLong_def wit_putLong_def)
  also have "\<dots> = x"
  proof (rule bit_eqI)
    fix n assume "possible_bit TYPE(u32) n"
    then have n: "n < 32" by simp
    then have "n div 8 < 4" by simp
    with n show "bit (wit_getLong (wit_putLong x)) n = bit x n"
      by (simp add: wit_getLong_def wit_putLong_def bit_word_of_int_iff bit_unsigned_iff bit_drop_bit_eq
          bit_horner_sum_uint_exp_iff[where 'a = 8, simplified])
  qed
  finally show "wit_getLong (wit_putLong x @ r) = x" .
qed

definition wit_journal2 :: "(u64 \<times> bytes) list journal" where
  "wit_journal2 = wit_journal\<lparr>num_jfiles := 1, messageDbs := [Some [(3, stored_msg wit_putLong 0 [7] [10, 11, 12])]]\<rparr>"

lemma wit_journal2_ok:
  "jinv map_of wit_journal2" "jview map_of wit_journal2 3 = Some (stored_msg wit_putLong 0 [7] [10, 11, 12])"
  "key_window (insert 3 (dom (jview map_of wit_journal2)))"
proof -
  show "jinv map_of wit_journal2" by (auto simp: jinv_def jindex_def wit_journal2_def wit_journal_def split: if_splits)
  show "jview map_of wit_journal2 3 = Some (stored_msg wit_putLong 0 [7] [10, 11, 12])"
    by (simp add: jview_def jindex_def wit_journal2_def)
  have "dom (jview map_of wit_journal2) \<subseteq> {3}"
    by (auto simp: jview_def jindex_def wit_journal2_def split: if_splits)
  then have "insert 3 (dom (jview map_of wit_journal2)) \<subseteq> {3}" by blast
  moreover have "key_window {3}" by (simp add: key_window_def)
  ultimately show "key_window (insert 3 (dom (jview map_of wit_journal2)))" by (rule key_window_subset[rotated])
qed

theorem loadMsgContent_slice_witness:
  "loadMsgContent (list_db bt_compare_func) wit_getLong 3 [1] 9 1 wit_journal2 = Inr (True, [1, 11, 12])"
  using loadMsgContent_slice[OF list_db_laws wit_journal2_ok(1,3) wit_long_codec wit_journal2_ok(2), of 1 9 "[1]"]
  by simp

theorem loadMsgContent_past_end_witness:
  "loadMsgContent (list_db bt_compare_func) wit_getLong 3 [1] 9 4 wit_journal2 = Inl BadAlloc"
  using loadMsgContent_past_end[OF list_db_laws wit_journal2_ok(1,3) wit_long_codec wit_journal2_ok(2), of 4 9 "[1]"]
  by simp

section \<open>Journals that cannot work, keys that collide\<close>

text \<open>A journal built with \<^verbatim>\<open>create_bdb = false\<close> is meant to be a dummy that ignores its
  calls. Its member \<^verbatim>\<open>create_bdb\<close> is true and its file count 0, so enqueue, dequeue, load
  and the existence check all divide by zero instead.\<close>

theorem dummy_journal_divides_by_zero:
  assumes "JournalImpl name qpid jdir bdir n False agent = Inr J"
  shows "enqueue_data api v pid J = Inl (Fault DivisionByZero) \<and>
    dequeue_data api pid J = Inl (Fault DivisionByZero) \<and>
    is_enqueued api pid J = Inl (Fault DivisionByZero) \<and>
    loadMsgContent api getLong pid buf len off J = Inl (Fault DivisionByZero)"
proof -
  have "create_bdb J" "num_jfiles J = 0"
    using assms by (auto simp: JournalImpl_def Let_def split: if_splits)
  then show ?thesis
    by (simp add: enqueue_data_def dequeue_data_def is_enqueued_def loadMsgContent_def sub_db_def)
qed

theorem dummy_journal_divides_by_zero_witness:
  "\<exists>J. JournalImpl ''q'' 7 ''j/'' ''d/'' 8 False False = Inr J \<and>
    enqueue_data (list_db bt_compare_func) [1] 5 J = Inl (Fault DivisionByZero)"
proof -
  obtain J :: "(u64 \<times> bytes) list journal" where J: "JournalImpl ''q'' 7 ''j/'' ''d/'' 8 False False = Inr J"
    by (simp add: JournalImpl_def Let_def)
  show ?thesis using J dummy_journal_divides_by_zero[OF J, of "list_db bt_compare_func" "[1]" 5] by blast
qed



section \<open>Names and transactions\<close>

lemma string_nat_zeros: "string_nat (replicate n CHR ''0'' @ s) = string_nat s"
  by (induction n) (simp_all add: string_nat_def)

text \<open>The databases of a journal have different files: no two indices share a path.\<close>

theorem getSubDbPath_inj: "getSubDbPath J a = getSubDbPath J b \<longleftrightarrow> a = b"
proof
  assume "getSubDbPath J a = getSubDbPath J b"
  then have "pad3 (nat_string a) = pad3 (nat_string b)" by (simp add: getSubDbPath_def getSubDbName_def)
  then have "string_nat (pad3 (nat_string a)) = string_nat (pad3 (nat_string b))" by simp
  then show "a = b" by (simp add: pad3_def string_nat_zeros)
qed simp

text \<open>A logged transaction that touched a queue can neither commit nor abort: completing
  it always ends in a store exception.\<close>

theorem completeTxn_always_throws:
  assumes "loggedtx t" and "impactedQueues t \<noteq> [] \<or> preparedXidStorePtr t \<noteq> None"
  shows "\<exists>m. completeTxn t commit = Inl (StoreException m)"
  using assms
  by (cases "impactedQueues t"; cases commit)
    (auto simp: completeTxn_def commitTxn_def txn_commit_def txn_abort_def jexception_in_def)

theorem completeTxn_always_throws_witness:
  "\<exists>m. completeTxn (addXidRecord wit_journal (fst (TxnCtxt True 1 [] (\<lambda>_. [])))) True = Inl (StoreException m)"
  by (rule completeTxn_always_throws) (simp_all add: addXidRecord_def TxnCtxt_def IdSequence_next_def)

end
