(* ===== verification/Jdir.thy ===== *)
theory Jdir
  imports Jerrno
begin

text \<open>
  \<^verbatim>\<open>lib/jrnl/jdir.cpp\<close>: creating, clearing, backing up, verifying and deleting directories.
  The system calls it makes act on a tree of nodes, one association list entry per node;
  a call may also fail for reasons outside the tree (\<open>deny\<close>). Symbolic links and the
  special meaning of \<^verbatim>\<open>.\<close> and \<^verbatim>\<open>..\<close> inside a path are not modelled. A directory stream
  delivers the entries the directory had when it was opened.
\<close>

section \<open>The file system\<close>

text \<open>A node that is neither a regular file nor a directory carries its \<^verbatim>\<open>st_mode\<close>.\<close>

datatype node = Reg | Dir | Special nat

datatype syscall = SysMkdir | SysStat | SysOpendir | SysClosedir | SysRename | SysUnlink | SysRmdir

type_synonym path = "string list"

record fs =
  nodes :: "(path \<times> node) list"
  cwd :: path
  deny :: "syscall \<Rightarrow> path \<Rightarrow> int option"
  strerror :: "int \<Rightarrow> string"

fun splits :: "string \<Rightarrow> string list" where
  "splits [] = [[]]"
| "splits (c # cs) = (if c = CHR ''/'' then [] # splits cs
                      else case splits cs of [] \<Rightarrow> [[c]] | x # xs \<Rightarrow> (c # x) # xs)"

definition comps :: "string \<Rightarrow> path" where
  "comps p = filter (\<lambda>c. c \<noteq> []) (splits p)"

definition resolve :: "fs \<Rightarrow> string \<Rightarrow> path" where
  "resolve F p = (if p \<noteq> [] \<and> hd p = CHR ''/'' then comps p else cwd F @ comps p)"

definition lookup :: "fs \<Rightarrow> path \<Rightarrow> node option" where
  "lookup F q = (if q = [] then Some Dir else map_of (nodes F) q)"

definition ENOENT :: int where "ENOENT = 2"
definition EBUSY :: int where "EBUSY = 16"
definition EEXIST :: int where "EEXIST = 17"
definition ENOTDIR :: int where "ENOTDIR = 20"
definition EISDIR :: int where "EISDIR = 21"
definition ENOTEMPTY :: int where "ENOTEMPTY = 39"

lemmas errno_defs = ENOENT_def EBUSY_def EEXIST_def ENOTDIR_def EISDIR_def ENOTEMPTY_def

text \<open>Why a path leads nowhere: a component on the way is not a directory, or is missing.\<close>

definition path_err :: "fs \<Rightarrow> path \<Rightarrow> int" where
  "path_err F q =
     (if list_ex (\<lambda>k. lookup F (take k q) \<noteq> None \<and> lookup F (take k q) \<noteq> Some Dir) [0..<length q] then ENOTDIR else ENOENT)"

definition sys_stat :: "string \<Rightarrow> fs \<Rightarrow> int + node" where
  "sys_stat p F =
     (if p = [] then Inl ENOENT
      else let q = resolve F p
           in case deny F SysStat q of
                Some n \<Rightarrow> Inl n
              | None \<Rightarrow> (case lookup F q of
                           None \<Rightarrow> Inl (path_err F q)
                         | Some n \<Rightarrow> if n \<noteq> Dir \<and> last p = CHR ''/'' then Inl ENOTDIR else Inr n))"

definition sys_mkdir :: "string \<Rightarrow> fs \<Rightarrow> int + fs" where
  "sys_mkdir p F =
     (if p = [] then Inl ENOENT
      else let q = resolve F p
           in if lookup F q \<noteq> None then Inl EEXIST
              else case deny F SysMkdir q of
                     Some n \<Rightarrow> Inl n
                   | None \<Rightarrow> (case lookup F (butlast q) of
                                Some Dir \<Rightarrow> Inr (F\<lparr>nodes := nodes F @ [(q, Dir)]\<rparr>)
                              | _ \<Rightarrow> Inl (path_err F q)))"

definition entries :: "fs \<Rightarrow> path \<Rightarrow> string list" where
  "entries F q = map (last \<circ> fst) (filter (\<lambda>(k, _). k \<noteq> [] \<and> butlast k = q) (nodes F))"

text \<open>\<^verbatim>\<open>opendir\<close>, with what the successive calls of \<^verbatim>\<open>readdir\<close> return.\<close>

definition sys_opendir :: "string \<Rightarrow> fs \<Rightarrow> int + string list" where
  "sys_opendir p F =
     (if p = [] then Inl ENOENT
      else let q = resolve F p
           in case deny F SysOpendir q of
                Some n \<Rightarrow> Inl n
              | None \<Rightarrow> (case lookup F q of
                           None \<Rightarrow> Inl (path_err F q)
                         | Some n \<Rightarrow> if n = Dir then Inr (''.'' # ''..'' # entries F q) else Inl ENOTDIR))"

definition sys_closedir :: "string \<Rightarrow> fs \<Rightarrow> int option" where
  "sys_closedir p F = deny F SysClosedir (resolve F p)"

definition under :: "path \<Rightarrow> path \<Rightarrow> bool" where
  "under q k = (take (length q) k = q)"

definition sys_rename :: "string \<Rightarrow> string \<Rightarrow> fs \<Rightarrow> int + fs" where
  "sys_rename old new F =
     (let q = resolve F old; r = resolve F new
      in case deny F SysRename q of
           Some n \<Rightarrow> Inl n
         | None \<Rightarrow>
             (case lookup F q of
                None \<Rightarrow> Inl (path_err F q)
              | Some n \<Rightarrow>
                  (if lookup F (butlast r) \<noteq> Some Dir then Inl (path_err F r)
                   else if q = r then Inr F
                   else if n \<noteq> Dir \<and> lookup F r = Some Dir then Inl EISDIR
                   else if n = Dir \<and> lookup F r \<noteq> None \<and> lookup F r \<noteq> Some Dir then Inl ENOTDIR
                   else if entries F r \<noteq> [] then Inl ENOTEMPTY
                   else if under q r then Inl 22
                   else Inr (F\<lparr>nodes := map (\<lambda>(k, m). (if under q k then r @ drop (length q) k else k, m))
                                  (filter (\<lambda>(k, m). k \<noteq> r) (nodes F))\<rparr>))))"

definition sys_unlink :: "string \<Rightarrow> fs \<Rightarrow> int + fs" where
  "sys_unlink p F =
     (let q = resolve F p
      in case deny F SysUnlink q of
           Some n \<Rightarrow> Inl n
         | None \<Rightarrow> (case lookup F q of
                      None \<Rightarrow> Inl (path_err F q)
                    | Some n \<Rightarrow> if n = Dir then Inl EISDIR
                                else Inr (F\<lparr>nodes := filter (\<lambda>(k, m). k \<noteq> q) (nodes F)\<rparr>)))"

definition sys_rmdir :: "string \<Rightarrow> fs \<Rightarrow> int + fs" where
  "sys_rmdir p F =
     (let q = resolve F p
      in case deny F SysRmdir q of
           Some n \<Rightarrow> Inl n
         | None \<Rightarrow> (case lookup F q of
                      None \<Rightarrow> Inl (path_err F q)
                    | Some n \<Rightarrow> if n \<noteq> Dir then Inl ENOTDIR
                                else if q = [] then Inl EBUSY
                                else if entries F q \<noteq> [] then Inl ENOTEMPTY
                                else Inr (F\<lparr>nodes := filter (\<lambda>(k, m). k \<noteq> q) (nodes F)\<rparr>)))"

section \<open>The operations of jdir\<close>

text \<open>\<^verbatim>\<open>FORMAT_SYSERR(errno)\<close> and the two shapes of additional information.\<close>

definition format_syserr :: "fs \<Rightarrow> int \<Rightarrow> string" where
  "format_syserr F n = '' errno='' @ int_string n @ '' ('' @ strerror F n @ '')''"

definition dir_info :: "fs \<Rightarrow> string \<Rightarrow> int \<Rightarrow> string" where
  "dir_info F d n = ''dir=\"'' @ d @ ''\"'' @ format_syserr F n"

definition file_info :: "fs \<Rightarrow> string \<Rightarrow> int \<Rightarrow> string" where
  "file_info F f n = ''file=\"'' @ f @ ''\"'' @ format_syserr F n"

definition jdir_error :: "u32 \<Rightarrow> string \<Rightarrow> string \<Rightarrow> exn" where
  "jdir_error code info fn = jexception_full code info ''jdir'' fn"

definition exists :: "string \<Rightarrow> fs \<Rightarrow> exn + bool" where
  "exists name F =
     (case sys_stat name F of
        Inl n \<Rightarrow> if n = ENOENT then Inr False else Inl (jdir_error JERR_JDIR_STAT (file_info F name n) ''is_dir'')
      | Inr _ \<Rightarrow> Inr True)"

definition is_dir :: "string \<Rightarrow> fs \<Rightarrow> exn + bool" where
  "is_dir name F =
     (case sys_stat name F of
        Inl n \<Rightarrow> Inl (jdir_error JERR_JDIR_STAT (file_info F name n) ''is_dir'')
      | Inr m \<Rightarrow> Inr (m = Dir))"

definition close_dir :: "string \<Rightarrow> string \<Rightarrow> fs \<Rightarrow> exn + unit" where
  "close_dir dir_name fn_name F =
     (case sys_closedir dir_name F of
        Some n \<Rightarrow> Inl (jdir_error JERR_JDIR_CLOSEDIR (dir_info F dir_name n) fn_name)
      | None \<Rightarrow> Inr ())"

text \<open>\<^verbatim>\<open>dirname.substr(0, dirname.find_last_of('/'))\<close>.\<close>

definition parent_dir :: "string \<Rightarrow> string option" where
  "parent_dir d = (if CHR ''/'' \<in> set d then Some (rev (tl (dropWhile (\<lambda>c. c \<noteq> CHR ''/'') (rev d)))) else None)"

definition mkdir_unless_exists :: "string \<Rightarrow> fs \<Rightarrow> exn + fs" where
  "mkdir_unless_exists d F =
     (case sys_mkdir d F of
        Inr F' \<Rightarrow> Inr F'
      | Inl n \<Rightarrow> if n \<noteq> EEXIST then Inl (jdir_error JERR_JDIR_MKDIR (dir_info F d n) ''create_dir'') else Inr F)"

lemma parent_dir_shorter: "parent_dir d = Some pd \<Longrightarrow> length pd < length d"
proof -
  assume a: "parent_dir d = Some pd"
  then have s: "CHR ''/'' \<in> set d" and p: "pd = rev (tl (dropWhile (\<lambda>c. c \<noteq> CHR ''/'') (rev d)))"
    by (auto simp: parent_dir_def split: if_splits)
  have "length (dropWhile (\<lambda>c. c \<noteq> CHR ''/'') (rev d)) \<le> length d"
    using length_dropWhile_le[of _ "rev d"] by simp
  moreover have "dropWhile (\<lambda>c. c \<noteq> CHR ''/'') (rev d) \<noteq> []" using s by (auto simp: dropWhile_eq_Nil_conv)
  moreover have "d \<noteq> []" using s by auto
  ultimately show ?thesis using p by (cases "dropWhile (\<lambda>c. c \<noteq> CHR ''/'') (rev d)") auto
qed

function create_dir :: "string \<Rightarrow> fs \<Rightarrow> exn + fs" where
  "create_dir d F =
     (case parent_dir d of
        None \<Rightarrow> mkdir_unless_exists d F
      | Some pd \<Rightarrow>
          (case exists pd F of
             Inl e \<Rightarrow> Inl e
           | Inr True \<Rightarrow> mkdir_unless_exists d F
           | Inr False \<Rightarrow> (case create_dir pd F of Inl e \<Rightarrow> Inl e | Inr F' \<Rightarrow> mkdir_unless_exists d F')))"
  by auto
termination by (relation "measure (length \<circ> fst)") (auto dest: parent_dir_shorter)

declare create_dir.simps [simp del]

definition verify_dir :: "string \<Rightarrow> string \<Rightarrow> fs \<Rightarrow> exn + unit" where
  "verify_dir dirname base_filename F =
     (case is_dir dirname F of
        Inl e \<Rightarrow> Inl e
      | Inr False \<Rightarrow> Inl (jdir_error JERR_JDIR_NOTDIR (''dir=\"'' @ dirname @ ''\"'') ''verify_dir'')
      | Inr True \<Rightarrow>
          (let f = dirname @ ''/'' @ base_filename
           in case exists f F of
                Inl e \<Rightarrow> Inl e
              | Inr False \<Rightarrow> Inl (jdir_error JERR_JDIR_NOSUCHFILE f ''verify_dir'')
              | Inr True \<Rightarrow> Inr ()))"

section \<open>Backup directories\<close>

text \<open>\<^verbatim>\<open>strtol(s, 0, 16)\<close>: leading blanks, a sign, an optional \<^verbatim>\<open>0x\<close>, then digits as long as
  there are any.\<close>

definition hex_val :: "char \<Rightarrow> nat option" where
  "hex_val c = (let n = of_char c in
     if 48 \<le> n \<and> n \<le> 57 then Some (n - 48) else if 97 \<le> n \<and> n \<le> 102 then Some (n - 87)
     else if 65 \<le> n \<and> n \<le> 70 then Some (n - 55) else None)"

fun hex_digits :: "nat \<Rightarrow> string \<Rightarrow> nat" where
  "hex_digits acc [] = acc"
| "hex_digits acc (c # cs) = (case hex_val c of None \<Rightarrow> acc | Some d \<Rightarrow> hex_digits (16 * acc + d) cs)"

definition is_space :: "char \<Rightarrow> bool" where
  "is_space c = (of_char c = (32 :: nat) \<or> 9 \<le> (of_char c :: nat) \<and> (of_char c :: nat) \<le> 13)"

definition hex_unsigned :: "string \<Rightarrow> int" where
  "hex_unsigned s =
     (case s of
        z # x # d # r \<Rightarrow> if z = CHR ''0'' \<and> (x = CHR ''x'' \<or> x = CHR ''X'') \<and> hex_val d \<noteq> None
                         then int (hex_digits 0 (d # r)) else int (hex_digits 0 s)
      | _ \<Rightarrow> int (hex_digits 0 s))"

definition strtol16 :: "string \<Rightarrow> int" where
  "strtol16 s =
     (let t = dropWhile is_space s
      in if t \<noteq> [] \<and> hd t = CHR ''-'' then - hex_unsigned (tl t)
         else if t \<noteq> [] \<and> hd t = CHR ''+'' then hex_unsigned (tl t) else hex_unsigned t)"

definition bak_prefix :: "string \<Rightarrow> string" where
  "bak_prefix base = ''_'' @ base @ ''.bak.''"

fun bak_num :: "string \<Rightarrow> string list \<Rightarrow> int \<Rightarrow> int" where
  "bak_num base [] dir_num = dir_num"
| "bak_num base (e # es) dir_num =
     (if e \<noteq> ''.'' \<and> e \<noteq> ''..'' \<and> length e = length base + 10 \<and>
         take (length base + 6) e = take (length base + 6) (bak_prefix base)
      then bak_num base es (let this = strtol16 (drop (length base + 6) e) in if this > dir_num then this else dir_num)
      else bak_num base es dir_num)"

definition create_bak_dir :: "string \<Rightarrow> string \<Rightarrow> fs \<Rightarrow> exn + string \<times> fs" where
  "create_bak_dir dirname base_filename F =
     (case sys_opendir dirname F of
        Inl n \<Rightarrow> Inl (jdir_error JERR_JDIR_OPENDIR (dir_info F dirname n) ''create_bak_dir'')
      | Inr es \<Rightarrow>
          (let dir_num = bak_num base_filename es 0
           in case close_dir dirname ''create_bak_dir'' F of
                Inl e \<Rightarrow> Inl e
              | Inr _ \<Rightarrow>
                  (let dn = dirname @ ''/'' @ bak_prefix base_filename @ pad0 4 (hex_string (nat (dir_num + 1)))
                   in case sys_mkdir dn F of
                        Inl n \<Rightarrow> Inl (jdir_error JERR_JDIR_MKDIR (dir_info F dn n) ''create_bak_dir'')
                      | Inr F' \<Rightarrow> Inr (dn, F'))))"

fun clear_loop :: "string \<Rightarrow> string \<Rightarrow> string list \<Rightarrow> string option \<Rightarrow> fs \<Rightarrow> exn + fs" where
  "clear_loop dirname base [] bak F = Inr F"
| "clear_loop dirname base (e # es) bak F =
     (if e \<noteq> ''.'' \<and> e \<noteq> ''..'' \<and> length e > length base \<and> take (length base) e = base
      then (case (case bak of Some b \<Rightarrow> Inr (b, F) | None \<Rightarrow> create_bak_dir dirname base F) of
              Inl x \<Rightarrow> Inl x
            | Inr (b, F') \<Rightarrow>
                (let oldname = dirname @ ''/'' @ e; newname = b @ ''/'' @ e
                 in case sys_rename oldname newname F' of
                      Inl n \<Rightarrow> Inl (jdir_error JERR_JDIR_FMOVE
                         (''file=\"'' @ oldname @ ''\" dest=\"'' @ newname @ ''\"'' @ format_syserr F' n) ''clear_dir'')
                    | Inr F'' \<Rightarrow> clear_loop dirname base es (Some b) F''))
      else clear_loop dirname base es bak F)"

definition clear_dir :: "string \<Rightarrow> string \<Rightarrow> bool \<Rightarrow> fs \<Rightarrow> exn + fs" where
  "clear_dir dirname base_filename create_flag F =
     (case sys_opendir dirname F of
        Inl n \<Rightarrow> if n = 2 \<and> create_flag then create_dir dirname F
                 else Inl (jdir_error JERR_JDIR_OPENDIR (dir_info F dirname n) ''clear_dir'')
      | Inr es \<Rightarrow>
          (case clear_loop dirname base_filename es None F of
             Inl e \<Rightarrow> Inl e
           | Inr F' \<Rightarrow> (case close_dir dirname ''clear_dir'' F' of Inl e \<Rightarrow> Inl e | Inr _ \<Rightarrow> Inr F')))"

definition push_down :: "string \<Rightarrow> string \<Rightarrow> string \<Rightarrow> fs \<Rightarrow> exn + string \<times> fs" where
  "push_down dirname target_dir bak_dir_base F =
     (case create_bak_dir dirname bak_dir_base F of
        Inl e \<Rightarrow> Inl e
      | Inr (bak, F1) \<Rightarrow>
          (case sys_opendir dirname F1 of
             Inl n \<Rightarrow> Inl (jdir_error JERR_JDIR_OPENDIR (dir_info F1 dirname n) ''push_down'')
           | Inr es \<Rightarrow>
               (let oldname = dirname @ ''/'' @ target_dir; newname = bak @ ''/'' @ target_dir
                in case (if target_dir \<in> set es then sys_rename oldname newname F1 else Inr F1) of
                     Inl n \<Rightarrow> Inl (jdir_error JERR_JDIR_FMOVE
                        (''file=\"'' @ oldname @ ''\" dest=\"'' @ newname @ ''\"'' @ format_syserr F1 n) ''push_down'')
                   | Inr F2 \<Rightarrow> (case close_dir dirname ''push_down'' F2 of Inl e \<Rightarrow> Inl e | Inr _ \<Rightarrow> Inr (bak, F2)))))"

section \<open>Deleting a tree\<close>

text \<open>The recursion follows the depth of the tree; \<open>fuel\<close> bounds it, and \<open>delete_dir\<close> starts
  with more than the depth of any node.\<close>

fun delete_dir_fuel :: "nat \<Rightarrow> string \<Rightarrow> bool \<Rightarrow> fs \<Rightarrow> exn + fs"
  and delete_entries :: "nat \<Rightarrow> string \<Rightarrow> string list \<Rightarrow> fs \<Rightarrow> exn + fs" where
  "delete_dir_fuel 0 dirname children_only F = Inl (Fault NoReturn)"
| "delete_dir_fuel (Suc n) dirname children_only F =
     (case sys_opendir dirname F of
        Inl x \<Rightarrow> if x = ENOENT then Inr F
                 else Inl (jdir_error JERR_JDIR_OPENDIR (dir_info F dirname x) ''delete_dir'')
      | Inr es \<Rightarrow>
          (case delete_entries n dirname es F of
             Inl e \<Rightarrow> Inl e
           | Inr F1 \<Rightarrow>
               (case close_dir dirname ''delete_dir'' F1 of
                  Inl e \<Rightarrow> Inl e
                | Inr _ \<Rightarrow>
                    (if \<not> children_only
                     then (case sys_rmdir dirname F1 of
                             Inl x \<Rightarrow> Inl (jdir_error JERR_JDIR_RMDIR (dir_info F1 dirname x) ''delete_dir'')
                           | Inr F2 \<Rightarrow> Inr F2)
                     else Inr F1))))"
| "delete_entries n dirname [] F = Inr F"
| "delete_entries n dirname (e # es) F =
     (if e \<noteq> ''.'' \<and> e \<noteq> ''..''
      then let full_name = dirname @ ''/'' @ e
           in (case sys_stat full_name F of
                 Inl x \<Rightarrow> Inl (jdir_error JERR_JDIR_STAT (''stat: file=\"'' @ full_name @ ''\"'' @ format_syserr F x) ''delete_dir'')
               | Inr Reg \<Rightarrow>
                   (case sys_unlink full_name F of
                      Inl x \<Rightarrow> Inl (jdir_error JERR_JDIR_UNLINK (''unlink: file=\"'' @ e @ ''\"'' @ format_syserr F x) ''delete_dir'')
                    | Inr F' \<Rightarrow> delete_entries n dirname es F')
               | Inr Dir \<Rightarrow>
                   (case delete_dir_fuel n full_name False F of
                      Inl x \<Rightarrow> Inl x
                    | Inr F' \<Rightarrow> delete_entries n dirname es F')
               | Inr (Special mode) \<Rightarrow>
                   Inl (jdir_error JERR_JDIR_BADFTYPE (''file=\"'' @ e @ ''\" is not a dir, file or slink.'' @
                     '' (mode=0x'' @ hex_string mode @ '')'') ''delete_dir''))
      else delete_entries n dirname es F)"

definition depth :: "fs \<Rightarrow> nat" where
  "depth F = Max (insert 0 ((length \<circ> fst) ` set (nodes F)))"

definition delete_dir :: "string \<Rightarrow> bool \<Rightarrow> fs \<Rightarrow> exn + fs" where
  "delete_dir dirname children_only F = delete_dir_fuel (depth F + 2) dirname children_only F"

section \<open>Lemmas on paths\<close>

lemma splits_not_Nil [simp]: "splits s \<noteq> []"
  by (cases s) (auto split: list.splits)

lemma splits_append_slash: "splits (a @ CHR ''/'' # b) = splits a @ splits b"
proof (induction a)
  case (Cons c a)
  then show ?case by (cases "splits a") auto
qed simp

lemma splits_no_slash: "CHR ''/'' \<notin> set c \<Longrightarrow> splits c = [c]"
  by (induction c) auto

lemma comps_append_slash: "comps (a @ CHR ''/'' # b) = comps a @ comps b"
  by (simp add: comps_def splits_append_slash)

lemma comps_no_slash: "CHR ''/'' \<notin> set c \<Longrightarrow> comps c = (if c = [] then [] else [c])"
  by (simp add: comps_def splits_no_slash)

lemma parent_dirD:
  assumes "parent_dir d = Some pd"
  obtains c where "d = pd @ CHR ''/'' # c" "CHR ''/'' \<notin> set c"
proof -
  let ?P = "\<lambda>c. c \<noteq> CHR ''/''"
  have s: "CHR ''/'' \<in> set d" and p: "pd = rev (tl (dropWhile ?P (rev d)))"
    using assms by (auto simp: parent_dir_def split: if_splits)
  have "dropWhile ?P (rev d) \<noteq> []" using s by (auto simp: dropWhile_eq_Nil_conv)
  then have "hd (dropWhile ?P (rev d)) = CHR ''/''" using hd_dropWhile[of ?P "rev d"] by simp
  with p \<open>dropWhile ?P (rev d) \<noteq> []\<close> have dw: "dropWhile ?P (rev d) = CHR ''/'' # rev pd"
    by (cases "dropWhile ?P (rev d)") simp_all
  have "rev d = takeWhile ?P (rev d) @ CHR ''/'' # rev pd" using dw takeWhile_dropWhile_id[of ?P "rev d"] by simp
  then have "d = pd @ CHR ''/'' # rev (takeWhile ?P (rev d))"
    by (metis append.assoc append_Cons append_Nil rev.simps(2) rev_append rev_rev_ident)
  moreover have "CHR ''/'' \<notin> set (rev (takeWhile ?P (rev d)))" by (auto dest: set_takeWhileD)
  ultimately show thesis by (rule that)
qed

lemma parent_dir_None: "parent_dir d = None \<longleftrightarrow> CHR ''/'' \<notin> set d"
  by (simp add: parent_dir_def)

lemma resolve_slash: "d \<noteq> [] \<Longrightarrow> resolve F (d @ CHR ''/'' # c) = resolve F d @ comps c"
  by (simp add: resolve_def comps_append_slash)

lemma resolve_upd [simp]: "resolve (F\<lparr>nodes := x\<rparr>) p = resolve F p"
  by (simp add: resolve_def)

text \<open>A well-formed tree: every node lies in a directory, names are non-empty and contain no
  slash, and no path occurs twice.\<close>

definition name_ok :: "string \<Rightarrow> bool" where
  "name_ok c \<longleftrightarrow> c \<noteq> [] \<and> CHR ''/'' \<notin> set c \<and> c \<noteq> ''.'' \<and> c \<noteq> ''..''"

definition fs_ok :: "fs \<Rightarrow> bool" where
  "fs_ok F \<longleftrightarrow> distinct (map fst (nodes F)) \<and> lookup F (cwd F) = Some Dir \<and>
     (\<forall>(k, n) \<in> set (nodes F). k \<noteq> [] \<and> (\<forall>c \<in> set k. name_ok c) \<and> (\<forall>j < length k. lookup F (take j k) = Some Dir))"

lemma fs_ok_prefix: "fs_ok F \<Longrightarrow> lookup F k = Some n \<Longrightarrow> j < length k \<Longrightarrow> lookup F (take j k) = Some Dir"
  unfolding fs_ok_def lookup_def by (auto split: if_splits dest!: map_of_SomeD)

lemma fs_ok_dir_prefix: "fs_ok F \<Longrightarrow> lookup F k = Some Dir \<Longrightarrow> lookup F (take j k) = Some Dir"
  by (cases "j < length k") (simp_all add: fs_ok_prefix)

definition allows :: "fs \<Rightarrow> bool" where
  "allows F \<longleftrightarrow> (\<forall>c q. deny F c q = None)"

lemma allows_upd [simp]: "allows (F\<lparr>nodes := x\<rparr>) = allows F"
  by (simp add: allows_def)

text \<open>Nothing but directories on the way.\<close>

definition clear_way :: "fs \<Rightarrow> path \<Rightarrow> bool" where
  "clear_way F q \<longleftrightarrow> (\<forall>k. lookup F (take k q) = None \<or> lookup F (take k q) = Some Dir)"

lemma clear_way_self: "clear_way F q \<Longrightarrow> lookup F q = None \<or> lookup F q = Some Dir"
  unfolding clear_way_def by (metis take_all order_refl)

lemma clear_way_append: "clear_way F (q @ r) \<Longrightarrow> clear_way F q"
  unfolding clear_way_def
proof
  fix k
  assume a: "\<forall>k. lookup F (take k (q @ r)) = None \<or> lookup F (take k (q @ r)) = Some Dir"
  have "take k q = take (min k (length q)) (q @ r)" by (simp add: min_def)
  then show "lookup F (take k q) = None \<or> lookup F (take k q) = Some Dir" using a by metis
qed

lemma exists_clear:
  assumes "allows F" and "clear_way F (resolve F p)" and "p \<noteq> []"
  shows "exists p F = Inr (lookup F (resolve F p) = Some Dir)"
proof -
  have "\<not> list_ex (\<lambda>k. lookup F (take k (resolve F p)) \<noteq> None \<and> lookup F (take k (resolve F p)) \<noteq> Some Dir) [0..<length (resolve F p)]"
    using assms(2) by (auto simp: clear_way_def list_ex_iff)
  then have "path_err F (resolve F p) = ENOENT" by (simp add: path_err_def)
  then show ?thesis
    using clear_way_self[OF assms(2)] assms(1,3)
    by (auto simp: exists_def sys_stat_def allows_def Let_def)
qed

section \<open>Creating a path\<close>

text \<open>The path leads where it should: every directory on the way to \<open>q\<close> exists and nothing else
  has changed.\<close>

definition path_made :: "fs \<Rightarrow> path \<Rightarrow> fs \<Rightarrow> bool" where
  "path_made F q F' \<longleftrightarrow> (\<forall>k. lookup F' (take k q) = Some Dir) \<and>
     (\<forall>r. (\<forall>k. r \<noteq> take k q) \<longrightarrow> lookup F' r = lookup F r) \<and> deny F' = deny F \<and> cwd F' = cwd F"

lemma lookup_mkdir:
  "lookup F q = None \<Longrightarrow> lookup (F\<lparr>nodes := nodes F @ [(q, n)]\<rparr>) r = (if r = q then Some n else lookup F r)"
  by (auto simp: lookup_def map_add_def split: option.splits if_splits)

lemma take_snoc_cases: "take k (q @ [c]) = (if k \<le> length q then take k q else q @ [c])"
  by simp

lemma not_prefix_snoc: "\<forall>k. s \<noteq> take k (q @ [c]) \<Longrightarrow> s \<noteq> take j q"
proof -
  assume "\<forall>k. s \<noteq> take k (q @ [c])"
  then have "s \<noteq> take (min j (length q)) (q @ [c])" by blast
  then show ?thesis by (cases "j \<le> length q") simp_all
qed

lemma mkdir_makes:
  assumes F': "path_made F q F'" and q: "resolve F' d = q @ [c] \<or> resolve F' d = q" and "d \<noteq> []"
    and al: "allows F" and cl: "clear_way F (resolve F' d)"
  shows "\<exists>F''. mkdir_unless_exists d F' = Inr F'' \<and> path_made F (resolve F' d) F''"
proof (cases "resolve F' d = q \<or> lookup F' (q @ [c]) = Some Dir")
  case True
  have self: "lookup F' q = Some Dir" using F' unfolding path_made_def by (metis take_all order_refl)
  with True q have ex: "lookup F' (resolve F' d) = Some Dir" by auto
  then have m: "mkdir_unless_exists d F' = Inr F'"
    using assms(3) by (simp add: mkdir_unless_exists_def sys_mkdir_def Let_def)
  have "path_made F (resolve F' d) F'"
  proof (cases "resolve F' d = q")
    case False
    then have r: "resolve F' d = q @ [c]" using q by simp
    have "lookup F' (take k (q @ [c])) = Some Dir" for k
      using F' ex r unfolding path_made_def take_snoc_cases by simp
    moreover have "lookup F' s = lookup F s" if "\<forall>k. s \<noteq> take k (q @ [c])" for s
    proof -
      have "s \<noteq> take k q" for k using not_prefix_snoc[OF that] .
      with F' show ?thesis unfolding path_made_def by blast
    qed
    ultimately show ?thesis using F' r unfolding path_made_def by simp
  qed (use F' in simp)
  with m show ?thesis by blast
next
  case False
  then have r: "resolve F' d = q @ [c]" using q by simp
  have self: "lookup F' q = Some Dir" using F' unfolding path_made_def by (metis take_all order_refl)
  have nt: "q @ [c] \<noteq> take k q" for k by (rule notI, drule arg_cong[of _ _ length]) simp
  have "lookup F' (q @ [c]) = lookup F (q @ [c])" using F' nt unfolding path_made_def by blast
  then have none: "lookup F' (q @ [c]) = None" using clear_way_self[OF cl] False r by auto
  let ?F = "F'\<lparr>nodes := nodes F' @ [(q @ [c], Dir)]\<rparr>"
  have al': "deny F' x y = None" for x y using al F' by (simp add: allows_def path_made_def)
  have m: "mkdir_unless_exists d F' = Inr ?F"
    using assms(3) none self al' r by (simp add: mkdir_unless_exists_def sys_mkdir_def Let_def)
  have "path_made F (q @ [c]) ?F"
    unfolding path_made_def
  proof (intro conjI allI impI)
    fix k
    show "lookup ?F (take k (q @ [c])) = Some Dir"
      using F' unfolding path_made_def lookup_mkdir[OF none] take_snoc_cases by simp
  next
    fix s assume a: "\<forall>k. s \<noteq> take k (q @ [c])"
    have "s \<noteq> take k q" for k using not_prefix_snoc[OF a] .
    moreover have "s \<noteq> q @ [c]" using a[rule_format, of "Suc (length q)"] by simp
    ultimately show "lookup ?F s = lookup F s" using F' unfolding path_made_def lookup_mkdir[OF none] by simp
  qed (use F' in \<open>simp_all add: path_made_def\<close>)
  with m r show ?thesis by auto
qed

text \<open>The condition on an absolute path passes to its parent as long as that has to be made.\<close>

lemma parent_fits:
  assumes d: "d = pd @ CHR ''/'' # c" and r: "resolve F d = resolve F pd @ cs" and pd: "pd \<noteq> []"
    and top: "hd d = CHR ''/'' \<longrightarrow> parent_dir d \<noteq> Some [] \<and> lookup F (take 1 (resolve F d)) = Some Dir"
    and no: "lookup F (resolve F pd) \<noteq> Some Dir"
  shows "hd pd = CHR ''/'' \<longrightarrow> parent_dir pd \<noteq> Some [] \<and> lookup F (take 1 (resolve F pd)) = Some Dir"
proof
  assume "hd pd = CHR ''/''"
  then have "hd d = CHR ''/''" using pd d by simp
  then have t: "lookup F (take 1 (resolve F d)) = Some Dir" using top by simp
  have ne: "resolve F pd \<noteq> []" using no by (auto simp: lookup_def)
  then have top': "lookup F (take 1 (resolve F pd)) = Some Dir" using t r by (cases "resolve F pd") simp_all
  have "parent_dir pd \<noteq> Some []"
  proof
    assume "parent_dir pd = Some []"
    then obtain b where b: "pd = CHR ''/'' # b" "CHR ''/'' \<notin> set b" by (auto elim: parent_dirD)
    then have "resolve F pd = (if b = [] then [] else [b])"
      using comps_append_slash[of "[]" b] by (simp add: resolve_def comps_no_slash)
    with ne top' no show False by (simp split: if_splits)
  qed
  with top' show "parent_dir pd \<noteq> Some [] \<and> lookup F (take 1 (resolve F pd)) = Some Dir" by simp
qed

lemma path_can_be_made:
  assumes "allows F" and "fs_ok F" and "clear_way F (resolve F d)" and "d \<noteq> []"
    and "hd d = CHR ''/'' \<longrightarrow> parent_dir d \<noteq> Some [] \<and> lookup F (take 1 (resolve F d)) = Some Dir"
  shows "\<exists>F'. create_dir d F = Inr F' \<and> path_made F (resolve F d) F'"
  using assms(3,4,5)
proof (induction "length d" arbitrary: d rule: less_induct)
  case less
  show ?case
  proof (cases "parent_dir d")
    case None
    then have ns: "CHR ''/'' \<notin> set d" by (simp add: parent_dir_None)
    then have "hd d \<noteq> CHR ''/''" using less.prems(2) by (cases d) auto
    then have r: "resolve F d = cwd F @ [d]" using ns less.prems(2) by (simp add: resolve_def comps_no_slash)
    have "lookup F (take k (cwd F)) = Some Dir" for k
      using assms(2) fs_ok_dir_prefix[OF assms(2)] by (simp add: fs_ok_def)
    then have "path_made F (cwd F) F" by (simp add: path_made_def)
    from mkdir_makes[OF this, of d d] r less.prems(1,2) assms(1) None show ?thesis
      by (subst create_dir.simps) simp
  next
    case (Some pd)
    obtain c where d: "d = pd @ CHR ''/'' # c" and c: "CHR ''/'' \<notin> set c" by (rule parent_dirD[OF Some])
    have pd: "pd \<noteq> []"
    proof
      assume "pd = []"
      then have "hd d = CHR ''/''" "parent_dir d = Some []" using d Some by simp_all
      with less.prems(3) show False by simp
    qed
    have r: "resolve F d = resolve F pd @ (if c = [] then [] else [c])"
      using pd by (simp add: d resolve_slash comps_no_slash[OF c])
    have clp: "clear_way F (resolve F pd)" using less.prems(1) unfolding r by (rule clear_way_append)
    have ex: "exists pd F = Inr (lookup F (resolve F pd) = Some Dir)" by (rule exists_clear[OF assms(1) clp pd])
    have fin: "\<exists>F''. mkdir_unless_exists d F' = Inr F'' \<and> path_made F (resolve F d) F''" if F': "path_made F (resolve F pd) F'" for F'
    proof -
      have e: "resolve F' p = resolve F p" for p using F' by (simp add: path_made_def resolve_def)
      have "resolve F' d = resolve F pd @ [c] \<or> resolve F' d = resolve F pd" by (simp add: e r)
      from mkdir_makes[OF F' this less.prems(2) assms(1)] less.prems(1) show ?thesis by (simp add: e)
    qed
    show ?thesis
    proof (cases "lookup F (resolve F pd) = Some Dir")
      case True
      then have "lookup F (take k (resolve F pd)) = Some Dir" for k
        by (rule fs_ok_dir_prefix[OF assms(2)])
      then have "path_made F (resolve F pd) F" by (simp add: path_made_def)
      from fin[OF this] ex True Some show ?thesis by (subst create_dir.simps) simp
    next
      case False
      note hd = parent_fits[OF d r pd less.prems(3) False]
      obtain F' where F': "create_dir pd F = Inr F'" "path_made F (resolve F pd) F'"
        using less.hyps[OF parent_dir_shorter[OF Some] clp pd hd] by blast
      from fin[OF F'(2)] F'(1) ex False Some show ?thesis by (subst create_dir.simps) simp
    qed
  qed
qed

text \<open>C39. If no file stands in the way and nothing is refused, \<^verbatim>\<open>create_dir\<close> makes every missing
  directory of the path and changes nothing else. An absolute path must have more than one
  component and a first component that exists.\<close>

theorem create_dir_makes_path:
  assumes "allows F" and "fs_ok F" and "clear_way F (resolve F d)" and "d \<noteq> []"
    and "hd d = CHR ''/'' \<longrightarrow> parent_dir d \<noteq> Some [] \<and> lookup F (take 1 (resolve F d)) = Some Dir"
  shows "\<exists>F'. create_dir d F = Inr F' \<and> path_made F (resolve F d) F'"
  by (rule path_can_be_made[OF assms])

text \<open>Asked for a directory directly below the root, \<^verbatim>\<open>create_dir\<close> always throws, even when the
  directory exists: the parent of \<^verbatim>\<open>/name\<close> comes out as the empty path.\<close>

theorem create_dir_top_level_fails:
  assumes "CHR ''/'' \<notin> set c"
  shows "\<exists>i. create_dir (CHR ''/'' # c) F = Inl (JException JERR_JDIR_MKDIR i ''jdir'' ''create_dir'')"
proof -
  have "dropWhile (\<lambda>x. x \<noteq> CHR ''/'') (rev c @ [CHR ''/'']) = [CHR ''/'']"
    using assms by (subst dropWhile_append2) auto
  then have "parent_dir (CHR ''/'' # c) = Some []" by (simp add: parent_dir_def)
  moreover have "exists [] F = Inr False" by (simp add: exists_def sys_stat_def)
  moreover have "create_dir [] F = Inl (jdir_error JERR_JDIR_MKDIR (dir_info F [] ENOENT) ''create_dir'')"
    by (subst create_dir.simps) (simp add: parent_dir_def mkdir_unless_exists_def sys_mkdir_def errno_defs)
  ultimately show ?thesis by (subst create_dir.simps) (simp add: jdir_error_def jexception_full_def)
qed

definition wit_fs :: fs where
  "wit_fs = \<lparr>nodes = [([''v''], Dir), ([''v'', ''l''], Dir), ([''v'', ''l'', ''f''], Reg), ([''v'', ''s''], Dir), ([''v'', ''s'', ''g''], Reg)],
     cwd = [], deny = \<lambda>_ _. None, strerror = \<lambda>_. []\<rparr>"

theorem create_dir_top_level_fails_witness:
  "\<exists>i. create_dir ''/v'' wit_fs = Inl (JException JERR_JDIR_MKDIR i ''jdir'' ''create_dir'') \<and> lookup wit_fs [''v''] = Some Dir"
  using create_dir_top_level_fails[of "''v''" wit_fs] by (simp add: lookup_def wit_fs_def)

lemma wit_fs_ok: "fs_ok wit_fs" "allows wit_fs"
proof -
  show "allows wit_fs" by (simp add: allows_def wit_fs_def)
  show "fs_ok wit_fs"
    by (simp add: fs_ok_def wit_fs_def lookup_def name_ok_def less_Suc_eq all_conj_distrib)
qed

theorem create_dir_makes_path_witness:
  "\<exists>F'. create_dir ''/v/s/a/b'' wit_fs = Inr F' \<and> path_made wit_fs [''v'', ''s'', ''a'', ''b''] F'"
proof -
  have r: "resolve wit_fs ''/v/s/a/b'' = [''v'', ''s'', ''a'', ''b'']" by (simp add: resolve_def comps_def)
  have "clear_way wit_fs [''v'', ''s'', ''a'', ''b'']"
    unfolding clear_way_def
  proof
    fix k
    show "lookup wit_fs (take k [''v'', ''s'', ''a'', ''b'']) = None \<or> lookup wit_fs (take k [''v'', ''s'', ''a'', ''b'']) = Some Dir"
      by (simp add: lookup_def wit_fs_def take_Cons' split: nat.split)
  qed
  with create_dir_makes_path[OF wit_fs_ok(2,1), of "''/v/s/a/b''"] show ?thesis
    by (simp add: r parent_dir_def) (simp add: lookup_def wit_fs_def)
qed

section \<open>Deleting a tree removes exactly the tree\<close>

lemma resolve_entry: "d \<noteq> [] \<Longrightarrow> name_ok e \<Longrightarrow> resolve F (d @ CHR ''/'' # e) = resolve F d @ [e]"
  by (simp add: resolve_slash name_ok_def comps_no_slash)

lemma under_refl [simp]: "under q q"
  by (simp add: under_def)

lemma under_Nil [simp]: "under [] k"
  by (simp add: under_def)

lemma under_snoc: "under (q @ [e]) k \<Longrightarrow> under q k"
  by (metis append_eq_conv_conj append_take_drop_id take_add under_def length_append append.assoc)

lemma under_iff: "under q k \<longleftrightarrow> (\<exists>r. k = q @ r)"
  unfolding under_def by (metis append_eq_conv_conj append_take_drop_id)

lemma lookup_filter:
  "lookup (F\<lparr>nodes := filter (\<lambda>(k, n). P k) (nodes F)\<rparr>) q = (if q = [] \<or> P q then lookup F q else None)"
proof -
  have "map_of (filter (\<lambda>(k, n). P k) xs) q = (if P q then map_of xs q else None)" for xs :: "(path \<times> node) list"
    by (induction xs) auto
  then show ?thesis by (simp add: lookup_def)
qed

text \<open>Leaving out nodes with everything below them keeps the tree well-formed.\<close>

lemma fs_ok_filter:
  assumes "fs_ok F" and "P (cwd F)" and "\<And>k j. P k \<Longrightarrow> j < length k \<Longrightarrow> P (take j k)"
  shows "fs_ok (F\<lparr>nodes := filter (\<lambda>(k, n). P k) (nodes F)\<rparr>)"
  using assms unfolding fs_ok_def
  by (auto simp: lookup_filter distinct_map_filter split: if_splits)

lemma in_entries: "e \<in> set (entries F q) \<longleftrightarrow> (\<exists>k n. (k, n) \<in> set (nodes F) \<and> k \<noteq> [] \<and> butlast k = q \<and> last k = e)"
  by (force simp: entries_def)

lemma entries_lookup:
  assumes "fs_ok F"
  shows "e \<in> set (entries F q) \<longleftrightarrow> lookup F (q @ [e]) \<noteq> None"
proof -
  have "k \<noteq> [] \<and> butlast k = q \<and> last k = e \<longleftrightarrow> k = q @ [e]" for k
    by (metis append_butlast_last_id butlast_snoc last_snoc snoc_eq_iff_butlast)
  then show ?thesis by (auto simp: in_entries lookup_def map_of_eq_None_iff dest: map_of_SomeD) (force dest: map_of_SomeD)
qed

definition prune :: "(path \<Rightarrow> bool) \<Rightarrow> fs \<Rightarrow> fs" where
  "prune P F = F\<lparr>nodes := filter (\<lambda>(k, n). P k) (nodes F)\<rparr>"

lemma prune_simps [simp]:
  "resolve (prune P F) p = resolve F p" "allows (prune P F) = allows F" "cwd (prune P F) = cwd F"
  "lookup (prune P F) q = (if q = [] \<or> P q then lookup F q else None)"
  "nodes (prune P F) = filter (\<lambda>(k, n). P k) (nodes F)"
  by (simp_all add: prune_def lookup_filter)

lemma prune_prune: "prune P (prune Q F) = prune (\<lambda>k. Q k \<and> P k) F"
  unfolding prune_def by (simp add: split_def)

lemma prune_cong: "(\<And>k n. (k, n) \<in> set (nodes F) \<Longrightarrow> P k = Q k) \<Longrightarrow> prune P F = prune Q F"
  unfolding prune_def by (rule arg_cong[where f = "\<lambda>x. F\<lparr>nodes := x\<rparr>"], rule filter_cong) auto

lemma fs_ok_prune: "fs_ok F \<Longrightarrow> P (cwd F) \<Longrightarrow> (\<And>k j. P k \<Longrightarrow> j < length k \<Longrightarrow> P (take j k)) \<Longrightarrow> fs_ok (prune P F)"
  unfolding prune_def by (rule fs_ok_filter)

lemma not_under_take: "\<not> under q k \<Longrightarrow> \<not> under q (take j k)"
  unfolding under_iff by (metis append.assoc append_take_drop_id)

text \<open>The situation the recursion runs in: a directory \<open>d\<close> that resolves to \<open>q\<close>, with regular files
  and directories only below it, the working directory elsewhere, and fuel for its depth.\<close>

definition deletable :: "nat \<Rightarrow> string \<Rightarrow> fs \<Rightarrow> bool" where
  "deletable m d F \<longleftrightarrow> fs_ok F \<and> allows F \<and> d \<noteq> [] \<and> resolve F d \<noteq> [] \<and> lookup F (resolve F d) = Some Dir \<and>
     \<not> under (resolve F d) (cwd F) \<and>
     (\<forall>(k, n) \<in> set (nodes F). under (resolve F d) k \<longrightarrow> (n = Reg \<or> n = Dir) \<and> length k < length (resolve F d) + m)"

lemma lookup_node: "fs_ok F \<Longrightarrow> lookup F k = Some n \<Longrightarrow> k \<noteq> [] \<Longrightarrow> (k, n) \<in> set (nodes F)"
  by (simp add: lookup_def map_of_SomeD)

lemma node_lookup: "fs_ok F \<Longrightarrow> (k, n) \<in> set (nodes F) \<Longrightarrow> lookup F k = Some n"
  unfolding fs_ok_def lookup_def by (auto split: if_splits)

lemma entry_name: "fs_ok F \<Longrightarrow> lookup F (q @ [e]) \<noteq> None \<Longrightarrow> name_ok e"
  unfolding fs_ok_def lookup_def by (auto split: if_splits dest!: map_of_SomeD)

lemma deletable_prune:
  assumes "deletable m d F" and "e \<in> set es" and "\<And>k. Q k \<longleftrightarrow> \<not> under (resolve F d @ [e]) k"
  shows "deletable m d (prune Q F)"
proof -
  have nu: "\<not> under (resolve F d @ [e]) (cwd F)" using assms(1) under_snoc unfolding deletable_def by blast
  have "fs_ok (prune Q F)"
    by (rule fs_ok_prune) (use assms(1) nu not_under_take in \<open>auto simp: deletable_def assms(3)\<close>)
  moreover have "\<not> under (resolve F d @ [e]) (resolve F d)" by (simp add: under_def)
  ultimately show ?thesis using assms(1) by (auto simp: deletable_def assms(3))
qed

lemma delete_one:
  assumes IH: "\<And>d F co. deletable m d F \<Longrightarrow>
      delete_dir_fuel m d co F = Inr (prune (\<lambda>k. \<not> (under (resolve F d) k \<and> (co \<longrightarrow> k \<noteq> resolve F d))) F)"
    and d: "deletable (Suc m) d F" and e: "lookup F (resolve F d @ [e]) \<noteq> None"
  shows "delete_entries m d (e # es) F = delete_entries m d es (prune (\<lambda>k. \<not> under (resolve F d @ [e]) k) F)"
proof -
  let ?q = "resolve F d" and ?f = "d @ ''/'' @ e"
  have ok: "fs_ok F" "allows F" "d \<noteq> []" using d by (auto simp: deletable_def)
  have nm: "name_ok e" by (rule entry_name[OF ok(1) e])
  then have l: "last ?f \<noteq> CHR ''/''" "e \<noteq> ''.''" "e \<noteq> ''..''" "?f \<noteq> []"
    by (auto simp: name_ok_def dest: last_in_set)
  have r: "resolve F ?f = ?q @ [e]" using resolve_entry[OF ok(3) nm] by simp
  obtain n where n: "lookup F (?q @ [e]) = Some n" using e by auto
  have nd: "(?q @ [e], n) \<in> set (nodes F)" by (rule lookup_node[OF ok(1) n]) simp
  have ut: "under ?q (?q @ [e])" by (simp add: under_iff)
  have t: "n = Reg \<or> n = Dir" using d nd ut unfolding deletable_def by fastforce
  have st: "sys_stat ?f F = Inr n" using ok(2) n r l by (simp add: sys_stat_def allows_def)
  show ?thesis
  proof (cases "n = Reg")
    case True
    have "sys_unlink ?f F = Inr (prune (\<lambda>k. k \<noteq> ?q @ [e]) F)"
      using ok(2) n r True by (simp add: sys_unlink_def allows_def Let_def prune_def)
    moreover have "prune (\<lambda>k. k \<noteq> ?q @ [e]) F = prune (\<lambda>k. \<not> under (?q @ [e]) k) F"
    proof (rule prune_cong)
      fix k x assume k: "(k, x) \<in> set (nodes F)"
      have "k = ?q @ [e]" if u: "under (?q @ [e]) k"
      proof (rule ccontr)
        assume "k \<noteq> ?q @ [e]"
        with u have "length (?q @ [e]) < length k" "take (length (?q @ [e])) k = ?q @ [e]"
          by (auto simp: under_iff)
        with fs_ok_prefix[OF ok(1) node_lookup[OF ok(1) k]] n True show False by fastforce
      qed
      then show "(k \<noteq> ?q @ [e]) = (\<not> under (?q @ [e]) k)" by auto
    qed
    ultimately show ?thesis using st True l(2,3) by (simp add: Let_def)
  next
    case False
    then have n': "n = Dir" using t by simp
    have "deletable m ?f F"
    proof -
      have "\<not> under (?q @ [e]) (cwd F)" using d under_snoc unfolding deletable_def by blast
      moreover have "(a = Reg \<or> a = Dir) \<and> length k < length (?q @ [e]) + m"
        if "(k, a) \<in> set (nodes F)" "under (?q @ [e]) k" for k a
        using d that under_snoc[OF that(2)] unfolding deletable_def by fastforce
      ultimately show ?thesis using ok n n' r l(4) by (auto simp: deletable_def)
    qed
    from IH[OF this, of False] have "delete_dir_fuel m ?f False F = Inr (prune (\<lambda>k. \<not> under (?q @ [e]) k) F)"
      by (simp only: r) simp
    then show ?thesis using st n' l(2,3) by (simp add: Let_def)
  qed
qed

lemma delete_all:
  assumes IH: "\<And>d F co. deletable m d F \<Longrightarrow>
      delete_dir_fuel m d co F = Inr (prune (\<lambda>k. \<not> (under (resolve F d) k \<and> (co \<longrightarrow> k \<noteq> resolve F d))) F)"
  shows "deletable (Suc m) d F \<Longrightarrow> distinct es \<Longrightarrow> \<forall>e \<in> set es. lookup F (resolve F d @ [e]) \<noteq> None \<Longrightarrow>
    delete_entries m d es F = Inr (prune (\<lambda>k. \<not> (\<exists>e \<in> set es. under (resolve F d @ [e]) k)) F)"
proof (induction es arbitrary: F)
  case Nil
  then show ?case by (simp add: prune_def)
next
  case (Cons e es)
  let ?F = "prune (\<lambda>k. \<not> under (resolve F d @ [e]) k) F"
  have d': "deletable (Suc m) d ?F" by (rule deletable_prune[OF Cons.prems(1), of e "e # es"]) simp_all
  have "\<not> under (resolve F d @ [e]) (resolve F d @ [e'])" if "e' \<in> set es" for e'
    using that Cons.prems(2) by (auto simp: under_def)
  then have "\<forall>e' \<in> set es. lookup ?F (resolve ?F d @ [e']) \<noteq> None" using Cons.prems(3) by simp
  from Cons.IH[OF d' _ this] Cons.prems(2)
  have "delete_entries m d es ?F = Inr (prune (\<lambda>k. \<not> (\<exists>e \<in> set es. under (resolve F d @ [e]) k)) ?F)" by simp
  moreover have "delete_entries m d (e # es) F = delete_entries m d es ?F"
    by (rule delete_one[OF IH Cons.prems(1)]) (use Cons.prems(3) in auto)
  ultimately show ?case by (simp add: prune_prune)
qed

lemma distinct_entries:
  assumes "fs_ok F"
  shows "distinct (entries F q)"
proof -
  have "inj_on (last \<circ> fst) (set (filter (\<lambda>(k, _). k \<noteq> [] \<and> butlast k = q) (nodes F)))"
  proof (rule inj_onI)
    fix x y
    assume a: "x \<in> set (filter (\<lambda>(k, _). k \<noteq> [] \<and> butlast k = q) (nodes F))"
      "y \<in> set (filter (\<lambda>(k, _). k \<noteq> [] \<and> butlast k = q) (nodes F))" "(last \<circ> fst) x = (last \<circ> fst) y"
    then have "fst x \<noteq> []" "fst y \<noteq> []" "butlast (fst x) = butlast (fst y)" "last (fst x) = last (fst y)" by auto
    then have "fst x = fst y" by (metis append_butlast_last_id)
    moreover have "x \<in> set (nodes F)" "y \<in> set (nodes F)" using a(1,2) by auto
    moreover have "inj_on fst (set (nodes F))" using assms by (simp add: fs_ok_def distinct_map)
    ultimately show "x = y" by (simp add: inj_on_def)
  qed
  moreover have "distinct (nodes F)" using assms by (simp add: fs_ok_def distinct_map)
  ultimately show ?thesis by (simp add: entries_def distinct_map)
qed

text \<open>Everything strictly below a directory is below one of its entries, and without these it is empty.\<close>

lemma entries_cover:
  assumes ok: "fs_ok F" and k: "(k, n) \<in> set (nodes F)"
  shows "(\<not> (\<exists>e \<in> set (entries F q). under (q @ [e]) k)) = (under q k \<longrightarrow> k = q)"
proof
  assume a: "\<not> (\<exists>e \<in> set (entries F q). under (q @ [e]) k)"
  show "under q k \<longrightarrow> k = q"
  proof (intro impI, rule ccontr)
    assume "under q k" and ne: "k \<noteq> q"
    then obtain r where r: "k = q @ r" "r \<noteq> []" by (auto simp: under_iff)
    then have t: "take (Suc (length q)) k = q @ [hd r]" by (cases r) simp_all
    have "lookup F (take (Suc (length q)) k) \<noteq> None"
      using fs_ok_prefix[OF ok node_lookup[OF ok k]] node_lookup[OF ok k] by (cases "Suc (length q) < length k") simp_all
    then have "hd r \<in> set (entries F q)" using entries_lookup[OF ok] t by metis
    moreover have "under (q @ [hd r]) k" using t by (simp add: under_def)
    ultimately show False using a by blast
  qed
next
  assume a: "under q k \<longrightarrow> k = q"
  have "\<not> under (q @ [e]) q" for e by (simp add: under_def)
  with a show "\<not> (\<exists>e \<in> set (entries F q). under (q @ [e]) k)" using under_snoc by metis
qed

lemma entries_pruned:
  assumes "fs_ok F" and "fs_ok (prune (\<lambda>k. \<not> (\<exists>e \<in> set (entries F q). under (q @ [e]) k)) F)"
  shows "entries (prune (\<lambda>k. \<not> (\<exists>e \<in> set (entries F q). under (q @ [e]) k)) F) q = []"
proof (rule ccontr)
  let ?F = "prune (\<lambda>k. \<not> (\<exists>e \<in> set (entries F q). under (q @ [e]) k)) F"
  assume "entries ?F q \<noteq> []"
  then obtain e where "e \<in> set (entries ?F q)" by (meson ex_in_conv set_empty)
  then have "lookup ?F (q @ [e]) \<noteq> None" using entries_lookup[OF assms(2)] by blast
  then have "lookup F (q @ [e]) \<noteq> None" "\<not> (\<exists>e' \<in> set (entries F q). under (q @ [e']) (q @ [e]))" by (auto split: if_splits)
  moreover from this(1) have "e \<in> set (entries F q)" using entries_lookup[OF assms(1)] by blast
  ultimately show False by auto
qed

lemma delete_dir_fuel_removes:
  "deletable m d F \<Longrightarrow>
    delete_dir_fuel m d co F = Inr (prune (\<lambda>k. \<not> (under (resolve F d) k \<and> (co \<longrightarrow> k \<noteq> resolve F d))) F)"
proof (induction m arbitrary: d F co)
  case 0
  then have "(resolve F d, Dir) \<in> set (nodes F)" using lookup_node by (auto simp: deletable_def)
  with 0 show ?case by (fastforce simp: deletable_def)
next
  case (Suc m)
  let ?q = "resolve F d" and ?es = "entries F (resolve F d)"
  let ?F = "prune (\<lambda>k. \<not> (\<exists>e \<in> set ?es. under (?q @ [e]) k)) F"
  have ok: "fs_ok F" "allows F" "d \<noteq> []" "?q \<noteq> []" "lookup F ?q = Some Dir" "\<not> under ?q (cwd F)"
    using Suc.prems by (auto simp: deletable_def)
  have op: "sys_opendir d F = Inr (''.'' # ''..'' # ?es)"
    using ok by (simp add: sys_opendir_def allows_def Let_def)
  have ent: "\<forall>e \<in> set ?es. lookup F (?q @ [e]) \<noteq> None" using entries_lookup[OF ok(1)] by blast
  have da: "delete_entries m d ?es F = Inr ?F"
    by (rule delete_all[OF Suc.IH Suc.prems distinct_entries[OF ok(1)] ent])
  have nu: "\<not> under (?q @ [e]) ?q" for e by (simp add: under_def)
  have okF: "fs_ok ?F"
    by (rule fs_ok_prune[OF ok(1)]) (use ok(6) under_snoc not_under_take in blast)+
  have eF: "entries ?F ?q = []" by (rule entries_pruned[OF ok(1) okF])
  have cl: "close_dir d ''delete_dir'' ?F = Inr ()"
    using ok(2) by (simp add: close_dir_def sys_closedir_def allows_def prune_def)
  note same = entries_cover[OF ok(1)]
  show ?case
  proof (cases co)
    case True
    have "?F = prune (\<lambda>k. \<not> (under ?q k \<and> k \<noteq> ?q)) F" by (rule prune_cong) (use same in blast)
    then show ?thesis using op da cl True by simp
  next
    case False
    have "lookup ?F ?q = Some Dir" using ok(5) nu by simp
    then have "sys_rmdir d ?F = Inr (prune (\<lambda>k. k \<noteq> ?q) ?F)"
      using ok(2,4) eF by (simp add: sys_rmdir_def allows_def Let_def prune_def)
    moreover have "prune (\<lambda>k. k \<noteq> ?q) ?F = prune (\<lambda>k. \<not> under ?q k) F"
      unfolding prune_prune by (rule prune_cong) (use same in auto)
    ultimately show ?thesis using op da cl False by simp
  qed
qed

text \<open>C40. On a tree of regular files and directories \<^verbatim>\<open>delete_dir\<close> terminates and removes the named
  directory with everything below it, or only what is below it when asked to keep it, and
  nothing else.\<close>

theorem delete_dir_removes_tree:
  assumes "fs_ok F" and "allows F" and "d \<noteq> []" and "resolve F d \<noteq> []" and "lookup F (resolve F d) = Some Dir"
    and "\<not> under (resolve F d) (cwd F)" and "\<forall>(k, n) \<in> set (nodes F). under (resolve F d) k \<longrightarrow> n = Reg \<or> n = Dir"
  shows "\<exists>F'. delete_dir d children_only F = Inr F' \<and>
    (\<forall>k. lookup F' k = (if under (resolve F d) k \<and> (children_only \<longrightarrow> k \<noteq> resolve F d) then None else lookup F k))"
proof -
  have "length k < length (resolve F d) + (depth F + 2)" if "(k, n) \<in> set (nodes F)" for k n
  proof -
    have "length k \<le> depth F" unfolding depth_def by (rule Max_ge) (use that in force)+
    then show ?thesis by simp
  qed
  then have "deletable (depth F + 2) d F" using assms unfolding deletable_def by blast
  from delete_dir_fuel_removes[OF this] show ?thesis using assms(4) by (auto simp: delete_dir_def under_iff)
qed

theorem delete_dir_removes_tree_witness:
  "\<exists>F'. delete_dir ''/v/l/'' False wit_fs = Inr F' \<and> lookup F' [''v'', ''l''] = None \<and>
     lookup F' [''v'', ''l'', ''f''] = None \<and> lookup F' [''v'', ''s'', ''g''] = Some Reg"
proof -
  have r: "resolve wit_fs ''/v/l/'' = [''v'', ''l'']" by (simp add: resolve_def comps_def)
  from delete_dir_removes_tree[OF wit_fs_ok, of "''/v/l/''" False]
  have "\<exists>F'. delete_dir ''/v/l/'' False wit_fs = Inr F' \<and> (\<forall>k. lookup F' k = (if under [''v'', ''l''] k then None else lookup wit_fs k))"
    unfolding r by (simp add: lookup_def under_def wit_fs_def)
  then obtain F' where "delete_dir ''/v/l/'' False wit_fs = Inr F'"
    "\<And>k. lookup F' k = (if under [''v'', ''l''] k then None else lookup wit_fs k)" by blast
  then show ?thesis by (simp add: under_def) (simp add: lookup_def wit_fs_def)
qed

section \<open>The number of a backup directory\<close>

lemma hex_val_digit: "d < 16 \<Longrightarrow> hex_val (hex_digit d) = Some d"
  by (auto simp: hex_val_def hex_digit_def Let_def of_char_of)

definition all_hex :: "string \<Rightarrow> bool" where
  "all_hex s = (\<forall>c \<in> set s. hex_val c \<noteq> None)"

lemma all_hex_string: "all_hex (hex_string n)"
proof (induction n rule: hex_string.induct)
  case (1 n)
  then show ?case by (subst hex_string.simps) (auto simp: all_hex_def hex_val_digit)
qed

lemma hex_digits_append: "all_hex s \<Longrightarrow> hex_digits a (s @ r) = hex_digits (hex_digits a s) r"
  by (induction s arbitrary: a) (auto simp: all_hex_def split: option.splits)

lemma hex_digits_string: "hex_digits 0 (hex_string n) = n"
proof (induction n rule: hex_string.induct)
  case (1 n)
  show ?case
  proof (cases "n < 16")
    case True
    then show ?thesis by (subst hex_string.simps) (simp add: hex_val_digit)
  next
    case False
    with 1 have "hex_digits 0 (hex_string (n div 16)) = n div 16" by simp
    with False show ?thesis
      by (subst hex_string.simps) (simp add: hex_digits_append[OF all_hex_string] hex_val_digit)
  qed
qed

lemma hex_val_zero: "hex_val CHR ''0'' = Some 0"
  by (simp add: hex_val_def)

lemma hex_digits_zeros: "hex_digits 0 (replicate k CHR ''0'' @ s) = hex_digits 0 s"
  by (induction k) (simp_all add: hex_val_zero)

lemma length_hex_string: "n < 16 ^ Suc k \<Longrightarrow> length (hex_string n) \<le> Suc k"
proof (induction k arbitrary: n)
  case 0
  then show ?case by (subst hex_string.simps) simp
next
  case (Suc k)
  then have "n div 16 < 16 ^ Suc k" by (simp add: less_mult_imp_div_less)
  from Suc.IH[OF this] show ?case by (subst hex_string.simps) simp
qed

lemma strtol16_hex:
  assumes "all_hex s"
  shows "strtol16 s = int (hex_digits 0 s)"
proof -
  have n: "hex_val CHR ''-'' = None" "hex_val CHR ''+'' = None" "hex_val CHR ''x'' = None" "hex_val CHR ''X'' = None"
    by (simp_all add: hex_val_def)
  have sp: "\<not> is_space c" if "hex_val c \<noteq> None" for c
    using that by (auto simp: is_space_def hex_val_def Let_def split: if_splits)
  have d: "dropWhile is_space s = s" using assms sp by (cases s) (auto simp: all_hex_def)
  have h: "s \<noteq> [] \<Longrightarrow> hd s \<noteq> CHR ''-'' \<and> hd s \<noteq> CHR ''+''"
    using assms n by (cases s) (auto simp: all_hex_def)
  have "hex_unsigned s = int (hex_digits 0 s)"
    using assms n by (auto simp: hex_unsigned_def all_hex_def split: list.splits)
  with d h show ?thesis by (auto simp: strtol16_def Let_def)
qed

lemma pad0_4:
  assumes "n < 65536"
  shows "length (pad0 4 (hex_string n)) = 4" and "strtol16 (pad0 4 (hex_string n)) = int n"
proof -
  have "length (hex_string n) \<le> 4" using length_hex_string[of n 3] assms by simp
  then show "length (pad0 4 (hex_string n)) = 4" by (simp add: pad0_def)
  have "all_hex (pad0 4 (hex_string n))" using all_hex_string by (auto simp: pad0_def all_hex_def hex_val_zero)
  then show "strtol16 (pad0 4 (hex_string n)) = int n"
    by (simp add: strtol16_hex) (simp add: pad0_def hex_digits_zeros hex_digits_string)
qed

lemma bak_num_mono: "m \<le> bak_num base es m"
  by (induction base es m rule: bak_num.induct) (auto simp: Let_def split: if_splits)

lemma bak_num_ge:
  "bak_prefix base @ x \<in> set es \<Longrightarrow> length x = 4 \<Longrightarrow> strtol16 x \<le> bak_num base es m"
proof (induction es arbitrary: m)
  case (Cons e es)
  show ?case
  proof (cases "e = bak_prefix base @ x")
    case True
    have l: "length (bak_prefix base) = length base + 6" by (simp add: bak_prefix_def)
    have "length e = length base + 10" "take (length base + 6) e = take (length base + 6) (bak_prefix base)"
      "drop (length base + 6) e = x"
      using Cons.prems(2) l by (simp_all add: True)
    moreover from this(1) have "e \<noteq> ''.''" "e \<noteq> ''..''" by auto
    ultimately have "bak_num base (e # es) m = bak_num base es (if strtol16 x > m then strtol16 x else m)"
      by (simp only: bak_num.simps Let_def simp_thms if_True)
    moreover have "strtol16 x \<le> (if strtol16 x > m then strtol16 x else m)" by simp
    ultimately show ?thesis using bak_num_mono order_trans by metis
  next
    case False
    with Cons show ?thesis by simp
  qed
qed simp

text \<open>As long as the numbers of the backup directories stay below \<^verbatim>\<open>0xffff\<close>, \<^verbatim>\<open>create_bak_dir\<close>
  makes a directory that did not exist, with the number one above the highest in use.\<close>

theorem create_bak_dir_fresh:
  assumes "fs_ok F" and "allows F" and "d \<noteq> []" and "lookup F (resolve F d) = Some Dir" and "CHR ''/'' \<notin> set base"
    and "bak_num base (entries F (resolve F d)) 0 < 0xffff"
  shows "\<exists>name F'. create_bak_dir d base F = Inr (d @ ''/'' @ name, F') \<and>
    name = bak_prefix base @ pad0 4 (hex_string (nat (bak_num base (entries F (resolve F d)) 0 + 1))) \<and>
    lookup F (resolve F d @ [name]) = None \<and>
    F' = F\<lparr>nodes := nodes F @ [(resolve F d @ [name], Dir)]\<rparr>"
proof -
  let ?q = "resolve F d" and ?n = "nat (bak_num base (entries F (resolve F d)) 0 + 1)"
  let ?name = "bak_prefix base @ pad0 4 (hex_string ?n)"
  have n: "?n < 65536" using assms(6) by simp
  have i: "int ?n = bak_num base (entries F ?q) 0 + 1" using bak_num_mono[of 0 base "entries F ?q"] by simp
  have hex: "CHR ''/'' \<notin> set (hex_string ?n)"
    using all_hex_string[of ?n] by (auto simp: all_hex_def hex_val_def)
  have sl: "CHR ''/'' \<notin> set ?name" using assms(5) hex by (simp add: bak_prefix_def pad0_def)
  have r: "resolve F (d @ ''/'' @ ?name) = ?q @ [?name]"
    using resolve_slash[OF assms(3)] comps_no_slash[OF sl] by (simp add: bak_prefix_def)
  have new: "lookup F (?q @ [?name]) = None"
  proof (rule ccontr)
    assume "lookup F (?q @ [?name]) \<noteq> None"
    then have "?name \<in> set (entries F ?q)" using entries_lookup[OF assms(1)] by blast
    from bak_num_ge[OF this, of 0] pad0_4[OF n] i show False by simp
  qed
  have op: "sys_opendir d F = Inr (''.'' # ''..'' # entries F ?q)"
    using assms(2-4) by (simp add: sys_opendir_def allows_def Let_def)
  have bn: "bak_num base (''.'' # ''..'' # entries F ?q) 0 = bak_num base (entries F ?q) 0" by simp
  have cl: "close_dir d ''create_bak_dir'' F = Inr ()" using assms(2) by (simp add: close_dir_def sys_closedir_def allows_def)
  have mk: "sys_mkdir (d @ ''/'' @ ?name) F = Inr (F\<lparr>nodes := nodes F @ [(?q @ [?name], Dir)]\<rparr>)"
    using assms(2,4) new by (simp only: sys_mkdir_def r Let_def) (simp add: allows_def)
  have "create_bak_dir d base F = Inr (d @ ''/'' @ ?name, F\<lparr>nodes := nodes F @ [(?q @ [?name], Dir)]\<rparr>)"
    using mk by (simp only: create_bak_dir_def op bn cl Let_def sum.case)
  with new show ?thesis by blast
qed

definition wit_fs2 :: fs where
  "wit_fs2 = wit_fs\<lparr>nodes := nodes wit_fs @ [([''v'', ''_s.bak.001f''], Dir)]\<rparr>"

theorem create_bak_dir_fresh_witness:
  "\<exists>F'. create_bak_dir ''/v'' ''s'' wit_fs2 = Inr (''/v/_s.bak.0020'', F')"
proof -
  have ok: "fs_ok wit_fs2" "allows wit_fs2"
    by (simp_all add: fs_ok_def allows_def wit_fs2_def wit_fs_def lookup_def name_ok_def less_Suc_eq all_conj_distrib)
  have r: "resolve wit_fs2 ''/v'' = [''v'']" by (simp add: resolve_def comps_def)
  have e: "entries wit_fs2 [''v''] = [''l'', ''s'', ''_s.bak.001f'']" by (simp add: entries_def wit_fs2_def wit_fs_def)
  have b: "bak_num ''s'' [''l'', ''s'', ''_s.bak.001f''] 0 = 31"
    by (simp add: bak_prefix_def strtol16_hex all_hex_def hex_val_def)
  have h: "bak_prefix ''s'' @ pad0 4 (hex_string 32) = ''_s.bak.0020''"
  proof -
    have "char_of (50 :: nat) = CHR ''2''" "char_of (48 :: nat) = CHR ''0''"
      using char_of_char[of "CHR ''2''", where 'a = nat] char_of_char[of "CHR ''0''", where 'a = nat] by simp_all
    then show ?thesis by (simp add: bak_prefix_def pad0_def hex_string.simps hex_digit_def numeral_2_eq_2)
  qed
  from create_bak_dir_fresh[OF ok, of "''/v''" "''s''"] show ?thesis
    unfolding r e b by (simp add: h) (simp add: lookup_def wit_fs2_def wit_fs_def)
qed

end
