(* ===== verification/ProviderState.thy ===== *)
theory ProviderState
  imports AsyncOperationLogger PidTracker Journal Jdir
begin

text \<open>
  The state of \<^verbatim>\<open>lib/BdbStoreProvider.cpp\<close> and what its operations are written in: the
  options of \<^verbatim>\<open>lib/StoreOptions.h\<close>, the broker's objects the provider is handed, the rest
  of the Berkeley DB interface as a parameter, and computations that change the state and
  return a value or an exception. Journals are objects on a heap, since queues, the
  journal list and the tasks of the thread pools share them by pointer.
\<close>

section \<open>Options\<close>

record store_options =
  clusterName :: string
  opt_storeDir :: string
  truncateFlag :: bool
  compactFlag :: bool
  enableAcceptRecoveryFlag :: bool
  acceptRecoveryMongoHost :: string
  acceptRecoveryMongoPort :: string
  acceptRecoveryMongoDb :: string
  acceptRecoveryMongoCollection :: string
  enqLogCleanerTimeInterval :: int
  deqLogCleanerTimeInterval :: int
  enqLogCleanerWarningSize :: int
  deqLogCleanerWarningSize :: int
  enableSmartAsync :: bool

definition StoreOptions :: store_options where
  "StoreOptions = \<lparr>clusterName = [], opt_storeDir = [], truncateFlag = False, compactFlag = True,
     enableAcceptRecoveryFlag = False, acceptRecoveryMongoHost = ''localhost'',
     acceptRecoveryMongoPort = ''27017'', acceptRecoveryMongoDb = ''distributed_commons'',
     acceptRecoveryMongoCollection = ''accept_recovery'', enqLogCleanerTimeInterval = 120,
     deqLogCleanerTimeInterval = 120, enqLogCleanerWarningSize = 13107200,
     deqLogCleanerWarningSize = 13107200, enableSmartAsync = True\<rparr>"

section \<open>The objects of the broker\<close>

text \<open>Queues, exchanges and configuration items: their persistence id, their name and what
  their \<^verbatim>\<open>encode\<close> writes. A queue also points to its external store. A message has what its
  header and its content encode to.\<close>

record persistable =
  persistenceId :: u64
  pname :: string
  encoded :: bytes

record pqueue = persistable +
  externalQueueStore :: "nat option"

record message =
  msg_pid :: u64
  msg_persistent :: bool
  enc_header :: bytes
  enc_content :: bytes

section \<open>Parameters\<close>

text \<open>A database opened with \<^verbatim>\<open>DB_DUPSORT\<close>: several values under one key. \<open>m_put\<close> is \<^verbatim>\<open>put\<close> with
  \<^verbatim>\<open>DB_NODUPDATA\<close>, \<open>m_del\<close> removes all values of a key, \<open>m_scan\<close> what a cursor visits, \<open>m_del_at\<close>
  the deletion of the pair a cursor stands on.\<close>

record 'mdb mdbapi =
  m_put :: "u64 \<Rightarrow> bytes \<Rightarrow> 'mdb \<Rightarrow> int + dbst \<times> 'mdb"
  m_del :: "u64 \<Rightarrow> 'mdb \<Rightarrow> int + 'mdb"
  m_scan :: "'mdb \<Rightarrow> (u64 \<times> bytes) list"
  m_del_at :: "u64 \<times> bytes \<Rightarrow> 'mdb \<Rightarrow> int + 'mdb"

text \<open>The primitives of \<^verbatim>\<open>qpid::framing::Buffer\<close>; \<open>getShortString\<close> returns the rest as well.\<close>

record wire =
  putLong :: "u32 \<Rightarrow> bytes"
  getLong :: "bytes \<Rightarrow> u32"
  putLongLong :: "u64 \<Rightarrow> bytes"
  getLongLong :: "bytes \<Rightarrow> u64"
  putShortString :: "string \<Rightarrow> bytes"
  getShortString :: "bytes \<Rightarrow> string \<times> bytes"

text \<open>The environment: the databases, what opening them gives on each attempt (\<open>env_open\<close> and
  \<open>env_close\<close> the error number, if any), the texts of the errors, the home directory of the
  user, whether a pool accepts a task.\<close>

record ('db, 'mdb) bdb =
  msg_api :: "'db dbapi"
  cat_api :: "'db dbapi"
  multi_api :: "'mdb mdbapi"
  env_open :: "nat \<Rightarrow> string \<Rightarrow> int option"
  env_close :: "int option"
  db_open :: "nat \<Rightarrow> string \<Rightarrow> int + 'db"
  mdb_open :: "nat \<Rightarrow> string \<Rightarrow> int + 'mdb"
  db_strerror :: "int \<Rightarrow> string"
  db_version_mismatch :: int
  db_notfound :: int
  framing :: wire
  homedir :: "string option"
  pool_accepts :: bool

section \<open>State\<close>

datatype store_task = StoreTask (task_jc: "nat option") (task_buff: bytes) (task_size: u64) (task_pid: u64) (task_transient: bool)
datatype dequeue_task = DequeueTask (dtask_msg: u64) (dtask_jc: "nat option")

record ('db, 'mdb) provider =
  options :: store_options
  queueIdSequence :: u64
  exchangeIdSequence :: u64
  generalIdSequence :: u64
  messageIdSequence :: u64
  storeDir :: string
  dbs :: "string list"
  queueDb :: "'db option"
  configDb :: "'db option"
  exchangeDb :: "'db option"
  mappingDb :: "'mdb option"
  bindingDb :: "'mdb option"
  generalDb :: "'db option"
  highestRid :: u64
  isInit :: bool
  eraserThread :: bool
  recoveredJournal :: "pqueue list"
  acceptedFromMongo :: "string list"
  prov_num_jfiles :: int
  num_thread_enqueue :: int
  num_thread_dequeue :: int
  journalList :: "(u64, nat option) smap"
  agent :: bool
  prov_mgmtObject :: bool
  enqueuePool :: "store_task list"
  dequeuePool :: "dequeue_task list"
  aologger :: "aol option"
  tracker :: pid_tracker
  enqLogCleanerThread :: bool
  deqLogCleanerThread :: bool
  broker :: bool
  finalized :: bool
  jheap :: "'db journal option list"
  machine :: os
  dirs :: fs

section \<open>Computations\<close>

text \<open>A step of the provider: the state after it and its value, or the exception it ends with.\<close>

type_synonym ('s, 'a) comp = "'s \<Rightarrow> (exn + 'a) \<times> 's"

definition retE :: "'a \<Rightarrow> ('s, 'a) comp" where
  "retE x s = (Inr x, s)"

definition throwE :: "exn \<Rightarrow> ('s, 'a) comp" where
  "throwE e s = (Inl e, s)"

definition bindE :: "('s, 'a) comp \<Rightarrow> ('a \<Rightarrow> ('s, 'b) comp) \<Rightarrow> ('s, 'b) comp" where
  "bindE m f s = (case m s of (Inl e, s') \<Rightarrow> (Inl e, s') | (Inr x, s') \<Rightarrow> f x s')"

definition thenE :: "('s, 'a) comp \<Rightarrow> ('s, 'b) comp \<Rightarrow> ('s, 'b) comp" where
  "thenE m n = bindE m (\<lambda>_. n)"

definition getE :: "('s \<Rightarrow> 'a) \<Rightarrow> ('s, 'a) comp" where
  "getE f s = (Inr (f s), s)"

definition modE :: "('s \<Rightarrow> 's) \<Rightarrow> ('s, unit) comp" where
  "modE f s = (Inr (), f s)"

definition liftE :: "exn + 'a \<Rightarrow> ('s, 'a) comp" where
  "liftE r s = (r, s)"

definition whenE :: "bool \<Rightarrow> ('s, unit) comp \<Rightarrow> ('s, unit) comp" where
  "whenE b m = (if b then m else retE ())"

text \<open>\<^verbatim>\<open>try m catch\<close>: the handler is given the exception.\<close>

definition catchE :: "('s, 'a) comp \<Rightarrow> (exn \<Rightarrow> ('s, 'a) comp) \<Rightarrow> ('s, 'a) comp" where
  "catchE m h s = (case m s of (Inl e, s') \<Rightarrow> h e s' | (Inr x, s') \<Rightarrow> (Inr x, s'))"

named_theorems comp_simps
  \<open>unfolding of the computations\<close>

lemmas comp_defs [comp_simps] = retE_def throwE_def bindE_def thenE_def getE_def modE_def liftE_def whenE_def catchE_def

fun forE :: "'a list \<Rightarrow> ('a \<Rightarrow> ('s, unit) comp) \<Rightarrow> ('s, unit) comp" where
  "forE [] f = retE ()"
| "forE (x # xs) f = thenE (f x) (forE xs f)"

text \<open>A database error as the exception it is, the conversion of journal exceptions that ends
  most operations, and the handle behind a pointer.\<close>

definition db_result :: "int + 'a \<Rightarrow> exn + 'a" where
  "db_result r = (case r of Inl n \<Rightarrow> Inl (DbException n) | Inr x \<Rightarrow> Inr x)"

definition rethrow_jexception :: "(string \<Rightarrow> string) \<Rightarrow> exn \<Rightarrow> ('s, 'a) comp" where
  "rethrow_jexception msg e =
     (case e of JException n i c f \<Rightarrow> throwE (StoreException (msg (jexception_what e))) | _ \<Rightarrow> throwE e)"

definition handle :: "'a option \<Rightarrow> ('s, 'a) comp" where
  "handle h = (case h of None \<Rightarrow> throwE (Fault NullPointer) | Some d \<Rightarrow> retE d)"

text \<open>The journal an address points to.\<close>

definition deref :: "nat \<Rightarrow> (('db, 'mdb) provider, 'db journal) comp" where
  "deref a P = (if a < length (jheap P)
                then case jheap P ! a of Some J \<Rightarrow> (Inr J, P) | None \<Rightarrow> (Inl (Fault UseAfterFree), P)
                else (Inl (Fault UseAfterFree), P))"

definition update_at :: "nat \<Rightarrow> 'db journal \<Rightarrow> (('db, 'mdb) provider, unit) comp" where
  "update_at a J = modE (\<lambda>P. P\<lparr>jheap := (jheap P)[a := Some J]\<rparr>)"

definition new_journal :: "'db journal \<Rightarrow> (('db, 'mdb) provider, nat) comp" where
  "new_journal J P = (Inr (length (jheap P)), P\<lparr>jheap := jheap P @ [Some J]\<rparr>)"

text \<open>Using the logger through its pointer.\<close>

definition with_log :: "(aol \<times> os \<Rightarrow> exn + 'a \<times> aol \<times> os) \<Rightarrow> (('db, 'mdb) provider, 'a) comp" where
  "with_log f P =
     (case aologger P of
        None \<Rightarrow> (Inl (Fault NullPointer), P)
      | Some A \<Rightarrow> (case f (A, machine P) of
                     Inl e \<Rightarrow> (Inl e, P)
                   | Inr (x, A', w') \<Rightarrow> (Inr x, P\<lparr>aologger := Some A', machine := w'\<rparr>)))"

definition with_fs :: "(fs \<Rightarrow> exn + fs) \<Rightarrow> (('db, 'mdb) provider, unit) comp" where
  "with_fs f P = (case f (dirs P) of Inl e \<Rightarrow> (Inl e, P) | Inr F \<Rightarrow> (Inr (), P\<lparr>dirs := F\<rparr>))"

end
