(* ===== verification/BdbStoreProvider.thy ===== *)
theory BdbStoreProvider
  imports ProviderState
begin

text \<open>
  \<^verbatim>\<open>lib/BdbStoreProvider.cpp\<close>, all but the recovery: construction, initialisation with its
  retries, finalisation, the catalogue of queues, exchanges, bindings and configuration
  items, and the asynchronous enqueue and dequeue with the tasks they hand to the thread
  pools. Logging, the management object's counters and the time measurements are left
  out; the call back into the broker (\<^verbatim>\<open>enqueueComplete\<close>, \<^verbatim>\<open>dequeueComplete\<close>) is the normal
  return of the operation.
\<close>

section \<open>Construction and directories\<close>

definition storeTopLevelDir :: string where
  "storeTopLevelDir = ''bdbstore''"

text \<open>The one instance is static, so the members the constructor leaves alone are zero.\<close>

definition BdbStoreProvider_new :: "os \<Rightarrow> fs \<Rightarrow> ('db, 'mdb) provider" where
  "BdbStoreProvider_new w F = \<lparr>options = StoreOptions, queueIdSequence = IdSequence, exchangeIdSequence = IdSequence,
     generalIdSequence = IdSequence, messageIdSequence = IdSequence, storeDir = [], dbs = [],
     queueDb = None, configDb = None, exchangeDb = None, mappingDb = None, bindingDb = None, generalDb = None,
     highestRid = 0, isInit = False, eraserThread = False, recoveredJournal = [], acceptedFromMongo = [],
     prov_num_jfiles = 4, num_thread_enqueue = 2, num_thread_dequeue = 2, journalList = [], agent = False,
     prov_mgmtObject = False, enqueuePool = [], dequeuePool = [], aologger = None, tracker = PidTracker_new,
     enqLogCleanerThread = False, deqLogCleanerThread = False, broker = False, finalized = False,
     jheap = [], machine = w, dirs = F\<rparr>"

definition getJrnlBaseDir :: string where
  "getJrnlBaseDir = ''jrnl/''"

definition getBdbBaseDir :: "('db, 'mdb) provider \<Rightarrow> string" where
  "getBdbBaseDir P = storeDir P @ ''/'' @ storeTopLevelDir @ ''/dat/''"

definition getAsyncEnvDir :: "('db, 'mdb) provider \<Rightarrow> string" where
  "getAsyncEnvDir P = storeDir P @ ''/'' @ storeTopLevelDir @ ''/async/''"

text \<open>\<^verbatim>\<open>char\<close> is signed.\<close>

definition schar :: "char \<Rightarrow> int" where
  "schar c = (let n = of_char c :: int in if n < 128 then n else n - 256)"

definition bHash :: "string \<Rightarrow> u32" where
  "bHash str = foldl (\<lambda>h c. 33 * h + word_of_int (schar c)) 0 str"

text \<open>\<^verbatim>\<open>c_str()\<close> ends a string at its first NUL.\<close>

definition c_str :: "string \<Rightarrow> string" where
  "c_str s = takeWhile (\<lambda>c. of_char c \<noteq> (0 :: nat)) s"

definition getJrnlHashDir :: "string \<Rightarrow> string" where
  "getJrnlHashDir queueName =
     getJrnlBaseDir @ pad0 4 (hex_string (unat (bHash (c_str queueName) mod 29))) @ ''/'' @ queueName @ ''/''"

definition getJrnlDir :: "'a persistable_scheme \<Rightarrow> string" where
  "getJrnlDir queue = getJrnlHashDir (c_str (pname queue))"

section \<open>Initialisation\<close>

definition initManagement :: "(('db, 'mdb) provider, unit) comp" where
  "initManagement = modE (\<lambda>P. if broker P then P\<lparr>agent := True, prov_mgmtObject := True\<rparr> else P)"

definition closeDbs :: "('db, 'mdb) bdb \<Rightarrow> (('db, 'mdb) provider, unit) comp" where
  "closeDbs B =
     bindE (getE dbs) (\<lambda>l.
       case (if l = [] then None else env_close B) of
         Some n \<Rightarrow> throwE (DbException n)
       | None \<Rightarrow> modE (\<lambda>P. P\<lparr>dbs := [], queueDb := None, configDb := None, exchangeDb := None,
                              mappingDb := None, bindingDb := None, generalDb := None\<rparr>))"

text \<open>The body of the \<^verbatim>\<open>try\<close> block, on attempt \<open>n\<close>.\<close>

definition open_catalogue :: "('db, 'mdb) bdb \<Rightarrow> nat \<Rightarrow> (('db, 'mdb) provider, unit) comp" where
  "open_catalogue B n =
     thenE (liftE (TxnCtxt_begin (cat_api B)))
     (bindE (liftE (db_result (db_open B n ''queues.db''))) (\<lambda>q.
      bindE (liftE (db_result (db_open B n ''config.db''))) (\<lambda>c.
      bindE (liftE (db_result (db_open B n ''exchanges.db''))) (\<lambda>e.
      bindE (liftE (db_result (mdb_open B n ''mappings.db''))) (\<lambda>m.
      bindE (liftE (db_result (mdb_open B n ''bindings.db''))) (\<lambda>b.
      bindE (liftE (db_result (db_open B n ''general.db''))) (\<lambda>g.
      thenE (liftE (TxnCtxt_commit (cat_api B) True))
      (modE (\<lambda>P. P\<lparr>queueDb := Some q, configDb := Some c, exchangeDb := Some e, mappingDb := Some m,
                    bindingDb := Some b, generalDb := Some g\<rparr>)))))))))"

definition init_attempt :: "('db, 'mdb) bdb \<Rightarrow> nat \<Rightarrow> (('db, 'mdb) provider, unit) comp" where
  "init_attempt B n =
     bindE (getE getAsyncEnvDir) (\<lambda>asyncDir.
     bindE (getE getBdbBaseDir) (\<lambda>bdbDir.
     thenE (with_fs (create_dir bdbDir))
     (thenE (with_fs (create_dir asyncDir))
     (bindE (getE machine) (\<lambda>w.
      bindE (liftE (AsyncOperationLogger asyncDir w)) (\<lambda>(A, w').
      thenE (modE (\<lambda>P. P\<lparr>aologger := Some A, machine := w'\<rparr>))
      (thenE (case env_open B n bdbDir of Some k \<Rightarrow> throwE (DbException k) | None \<Rightarrow> retE ())
      (thenE (modE (\<lambda>P. P\<lparr>dbs := dbs P @ [''queueDb'', ''configDb'', ''exchangeDb'', ''mappingDb'', ''bindingDb'', ''generalDb'']\<rparr>))
      (thenE (open_catalogue B n)
      (modE (\<lambda>P. P\<lparr>enqueuePool := [], dequeuePool := [], isInit := True\<rparr>)))))))))))"

definition retryMax :: nat where
  "retryMax = 3"

definition mismatch_text :: string where
  "mismatch_text = ''Database environment mismatch: This version of db4 does not match that which created'' @
     ''the store database. (If recovery is not important, delete the contents of the store directory.'' @
     ''Otherwise, try upgrading the database using db_upgrade or using db_recover - but the db4-utils'' @
     ''package must also be installed to use these utilities.)''"

text \<open>The \<^verbatim>\<open>do ... while (!isInit)\<close> loop, by the number of attempts that are left.\<close>

fun init_loop :: "('db, 'mdb) bdb \<Rightarrow> nat \<Rightarrow> (('db, 'mdb) provider, unit) comp" where
  "init_loop B 0 = throwE (Fault NoReturn)"
| "init_loop B (Suc left) =
     (let bdbRetryCnt = retryMax - left
      in thenE (whenE (bdbRetryCnt > 1) (closeDbs B))
         (catchE (init_attempt B bdbRetryCnt) (\<lambda>e.
            case e of
              DbException n \<Rightarrow>
                if n = db_version_mismatch B then throwE (StoreException mismatch_text)
                else if bdbRetryCnt \<ge> retryMax
                then throwE (StoreException ''BDB exception occurred while initializing store'')
                else init_loop B left
            | JException _ _ _ _ \<Rightarrow> throwE (StoreException ''Journal Exception occurred while initializing store'')
            | _ \<Rightarrow> throwE e)))"

definition set_dir :: "('db, 'mdb) bdb \<Rightarrow> string \<Rightarrow> (('db, 'mdb) provider, unit) comp" where
  "set_dir B dir =
     thenE (modE (\<lambda>P. if length dir > 0 then P\<lparr>storeDir := dir\<rparr> else P))
     (bindE (getE storeDir) (\<lambda>d.
        if d = [] then (case homedir B of
                          None \<Rightarrow> throwE (Fault NullPointer)
                        | Some h \<Rightarrow> modE (\<lambda>P. P\<lparr>storeDir := h\<rparr>))
        else retE ()))"

text \<open>\<^verbatim>\<open>init(dir, false)\<close> and \<^verbatim>\<open>init(const qpid::Options*)\<close>.\<close>

definition init_dir :: "('db, 'mdb) bdb \<Rightarrow> string \<Rightarrow> (('db, 'mdb) provider, bool) comp" where
  "init_dir B dir =
     bindE (getE isInit) (\<lambda>i.
       if i then retE True
       else thenE (set_dir B dir) (thenE initManagement (thenE (init_loop B retryMax) (getE isInit))))"

definition init_options :: "('db, 'mdb) bdb \<Rightarrow> (('db, 'mdb) provider, bool) comp" where
  "init_options B = bindE (getE options) (\<lambda>opts. init_dir B (opt_storeDir opts))"

definition truncateInit :: "('db, 'mdb) bdb \<Rightarrow> bool \<Rightarrow> (('db, 'mdb) provider, unit) comp" where
  "truncateInit B pushDownStoreFiles =
     bindE (getE isInit) (\<lambda>i.
     thenE (whenE i
       (bindE (getE journalList) (\<lambda>l.
          if l \<noteq> [] then throwE (StoreException (''truncateInit() called with '' @ nat_string (length l) @ '' queues still in existence''))
          else thenE (closeDbs B) (modE (\<lambda>P. P\<lparr>dbs := [], isInit := False\<rparr>)))))
     (thenE (init_options B) (retE ())))"

definition init :: "('db, 'mdb) bdb \<Rightarrow> string \<Rightarrow> bool \<Rightarrow> (('db, 'mdb) provider, bool) comp" where
  "init B dir trunc =
     (if \<not> trunc then init_dir B dir
      else bindE (getE isInit) (\<lambda>i.
             if i then retE True
             else thenE (set_dir B dir) (thenE initManagement (thenE (truncateInit B False) (getE isInit)))))"

definition checkInit :: "('db, 'mdb) bdb \<Rightarrow> (('db, 'mdb) provider, unit) comp" where
  "checkInit B =
     bindE (getE isInit) (\<lambda>i.
       whenE (\<not> i) (thenE (init B ''/tmp'' False) (modE (\<lambda>P. P\<lparr>isInit := True\<rparr>))))"

text \<open>\<open>store\<close> says whether the plugin target is a \<^verbatim>\<open>MessageStorePlugin\<close>, \<open>data_dir\<close> is the broker's
  data directory when it is enabled. The result tells whether the provider has announced
  itself. Only \<^verbatim>\<open>qpid::Exception\<close> is caught.\<close>

definition earlyInitialize :: "('db, 'mdb) bdb \<Rightarrow> bool \<Rightarrow> string option \<Rightarrow> (('db, 'mdb) provider, bool) comp" where
  "earlyInitialize B store data_dir =
     (if \<not> store then retE False
      else catchE
        (thenE (modE (\<lambda>P. P\<lparr>broker := True\<rparr>))
        (bindE (getE (opt_storeDir \<circ> options)) (\<lambda>d.
         thenE (if d = []
                then (case data_dir of
                        None \<Rightarrow> throwE (StoreException ''bdbmsgstore: If --data-dir is blank or --no-data-dir is specified, --store-dir must be present.'')
                      | Some p \<Rightarrow> modE (\<lambda>P. P\<lparr>options := (options P)\<lparr>opt_storeDir := p\<rparr>\<rparr>))
                else retE ())
         (init_options B))))
        (\<lambda>e. case e of QpidException s \<Rightarrow> retE False | _ \<Rightarrow> throwE e))"

section \<open>Finalisation\<close>

text \<open>The loop over the journal list stops every journal that is ready and drops the entries.\<close>

fun stop_journals :: "(u64 \<times> nat option) list \<Rightarrow> 'db journal option list \<Rightarrow> 'db journal option list" where
  "stop_journals [] h = h"
| "stop_journals ((q, None) # l) h = stop_journals l h"
| "stop_journals ((q, Some a) # l) h =
     stop_journals l (case (if a < length h then h ! a else None) of
                        None \<Rightarrow> h
                      | Some J \<Rightarrow> if is_init J then h[a := Some (journal_stop J)] else h)"

definition finalizeMe :: "(('db, 'mdb) provider, unit) comp" where
  "finalizeMe = modE (\<lambda>P. P\<lparr>tracker := snd (PidTracker_stop (tracker P)), enqueuePool := [], dequeuePool := [],
     enqLogCleanerThread := False, deqLogCleanerThread := False, eraserThread := False,
     jheap := stop_journals (journalList P) (jheap P), journalList := [],
     aologger := None, acceptedFromMongo := [], recoveredJournal := [], finalized := True\<rparr>)"

definition BdbStoreProvider_destroy :: "('db, 'mdb) bdb \<Rightarrow> (('db, 'mdb) provider, unit) comp" where
  "BdbStoreProvider_destroy B =
     bindE (getE finalized) (\<lambda>f.
       thenE (whenE (\<not> f) finalizeMe) (catchE (closeDbs B) (\<lambda>e. retE ())))"

definition journalDeleted :: "'db journal \<Rightarrow> (('db, 'mdb) provider, unit) comp" where
  "journalDeleted j = modE (\<lambda>P. P\<lparr>journalList := smap_erase (queuePid j) (journalList P)\<rparr>)"

text \<open>One round of the loop that removes unused log files: the outcome of the checkpoint, the
  list of \<^verbatim>\<open>log_archive\<close>, and which files could be removed.\<close>

fun remove_logs :: "(string \<Rightarrow> int) \<Rightarrow> string list \<Rightarrow> nat \<Rightarrow> exn + nat" where
  "remove_logs rm [] log_count = Inr log_count"
| "remove_logs rm (f # fs) log_count =
     (if rm f \<noteq> 0 then Inl (StoreException ''Error removing unused log files'') else remove_logs rm fs (log_count + 1))"

definition deleteUnusedLog_round :: "int \<Rightarrow> int + string list option \<Rightarrow> (string \<Rightarrow> int) \<Rightarrow> exn + nat" where
  "deleteUnusedLog_round checkpoint archive rm =
     (if checkpoint \<noteq> 0 then Inl (StoreException ''Error generating a checkpoint'')
      else case archive of
             Inl n \<Rightarrow> Inl (StoreException ''Error getting unused log files'')
           | Inr None \<Rightarrow> Inr 0
           | Inr (Some l) \<Rightarrow> remove_logs rm l 0)"

section \<open>The catalogue\<close>

text \<open>\<^verbatim>\<open>create(db, seq, p)\<close>: stores the encoding under the next id of the sequence. The result is
  whether it was stored, the database, the sequence, and the object with its id.\<close>

definition create_rec :: "'db dbapi \<Rightarrow> 'db \<Rightarrow> u64 \<Rightarrow> 'a persistable_scheme \<Rightarrow> (exn + bool \<times> 'db \<times> 'a persistable_scheme) \<times> u64" where
  "create_rec api db seq p =
     (let (i, seq') = IdSequence_next seq
      in (case in_txn api (api_put api i (encoded p) db) of
            Inl e \<Rightarrow> Inl e
          | Inr (status, db') \<Rightarrow>
              Inr (if status = DbKeyExist then (False, db', p) else (True, db', p\<lparr>persistenceId := i\<rparr>)), seq'))"

definition put :: "('db, 'mdb) bdb \<Rightarrow> 'mdb \<Rightarrow> u64 \<Rightarrow> bytes \<Rightarrow> exn + 'mdb" where
  "put B db key val =
     (case m_put (multi_api B) key val db of
        Inl n \<Rightarrow> Inl (StoreException (db_strerror B n))
      | Inr (status, db') \<Rightarrow>
          (case status of
             DbKeyExist \<Rightarrow> Inl (StoreException ''duplicate data'')
           | DbOk \<Rightarrow> Inr db'
           | DbNotFound \<Rightarrow> Inl (StoreException (db_strerror B (db_notfound B)))
           | DbOther n \<Rightarrow> if n = 0 then Inr db' else Inl (StoreException (db_strerror B n))))"

definition destroy_rec :: "'db dbapi \<Rightarrow> 'db \<Rightarrow> u64 \<Rightarrow> exn + 'db" where
  "destroy_rec api db i = (case api_del api i db of Inl n \<Rightarrow> Inl (DbException n) | Inr (_, db') \<Rightarrow> Inr db')"

text \<open>\<^verbatim>\<open>catch (const DbException&)\<close> around the creation of a record.\<close>

definition as_store :: "string \<Rightarrow> exn \<Rightarrow> exn" where
  "as_store txt e = (case e of DbException n \<Rightarrow> StoreException txt | _ \<Rightarrow> e)"

definition create_queue :: "('db, 'mdb) bdb \<Rightarrow> pqueue \<Rightarrow> (('db, 'mdb) provider, pqueue) comp" where
  "create_queue B queue =
     thenE (checkInit B)
     (if persistenceId queue \<noteq> 0 then throwE (StoreException (''Queue already created: '' @ pname queue))
      else if length (pname queue) = 0 then retE queue
      else bindE (bindE (getE queueDb) handle) (\<lambda>db.
           bindE (getE queueIdSequence) (\<lambda>seq.
           case create_rec (cat_api B) db seq queue of
             (Inl e, seq') \<Rightarrow> thenE (modE (\<lambda>P. P\<lparr>queueIdSequence := seq'\<rparr>))
                                (throwE (as_store (''Error creating queue named  '' @ pname queue) e))
           | (Inr (created, db', q), seq') \<Rightarrow>
               thenE (modE (\<lambda>P. P\<lparr>queueIdSequence := seq', queueDb := Some db'\<rparr>))
               (if \<not> created then throwE (StoreException (''Queue already exists: '' @ pname queue))
                else bindE (getE getBdbBaseDir) (\<lambda>base.
                     thenE (with_fs (create_dir (base @ getJrnlDir q)))
                     (bindE (getE id) (\<lambda>P.
                      bindE (liftE (JournalImpl (pname q) (persistenceId q) (getJrnlDir q) base (prov_num_jfiles P) True (agent P))) (\<lambda>J.
                      bindE (new_journal J) (\<lambda>a.
                      bindE (catchE (liftE (initialize (msg_api B) J))
                               (rethrow_jexception (\<lambda>w. ''Queue '' @ pname q @ '': create() failed: '' @ w))) (\<lambda>J'.
                      thenE (update_at a J')
                      (thenE (modE (\<lambda>P. P\<lparr>journalList := smap_assign (persistenceId q) (Some a) (journalList P)\<rparr>))
                      (retE (q\<lparr>externalQueueStore := Some a\<rparr>)))))))))))))"

text \<open>A cursor over the bindings, with the deletion of the pairs the test selects; a value too
  short for a queue id is an error.\<close>

fun delete_bindings :: "'mdb mdbapi \<Rightarrow> (u64 \<Rightarrow> bytes \<Rightarrow> bool) \<Rightarrow> (u64 \<times> bytes) list \<Rightarrow> 'mdb \<Rightarrow> exn + 'mdb" where
  "delete_bindings api sel [] db = Inr db"
| "delete_bindings api sel ((key, val) # l) db =
     (if length val < 8 then Inl (StoreException ''Not enough data for binding'')
      else if sel key val
      then (case m_del_at api (key, val) db of Inl n \<Rightarrow> Inl (DbException n) | Inr db' \<Rightarrow> delete_bindings api sel l db')
      else delete_bindings api sel l db)"

text \<open>The transaction around such a deletion: whatever is thrown inside is reported as a store
  exception, except a fault of the machine.\<close>

definition binding_txn :: "('db, 'mdb) bdb \<Rightarrow> ('mdb \<Rightarrow> exn + 'mdb) \<Rightarrow> (('db, 'mdb) provider, unit) comp" where
  "binding_txn B f =
     bindE (bindE (getE bindingDb) handle) (\<lambda>db.
     case TxnCtxt_begin (cat_api B) of
       Inl e \<Rightarrow> throwE e
     | Inr txn \<Rightarrow>
         (case (case f db of Inl e \<Rightarrow> Inl e
                | Inr db' \<Rightarrow> (case TxnCtxt_commit (cat_api B) txn of Inl e \<Rightarrow> Inl e | Inr _ \<Rightarrow> Inr db')) of
            Inl (Fault x) \<Rightarrow> throwE (Fault x)
          | Inl (DbException n) \<Rightarrow> throwE (StoreException (''Error deleting bindings: '' @ db_strerror B n))
          | Inl e \<Rightarrow> throwE (StoreException (''Error deleting bindings: '' @ jexception_what e))
          | Inr db' \<Rightarrow> modE (\<lambda>P. P\<lparr>bindingDb := Some db'\<rparr>)))"

definition deleteBindingsForQueue :: "('db, 'mdb) bdb \<Rightarrow> 'a persistable_scheme \<Rightarrow> (('db, 'mdb) provider, unit) comp" where
  "deleteBindingsForQueue B queue =
     binding_txn B (\<lambda>db. delete_bindings (multi_api B)
       (\<lambda>key val. persistenceId queue = getLongLong (framing B) val) (m_scan (multi_api B) db) db)"

text \<open>\<^verbatim>\<open>DB_SET\<close> and \<^verbatim>\<open>DB_NEXT_DUP\<close> visit the values under one key.\<close>

definition deleteBinding :: "('db, 'mdb) bdb \<Rightarrow> 'a persistable_scheme \<Rightarrow> 'b persistable_scheme \<Rightarrow> string \<Rightarrow> (('db, 'mdb) provider, unit) comp" where
  "deleteBinding B exchange queue bkey =
     binding_txn B (\<lambda>db. delete_bindings (multi_api B)
       (\<lambda>key val. persistenceId queue = getLongLong (framing B) val \<and>
          bkey = fst (getShortString (framing B) (snd (getShortString (framing B) (drop 8 val)))))
       (filter (\<lambda>(key, val). key = persistenceId exchange) (m_scan (multi_api B) db)) db)"

text \<open>\<^verbatim>\<open>setExternalQueueStore(0)\<close> deletes the journal, whose destructor calls back.\<close>

definition delete_journal :: "nat \<Rightarrow> (('db, 'mdb) provider, unit) comp" where
  "delete_journal a =
     bindE (deref a) (\<lambda>J. thenE (journalDeleted J) (modE (\<lambda>P. P\<lparr>jheap := (jheap P)[a := None]\<rparr>)))"

definition destroy_queue :: "('db, 'mdb) bdb \<Rightarrow> pqueue \<Rightarrow> (('db, 'mdb) provider, pqueue) comp" where
  "destroy_queue B queue =
     thenE (checkInit B)
     (bindE (bindE (getE queueDb) handle) (\<lambda>db.
      bindE (liftE (destroy_rec (cat_api B) db (persistenceId queue))) (\<lambda>db'.
      thenE (modE (\<lambda>P. P\<lparr>queueDb := Some db'\<rparr>))
      (thenE (deleteBindingsForQueue B queue)
      (case externalQueueStore queue of
         None \<Rightarrow> retE queue
       | Some a \<Rightarrow>
           bindE (deref a) (\<lambda>J.
           case delete_jrnl_files J of
             (J', removed, dir) \<Rightarrow>
               thenE (update_at a J')
               (thenE (with_fs (delete_dir dir False))
               (thenE (delete_journal a)
               (thenE (modE (\<lambda>P. P\<lparr>journalList := smap_erase (persistenceId queue) (journalList P)\<rparr>))
               (retE (queue\<lparr>externalQueueStore := None\<rparr>)))))))))))"

definition create_exchange :: "('db, 'mdb) bdb \<Rightarrow> persistable \<Rightarrow> (('db, 'mdb) provider, persistable) comp" where
  "create_exchange B exchange =
     thenE (checkInit B)
     (if persistenceId exchange \<noteq> 0 then throwE (StoreException (''Exchange already created: '' @ pname exchange))
      else bindE (bindE (getE exchangeDb) handle) (\<lambda>db.
           bindE (getE exchangeIdSequence) (\<lambda>seq.
           case create_rec (cat_api B) db seq exchange of
             (Inl e, seq') \<Rightarrow> thenE (modE (\<lambda>P. P\<lparr>exchangeIdSequence := seq'\<rparr>))
                                (throwE (case e of
                                   DbException n \<Rightarrow> StoreException (''Error creating exchange named '' @ pname exchange @ '': '' @ db_strerror B n)
                                 | _ \<Rightarrow> e))
           | (Inr (created, db', x), seq') \<Rightarrow>
               thenE (modE (\<lambda>P. P\<lparr>exchangeIdSequence := seq', exchangeDb := Some db'\<rparr>))
               (if \<not> created then throwE (StoreException (''Exchange already exists: '' @ pname exchange)) else retE x))))"

definition destroy_exchange :: "('db, 'mdb) bdb \<Rightarrow> persistable \<Rightarrow> (('db, 'mdb) provider, unit) comp" where
  "destroy_exchange B exchange =
     thenE (checkInit B)
     (bindE (bindE (getE exchangeDb) handle) (\<lambda>db.
      bindE (liftE (destroy_rec (cat_api B) db (persistenceId exchange))) (\<lambda>db'.
      thenE (modE (\<lambda>P. P\<lparr>exchangeDb := Some db'\<rparr>))
      (bindE (bindE (getE bindingDb) handle) (\<lambda>b.
       bindE (liftE (db_result (m_del (multi_api B) (persistenceId exchange) b))) (\<lambda>b'.
       modE (\<lambda>P. P\<lparr>bindingDb := Some b'\<rparr>)))))))"

text \<open>\<^verbatim>\<open>BindingDbt\<close>: the value stored for a binding; \<open>args\<close> is the encoded field table.\<close>

definition BindingDbt :: "wire \<Rightarrow> 'a persistable_scheme \<Rightarrow> string \<Rightarrow> bytes \<Rightarrow> bytes" where
  "BindingDbt f q k args =
     putLongLong f (persistenceId q) @ putShortString f (pname q) @ putShortString f k @ args"

definition bind :: "('db, 'mdb) bdb \<Rightarrow> persistable \<Rightarrow> pqueue \<Rightarrow> string \<Rightarrow> bytes \<Rightarrow> (('db, 'mdb) provider, unit) comp" where
  "bind B e q k args =
     thenE (checkInit B)
     (bindE (bindE (getE bindingDb) handle) (\<lambda>db.
      case TxnCtxt_begin (cat_api B) of
        Inl x \<Rightarrow> throwE x
      | Inr txn \<Rightarrow>
          (case put B db (persistenceId e) (BindingDbt (framing B) q k args) of
             Inl x \<Rightarrow> throwE x
           | Inr db' \<Rightarrow> (case TxnCtxt_commit (cat_api B) txn of
                           Inl x \<Rightarrow> throwE x
                         | Inr _ \<Rightarrow> modE (\<lambda>P. P\<lparr>bindingDb := Some db'\<rparr>)))))"

definition unbind :: "('db, 'mdb) bdb \<Rightarrow> persistable \<Rightarrow> pqueue \<Rightarrow> string \<Rightarrow> (('db, 'mdb) provider, unit) comp" where
  "unbind B e q k = thenE (checkInit B) (deleteBinding B e q k)"

definition create_config :: "('db, 'mdb) bdb \<Rightarrow> persistable \<Rightarrow> (('db, 'mdb) provider, persistable) comp" where
  "create_config B general =
     thenE (checkInit B)
     (if persistenceId general \<noteq> 0 then throwE (StoreException ''General configuration item already created'')
      else bindE (bindE (getE generalDb) handle) (\<lambda>db.
           bindE (getE generalIdSequence) (\<lambda>seq.
           case create_rec (cat_api B) db seq general of
             (Inl e, seq') \<Rightarrow> thenE (modE (\<lambda>P. P\<lparr>generalIdSequence := seq'\<rparr>))
                                (throwE (case e of
                                   DbException n \<Rightarrow> StoreException (''Error creating general configuration: '' @ db_strerror B n)
                                 | _ \<Rightarrow> e))
           | (Inr (created, db', x), seq') \<Rightarrow>
               thenE (modE (\<lambda>P. P\<lparr>generalIdSequence := seq', generalDb := Some db'\<rparr>))
               (if \<not> created then throwE (StoreException ''General configuration already exists'') else retE x))))"

definition destroy_config :: "('db, 'mdb) bdb \<Rightarrow> persistable \<Rightarrow> (('db, 'mdb) provider, unit) comp" where
  "destroy_config B general =
     thenE (checkInit B)
     (bindE (bindE (getE generalDb) handle) (\<lambda>db.
      bindE (liftE (destroy_rec (cat_api B) db (persistenceId general))) (\<lambda>db'.
      modE (\<lambda>P. P\<lparr>generalDb := Some db'\<rparr>))))"

section \<open>What is not implemented\<close>

definition not_implemented :: "string \<Rightarrow> ('s, 'a) comp" where
  "not_implemented fn = throwE (jexception_in JERR__NOTIMPL ''BdbStoreProvider'' fn)"

definition stage :: "message \<Rightarrow> ('s, unit) comp" where
  "stage msg = not_implemented ''stage''"

definition destroy_message :: "message \<Rightarrow> ('s, unit) comp" where
  "destroy_message msg = not_implemented ''destroy''"

definition appendContent :: "message \<Rightarrow> bytes \<Rightarrow> ('s, unit) comp" where
  "appendContent msg data = not_implemented ''appendContent''"

definition begin_txn :: "('s, unit) comp" where
  "begin_txn = not_implemented ''begin''"

definition begin_tpc :: "string \<Rightarrow> ('s, unit) comp" where
  "begin_tpc xid = not_implemented ''begin''"

definition prepare :: "('s, unit) comp" where
  "prepare = not_implemented ''prepare''"

definition commit :: "('s, unit) comp" where
  "commit = not_implemented ''commit''"

definition abort_txn :: "('s, unit) comp" where
  "abort_txn = not_implemented ''abort''"

definition collectPreparedXids :: "('s, string list) comp" where
  "collectPreparedXids = not_implemented ''collectPreparedXids''"

section \<open>Enqueue and dequeue\<close>

text \<open>The transient flag, the size of the header, and what the message encodes to.\<close>

definition msgEncode :: "('db, 'mdb) bdb \<Rightarrow> message \<Rightarrow> (('db, 'mdb) provider, bytes \<times> u64) comp" where
  "msgEncode B msg =
     (let headerSize = word_of_nat (length (enc_header msg)) :: u32;
          size = word_of_nat (length (enc_header msg) + length (enc_content msg)) + 4 + 1 :: u64
      in bindE (getE machine) (\<lambda>w.
           if \<not> can_alloc w ''buff'' (unat size)
           then throwE (StoreException (''Unable to allocate memory for encoding message; requested size: '' @ nat_string (unat size)))
           else retE ((if msg_persistent msg then 0 else 1) # putLong (framing B) headerSize @ enc_header msg @ enc_content msg, size)))"

definition schedule_store :: "('db, 'mdb) bdb \<Rightarrow> store_task \<Rightarrow> (('db, 'mdb) provider, bool) comp" where
  "schedule_store B t =
     (if pool_accepts B then thenE (modE (\<lambda>P. P\<lparr>enqueuePool := enqueuePool P @ [t]\<rparr>)) (retE True) else retE False)"

definition schedule_dequeue :: "('db, 'mdb) bdb \<Rightarrow> dequeue_task \<Rightarrow> (('db, 'mdb) provider, bool) comp" where
  "schedule_dequeue B t =
     (if pool_accepts B then thenE (modE (\<lambda>P. P\<lparr>dequeuePool := dequeuePool P @ [t]\<rparr>)) (retE True) else retE False)"

text \<open>The id of the message: a new one, or the one it has, which is then a further enqueue of a
  message already given out.\<close>

definition enqueue_id :: "message \<Rightarrow> u64 \<Rightarrow> (('db, 'mdb) provider, u64) comp" where
  "enqueue_id msg qid =
     (if msg_pid msg = 0
      then bindE (getE messageIdSequence) (\<lambda>seq.
           case IdSequence_next seq of
             (i, seq') \<Rightarrow> thenE (modE (\<lambda>P. P\<lparr>messageIdSequence := seq'\<rparr>)) (retE i))
      else thenE (modE (\<lambda>P. P\<lparr>tracker := snd (addDuplicate (msg_pid msg) qid (tracker P))\<rparr>)) (retE (msg_pid msg)))"

definition enqueue :: "('db, 'mdb) bdb \<Rightarrow> message \<Rightarrow> pqueue \<Rightarrow> (('db, 'mdb) provider, message) comp" where
  "enqueue B msg queue =
     thenE (checkInit B)
     (if persistenceId queue = 0 then throwE (StoreException (''Queue not created: '' @ pname queue))
      else bindE (enqueue_id msg (persistenceId queue)) (\<lambda>messageId.
           bindE (msgEncode B msg) (\<lambda>(buff, size).
           thenE (with_log (log_enqueue_start messageId (persistenceId queue) buff size (\<not> msg_persistent msg)))
           (thenE (modE (\<lambda>P. if enableSmartAsync (options P)
                              then P\<lparr>tracker := snd (willEnqueue messageId (persistenceId queue) (tracker P))\<rparr> else P))
           (bindE (schedule_store B (StoreTask (externalQueueStore queue) buff size messageId (\<not> msg_persistent msg))) (\<lambda>ok.
            if \<not> ok then throwE (StoreException ''Unable to dispatch the enqueue!'')
            else retE (msg\<lparr>msg_pid := messageId\<rparr>)))))))"

definition dequeue :: "('db, 'mdb) bdb \<Rightarrow> message \<Rightarrow> pqueue \<Rightarrow> (('db, 'mdb) provider, unit) comp" where
  "dequeue B msg queue =
     thenE (checkInit B)
     (if msg_pid msg = 0 then throwE (StoreException ''Error dequeuing message, persistence id not set'')
      else if persistenceId queue = 0 then throwE (StoreException (''Queue not created: '' @ pname queue))
      else bindE (getE id) (\<lambda>P0.
           case (if enableSmartAsync (options P0) then dequeueCheck (msg_pid msg) (persistenceId queue) (tracker P0)
                 else (True, tracker P0)) of
             (toExec, t) \<Rightarrow>
               thenE (modE (\<lambda>P. P\<lparr>tracker := t\<rparr>))
               (if toExec
                then thenE (with_log (Inr \<circ> log_dequeue_start (msg_pid msg) (persistenceId queue)))
                     (bindE (schedule_dequeue B (DequeueTask (msg_pid msg) (externalQueueStore queue))) (\<lambda>ok.
                      if \<not> ok then throwE (StoreException ''Unable to dispatch the dequeue!'') else retE ()))
                else thenE (with_log (Inr \<circ> log_enqueue_complete (msg_pid msg) (persistenceId queue))) (retE ()))))"

section \<open>The tasks of the pools\<close>

text \<open>\<^verbatim>\<open>store\<close>: runs on a thread of the enqueue pool.\<close>

definition store :: "('db, 'mdb) bdb \<Rightarrow> nat option \<Rightarrow> bytes \<Rightarrow> u64 \<Rightarrow> u64 \<Rightarrow> bool \<Rightarrow> (('db, 'mdb) provider, unit) comp" where
  "store B jc buff sz pid transient =
     (case jc of
        None \<Rightarrow> throwE (StoreException ''BdbStoreProvider::store() failed: queue NULL.'')
      | Some a \<Rightarrow>
          bindE (deref a) (\<lambda>J.
          catchE
            (bindE (getE id) (\<lambda>P0.
             case (if enableSmartAsync (options P0) then enqueueCheck pid (queuePid J) (tracker P0) else (True, tracker P0)) of
               (toExec, t) \<Rightarrow>
                 thenE (modE (\<lambda>P. P\<lparr>tracker := t\<rparr>))
                 (thenE (whenE toExec (bindE (liftE (enqueue_data (msg_api B) (take (unat sz) buff) pid J)) (update_at a)))
                 (thenE (with_log (Inr \<circ> log_enqueue_complete pid (queuePid J)))
                 (modE (\<lambda>P. P\<lparr>tracker := snd (snd (addPid pid (queuePid J) (tracker P)))\<rparr>))))))
            (rethrow_jexception (\<lambda>w. ''Queue '' @ journalName J @ '': BdbStoreProvider::store() failed: '' @ w))))"

text \<open>\<^verbatim>\<open>async_dequeue\<close>: runs on a thread of the dequeue pool; \<open>obs\<close> are the tracker states it sees
  while it waits.\<close>

definition async_dequeue :: "('db, 'mdb) bdb \<Rightarrow> pid_tracker list \<Rightarrow> u64 \<Rightarrow> nat option \<Rightarrow> (('db, 'mdb) provider, unit) comp" where
  "async_dequeue B obs msg_id jc =
     (case jc of
        None \<Rightarrow> throwE (Fault NullPointer)
      | Some a \<Rightarrow>
          bindE (deref a) (\<lambda>J.
          catchE
            (case waitForPid msg_id (queuePid J) obs of
               Blocked \<Rightarrow> throwE (Fault NoReturn)
             | Returned r \<Rightarrow>
                 (if r = -1
                  then bindE (schedule_dequeue B (DequeueTask msg_id jc)) (\<lambda>ok.
                       if \<not> ok then throwE (StoreException ''Unable to redispatch the dequeue!'') else retE ())
                  else if r = -2 then retE ()
                  else bindE (liftE (dequeue_data (msg_api B) msg_id J)) (\<lambda>J'.
                       thenE (update_at a J')
                       (thenE (with_log (Inr \<circ> log_dequeue_complete msg_id (queuePid J))) (retE ())))))
            (rethrow_jexception (\<lambda>w. ''Queue '' @ journalName J @ '': async_dequeue() failed: '' @ w))))"

text \<open>The loop around the wait of \<^verbatim>\<open>loadContent\<close>; every round has its own observations.\<close>

fun load_wait :: "u64 \<Rightarrow> u64 \<Rightarrow> pid_tracker list list \<Rightarrow> int option" where
  "load_wait m q [] = None"
| "load_wait m q (ob # obs) =
     (case waitForPid m q ob of
        Blocked \<Rightarrow> None
      | Returned r \<Rightarrow> if r < 0 then (if r = -2 then Some r else load_wait m q obs) else Some r)"

definition loadContent ::
    "('db, 'mdb) bdb \<Rightarrow> pid_tracker list list \<Rightarrow> pqueue \<Rightarrow> message \<Rightarrow> bytes \<Rightarrow> u64 \<Rightarrow> u32 \<Rightarrow> (('db, 'mdb) provider, bytes) comp" where
  "loadContent B obs queue msg data offset len =
     thenE (checkInit B)
     (if msg_pid msg = 0 then throwE (StoreException ''Cannot load content. Message not known to store!'')
      else (case load_wait (msg_pid msg) (persistenceId queue) obs of
              None \<Rightarrow> throwE (Fault NoReturn)
            | Some r \<Rightarrow>
                if r = -2 then retE data
                else catchE
                  (case externalQueueStore queue of
                     None \<Rightarrow> throwE (StoreException (''Queue '' @ pname queue @ '': loadContent() failed: Message '' @
                               nat_string (unat (msg_pid msg)) @ '' not enqueued''))
                   | Some a \<Rightarrow>
                       bindE (deref a) (\<lambda>J.
                       bindE (liftE (loadMsgContent (msg_api B) (getLong (framing B)) (msg_pid msg) data (ucast len) offset J)) (\<lambda>(found, data').
                       if \<not> found then throwE (StoreException (''Queue '' @ pname queue @ '': loadContent() failed: Message '' @
                               nat_string (unat (msg_pid msg)) @ '' is extern or not enqueued''))
                       else retE data')))
                  (rethrow_jexception (\<lambda>w. ''Queue '' @ pname queue @ '': loadContent() failed: '' @ w))))"

definition flush_queue :: "('db, 'mdb) bdb \<Rightarrow> pqueue \<Rightarrow> (('db, 'mdb) provider, unit) comp" where
  "flush_queue B queue =
     (case externalQueueStore queue of
        None \<Rightarrow> retE ()
      | Some a \<Rightarrow> thenE (checkInit B)
          (catchE (bindE (deref a) (\<lambda>J. let _ = flush J in retE ()))
             (rethrow_jexception (\<lambda>w. ''Queue '' @ pname queue @ '': flush() failed: '' @ w))))"

definition outstandingQueueAIO :: "pqueue \<Rightarrow> ('s, u32) comp" where
  "outstandingQueueAIO queue = retE 0"

section \<open>Recovering the catalogue\<close>

text \<open>What the recovery manager of the broker makes of a stored record: the configuration item,
  whether there is an exchange, the name of the queue.\<close>

record recovery_manager =
  rm_config :: "bytes \<Rightarrow> bytes"
  rm_exchange :: "bytes \<Rightarrow> bool"
  rm_queue :: "bytes \<Rightarrow> string"
  rm_loads :: "bytes \<Rightarrow> u64 \<Rightarrow> bool"
  rm_uid :: "bytes \<Rightarrow> string"

fun recover_configs_loop :: "recovery_manager \<Rightarrow> (u64 \<times> bytes) list \<Rightarrow> u64 \<Rightarrow> (u64 \<times> bytes) list \<Rightarrow> (u64 \<times> bytes) list \<times> u64" where
  "recover_configs_loop R [] maxId out = (out, maxId)"
| "recover_configs_loop R ((key, val) # l) maxId out =
     recover_configs_loop R l (max key maxId) (out @ [(key, rm_config R val)])"

definition recoverConfigs :: "('db, 'mdb) bdb \<Rightarrow> recovery_manager \<Rightarrow> (('db, 'mdb) provider, (u64 \<times> bytes) list) comp" where
  "recoverConfigs B R =
     bindE (bindE (getE generalDb) handle) (\<lambda>db.
     case recover_configs_loop R (api_scan (cat_api B) db) 1 [] of
       (out, maxId) \<Rightarrow> thenE (modE (\<lambda>P. P\<lparr>generalIdSequence := maxId + 1\<rparr>)) (retE out))"

fun recover_exchanges_loop :: "recovery_manager \<Rightarrow> (u64 \<times> bytes) list \<Rightarrow> u64 \<Rightarrow> (u64, bytes) smap \<Rightarrow> (u64, bytes) smap \<times> u64" where
  "recover_exchanges_loop R [] maxId m = (m, maxId)"
| "recover_exchanges_loop R ((key, val) # l) maxId m =
     recover_exchanges_loop R l (max key maxId) (if rm_exchange R val then smap_assign key val m else m)"

definition recoverExchanges :: "('db, 'mdb) bdb \<Rightarrow> recovery_manager \<Rightarrow> (u64, bytes) smap \<Rightarrow> (('db, 'mdb) provider, (u64, bytes) smap) comp" where
  "recoverExchanges B R exchangeMap =
     bindE (bindE (getE exchangeDb) handle) (\<lambda>db.
     case recover_exchanges_loop R (api_scan (cat_api B) db) 1 exchangeMap of
       (m, maxId) \<Rightarrow> thenE (modE (\<lambda>P. P\<lparr>exchangeIdSequence := maxId + 1\<rparr>)) (retE m))"

text \<open>An empty name ends the loop.\<close>

fun recover_queues_loop ::
    "recovery_manager \<Rightarrow> (u64 \<times> bytes) list \<Rightarrow> u64 \<Rightarrow> (u64, pqueue) smap \<Rightarrow> (('db, 'mdb) provider, (u64, pqueue) smap \<times> u64) comp" where
  "recover_queues_loop R [] maxId m = retE (m, maxId)"
| "recover_queues_loop R ((key, val) # l) maxId m =
     (let queueName = c_str (rm_queue R val)
      in if length queueName = 0 then retE (m, maxId)
         else bindE (getE id) (\<lambda>P.
              bindE (liftE (JournalImpl queueName key (getJrnlHashDir queueName) (getBdbBaseDir P) (prov_num_jfiles P) True (agent P))) (\<lambda>J.
              bindE (new_journal J) (\<lambda>a.
              let q = \<lparr>persistenceId = key, pname = rm_queue R val, encoded = val, externalQueueStore = Some a\<rparr>
              in thenE (modE (\<lambda>P. P\<lparr>journalList := smap_assign key (Some a) (journalList P),
                                    recoveredJournal := recoveredJournal P @ [q]\<rparr>))
                 (recover_queues_loop R l (max key maxId) (smap_assign key q m))))))"

definition recoverQueues :: "('db, 'mdb) bdb \<Rightarrow> recovery_manager \<Rightarrow> (u64, pqueue) smap \<Rightarrow> (('db, 'mdb) provider, (u64, pqueue) smap) comp" where
  "recoverQueues B R queueMap =
     bindE (bindE (getE queueDb) handle) (\<lambda>db.
     bindE (recover_queues_loop R (api_scan (cat_api B) db) 1 queueMap) (\<lambda>(m, maxId).
     thenE (modE (\<lambda>P. P\<lparr>queueIdSequence := maxId + 1\<rparr>)) (retE m)))"

text \<open>The bindings restored, in order: the exchange, the name of the queue, the key, the rest of
  the value (the encoded arguments). A stale binding is deleted.\<close>

type_synonym binding = "u64 \<times> string \<times> string \<times> bytes"

definition decode_binding :: "wire \<Rightarrow> bytes \<Rightarrow> u64 \<times> string \<times> string \<times> bytes" where
  "decode_binding f val =
     (let (queueName, r) = getShortString f (drop 8 val); (routingkey, args) = getShortString f r
      in (getLongLong f val, queueName, routingkey, args))"

fun recover_bindings_loop ::
    "('db, 'mdb) bdb \<Rightarrow> (u64, bytes) smap \<Rightarrow> (u64, pqueue) smap \<Rightarrow> (u64 \<times> bytes) list \<Rightarrow> 'mdb \<Rightarrow> binding list \<Rightarrow> exn + binding list \<times> 'mdb" where
  "recover_bindings_loop B em qm [] db out = Inr (out, db)"
| "recover_bindings_loop B em qm ((key, val) # l) db out =
     (if length val < 8 then Inl (StoreException ''Not enough data for binding'')
      else case decode_binding (framing B) val of
             (qid, queueName, routingkey, args) \<Rightarrow>
               (if map_of em key \<noteq> None \<and> map_of qm qid \<noteq> None
                then recover_bindings_loop B em qm l db (out @ [(key, queueName, routingkey, args)])
                else (case m_del_at (multi_api B) (key, val) db of
                        Inl n \<Rightarrow> Inl (DbException n)
                      | Inr db' \<Rightarrow> recover_bindings_loop B em qm l db' out)))"

definition recoverBindings :: "('db, 'mdb) bdb \<Rightarrow> (u64, bytes) smap \<Rightarrow> (u64, pqueue) smap \<Rightarrow> (('db, 'mdb) provider, binding list) comp" where
  "recoverBindings B exchangeMap queueMap =
     bindE (bindE (getE bindingDb) handle) (\<lambda>db.
     bindE (liftE (recover_bindings_loop B exchangeMap queueMap (m_scan (multi_api B) db) db [])) (\<lambda>(out, db').
     thenE (modE (\<lambda>P. P\<lparr>bindingDb := Some db'\<rparr>)) (retE out)))"

definition recoverTransactions :: "('s, unit) comp" where
  "recoverTransactions = retE ()"

end
