(* ===== verification/Catalogue.thy ===== *)
theory Catalogue
  imports BdbStoreProvider
begin

text \<open>
  Properties of the provider's initialisation and of its catalogue: the retries, the ids
  given to queues, exchanges and configuration items before and after a restart, the
  bindings as a set, and what destroying a queue leaves behind.
\<close>

section \<open>Initialisation\<close>

lemma checkInit_done [simp]: "isInit P \<Longrightarrow> checkInit B P = (Inr (), P)"
  by (simp add: checkInit_def comp_simps)

text \<open>The store directory is in place, the logger can be built, handles can be closed.\<close>

definition ready :: "('db, 'mdb) bdb \<Rightarrow> ('db, 'mdb) provider \<Rightarrow> bool" where
  "ready B P \<longleftrightarrow> create_dir (getBdbBaseDir P) (dirs P) = Inr (dirs P) \<and>
     create_dir (getAsyncEnvDir P) (dirs P) = Inr (dirs P) \<and> (\<forall>v n. can_alloc (machine P) v n) \<and>
     env_close B = None \<and> TxnCtxt_begin (cat_api B) = Inr True \<and> TxnCtxt_commit (cat_api B) True = Inr False"

definition env_opens :: "('db, 'mdb) bdb \<Rightarrow> nat \<Rightarrow> string \<Rightarrow> bool" where
  "env_opens B n dir \<longleftrightarrow> env_open B n dir = None \<and> (\<forall>f. \<exists>d. db_open B n f = Inr d) \<and> (\<forall>f. \<exists>d. mdb_open B n f = Inr d)"

lemma open_enq_alloc [simp]: "can_alloc (snd (open_enq i (A, w))) = can_alloc w"
  by (simp add: open_enq_def ofs_open_app_def Let_def)

lemma open_deq_alloc [simp]: "can_alloc (snd (open_deq i (A, w))) = can_alloc w"
  by (simp add: open_deq_def ofs_open_app_def Let_def)

lemma logger_built:
  assumes "\<forall>v n. can_alloc w v n"
  obtains A w' where "AsyncOperationLogger dir w = Inr (A, w')" "\<forall>v n. can_alloc w' v n"
proof -
  let ?A = "\<lparr>enqueueFileIndex = 0, dequeueFileIndex = 0, enqueueFile = ofs_new, dequeueFile = ofs_new, logBaseDir = dir\<rparr>"
  obtain A1 w1 where 1: "open_enq 0 (?A, w) = (A1, w1)" by fastforce
  obtain A2 w2 where 2: "open_deq 0 (A1, w1) = (A2, w2)" by fastforce
  have "can_alloc w1 = can_alloc w" using open_enq_alloc[of 0 ?A w] 1 by simp
  moreover have "can_alloc w2 = can_alloc w1" using open_deq_alloc[of 0 A1 w1] 2 by simp
  moreover have "AsyncOperationLogger dir w = Inr (A2, w2)" using assms 1 2 by (simp add: AsyncOperationLogger_def)
  ultimately show thesis using assms that by simp
qed

text \<open>An attempt that finds the environment broken throws and leaves a state from which the next
  attempt can start; one that finds it in order initialises the store.\<close>

lemma init_attempt_fails:
  assumes r: "ready B P" and e: "env_open B n (getBdbBaseDir P) = Some k"
  shows "\<exists>A w. init_attempt B n P = (Inl (DbException k), P\<lparr>aologger := A, machine := w\<rparr>) \<and> (\<forall>v m. can_alloc w v m)"
proof -
  obtain A w where a: "AsyncOperationLogger (getAsyncEnvDir P) (machine P) = Inr (A, w)" "\<forall>v m. can_alloc w v m"
    by (rule logger_built[of "machine P" "getAsyncEnvDir P"]) (use r in \<open>auto simp: ready_def\<close>)
  have "init_attempt B n P = (Inl (DbException k), P\<lparr>aologger := Some A, machine := w\<rparr>)"
    using r a(1) e by (simp add: init_attempt_def comp_simps with_fs_def ready_def)
  with a(2) show ?thesis by blast
qed

lemma init_attempt_works:
  assumes r: "ready B P" and e: "env_opens B n (getBdbBaseDir P)"
  shows "\<exists>P'. init_attempt B n P = (Inr (), P') \<and> isInit P'"
proof -
  obtain A w where a: "AsyncOperationLogger (getAsyncEnvDir P) (machine P) = Inr (A, w)" "\<forall>v m. can_alloc w v m"
    by (rule logger_built[of "machine P" "getAsyncEnvDir P"]) (use r in \<open>auto simp: ready_def\<close>)
  obtain q c x m b g where o: "db_open B n ''queues.db'' = Inr q" "db_open B n ''config.db'' = Inr c"
    "db_open B n ''exchanges.db'' = Inr x" "mdb_open B n ''mappings.db'' = Inr m" "mdb_open B n ''bindings.db'' = Inr b"
    "db_open B n ''general.db'' = Inr g"
    using e unfolding env_opens_def by metis
  show ?thesis
    using r a(1) e o
    by (simp add: init_attempt_def open_catalogue_def comp_simps with_fs_def ready_def env_opens_def db_result_def)
qed

lemma ready_upd [simp]:
  "ready B (P\<lparr>aologger := A, machine := w\<rparr>) \<longleftrightarrow> ready B P \<and> (\<forall>v n. can_alloc w v n)"
  if "ready B P"
  using that by (simp add: ready_def getBdbBaseDir_def getAsyncEnvDir_def)

lemma closeDbs_ready:
  assumes "ready B P"
  shows "\<exists>P'. closeDbs B P = (Inr (), P') \<and> ready B P' \<and> storeDir P' = storeDir P"
proof -
  let ?P = "P\<lparr>dbs := [], queueDb := None, configDb := None, exchangeDb := None,
      mappingDb := None, bindingDb := None, generalDb := None\<rparr>"
  have "closeDbs B P = (Inr (), ?P)"
    using assms by (simp add: closeDbs_def comp_simps ready_def)
  moreover have "ready B ?P" using assms by (simp add: ready_def getBdbBaseDir_def getAsyncEnvDir_def)
  ultimately show ?thesis by (intro exI[of _ ?P]) simp
qed

text \<open>The loop, from the attempt with number \<open>retryMax - left\<close> on.\<close>

lemma init_loop_works:
  assumes "ready B P" and "retryMax - left \<le> n" and "n \<le> retryMax" and "left < retryMax"
    and "\<forall>j. retryMax - left \<le> j \<and> j < n \<longrightarrow> (\<exists>k. env_open B j (getBdbBaseDir P) = Some k \<and> k \<noteq> db_version_mismatch B)"
    and "env_opens B n (getBdbBaseDir P)"
  shows "\<exists>P'. init_loop B (Suc left) P = (Inr (), P') \<and> isInit P'"
  using assms
proof (induction left arbitrary: P rule: nat_less_induct)
  case (1 left)
  note IH = 1(1)[rule_format] and prems = 1(2-)
  let ?c = "retryMax - left"
  obtain P1 where P1: "whenE (?c > 1) (closeDbs B) P = (Inr (), P1)" "ready B P1" "storeDir P1 = storeDir P"
    using closeDbs_ready[OF prems(1)] prems(1) by (cases "?c > 1") (auto simp: whenE_def retE_def)
  have bd: "getBdbBaseDir P1 = getBdbBaseDir P" by (simp add: getBdbBaseDir_def P1(3))
  show ?case
  proof (cases "?c = n")
    case True
    then have "env_opens B ?c (getBdbBaseDir P1)" using prems(6) bd by simp
    then obtain P' where "init_attempt B ?c P1 = (Inr (), P')" "isInit P'" using init_attempt_works[OF P1(2)] by blast
    then show ?thesis using P1(1) by (simp add: thenE_def bindE_def catchE_def Let_def)
  next
    case False
    then have lt: "?c < n" using prems(2) by simp
    then obtain k where k: "env_open B ?c (getBdbBaseDir P1) = Some k" "k \<noteq> db_version_mismatch B"
      using prems(5) bd by auto
    obtain A w where a: "init_attempt B ?c P1 = (Inl (DbException k), P1\<lparr>aologger := A, machine := w\<rparr>)" "\<forall>v m. can_alloc w v m"
      using init_attempt_fails[OF P1(2) k(1)] by blast
    obtain left' where l: "left = Suc left'" using lt prems(3) by (cases left) auto
    have c': "retryMax - left' = Suc ?c" using l prems(4) by simp
    let ?P2 = "P1\<lparr>aologger := A, machine := w\<rparr>"
    have r2: "ready B ?P2" using P1(2) a(2) by simp
    have b2: "getBdbBaseDir ?P2 = getBdbBaseDir P" using bd by (simp add: getBdbBaseDir_def)
    have "\<exists>P'. init_loop B (Suc left') ?P2 = (Inr (), P') \<and> isInit P'"
      by (rule IH) (use l r2 b2 c' lt prems in auto)
    moreover have "\<not> retryMax \<le> ?c" using lt prems(3) by simp
    ultimately show ?thesis using P1(1) a(1) k(2) l
      by (simp add: thenE_def bindE_def catchE_def Let_def del: init_loop.simps(2)) (simp add: thenE_def bindE_def catchE_def Let_def)
  qed
qed

text \<open>C27. If Berkeley DB can be opened on one of the first three attempts and the attempts before it
  fail with anything but a version mismatch, \<^verbatim>\<open>init\<close> returns true with the store initialised.\<close>

theorem init_within_three_attempts:
  assumes "\<not> isInit P" and "dir \<noteq> []" and "ready B (P\<lparr>storeDir := dir\<rparr>)" and "1 \<le> n" and "n \<le> 3"
    and "\<forall>j. 1 \<le> j \<and> j < n \<longrightarrow> (\<exists>k. env_open B j (dir @ ''/bdbstore/dat/'') = Some k \<and> k \<noteq> db_version_mismatch B)"
    and "env_opens B n (dir @ ''/bdbstore/dat/'')"
  shows "\<exists>P'. init B dir False P = (Inr True, P') \<and> isInit P'"
proof -
  let ?Q = "P\<lparr>storeDir := dir\<rparr>"
  obtain Q where Q: "initManagement ?Q = (Inr (), Q)" "storeDir Q = dir" "ready B Q"
    using assms(3)
    by (cases "broker P") (auto simp: initManagement_def modE_def ready_def getBdbBaseDir_def getAsyncEnvDir_def)
  have bd: "getBdbBaseDir Q = dir @ ''/bdbstore/dat/''" by (simp add: getBdbBaseDir_def Q(2) storeTopLevelDir_def)
  have "\<exists>P'. init_loop B (Suc 2) Q = (Inr (), P') \<and> isInit P'"
    by (rule init_loop_works[where n = n]) (use assms Q(3) in \<open>auto simp: retryMax_def bd\<close>)
  then obtain P' where "init_loop B retryMax Q = (Inr (), P')" "isInit P'"
    by (metis Suc_numeral numeral_2_eq_2 numeral_3_eq_3 retryMax_def)
  moreover have "set_dir B dir P = (Inr (), ?Q)" using assms(2) by (simp add: set_dir_def comp_simps)
  ultimately show ?thesis using assms(1) Q(1)
    by (simp add: init_def init_dir_def bindE_def thenE_def getE_def)
qed

text \<open>When neither a store directory nor a data directory is given, \<^verbatim>\<open>earlyInitialize\<close> throws the
  store exception it raises for this case to its caller: the handler that is there to let
  the broker go on without a store catches \<^verbatim>\<open>qpid::Exception\<close> only.\<close>

theorem earlyInitialize_lets_store_exception_out:
  assumes "opt_storeDir (options P) = []"
  shows "\<exists>m. earlyInitialize B True None P = (Inl (StoreException m), P\<lparr>broker := True\<rparr>)"
  using assms by (simp add: earlyInitialize_def comp_simps)

text \<open>A concrete environment: lists of pairs as databases, compared exactly in the catalogue;
  the environment opens on the second attempt.\<close>

definition cat_cmp :: "u64 \<Rightarrow> u64 \<Rightarrow> int" where
  "cat_cmp x y = int (unat x) - int (unat y)"

definition list_mdb :: "(u64 \<times> bytes) list mdbapi" where
  "list_mdb = \<lparr>m_put = \<lambda>k v d. Inr (if (k, v) \<in> set d then (DbKeyExist, d) else (DbOk, d @ [(k, v)])),
     m_del = \<lambda>k d. Inr (filter (\<lambda>x. fst x \<noteq> k) d), m_scan = \<lambda>d. remdups d, m_del_at = \<lambda>x d. Inr (filter (\<lambda>y. y \<noteq> x) d)\<rparr>"

definition short_get :: "bytes \<Rightarrow> string \<times> bytes" where
  "short_get bs = (case bs of [] \<Rightarrow> ([], []) | n # r \<Rightarrow> (map (\<lambda>b. char_of (unat b)) (take (unat n) r), drop (unat n) r))"

definition wit_wire :: wire where
  "wit_wire = \<lparr>putLong = wit_putLong, getLong = wit_getLong, putLongLong = u64_bytes, getLongLong = \<lambda>bs. bytes_u64 (take 8 bs),
     putShortString = \<lambda>s. word_of_nat (length s) # map (\<lambda>c. word_of_nat (of_char c)) s, getShortString = short_get\<rparr>"

definition wit_bdb :: "((u64 \<times> bytes) list, (u64 \<times> bytes) list) bdb" where
  "wit_bdb = \<lparr>msg_api = list_db bt_compare_func, cat_api = list_db cat_cmp, multi_api = list_mdb,
     env_open = \<lambda>n _. if n = 1 then Some 11 else None, env_close = None, db_open = \<lambda>_ _. Inr [], mdb_open = \<lambda>_ _. Inr [],
     db_strerror = \<lambda>_. [], db_version_mismatch = -30970, db_notfound = -30988, framing = wit_wire, homedir = None, pool_accepts = True\<rparr>"

definition wit_os :: os where
  "wit_os = \<lparr>files = \<lambda>_. None, can_open = \<lambda>_. True, can_alloc = \<lambda>_ _. True\<rparr>"

definition wit_dirs :: fs where
  "wit_dirs = \<lparr>nodes = [([''d''], Dir), ([''d'', ''bdbstore''], Dir), ([''d'', ''bdbstore'', ''dat''], Dir), ([''d'', ''bdbstore'', ''async''], Dir)],
     cwd = [], deny = \<lambda>_ _. None, strerror = \<lambda>_. []\<rparr>"

definition wit_provider :: "((u64 \<times> bytes) list, (u64 \<times> bytes) list) provider" where
  "wit_provider = BdbStoreProvider_new wit_os wit_dirs"

theorem earlyInitialize_lets_store_exception_out_witness:
  "\<exists>m P'. earlyInitialize wit_bdb True None wit_provider = (Inl (StoreException m), P')"
  using earlyInitialize_lets_store_exception_out[of wit_provider wit_bdb]
  by (auto simp: wit_provider_def BdbStoreProvider_new_def StoreOptions_def)

theorem init_within_three_attempts_witness:
  "\<exists>P'. init wit_bdb ''d'' False wit_provider = (Inr True, P') \<and> isInit P'"
proof (rule init_within_three_attempts[where n = 2])
  have c: "create_dir (''d/bdbstore/'' @ x @ ''/'') wit_dirs = Inr wit_dirs" if "x = ''dat'' \<or> x = ''async''" for x
    using that by (auto simp: create_dir.simps parent_dir_def exists_def sys_stat_def mkdir_unless_exists_def sys_mkdir_def
        resolve_def comps_def lookup_def wit_dirs_def errno_defs)
  have d: "getBdbBaseDir (wit_provider\<lparr>storeDir := ''d''\<rparr>) = ''d/bdbstore/'' @ ''dat'' @ ''/''"
    "getAsyncEnvDir (wit_provider\<lparr>storeDir := ''d''\<rparr>) = ''d/bdbstore/'' @ ''async'' @ ''/''"
    by (simp_all add: getBdbBaseDir_def getAsyncEnvDir_def storeTopLevelDir_def)
  have s: "dirs (wit_provider\<lparr>storeDir := ''d''\<rparr>) = wit_dirs" "machine (wit_provider\<lparr>storeDir := ''d''\<rparr>) = wit_os"
    by (simp_all add: wit_provider_def BdbStoreProvider_new_def)
  show "ready wit_bdb (wit_provider\<lparr>storeDir := ''d''\<rparr>)"
    unfolding ready_def d s
    using c[of "''dat''"] c[of "''async''"] by (simp add: wit_os_def wit_bdb_def list_db_def TxnCtxt_begin_def TxnCtxt_commit_def)
qed (auto simp: wit_provider_def BdbStoreProvider_new_def wit_bdb_def env_opens_def)

section \<open>Ids after a restart\<close>

text \<open>The three loops that read a catalogue back compute the highest id the same way; the
  sequence then goes on from there.\<close>

locale id_recovery =
  fixes highest :: "(u64 \<times> bytes) list \<Rightarrow> u64"
    and visited :: "(u64 \<times> bytes) list \<Rightarrow> (u64 \<times> bytes) list"
  assumes highest_fold: "highest l = fold (\<lambda>x m. max (fst x) m) (visited l) 1"
begin

lemma fold_max_ge: "m \<le> fold (\<lambda>x m. max (fst x) m) (l :: (u64 \<times> bytes) list) m \<and>
    (\<forall>x \<in> set l. fst x \<le> fold (\<lambda>x m. max (fst x) m) l m)"
proof (induction l arbitrary: m)
  case (Cons y l)
  from Cons[of "max (fst y) m"] show ?case by auto
qed simp

lemma highest_ge: "x \<in> set (visited l) \<Longrightarrow> fst x \<le> highest l"
  using fold_max_ge[of 1 "visited l"] by (simp add: highest_fold)

lemma next_fresh:
  assumes "highest l \<noteq> - 1"
  shows "x \<in> set (visited l) \<Longrightarrow> fst x < fst (IdSequence_next (highest l + 1))"
    and "fst (IdSequence_next (highest l + 1)) = highest l + 1"
proof -
  have "unat (highest l) \<noteq> unat (- 1 :: u64)" using assms by (simp add: word_unat_eq_iff)
  moreover have "unat (highest l) < 2 ^ LENGTH(64)" by (rule unsigned_less)
  ultimately have "unat (highest l) < unat (- 1 :: u64)" by (simp add: unat_minus_1_max)
  then have u: "unat (highest l + 1) = Suc (unat (highest l))" by (rule unat_add_one)
  then have "highest l + 1 \<noteq> 0" by (metis unat_0 nat.distinct(1))
  then show n: "fst (IdSequence_next (highest l + 1)) = highest l + 1" by (simp add: IdSequence_next_def Let_def)
  show "fst x < fst (IdSequence_next (highest l + 1))" if "x \<in> set (visited l)"
    using highest_ge[OF that] u unfolding n by (simp add: word_le_nat_alt word_less_nat_alt)
qed

end

lemma recover_configs_loop_max: "snd (recover_configs_loop R l m out) = fold (\<lambda>x m. max (fst x) m) l m"
  by (induction R l m out rule: recover_configs_loop.induct) auto

lemma recover_exchanges_loop_max: "snd (recover_exchanges_loop R l m em) = fold (\<lambda>x m. max (fst x) m) l m"
  by (induction R l m em rule: recover_exchanges_loop.induct) auto

text \<open>The queues are read up to the first one with an empty name.\<close>

definition named_queues :: "recovery_manager \<Rightarrow> (u64 \<times> bytes) list \<Rightarrow> (u64 \<times> bytes) list" where
  "named_queues R l = takeWhile (\<lambda>(key, val). c_str (rm_queue R val) \<noteq> []) l"

lemma recover_queues_loop_works:
  fixes P :: "('db, 'mdb) provider"
  assumes "0 \<le> prov_num_jfiles P"
  shows "\<exists>m' P'. recover_queues_loop R l mx m P = (Inr (m', fold (\<lambda>x m. max (fst x) m) (named_queues R l) mx), P') \<and>
    queueDb P' = queueDb P \<and> (\<forall>k. map_option pname (map_of m' k) =
      (case map_of (rev (named_queues R l)) k of None \<Rightarrow> map_option pname (map_of m k) | Some v \<Rightarrow> Some (rm_queue R v)))"
  using assms
proof (induction l arbitrary: mx m P)
  case Nil
  then show ?case by (simp add: named_queues_def retE_def)
next
  case (Cons x l)
  obtain key val where x: "x = (key, val)" by (cases x)
  show ?case
  proof (cases "c_str (rm_queue R val) = []")
    case True
    then show ?thesis by (simp add: x named_queues_def retE_def)
  next
    case False
    let ?n = "c_str (rm_queue R val)"
    obtain J :: "'db journal" where J: "JournalImpl ?n key (getJrnlHashDir ?n) (getBdbBaseDir P) (prov_num_jfiles P) True (agent P) = Inr J"
      using Cons.prems by (simp add: JournalImpl_def Let_def)
    let ?q = "\<lparr>persistenceId = key, pname = rm_queue R val, encoded = val, externalQueueStore = Some (length (jheap P))\<rparr>"
    let ?P = "P\<lparr>jheap := jheap P @ [Some J], journalList := smap_assign key (Some (length (jheap P))) (journalList P),
        recoveredJournal := recoveredJournal P @ [?q]\<rparr>"
    have step: "recover_queues_loop R (x # l) mx m P = recover_queues_loop R l (max key mx) (smap_assign key ?q m) ?P"
      using False J by (simp add: x comp_simps new_journal_def Let_def)
    have nq: "named_queues R ((key, val) # l) = (key, val) # named_queues R l" using False by (simp add: named_queues_def)
    from Cons.IH[of ?P "max key mx" "smap_assign key ?q m"] Cons.prems
    obtain m' P' where IH: "recover_queues_loop R l (max key mx) (smap_assign key ?q m) ?P =
        (Inr (m', fold (\<lambda>x m. max (fst x) m) (named_queues R l) (max key mx)), P')" "queueDb P' = queueDb P"
      "\<forall>k. map_option pname (map_of m' k) = (case map_of (rev (named_queues R l)) k of
         None \<Rightarrow> map_option pname (map_of (smap_assign key ?q m) k) | Some v \<Rightarrow> Some (rm_queue R v))"
      by auto
    have "map_option pname (map_of m' k) = (case map_of (rev (named_queues R (x # l))) k of
         None \<Rightarrow> map_option pname (map_of m k) | Some v \<Rightarrow> Some (rm_queue R v))" for k
      using IH(3)[rule_format, of k]
      by (cases "map_of (rev (named_queues R l)) k") (simp_all add: nq x map_add_def smap_simps)
    then show ?thesis using IH(1,2) step by (simp add: nq x)
  qed
qed

interpretation configs: id_recovery "\<lambda>l. snd (recover_configs_loop R l 1 [])" "\<lambda>l. l" for R
  by unfold_locales (rule recover_configs_loop_max)

interpretation exchanges: id_recovery "\<lambda>l. snd (recover_exchanges_loop R l 1 em)" "\<lambda>l. l" for R em
  by unfold_locales (rule recover_exchanges_loop_max)

interpretation queues: id_recovery "\<lambda>l. fold (\<lambda>x m. max (fst x) m) (named_queues R l) 1" "named_queues R" for R
  by unfold_locales simp

section \<open>Queues survive a restart\<close>

text \<open>The catalogue databases compare whole keys.\<close>

definition exact :: "(u64 \<Rightarrow> u64 \<Rightarrow> int) \<Rightarrow> bool" where
  "exact cmp \<longleftrightarrow> (\<forall>x y. cmp x y = 0 \<longleftrightarrow> x = y) \<and> (\<forall>K. orders cmp K)"

lemma exact_cat_cmp: "exact cat_cmp"
proof -
  have "cat_cmp x y = 0 \<longleftrightarrow> x = y" for x y
    unfolding cat_cmp_def by (metis eq_iff_diff_eq_0 of_nat_eq_iff word_unat_eq_iff)
  moreover have "orders cat_cmp K" for K by (auto simp: orders_def cat_cmp_def sgn_if)
  ultimately show ?thesis by (simp add: exact_def)
qed

lemma cat_put:
  assumes "bdb_laws cmp api view" and "exact cmp"
  shows "view d k = None \<Longrightarrow> \<exists>d'. api_put api k v d = Inr (DbOk, d') \<and> view d' = (view d)(k \<mapsto> v)"
    and "view d k \<noteq> None \<Longrightarrow> \<exists>d'. api_put api k v d = Inr (DbKeyExist, d') \<and> view d' = view d"
proof -
  have e: "(\<exists>k' \<in> dom (view d). cmp k k' = 0) \<longleftrightarrow> view d k \<noteq> None" using assms(2) by (auto simp: exact_def)
  have o: "orders cmp (insert k (dom (view d)))" using assms(2) by (simp add: exact_def)
  have "if view d k \<noteq> None then (\<exists>d'. api_put api k v d = Inr (DbKeyExist, d') \<and> view d' = view d)
      else (\<exists>d'. api_put api k v d = Inr (DbOk, d') \<and> view d' = (view d)(k \<mapsto> v))"
    using assms(1) o unfolding bdb_laws_def e[symmetric] by blast
  then show "view d k = None \<Longrightarrow> \<exists>d'. api_put api k v d = Inr (DbOk, d') \<and> view d' = (view d)(k \<mapsto> v)"
    "view d k \<noteq> None \<Longrightarrow> \<exists>d'. api_put api k v d = Inr (DbKeyExist, d') \<and> view d' = view d"
    by simp_all
qed

lemma create_rec_stores:
  assumes "bdb_laws cmp api view" and "exact cmp" and "create_rec api d seq p = (Inr (True, d', p'), seq')"
  shows "p' = p\<lparr>persistenceId := fst (IdSequence_next seq)\<rparr> \<and> view d (fst (IdSequence_next seq)) = None \<and>
    view d' = (view d)(fst (IdSequence_next seq) \<mapsto> encoded p)"
proof -
  let ?i = "fst (IdSequence_next seq)"
  obtain st d1 where a: "api_put api ?i (encoded p) d = Inr (st, d1)" "st \<noteq> DbKeyExist"
    "d' = d1" "p' = p\<lparr>persistenceId := ?i\<rparr>"
    using assms(3) law_txn[OF assms(1)]
    by (cases "api_put api ?i (encoded p) d")
      (auto simp: create_rec_def in_txn_def TxnCtxt_begin_def TxnCtxt_commit_def split_beta Let_def split: sum.splits if_splits)
  have "view d ?i = None" using cat_put(2)[OF assms(1,2), of d ?i "encoded p"] a(1,2) by fastforce
  moreover have "view d' = (view d)(?i \<mapsto> encoded p)"
    using cat_put(1)[OF assms(1,2) calculation, of "encoded p"] a(1,3) by auto
  ultimately show ?thesis using a(4) by simp
qed

lemma IdSequence_next_nonzero: "fst (IdSequence_next i) \<noteq> 0"
  by (simp add: IdSequence_next_def Let_def)

lemma create_queue_ok:
  assumes "isInit P" and "queueDb P = Some db" and "pname q \<noteq> []" and "create_queue B q P = (Inr q', P')"
  obtains db' q1 seq' where "create_rec (cat_api B) db (queueIdSequence P) q = (Inr (True, db', q1), seq')"
    "queueDb P' = Some db'" "persistenceId q' = persistenceId q1" "pname q' = pname q1"
proof -
  obtain r seq' where r: "create_rec (cat_api B) db (queueIdSequence P) q = (r, seq')" by fastforce
  have p0: "persistenceId q = 0" using assms by (auto simp: create_queue_def comp_simps split: if_splits)
  show thesis
  proof (cases r)
    case (Inl e)
    then show thesis using assms r p0 by (simp add: create_queue_def comp_simps handle_def)
  next
    case (Inr x)
    obtain c db' q1 where x: "x = (c, db', q1)" by (cases x)
    have c: "c" using assms r p0 Inr x by (auto simp: create_queue_def comp_simps handle_def split: if_splits)
    have "queueDb P' = Some db' \<and> persistenceId q' = persistenceId q1 \<and> pname q' = pname q1"
      using assms r p0 Inr x c
      by (auto simp: create_queue_def comp_simps handle_def with_fs_def new_journal_def update_at_def rethrow_jexception_def
          split: sum.splits exn.splits)
    then show thesis using that r Inr x c by simp
  qed
qed

lemma fold_max_in: "fold (\<lambda>x m. max (fst x) m) l m = m \<or> fold (\<lambda>x m. max (fst x) m) l m \<in> fst ` set l"
  for l :: "(u64 \<times> bytes) list"
proof (induction l arbitrary: m)
  case (Cons y l)
  have "max (fst y) m = fst y \<or> max (fst y) m = m" by (simp add: max_def)
  then show ?case using Cons[of "max (fst y) m"] by (simp only: fold_simps list.set image_insert insert_iff) metis
qed simp

text \<open>C21. A queue that was created is there after a restart under its id and name, together with
  every queue there was before, and the ids handed out then are new. (The names are not
  empty; an empty one would end the recovery early.)\<close>

theorem queue_survives_restart:
  fixes P2 :: "('db, 'mdb) provider"
  assumes "bdb_laws cmp (cat_api B) view" and "exact cmp" and "isInit P" and "queueDb P = Some db" and "pname q \<noteq> []"
    and "create_queue B q P = (Inr q', P1)" and "queueDb P2 = queueDb P1" and "0 \<le> prov_num_jfiles P2"
    and "c_str (rm_queue R (encoded q)) \<noteq> []" and "\<forall>k v. view db k = Some v \<longrightarrow> c_str (rm_queue R v) \<noteq> []"
  shows "\<exists>m P3. recoverQueues B R [] P2 = (Inr m, P3) \<and> persistenceId q' \<noteq> 0 \<and> view db (persistenceId q') = None \<and>
    (\<forall>k. map_option pname (map_of m k) =
       map_option (rm_queue R) (((view db)(persistenceId q' \<mapsto> encoded q)) k)) \<and>
    (- 1 \<notin> dom (map_of m) \<longrightarrow> fst (IdSequence_next (queueIdSequence P3)) \<notin> dom (map_of m))"
proof -
  obtain db' q1 seq' where c: "create_rec (cat_api B) db (queueIdSequence P) q = (Inr (True, db', q1), seq')"
    "queueDb P1 = Some db'" "persistenceId q' = persistenceId q1"
    by (rule create_queue_ok[OF assms(3-6)])
  let ?i = "persistenceId q'" and ?l = "api_scan (cat_api B) db'"
  have st: "?i = fst (IdSequence_next (queueIdSequence P))" "view db ?i = None" "view db' = (view db)(?i \<mapsto> encoded q)"
    using create_rec_stores[OF assms(1,2) c(1)] c(3) by simp_all
  have sc: "distinct (map fst ?l)" "map_of ?l = view db'" using law_scan[OF assms(1)] by auto
  have "c_str (rm_queue R v) \<noteq> []" if "(k, v) \<in> set ?l" for k v
  proof -
    have "view db' k = Some v" using sc that by (metis map_of_is_SomeI)
    then show ?thesis using assms(9,10) st(3) by (auto split: if_splits)
  qed
  then have nq: "named_queues R ?l = ?l" by (auto simp: named_queues_def takeWhile_eq_all_conv)
  obtain m P3 where w: "recover_queues_loop R ?l 1 [] P2 = (Inr (m, fold (\<lambda>x m. max (fst x) m) ?l 1), P3)"
    "\<forall>k. map_option pname (map_of m k) = (case map_of (rev ?l) k of None \<Rightarrow> map_option pname (map_of ([] :: (u64, pqueue) smap) k) | Some v \<Rightarrow> Some (rm_queue R v))"
    using recover_queues_loop_works[OF assms(8), of R ?l 1 "[]"] unfolding nq by blast
  let ?h = "fold (\<lambda>x m. max (fst x) m) ?l 1"
  have rec: "recoverQueues B R [] P2 = (Inr m, P3\<lparr>queueIdSequence := ?h + 1\<rparr>)"
    using assms(7) c(2) w(1) by (simp add: recoverQueues_def comp_simps handle_def)
  have mo: "map_of (rev ?l) = map_of ?l" using sc(1) by (intro map_of_inject_set[THEN iffD2]) (auto simp: rev_map[symmetric])
  have m: "map_option pname (map_of m k) = map_option (rm_queue R) (view db' k)" for k
    using w(2) mo sc(2) by (cases "view db' k") simp_all
  have dm: "dom (map_of m) = fst ` set ?l"
  proof -
    have "k \<in> dom (map_of m) \<longleftrightarrow> view db' k \<noteq> None" for k using m[of k] by (cases "map_of m k"; cases "view db' k") auto
    then show ?thesis using sc(2) dom_map_of_conv_image_fst[of ?l] by (auto simp: dom_def)
  qed
  have "fst (IdSequence_next (?h + 1)) \<notin> dom (map_of m)" if "- 1 \<notin> dom (map_of m)"
  proof -
    have "?h = 1 \<or> ?h \<in> fst ` set ?l" by (rule fold_max_in)
    moreover have "(1 :: u64) \<noteq> - 1" by simp
    ultimately have "?h \<noteq> - 1" using that dm by metis
    then show ?thesis using queues.next_fresh(1)[of R ?l] dm nq by fastforce
  qed
  then show ?thesis using rec m st IdSequence_next_nonzero by (intro exI[of _ m] exI[of _ "P3\<lparr>queueIdSequence := ?h + 1\<rparr>"]) simp
qed

text \<open>The concrete provider after its initialisation, with one queue in the catalogue.\<close>

definition wit_ready :: "((u64 \<times> bytes) list, (u64 \<times> bytes) list) provider" where
  "wit_ready = wit_provider\<lparr>isInit := True, storeDir := ''d'', queueDb := Some [(1, [7])], exchangeDb := Some [], generalDb := Some [],
     bindingDb := Some [], queueIdSequence := 2\<rparr>"

definition wit_queue :: pqueue where
  "wit_queue = \<lparr>persistenceId = 0, pname = ''q'', encoded = [9], externalQueueStore = None\<rparr>"

definition wit_rm :: recovery_manager where
  "wit_rm = \<lparr>rm_config = \<lambda>x. x, rm_exchange = \<lambda>_. True, rm_queue = \<lambda>_. ''q'', rm_loads = \<lambda>_ _. True, rm_uid = \<lambda>_. []\<rparr>"

lemma wit_dirs_ok: "fs_ok wit_dirs" "allows wit_dirs"
  by (simp_all add: fs_ok_def allows_def wit_dirs_def lookup_def name_ok_def less_Suc_eq all_conj_distrib)

lemma wit_hash: "getJrnlDir wit_queue = ''jrnl/001a/q/''"
proof -
  have "bHash ''q'' mod 29 = 26" by (simp add: bHash_def schar_def)
  moreover have "hex_string 26 = ''1a''"
    using char_of_char[of "CHR ''1''", where 'a = nat] char_of_char[of "CHR ''a''", where 'a = nat]
    by (simp add: hex_string.simps hex_digit_def)
  moreover have "pad0 4 ''1a'' = ''001a''" by (simp add: pad0_def numeral_2_eq_2)
  ultimately show ?thesis
    by (simp add: getJrnlDir_def getJrnlHashDir_def getJrnlBaseDir_def wit_queue_def c_str_def)
qed

lemma wit_mkdir: "\<exists>F. create_dir ''d/bdbstore/dat/jrnl/001a/q/'' wit_dirs = Inr F"
proof -
  let ?d = "''d/bdbstore/dat/jrnl/001a/q/''"
  have r: "resolve wit_dirs ?d = [''d'', ''bdbstore'', ''dat'', ''jrnl'', ''001a'', ''q'']"
    by (simp add: resolve_def comps_def wit_dirs_def)
  have "clear_way wit_dirs (resolve wit_dirs ?d)"
    unfolding clear_way_def r
  proof
    fix k
    show "lookup wit_dirs (take k [''d'', ''bdbstore'', ''dat'', ''jrnl'', ''001a'', ''q'']) = None \<or>
        lookup wit_dirs (take k [''d'', ''bdbstore'', ''dat'', ''jrnl'', ''001a'', ''q'']) = Some Dir"
      by (simp add: lookup_def wit_dirs_def take_Cons' split: nat.split)
  qed
  from path_can_be_made[OF wit_dirs_ok(2,1) this] show ?thesis by auto
qed

lemma wit_create:
  "\<exists>q' P1. create_queue wit_bdb wit_queue wit_ready = (Inr q', P1) \<and> persistenceId q' = 2 \<and> externalQueueStore q' = Some 0 \<and>
     length (jheap P1) = 1 \<and> queueDb P1 = Some [(1, [7]), (2, [9])]"
proof -
  obtain F where F: "create_dir ''d/bdbstore/dat/jrnl/001a/q/'' wit_dirs = Inr F" using wit_mkdir by blast
  have h: "getJrnlDir (wit_queue\<lparr>persistenceId := i\<rparr>) = ''jrnl/001a/q/''" for i
    using wit_hash by (simp add: getJrnlDir_def)
  show ?thesis
    using F h
    by (simp add: create_queue_def comp_simps handle_def with_fs_def new_journal_def update_at_def create_rec_def
        IdSequence_next_def Let_def getBdbBaseDir_def storeTopLevelDir_def wit_ready_def wit_provider_def BdbStoreProvider_new_def
        wit_bdb_def in_txn_def TxnCtxt_begin_def TxnCtxt_commit_def list_db_def cat_cmp_def JournalImpl_def initialize_def
        init_message_db_def upt_rec) (simp add: wit_queue_def)
qed

theorem queue_survives_restart_witness:
  "\<exists>q' P1 m P3. create_queue wit_bdb wit_queue wit_ready = (Inr q', P1) \<and>
     recoverQueues wit_bdb wit_rm [] (wit_provider\<lparr>queueDb := queueDb P1\<rparr>) = (Inr m, P3) \<and>
     map_option pname (map_of m 2) = Some ''q'' \<and> map_option pname (map_of m 1) = Some ''q''"
proof -
  obtain q' P1 where c: "create_queue wit_bdb wit_queue wit_ready = (Inr q', P1)" "persistenceId q' = 2"
    using wit_create by blast
  have B: "bdb_laws cat_cmp (cat_api wit_bdb) map_of" using list_db_laws by (simp add: wit_bdb_def)
  have p: "isInit wit_ready" "queueDb wit_ready = Some [(1, [7])]" "pname wit_queue \<noteq> []"
    by (simp_all add: wit_ready_def wit_queue_def)
  have "\<exists>m P3. recoverQueues wit_bdb wit_rm [] (wit_provider\<lparr>queueDb := queueDb P1\<rparr>) = (Inr m, P3) \<and>
      persistenceId q' \<noteq> 0 \<and> map_of [(1, [7 :: u8])] (persistenceId q') = None \<and>
      (\<forall>k. map_option pname (map_of m k) =
         map_option (rm_queue wit_rm) (((map_of [(1, [7 :: u8])])(persistenceId q' \<mapsto> encoded wit_queue)) k)) \<and>
      (- 1 \<notin> dom (map_of m) \<longrightarrow> fst (IdSequence_next (queueIdSequence P3)) \<notin> dom (map_of m))"
    by (rule queue_survives_restart[OF B exact_cat_cmp p c(1)])
      (simp_all add: wit_provider_def BdbStoreProvider_new_def wit_rm_def c_str_def)
  then obtain m P3 where "recoverQueues wit_bdb wit_rm [] (wit_provider\<lparr>queueDb := queueDb P1\<rparr>) = (Inr m, P3)"
    "\<And>k. map_option pname (map_of m k) =
         map_option (rm_queue wit_rm) (((map_of [(1, [7 :: u8])])(persistenceId q' \<mapsto> encoded wit_queue)) k)" by blast
  then show ?thesis using c by (intro exI[of _ q'] exI[of _ P1] exI[of _ m] exI[of _ P3]) (simp add: wit_rm_def)
qed

section \<open>Destroying a queue\<close>

lemma binding_txn_frame: "binding_txn B f P = (r, P') \<Longrightarrow> \<exists>b. P' = P\<lparr>bindingDb := b\<rparr>"
proof -
  have P: "\<exists>b. P = P\<lparr>bindingDb := b\<rparr>" by (rule exI[of _ "bindingDb P"]) simp
  assume "binding_txn B f P = (r, P')"
  then have "P' = P \<or> (\<exists>b. P' = P\<lparr>bindingDb := b\<rparr>)"
    by (auto simp: binding_txn_def comp_simps handle_def split: option.splits sum.splits exn.splits)
  with P show ?thesis by blast
qed

lemma destroy_queue_frees:
  assumes "destroy_queue B q P = (Inr q', P')" and "externalQueueStore q = Some a" and "isInit P"
  shows "a < length (jheap P') \<and> jheap P' ! a = None \<and> enqueuePool P' = enqueuePool P \<and> dequeuePool P' = dequeuePool P"
proof -
  obtain db db' where d: "queueDb P = Some db" "destroy_rec (cat_api B) db (persistenceId q) = Inr db'"
    using assms by (auto simp: destroy_queue_def comp_simps handle_def split: option.splits sum.splits)
  obtain r P1 where b: "deleteBindingsForQueue B q (P\<lparr>queueDb := Some db'\<rparr>) = (r, P1)" by fastforce
  have r: "r = Inr ()" using assms d b by (cases r) (auto simp: destroy_queue_def comp_simps handle_def)
  obtain bb where P1: "P1 = P\<lparr>queueDb := Some db', bindingDb := bb\<rparr>"
    using binding_txn_frame[OF b[unfolded deleteBindingsForQueue_def]] by blast
  show ?thesis
    using assms d b r P1
    by (auto simp: destroy_queue_def delete_journal_def deref_def comp_simps handle_def update_at_def with_fs_def journalDeleted_def
        split: sum.splits option.splits if_splits prod.splits)
qed

text \<open>C36. The tasks of the pools keep a bare pointer to the journal: a store or a dequeue that is
  still waiting when its queue is destroyed stays in its pool and works on freed memory when
  it runs.\<close>

theorem destroyed_queue_leaves_dangling_tasks:
  assumes "isInit P" and "destroy_queue B q P = (Inr q', P')" and "externalQueueStore q = Some a"
  shows "store B (Some a) buff sz pid transient P' = (Inl (Fault UseAfterFree), P') \<and>
    async_dequeue B obs pid (Some a) P' = (Inl (Fault UseAfterFree), P') \<and>
    enqueuePool P' = enqueuePool P \<and> dequeuePool P' = dequeuePool P"
  using destroy_queue_frees[OF assms(2,3,1)] by (simp add: store_def async_dequeue_def deref_def comp_simps)

text \<open>The queue of the concrete provider, with a store waiting, destroyed.\<close>

definition wit_journal0 :: "(u64 \<times> bytes) list journal" where
  "wit_journal0 = \<lparr>writeActivityFlag = False, flushTriggeredFlag = True, is_init = True, journalName = ''q'', queuePid = 1,
     journalDirectory = ''jrnl/x/q/'', bdbDir = ''d/bdbstore/dat/'', num_jfiles = 1, create_bdb = True, mgmtObject = False,
     transientList = [], acceptedList = [], messageDbs = [Some []]\<rparr>"

definition wit_running :: "((u64 \<times> bytes) list, (u64 \<times> bytes) list) provider" where
  "wit_running = wit_ready\<lparr>jheap := [Some wit_journal0], journalList := [(1, Some 0)], enqueuePool := [StoreTask (Some 0) [0] 1 5 False]\<rparr>"

definition wit_queue1 :: pqueue where
  "wit_queue1 = wit_queue\<lparr>persistenceId := 1, externalQueueStore := Some 0\<rparr>"

theorem destroyed_queue_leaves_dangling_tasks_witness:
  "\<exists>q' P'. destroy_queue wit_bdb wit_queue1 wit_running = (Inr q', P') \<and> enqueuePool P' = [StoreTask (Some 0) [0] 1 5 False] \<and>
     store wit_bdb (Some 0) [0] 1 5 False P' = (Inl (Fault UseAfterFree), P')"
proof -
  have F: "delete_dir ''d/bdbstore/dat/jrnl/x/q/'' False wit_dirs = Inr wit_dirs"
    by (simp add: delete_dir_def sys_opendir_def resolve_def comps_def lookup_def wit_dirs_def path_err_def errno_defs)
  have "\<exists>q' P'. destroy_queue wit_bdb wit_queue1 wit_running = (Inr q', P')"
    using F
    by (simp add: destroy_queue_def comp_simps handle_def with_fs_def update_at_def destroy_rec_def deref_def delete_journal_def
        deleteBindingsForQueue_def binding_txn_def journalDeleted_def wit_running_def wit_ready_def wit_provider_def
        BdbStoreProvider_new_def wit_bdb_def TxnCtxt_begin_def TxnCtxt_commit_def list_db_def cat_cmp_def list_mdb_def
        delete_jrnl_files_def getJournalDirPath_def wit_journal0_def wit_queue1_def)
  then obtain q' P' where d: "destroy_queue wit_bdb wit_queue1 wit_running = (Inr q', P')" by blast
  have "isInit wit_running" "externalQueueStore wit_queue1 = Some 0" "enqueuePool wit_running = [StoreTask (Some 0) [0] 1 5 False]"
    by (simp_all add: wit_running_def wit_ready_def wit_queue1_def)
  with destroyed_queue_leaves_dangling_tasks[OF _ d] d show ?thesis by fastforce
qed

end
