(* ===== verification/Bindings.thy ===== *)
theory Bindings
  imports Catalogue
begin

text \<open>
  The bindings of \<^verbatim>\<open>lib/BdbStoreProvider.cpp\<close> as a set. The database keeps, under the id of an
  exchange, values that hold the id and the name of a queue, a key and arguments. The
  operations on bindings are shown to be the insertion and the removal of such tuples, and
  the recovery to restore those whose exchange and queue exist.
\<close>

section \<open>What the code relies on\<close>

definition mdb_laws :: "'mdb mdbapi \<Rightarrow> ('mdb \<Rightarrow> (u64 \<times> bytes) set) \<Rightarrow> bool" where
  "mdb_laws api mv \<longleftrightarrow>
     (\<forall>d. distinct (m_scan api d) \<and> set (m_scan api d) = mv d) \<and>
     (\<forall>d k v. if (k, v) \<in> mv d then \<exists>d'. m_put api k v d = Inr (DbKeyExist, d') \<and> mv d' = mv d
              else \<exists>d'. m_put api k v d = Inr (DbOk, d') \<and> mv d' = insert (k, v) (mv d)) \<and>
     (\<forall>d k. \<exists>d'. m_del api k d = Inr d' \<and> mv d' = {x \<in> mv d. fst x \<noteq> k}) \<and>
     (\<forall>d x. x \<in> mv d \<longrightarrow> (\<exists>d'. m_del_at api x d = Inr d' \<and> mv d' = mv d - {x}))"

text \<open>A short string has at most 255 characters.\<close>

definition wire_laws :: "wire \<Rightarrow> bool" where
  "wire_laws f \<longleftrightarrow> (\<forall>x r. length (putLongLong f x) = 8 \<and> getLongLong f (putLongLong f x @ r) = x) \<and>
     (\<forall>s r. length s < 256 \<longrightarrow> getShortString f (putShortString f s @ r) = (s, r))"

section \<open>The set of bindings\<close>

type_synonym binding_tuple = "u64 \<times> u64 \<times> string \<times> string \<times> bytes"

definition enc_binding :: "wire \<Rightarrow> u64 \<times> string \<times> string \<times> bytes \<Rightarrow> bytes" where
  "enc_binding f = (\<lambda>(qid, qn, k, a). putLongLong f qid @ putShortString f qn @ putShortString f k @ a)"

definition short :: "u64 \<times> string \<times> string \<times> bytes \<Rightarrow> bool" where
  "short = (\<lambda>(qid, qn, k, a). length qn < 256 \<and> length k < 256)"

definition bset :: "wire \<Rightarrow> ('mdb \<Rightarrow> (u64 \<times> bytes) set) \<Rightarrow> 'mdb \<Rightarrow> binding_tuple set" where
  "bset f mv db = (\<lambda>(e, v). (e, decode_binding f v)) ` mv db"

text \<open>Every value is what \<^verbatim>\<open>BindingDbt\<close> writes for some binding.\<close>

definition binv :: "wire \<Rightarrow> ('mdb \<Rightarrow> (u64 \<times> bytes) set) \<Rightarrow> 'mdb \<Rightarrow> bool" where
  "binv f mv db \<longleftrightarrow> (\<forall>(e, v) \<in> mv db. \<exists>b. short b \<and> v = enc_binding f b)"

lemma decode_enc: "wire_laws f \<Longrightarrow> short b \<Longrightarrow> decode_binding f (enc_binding f b) = b"
  by (cases b) (simp add: decode_binding_def enc_binding_def wire_laws_def short_def Let_def)

lemma enc_long: "wire_laws f \<Longrightarrow> 8 \<le> length (enc_binding f b)"
  by (cases b) (simp add: enc_binding_def wire_laws_def)

lemma enc_fields:
  assumes "wire_laws f" and "short (qid, qn, k, a)"
  shows "getLongLong f (enc_binding f (qid, qn, k, a)) = qid"
    and "fst (getShortString f (snd (getShortString f (drop 8 (enc_binding f (qid, qn, k, a)))))) = k"
  using assms by (simp_all add: enc_binding_def wire_laws_def short_def)

lemma binv_long: "wire_laws f \<Longrightarrow> binv f mv db \<Longrightarrow> (e, v) \<in> mv db \<Longrightarrow> 8 \<le> length v"
  using enc_long unfolding binv_def by fastforce

lemma bset_iff:
  assumes "wire_laws f" and "binv f mv db"
  shows "(e, b) \<in> bset f mv db \<longleftrightarrow> short b \<and> (e, enc_binding f b) \<in> mv db"
proof
  assume "(e, b) \<in> bset f mv db"
  then obtain v where v: "(e, v) \<in> mv db" "b = decode_binding f v" by (auto simp: bset_def)
  then obtain b' where "short b'" "v = enc_binding f b'" using assms(2) by (auto simp: binv_def)
  with v decode_enc[OF assms(1)] show "short b \<and> (e, enc_binding f b) \<in> mv db" by simp
next
  assume "short b \<and> (e, enc_binding f b) \<in> mv db"
  then show "(e, b) \<in> bset f mv db" using decode_enc[OF assms(1), of b] by (force simp: bset_def)
qed

lemma binv_subset: "binv f mv d \<Longrightarrow> mv d' \<subseteq> mv d \<Longrightarrow> binv f mv d'"
  by (auto simp: binv_def)

lemma mdb_del_at:
  assumes "mdb_laws api mv" and "x \<in> mv d"
  obtains d' where "m_del_at api x d = Inr d'" "mv d' = mv d - {x}"
proof -
  have "\<forall>d x. x \<in> mv d \<longrightarrow> (\<exists>d'. m_del_at api x d = Inr d' \<and> mv d' = mv d - {x})"
    using assms(1) unfolding mdb_laws_def by (elim conjE)
  with assms(2) that show thesis by blast
qed

lemma mdb_put:
  assumes "mdb_laws api mv"
  shows "(k, v) \<in> mv d \<Longrightarrow> \<exists>d'. m_put api k v d = Inr (DbKeyExist, d') \<and> mv d' = mv d"
    and "(k, v) \<notin> mv d \<Longrightarrow> \<exists>d'. m_put api k v d = Inr (DbOk, d') \<and> mv d' = insert (k, v) (mv d)"
proof -
  have "if (k, v) \<in> mv d then \<exists>d'. m_put api k v d = Inr (DbKeyExist, d') \<and> mv d' = mv d
        else \<exists>d'. m_put api k v d = Inr (DbOk, d') \<and> mv d' = insert (k, v) (mv d)"
    using assms unfolding mdb_laws_def by (elim conjE allE)
  then show "(k, v) \<in> mv d \<Longrightarrow> \<exists>d'. m_put api k v d = Inr (DbKeyExist, d') \<and> mv d' = mv d"
    and "(k, v) \<notin> mv d \<Longrightarrow> \<exists>d'. m_put api k v d = Inr (DbOk, d') \<and> mv d' = insert (k, v) (mv d)"
    by (simp_all only: if_True if_False not_False_eq_True)
qed

lemma mdb_scan:
  assumes "mdb_laws api mv"
  shows "distinct (m_scan api d)" and "set (m_scan api d) = mv d"
  using assms by (simp_all only: mdb_laws_def)

section \<open>The cursor loops\<close>

lemma delete_bindings_removes:
  assumes laws: "mdb_laws api mv"
  shows "distinct l \<Longrightarrow> set l \<subseteq> mv db \<Longrightarrow> \<forall>(k, v) \<in> set l. 8 \<le> length v \<Longrightarrow>
    \<exists>db'. delete_bindings api sel l db = Inr db' \<and> mv db' = mv db - {x \<in> set l. sel (fst x) (snd x)}"
proof (induction l arbitrary: db)
  case (Cons x l)
  obtain k v where x: "x = (k, v)" by (cases x)
  have len: "\<not> length v < 8" using Cons.prems(3) x by fastforce
  show ?case
  proof (cases "sel k v")
    case True
    have "(k, v) \<in> mv db" using Cons.prems(2) x by simp
    then obtain d where d: "m_del_at api (k, v) db = Inr d" "mv d = mv db - {(k, v)}"
      by (rule mdb_del_at[OF laws])
    have "set l \<subseteq> mv d" using Cons.prems d(2) x by auto
    with Cons.IH[of d] Cons.prems obtain d' where "delete_bindings api sel l d = Inr d'"
      "mv d' = mv d - {x \<in> set l. sel (fst x) (snd x)}" by auto
    moreover have "mv db - {(k, v)} - {x \<in> set l. sel (fst x) (snd x)} = mv db - {x \<in> set ((k, v) # l). sel (fst x) (snd x)}"
      using True by auto
    ultimately show ?thesis using d True len x by (intro exI[of _ d']) simp
  next
    case False
    with Cons.IH[of db] Cons.prems obtain d' where "delete_bindings api sel l db = Inr d'"
      "mv d' = mv db - {x \<in> set l. sel (fst x) (snd x)}" by auto
    moreover have "{x \<in> set l. sel (fst x) (snd x)} = {x \<in> set ((k, v) # l). sel (fst x) (snd x)}"
      using False by auto
    ultimately show ?thesis using False len x by (intro exI[of _ d']) simp
  qed
qed simp

lemma recover_bindings_loop_works:
  assumes laws: "mdb_laws (multi_api B) mv"
  shows "distinct l \<Longrightarrow> set l \<subseteq> mv db \<Longrightarrow> \<forall>(k, v) \<in> set l. 8 \<le> length v \<Longrightarrow>
    \<exists>db'. recover_bindings_loop B em qm l db out =
      Inr (out @ map (\<lambda>(k, v). (k, snd (decode_binding (framing B) v)))
             (filter (\<lambda>(k, v). k \<in> dom (map_of em) \<and> fst (decode_binding (framing B) v) \<in> dom (map_of qm)) l), db') \<and>
      mv db' = mv db - {(k, v) \<in> set l. \<not> (k \<in> dom (map_of em) \<and> fst (decode_binding (framing B) v) \<in> dom (map_of qm))}"
proof (induction l arbitrary: db out)
  case (Cons x l)
  obtain k v where x: "x = (k, v)" by (cases x)
  obtain qid qn key a where dec: "decode_binding (framing B) v = (qid, qn, key, a)" by (metis prod_cases4)
  have len: "\<not> length v < 8" using Cons.prems(3) x by fastforce
  show ?case
  proof (cases "k \<in> dom (map_of em) \<and> qid \<in> dom (map_of qm)")
    case True
    then have t: "map_of em k \<noteq> None" "map_of qm qid \<noteq> None" by auto
    from Cons.IH[of db "out @ [(k, qn, key, a)]"] Cons.prems
    obtain d' where "recover_bindings_loop B em qm l db (out @ [(k, qn, key, a)]) =
      Inr ((out @ [(k, qn, key, a)]) @ map (\<lambda>(k, v). (k, snd (decode_binding (framing B) v)))
             (filter (\<lambda>(k, v). k \<in> dom (map_of em) \<and> fst (decode_binding (framing B) v) \<in> dom (map_of qm)) l), d')"
      "mv d' = mv db - {(k, v) \<in> set l. \<not> (k \<in> dom (map_of em) \<and> fst (decode_binding (framing B) v) \<in> dom (map_of qm))}"
      by auto
    with t len x dec True show ?thesis by (intro exI[of _ d']) auto
  next
    case False
    have "(k, v) \<in> mv db" using Cons.prems(2) x by simp
    then obtain d where d: "m_del_at (multi_api B) (k, v) db = Inr d" "mv d = mv db - {(k, v)}"
      by (rule mdb_del_at[OF laws])
    have "set l \<subseteq> mv d" using Cons.prems d(2) x by auto
    with Cons.IH[of d out] Cons.prems obtain d' where "recover_bindings_loop B em qm l d out =
      Inr (out @ map (\<lambda>(k, v). (k, snd (decode_binding (framing B) v)))
             (filter (\<lambda>(k, v). k \<in> dom (map_of em) \<and> fst (decode_binding (framing B) v) \<in> dom (map_of qm)) l), d')"
      "mv d' = mv d - {(k, v) \<in> set l. \<not> (k \<in> dom (map_of em) \<and> fst (decode_binding (framing B) v) \<in> dom (map_of qm))}"
      by auto
    moreover have "map_of em k = None \<or> map_of qm qid = None" using False by auto
    ultimately show ?thesis using False d len x dec by (intro exI[of _ d']) auto
  qed
qed simp

section \<open>The operations on the set\<close>

text \<open>What the operations start from: an initialised provider on a database of bindings.\<close>

definition binding_store ::
    "('db, 'mdb) bdb \<Rightarrow> ('mdb \<Rightarrow> (u64 \<times> bytes) set) \<Rightarrow> ('db, 'mdb) provider \<Rightarrow> 'mdb \<Rightarrow> bool" where
  "binding_store B mv P db \<longleftrightarrow> mdb_laws (multi_api B) mv \<and> wire_laws (framing B) \<and> isInit P \<and> bindingDb P = Some db \<and>
     binv (framing B) mv db \<and> TxnCtxt_begin (cat_api B) = Inr True \<and> TxnCtxt_commit (cat_api B) True = Inr False"

lemma binding_txn_deletes:
  assumes "binding_store B mv P db"
    and "f db = delete_bindings (multi_api B) sel l db" and "distinct l" and "set l \<subseteq> mv db"
    and "\<And>e b. short b \<Longrightarrow> (e, enc_binding (framing B) b) \<in> mv db \<Longrightarrow>
           (e, enc_binding (framing B) b) \<in> set l \<and> sel e (enc_binding (framing B) b) \<longleftrightarrow> S (e, b)"
  shows "\<exists>db'. binding_txn B f P = (Inr (), P\<lparr>bindingDb := Some db'\<rparr>) \<and> binv (framing B) mv db' \<and>
    bset (framing B) mv db' = {x \<in> bset (framing B) mv db. \<not> S x}"
proof -
  have L: "mdb_laws (multi_api B) mv" and W: "wire_laws (framing B)" and I: "binv (framing B) mv db"
    and P: "bindingDb P = Some db" "TxnCtxt_begin (cat_api B) = Inr True" "TxnCtxt_commit (cat_api B) True = Inr False"
    using assms(1) by (simp_all add: binding_store_def)
  have "\<forall>(k, v) \<in> set l. 8 \<le> length v" using assms(4) binv_long[OF W I] by blast
  then obtain db' where d: "f db = Inr db'" "mv db' = mv db - {x \<in> set l. sel (fst x) (snd x)}"
    using delete_bindings_removes[OF L assms(3,4), of sel] assms(2) by auto
  have b: "binv (framing B) mv db'" by (rule binv_subset[OF I]) (auto simp: d(2))
  have "(e, b) \<in> bset (framing B) mv db' \<longleftrightarrow> (e, b) \<in> {x \<in> bset (framing B) mv db. \<not> S x}" for e b
    using bset_iff[OF W b, of e b] bset_iff[OF W I, of e b] d(2) assms(5)[of b e] by auto
  then have "bset (framing B) mv db' = {x \<in> bset (framing B) mv db. \<not> S x}" by auto
  then show ?thesis using d(1) P b by (intro exI[of _ db']) (simp add: binding_txn_def comp_simps handle_def)
qed

lemma bind_inserts:
  fixes e :: persistable
  assumes "binding_store B mv P db" and s: "short (persistenceId q, pname q, k, args)"
  defines "x \<equiv> (persistenceId e, persistenceId q, pname q, k, args)"
  shows "if x \<in> bset (framing B) mv db then bind B e q k args P = (Inl (StoreException ''duplicate data''), P)
    else \<exists>db'. bind B e q k args P = (Inr (), P\<lparr>bindingDb := Some db'\<rparr>) \<and> binv (framing B) mv db' \<and>
           bset (framing B) mv db' = insert x (bset (framing B) mv db)"
proof -
  let ?f = "framing B" and ?b = "(persistenceId q, pname q, k, args)" and ?e = "persistenceId e"
  have L: "mdb_laws (multi_api B) mv" and W: "wire_laws ?f" and I: "binv ?f mv db"
    and P: "isInit P" "bindingDb P = Some db" "TxnCtxt_begin (cat_api B) = Inr True" "TxnCtxt_commit (cat_api B) True = Inr False"
    using assms(1) by (simp_all add: binding_store_def)
  have v: "BindingDbt ?f q k args = enc_binding ?f ?b" by (simp add: BindingDbt_def enc_binding_def)
  have m: "x \<in> bset ?f mv db \<longleftrightarrow> (?e, enc_binding ?f ?b) \<in> mv db" using bset_iff[OF W I] s by (simp add: x_def)
  show ?thesis
  proof (cases "x \<in> bset ?f mv db")
    case True
    with mdb_put(1)[OF L] m obtain d' where "m_put (multi_api B) ?e (enc_binding ?f ?b) db = Inr (DbKeyExist, d')" by blast
    then show ?thesis using True P v by (simp add: bind_def put_def comp_simps handle_def)
  next
    case False
    with mdb_put(2)[OF L] m obtain d' where d: "m_put (multi_api B) ?e (enc_binding ?f ?b) db = Inr (DbOk, d')"
      "mv d' = insert (?e, enc_binding ?f ?b) (mv db)" by blast
    have b: "binv ?f mv d'" using I s d(2) by (auto simp: binv_def)
    have "bset ?f mv d' = insert x (bset ?f mv db)"
      using decode_enc[OF W s] by (simp add: bset_def d(2) x_def)
    then show ?thesis using False P v d(1) b by (simp only: if_False) (intro exI[of _ d'], simp add: bind_def put_def comp_simps handle_def)
  qed
qed

lemma unbind_removes:
  assumes "binding_store B mv P db"
  shows "\<exists>db'. unbind B e q k P = (Inr (), P\<lparr>bindingDb := Some db'\<rparr>) \<and> binv (framing B) mv db' \<and>
    bset (framing B) mv db' = {x \<in> bset (framing B) mv db. \<not> (case x of (e', qid, qn, k', a) \<Rightarrow>
      e' = persistenceId e \<and> qid = persistenceId q \<and> k' = k)}"
proof -
  have L: "mdb_laws (multi_api B) mv" and W: "wire_laws (framing B)" and i: "isInit P"
    using assms by (simp_all add: binding_store_def)
  show ?thesis
    unfolding unbind_def thenE_def bindE_def checkInit_done[OF i] deleteBinding_def prod.case sum.case
    by (rule binding_txn_deletes[OF assms], rule refl)
      (use mdb_scan[OF L] enc_fields[OF W] in \<open>auto simp: distinct_filter\<close>)
qed

lemma deleteBindingsForQueue_removes:
  assumes "binding_store B mv P db"
  shows "\<exists>db'. deleteBindingsForQueue B q P = (Inr (), P\<lparr>bindingDb := Some db'\<rparr>) \<and> binv (framing B) mv db' \<and>
    bset (framing B) mv db' = {x \<in> bset (framing B) mv db. \<not> (case x of (e, qid, qn, k, a) \<Rightarrow> qid = persistenceId q)}"
proof -
  have L: "mdb_laws (multi_api B) mv" and W: "wire_laws (framing B)"
    using assms by (simp_all add: binding_store_def)
  show ?thesis
    unfolding deleteBindingsForQueue_def
    by (rule binding_txn_deletes[OF assms], rule refl)
      (use mdb_scan[OF L] enc_fields[OF W] in auto)
qed

text \<open>C22. The bindings are a set of tuples of exchange, queue, queue name, key and arguments: \<^verbatim>\<open>bind\<close>
  inserts its tuple, or throws for one that is there; \<^verbatim>\<open>unbind\<close> removes exactly the tuples of its
  exchange, queue and key; \<^verbatim>\<open>deleteBindingsForQueue\<close> exactly those of its queue. Nothing else of
  the provider changes.\<close>

theorem bindings_refine_set:
  fixes e :: persistable and q :: pqueue
  assumes "binding_store B mv P db" and "length (pname q) < 256" and "length k < 256"
  shows "(if (persistenceId e, persistenceId q, pname q, k, args) \<in> bset (framing B) mv db
          then bind B e q k args P = (Inl (StoreException ''duplicate data''), P)
          else \<exists>db'. bind B e q k args P = (Inr (), P\<lparr>bindingDb := Some db'\<rparr>) \<and> binv (framing B) mv db' \<and>
                 bset (framing B) mv db' = insert (persistenceId e, persistenceId q, pname q, k, args) (bset (framing B) mv db)) \<and>
    (\<exists>db'. unbind B e q k P = (Inr (), P\<lparr>bindingDb := Some db'\<rparr>) \<and> binv (framing B) mv db' \<and>
       bset (framing B) mv db' = {x \<in> bset (framing B) mv db. \<not> (case x of (e', qid, qn, k', a) \<Rightarrow>
         e' = persistenceId e \<and> qid = persistenceId q \<and> k' = k)}) \<and>
    (\<exists>db'. deleteBindingsForQueue B q P = (Inr (), P\<lparr>bindingDb := Some db'\<rparr>) \<and> binv (framing B) mv db' \<and>
       bset (framing B) mv db' = {x \<in> bset (framing B) mv db. \<not> (case x of (e', qid, qn, k', a) \<Rightarrow> qid = persistenceId q)})"
proof (intro conjI)
  show "if (persistenceId e, persistenceId q, pname q, k, args) \<in> bset (framing B) mv db
          then bind B e q k args P = (Inl (StoreException ''duplicate data''), P)
          else \<exists>db'. bind B e q k args P = (Inr (), P\<lparr>bindingDb := Some db'\<rparr>) \<and> binv (framing B) mv db' \<and>
                 bset (framing B) mv db' = insert (persistenceId e, persistenceId q, pname q, k, args) (bset (framing B) mv db)"
    by (rule bind_inserts[OF assms(1)]) (use assms(2,3) in \<open>simp add: short_def\<close>)
qed (rule unbind_removes[OF assms(1)], rule deleteBindingsForQueue_removes[OF assms(1)])

section \<open>Recovering the bindings\<close>

lemma bset_filter:
  assumes "mv db' = {x \<in> mv db. S (fst x) (decode_binding f (snd x))}"
  shows "bset f mv db' = {x \<in> bset f mv db. S (fst x) (snd x)}"
  using assms by (force simp: bset_def image_iff)

lemma bset_project:
  "set (map (\<lambda>(k, v). (k, snd (decode_binding f v))) l) = (\<lambda>(e, b). (e, snd b)) ` (\<lambda>(e, v). (e, decode_binding f v)) ` set l"
  by (simp add: image_image case_prod_beta)

text \<open>C23. The recovery of bindings restores exactly those whose exchange and queue were recovered, with
  the queue's name, the key and the arguments they were made with, and removes the others
  from the database.\<close>

theorem recoverBindings_restores_known:
  assumes "binding_store B mv P db"
  shows "\<exists>out db'. recoverBindings B em qm P = (Inr out, P\<lparr>bindingDb := Some db'\<rparr>) \<and>
    set out = {(e, qn, k, a). \<exists>qid. (e, qid, qn, k, a) \<in> bset (framing B) mv db \<and> e \<in> dom (map_of em) \<and> qid \<in> dom (map_of qm)} \<and>
    bset (framing B) mv db' = {(e, qid, qn, k, a) \<in> bset (framing B) mv db. e \<in> dom (map_of em) \<and> qid \<in> dom (map_of qm)}"
proof -
  let ?f = "framing B" and ?l = "m_scan (multi_api B) db"
  let ?ok = "\<lambda>(k, v). k \<in> dom (map_of em) \<and> fst (decode_binding (framing B) v) \<in> dom (map_of qm)"
  have L: "mdb_laws (multi_api B) mv" and W: "wire_laws ?f" and I: "binv ?f mv db" and P: "bindingDb P = Some db"
    using assms by (simp_all add: binding_store_def)
  note sc = mdb_scan[OF L, of db]
  have "\<forall>(k, v) \<in> set ?l. 8 \<le> length v" using sc(2) binv_long[OF W I] by blast
  then obtain db' where r: "recover_bindings_loop B em qm ?l db [] =
      Inr ([] @ map (\<lambda>(k, v). (k, snd (decode_binding ?f v))) (filter ?ok ?l), db')"
    "mv db' = mv db - {(k, v) \<in> set ?l. \<not> (k \<in> dom (map_of em) \<and> fst (decode_binding (framing B) v) \<in> dom (map_of qm))}"
    using recover_bindings_loop_works[OF L sc(1), of db em qm "[]"] sc(2) by auto
  have k: "mv db' = {x \<in> mv db. fst x \<in> dom (map_of em) \<and> fst (decode_binding ?f (snd x)) \<in> dom (map_of qm)}"
    using r(2) sc(2) by auto
  have b: "bset ?f mv db' = {x \<in> bset ?f mv db. fst x \<in> dom (map_of em) \<and> fst (snd x) \<in> dom (map_of qm)}"
    by (rule bset_filter[where S = "\<lambda>e b. e \<in> dom (map_of em) \<and> fst b \<in> dom (map_of qm)"]) (rule k)
  have "set (filter ?ok ?l) = mv db'" using k sc(2) by auto
  then have "set (map (\<lambda>(k, v). (k, snd (decode_binding ?f v))) (filter ?ok ?l)) = (\<lambda>(e, b). (e, snd b)) ` bset ?f mv db'"
    by (simp only: bset_project bset_def)
  also have "\<dots> = {(e, qn, k, a). \<exists>qid. (e, qid, qn, k, a) \<in> bset ?f mv db \<and> e \<in> dom (map_of em) \<and> qid \<in> dom (map_of qm)}"
    unfolding b by (force simp: image_iff)
  finally have "set (map (\<lambda>(k, v). (k, snd (decode_binding ?f v))) (filter ?ok ?l)) =
      {(e, qn, k, a). \<exists>qid. (e, qid, qn, k, a) \<in> bset ?f mv db \<and> e \<in> dom (map_of em) \<and> qid \<in> dom (map_of qm)}" .
  moreover have "bset ?f mv db' = {(e, qid, qn, k, a) \<in> bset ?f mv db. e \<in> dom (map_of em) \<and> qid \<in> dom (map_of qm)}"
    unfolding b by auto
  moreover have "recoverBindings B em qm P =
      (Inr (map (\<lambda>(k, v). (k, snd (decode_binding ?f v))) (filter ?ok ?l)), P\<lparr>bindingDb := Some db'\<rparr>)"
    using P r(1) by (simp add: recoverBindings_def comp_simps handle_def)
  ultimately show ?thesis by blast
qed

section \<open>A concrete store of bindings\<close>

lemma wit_wire_laws: "wire_laws wit_wire"
proof -
  have "unat (word_of_nat (length s) :: u8) = length s" if "length s < 256" for s :: string
    using that by (simp add: unat_of_nat)
  moreover have "char_of (unat (word_of_nat (of_char c) :: u8)) = c" for c :: char
    by (simp add: unat_of_nat)
  ultimately show ?thesis
    by (simp add: wire_laws_def wit_wire_def short_get_def o_def)
qed

lemma list_mdb_laws: "mdb_laws list_mdb set"
  by (auto simp: mdb_laws_def list_mdb_def)

definition wit_exchange :: persistable where
  "wit_exchange = \<lparr>persistenceId = 4, pname = ''x'', encoded = []\<rparr>"

definition wit_bindings :: "(u64 \<times> bytes) list" where
  "wit_bindings = [(4, BindingDbt wit_wire wit_queue1 ''a'' []), (5, BindingDbt wit_wire wit_queue1 ''a'' [])]"

lemma wit_binding_store: "binding_store wit_bdb set (wit_ready\<lparr>bindingDb := Some wit_bindings\<rparr>) wit_bindings"
proof -
  have "short (1, ''q'', ''a'', [])" and "BindingDbt wit_wire wit_queue1 ''a'' [] = enc_binding wit_wire (1, ''q'', ''a'', [])"
    by (simp_all add: BindingDbt_def enc_binding_def wit_queue1_def wit_queue_def short_def)
  then have "binv wit_wire set wit_bindings" unfolding binv_def wit_bindings_def by auto
  then show ?thesis
    using list_mdb_laws wit_wire_laws
    by (simp add: binding_store_def wit_bdb_def wit_ready_def TxnCtxt_begin_def TxnCtxt_commit_def list_db_def)
qed

lemma wit_bset: "bset wit_wire set wit_bindings = {(4, 1, ''q'', ''a'', []), (5, 1, ''q'', ''a'', [])}"
proof -
  have "BindingDbt wit_wire wit_queue1 ''a'' [] = enc_binding wit_wire (1, ''q'', ''a'', [])"
    by (simp add: BindingDbt_def enc_binding_def wit_queue1_def wit_queue_def)
  then show ?thesis using decode_enc[OF wit_wire_laws, of "(1, ''q'', ''a'', [])"]
    by (simp add: bset_def wit_bindings_def short_def)
qed

theorem bindings_refine_set_witness:
  "\<exists>db'. unbind wit_bdb wit_exchange wit_queue1 ''a'' (wit_ready\<lparr>bindingDb := Some wit_bindings\<rparr>) =
     (Inr (), wit_ready\<lparr>bindingDb := Some db'\<rparr>) \<and> bset wit_wire set db' = {(5, 1, ''q'', ''a'', [])}"
proof -
  have f: "framing wit_bdb = wit_wire" by (simp add: wit_bdb_def)
  have q: "length (pname wit_queue1) < 256" by (simp add: wit_queue1_def wit_queue_def)
  obtain db' where "unbind wit_bdb wit_exchange wit_queue1 ''a'' (wit_ready\<lparr>bindingDb := Some wit_bindings\<rparr>) =
     (Inr (), wit_ready\<lparr>bindingDb := Some db'\<rparr>)" "bset wit_wire set db' = {x \<in> bset wit_wire set wit_bindings.
       \<not> (case x of (e', qid, qn, k', a) \<Rightarrow> e' = persistenceId wit_exchange \<and> qid = persistenceId wit_queue1 \<and> k' = ''a'')}"
    using bindings_refine_set[OF wit_binding_store, of wit_queue1 "''a''" wit_exchange "[]", unfolded f, THEN conjunct2, THEN conjunct1]
    by (simp add: q) blast
  then show ?thesis unfolding wit_bset by (intro exI[of _ db']) (auto simp: wit_exchange_def wit_queue1_def)
qed

theorem recoverBindings_restores_known_witness:
  "\<exists>out P'. recoverBindings wit_bdb [(4, [])] [(1, wit_queue1)] (wit_ready\<lparr>bindingDb := Some wit_bindings\<rparr>) = (Inr out, P') \<and>
     set out = {(4, ''q'', ''a'', [])}"
proof -
  have f: "framing wit_bdb = wit_wire" by (simp add: wit_bdb_def)
  obtain out db' where "recoverBindings wit_bdb [(4, [])] [(1, wit_queue1)] (wit_ready\<lparr>bindingDb := Some wit_bindings\<rparr>) =
      (Inr out, wit_ready\<lparr>bindingDb := Some wit_bindings, bindingDb := Some db'\<rparr>)"
    "set out = {(e, qn, k, a). \<exists>qid. (e, qid, qn, k, a) \<in> bset wit_wire set wit_bindings \<and>
      e \<in> dom (map_of [(4 :: u64, [] :: bytes)]) \<and> qid \<in> dom (map_of [(1 :: u64, wit_queue1)])}"
    using recoverBindings_restores_known[OF wit_binding_store, of "[(4, [])]" "[(1, wit_queue1)]"] f by auto
  then show ?thesis unfolding wit_bset by (intro exI[of _ out]) auto
qed

end
