(* ===== verification/ProviderRecovery.thy ===== *)
theory ProviderRecovery
  imports BdbStoreProvider
begin

text \<open>
  The recovery of messages: \<^verbatim>\<open>recoverMessages\<close> and \<^verbatim>\<open>decodeAndRecoverMsg\<close> of
  \<^verbatim>\<open>lib/BdbStoreProvider.cpp\<close>, and the \<^verbatim>\<open>QueueEntry\<close> of \<^verbatim>\<open>lib/StorageProvider.h\<close>. The out
  parameters of \<^verbatim>\<open>decodeAndRecoverMsg\<close> and its local vectors are one record, \<open>rstate\<close>, which
  the loops pass on.
\<close>

section \<open>What recovery hands to the broker\<close>

datatype tpl_status = NONE | ADDING | REMOVING

record queue_entry =
  qe_queueId :: u64
  tplStatus :: tpl_status
  qe_xid :: string

definition QueueEntry :: "u64 \<Rightarrow> queue_entry" where
  "QueueEntry i = \<lparr>qe_queueId = i, tplStatus = NONE, qe_xid = []\<rparr>"

definition queue_entry_eq :: "queue_entry \<Rightarrow> queue_entry \<Rightarrow> bool" where
  "queue_entry_eq l r =
     (if qe_queueId l \<noteq> qe_queueId r then False
      else if tplStatus l = NONE \<and> tplStatus r = NONE then True
      else qe_xid l = qe_xid r)"

text \<open>A recovered message: its header, its content, its id, and the redelivered flag.\<close>

record rmessage =
  r_header :: bytes
  r_content :: bytes
  r_pid :: u64
  r_redelivered :: bool

type_synonym message_map = "(u64, rmessage) smap"
type_synonym message_queue_map = "(u64, queue_entry list) smap"

record queue_recover_report =
  rcnt :: int
  acnt :: int
  aacnt :: int
  tcnt :: int
  dbcnt :: int
  logcnt :: int
  wacnt :: int

definition QueueRecoverReport :: queue_recover_report where
  "QueueRecoverReport = \<lparr>rcnt = 0, acnt = 0, aacnt = 0, tcnt = 0, dbcnt = 0, logcnt = 0, wacnt = 0\<rparr>"

definition QueueRecoverReport_copy :: "queue_recover_report \<Rightarrow> queue_recover_report" where
  "QueueRecoverReport_copy ref = \<lparr>rcnt = rcnt ref, acnt = acnt ref, aacnt = aacnt ref, tcnt = tcnt ref,
     dbcnt = dbcnt ref, logcnt = logcnt ref, wacnt = wacnt ref\<rparr>"

record rstate =
  messageMap :: message_map
  messageQueueMap :: message_queue_map
  foundMsg :: "string list"
  adset :: PendingDequeueSet
  aeset :: PendingEnqueueSet
  report :: queue_recover_report
  thisLastPid :: u64
  maxRid :: u64
  recovered :: "(u64 \<times> bytes) list"
  transientMsg :: "u64 list"
  innerAcceptedMsg :: "u64 list"
  asyncAcceptedMsg :: "u64 list"
  transient_async :: "(u64 \<times> u64) list"
  useless_async :: "(u64 \<times> u64) list"
  dequeue_completed_async :: "(u64 \<times> u64) list"
  penq_recovered :: "u64 sset"
  first :: int

section \<open>The pending enqueues\<close>

text \<open>One pending enqueue, seen while the journal \<open>J\<close> is recovered; the flag tells whether it
  stays in the set of pending enqueues. The first ten of the journal's own are looked up
  in the database.\<close>

definition own_pending ::
    "('db, 'mdb) bdb \<Rightarrow> 'db journal \<Rightarrow> pending_enq \<Rightarrow> rstate \<Rightarrow> (('db, 'mdb) provider, bool \<times> rstate) comp" where
  "own_pending B J pae s =
     bindE (if first s < 10 then liftE (is_enqueued (msg_api B) (msgId pae) J) else retE False) (\<lambda>stored.
       let s1 = if first s < 10 then s\<lparr>first := first s + 1\<rparr> else s
       in if stored
          then thenE (with_log (Inr \<circ> log_enqueue_complete (msgId pae) (queueId pae)))
                 (retE (False, s1\<lparr>report := (report s1)\<lparr>wacnt := wacnt (report s1) + 1\<rparr>\<rparr>))
          else if length (enq_buff pae) < unat (enq_size pae) then throwE (Fault OutOfBounds)
          else retE (True, s1\<lparr>recovered := recovered s1 @ [(msgId pae, take (unat (enq_size pae)) (enq_buff pae))],
                              penq_recovered := sset_insert (msgId pae) (penq_recovered s1)\<rparr>))"

definition scan_pending ::
    "('db, 'mdb) bdb \<Rightarrow> 'db journal \<Rightarrow> pending_enq \<Rightarrow> rstate \<Rightarrow> (('db, 'mdb) provider, bool \<times> rstate) comp" where
  "scan_pending B J pae s =
     (if pset_find (adset s) (queueId pae) (msgId pae) \<noteq> None
      then retE (False, s\<lparr>useless_async := useless_async s @ [opId pae],
                          adset := pset_erase (queueId pae) (msgId pae) (adset s),
                          report := (report s)\<lparr>aacnt := aacnt (report s) + 1\<rparr>\<rparr>)
      else if enq_transient pae then retE (False, s\<lparr>transient_async := transient_async s @ [opId pae]\<rparr>)
      else if queuePid J = queueId pae then own_pending B J pae s
      else retE (True, s))"

text \<open>The nested loops over the pending enqueues: what is left of each inner map, and the inner
  maps that are not empty.\<close>

fun scan_subset ::
    "('db, 'mdb) bdb \<Rightarrow> 'db journal \<Rightarrow> pending_enq psub \<Rightarrow> rstate \<Rightarrow> (('db, 'mdb) provider, pending_enq psub \<times> rstate) comp" where
  "scan_subset B J [] s = retE ([], s)"
| "scan_subset B J ((m, pae) # l) s =
     bindE (scan_pending B J pae s) (\<lambda>(keep, s1).
     bindE (scan_subset B J l s1) (\<lambda>(l', s2). retE (if keep then (m, pae) # l' else l', s2)))"

fun scan_pendings ::
    "('db, 'mdb) bdb \<Rightarrow> 'db journal \<Rightarrow> PendingEnqueueSet \<Rightarrow> rstate \<Rightarrow> (('db, 'mdb) provider, PendingEnqueueSet \<times> rstate) comp" where
  "scan_pendings B J [] s = retE ([], s)"
| "scan_pendings B J ((q, sub) # l) s =
     bindE (scan_subset B J sub s) (\<lambda>(sub', s1).
     bindE (scan_pendings B J l s1) (\<lambda>(l', s2). retE (if sub' = [] then l' else (q, sub') # l', s2)))"

section \<open>The messages\<close>

text \<open>\<^verbatim>\<open>sizeof(u_int32_t) + sizeof(u_int8_t)\<close>.\<close>

definition preambleLength :: nat where
  "preambleLength = 5"

text \<open>The message was accepted while the broker was down: it leaves the pending sets, or the
  database when it is there.\<close>

definition accept_message :: "u64 \<Rightarrow> u64 \<Rightarrow> string \<Rightarrow> rstate \<Rightarrow> rstate" where
  "accept_message q m uid s =
     (let s1 =
        (if pset_find (aeset s) q m \<noteq> None
         then let s0 = s\<lparr>aeset := pset_erase q m (aeset s)\<rparr>
              in if pset_find (adset s0) q m \<noteq> None
                 then s0\<lparr>adset := pset_erase q m (adset s0), useless_async := useless_async s0 @ [(m, q)]\<rparr>
                 else s0\<lparr>transient_async := transient_async s0 @ [(m, q)]\<rparr>
         else s\<lparr>innerAcceptedMsg := innerAcceptedMsg s @ [m]\<rparr>)
      in s1\<lparr>foundMsg := foundMsg s1 @ [uid], report := (report s1)\<lparr>acnt := acnt (report s1) + 1\<rparr>\<rparr>)"

definition accept_check ::
    "recovery_manager \<Rightarrow> string list \<Rightarrow> bytes \<Rightarrow> u32 \<Rightarrow> u64 \<Rightarrow> u64 \<Rightarrow> rstate \<Rightarrow> exn + bool \<times> rstate" where
  "accept_check R accepted data headerSize q m s =
     (case slice data preambleLength (unat headerSize) of
        Inl e \<Rightarrow> Inl e
      | Inr header \<Rightarrow>
          (let msgUid = rm_uid R header
           in if msgUid \<noteq> [] \<and> msgUid \<in> set accepted then Inr (False, accept_message q m msgUid s) else Inr (True, s)))"

text \<open>A pending dequeue takes the message out.\<close>

definition dequeue_check :: "u64 \<Rightarrow> u64 \<Rightarrow> bool \<times> rstate \<Rightarrow> bool \<times> rstate" where
  "dequeue_check q m = (\<lambda>(toRecover, s).
     if pset_find (adset s) q m \<noteq> None
     then (False, s\<lparr>asyncAcceptedMsg := asyncAcceptedMsg s @ [m], report := (report s)\<lparr>aacnt := aacnt (report s) + 1\<rparr>,
                    adset := pset_erase q m (adset s), dequeue_completed_async := dequeue_completed_async s @ [(m, q)]\<rparr>)
     else (toRecover, s))"

text \<open>Sizes in \<^verbatim>\<open>qpid::framing::Buffer\<close> and the offset of the content are 32-bit unsigned.\<close>

definition deliver :: "recovery_manager \<Rightarrow> u64 \<Rightarrow> bool \<Rightarrow> u32 \<Rightarrow> u64 \<times> bytes \<Rightarrow> rstate \<Rightarrow> exn + rstate" where
  "deliver R qid ape_recovered headerSize = (\<lambda>(m, data) s.
     case slice data preambleLength (unat headerSize) of
       Inl e \<Rightarrow> Inl e
     | Inr header \<Rightarrow>
         (let contentOffset = headerSize + word_of_nat preambleLength :: u32;
              contentSize = ucast (word_of_nat (length data) - contentOffset) :: u64
          in if rm_loads R header contentSize
             then (case slice data (unat contentOffset) (unat contentSize) of
                     Inl e \<Rightarrow> Inl e
                   | Inr body \<Rightarrow>
                       (let r = report s;
                            r' = (if ape_recovered then r\<lparr>rcnt := rcnt r + 1, logcnt := logcnt r + 1\<rparr>
                                  else r\<lparr>rcnt := rcnt r + 1, dbcnt := dbcnt r + 1\<rparr>);
                            msg = \<lparr>r_header = header, r_content = body, r_pid = m, r_redelivered = True\<rparr>;
                            entries = (case map_of (messageQueueMap s) m of None \<Rightarrow> [] | Some l \<Rightarrow> l)
                        in Inr (s\<lparr>report := r', messageMap := smap_assign m msg (messageMap s),
                                  messageQueueMap := smap_assign m (entries @ [QueueEntry qid]) (messageQueueMap s)\<rparr>)))
             else Inr s))"

definition decode_message ::
    "('db, 'mdb) bdb \<Rightarrow> recovery_manager \<Rightarrow> bool \<Rightarrow> string list \<Rightarrow> 'db journal \<Rightarrow> u64 \<Rightarrow> u64 \<times> bytes \<Rightarrow> rstate \<Rightarrow> exn + rstate" where
  "decode_message B R acceptRecovery accepted J qid = (\<lambda>(m, data) s.
     case data of
       [] \<Rightarrow> Inl (Fault OutOfBounds)
     | transientFlag # r \<Rightarrow>
         (if transientFlag = 0
          then let ape_recovered = (m \<in> set (penq_recovered s));
                   s1 = (if ape_recovered then s\<lparr>penq_recovered := sset_erase m (penq_recovered s)\<rparr>
                         else s\<lparr>thisLastPid := max m (thisLastPid s)\<rparr>);
                   s2 = s1\<lparr>maxRid := max m (maxRid s1)\<rparr>
               in if length r < 4 then Inl (Fault OutOfBounds)
                  else let headerSize = getLong (framing B) r
                       in (case (if acceptRecovery then accept_check R accepted data headerSize (queuePid J) m s2
                                 else Inr (True, s2)) of
                             Inl e \<Rightarrow> Inl e
                           | Inr ts \<Rightarrow>
                               (case dequeue_check (queuePid J) m ts of
                                  (toRecover, s3) \<Rightarrow>
                                    if toRecover then deliver R qid ape_recovered headerSize (m, data) s3 else Inr s3))
          else Inr (s\<lparr>transientMsg := transientMsg s @ [m], report := (report s)\<lparr>tcnt := tcnt (report s) + 1\<rparr>\<rparr>)))"

fun decode_messages ::
    "('db, 'mdb) bdb \<Rightarrow> recovery_manager \<Rightarrow> bool \<Rightarrow> string list \<Rightarrow> 'db journal \<Rightarrow> u64 \<Rightarrow> (u64 \<times> bytes) list \<Rightarrow> rstate \<Rightarrow> exn + rstate" where
  "decode_messages B R f accepted J qid [] s = Inr s"
| "decode_messages B R f accepted J qid (x # xs) s =
     (case decode_message B R f accepted J qid x s of Inl e \<Rightarrow> Inl e | Inr s' \<Rightarrow> decode_messages B R f accepted J qid xs s')"

section \<open>One queue\<close>

text \<open>The out parameters on entry, with the local variables at their initial values.\<close>

definition rstate_start :: "message_map \<Rightarrow> message_queue_map \<Rightarrow> string list \<Rightarrow> PendingDequeueSet \<Rightarrow> PendingEnqueueSet \<Rightarrow> rstate" where
  "rstate_start mm mq fm ad ae = \<lparr>messageMap = mm, messageQueueMap = mq, foundMsg = fm, adset = ad, aeset = ae,
     report = QueueRecoverReport, thisLastPid = 0, maxRid = 0, recovered = [], transientMsg = [], innerAcceptedMsg = [],
     asyncAcceptedMsg = [], transient_async = [], useless_async = [], dequeue_completed_async = [], penq_recovered = [], first = 0\<rparr>"

definition decodeAndRecoverMsg ::
    "('db, 'mdb) bdb \<Rightarrow> recovery_manager \<Rightarrow> pqueue \<Rightarrow> rstate \<Rightarrow> (('db, 'mdb) provider, rstate) comp" where
  "decodeAndRecoverMsg B R queue s =
     catchE
       (bindE (handle (externalQueueStore queue)) (\<lambda>a.
        bindE (deref a) (\<lambda>J0.
        bindE (liftE (recoverMessages (msg_api B) [] J0)) (\<lambda>(rec, J).
        thenE (update_at a J)
        (bindE (scan_pendings B J (aeset s) (s\<lparr>recovered := rec\<rparr>)) (\<lambda>(ae, s1).
         bindE (getE id) (\<lambda>P.
         bindE (liftE (decode_messages B R (enableAcceptRecoveryFlag (options P)) (acceptedFromMongo P) J (persistenceId queue)
                  (recovered s1) (s1\<lparr>aeset := ae\<rparr>))) (\<lambda>s2.
         thenE (update_at a (register_as_accepted (asyncAcceptedMsg s2) (register_as_accepted (innerAcceptedMsg s2)
                  (register_as_transient (transientMsg s2) J))))
         (thenE (with_log (log_mass_enqueue_complete (transient_async s2)))
         (thenE (with_log (log_mass_dequeue_complete (dequeue_completed_async s2)))
         (thenE (with_log (log_mass_enqueue_dequeue_complete (useless_async s2)))
         (retE s2))))))))))))
       (rethrow_jexception (\<lambda>w. ''Queue '' @ pname queue @ '': recoverMessages() failed: '' @ w))"

section \<open>All queues\<close>

text \<open>The comparison of serial numbers of RFC 1982, on 64 bits.\<close>

definition later_id :: "u64 \<Rightarrow> u64 \<Rightarrow> u64" where
  "later_id cur this = (if cur = 0 then this else if this - cur < 0x8000000000000000 then this else cur)"

fun recover_each ::
    "('db, 'mdb) bdb \<Rightarrow> recovery_manager \<Rightarrow> pqueue list \<Rightarrow> rstate \<Rightarrow> u64 \<Rightarrow> (('db, 'mdb) provider, rstate \<times> u64) comp" where
  "recover_each B R [] s localLastPid = retE (s, localLastPid)"
| "recover_each B R (q # qs) s localLastPid =
     bindE (catchE (decodeAndRecoverMsg B R q (rstate_start (messageMap s) (messageQueueMap s) (foundMsg s) (adset s) (aeset s)))
              (rethrow_jexception (\<lambda>w. ''Queue '' @ c_str (pname q) @ '': recoverQueues() failed: '' @ w))) (\<lambda>s'.
     thenE (modE (\<lambda>P. P\<lparr>highestRid := later_id (highestRid P) (maxRid s')\<rparr>))
     (recover_each B R qs s' (later_id localLastPid (thisLastPid s'))))"

definition finish_queue :: "('db, 'mdb) bdb \<Rightarrow> pqueue \<Rightarrow> (('db, 'mdb) provider, unit) comp" where
  "finish_queue B q =
     bindE (handle (externalQueueStore q)) (\<lambda>a.
     bindE (deref a) (\<lambda>J.
     bindE (liftE (discard_transient_message (msg_api B) J)) (\<lambda>J1.
     bindE (liftE (discard_accepted_message (msg_api B) J1)) (\<lambda>J2.
     bindE (getE (compactFlag \<circ> options)) (\<lambda>c.
     bindE (liftE (recover_complete (msg_api B) (if c then compact_message_database J2 else J2))) (update_at a))))))"

text \<open>\<^verbatim>\<open>journalList[id]\<close> creates an entry with a null pointer for an id that has none.\<close>

definition journal_of :: "u64 \<Rightarrow> (('db, 'mdb) provider, nat option) comp" where
  "journal_of q =
     bindE (getE journalList) (\<lambda>l.
       case map_of l q of
         Some j \<Rightarrow> retE j
       | None \<Rightarrow> thenE (modE (\<lambda>P. P\<lparr>journalList := smap_insert q None (journalList P)\<rparr>)) (retE None))"

text \<open>The pending enqueues go back to the pool, unless their dequeue is pending too: the pending
  dequeues left, the operations to be logged as complete, and the count.\<close>

type_synonym resurrection = "PendingDequeueSet \<times> (u64 \<times> u64) list \<times> nat"

definition resurrect_enqueue :: "('db, 'mdb) bdb \<Rightarrow> pending_enq \<Rightarrow> resurrection \<Rightarrow> (('db, 'mdb) provider, bool \<times> resurrection) comp" where
  "resurrect_enqueue B pae = (\<lambda>(ad, uselessList, resEnqCount).
     if pset_find ad (queueId pae) (msgId pae) \<noteq> None
     then retE (False, pset_erase (queueId pae) (msgId pae) ad, uselessList @ [opId pae], resEnqCount)
     else bindE (journal_of (queueId pae)) (\<lambda>jc.
          if jc = None then retE (True, ad, uselessList, resEnqCount)
          else thenE (modE (\<lambda>P. if enableSmartAsync (options P)
                                then P\<lparr>tracker := snd (willEnqueue (msgId pae) (queueId pae) (tracker P))\<rparr> else P))
               (bindE (schedule_store B (StoreTask jc (enq_buff pae) (enq_size pae) (msgId pae) (enq_transient pae))) (\<lambda>ok.
                retE (True, ad, uselessList, if ok then resEnqCount + 1 else resEnqCount)))))"

fun resurrect_subset :: "('db, 'mdb) bdb \<Rightarrow> pending_enq psub \<Rightarrow> resurrection \<Rightarrow> (('db, 'mdb) provider, pending_enq psub \<times> resurrection) comp" where
  "resurrect_subset B [] r = retE ([], r)"
| "resurrect_subset B ((m, pae) # l) r =
     bindE (resurrect_enqueue B pae r) (\<lambda>(keep, r1).
     bindE (resurrect_subset B l r1) (\<lambda>(l', r2). retE (if keep then (m, pae) # l' else l', r2)))"

fun resurrect_enqueues :: "('db, 'mdb) bdb \<Rightarrow> PendingEnqueueSet \<Rightarrow> resurrection \<Rightarrow> (('db, 'mdb) provider, PendingEnqueueSet \<times> resurrection) comp" where
  "resurrect_enqueues B [] r = retE ([], r)"
| "resurrect_enqueues B ((q, sub) # l) r =
     bindE (resurrect_subset B sub r) (\<lambda>(sub', r1).
     bindE (resurrect_enqueues B l r1) (\<lambda>(l', r2). retE (if sub' = [] then l' else (q, sub') # l', r2)))"

fun resurrect_dequeues :: "('db, 'mdb) bdb \<Rightarrow> pending_deq list \<Rightarrow> nat \<Rightarrow> (('db, 'mdb) provider, nat) comp" where
  "resurrect_dequeues B [] resDeqCount = retE resDeqCount"
| "resurrect_dequeues B (pad # l) resDeqCount =
     bindE (journal_of (queueId pad)) (\<lambda>jc.
       if jc = None then resurrect_dequeues B l resDeqCount
       else bindE (schedule_dequeue B (DequeueTask (msgId pad) jc)) (\<lambda>ok.
            resurrect_dequeues B l (if ok then resDeqCount + 1 else resDeqCount)))"

definition provider_recoverMessages ::
    "('db, 'mdb) bdb \<Rightarrow> recovery_manager \<Rightarrow> message_map \<Rightarrow> message_queue_map \<Rightarrow> (('db, 'mdb) provider, message_map \<times> message_queue_map) comp" where
  "provider_recoverMessages B R mm mq =
     bindE (with_log (\<lambda>Aw. case recoverAsyncDequeue [] Aw of (_, ad, Aw') \<Rightarrow> Inr (ad, Aw'))) (\<lambda>ad.
     bindE (with_log (\<lambda>Aw. case recoverAsyncEnqueue [] Aw of Inl e \<Rightarrow> Inl e | Inr (_, ae, Aw') \<Rightarrow> Inr (ae, Aw'))) (\<lambda>ae.
     bindE (getE recoveredJournal) (\<lambda>qs.
     bindE (recover_each B R qs (rstate_start mm mq [] ad ae) 0) (\<lambda>(s, localLastPid).
     thenE (forE qs (finish_queue B))
     (thenE (modE (\<lambda>P. P\<lparr>acceptedFromMongo := [], recoveredJournal := [],
                          messageIdSequence := IdSequence_reset (highestRid P + 1) (messageIdSequence P),
                          tracker := PidTracker_reset localLastPid (tracker P)\<rparr>))
     (bindE (resurrect_enqueues B (aeset s) (adset s, [], 0)) (\<lambda>(ae', ad', uselessList, resEnqCount).
      thenE (resurrect_dequeues B (pset_list ad') 0)
      (thenE (with_log (log_mass_enqueue_dequeue_complete uselessList))
      (thenE (modE (\<lambda>P. P\<lparr>enqLogCleanerThread := True, deqLogCleanerThread := True, eraserThread := True\<rparr>))
      (retE (messageMap s, messageQueueMap s)))))))))))"

end
