(* ===== verification/MessagePasses.thy ===== *)
theory MessagePasses
  imports ProviderRecovery Bindings LogRecovery
begin

text \<open>
  The recovery of the messages of one queue. The messages of a queue at a restart are in its
  databases, among the pending enqueues, or both; a pending dequeue takes a message out.
  The passes of \<^verbatim>\<open>decodeAndRecoverMsg\<close> over the pending sets and the databases are described
  by what they recover and by what they leave in the sets.
\<close>

section \<open>Frames\<close>

text \<open>Writing to the logs changes the logger and the machine, and nothing else.\<close>

definition logged :: "('db, 'mdb) provider \<Rightarrow> ('db, 'mdb) provider \<Rightarrow> bool" where
  "logged P P' \<longleftrightarrow> (\<exists>A w. P' = P\<lparr>aologger := Some A, machine := w\<rparr>)"

lemma logged_upd: "logged P (P\<lparr>aologger := Some A, machine := w\<rparr>)"
  unfolding logged_def by (intro exI) (rule refl)

lemma logged_refl:
  assumes "aologger P \<noteq> None"
  shows "logged P P"
proof -
  obtain A where "aologger P = Some A" using assms by blast
  then have "P\<lparr>aologger := Some A, machine := machine P\<rparr> = P" by simp
  then show ?thesis using logged_upd[where P = P and A = A and w = "machine P"] by simp
qed

lemma logged_trans:
  assumes "logged P P1" and "logged P1 P2"
  shows "logged P P2"
proof -
  obtain A w where 1: "P1 = P\<lparr>aologger := Some A, machine := w\<rparr>" using assms(1) unfolding logged_def by blast
  obtain A' w' where "P2 = P1\<lparr>aologger := Some A', machine := w'\<rparr>" using assms(2) unfolding logged_def by blast
  then have "P2 = P\<lparr>aologger := Some A', machine := w'\<rparr>" using 1 by simp
  then show ?thesis using logged_upd[where P = P and A = A' and w = w'] by simp
qed

lemma logged_aologger: "logged P P' \<Longrightarrow> aologger P' \<noteq> None"
  by (auto simp: logged_def)

lemma with_log_total:
  assumes "aologger P \<noteq> None" and "\<And>Aw. \<exists>x Aw'. f Aw = Inr (x, Aw')"
  shows "\<exists>x P'. with_log f P = (Inr x, P') \<and> logged P P'"
proof -
  obtain A where A: "aologger P = Some A" using assms(1) by blast
  obtain x A' w' where "f (A, machine P) = Inr (x, A', w')" using assms(2) by (metis prod.collapse)
  with A show ?thesis using logged_upd[where P = P and A = A' and w = w'] by (simp add: with_log_def)
qed

lemma log_enqueue_complete_total: "\<exists>x Aw'. (Inr \<circ> log_enqueue_complete m q) Aw = Inr (x, Aw')"
  by (cases "log_enqueue_complete m q Aw") simp

section \<open>The pass over the pending enqueues\<close>

text \<open>The pass without the log: the answer of \<^verbatim>\<open>is_enqueued\<close> is a predicate, and the pending
  enqueues are a list.\<close>

definition scan_one :: "(u64 \<Rightarrow> bool) \<Rightarrow> u64 \<Rightarrow> pending_enq \<Rightarrow> rstate \<Rightarrow> bool \<times> rstate" where
  "scan_one stored own pae s =
     (if pset_find (adset s) (queueId pae) (msgId pae) \<noteq> None
      then (False, s\<lparr>useless_async := useless_async s @ [opId pae],
                          adset := pset_erase (queueId pae) (msgId pae) (adset s),
                          report := (report s)\<lparr>aacnt := aacnt (report s) + 1\<rparr>\<rparr>)
      else if enq_transient pae then (False, s\<lparr>transient_async := transient_async s @ [opId pae]\<rparr>)
      else if own = queueId pae
      then let s1 = if first s < 10 then s\<lparr>first := first s + 1\<rparr> else s
           in if first s < 10 \<and> stored (msgId pae)
              then (False, s1\<lparr>report := (report s1)\<lparr>wacnt := wacnt (report s1) + 1\<rparr>\<rparr>)
              else (True, s1\<lparr>recovered := recovered s1 @ [(msgId pae, take (unat (enq_size pae)) (enq_buff pae))],
                             penq_recovered := sset_insert (msgId pae) (penq_recovered s1)\<rparr>)
      else (True, s))"

fun scan_list :: "(u64 \<Rightarrow> bool) \<Rightarrow> u64 \<Rightarrow> pending_enq list \<Rightarrow> rstate \<Rightarrow> pending_enq list \<times> rstate" where
  "scan_list stored own [] s = ([], s)"
| "scan_list stored own (pae # l) s =
     (let (keep, s1) = scan_one stored own pae s; (l', s2) = scan_list stored own l s1
      in (if keep then pae # l' else l', s2))"

text \<open>What the loops rely on: buffers as long as they say, and answers of the journal.\<close>

definition scannable :: "('db, 'mdb) bdb \<Rightarrow> 'db journal \<Rightarrow> (u64 \<Rightarrow> bool) \<Rightarrow> pending_enq \<Rightarrow> bool" where
  "scannable B J stored pae \<longleftrightarrow> unat (enq_size pae) \<le> length (enq_buff pae) \<and>
     (queueId pae = queuePid J \<longrightarrow> is_enqueued (msg_api B) (msgId pae) J = Inr (stored (msgId pae)))"

lemma scan_pending_one:
  assumes "scannable B J stored pae" and "aologger P \<noteq> None"
  shows "\<exists>P'. scan_pending B J pae s P = (Inr (scan_one stored (queuePid J) pae s), P') \<and> logged P P'"
proof -
  obtain x P' where l: "with_log (Inr \<circ> log_enqueue_complete (msgId pae) (queueId pae)) P = (Inr x, P')" "logged P P'"
    using with_log_total[OF assms(2), of "Inr \<circ> log_enqueue_complete (msgId pae) (queueId pae)", OF log_enqueue_complete_total] by blast
  show ?thesis
  proof (cases "pset_find (adset s) (queueId pae) (msgId pae) = None \<and> \<not> enq_transient pae \<and> queuePid J = queueId pae \<and>
      first s < 10 \<and> stored (msgId pae)")
    case True
    then show ?thesis using assms(1) l
      by (simp add: scan_pending_def own_pending_def scan_one_def scannable_def comp_simps Let_def)
  next
    case False
    then show ?thesis using assms(1) logged_refl[OF assms(2)]
      by (auto simp: scan_pending_def own_pending_def scan_one_def scannable_def comp_simps Let_def)
  qed
qed

lemma scan_subset_list:
  "\<forall>x \<in> set l. scannable B J stored (snd x) \<Longrightarrow> aologger P \<noteq> None \<Longrightarrow>
   \<exists>l' P'. scan_subset B J l s P = (Inr (l', snd (scan_list stored (queuePid J) (map snd l) s)), P') \<and> logged P P' \<and>
     map snd l' = fst (scan_list stored (queuePid J) (map snd l) s) \<and>
     set l' \<subseteq> set l \<and> (smap_ok l \<longrightarrow> smap_ok l')"
proof (induction l arbitrary: s P)
  case Nil
  then show ?case using logged_refl[of P] by (simp add: comp_simps)
next
  case (Cons x l)
  obtain m pae where x: "x = (m, pae)" by (cases x)
  obtain keep s1 where 1: "scan_one stored (queuePid J) pae s = (keep, s1)" by fastforce
  obtain P1 where P1: "scan_pending B J pae s P = (Inr (keep, s1), P1)" "logged P P1"
    using scan_pending_one[of B J stored pae P s] Cons.prems x 1 by auto
  obtain l' P2 where P2: "scan_subset B J l s1 P1 = (Inr (l', snd (scan_list stored (queuePid J) (map snd l) s1)), P2)" "logged P1 P2"
    "map snd l' = fst (scan_list stored (queuePid J) (map snd l) s1)" "set l' \<subseteq> set l" "smap_ok l \<longrightarrow> smap_ok l'"
    using Cons.IH[OF _ logged_aologger[OF P1(2)], of s1] Cons.prems(1) by auto
  show ?case
    using x 1 P1(1) P2 logged_trans[OF P1(2) P2(2)]
    by (cases keep) (auto simp: comp_simps Let_def split: prod.splits)
qed

lemma scan_list_append:
  "scan_list stored own (a @ b) s =
     (let (k1, s1) = scan_list stored own a s; (k2, s2) = scan_list stored own b s1 in (k1 @ k2, s2))"
  by (induction a arbitrary: s) (auto split: prod.splits)

lemma pset_list_Cons: "pset_list ((q, sub) # l) = map snd sub @ pset_list l"
  by (simp add: pset_list_def)

lemma pset_ok_Cons: "pset_ok ((q, sub) # l) \<longleftrightarrow> (\<forall>x \<in> fst ` set l. q < x) \<and> smap_ok sub \<and> sub \<noteq> [] \<and> pset_ok l"
  by (auto simp: pset_ok_def)

lemma scan_pendings_list:
  "\<forall>pae \<in> set (pset_list l). scannable B J stored pae \<Longrightarrow> aologger P \<noteq> None \<Longrightarrow>
   \<exists>l' P'. scan_pendings B J l s P = (Inr (l', snd (scan_list stored (queuePid J) (pset_list l) s)), P') \<and> logged P P' \<and>
     pset_list l' = fst (scan_list stored (queuePid J) (pset_list l) s) \<and> fst ` set l' \<subseteq> fst ` set l \<and>
     (pset_ok l \<longrightarrow> pset_ok l') \<and> (\<forall>(q, sub) \<in> set l'. \<exists>sub0. (q, sub0) \<in> set l \<and> set sub \<subseteq> set sub0)"
proof (induction l arbitrary: s P)
  case Nil
  then show ?case using logged_refl[of P] by (simp add: comp_simps pset_list_def)
next
  case (Cons x l)
  obtain q sub where x: "x = (q, sub)" by (cases x)
  let ?sc = "scan_list stored (queuePid J)"
  obtain k1 s1 where 1: "?sc (map snd sub) s = (k1, s1)" by fastforce
  obtain sub' P1 where P1: "scan_subset B J sub s P = (Inr (sub', s1), P1)" "logged P P1" "map snd sub' = k1"
    "set sub' \<subseteq> set sub" "smap_ok sub \<longrightarrow> smap_ok sub'"
    using scan_subset_list[of sub B J stored P s] Cons.prems x 1 by (auto simp: pset_list_Cons)
  obtain l' P2 where P2: "scan_pendings B J l s1 P1 = (Inr (l', snd (?sc (pset_list l) s1)), P2)" "logged P1 P2"
    "pset_list l' = fst (?sc (pset_list l) s1)" "fst ` set l' \<subseteq> fst ` set l" "pset_ok l \<longrightarrow> pset_ok l'"
    "\<forall>(q, sub) \<in> set l'. \<exists>sub0. (q, sub0) \<in> set l \<and> set sub \<subseteq> set sub0"
    using Cons.IH[OF _ logged_aologger[OF P1(2)], of s1] Cons.prems(1) x by (auto simp: pset_list_Cons)
  have sc: "?sc (pset_list (x # l)) s = (k1 @ fst (?sc (pset_list l) s1), snd (?sc (pset_list l) s1))"
    using x 1 by (simp add: pset_list_Cons scan_list_append Let_def split: prod.splits)
  let ?l = "if sub' = [] then l' else (q, sub') # l'"
  have "scan_pendings B J (x # l) s P = (Inr (?l, snd (?sc (pset_list (x # l)) s)), P2)"
    using x P1(1) P2(1) sc by (simp add: comp_simps)
  moreover have "pset_list ?l = fst (?sc (pset_list (x # l)) s)"
    using P1(3) P2(3) sc by (auto simp: pset_list_Cons)
  moreover have "fst ` set ?l \<subseteq> fst ` set (x # l)" using P2(4) x by auto
  moreover have "pset_ok (x # l) \<longrightarrow> pset_ok ?l"
  proof
    assume "pset_ok (x # l)"
    then have o: "\<forall>y \<in> fst ` set l. q < y" "smap_ok sub" "pset_ok l" using x by (simp_all add: pset_ok_Cons)
    have "\<forall>y \<in> fst ` set l'. q < y" using o(1) P2(4) by blast
    then show "pset_ok ?l" using o(2,3) P1(5) P2(5) by (simp add: pset_ok_Cons)
  qed
  moreover have "\<forall>(q, sub) \<in> set ?l. \<exists>sub0. (q, sub0) \<in> set (x # l) \<and> set sub \<subseteq> set sub0"
  proof (rule ballI, rule case_prodI2)
    fix y r u
    assume y: "y \<in> set ?l" "y = (r, u)"
    show "\<exists>sub0. (r, sub0) \<in> set (x # l) \<and> set u \<subseteq> set sub0"
    proof (cases "y \<in> set l'")
      case True
      then show ?thesis using P2(6) y(2) by auto
    next
      case False
      then have "(r, u) = (q, sub')" using y by (simp split: if_splits)
      then show ?thesis using P1(4) x by auto
    qed
  qed
  ultimately show ?case using logged_trans[OF P1(2) P2(2)] by blast
qed

text \<open>The list pass: what it keeps, what it recovers, and what it leaves of the pending dequeues.\<close>

definition same_maps :: "rstate \<Rightarrow> rstate \<Rightarrow> bool" where
  "same_maps s s' \<longleftrightarrow> messageMap s' = messageMap s \<and> messageQueueMap s' = messageQueueMap s \<and> foundMsg s' = foundMsg s \<and>
     aeset s' = aeset s \<and> thisLastPid s' = thisLastPid s \<and> maxRid s' = maxRid s \<and> transientMsg s' = transientMsg s \<and>
     innerAcceptedMsg s' = innerAcceptedMsg s \<and> asyncAcceptedMsg s' = asyncAcceptedMsg s \<and>
     dequeue_completed_async s' = dequeue_completed_async s"

lemma scan_one_frame: "scan_one stored own pae s = (keep, s') \<Longrightarrow> same_maps s s' \<and>
    length (useless_async s') + length (transient_async s') \<le> length (useless_async s) + length (transient_async s) + 1"
  by (auto simp: scan_one_def same_maps_def Let_def split: if_splits)

lemma scan_list_frame: "scan_list stored own l s = (kept, s') \<Longrightarrow> same_maps s s' \<and>
    length (useless_async s') + length (transient_async s') \<le> length (useless_async s) + length (transient_async s) + length l"
proof (induction l arbitrary: s kept)
  case (Cons pae l)
  obtain keep s1 where 1: "scan_one stored own pae s = (keep, s1)" by fastforce
  obtain k2 where 2: "scan_list stored own l s1 = (k2, s')" using Cons.prems 1 by (auto split: prod.splits)
  show ?case using scan_one_frame[OF 1] Cons.IH[OF 2] by (simp add: same_maps_def)
qed (simp add: same_maps_def)

definition enq_data :: "pending_enq \<Rightarrow> u64 \<times> bytes" where
  "enq_data pae = (msgId pae, take (unat (enq_size pae)) (enq_buff pae))"

text \<open>One entry.\<close>

lemma scan_one_spec:
  assumes "pset_ok (adset s)" and "scan_one stored own pae s = (keep, s')"
  shows "pset_ok (adset s')"
    and "pset_find (adset s') q m = (if (q, m) = opkey pae then None else pset_find (adset s) q m)"
    and "keep \<Longrightarrow> pset_find (adset s) (queueId pae) (msgId pae) = None \<and> \<not> enq_transient pae"
    and "\<not> keep \<Longrightarrow> pset_find (adset s) (queueId pae) (msgId pae) = None \<Longrightarrow> \<not> enq_transient pae \<Longrightarrow>
           queueId pae = own \<and> stored (msgId pae)"
    and "recovered s' = recovered s @ (if keep \<and> queueId pae = own then [enq_data pae] else [])"
  using assms pset_ok_erase[OF assms(1)] pset_find_erase[OF assms(1)]
  by (auto simp: scan_one_def opkey_def enq_data_def Let_def split: if_splits)

lemma scan_list_spec:
  "pset_ok (adset s) \<Longrightarrow> distinct (map opkey l) \<Longrightarrow> scan_list stored own l s = (kept, s') \<Longrightarrow>
   pset_ok (adset s') \<and>
   (\<forall>q m. pset_find (adset s') q m = (if (q, m) \<in> opkey ` set l then None else pset_find (adset s) q m)) \<and>
   set kept \<subseteq> {pae \<in> set l. pset_find (adset s) (queueId pae) (msgId pae) = None \<and> \<not> enq_transient pae} \<and>
   (\<forall>pae \<in> set l. pset_find (adset s) (queueId pae) (msgId pae) = None \<longrightarrow> \<not> enq_transient pae \<longrightarrow>
      pae \<in> set kept \<or> queueId pae = own \<and> stored (msgId pae)) \<and>
   recovered s' = recovered s @ map enq_data (filter (\<lambda>pae. queueId pae = own) kept)"
proof (induction l arbitrary: s kept)
  case Nil
  then show ?case by auto
next
  case (Cons pae l)
  obtain keep s1 where 1: "scan_one stored own pae s = (keep, s1)" by fastforce
  obtain k2 where 2: "scan_list stored own l s1 = (k2, s')" and k: "kept = (if keep then pae # k2 else k2)"
    using Cons.prems(3) 1 by (auto split: prod.splits if_splits)
  note one = scan_one_spec[OF Cons.prems(1) 1]
  have d: "distinct (map opkey l)" and new: "opkey pae \<notin> opkey ` set l" using Cons.prems(2) by simp_all
  note IH = Cons.IH[OF one(1) d 2]
  have same: "pset_find (adset s1) (queueId p) (msgId p) = pset_find (adset s) (queueId p) (msgId p)" if "p \<in> set l" for p
  proof -
    have "(queueId p, msgId p) \<noteq> opkey pae" using new that by (auto simp: opkey_def image_iff)
    then show ?thesis using one(2) by simp
  qed
  show ?case
  proof (intro conjI)
    show "pset_ok (adset s')" using IH by blast
    show "\<forall>q m. pset_find (adset s') q m = (if (q, m) \<in> opkey ` set (pae # l) then None else pset_find (adset s) q m)"
      using IH one(2) by simp
    show "set kept \<subseteq> {p \<in> set (pae # l). pset_find (adset s) (queueId p) (msgId p) = None \<and> \<not> enq_transient p}"
      using IH one(3) same k by (auto split: if_splits)
    show "\<forall>p \<in> set (pae # l). pset_find (adset s) (queueId p) (msgId p) = None \<longrightarrow> \<not> enq_transient p \<longrightarrow>
        p \<in> set kept \<or> queueId p = own \<and> stored (msgId p)"
      using IH one(4) same k by (auto split: if_splits)
    show "recovered s' = recovered s @ map enq_data (filter (\<lambda>pae. queueId pae = own) kept)"
      using IH one(5) k by (auto split: if_splits)
  qed
qed

section \<open>The pass over the messages\<close>

text \<open>What every id stands for, the bytes it is stored as, and the message recovery makes of them.\<close>

record message_info =
  mi_transient :: bool
  mi_header :: bytes
  mi_content :: bytes

definition msg_image :: "wire \<Rightarrow> (u64 \<Rightarrow> message_info) \<Rightarrow> u64 \<Rightarrow> bytes" where
  "msg_image f M m = stored_msg (putLong f) (if mi_transient (M m) then 1 else 0) (mi_header (M m)) (mi_content (M m))"

definition restored :: "(u64 \<Rightarrow> message_info) \<Rightarrow> u64 \<Rightarrow> rmessage" where
  "restored M m = \<lparr>r_header = mi_header (M m), r_content = mi_content (M m), r_pid = m, r_redelivered = True\<rparr>"

definition readable :: "wire \<Rightarrow> recovery_manager \<Rightarrow> (u64 \<Rightarrow> message_info) \<Rightarrow> bool" where
  "readable f R M \<longleftrightarrow> long_codec (putLong f) (getLong f) \<and>
     (\<forall>m. 5 + length (mi_header (M m)) + length (mi_content (M m)) < 2 ^ 32 \<and>
          rm_loads R (mi_header (M m)) (word_of_nat (length (mi_content (M m)))))"

definition qentries :: "rstate \<Rightarrow> u64 \<Rightarrow> queue_entry list" where
  "qentries s m = (case map_of (messageQueueMap s) m of None \<Rightarrow> [] | Some l \<Rightarrow> l)"

lemma image_parts:
  assumes "readable f R M"
  shows "\<exists>r. msg_image f M m = (if mi_transient (M m) then 1 else 0) # r \<and> 4 \<le> length r \<and>
           getLong f r = word_of_nat (length (mi_header (M m)))"
    and "slice (msg_image f M m) preambleLength (unat (word_of_nat (length (mi_header (M m))) :: u32)) = Inr (mi_header (M m))"
    and "ucast (word_of_nat (length (msg_image f M m)) - (word_of_nat (length (mi_header (M m))) + word_of_nat preambleLength) :: u32) =
           (word_of_nat (length (mi_content (M m))) :: u64)"
    and "slice (msg_image f M m) (unat (word_of_nat (length (mi_header (M m))) + word_of_nat preambleLength :: u32))
           (unat (word_of_nat (length (mi_content (M m))) :: u64)) = Inr (mi_content (M m))"
proof -
  let ?h = "mi_header (M m)" and ?c = "mi_content (M m)"
  have L: "length (putLong f x) = 4" "getLong f (putLong f x @ r) = x" for x r
    using assms by (simp_all add: readable_def long_codec_def)
  have n: "5 + length ?h + length ?c < 2 ^ 32" using assms by (simp add: readable_def)
  have l: "length (msg_image f M m) = 5 + length ?h + length ?c" by (simp add: msg_image_def stored_msg_def L(1))
  show "\<exists>r. msg_image f M m = (if mi_transient (M m) then 1 else 0) # r \<and> 4 \<le> length r \<and> getLong f r = word_of_nat (length ?h)"
    by (simp add: msg_image_def stored_msg_def L)
  have u: "unat (word_of_nat (length ?h) :: u32) = length ?h" using n by (intro unat_u32) simp
  have d: "drop 5 (msg_image f M m) = ?h @ ?c" by (simp add: msg_image_def stored_msg_def L(1))
  show "slice (msg_image f M m) preambleLength (unat (word_of_nat (length ?h) :: u32)) = Inr ?h"
    using n by (simp add: slice_def preambleLength_def u l d)
  have a: "(word_of_nat (length ?h) + word_of_nat preambleLength :: u32) = word_of_nat (length ?h + 5)"
    by (simp add: preambleLength_def)
  have o: "unat (word_of_nat (length ?h) + word_of_nat preambleLength :: u32) = length ?h + 5"
    unfolding a using n by (intro unat_u32) simp
  have "(word_of_nat (length (msg_image f M m)) - (word_of_nat (length ?h) + word_of_nat preambleLength) :: u32) = word_of_nat (length ?c)"
    unfolding a l by simp
  moreover have "unat (word_of_nat (length ?c) :: u32) = length ?c" using n by (intro unat_u32) simp
  ultimately show "ucast (word_of_nat (length (msg_image f M m)) - (word_of_nat (length ?h) + word_of_nat preambleLength) :: u32) =
      (word_of_nat (length ?c) :: u64)"
    by (metis of_nat_unat)
  have c: "unat (word_of_nat (length ?c) :: u64) = length ?c"
    using n by (simp add: unsigned_of_nat take_bit_nat_eq_self)
  have "drop (length ?h + 5) (msg_image f M m) = ?c"
    using d by (metis add.commute append_eq_conv_conj drop_drop)
  then show "slice (msg_image f M m) (unat (word_of_nat (length ?h) + word_of_nat preambleLength :: u32))
      (unat (word_of_nat (length ?c) :: u64)) = Inr ?c"
    using n by (simp add: slice_def o c l)
qed

lemma deliver_image:
  assumes "readable (framing B) R M"
  shows "\<exists>rp. deliver R qid ape (word_of_nat (length (mi_header (M m)))) (m, msg_image (framing B) M m) s =
    Inr (s\<lparr>report := rp, messageMap := smap_assign m (restored M m) (messageMap s),
            messageQueueMap := smap_assign m (qentries s m @ [QueueEntry qid]) (messageQueueMap s)\<rparr>)"
proof -
  have "rm_loads R (mi_header (M m)) (word_of_nat (length (mi_content (M m))))" using assms by (simp add: readable_def)
  then show ?thesis
    unfolding deliver_def prod.case image_parts(2)[OF assms] sum.case Let_def image_parts(3)[OF assms] image_parts(4)[OF assms]
    by (cases ape) (simp_all add: restored_def qentries_def, (rule exI, rule refl)+)
qed

text \<open>A message is delivered if it is not transient and has no pending dequeue.\<close>

definition delivered :: "(u64 \<Rightarrow> message_info) \<Rightarrow> u64 \<Rightarrow> rstate \<Rightarrow> u64 \<Rightarrow> bool" where
  "delivered M own s m \<longleftrightarrow> \<not> mi_transient (M m) \<and> pset_find (adset s) own m = None"

definition taken :: "(u64 \<Rightarrow> message_info) \<Rightarrow> u64 \<Rightarrow> rstate \<Rightarrow> u64 \<Rightarrow> bool" where
  "taken M own s m \<longleftrightarrow> \<not> mi_transient (M m) \<and> pset_find (adset s) own m \<noteq> None"

definition same_async :: "rstate \<Rightarrow> rstate \<Rightarrow> bool" where
  "same_async s s' \<longleftrightarrow> aeset s' = aeset s \<and> useless_async s' = useless_async s \<and> transient_async s' = transient_async s \<and>
     innerAcceptedMsg s' = innerAcceptedMsg s \<and> foundMsg s' = foundMsg s \<and> recovered s' = recovered s"

lemma decode_message_spec:
  fixes J :: "'db journal" and B :: "('db, 'mdb) bdb"
  assumes r: "readable (framing B) R M" and own: "queuePid J = own" and ok: "pset_ok (adset s)"
  obtains s' where "decode_message B R False acc J qid (m, msg_image (framing B) M m) s = Inr s'" "pset_ok (adset s')" "same_async s s'"
    "\<And>q k. pset_find (adset s') q k = (if (q, k) = (own, m) \<and> \<not> mi_transient (M m) then None else pset_find (adset s) q k)"
    "\<And>k. qentries s' k = qentries s k @ (if k = m \<and> delivered M own s m then [QueueEntry qid] else [])"
    "map_of (messageMap s') = (if delivered M own s m then (map_of (messageMap s))(m \<mapsto> restored M m) else map_of (messageMap s))"
    "transientMsg s' = transientMsg s @ (if mi_transient (M m) then [m] else [])"
    "asyncAcceptedMsg s' = asyncAcceptedMsg s @ (if taken M own s m then [m] else [])"
    "length (dequeue_completed_async s') \<le> length (dequeue_completed_async s) + 1"
    "maxRid s' = (if mi_transient (M m) then maxRid s else max m (maxRid s))"
proof -
  obtain b where b: "msg_image (framing B) M m = (if mi_transient (M m) then 1 else 0) # b" "4 \<le> length b"
    "getLong (framing B) b = word_of_nat (length (mi_header (M m)))" using image_parts(1)[OF r] by blast
  show ?thesis
  proof (cases "mi_transient (M m)")
    case True
    show ?thesis
      by (rule that[of "s\<lparr>transientMsg := transientMsg s @ [m], report := (report s)\<lparr>tcnt := tcnt (report s) + 1\<rparr>\<rparr>"])
        (use True b ok in \<open>simp_all add: decode_message_def same_async_def delivered_def taken_def qentries_def\<close>)
  next
    case F: False
    define s2 where "s2 = (let ape = m \<in> set (penq_recovered s);
        s1 = (if ape then s\<lparr>penq_recovered := sset_erase m (penq_recovered s)\<rparr> else s\<lparr>thisLastPid := max m (thisLastPid s)\<rparr>)
      in s1\<lparr>maxRid := max m (maxRid s1)\<rparr>)"
    have s2: "adset s2 = adset s" "same_async s s2" "messageMap s2 = messageMap s" "messageQueueMap s2 = messageQueueMap s"
      "transientMsg s2 = transientMsg s" "asyncAcceptedMsg s2 = asyncAcceptedMsg s"
      "dequeue_completed_async s2 = dequeue_completed_async s" "maxRid s2 = max m (maxRid s)"
      by (simp_all add: s2_def same_async_def Let_def)
    have d: "decode_message B R False acc J qid (m, msg_image (framing B) M m) s =
        (case dequeue_check own m (True, s2) of
           (t, s3) \<Rightarrow> if t then deliver R qid (m \<in> set (penq_recovered s)) (word_of_nat (length (mi_header (M m))))
                              (m, msg_image (framing B) M m) s3 else Inr s3)"
      using b F by (simp add: decode_message_def s2_def Let_def own split: prod.split)
    show ?thesis
    proof (cases "pset_find (adset s) own m = None")
      case True
      then have "dequeue_check own m (True, s2) = (True, s2)" using s2(1) by (simp add: dequeue_check_def)
      moreover obtain rp where "deliver R qid (m \<in> set (penq_recovered s)) (word_of_nat (length (mi_header (M m))))
          (m, msg_image (framing B) M m) s2 =
          Inr (s2\<lparr>report := rp, messageMap := smap_assign m (restored M m) (messageMap s2),
            messageQueueMap := smap_assign m (qentries s2 m @ [QueueEntry qid]) (messageQueueMap s2)\<rparr>)"
        using deliver_image[OF r] by blast
      ultimately have e: "decode_message B R False acc J qid (m, msg_image (framing B) M m) s =
          Inr (s2\<lparr>report := rp, messageMap := smap_assign m (restored M m) (messageMap s2),
            messageQueueMap := smap_assign m (qentries s2 m @ [QueueEntry qid]) (messageQueueMap s2)\<rparr>)"
        using d by simp
      show ?thesis
        by (rule that[OF e]) (use F True s2 ok in \<open>simp_all add: same_async_def delivered_def taken_def qentries_def map_of_smap_assign\<close>)
    next
      case False
      then have e: "decode_message B R False acc J qid (m, msg_image (framing B) M m) s = Inr (s2\<lparr>asyncAcceptedMsg := asyncAcceptedMsg s2 @ [m],
          report := (report s2)\<lparr>aacnt := aacnt (report s2) + 1\<rparr>, adset := pset_erase own m (adset s2),
          dequeue_completed_async := dequeue_completed_async s2 @ [(m, own)]\<rparr>)"
        using d s2(1) by (simp add: dequeue_check_def)
      show ?thesis
        by (rule that[OF e])
          (use F False s2 ok pset_ok_erase[OF ok] pset_find_erase[OF ok] in \<open>auto simp: same_async_def delivered_def taken_def qentries_def\<close>)
    qed
  qed
qed

text \<open>A message with a pending dequeue is met only once.\<close>

definition met_once :: "u64 \<Rightarrow> rstate \<Rightarrow> (u64 \<times> bytes) list \<Rightarrow> bool" where
  "met_once own s xs \<longleftrightarrow> (\<forall>m. pset_find (adset s) own m \<noteq> None \<longrightarrow> length (filter (\<lambda>x. fst x = m) xs) \<le> 1)"

lemma met_once_tail:
  assumes "met_once own s ((m, d) # xs)"
  shows "pset_find (adset s) own m \<noteq> None \<Longrightarrow> m \<notin> fst ` set xs"
    and "(\<And>k. pset_find (adset s') own k \<noteq> None \<Longrightarrow> pset_find (adset s) own k \<noteq> None) \<Longrightarrow> met_once own s' xs"
proof -
  assume "pset_find (adset s) own m \<noteq> None"
  then have "length (filter (\<lambda>x. fst x = m) ((m, d) # xs)) \<le> 1" using assms unfolding met_once_def by blast
  then have "filter (\<lambda>x. fst x = m) xs = []" by simp
  then show "m \<notin> fst ` set xs" by (auto simp: filter_empty_conv)
next
  assume sub: "\<And>k. pset_find (adset s') own k \<noteq> None \<Longrightarrow> pset_find (adset s) own k \<noteq> None"
  have "length (filter (\<lambda>x. fst x = k) xs) \<le> 1" if "pset_find (adset s') own k \<noteq> None" for k
  proof -
    have "length (filter (\<lambda>x. fst x = k) ((m, d) # xs)) \<le> 1" using assms sub[OF that] unfolding met_once_def by blast
    then show ?thesis by (cases "m = k") simp_all
  qed
  then show "met_once own s' xs" by (simp add: met_once_def)
qed

text \<open>What decoding the messages \<open>xs\<close> of the queue \<open>own\<close> does to the state of the recovery.\<close>

definition decoded :: "(u64 \<Rightarrow> message_info) \<Rightarrow> u64 \<Rightarrow> u64 \<Rightarrow> rstate \<Rightarrow> (u64 \<times> bytes) list \<Rightarrow> rstate \<Rightarrow> bool" where
  "decoded M own qid s xs s' \<longleftrightarrow> pset_ok (adset s') \<and> same_async s s' \<and>
    (\<forall>q k. pset_find (adset s') q k = (if q = own \<and> k \<in> fst ` set xs \<and> \<not> mi_transient (M k) then None else pset_find (adset s) q k)) \<and>
    (\<forall>k. set (qentries s' k) = set (qentries s k) \<union> (if k \<in> fst ` set xs \<and> delivered M own s k then {QueueEntry qid} else {})) \<and>
    (\<forall>k. map_of (messageMap s') k = (if k \<in> fst ` set xs \<and> delivered M own s k then Some (restored M k) else map_of (messageMap s) k)) \<and>
    set (transientMsg s') = set (transientMsg s) \<union> {k \<in> fst ` set xs. mi_transient (M k)} \<and>
    set (asyncAcceptedMsg s') = set (asyncAcceptedMsg s) \<union> {k \<in> fst ` set xs. taken M own s k} \<and>
    length (dequeue_completed_async s') \<le> length (dequeue_completed_async s) + length xs \<and> maxRid s \<le> maxRid s' \<and>
    (\<forall>k \<in> fst ` set xs. \<not> mi_transient (M k) \<longrightarrow> k \<le> maxRid s') \<and> (maxRid s' = maxRid s \<or> maxRid s' \<in> fst ` set xs)"

lemma decodedD:
  assumes "decoded M own qid s xs s'"
  shows "pset_ok (adset s')" "same_async s s'"
    "pset_find (adset s') q k = (if q = own \<and> k \<in> fst ` set xs \<and> \<not> mi_transient (M k) then None else pset_find (adset s) q k)"
    "set (qentries s' k) = set (qentries s k) \<union> (if k \<in> fst ` set xs \<and> delivered M own s k then {QueueEntry qid} else {})"
    "map_of (messageMap s') k = (if k \<in> fst ` set xs \<and> delivered M own s k then Some (restored M k) else map_of (messageMap s) k)"
    "set (transientMsg s') = set (transientMsg s) \<union> {k \<in> fst ` set xs. mi_transient (M k)}"
    "set (asyncAcceptedMsg s') = set (asyncAcceptedMsg s) \<union> {k \<in> fst ` set xs. taken M own s k}"
    "length (dequeue_completed_async s') \<le> length (dequeue_completed_async s) + length xs" "maxRid s \<le> maxRid s'"
    "\<forall>k \<in> fst ` set xs. \<not> mi_transient (M k) \<longrightarrow> k \<le> maxRid s'" "maxRid s' = maxRid s \<or> maxRid s' \<in> fst ` set xs"
  using assms by (simp_all only: decoded_def) (elim conjE)

lemma decode_one:
  fixes J :: "'db journal" and B :: "('db, 'mdb) bdb"
  assumes r: "readable (framing B) R M" and own: "queuePid J = own" and ok: "pset_ok (adset s)"
  shows "\<exists>s'. decode_message B R False acc J qid (m, msg_image (framing B) M m) s = Inr s' \<and> decoded M own qid s [(m, d)] s'"
proof -
  obtain s1 where s1: "decode_message B R False acc J qid (m, msg_image (framing B) M m) s = Inr s1" "pset_ok (adset s1)" "same_async s s1"
    "\<And>q k. pset_find (adset s1) q k = (if (q, k) = (own, m) \<and> \<not> mi_transient (M m) then None else pset_find (adset s) q k)"
    "\<And>k. qentries s1 k = qentries s k @ (if k = m \<and> delivered M own s m then [QueueEntry qid] else [])"
    "map_of (messageMap s1) = (if delivered M own s m then (map_of (messageMap s))(m \<mapsto> restored M m) else map_of (messageMap s))"
    "transientMsg s1 = transientMsg s @ (if mi_transient (M m) then [m] else [])"
    "asyncAcceptedMsg s1 = asyncAcceptedMsg s @ (if taken M own s m then [m] else [])"
    "length (dequeue_completed_async s1) \<le> length (dequeue_completed_async s) + 1"
    "maxRid s1 = (if mi_transient (M m) then maxRid s else max m (maxRid s))"
    by (rule decode_message_spec[OF r own ok, where acc = acc and qid = qid and m = m]) (rule that)
  have "decoded M own qid s [(m, d)] s1"
    unfolding decoded_def using s1(2-9) by (auto simp: s1(10) max_def)
  with s1(1) show ?thesis by blast
qed

lemma decoded_Cons:
  assumes a: "decoded M own qid s [x] s1" and b: "decoded M own qid s1 xs s'" and out: "pset_find (adset s) own (fst x) \<noteq> None \<Longrightarrow> fst x \<notin> fst ` set xs"
  shows "decoded M own qid s (x # xs) s'"
proof -
  note a = decodedD[OF a] and b = decodedD[OF b]
  have del: "k \<in> fst ` set xs \<Longrightarrow> delivered M own s1 k \<longleftrightarrow> delivered M own s k" and tak: "k \<in> fst ` set xs \<Longrightarrow> taken M own s1 k \<longleftrightarrow> taken M own s k" for k
    using a(3)[of own k] out by (cases "k = fst x"; cases "pset_find (adset s) own (fst x) = None"; simp add: delivered_def taken_def)+
  show ?thesis
    unfolding decoded_def
  proof (intro conjI allI)
    show "same_async s s'" using a(2) b(2) by (simp add: same_async_def)
    show "pset_find (adset s') q k = (if q = own \<and> k \<in> fst ` set (x # xs) \<and> \<not> mi_transient (M k) then None else pset_find (adset s) q k)" for q k
      using b(3)[of q k] a(3)[of q k] by auto
    show "set (qentries s' k) = set (qentries s k) \<union> (if k \<in> fst ` set (x # xs) \<and> delivered M own s k then {QueueEntry qid} else {})" for k
      using b(4)[of k] a(4)[of k] del[of k] by auto
    show "map_of (messageMap s') k = (if k \<in> fst ` set (x # xs) \<and> delivered M own s k then Some (restored M k) else map_of (messageMap s) k)" for k
      using b(5)[of k] a(5)[of k] del[of k] by (cases "k \<in> fst ` set xs"; cases "k = fst x") auto
    show "set (transientMsg s') = set (transientMsg s) \<union> {k \<in> fst ` set (x # xs). mi_transient (M k)}" using a(6) b(6) by auto
    show "set (asyncAcceptedMsg s') = set (asyncAcceptedMsg s) \<union> {k \<in> fst ` set (x # xs). taken M own s k}" using a(7) b(7) tak by auto
    show "\<forall>k \<in> fst ` set (x # xs). \<not> mi_transient (M k) \<longrightarrow> k \<le> maxRid s'" using a(10) b(9,10) by auto
    show "maxRid s' = maxRid s \<or> maxRid s' \<in> fst ` set (x # xs)" using a(11) b(11) by auto
  qed (use a(8,9) b(1,8,9) in auto)
qed

lemma decode_messages_decoded:
  assumes r: "readable (framing B) R M" and own: "queuePid J = own"
  shows "pset_ok (adset s) \<Longrightarrow> \<forall>x \<in> set xs. snd x = msg_image (framing B) M (fst x) \<Longrightarrow> met_once own s xs \<Longrightarrow>
    \<exists>s'. decode_messages B R False acc J qid xs s = Inr s' \<and> decoded M own qid s xs s'"
proof (induction xs arbitrary: s)
  case Nil
  then show ?case by (simp add: decoded_def same_async_def)
next
  case (Cons x xs)
  obtain m where x: "x = (m, msg_image (framing B) M m)" using Cons.prems(2) by (cases x) simp
  obtain s1 where s1: "decode_message B R False acc J qid x s = Inr s1" and d1: "decoded M own qid s [x] s1"
    using decode_one[OF r own Cons.prems(1), of acc qid m "snd x"] x by auto
  have "met_once own s1 xs"
    by (rule met_once_tail(2)[of own s m "snd x" xs]) (use Cons.prems(3) x decodedD(3)[OF d1, of own] in \<open>auto split: if_splits\<close>)
  then obtain s' where s': "decode_messages B R False acc J qid xs s1 = Inr s'" "decoded M own qid s1 xs s'"
    using Cons.IH[OF decodedD(1)[OF d1]] Cons.prems(2) by auto
  have "decoded M own qid s (x # xs) s'"
    by (rule decoded_Cons[OF d1 s'(2)]) (use met_once_tail(1)[of own s m "snd x" xs] Cons.prems(3) x in auto)
  then show ?case using s1 s'(1) x by simp
qed

section \<open>One queue\<close>

lemma log_mass_total:
  assumes "17 * length l < 2 ^ 31"
  shows "\<exists>x Aw'. log_mass_enqueue_complete l Aw = Inr (x, Aw')" and "\<exists>x Aw'. log_mass_dequeue_complete l Aw = Inr (x, Aw')"
    and "\<exists>x Aw'. log_mass_enqueue_dequeue_complete l Aw = Inr (x, Aw')"
proof -
  have "local_buff_size (17 * length l) = 17 * int (length l)"
    using local_buff_size_exact[OF assms] by simp
  then show e: "\<exists>x Aw'. log_mass_enqueue_complete l Aw = Inr (x, Aw')" and d: "\<exists>x Aw'. log_mass_dequeue_complete l Aw = Inr (x, Aw')" for Aw
    by (cases Aw; cases "each_enqueue_complete l (0, Aw)"; cases "each_dequeue_complete l (0, Aw)";
        simp add: log_mass_enqueue_complete_def log_mass_dequeue_complete_def enqCompleteSize_def deqCompleteSize_def Let_def case_prod_beta)+
  obtain x Aw1 where 1: "log_mass_enqueue_complete l Aw = Inr (x, Aw1)" using e by blast
  obtain y Aw2 where "log_mass_dequeue_complete l Aw1 = Inr (y, Aw2)" using d by blast
  with 1 show "\<exists>x Aw'. log_mass_enqueue_dequeue_complete l Aw = Inr (x, Aw')"
    by (simp add: log_mass_enqueue_dequeue_complete_def)
qed

lemma pset_list_iff: "pset_ok m \<Longrightarrow> keyed m \<Longrightarrow> v \<in> set (pset_list m) \<longleftrightarrow> pset_find m (queueId v) (msgId v) = Some v"
  by (auto simp: set_pset_list keyed_def opkey_def)

lemma opkey_pset_list: "pset_ok m \<Longrightarrow> keyed m \<Longrightarrow> (q, p) \<in> opkey ` set (pset_list m) \<longleftrightarrow> pset_find m q p \<noteq> None"
  by (force simp: set_pset_list keyed_def image_iff)

lemma pset_find_sub:
  assumes "pset_ok l" and "pset_ok l'" and "\<forall>(q, sub) \<in> set l'. \<exists>sub0. (q, sub0) \<in> set l \<and> set sub \<subseteq> set sub0"
    and "pset_find l' q m = Some v"
  shows "pset_find l q m = Some v"
proof -
  obtain sub where s: "map_of l' q = Some sub" "map_of sub m = Some v" using assms(4) by (auto simp: pset_find_Some_iff)
  then have "(q, sub) \<in> set l'" "(m, v) \<in> set sub" by (auto dest: map_of_SomeD)
  then obtain sub0 where s0: "(q, sub0) \<in> set l" "(m, v) \<in> set sub0" using assms(3) by blast
  have "smap_ok l" "smap_ok sub0" using assms(1) s0(1) by (auto simp: pset_ok_def)
  with s0 show ?thesis by (auto simp: pset_find_Some_iff set_smap_iff)
qed

lemma scan_pendings_spec:
  assumes ok: "pset_ok ae" "keyed ae" "pset_ok (adset s)" and sc: "\<forall>pae \<in> set (pset_list ae). scannable B J stored pae"
    and lg: "aologger P \<noteq> None"
  obtains ae' s1 P' where "scan_pendings B J ae s P = (Inr (ae', s1), P')" "logged P P'" "same_maps s s1" "pset_ok ae'" "pset_ok (adset s1)"
    "\<And>q m. pset_find (adset s1) q m = (if pset_find ae q m \<noteq> None then None else pset_find (adset s) q m)"
    "\<And>q m v. pset_find ae' q m = Some v \<Longrightarrow> pset_find ae q m = Some v \<and> pset_find (adset s) q m = None \<and> \<not> enq_transient v"
    "\<And>q m v. pset_find ae q m = Some v \<Longrightarrow> pset_find (adset s) q m = None \<Longrightarrow> \<not> enq_transient v \<Longrightarrow>
       pset_find ae' q m = Some v \<or> q = queuePid J \<and> stored m"
    "recovered s1 = recovered s @ map enq_data (filter (\<lambda>pae. queueId pae = queuePid J) (pset_list ae'))"
    "length (useless_async s1) + length (transient_async s1) \<le> length (useless_async s) + length (transient_async s) + length (pset_list ae)"
    "length (pset_list ae') \<le> length (pset_list ae)"
proof -
  let ?r = "scan_list stored (queuePid J) (pset_list ae) s"
  obtain ae' P' where l: "scan_pendings B J ae s P = (Inr (ae', snd ?r), P')" "logged P P'" "pset_list ae' = fst ?r" "pset_ok ae'"
    "\<forall>(q, sub) \<in> set ae'. \<exists>sub0. (q, sub0) \<in> set ae \<and> set sub \<subseteq> set sub0"
    using scan_pendings_list[OF sc lg, of s] ok(1) by blast
  obtain s1 where r: "?r = (pset_list ae', s1)" using l(3) by (metis prod.collapse)
  have keyed': "keyed ae'" using ok(2) pset_find_sub[OF ok(1) l(4,5)] unfolding keyed_def by blast
  note sub = pset_find_sub[OF ok(1) l(4,5)]
  note spec = scan_list_spec[OF ok(3) distinct_opkeys[OF ok(1,2)] r]
  note fr = scan_list_frame[OF r]
  have D: "pset_find (adset s1) q m = (if pset_find ae q m \<noteq> None then None else pset_find (adset s) q m)" for q m
    using spec opkey_pset_list[OF ok(1,2), of q m] by simp
  have key: "queueId v = q" "msgId v = m" if "pset_find ae q m = Some v" for q m v
    using that ok(2) by (auto simp: keyed_def opkey_def)
  have kept: "pset_find ae q m = Some v \<and> pset_find (adset s) q m = None \<and> \<not> enq_transient v" if "pset_find ae' q m = Some v" for q m v
  proof -
    have a: "pset_find ae q m = Some v" by (rule sub[OF that])
    have "v \<in> set (pset_list ae')" using pset_list_iff[OF l(4) keyed', of v] that key[OF a] by simp
    then show ?thesis using spec a key[OF a] by auto
  qed
  have drop: "pset_find ae' q m = Some v \<or> q = queuePid J \<and> stored m"
    if "pset_find ae q m = Some v" "pset_find (adset s) q m = None" "\<not> enq_transient v" for q m v
  proof -
    have "v \<in> set (pset_list ae)" using pset_list_iff[OF ok(1,2), of v] that(1) key[OF that(1)] by simp
    then have "v \<in> set (pset_list ae') \<or> queueId v = queuePid J \<and> stored (msgId v)"
      using spec that(2,3) key[OF that(1)] by auto
    then show ?thesis using pset_list_iff[OF l(4) keyed', of v] key[OF that(1)] by auto
  qed
  have "set (pset_list ae') \<subseteq> set (pset_list ae)" using spec by auto
  moreover have "distinct (pset_list ae')" "distinct (pset_list ae)"
    using distinct_opkeys[OF l(4) keyed'] distinct_opkeys[OF ok(1,2)] by (simp_all add: distinct_map)
  ultimately have len: "length (pset_list ae') \<le> length (pset_list ae)"
    by (metis card_mono distinct_card finite_set)
  have e: "scan_pendings B J ae s P = (Inr (ae', s1), P')" using l(1) r by simp
  show thesis
    by (rule that[OF e l(2) _ l(4) _ D kept drop _ _ len]) (use spec fr in auto)
qed

text \<open>The pending enqueues are those of the messages \<open>M\<close> describes; a queue has a journal that
  opens, with ids that fit the window of the key comparison, and few enough entries for
  the batches of completions.\<close>

definition pending_ok :: "wire \<Rightarrow> (u64 \<Rightarrow> message_info) \<Rightarrow> PendingEnqueueSet \<Rightarrow> bool" where
  "pending_ok f M ae \<longleftrightarrow> pset_ok ae \<and> keyed ae \<and>
     (\<forall>q m v. pset_find ae q m = Some v \<longrightarrow> enq_transient v = mi_transient (M m) \<and>
        unat (enq_size v) \<le> length (enq_buff v) \<and> take (unat (enq_size v)) (enq_buff v) = msg_image f M m)"

definition queue_at ::
    "('db, 'mdb) bdb \<Rightarrow> ('db \<Rightarrow> u64 \<Rightarrow> bytes option) \<Rightarrow> (u64 \<Rightarrow> message_info) \<Rightarrow> ('db, 'mdb) provider \<Rightarrow> PendingEnqueueSet \<Rightarrow>
     pqueue \<Rightarrow> nat \<Rightarrow> 'db journal \<Rightarrow> bool" where
  "queue_at B view M P ae q a J \<longleftrightarrow> externalQueueStore q = Some a \<and> a < length (jheap P) \<and>
     (\<exists>J0. jheap P ! a = Some J0 \<and> init_message_db (msg_api B) J0 = Inr J) \<and> jinv view J \<and> queuePid J = persistenceId q \<and>
     transientList J = [] \<and> acceptedList J = [] \<and>
     key_window (dom (jview view J) \<union> {m. pset_find ae (persistenceId q) m \<noteq> None}) \<and>
     (\<forall>m v. jview view J m = Some v \<longrightarrow> v = msg_image (framing B) M m) \<and>
     17 * (card (dom (jview view J)) + length (pset_list ae)) < 2 ^ 31"

text \<open>Whether a message of a queue is recovered, from its being in the database, a pending dequeue
  and a pending enqueue of it.\<close>

definition live :: "(u64 \<Rightarrow> message_info) \<Rightarrow> bool \<Rightarrow> bool \<Rightarrow> bool \<Rightarrow> u64 \<Rightarrow> bool" where
  "live M db d e m \<longleftrightarrow> \<not> mi_transient (M m) \<and> (if d then db \<and> e else db \<or> e)"

lemma recover_unopened:
  assumes "bdb_laws bt_compare_func api view" and "init_message_db api J0 = Inr J" and "jinv view J"
  obtains ms where "recoverMessages api [] J0 = Inr (ms, J)" "distinct (map fst ms)" "map_of ms = jview view J"
proof -
  have "init_message_db api J = Inr J" using assms(3) by (simp add: init_message_db_def jinv_def)
  then have "recoverMessages api [] J0 = recoverMessages api [] J" using assms(2) by (simp add: recoverMessages_def)
  with recover_every_message[OF assms(1,3), of "[]"] that show thesis by auto
qed

lemma pending_scannable:
  assumes "bdb_laws bt_compare_func (msg_api B) view" and "queue_at B view M P ae q a J" and "pending_ok f M ae"
  shows "\<forall>pae \<in> set (pset_list ae). scannable B J (\<lambda>m. jview view J m \<noteq> None) pae"
proof
  fix pae
  assume "pae \<in> set (pset_list ae)"
  then have f: "pset_find ae (queueId pae) (msgId pae) = Some pae" using assms(3) pset_list_iff unfolding pending_ok_def by blast
  then have len: "unat (enq_size pae) \<le> length (enq_buff pae)" using assms(3) unfolding pending_ok_def by blast
  have "is_enqueued (msg_api B) (msgId pae) J = Inr (jview view J (msgId pae) \<noteq> None)" if "queueId pae = queuePid J"
  proof (rule is_enqueued_view[OF assms(1)])
    show "jinv view J" using assms(2) by (simp add: queue_at_def)
    show "key_window (insert (msgId pae) (dom (jview view J)))"
      by (rule key_window_subset[of "dom (jview view J) \<union> {m. pset_find ae (persistenceId q) m \<noteq> None}"])
        (use assms(2) f that in \<open>auto simp: queue_at_def\<close>)
  qed
  with len show "scannable B J (\<lambda>m. jview view J m \<noteq> None) pae" by (simp add: scannable_def)
qed

lemma enq_data_image: "pending_ok f M ae \<Longrightarrow> pset_find ae q m = Some v \<Longrightarrow> enq_data v = (m, msg_image f M m)"
  by (auto simp: pending_ok_def enq_data_def keyed_def opkey_def)

lemma met_once_recovered:
  assumes "distinct (map fst ms)" and "\<And>m. pset_find (adset s) own m \<noteq> None \<Longrightarrow> m \<notin> fst ` set ex"
  shows "met_once own s (ms @ ex)"
proof -
  have "length (filter (\<lambda>x. fst x = m) (ms @ ex)) \<le> 1" if "pset_find (adset s) own m \<noteq> None" for m
  proof -
    have "filter (\<lambda>x. fst x = m) ex = []" using assms(2)[OF that] by (auto simp: filter_empty_conv)
    moreover have "length (filter (\<lambda>x. fst x = m) ms) \<le> 1"
      using assms(1) by (induction ms) (auto simp: filter_empty_conv image_iff)
    ultimately show ?thesis by simp
  qed
  then show ?thesis by (simp add: met_once_def)
qed

text \<open>The state the two passes leave, for a queue with the messages \<open>db\<close> in its databases.\<close>

definition passed ::
    "(u64 \<Rightarrow> message_info) \<Rightarrow> wire \<Rightarrow> u64 \<Rightarrow> (u64 \<Rightarrow> bytes option) \<Rightarrow> rstate \<Rightarrow> rstate \<Rightarrow> bool" where
  "passed M f own db s s' \<longleftrightarrow> pset_ok (adset s') \<and> pending_ok f M (aeset s') \<and>
     (\<forall>q m v. pset_find (aeset s') q m = Some v \<longrightarrow> pset_find (aeset s) q m = Some v) \<and>
     (\<forall>q m. pset_find (aeset s') q m \<noteq> None \<longrightarrow> pset_find (adset s) q m = None \<and> \<not> mi_transient (M m)) \<and>
     (\<forall>q m. pset_find (aeset s) q m \<noteq> None \<longrightarrow> pset_find (adset s) q m = None \<longrightarrow> \<not> mi_transient (M m) \<longrightarrow>
        pset_find (aeset s') q m \<noteq> None \<or> q = own \<and> db m \<noteq> None) \<and>
     (\<forall>q m. pset_find (adset s') q m =
        (if pset_find (aeset s) q m \<noteq> None \<or> q = own \<and> \<not> mi_transient (M m) \<and> db m \<noteq> None then None else pset_find (adset s) q m)) \<and>
     (\<forall>m. set (qentries s' m) = set (qentries s m) \<union>
        (if live M (db m \<noteq> None) (pset_find (adset s) own m \<noteq> None) (pset_find (aeset s) own m \<noteq> None) m then {QueueEntry own} else {})) \<and>
     (\<forall>m. map_of (messageMap s') m =
        (if live M (db m \<noteq> None) (pset_find (adset s) own m \<noteq> None) (pset_find (aeset s) own m \<noteq> None) m
         then Some (restored M m) else map_of (messageMap s) m)) \<and>
     length (pset_list (aeset s')) \<le> length (pset_list (aeset s)) \<and>
     (\<forall>m. live M (db m \<noteq> None) (pset_find (adset s) own m \<noteq> None) (pset_find (aeset s) own m \<noteq> None) m \<longrightarrow> m \<le> maxRid s') \<and>
     (maxRid s' = 0 \<or> db (maxRid s') \<noteq> None \<or> pset_find (aeset s) own (maxRid s') \<noteq> None)"

lemma recovered_ids:
  assumes "map_of ms = db" and "pset_ok ae'" and "keyed ae'"
  shows "fst ` set (ms @ map enq_data (filter (\<lambda>pae. queueId pae = own) (pset_list ae'))) = dom db \<union> {m. pset_find ae' own m \<noteq> None}"
proof -
  have "fst ` enq_data ` {v \<in> set (pset_list ae'). queueId v = own} = {m. pset_find ae' own m \<noteq> None}"
  proof (rule set_eqI)
    fix m
    have "m \<in> fst ` enq_data ` {v \<in> set (pset_list ae'). queueId v = own} \<longleftrightarrow> (own, m) \<in> opkey ` set (pset_list ae')"
      by (force simp: enq_data_def opkey_def image_iff)
    then show "m \<in> fst ` enq_data ` {v \<in> set (pset_list ae'). queueId v = own} \<longleftrightarrow> m \<in> {m. pset_find ae' own m \<noteq> None}"
      using opkey_pset_list[OF assms(2,3)] by simp
  qed
  moreover have "fst ` set ms = dom db" using assms(1) dom_map_of_conv_image_fst[of ms] by simp
  ultimately show ?thesis by (simp add: image_Un)
qed

lemma live_cases:
  "(e \<Longrightarrow> \<not> d \<Longrightarrow> \<not> t \<Longrightarrow> e' \<or> db) \<Longrightarrow> (e' \<Longrightarrow> e \<and> \<not> d \<and> \<not> t) \<Longrightarrow> d1 = (\<not> e \<and> d) \<Longrightarrow>
   ((db \<or> e') \<and> \<not> t \<and> \<not> d1) = (\<not> t \<and> (if d then db \<and> e else db \<or> e))"
  by auto

text \<open>What the pass over the pending enqueues leaves for the pass over the messages: the entries \<open>ae'\<close> still
  to be done, the pending dequeues without those that met an enqueue, and the messages of the
  databases followed by the pending ones of this queue.\<close>

definition scanned ::
    "(u64 \<Rightarrow> message_info) \<Rightarrow> wire \<Rightarrow> u64 \<Rightarrow> (u64 \<Rightarrow> bytes option) \<Rightarrow> (u64 \<times> bytes) list \<Rightarrow> PendingDequeueSet \<Rightarrow> PendingEnqueueSet \<Rightarrow>
     PendingEnqueueSet \<Rightarrow> rstate \<Rightarrow> bool" where
  "scanned M f own db ms ad ae ae' s \<longleftrightarrow> pset_ok (adset s) \<and> pending_ok f M ae' \<and>
     recovered s = ms @ map enq_data (filter (\<lambda>pae. queueId pae = own) (pset_list ae')) \<and> length (pset_list ae') \<le> length (pset_list ae) \<and>
     (\<forall>q m v. pset_find ae' q m = Some v \<longrightarrow> pset_find ae q m = Some v) \<and>
     (\<forall>q m. pset_find ae' q m \<noteq> None \<longrightarrow> pset_find ae q m \<noteq> None \<and> pset_find ad q m = None \<and> \<not> mi_transient (M m)) \<and>
     (\<forall>q m. pset_find ae q m \<noteq> None \<longrightarrow> pset_find ad q m = None \<longrightarrow> \<not> mi_transient (M m) \<longrightarrow> pset_find ae' q m \<noteq> None \<or> q = own \<and> db m \<noteq> None) \<and>
     (\<forall>q m. pset_find (adset s) q m = (if pset_find ae q m \<noteq> None then None else pset_find ad q m))"

lemma scannedD:
  assumes "scanned M f own db ms ad ae ae' s"
  shows "pset_ok (adset s)" "pending_ok f M ae'" "pset_ok ae'" "keyed ae'"
    "recovered s = ms @ map enq_data (filter (\<lambda>pae. queueId pae = own) (pset_list ae'))" "length (pset_list ae') \<le> length (pset_list ae)"
    "pset_find ae' q m = Some v \<Longrightarrow> pset_find ae q m = Some v"
    "pset_find ae' q m \<noteq> None \<Longrightarrow> pset_find ae q m \<noteq> None \<and> pset_find ad q m = None \<and> \<not> mi_transient (M m)"
    "pset_find ae q m \<noteq> None \<Longrightarrow> pset_find ad q m = None \<Longrightarrow> \<not> mi_transient (M m) \<Longrightarrow> pset_find ae' q m \<noteq> None \<or> q = own \<and> db m \<noteq> None"
    "pset_find (adset s) q m = (if pset_find ae q m \<noteq> None then None else pset_find ad q m)"
  using assms unfolding scanned_def pending_ok_def by blast+

lemma scan_pass:
  assumes laws: "bdb_laws bt_compare_func (msg_api B) view" and q: "queue_at B view M P0 ae qu a J"
    and pe: "pending_ok (framing B) M ae" and ad: "pset_ok (adset s)" and lg: "aologger P \<noteq> None"
  obtains ae' s1 P' where "scan_pendings B J ae s P = (Inr (ae', s1), P')" "logged P P'" "same_maps s s1"
    "scanned M (framing B) (persistenceId qu) (jview view J) (recovered s) (adset s) ae ae' s1"
    "length (useless_async s1) + length (transient_async s1) \<le> length (useless_async s) + length (transient_async s) + length (pset_list ae)"
proof -
  have own: "queuePid J = persistenceId qu" using q by (simp add: queue_at_def)
  have aeok: "pset_ok ae" "keyed ae" using pe by (simp_all add: pending_ok_def)
  obtain ae' s1 P' where 1: "scan_pendings B J ae s P = (Inr (ae', s1), P')" "logged P P'" "same_maps s s1" "pset_ok ae'" "pset_ok (adset s1)"
    "\<And>q m. pset_find (adset s1) q m = (if pset_find ae q m \<noteq> None then None else pset_find (adset s) q m)"
    "\<And>q m v. pset_find ae' q m = Some v \<Longrightarrow> pset_find ae q m = Some v \<and> pset_find (adset s) q m = None \<and> \<not> enq_transient v"
    "\<And>q m v. pset_find ae q m = Some v \<Longrightarrow> pset_find (adset s) q m = None \<Longrightarrow> \<not> enq_transient v \<Longrightarrow>
       pset_find ae' q m = Some v \<or> q = queuePid J \<and> jview view J m \<noteq> None"
    "recovered s1 = recovered s @ map enq_data (filter (\<lambda>pae. queueId pae = queuePid J) (pset_list ae'))"
    "length (useless_async s1) + length (transient_async s1) \<le> length (useless_async s) + length (transient_async s) + length (pset_list ae)"
    "length (pset_list ae') \<le> length (pset_list ae)"
    by (rule scan_pendings_spec[OF aeok ad pending_scannable[OF laws q pe] lg]) (rule that)
  have "keyed ae'" using 1(7) aeok(2) unfolding keyed_def by blast
  then have "pending_ok (framing B) M ae'" using 1(4,7) pe unfolding pending_ok_def by blast
  moreover have "pset_find ae q m \<noteq> None \<and> pset_find (adset s) q m = None \<and> \<not> mi_transient (M m)" if "pset_find ae' q m \<noteq> None" for q m
    using 1(7)[of q m] that pe unfolding pending_ok_def by (cases "pset_find ae' q m") auto
  moreover have "pset_find ae' q m \<noteq> None \<or> q = persistenceId qu \<and> jview view J m \<noteq> None"
    if "pset_find ae q m \<noteq> None" "pset_find (adset s) q m = None" "\<not> mi_transient (M m)" for q m
    using 1(8)[of q m] that pe own unfolding pending_ok_def by (cases "pset_find ae q m") auto
  moreover have "pset_find ae' q m = Some v \<Longrightarrow> pset_find ae q m = Some v" for q m v using 1(7) by blast
  ultimately have "scanned M (framing B) (persistenceId qu) (jview view J) (recovered s) (adset s) ae ae' s1"
    using 1(5,6,9,11) own unfolding scanned_def by simp
  with 1(1-3,10) show thesis by (intro that[of ae' s1 P'])
qed

text \<open>The messages then met: their ids, their bytes, none with a pending dequeue met twice, and which of them
  the broker gets.\<close>

lemma scanned_ids:
  "scanned M f own db ms ad ae ae' s \<Longrightarrow> map_of ms = db \<Longrightarrow> fst ` set (recovered s) = dom db \<union> {m. pset_find ae' own m \<noteq> None}"
  using recovered_ids[of ms db ae' own] by (simp add: scannedD(3-5))

lemma scanned_images:
  assumes sc: "scanned M f own db ms ad ae ae' s" and ms: "distinct (map fst ms)" "map_of ms = db"
    and img: "\<And>m v. db m = Some v \<Longrightarrow> v = msg_image f M m" and x: "x \<in> set (recovered s)"
  shows "snd x = msg_image f M (fst x)"
proof -
  from x consider "x \<in> set ms" | v where "x = enq_data v" "v \<in> set (pset_list ae')" unfolding scannedD(5)[OF sc] by auto
  then show ?thesis
  proof cases
    case 1
    then have "db (fst x) = Some (snd x)" using ms by (metis map_of_is_SomeI prod.collapse)
    then show ?thesis by (rule img)
  next
    case 2
    then have "pset_find ae' (queueId v) (msgId v) = Some v" using pset_list_iff[OF scannedD(3)[OF sc] scannedD(4)[OF sc]] by blast
    then show ?thesis using enq_data_image[OF scannedD(2)[OF sc]] 2(1) by simp
  qed
qed

lemma scanned_met_once:
  assumes sc: "scanned M f own db ms ad ae ae' s" and ms: "distinct (map fst ms)"
  shows "met_once own (s\<lparr>aeset := ae'\<rparr>) (recovered s)"
  unfolding scannedD(5)[OF sc]
proof (rule met_once_recovered[OF ms])
  fix m
  assume "pset_find (adset (s\<lparr>aeset := ae'\<rparr>)) own m \<noteq> None"
  then have "pset_find ae own m = None" using scannedD(10)[OF sc, of own m] by (auto split: if_splits)
  then have "pset_find ae' own m = None" using scannedD(8)[OF sc, of own m] by blast
  then have "(own, m) \<notin> opkey ` set (pset_list ae')" using opkey_pset_list[OF scannedD(3)[OF sc] scannedD(4)[OF sc]] by simp
  then show "m \<notin> fst ` set (map enq_data (filter (\<lambda>pae. queueId pae = own) (pset_list ae')))"
    by (force simp: enq_data_def opkey_def image_iff)
qed

lemma scanned_live:
  assumes sc: "scanned M f own db ms ad ae ae' s" and ms: "map_of ms = db"
  shows "m \<in> fst ` set (recovered s) \<and> delivered M own (s\<lparr>aeset := ae'\<rparr>) m \<longleftrightarrow>
    live M (db m \<noteq> None) (pset_find ad own m \<noteq> None) (pset_find ae own m \<noteq> None) m"
proof -
  have d: "(pset_find (adset s) own m \<noteq> None) = (\<not> pset_find ae own m \<noteq> None \<and> pset_find ad own m \<noteq> None)"
    using scannedD(10)[OF sc, of own m] by simp
  have "((db m \<noteq> None \<or> pset_find ae' own m \<noteq> None) \<and> \<not> mi_transient (M m) \<and> \<not> pset_find (adset s) own m \<noteq> None) =
    (\<not> mi_transient (M m) \<and> (if pset_find ad own m \<noteq> None then db m \<noteq> None \<and> pset_find ae own m \<noteq> None
       else db m \<noteq> None \<or> pset_find ae own m \<noteq> None))"
    by (rule live_cases[OF _ _ d]) (use scannedD(8,9)[OF sc, of own m] in \<open>simp_all del: not_None_eq\<close>)
  then show ?thesis by (simp add: scanned_ids[OF sc ms] delivered_def live_def domIff del: not_None_eq)
qed

text \<open>Both passes together.\<close>

lemma passed_both:
  assumes sc: "scanned M f own db ms ad ae ae' s1" and ms: "map_of ms = db" and d: "decoded M own own (s1\<lparr>aeset := ae'\<rparr>) (recovered s1) s2"
    and s0: "aeset s0 = ae" "adset s0 = ad" "messageMap s1 = messageMap s0" "messageQueueMap s1 = messageQueueMap s0" "maxRid s1 = 0"
  shows "passed M f own db s0 s2"
proof -
  note D = scannedD[OF sc] and liv = scanned_live[OF sc ms] and r = decodedD[OF d]
  note [simp] = scanned_ids[OF sc ms]
  have ae: "aeset s2 = ae'" using r(2) by (simp add: same_async_def)
  have ent: "qentries (s1\<lparr>aeset := ae'\<rparr>) m = qentries s0 m" for m using s0(4) by (simp add: qentries_def)
  show ?thesis
    unfolding passed_def ae s0(1,2)
  proof (intro conjI allI impI)
    show "pset_find ae q m = Some v" if "pset_find ae' q m = Some v" for q m v using D(7)[OF that] .
    show "pset_find ad q m = None" "\<not> mi_transient (M m)" if "pset_find ae' q m \<noteq> None" for q m using D(8)[OF that] by blast+
    show "pset_find ae' q m \<noteq> None \<or> q = own \<and> db m \<noteq> None"
      if "pset_find ae q m \<noteq> None" "pset_find ad q m = None" "\<not> mi_transient (M m)" for q m using D(9)[OF that] .
    show "pset_find (adset s2) q m = (if pset_find ae q m \<noteq> None \<or> q = own \<and> \<not> mi_transient (M m) \<and> db m \<noteq> None
        then None else pset_find ad q m)" for q m
      using r(3)[of q m] D(10)[of q m] D(8)[of own m] by (auto simp: domIff)
    show "set (qentries s2 m) = set (qentries s0 m) \<union>
        (if live M (db m \<noteq> None) (pset_find ad own m \<noteq> None) (pset_find ae own m \<noteq> None) m then {QueueEntry own} else {})" for m
      using r(4)[of m] ent[of m] unfolding liv by simp
    show "map_of (messageMap s2) m = (if live M (db m \<noteq> None) (pset_find ad own m \<noteq> None) (pset_find ae own m \<noteq> None) m
         then Some (restored M m) else map_of (messageMap s0) m)" for m
      using r(5)[of m] s0(3) unfolding liv by simp
    show "m \<le> maxRid s2" if "live M (db m \<noteq> None) (pset_find ad own m \<noteq> None) (pset_find ae own m \<noteq> None) m" for m
      using that liv[of m] r(10) by (auto simp: live_def)
    show "maxRid s2 = 0 \<or> db (maxRid s2) \<noteq> None \<or> pset_find ae own (maxRid s2) \<noteq> None"
      using r(11) s0(5) D(8)[of own "maxRid s2"] by (auto simp: domIff)
  qed (use r(1) D(2,6) in simp_all)
qed

lemma passes_spec:
  assumes laws: "bdb_laws bt_compare_func (msg_api B) view" and rd: "readable (framing B) R M"
    and q: "queue_at B view M P0 ae qu a J" and pe: "pending_ok (framing B) M ae" and ad: "pset_ok ad"
    and ms: "distinct (map fst ms)" "map_of ms = jview view J" and lg: "aologger P \<noteq> None"
    and s0_def: "s0 = rstate_start mm mq fm ad ae"
  obtains ae' s1 s2 P' where "scan_pendings B J ae (s0\<lparr>recovered := ms\<rparr>) P = (Inr (ae', s1), P')" "logged P P'"
    "decode_messages B R False acc J (persistenceId qu) (recovered s1) (s1\<lparr>aeset := ae'\<rparr>) = Inr s2"
    "passed M (framing B) (persistenceId qu) (jview view J) s0 s2" "innerAcceptedMsg s2 = []"
    "set (transientMsg s2) = {m \<in> dom (jview view J). mi_transient (M m)}"
    "set (asyncAcceptedMsg s2) =
      {m \<in> dom (jview view J). \<not> mi_transient (M m) \<and> pset_find ad (persistenceId qu) m \<noteq> None \<and> pset_find ae (persistenceId qu) m = None}"
    "length (useless_async s2) + length (transient_async s2) \<le> length (pset_list ae)"
    "length (dequeue_completed_async s2) \<le> card (dom (jview view J)) + length (pset_list ae)"
proof -
  let ?own = "persistenceId qu" and ?db = "jview view J" and ?s = "s0\<lparr>recovered := ms\<rparr>" and ?f = "framing B"
  have own: "queuePid J = ?own" and img: "?db m = Some v \<Longrightarrow> v = msg_image ?f M m" for m v using q by (simp_all add: queue_at_def)
  have A: "adset ?s = ad" "recovered ?s = ms" by (simp_all add: s0_def rstate_start_def)
  obtain ae' s1 P' where 1: "scan_pendings B J ae ?s P = (Inr (ae', s1), P')" "logged P P'" "same_maps ?s s1"
    "scanned M ?f ?own ?db (recovered ?s) (adset ?s) ae ae' s1"
    "length (useless_async s1) + length (transient_async s1) \<le> length (useless_async ?s) + length (transient_async ?s) + length (pset_list ae)"
    by (rule scan_pass[OF laws q pe _ lg, of ?s]) (simp add: A ad, rule that)
  have sc: "scanned M ?f ?own ?db ms ad ae ae' s1" using 1(4) unfolding A .
  note ids = scanned_ids[OF sc ms(2)]
  obtain s2 where s2: "decode_messages B R False acc J ?own (recovered s1) (s1\<lparr>aeset := ae'\<rparr>) = Inr s2"
    and d: "decoded M ?own ?own (s1\<lparr>aeset := ae'\<rparr>) (recovered s1) s2"
    using decode_messages_decoded[OF rd own, of "s1\<lparr>aeset := ae'\<rparr>" "recovered s1" acc ?own] scanned_images[OF sc ms img] scanned_met_once[OF sc ms(1)]
      scannedD(1)[OF sc] by auto
  have q0: "messageMap s1 = messageMap s0" "messageQueueMap s1 = messageQueueMap s0" "aeset s0 = ae" "adset s0 = ad" "transientMsg s1 = []"
      "asyncAcceptedMsg s1 = []" "innerAcceptedMsg s1 = []" "dequeue_completed_async s1 = []" "maxRid s1 = 0"
    using 1(3) by (simp_all add: same_maps_def s0_def rstate_start_def)
  note r = decodedD[OF d]
  have a2: "innerAcceptedMsg s2 = []" "useless_async s2 = useless_async s1" "transient_async s2 = transient_async s1"
    using r(2) q0 by (simp_all add: same_async_def)
  have "passed M ?f ?own ?db s0 s2" by (rule passed_both[OF sc ms(2) d q0(3,4,1,2,9)])
  moreover have "set (transientMsg s2) = {m \<in> dom ?db. mi_transient (M m)}"
    using r(6) q0(5) scannedD(8)[OF sc, of ?own] by (auto simp: ids)
  moreover have "set (asyncAcceptedMsg s2) = {m \<in> dom ?db. \<not> mi_transient (M m) \<and> pset_find ad ?own m \<noteq> None \<and> pset_find ae ?own m = None}"
    using r(7) q0(6) scannedD(8,10)[OF sc, of ?own] by (auto simp: ids taken_def split: if_splits)
  moreover have "length (recovered s1) \<le> card (dom ?db) + length (pset_list ae)"
  proof -
    have "length ms = card (dom ?db)" using ms by (metis distinct_card dom_map_of_conv_image_fst length_map set_map)
    then show ?thesis using scannedD(6)[OF sc] le_trans[OF length_filter_le] by (simp add: scannedD(5)[OF sc])
  qed
  moreover have "length (useless_async s2) + length (transient_async s2) \<le> length (pset_list ae)"
    using 1(5) a2 by (simp add: s0_def rstate_start_def)
  moreover note 1(1,2) s2 r(8) a2(1) q0(8)
  ultimately show thesis by (intro that[of ae' s1 P' s2]) simp_all
qed

lemma logs_written:
  assumes "aologger P \<noteq> None" and "17 * length l1 < 2 ^ 31" and "17 * length l2 < 2 ^ 31" and "17 * length l3 < 2 ^ 31"
  shows "\<exists>P'. thenE (with_log (log_mass_enqueue_complete l1)) (thenE (with_log (log_mass_dequeue_complete l2))
    (thenE (with_log (log_mass_enqueue_dequeue_complete l3)) (retE s))) P = (Inr s, P') \<and> logged P P'"
proof -
  obtain x1 P1 where 1: "with_log (log_mass_enqueue_complete l1) P = (Inr x1, P1)" "logged P P1"
    using with_log_total[OF assms(1), of "log_mass_enqueue_complete l1"] log_mass_total(1)[OF assms(2)] by blast
  obtain x2 P2 where 2: "with_log (log_mass_dequeue_complete l2) P1 = (Inr x2, P2)" "logged P1 P2"
    using with_log_total[OF logged_aologger[OF 1(2)], of "log_mass_dequeue_complete l2"] log_mass_total(2)[OF assms(3)] by blast
  obtain x3 P3 where 3: "with_log (log_mass_enqueue_dequeue_complete l3) P2 = (Inr x3, P3)" "logged P2 P3"
    using with_log_total[OF logged_aologger[OF 2(2)], of "log_mass_enqueue_dequeue_complete l3"] log_mass_total(3)[OF assms(4)] by blast
  show ?thesis using 1 2 3 logged_trans[OF logged_trans[OF 1(2) 2(2)] 3(2)] by (simp add: comp_simps)
qed

lemma decodeAndRecoverMsg_spec:
  assumes laws: "bdb_laws bt_compare_func (msg_api B) view" and rd: "readable (framing B) R M"
    and q: "queue_at B view M P ae qu a J" and pe: "pending_ok (framing B) M ae" and ad: "pset_ok ad"
    and lg: "aologger P \<noteq> None" and fl: "\<not> enableAcceptRecoveryFlag (options P)"
    and s0: "s0 = rstate_start mm mq fm ad ae"
  obtains s' J' A w where
    "decodeAndRecoverMsg B R qu s0 P = (Inr s', P\<lparr>jheap := (jheap P)[a := Some J'], aologger := Some A, machine := w\<rparr>)"
    "passed M (framing B) (persistenceId qu) (jview view J) s0 s'" "jinv view J'" "jview view J' = jview view J" "queuePid J' = queuePid J"
    "set (transientList J') \<union> set (acceptedList J') = {m \<in> dom (jview view J). mi_transient (M m) \<or>
       pset_find ad (persistenceId qu) m \<noteq> None \<and> pset_find ae (persistenceId qu) m = None}"
proof -
  obtain J0 where J0: "externalQueueStore qu = Some a" "a < length (jheap P)" "jheap P ! a = Some J0" "init_message_db (msg_api B) J0 = Inr J"
    "jinv view J" "transientList J = []" "acceptedList J = []" using q by (auto simp: queue_at_def)
  obtain ms where ms: "recoverMessages (msg_api B) [] J0 = Inr (ms, J)" "distinct (map fst ms)" "map_of ms = jview view J"
    by (rule recover_unopened[OF laws J0(4,5)])
  let ?P1 = "P\<lparr>jheap := (jheap P)[a := Some J]\<rparr>"
  have lg1: "aologger ?P1 \<noteq> None" using lg by simp
  obtain ae' s1 s2 P2 where p: "scan_pendings B J ae (s0\<lparr>recovered := ms\<rparr>) ?P1 = (Inr (ae', s1), P2)" "logged ?P1 P2"
    "decode_messages B R False (acceptedFromMongo P) J (persistenceId qu) (recovered s1) (s1\<lparr>aeset := ae'\<rparr>) = Inr s2"
    "passed M (framing B) (persistenceId qu) (jview view J) s0 s2" "innerAcceptedMsg s2 = []"
    "set (transientMsg s2) = {m \<in> dom (jview view J). mi_transient (M m)}"
    "set (asyncAcceptedMsg s2) =
      {m \<in> dom (jview view J). \<not> mi_transient (M m) \<and> pset_find ad (persistenceId qu) m \<noteq> None \<and> pset_find ae (persistenceId qu) m = None}"
    "length (useless_async s2) + length (transient_async s2) \<le> length (pset_list ae)"
    "length (dequeue_completed_async s2) \<le> card (dom (jview view J)) + length (pset_list ae)"
    by (rule passes_spec[OF laws rd q pe ad ms(2,3) lg1 s0, where acc = "acceptedFromMongo P"]) (rule that)
  let ?J = "register_as_accepted (asyncAcceptedMsg s2) (register_as_accepted (innerAcceptedMsg s2) (register_as_transient (transientMsg s2) J))"
  obtain A w where P2: "P2 = ?P1\<lparr>aologger := Some A, machine := w\<rparr>" using p(2) unfolding logged_def by blast
  let ?P3 = "P2\<lparr>jheap := (jheap P2)[a := Some ?J]\<rparr>"
  have lg3: "aologger ?P3 \<noteq> None" using P2 by simp
  have n: "17 * (card (dom (jview view J)) + length (pset_list ae)) < 2 ^ 31" using q by (simp add: queue_at_def)
  obtain P4 where P4: "thenE (with_log (log_mass_enqueue_complete (transient_async s2))) (thenE (with_log (log_mass_dequeue_complete (dequeue_completed_async s2)))
    (thenE (with_log (log_mass_enqueue_dequeue_complete (useless_async s2))) (retE s2))) ?P3 = (Inr s2, P4)" "logged ?P3 P4"
    using logs_written[OF lg3, of "transient_async s2" "dequeue_completed_async s2" "useless_async s2" s2] p(8,9) n by auto
  obtain A' w' where P4': "P4 = ?P3\<lparr>aologger := Some A', machine := w'\<rparr>" using P4(2) unfolding logged_def by blast
  have "aeset s0 = ae" using s0 by (simp add: rstate_start_def)
  then have "decodeAndRecoverMsg B R qu s0 P = (Inr s2, P4)"
    using J0 ms(1) p(1,3) P2 P4(1) fl
    by (simp add: decodeAndRecoverMsg_def catchE_def bindE_def thenE_def handle_def deref_def liftE_def update_at_def modE_def retE_def getE_def)
  moreover have "P4 = P\<lparr>jheap := (jheap P)[a := Some ?J], aologger := Some A', machine := w'\<rparr>" using P4' P2 by simp
  moreover have "set (transientList ?J) \<union> set (acceptedList ?J) = {m \<in> dom (jview view J). mi_transient (M m) \<or>
       pset_find ad (persistenceId qu) m \<noteq> None \<and> pset_find ae (persistenceId qu) m = None}"
    using p(5-7) J0(6,7) by (auto simp: register_as_accepted_def register_as_transient_def)
  moreover have "jinv view ?J" "jview view ?J = jview view J" "queuePid ?J = queuePid J"
    using J0(5) by (simp_all add: register_as_accepted_def register_as_transient_def)
  ultimately show thesis using p(4) by (intro that[where s' = s2 and J' = ?J and A = A' and w = w']) simp_all
qed

end
