(* ===== verification/MessageRecovery.thy ===== *)
theory MessageRecovery
  imports MessagePasses
begin

text \<open>
  What the recovery of messages restores, over all queues: the messages handed to the
  broker, the state of the databases and of the pool afterwards, and the ids given out
  from then on.
\<close>

section \<open>All queues\<close>

text \<open>The parts of \<open>passed\<close>.\<close>

lemmas passed_adset = passed_def[THEN iffD1, THEN conjunct1, rule_format]
lemmas passed_aeset = passed_def[THEN iffD1, THEN conjunct2, THEN conjunct1, rule_format]
lemmas passed_sub = passed_def[THEN iffD1, THEN conjunct2, THEN conjunct2, THEN conjunct1, rule_format]
lemmas passed_kept = passed_def[THEN iffD1, THEN conjunct2, THEN conjunct2, THEN conjunct2, THEN conjunct1, rule_format]
lemmas passed_keeps = passed_def[THEN iffD1, THEN conjunct2, THEN conjunct2, THEN conjunct2, THEN conjunct2, THEN conjunct1, rule_format]
lemmas passed_find = passed_def[THEN iffD1, THEN conjunct2, THEN conjunct2, THEN conjunct2, THEN conjunct2, THEN conjunct2, THEN conjunct1, rule_format]
lemmas passed_entries = passed_def[THEN iffD1, THEN conjunct2, THEN conjunct2, THEN conjunct2, THEN conjunct2, THEN conjunct2, THEN conjunct2, THEN conjunct1, rule_format]
lemmas passed_map = passed_def[THEN iffD1, THEN conjunct2, THEN conjunct2, THEN conjunct2, THEN conjunct2, THEN conjunct2, THEN conjunct2, THEN conjunct2, THEN conjunct1, rule_format]
lemmas passed_length = passed_def[THEN iffD1, THEN conjunct2, THEN conjunct2, THEN conjunct2, THEN conjunct2, THEN conjunct2, THEN conjunct2, THEN conjunct2, THEN conjunct2, THEN conjunct1, rule_format]
lemmas passed_maxRid = passed_def[THEN iffD1, THEN conjunct2, THEN conjunct2, THEN conjunct2, THEN conjunct2, THEN conjunct2, THEN conjunct2, THEN conjunct2, THEN conjunct2, THEN conjunct2, THEN conjunct1, rule_format]
lemmas passed_maxRid_id = passed_def[THEN iffD1, THEN conjunct2, THEN conjunct2, THEN conjunct2, THEN conjunct2, THEN conjunct2, THEN conjunct2, THEN conjunct2, THEN conjunct2, THEN conjunct2, THEN conjunct2]

text \<open>The recovery of one queue does not change what is recovered of another.\<close>

lemma live_unchanged:
  "d1 = (\<not> e \<and> d) \<Longrightarrow> (e1 \<Longrightarrow> e) \<Longrightarrow> (e1 \<Longrightarrow> \<not> d) \<Longrightarrow> (e \<Longrightarrow> \<not> d \<Longrightarrow> \<not> mi_transient (M m) \<Longrightarrow> e1) \<Longrightarrow>
   live M x d1 e1 m = live M x d e m \<and> (mi_transient (M m) \<or> d1 \<and> \<not> e1 \<longleftrightarrow> mi_transient (M m) \<or> d \<and> \<not> e)"
  by (auto simp: live_def)

lemma live_passed:
  assumes "passed M f own db s s1" and "q \<noteq> own"
  shows "live M x (pset_find (adset s1) q m \<noteq> None) (pset_find (aeset s1) q m \<noteq> None) m =
         live M x (pset_find (adset s) q m \<noteq> None) (pset_find (aeset s) q m \<noteq> None) m \<and>
    (mi_transient (M m) \<or> pset_find (adset s1) q m \<noteq> None \<and> \<not> pset_find (aeset s1) q m \<noteq> None \<longleftrightarrow>
     mi_transient (M m) \<or> pset_find (adset s) q m \<noteq> None \<and> \<not> pset_find (aeset s) q m \<noteq> None)"
proof (rule live_unchanged)
  show "(pset_find (adset s1) q m \<noteq> None) = (\<not> pset_find (aeset s) q m \<noteq> None \<and> pset_find (adset s) q m \<noteq> None)"
    using passed_find[OF assms(1), of q m] assms(2) by simp
  show "pset_find (aeset s1) q m \<noteq> None \<Longrightarrow> pset_find (aeset s) q m \<noteq> None"
    using passed_sub[OF assms(1), of q m] by auto
  show "pset_find (aeset s1) q m \<noteq> None \<Longrightarrow> \<not> pset_find (adset s) q m \<noteq> None"
    using passed_kept[OF assms(1), of q m] by simp
  show "pset_find (aeset s) q m \<noteq> None \<Longrightarrow> \<not> pset_find (adset s) q m \<noteq> None \<Longrightarrow> \<not> mi_transient (M m) \<Longrightarrow> pset_find (aeset s1) q m \<noteq> None"
    using passed_keeps[OF assms(1), of q m] assms(2) by simp
qed

definition addr :: "pqueue \<Rightarrow> nat" where
  "addr q = the (externalQueueStore q)"

text \<open>The journal of a queue when its messages have been read, with what is to be discarded.\<close>

definition read_back ::
    "(u64 \<Rightarrow> message_info) \<Rightarrow> ('db \<Rightarrow> u64 \<Rightarrow> bytes option) \<Rightarrow> rstate \<Rightarrow> u64 \<Rightarrow> 'db journal \<Rightarrow> 'db journal \<Rightarrow> bool" where
  "read_back M view s q J J' \<longleftrightarrow> jinv view J' \<and> jview view J' = jview view J \<and> queuePid J' = q \<and>
     set (transientList J') \<union> set (acceptedList J') = {m \<in> dom (jview view J). mi_transient (M m) \<or>
       pset_find (adset s) q m \<noteq> None \<and> pset_find (aeset s) q m = None}"

definition all_read ::
    "(u64 \<Rightarrow> message_info) \<Rightarrow> wire \<Rightarrow> ('db \<Rightarrow> u64 \<Rightarrow> bytes option) \<Rightarrow> (u64 \<Rightarrow> 'db journal) \<Rightarrow> pqueue list \<Rightarrow> rstate \<Rightarrow> rstate \<Rightarrow> bool" where
  "all_read M f view js qs s s' \<longleftrightarrow> pset_ok (adset s') \<and> pending_ok f M (aeset s') \<and>
     length (pset_list (aeset s')) \<le> length (pset_list (aeset s)) \<and>
     (\<forall>q m v. pset_find (aeset s') q m = Some v \<longrightarrow> pset_find (aeset s) q m = Some v) \<and>
     (qs \<noteq> [] \<longrightarrow> (\<forall>q m. pset_find (aeset s') q m \<noteq> None \<longrightarrow> pset_find (adset s) q m = None \<and> \<not> mi_transient (M m))) \<and>
     (\<forall>q m. pset_find (aeset s) q m \<noteq> None \<longrightarrow> pset_find (adset s) q m = None \<longrightarrow> \<not> mi_transient (M m) \<longrightarrow>
        pset_find (aeset s') q m \<noteq> None \<or> q \<in> persistenceId ` set qs \<and> jview view (js q) m \<noteq> None) \<and>
     (\<forall>q m. pset_find (adset s') q m \<noteq> None \<longrightarrow> pset_find (adset s) q m \<noteq> None) \<and>
     (\<forall>m. set (qentries s' m) = set (qentries s m) \<union> {QueueEntry q | q. q \<in> persistenceId ` set qs \<and>
        live M (jview view (js q) m \<noteq> None) (pset_find (adset s) q m \<noteq> None) (pset_find (aeset s) q m \<noteq> None) m}) \<and>
     (\<forall>m. map_of (messageMap s') m = (if \<exists>q \<in> persistenceId ` set qs.
        live M (jview view (js q) m \<noteq> None) (pset_find (adset s) q m \<noteq> None) (pset_find (aeset s) q m \<noteq> None) m
        then Some (restored M m) else map_of (messageMap s) m))"

lemmas all_read_adset = all_read_def[THEN iffD1, THEN conjunct1, rule_format]
lemmas all_read_aeset = all_read_def[THEN iffD1, THEN conjunct2, THEN conjunct1, rule_format]
lemmas all_read_length = all_read_def[THEN iffD1, THEN conjunct2, THEN conjunct2, THEN conjunct1, rule_format]
lemmas all_read_sub = all_read_def[THEN iffD1, THEN conjunct2, THEN conjunct2, THEN conjunct2, THEN conjunct1, rule_format]
lemmas all_read_kept = all_read_def[THEN iffD1, THEN conjunct2, THEN conjunct2, THEN conjunct2, THEN conjunct2, THEN conjunct1, rule_format]
lemmas all_read_keeps = all_read_def[THEN iffD1, THEN conjunct2, THEN conjunct2, THEN conjunct2, THEN conjunct2, THEN conjunct2, THEN conjunct1, rule_format]
lemmas all_read_deq = all_read_def[THEN iffD1, THEN conjunct2, THEN conjunct2, THEN conjunct2, THEN conjunct2, THEN conjunct2, THEN conjunct2, THEN conjunct1, rule_format]
lemmas all_read_entries = all_read_def[THEN iffD1, THEN conjunct2, THEN conjunct2, THEN conjunct2, THEN conjunct2, THEN conjunct2, THEN conjunct2, THEN conjunct2, THEN conjunct1, rule_format]
lemmas all_read_map = all_read_def[THEN iffD1, THEN conjunct2, THEN conjunct2, THEN conjunct2, THEN conjunct2, THEN conjunct2, THEN conjunct2, THEN conjunct2, THEN conjunct2, rule_format]

lemma all_read_Nil: "pset_ok (adset s) \<Longrightarrow> pending_ok f M (aeset s) \<Longrightarrow> all_read M f view js [] s s"
  by (simp add: all_read_def)

lemma all_read_Cons:
  assumes p: "passed M f (persistenceId q) (jview view (js (persistenceId q))) s s1" and r: "all_read M f view js qs s1 s'"
    and new: "persistenceId q \<notin> persistenceId ` set qs"
  shows "all_read M f view js (q # qs) s s'"
proof -
  let ?own = "persistenceId q"
  note lp = conjunct1[OF live_passed[OF p]]
  have L: "live M x (pset_find (adset s1) r m \<noteq> None) (pset_find (aeset s1) r m \<noteq> None) m =
         live M x (pset_find (adset s) r m \<noteq> None) (pset_find (aeset s) r m \<noteq> None) m" if "r \<in> persistenceId ` set qs" for r x m
    using lp[of r x m] that new by metis
  let ?l = "\<lambda>r m. live M (jview view (js r) m \<noteq> None) (pset_find (adset s) r m \<noteq> None) (pset_find (aeset s) r m \<noteq> None) m"
  show ?thesis
    unfolding all_read_def
  proof (intro conjI allI impI)
    show "pset_ok (adset s')" by (rule all_read_adset[OF r])
    show "pending_ok f M (aeset s')" by (rule all_read_aeset[OF r])
    show "length (pset_list (aeset s')) \<le> length (pset_list (aeset s))"
      using all_read_length[OF r] passed_length[OF p] by (rule le_trans)
    show sub: "pset_find (aeset s) r m = Some v" if "pset_find (aeset s') r m = Some v" for r m v
      by (rule passed_sub[OF p all_read_sub[OF r that]])
    have sub1: "pset_find (aeset s1) r' m \<noteq> None" if "pset_find (aeset s') r' m \<noteq> None" for r' m
      using all_read_sub[OF r, of r' m] that by auto
    show "pset_find (adset s) r m = None" "\<not> mi_transient (M m)" if "pset_find (aeset s') r m \<noteq> None" for r m
      using passed_kept[OF p sub1[OF that]] by blast+
    show "pset_find (aeset s') r' m \<noteq> None \<or> r' \<in> persistenceId ` set (q # qs) \<and> jview view (js r') m \<noteq> None"
      if "pset_find (aeset s) r' m \<noteq> None" "pset_find (adset s) r' m = None" "\<not> mi_transient (M m)" for r' m
    proof (cases "pset_find (aeset s1) r' m = None")
      case True
      then have "r' = ?own \<and> jview view (js ?own) m \<noteq> None" using passed_keeps[OF p that] True by blast
      then show ?thesis by simp
    next
      case False
      have "pset_find (adset s1) r' m = None" using passed_find[OF p, of r' m] that by simp
      then show ?thesis using all_read_keeps[OF r False _ that(3)] by auto
    qed
    show "pset_find (adset s) r' m \<noteq> None" if "pset_find (adset s') r' m \<noteq> None" for r' m
      using all_read_deq[OF r that] passed_find[OF p, of r' m] by (simp split: if_splits)
    show "set (qentries s' m) = set (qentries s m) \<union> {QueueEntry r | r. r \<in> persistenceId ` set (q # qs) \<and> ?l r m}" for m
    proof -
      have "set (qentries s' m) = set (qentries s1 m) \<union> {QueueEntry r | r. r \<in> persistenceId ` set qs \<and>
          live M (jview view (js r) m \<noteq> None) (pset_find (adset s1) r m \<noteq> None) (pset_find (aeset s1) r m \<noteq> None) m}"
        by (rule all_read_entries[OF r])
      also have "\<dots> = set (qentries s1 m) \<union> {QueueEntry r | r. r \<in> persistenceId ` set qs \<and> ?l r m}" using L by blast
      also have "set (qentries s1 m) = set (qentries s m) \<union> (if ?l ?own m then {QueueEntry ?own} else {})"
        by (rule passed_entries[OF p])
      finally show ?thesis by auto
    qed
    show "map_of (messageMap s') m = (if \<exists>r \<in> persistenceId ` set (q # qs). ?l r m then Some (restored M m) else map_of (messageMap s) m)" for m
    proof -
      have "map_of (messageMap s') m = (if \<exists>r \<in> persistenceId ` set qs. ?l r m then Some (restored M m) else map_of (messageMap s1) m)"
        using all_read_map[OF r, of m] L by (simp only: cong: bex_cong)
      moreover have "map_of (messageMap s1) m = (if ?l ?own m then Some (restored M m) else map_of (messageMap s) m)"
        by (rule passed_map[OF p])
      ultimately show ?thesis by simp
    qed
  qed
qed

lemma passed_start:
  "passed M f own db (rstate_start (messageMap s) (messageQueueMap s) fm (adset s) (aeset s)) s1 = passed M f own db s s1"
  by (simp add: passed_def rstate_start_def qentries_def)

lemma queue_at_later:
  assumes q: "queue_at B view M P ae q a J" and h: "jheap P' = (jheap P)[b := x]" "a \<noteq> b"
    and sub: "\<And>r m v. pset_find ae' r m = Some v \<Longrightarrow> pset_find ae r m = Some v" and len: "length (pset_list ae') \<le> length (pset_list ae)"
  shows "queue_at B view M P' ae' q a J"
proof -
  have "{m. pset_find ae' (persistenceId q) m \<noteq> None} \<subseteq> {m. pset_find ae (persistenceId q) m \<noteq> None}"
  proof
    fix m
    assume "m \<in> {m. pset_find ae' (persistenceId q) m \<noteq> None}"
    then obtain v where "pset_find ae' (persistenceId q) m = Some v" by blast
    from sub[OF this] show "m \<in> {m. pset_find ae (persistenceId q) m \<noteq> None}" by simp
  qed
  then have "dom (jview view J) \<union> {m. pset_find ae' (persistenceId q) m \<noteq> None} \<subseteq>
      dom (jview view J) \<union> {m. pset_find ae (persistenceId q) m \<noteq> None}" by blast
  moreover have "key_window (dom (jview view J) \<union> {m. pset_find ae (persistenceId q) m \<noteq> None})"
    using q unfolding queue_at_def by (elim conjE)
  ultimately have "key_window (dom (jview view J) \<union> {m. pset_find ae' (persistenceId q) m \<noteq> None})"
    by (rule key_window_subset[rotated])
  then show ?thesis using q h len by (simp add: queue_at_def)
qed

text \<open>Ids below \<open>2\<^sup>6\<^sup>3\<close> compare as numbers, so the highest id is the maximum.\<close>

definition small_ids :: "('db \<Rightarrow> u64 \<Rightarrow> bytes option) \<Rightarrow> (u64 \<Rightarrow> 'db journal) \<Rightarrow> pqueue list \<Rightarrow> rstate \<Rightarrow> bool" where
  "small_ids view js qs s \<longleftrightarrow> (\<forall>q \<in> persistenceId ` set qs. \<forall>m.
     jview view (js q) m \<noteq> None \<or> pset_find (aeset s) q m \<noteq> None \<longrightarrow> m < 0x8000000000000000)"

lemma later_id_max:
  assumes "x < 0x8000000000000000" and "y < 0x8000000000000000"
  shows "later_id x y = max x y"
proof (cases "x \<le> y")
  case True
  then have "y - x \<le> y" by (simp add: word_sub_le)
  then show ?thesis using True assms by (auto simp: later_id_def max_def)
next
  case False
  then have "y < x" by simp
  then have "unat y < unat x" by (simp add: word_less_nat_alt)
  have "unat (y - x) = 2 ^ 64 + unat y - unat x"
    using \<open>unat y < unat x\<close> unsigned_less[of x] by (simp add: unat_sub_if' )
  moreover have "unat x < 2 ^ 63" using assms(1) by (simp add: word_less_nat_alt)
  ultimately have "2 ^ 63 \<le> unat (y - x)" by simp
  then have "\<not> y - x < 0x8000000000000000" by (simp add: word_less_nat_alt)
  moreover have "x \<noteq> 0" using \<open>y < x\<close> by auto
  ultimately show ?thesis using \<open>y < x\<close> False by (simp add: later_id_def max_def)
qed

definition heap_read ::
    "(u64 \<Rightarrow> message_info) \<Rightarrow> ('db \<Rightarrow> u64 \<Rightarrow> bytes option) \<Rightarrow> (u64 \<Rightarrow> 'db journal) \<Rightarrow> pqueue list \<Rightarrow> rstate \<Rightarrow>
     'db journal option list \<Rightarrow> 'db journal option list \<Rightarrow> bool" where
  "heap_read M view js qs s h h' \<longleftrightarrow> length h' = length h \<and> (\<forall>a. a \<notin> addr ` set qs \<longrightarrow> h' ! a = h ! a) \<and>
     (\<forall>q \<in> set qs. \<exists>J'. h' ! addr q = Some J' \<and> read_back M view s (persistenceId q) (js (persistenceId q)) J')"

lemma read_back_passed:
  assumes "passed M f own db s s1" and "q \<noteq> own" and "read_back M view s1 q J J'"
  shows "read_back M view s q J J'"
proof -
  have "mi_transient (M m) \<or> pset_find (adset s1) q m \<noteq> None \<and> pset_find (aeset s1) q m = None \<longleftrightarrow>
     mi_transient (M m) \<or> pset_find (adset s) q m \<noteq> None \<and> pset_find (aeset s) q m = None" for m
    using conjunct2[OF live_passed[OF assms(1,2)]] by (simp only: not_not)
  then show ?thesis using assms(3) unfolding read_back_def by (simp only: )
qed

lemma heap_read_Cons:
  assumes p: "passed M f (persistenceId q) (jview view (js (persistenceId q))) s s1"
    and J': "read_back M view s (persistenceId q) (js (persistenceId q)) J'" and a: "addr q < length h"
    and h: "heap_read M view js qs s1 (h[addr q := Some J']) h'"
    and new: "persistenceId q \<notin> persistenceId ` set qs" "addr q \<notin> addr ` set qs"
  shows "heap_read M view js (q # qs) s h h'"
proof -
  have own: "h' ! addr q = Some J'" using h a new(2) by (simp add: heap_read_def)
  have "\<exists>J'. h' ! addr r = Some J' \<and> read_back M view s (persistenceId r) (js (persistenceId r)) J'" if "r \<in> set qs" for r
  proof -
    obtain K where "h' ! addr r = Some K" "read_back M view s1 (persistenceId r) (js (persistenceId r)) K"
      using h \<open>r \<in> set qs\<close> unfolding heap_read_def by blast
    moreover have "persistenceId r \<noteq> persistenceId q" using new(1) that by (metis image_eqI)
    ultimately show ?thesis using read_back_passed[OF p] by blast
  qed
  then show ?thesis using h own J' by (auto simp: heap_read_def)
qed

definition ids_read :: "(u64 \<Rightarrow> message_info) \<Rightarrow> ('db \<Rightarrow> u64 \<Rightarrow> bytes option) \<Rightarrow> (u64 \<Rightarrow> 'db journal) \<Rightarrow> pqueue list \<Rightarrow> rstate \<Rightarrow> u64 \<Rightarrow> u64 \<Rightarrow> bool" where
  "ids_read M view js qs s r r' \<longleftrightarrow> (small_ids view js qs s \<longrightarrow> r < 0x8000000000000000 \<longrightarrow> r' < 0x8000000000000000 \<and> r \<le> r' \<and>
     (\<forall>q \<in> persistenceId ` set qs. \<forall>m. live M (jview view (js q) m \<noteq> None) (pset_find (adset s) q m \<noteq> None) (pset_find (aeset s) q m \<noteq> None) m
        \<longrightarrow> m \<le> r'))"

lemma ids_read_Cons:
  assumes p: "passed M f (persistenceId q) (jview view (js (persistenceId q))) s s1"
    and r: "ids_read M view js qs s1 (later_id r (maxRid s1)) r'" and new: "persistenceId q \<notin> persistenceId ` set qs"
  shows "ids_read M view js (q # qs) s r r'"
  unfolding ids_read_def
proof (intro impI)
  let ?own = "persistenceId q" and ?top = "0x8000000000000000 :: u64"
  let ?l = "\<lambda>s x m. live M (jview view (js x) m \<noteq> None) (pset_find (adset s) x m \<noteq> None) (pset_find (aeset s) x m \<noteq> None) m"
  assume sm: "small_ids view js (q # qs) s" and "r < ?top"
  have "maxRid s1 < ?top" using passed_maxRid_id[OF p] sm unfolding small_ids_def by auto
  then have m: "later_id r (maxRid s1) = max r (maxRid s1)" "max r (maxRid s1) < ?top"
    using later_id_max \<open>r < ?top\<close> by simp_all
  have "small_ids view js qs s1"
    unfolding small_ids_def
  proof (intro ballI allI impI)
    fix x m
    assume x: "x \<in> persistenceId ` set qs" and "jview view (js x) m \<noteq> None \<or> pset_find (aeset s1) x m \<noteq> None"
    then have "jview view (js x) m \<noteq> None \<or> pset_find (aeset s) x m \<noteq> None" using passed_sub[OF p, of x m] by auto
    moreover have "x \<in> persistenceId ` set (q # qs)" using x by simp
    ultimately show "m < ?top" using sm unfolding small_ids_def by blast
  qed
  then have R: "r' < ?top" "max r (maxRid s1) \<le> r'" "\<And>x m. x \<in> persistenceId ` set qs \<Longrightarrow> ?l s1 x m \<Longrightarrow> m \<le> r'"
    using r m unfolding ids_read_def by auto
  have "m \<le> r'" if "x \<in> persistenceId ` set (q # qs)" "?l s x m" for x m
  proof (cases "x = ?own")
    case True
    then have "m \<le> maxRid s1" using passed_maxRid[OF p] that(2) by simp
    then show ?thesis using R(2) by (simp add: max_def split: if_splits)
  next
    case False
    then have "x \<in> persistenceId ` set qs" using that(1) by simp
    moreover have "?l s1 x m" using conjunct1[OF live_passed[OF p False]] that(2) by simp
    ultimately show ?thesis by (rule R(3))
  qed
  moreover have "r \<le> r'" using R(2) by (simp add: max_def split: if_splits)
  ultimately show "r' < ?top \<and> r \<le> r' \<and> (\<forall>x \<in> persistenceId ` set (q # qs). \<forall>m. ?l s x m \<longrightarrow> m \<le> r')" using R(1) by blast
qed

lemma recover_each_spec:
  assumes laws: "bdb_laws bt_compare_func (msg_api B) view" and rd: "readable (framing B) R M"
  shows "distinct (map persistenceId qs) \<Longrightarrow> distinct (map addr qs) \<Longrightarrow>
    \<forall>q \<in> set qs. queue_at B view M P (aeset s) q (addr q) (js (persistenceId q)) \<Longrightarrow>
    pending_ok (framing B) M (aeset s) \<Longrightarrow> pset_ok (adset s) \<Longrightarrow> aologger P \<noteq> None \<Longrightarrow> \<not> enableAcceptRecoveryFlag (options P) \<Longrightarrow>
    \<exists>s' l' h A w r. recover_each B R qs s lp P = (Inr (s', l'), P\<lparr>jheap := h, aologger := Some A, machine := w, highestRid := r\<rparr>) \<and>
      all_read M (framing B) view js qs s s' \<and> heap_read M view js qs s (jheap P) h \<and> ids_read M view js qs s (highestRid P) r"
proof (induction qs arbitrary: s lp P)
  case Nil
  obtain A where A: "aologger P = Some A" using Nil.prems by blast
  have "recover_each B R [] s lp P = (Inr (s, lp), P\<lparr>jheap := jheap P, aologger := Some A, machine := machine P, highestRid := highestRid P\<rparr>)"
    using A by (simp add: comp_simps)
  moreover have "all_read M (framing B) view js [] s s" by (rule all_read_Nil[OF Nil.prems(5,4)])
  moreover have "heap_read M view js [] s (jheap P) (jheap P)" "ids_read M view js [] s (highestRid P) (highestRid P)"
    by (simp_all add: heap_read_def ids_read_def)
  ultimately show ?case by blast
next
  case (Cons q qs)
  let ?own = "persistenceId q" and ?s0 = "rstate_start (messageMap s) (messageQueueMap s) (foundMsg s) (adset s) (aeset s)"
  have qa: "queue_at B view M P (aeset s) q (addr q) (js ?own)" using Cons.prems(3) by simp
  have al: "addr q < length (jheap P)" using qa by (simp add: queue_at_def)
  have new: "?own \<notin> persistenceId ` set qs" "addr q \<notin> addr ` set qs" using Cons.prems(1,2) by simp_all
  obtain s1 J' A w where d: "decodeAndRecoverMsg B R q ?s0 P = (Inr s1, P\<lparr>jheap := (jheap P)[addr q := Some J'], aologger := Some A, machine := w\<rparr>)"
    "passed M (framing B) ?own (jview view (js ?own)) ?s0 s1" "jinv view J'" "jview view J' = jview view (js ?own)" "queuePid J' = queuePid (js ?own)"
    "set (transientList J') \<union> set (acceptedList J') = {m \<in> dom (jview view (js ?own)). mi_transient (M m) \<or>
       pset_find (adset s) ?own m \<noteq> None \<and> pset_find (aeset s) ?own m = None}"
    by (rule decodeAndRecoverMsg_spec[OF laws rd qa Cons.prems(4,5,6,7) refl, of "messageMap s" "messageQueueMap s" "foundMsg s"]) (rule that)
  have p: "passed M (framing B) ?own (jview view (js ?own)) s s1" using d(2) unfolding passed_start .
  have rb: "read_back M view s ?own (js ?own) J'" using d(3-6) qa by (simp add: read_back_def queue_at_def)
  let ?P = "P\<lparr>jheap := (jheap P)[addr q := Some J'], aologger := Some A, machine := w, highestRid := later_id (highestRid P) (maxRid s1)\<rparr>"
  have "\<forall>x \<in> set qs. queue_at B view M ?P (aeset s1) x (addr x) (js (persistenceId x))"
  proof
    fix x
    assume x: "x \<in> set qs"
    show "queue_at B view M ?P (aeset s1) x (addr x) (js (persistenceId x))"
    proof (rule queue_at_later[where P = P and ae = "aeset s" and b = "addr q" and x = "Some J'"])
      show "queue_at B view M P (aeset s) x (addr x) (js (persistenceId x))" using Cons.prems(3) x by simp
      show "addr x \<noteq> addr q" using new(2) x by (metis image_eqI)
    qed (use passed_sub[OF p] passed_length[OF p] in simp_all)
  qed
  note later = this
  have i: "distinct (map persistenceId qs)" "distinct (map addr qs)" "aologger ?P \<noteq> None" "\<not> enableAcceptRecoveryFlag (options ?P)"
    using Cons.prems(1,2,7) by simp_all
  from Cons.IH[OF i(1,2) later passed_aeset[OF p] passed_adset[OF p] i(3,4), of "later_id lp (thisLastPid s1)"]
  obtain s' l' h A' w' r where IH: "recover_each B R qs s1 (later_id lp (thisLastPid s1)) ?P =
      (Inr (s', l'), ?P\<lparr>jheap := h, aologger := Some A', machine := w', highestRid := r\<rparr>)"
    "all_read M (framing B) view js qs s1 s'" "heap_read M view js qs s1 (jheap ?P) h" "ids_read M view js qs s1 (highestRid ?P) r"
    by (elim exE conjE) (rule that)
  have "recover_each B R (q # qs) s lp P = (Inr (s', l'), P\<lparr>jheap := h, aologger := Some A', machine := w', highestRid := r\<rparr>)"
    using d(1) IH(1) by (simp add: comp_simps)
  moreover have "all_read M (framing B) view js (q # qs) s s'" by (rule all_read_Cons[where js = js, OF p IH(2) new(1)])
  moreover have "heap_read M view js (q # qs) s (jheap P) h"
    by (rule heap_read_Cons[where js = js, OF p rb al _ new]) (use IH(3) in simp)
  moreover have "ids_read M view js (q # qs) s (highestRid P) r"
    by (rule ids_read_Cons[where js = js, OF p _ new(1)]) (use IH(4) in simp)
  ultimately show ?case by blast
qed

section \<open>Discarding and resurrecting\<close>

text \<open>A journal when its transient messages and those with a pending dequeue are discarded.\<close>

definition cleaned ::
    "(u64 \<Rightarrow> message_info) \<Rightarrow> ('db \<Rightarrow> u64 \<Rightarrow> bytes option) \<Rightarrow> rstate \<Rightarrow> u64 \<Rightarrow> 'db journal \<Rightarrow> 'db journal \<Rightarrow> bool" where
  "cleaned M view s q J J' \<longleftrightarrow> jinv view J' \<and> jview view J' = (\<lambda>m. if mi_transient (M m) \<or>
     pset_find (adset s) q m \<noteq> None \<and> pset_find (aeset s) q m = None then None else jview view J m)"

lemma finish_queue_spec:
  assumes laws: "bdb_laws bt_compare_func (msg_api B) view" and e: "externalQueueStore q = Some a" "a < length (jheap P)" "jheap P ! a = Some J'"
    and rb: "read_back M view s x J J'" and win: "key_window (dom (jview view J))"
  shows "\<exists>J2. finish_queue B q P = (Inr (), P\<lparr>jheap := (jheap P)[a := Some J2]\<rparr>) \<and> cleaned M view s x J J2"
proof -
  let ?gone = "set (transientList J') \<union> set (acceptedList J')"
  have g: "?gone = {m \<in> dom (jview view J). mi_transient (M m) \<or> pset_find (adset s) x m \<noteq> None \<and> pset_find (aeset s) x m = None}"
    and J': "jinv view J'" "jview view J' = jview view J" using rb by (simp_all add: read_back_def)
  have "key_window (?gone \<union> dom (jview view J'))" by (rule key_window_subset[OF win]) (use g J'(2) in auto)
  from discard_both[OF laws J'(1) this]
  obtain J1 J2 where d: "discard_transient_message (msg_api B) J' = Inr J1" "discard_accepted_message (msg_api B) J1 = Inr J2" "jinv view J2"
    "transientList J2 = []" "acceptedList J2 = []" "jview view J2 = (\<lambda>p. if p \<in> ?gone then None else jview view J' p)"
    by (elim exE conjE) (rule that)
  have c: "create_bdb J2" using d(3) by (simp add: jinv_def)
  have "recover_complete (msg_api B) J2 = Inr J2"
    using c d(4,5) by (simp add: recover_complete_def discard_transient_message_def discard_accepted_message_def)
  then have "finish_queue B q P = (Inr (), P\<lparr>jheap := (jheap P)[a := Some J2]\<rparr>)"
    using e d(1,2) by (simp add: finish_queue_def comp_simps handle_def deref_def update_at_def compact_message_database_def)
  moreover have "jview view J2 = (\<lambda>m. if mi_transient (M m) \<or> pset_find (adset s) x m \<noteq> None \<and> pset_find (aeset s) x m = None
      then None else jview view J m)"
    unfolding d(6) g J'(2) by (auto simp: fun_eq_iff domIff)
  ultimately show ?thesis using d(3) by (auto simp: cleaned_def)
qed

lemma finish_all_spec:
  assumes laws: "bdb_laws bt_compare_func (msg_api B) view"
  shows "distinct (map addr qs) \<Longrightarrow> \<forall>q \<in> set qs. externalQueueStore q = Some (addr q) \<and> addr q < length (jheap P) \<and>
      (\<exists>J'. jheap P ! addr q = Some J' \<and> read_back M view s (persistenceId q) (js (persistenceId q)) J') \<and>
      key_window (dom (jview view (js (persistenceId q)))) \<Longrightarrow>
    \<exists>h. forE qs (finish_queue B) P = (Inr (), P\<lparr>jheap := h\<rparr>) \<and> (\<forall>a. a \<notin> addr ` set qs \<longrightarrow> h ! a = jheap P ! a) \<and>
      (\<forall>q \<in> set qs. \<exists>J2. h ! addr q = Some J2 \<and> cleaned M view s (persistenceId q) (js (persistenceId q)) J2)"
proof (induction qs arbitrary: P)
  case Nil
  have "forE [] (finish_queue B) P = (Inr (), P\<lparr>jheap := jheap P\<rparr>)" by (simp add: comp_simps)
  then show ?case by (intro exI[of _ "jheap P"]) simp
next
  case (Cons q qs)
  obtain J' where q: "externalQueueStore q = Some (addr q)" "addr q < length (jheap P)" "jheap P ! addr q = Some J'"
    "read_back M view s (persistenceId q) (js (persistenceId q)) J'" "key_window (dom (jview view (js (persistenceId q))))"
    using Cons.prems(2) by auto
  obtain J2 where J2: "finish_queue B q P = (Inr (), P\<lparr>jheap := (jheap P)[addr q := Some J2]\<rparr>)"
    "cleaned M view s (persistenceId q) (js (persistenceId q)) J2" using finish_queue_spec[OF laws q] by blast
  have new: "addr q \<notin> addr ` set qs" using Cons.prems(1) by simp
  let ?P = "P\<lparr>jheap := (jheap P)[addr q := Some J2]\<rparr>"
  have "\<forall>x \<in> set qs. externalQueueStore x = Some (addr x) \<and> addr x < length (jheap ?P) \<and>
      (\<exists>J'. jheap ?P ! addr x = Some J' \<and> read_back M view s (persistenceId x) (js (persistenceId x)) J') \<and>
      key_window (dom (jview view (js (persistenceId x))))"
  proof
    fix x
    assume x: "x \<in> set qs"
    then have "addr q \<noteq> addr x" using new by (metis image_eqI)
    moreover have "x \<in> set (q # qs)" using x by simp
    note bspec[OF Cons.prems(2) this]
    ultimately show "externalQueueStore x = Some (addr x) \<and> addr x < length (jheap ?P) \<and>
      (\<exists>J'. jheap ?P ! addr x = Some J' \<and> read_back M view s (persistenceId x) (js (persistenceId x)) J') \<and>
      key_window (dom (jview view (js (persistenceId x))))" by simp
  qed
  from Cons.IH[OF _ this] Cons.prems(1) obtain h where h: "forE qs (finish_queue B) ?P = (Inr (), ?P\<lparr>jheap := h\<rparr>)"
    "\<forall>a. a \<notin> addr ` set qs \<longrightarrow> h ! a = jheap ?P ! a"
    "\<forall>q \<in> set qs. \<exists>J2. h ! addr q = Some J2 \<and> cleaned M view s (persistenceId q) (js (persistenceId q)) J2" by auto
  have "forE (q # qs) (finish_queue B) P = (Inr (), P\<lparr>jheap := h\<rparr>)" using J2(1) h(1) by (simp add: comp_simps)
  moreover have "h ! addr q = Some J2" using h(2) new q(2) by simp
  ultimately show ?case using h(2,3) J2(2) by (intro exI[of _ h]) auto
qed

text \<open>Giving the pending enqueues back to the pool.\<close>

definition jlook :: "('db, 'mdb) provider \<Rightarrow> u64 \<Rightarrow> nat option" where
  "jlook P q = (case map_of (journalList P) q of Some j \<Rightarrow> j | None \<Rightarrow> None)"

definition store_tasks :: "('db, 'mdb) bdb \<Rightarrow> ('db, 'mdb) provider \<Rightarrow> pending_enq list \<Rightarrow> store_task list" where
  "store_tasks B P l = concat (map (\<lambda>pae. if jlook P (queueId pae) = None \<or> \<not> pool_accepts B then []
     else [StoreTask (jlook P (queueId pae)) (enq_buff pae) (enq_size pae) (msgId pae) (enq_transient pae)]) l)"

definition resurrected :: "('db, 'mdb) provider \<Rightarrow> ('db, 'mdb) provider \<Rightarrow> store_task list \<Rightarrow> bool" where
  "resurrected P P' ts \<longleftrightarrow> (\<exists>jl t. P' = P\<lparr>journalList := jl, tracker := t, enqueuePool := enqueuePool P @ ts\<rparr>) \<and>
     smap_ok (journalList P') \<and> jlook P' = jlook P"

lemma resurrected_trans: "resurrected P P1 t1 \<Longrightarrow> resurrected P1 P2 t2 \<Longrightarrow> resurrected P P2 (t1 @ t2)"
proof -
  assume 1: "resurrected P P1 t1" and 2: "resurrected P1 P2 t2"
  obtain jl t where P1: "P1 = P\<lparr>journalList := jl, tracker := t, enqueuePool := enqueuePool P @ t1\<rparr>" using 1 unfolding resurrected_def by blast
  obtain jl' t' where "P2 = P1\<lparr>journalList := jl', tracker := t', enqueuePool := enqueuePool P1 @ t2\<rparr>" using 2 unfolding resurrected_def by blast
  then have "P2 = P\<lparr>journalList := jl', tracker := t', enqueuePool := enqueuePool P @ t1 @ t2\<rparr>" using P1 by simp
  then show ?thesis using 1 2 unfolding resurrected_def by metis
qed

lemma journal_of_spec:
  assumes "smap_ok (journalList P)"
  shows "\<exists>jl. journal_of q P = (Inr (jlook P q), P\<lparr>journalList := jl\<rparr>) \<and> smap_ok jl \<and> jlook (P\<lparr>journalList := jl\<rparr>) = jlook P"
proof (cases "map_of (journalList P) q")
  case None
  let ?jl = "smap_insert q None (journalList P)"
  have "journal_of q P = (Inr (jlook P q), P\<lparr>journalList := ?jl\<rparr>)" using None by (simp add: journal_of_def comp_simps jlook_def)
  moreover have "jlook (P\<lparr>journalList := ?jl\<rparr>) = jlook P"
    using None assms by (auto simp: jlook_def map_of_smap_insert fun_eq_iff)
  ultimately show ?thesis using assms by (intro exI[of _ ?jl]) simp
next
  case (Some j)
  then have "journal_of q P = (Inr (jlook P q), P\<lparr>journalList := journalList P\<rparr>)" by (simp add: journal_of_def comp_simps jlook_def)
  then show ?thesis using assms by (intro exI[of _ "journalList P"]) simp
qed

lemma resurrect_enqueue_spec:
  assumes "pset_find ad (queueId pae) (msgId pae) = None" and "smap_ok (journalList P)"
  shows "\<exists>n' P'. resurrect_enqueue B pae (ad, ul, n) P = (Inr (True, ad, ul, n'), P') \<and> resurrected P P' (store_tasks B P [pae])"
proof -
  obtain jl where j: "journal_of (queueId pae) P = (Inr (jlook P (queueId pae)), P\<lparr>journalList := jl\<rparr>)" "smap_ok jl"
    "jlook (P\<lparr>journalList := jl\<rparr>) = jlook P" using journal_of_spec[OF assms(2)] by blast
  define t where "t = (if enableSmartAsync (options P) then snd (willEnqueue (msgId pae) (queueId pae) (tracker P)) else tracker P)"
  let ?P = "\<lambda>t. P\<lparr>journalList := jl, tracker := t, enqueuePool := enqueuePool P @ store_tasks B P [pae]\<rparr>"
  have r: "resurrected P (?P t) (store_tasks B P [pae])" for t
  proof -
    have "jlook (?P t) = jlook (P\<lparr>journalList := jl\<rparr>)" by (simp add: jlook_def fun_eq_iff)
    then show ?thesis unfolding resurrected_def using j(2,3) by auto
  qed
  show ?thesis
  proof (cases "jlook P (queueId pae)")
    case None
    then have "resurrect_enqueue B pae (ad, ul, n) P = (Inr (True, ad, ul, n), ?P (tracker P))"
      using assms(1) j(1) by (simp add: resurrect_enqueue_def comp_simps store_tasks_def)
    then show ?thesis using r by blast
  next
    case (Some a)
    then have "resurrect_enqueue B pae (ad, ul, n) P = (Inr (True, ad, ul, if pool_accepts B then n + 1 else n), ?P t)"
      using assms(1) j(1) by (simp add: resurrect_enqueue_def comp_simps store_tasks_def schedule_store_def t_def)
    then show ?thesis using r by blast
  qed
qed

lemma store_tasks_append: "store_tasks B P (a @ b) = store_tasks B P a @ store_tasks B P b"
  by (simp add: store_tasks_def)

lemma store_tasks_cong:
  assumes "jlook P' = jlook P"
  shows "store_tasks B P' l = store_tasks B P l"
  unfolding store_tasks_def assms ..

lemma store_tasks_resurrected: "resurrected P P' ts \<Longrightarrow> store_tasks B P' l = store_tasks B P l"
  by (rule store_tasks_cong) (simp add: resurrected_def)

lemma resurrected_ok: "resurrected P P' ts \<Longrightarrow> smap_ok (journalList P')"
  by (simp add: resurrected_def)

lemma resurrected_refl: "smap_ok (journalList P) \<Longrightarrow> resurrected P P []"
proof -
  have "P = P\<lparr>journalList := journalList P, tracker := tracker P, enqueuePool := enqueuePool P @ []\<rparr>" by simp
  then show "smap_ok (journalList P) \<Longrightarrow> resurrected P P []" unfolding resurrected_def by blast
qed

lemma resurrect_subset_spec:
  "\<forall>x \<in> set l. pset_find ad (queueId (snd x)) (msgId (snd x)) = None \<Longrightarrow> smap_ok (journalList P) \<Longrightarrow>
   \<exists>n' P'. resurrect_subset B l (ad, ul, n) P = (Inr (l, ad, ul, n'), P') \<and> resurrected P P' (store_tasks B P (map snd l))"
proof (induction l arbitrary: n P)
  case Nil
  then show ?case using resurrected_refl[of P] by (simp add: comp_simps store_tasks_def)
next
  case (Cons x l)
  obtain m pae where x: "x = (m, pae)" by (cases x)
  have f: "pset_find ad (queueId pae) (msgId pae) = None" using Cons.prems(1) x by simp
  obtain n1 P1 where 1: "resurrect_enqueue B pae (ad, ul, n) P = (Inr (True, ad, ul, n1), P1)" "resurrected P P1 (store_tasks B P [pae])"
    using resurrect_enqueue_spec[OF f Cons.prems(2), of B ul n] by blast
  obtain n2 P2 where 2: "resurrect_subset B l (ad, ul, n1) P1 = (Inr (l, ad, ul, n2), P2)" "resurrected P1 P2 (store_tasks B P1 (map snd l))"
    using Cons.IH[OF _ resurrected_ok[OF 1(2)], of n1] Cons.prems(1) by auto
  have "resurrected P P2 (store_tasks B P (map snd (x # l)))"
    using resurrected_trans[OF 1(2) 2(2)] store_tasks_resurrected[OF 1(2)] store_tasks_append[of B P "[pae]" "map snd l"] x by simp
  then show ?case using x 1(1) 2(1) by (simp add: comp_simps)
qed

lemma resurrect_enqueues_spec:
  "\<forall>pae \<in> set (pset_list l). pset_find ad (queueId pae) (msgId pae) = None \<Longrightarrow> smap_ok (journalList P) \<Longrightarrow>
   \<exists>l' n' P'. resurrect_enqueues B l (ad, ul, n) P = (Inr (l', ad, ul, n'), P') \<and> resurrected P P' (store_tasks B P (pset_list l))"
proof (induction l arbitrary: n P)
  case Nil
  then show ?case using resurrected_refl[of P] by (simp add: comp_simps store_tasks_def pset_list_def)
next
  case (Cons x l)
  obtain q sub where x: "x = (q, sub)" by (cases x)
  have f: "\<forall>y \<in> set sub. pset_find ad (queueId (snd y)) (msgId (snd y)) = None" using Cons.prems(1) x by (simp add: pset_list_Cons)
  obtain n1 P1 where 1: "resurrect_subset B sub (ad, ul, n) P = (Inr (sub, ad, ul, n1), P1)" "resurrected P P1 (store_tasks B P (map snd sub))"
    using resurrect_subset_spec[OF f Cons.prems(2), of B ul n] by blast
  have g: "\<forall>pae \<in> set (pset_list l). pset_find ad (queueId pae) (msgId pae) = None" using Cons.prems(1) x by (simp add: pset_list_Cons)
  obtain l' n2 P2 where 2: "resurrect_enqueues B l (ad, ul, n1) P1 = (Inr (l', ad, ul, n2), P2)"
    "resurrected P1 P2 (store_tasks B P1 (pset_list l))"
    using Cons.IH[OF g resurrected_ok[OF 1(2)], of n1] by blast
  have "resurrected P P2 (store_tasks B P (pset_list (x # l)))"
    using resurrected_trans[OF 1(2) 2(2)] store_tasks_resurrected[OF 1(2)] x by (simp add: pset_list_Cons store_tasks_append)
  then show ?case using x 1(1) 2(1) by (simp add: comp_simps)
qed

lemma resurrect_dequeues_total:
  "smap_ok (journalList P) \<Longrightarrow> \<exists>n' jl dp. resurrect_dequeues B l n P = (Inr n', P\<lparr>journalList := jl, dequeuePool := dp\<rparr>)"
proof (induction l arbitrary: n P)
  case Nil
  have "resurrect_dequeues B [] n P = (Inr n, P\<lparr>journalList := journalList P, dequeuePool := dequeuePool P\<rparr>)" by (simp add: comp_simps)
  then show ?case by blast
next
  case (Cons pad l)
  obtain jl where j: "journal_of (queueId pad) P = (Inr (jlook P (queueId pad)), P\<lparr>journalList := jl\<rparr>)" "smap_ok jl"
    using journal_of_spec[OF Cons.prems] by blast
  define dp where "dp = (if jlook P (queueId pad) = None \<or> \<not> pool_accepts B then dequeuePool P
    else dequeuePool P @ [DequeueTask (msgId pad) (jlook P (queueId pad))])"
  let ?P = "P\<lparr>journalList := jl, dequeuePool := dp\<rparr>"
  obtain n1 where "resurrect_dequeues B (pad # l) n P = resurrect_dequeues B l n1 ?P"
    using j(1) by (cases "jlook P (queueId pad) = None"; cases "pool_accepts B") (auto simp: comp_simps schedule_dequeue_def dp_def)
  moreover obtain n2 jl2 dp2 where "resurrect_dequeues B l n1 ?P = (Inr n2, ?P\<lparr>journalList := jl2, dequeuePool := dp2\<rparr>)"
    using Cons.IH[of ?P n1] j(2) by auto
  ultimately have "resurrect_dequeues B (pad # l) n P = (Inr n2, P\<lparr>journalList := jl2, dequeuePool := dp2\<rparr>)" by simp
  then show ?case by blast
qed

section \<open>The whole recovery\<close>

lemma deq_read_ok: "replay_ok s \<Longrightarrow> replay_ok (deq_read_loop bs s)"
proof (induction bs s rule: deq_read_loop.induct)
  case (2 opcode r s)
  then show ?case by (simp add: Let_def replay_ok_start replay_ok_complete)
qed simp

lemma extract_deq_ok: "replay_ok s \<Longrightarrow> replay_ok (extractPendingDequeueFromFile Aw i s)"
  by (cases Aw) (auto simp: extractPendingDequeueFromFile_def deq_read_ok Let_def split: option.split)

lemma recoverAsyncDequeue_ok:
  assumes "recoverAsyncDequeue [] Aw = (r, ad, Aw')"
  shows "pset_ok ad"
proof -
  obtain A w where Aw: "Aw = (A, w)" by (cases Aw)
  have "\<exists>Aw0 Aw1. ad = fst (extractPendingDequeueFromFile Aw1 1 (extractPendingDequeueFromFile Aw0 0 ([], [])))"
    using assms unfolding Aw recoverAsyncDequeue_def Let_def prod.case by (metis fst_conv snd_conv)
  moreover have "replay_ok (extractPendingDequeueFromFile Aw1 1 (extractPendingDequeueFromFile Aw0 0 ([], [])))" for Aw0 Aw1
    by (intro extract_deq_ok) simp
  ultimately show ?thesis by (auto simp: replay_ok_def)
qed

text \<open>
  A provider whose catalogue is recovered and whose messages are to be: its logger reads
  the pending operations \<open>ad\<close> and \<open>ae\<close>, each of its queues has its own journal, in its place on
  the heap and in the journal list, and \<open>js\<close> are the journals once their databases are open.
\<close>

definition restart_state ::
    "('db, 'mdb) bdb \<Rightarrow> ('db \<Rightarrow> u64 \<Rightarrow> bytes option) \<Rightarrow> recovery_manager \<Rightarrow> (u64 \<Rightarrow> message_info) \<Rightarrow> (u64 \<Rightarrow> 'db journal) \<Rightarrow>
     ('db, 'mdb) provider \<Rightarrow> PendingDequeueSet \<Rightarrow> PendingEnqueueSet \<Rightarrow> bool" where
  "restart_state B view R M js P ad ae \<longleftrightarrow> bdb_laws bt_compare_func (msg_api B) view \<and> readable (framing B) R M \<and>
     (\<exists>A r1 Aw1 r2 Aw2. aologger P = Some A \<and> recoverAsyncDequeue [] (A, machine P) = (r1, ad, Aw1) \<and>
        recoverAsyncEnqueue [] Aw1 = Inr (r2, ae, Aw2)) \<and>
     pending_ok (framing B) M ae \<and> recoveredJournal P \<noteq> [] \<and>
     distinct (map persistenceId (recoveredJournal P)) \<and> distinct (map addr (recoveredJournal P)) \<and>
     (\<forall>q \<in> set (recoveredJournal P). queue_at B view M P ae q (addr q) (js (persistenceId q))) \<and>
     (\<forall>i a. map_of (journalList P) i = Some (Some a) \<longleftrightarrow> (\<exists>q \<in> set (recoveredJournal P). persistenceId q = i \<and> addr q = a)) \<and>
     smap_ok (journalList P) \<and> \<not> enableAcceptRecoveryFlag (options P) \<and> enqueuePool P = [] \<and> pool_accepts B"

lemmas restart_laws = restart_state_def[THEN iffD1, THEN conjunct1]
lemmas restart_readable = restart_state_def[THEN iffD1, THEN conjunct2, THEN conjunct1]
lemmas restart_logs = restart_state_def[THEN iffD1, THEN conjunct2, THEN conjunct2, THEN conjunct1]
lemmas restart_pending = restart_state_def[THEN iffD1, THEN conjunct2, THEN conjunct2, THEN conjunct2, THEN conjunct1]
lemmas restart_queues = restart_state_def[THEN iffD1, THEN conjunct2, THEN conjunct2, THEN conjunct2, THEN conjunct2, THEN conjunct1]
lemmas restart_distinct = restart_state_def[THEN iffD1, THEN conjunct2, THEN conjunct2, THEN conjunct2, THEN conjunct2, THEN conjunct2, THEN conjunct1]
lemmas restart_apart = restart_state_def[THEN iffD1, THEN conjunct2, THEN conjunct2, THEN conjunct2, THEN conjunct2, THEN conjunct2, THEN conjunct2, THEN conjunct1]
lemmas restart_at = restart_state_def[THEN iffD1, THEN conjunct2, THEN conjunct2, THEN conjunct2, THEN conjunct2, THEN conjunct2, THEN conjunct2, THEN conjunct2, THEN conjunct1]
lemmas restart_journals = restart_state_def[THEN iffD1, THEN conjunct2, THEN conjunct2, THEN conjunct2, THEN conjunct2, THEN conjunct2, THEN conjunct2, THEN conjunct2, THEN conjunct2, THEN conjunct1]
lemmas restart_list = restart_state_def[THEN iffD1, THEN conjunct2, THEN conjunct2, THEN conjunct2, THEN conjunct2, THEN conjunct2, THEN conjunct2, THEN conjunct2, THEN conjunct2, THEN conjunct2, THEN conjunct1]
lemmas restart_flag = restart_state_def[THEN iffD1, THEN conjunct2, THEN conjunct2, THEN conjunct2, THEN conjunct2, THEN conjunct2, THEN conjunct2, THEN conjunct2, THEN conjunct2, THEN conjunct2, THEN conjunct2, THEN conjunct1]
lemmas restart_pool = restart_state_def[THEN iffD1, THEN conjunct2, THEN conjunct2, THEN conjunct2, THEN conjunct2, THEN conjunct2, THEN conjunct2, THEN conjunct2, THEN conjunct2, THEN conjunct2, THEN conjunct2, THEN conjunct2, THEN conjunct1]
lemmas restart_accepts = restart_state_def[THEN iffD1, THEN conjunct2, THEN conjunct2, THEN conjunct2, THEN conjunct2, THEN conjunct2, THEN conjunct2, THEN conjunct2, THEN conjunct2, THEN conjunct2, THEN conjunct2, THEN conjunct2, THEN conjunct2]

text \<open>A queue that was read is ready to be finished.\<close>

lemma read_finishes:
  assumes qa: "\<forall>q \<in> set qs. queue_at B view M P ae q (addr q) (js (persistenceId q))" and h: "heap_read M view js qs s (jheap P) h"
  shows "\<forall>q \<in> set qs. externalQueueStore q = Some (addr q) \<and> addr q < length h \<and>
    (\<exists>J'. h ! addr q = Some J' \<and> read_back M view s (persistenceId q) (js (persistenceId q)) J') \<and> key_window (dom (jview view (js (persistenceId q))))"
proof
  fix q
  assume q: "q \<in> set qs"
  have k: "queue_at B view M P ae q (addr q) (js (persistenceId q))" using qa q by blast
  then have "key_window (dom (jview view (js (persistenceId q))) \<union> {m. pset_find ae (persistenceId q) m \<noteq> None})"
    unfolding queue_at_def by (elim conjE)
  then have "key_window (dom (jview view (js (persistenceId q))))" by (rule key_window_subset) blast
  then show "externalQueueStore q = Some (addr q) \<and> addr q < length h \<and>
      (\<exists>J'. h ! addr q = Some J' \<and> read_back M view s (persistenceId q) (js (persistenceId q)) J') \<and> key_window (dom (jview view (js (persistenceId q))))"
    using k h q by (simp add: queue_at_def heap_read_def)
qed

text \<open>What is pending after the passes goes back to the pools.\<close>

lemma pools_refilled:
  assumes rd: "all_read M f view js qs s s'" and ne: "qs \<noteq> []" and sm: "smap_ok (journalList P)" and lg: "aologger P \<noteq> None"
    and po: "enqueuePool P = []" "pool_accepts B"
  obtains ae4 n4 n5 x6 P4 P5 P6 where "resurrect_enqueues B (aeset s') (adset s', [], 0) P = (Inr (ae4, adset s', [], n4), P4)"
    "resurrect_dequeues B (pset_list (adset s')) 0 P4 = (Inr n5, P5)" "with_log (log_mass_enqueue_dequeue_complete []) P5 = (Inr x6, P6)"
    "jheap P6 = jheap P" "messageIdSequence P6 = messageIdSequence P" "enqueuePool P6 = store_tasks B P (pset_list (aeset s'))"
proof -
  have "\<forall>pae \<in> set (pset_list (aeset s')). pset_find (adset s') (queueId pae) (msgId pae) = None"
  proof
    fix v
    assume "v \<in> set (pset_list (aeset s'))"
    then have "pset_find (aeset s') (queueId v) (msgId v) = Some v"
      using pset_list_iff all_read_aeset[OF rd] unfolding pending_ok_def by blast
    then have "pset_find (adset s) (queueId v) (msgId v) = None" using all_read_kept[OF rd ne] by (metis option.distinct(1))
    then show "pset_find (adset s') (queueId v) (msgId v) = None" using all_read_deq[OF rd] by blast
  qed
  then obtain ae4 n4 P4 where r4: "resurrect_enqueues B (aeset s') (adset s', [], 0) P = (Inr (ae4, adset s', [], n4), P4)"
    "resurrected P P4 (store_tasks B P (pset_list (aeset s')))"
    using resurrect_enqueues_spec[of "aeset s'" "adset s'" P B "[]" 0] sm po by auto
  obtain jl4 t4 where P4: "P4 = P\<lparr>journalList := jl4, tracker := t4, enqueuePool := store_tasks B P (pset_list (aeset s'))\<rparr>"
    using r4(2) po(1) unfolding resurrected_def by auto
  obtain n5 jl5 dp5 where r5: "resurrect_dequeues B (pset_list (adset s')) 0 P4 = (Inr n5, P4\<lparr>journalList := jl5, dequeuePool := dp5\<rparr>)"
    using resurrect_dequeues_total[OF resurrected_ok[OF r4(2)]] by blast
  let ?P5 = "P4\<lparr>journalList := jl5, dequeuePool := dp5\<rparr>"
  obtain x6 P6 where r6: "with_log (log_mass_enqueue_dequeue_complete []) ?P5 = (Inr x6, P6)" "logged ?P5 P6"
    using with_log_total[of ?P5 "log_mass_enqueue_dequeue_complete []"] log_mass_total(3)[of "[]"] P4 lg by auto
  obtain A6 w6 where "P6 = ?P5\<lparr>aologger := Some A6, machine := w6\<rparr>" using r6(2) unfolding logged_def by blast
  then show thesis using that[OF r4(1) r5 r6(1)] P4 by simp
qed

lemma recovery_spec:
  assumes "restart_state B view R M js P ad ae"
  defines "s \<equiv> rstate_start [] [] [] ad ae" and "qs \<equiv> recoveredJournal P"
  obtains s' P' r where "provider_recoverMessages B R [] [] P = (Inr (messageMap s', messageQueueMap s'), P')"
    "all_read M (framing B) view js qs s s'"
    "\<forall>q \<in> set qs. \<exists>J2. jheap P' ! addr q = Some J2 \<and> cleaned M view s (persistenceId q) (js (persistenceId q)) J2"
    "enqueuePool P' = store_tasks B P (pset_list (aeset s'))"
    "messageIdSequence P' = r + 1" "ids_read M view js qs s (highestRid P) r"
proof -
  have laws: "bdb_laws bt_compare_func (msg_api B) view" and rd: "readable (framing B) R M" and pe: "pending_ok (framing B) M ae"
    and ne: "qs \<noteq> []" and di: "distinct (map persistenceId qs)" "distinct (map addr qs)"
    and qa: "\<forall>q \<in> set qs. queue_at B view M P ae q (addr q) (js (persistenceId q))"
    and sm: "smap_ok (journalList P)" and fl: "\<not> enableAcceptRecoveryFlag (options P)" and po: "enqueuePool P = []" "pool_accepts B"
    using restart_laws[OF assms(1)] restart_readable[OF assms(1)] restart_pending[OF assms(1)] restart_queues[OF assms(1)]
      restart_distinct[OF assms(1)] restart_apart[OF assms(1)] restart_at[OF assms(1)] restart_list[OF assms(1)]
      restart_flag[OF assms(1)] restart_pool[OF assms(1)] restart_accepts[OF assms(1)] unfolding qs_def by - (assumption+)
  obtain A r1 A1 w1 r2 A2 w2 where l: "aologger P = Some A" "recoverAsyncDequeue [] (A, machine P) = (r1, ad, A1, w1)"
    "recoverAsyncEnqueue [] (A1, w1) = Inr (r2, ae, A2, w2)" using restart_logs[OF assms(1)] by force
  let ?P1 = "P\<lparr>aologger := Some A2, machine := w2\<rparr>"
  have s: "adset s = ad" "aeset s = ae" by (simp_all add: s_def rstate_start_def)
  have qa1: "\<forall>q \<in> set qs. queue_at B view M ?P1 (aeset s) q (addr q) (js (persistenceId q))"
    using qa s by (simp add: queue_at_def)
  have pe1: "pending_ok (framing B) M (aeset s)" and ad1: "pset_ok (adset s)" using pe recoverAsyncDequeue_ok[OF l(2)] s by simp_all
  have o: "aologger ?P1 \<noteq> None" "\<not> enableAcceptRecoveryFlag (options ?P1)" using fl by simp_all
  from recover_each_spec[OF laws rd di qa1 pe1 ad1 o, of 0]
  obtain s' l' h A3 w3 r where e: "recover_each B R qs s 0 ?P1 = (Inr (s', l'), ?P1\<lparr>jheap := h, aologger := Some A3, machine := w3, highestRid := r\<rparr>)"
    "all_read M (framing B) view js qs s s'" "heap_read M view js qs s (jheap ?P1) h" "ids_read M view js qs s (highestRid ?P1) r"
    by (elim exE conjE) (rule that)
  let ?P2 = "P\<lparr>jheap := h, aologger := Some A3, machine := w3, highestRid := r\<rparr>"
  have fin: "\<forall>q \<in> set qs. externalQueueStore q = Some (addr q) \<and> addr q < length (jheap ?P2) \<and>
      (\<exists>J'. jheap ?P2 ! addr q = Some J' \<and> read_back M view s (persistenceId q) (js (persistenceId q)) J') \<and>
      key_window (dom (jview view (js (persistenceId q))))"
    using read_finishes[OF qa1 e(3)] by simp
  obtain h2 where h2: "forE qs (finish_queue B) ?P2 = (Inr (), ?P2\<lparr>jheap := h2\<rparr>)"
    "\<forall>q \<in> set qs. \<exists>J2. h2 ! addr q = Some J2 \<and> cleaned M view s (persistenceId q) (js (persistenceId q)) J2"
    using finish_all_spec[OF laws di(2) fin] by blast
  let ?P3 = "P\<lparr>aologger := Some A3, machine := w3, highestRid := r, jheap := h2, acceptedFromMongo := [], recoveredJournal := [],
      messageIdSequence := r + 1, tracker := PidTracker_reset l' (tracker P)\<rparr>"
  obtain ae4 n4 n5 x6 P4 P5 P6 where res: "resurrect_enqueues B (aeset s') (adset s', [], 0) ?P3 = (Inr (ae4, adset s', [], n4), P4)"
    "resurrect_dequeues B (pset_list (adset s')) 0 P4 = (Inr n5, P5)" "with_log (log_mass_enqueue_dequeue_complete []) P5 = (Inr x6, P6)"
    "jheap P6 = jheap ?P3" "messageIdSequence P6 = messageIdSequence ?P3" "enqueuePool P6 = store_tasks B ?P3 (pset_list (aeset s'))"
    by (rule pools_refilled[OF e(2) ne, where P = ?P3 and B = B]) (use sm po that in simp_all)
  let ?P7 = "P6\<lparr>enqLogCleanerThread := True, deqLogCleanerThread := True, eraserThread := True\<rparr>"
  have tasks: "store_tasks B ?P3 l = store_tasks B P l" for l by (rule store_tasks_cong) (simp add: jlook_def fun_eq_iff)
  have w1: "with_log (\<lambda>Aw. case recoverAsyncDequeue [] Aw of (_, ad, Aw') \<Rightarrow> Inr (ad, Aw')) P = (Inr ad, P\<lparr>aologger := Some A1, machine := w1\<rparr>)"
    using l(1,2) by (simp add: with_log_def)
  have w2: "with_log (\<lambda>Aw. case recoverAsyncEnqueue [] Aw of Inl e \<Rightarrow> Inl e | Inr (_, ae, Aw') \<Rightarrow> Inr (ae, Aw')) (P\<lparr>aologger := Some A1, machine := w1\<rparr>) = (Inr ae, ?P1)"
    using l(3) by (simp add: with_log_def)
  have "provider_recoverMessages B R [] [] P = (Inr (messageMap s', messageQueueMap s'), ?P7)"
    unfolding provider_recoverMessages_def
    using w1 w2 e(1) h2(1) res(1-3)
    by (simp add: bindE_def thenE_def getE_def modE_def retE_def IdSequence_reset_def s_def qs_def)
  moreover have "jheap ?P7 = h2" "enqueuePool ?P7 = store_tasks B P (pset_list (aeset s'))" "messageIdSequence ?P7 = r + 1"
    using res(4-6) tasks by simp_all
  moreover have "ids_read M view js qs s (highestRid P) r" using e(4) by simp
  ultimately show thesis using that e(2) h2(2) by metis
qed

text \<open>The queue entries handed to the broker, in terms of the databases and the logs.\<close>

definition on_queue :: "message_queue_map \<Rightarrow> u64 \<Rightarrow> u64 \<Rightarrow> bool" where
  "on_queue mq q m = (case map_of mq m of None \<Rightarrow> False | Some l \<Rightarrow> QueueEntry q \<in> set l)"

lemma on_queue_live:
  assumes a: "all_read M f view js qs (rstate_start [] [] [] ad ae) s'" and q: "q \<in> set qs"
  shows "on_queue (messageQueueMap s') (persistenceId q) m \<longleftrightarrow>
    live M (jview view (js (persistenceId q)) m \<noteq> None) (pset_find ad (persistenceId q) m \<noteq> None) (pset_find ae (persistenceId q) m \<noteq> None) m"
proof -
  have "on_queue (messageQueueMap s') (persistenceId q) m \<longleftrightarrow> QueueEntry (persistenceId q) \<in> set (qentries s' m)"
    by (simp add: on_queue_def qentries_def split: option.split)
  also have "\<dots> \<longleftrightarrow> live M (jview view (js (persistenceId q)) m \<noteq> None) (pset_find ad (persistenceId q) m \<noteq> None) (pset_find ae (persistenceId q) m \<noteq> None) m"
    using all_read_entries[OF a, of m] q by (simp add: rstate_start_def qentries_def QueueEntry_def)
  finally show ?thesis .
qed

lemma live_untripled: "\<not> (db \<and> d \<and> e) \<Longrightarrow> live M db d e m \<longleftrightarrow> \<not> mi_transient (M m) \<and> \<not> d \<and> (db \<or> e)"
  by (auto simp: live_def)

lemma task_of_pending:
  assumes st: "restart_state B view R M js P ad ae" and q: "q \<in> set (recoveredJournal P)" and pe: "pending_ok f M ae'"
  shows "(\<exists>t \<in> set (store_tasks B P (pset_list ae')). task_jc t = Some (addr q) \<and> task_pid t = m) \<longleftrightarrow>
    pset_find ae' (persistenceId q) m \<noteq> None"
proof -
  have ok: "pset_ok ae'" "keyed ae'" using pe by (simp_all add: pending_ok_def)
  have acc: "pool_accepts B" by (rule restart_accepts[OF st])
  have jl: "jlook P i = Some (addr q) \<longleftrightarrow> i = persistenceId q" for i
  proof -
    have "jlook P i = Some (addr q) \<longleftrightarrow> (\<exists>x \<in> set (recoveredJournal P). persistenceId x = i \<and> addr x = addr q)"
      using restart_journals[OF st, rule_format, of i "addr q"] by (auto simp: jlook_def split: option.splits)
    moreover have "x = q" if "x \<in> set (recoveredJournal P)" "addr x = addr q" for x
      using restart_apart[OF st] q that by (auto simp: distinct_map inj_on_def)
    ultimately show ?thesis using q by blast
  qed
  have "(\<exists>t \<in> set (store_tasks B P (pset_list ae')). task_jc t = Some (addr q) \<and> task_pid t = m) \<longleftrightarrow>
      (\<exists>v \<in> set (pset_list ae'). jlook P (queueId v) = Some (addr q) \<and> msgId v = m)"
    using acc by (force simp: store_tasks_def)
  also have "\<dots> \<longleftrightarrow> (persistenceId q, m) \<in> opkey ` set (pset_list ae')" unfolding jl by (force simp: opkey_def)
  also have "\<dots> \<longleftrightarrow> pset_find ae' (persistenceId q) m \<noteq> None" by (rule opkey_pset_list[OF ok])
  finally show ?thesis .
qed

lemma live_stored:
  "(e' \<Longrightarrow> e \<and> \<not> d \<and> \<not> mi_transient (M m)) \<Longrightarrow> (e \<Longrightarrow> \<not> d \<Longrightarrow> \<not> mi_transient (M m) \<Longrightarrow> e' \<or> db) \<Longrightarrow>
   live M db d e m \<longleftrightarrow> (db \<and> \<not> (mi_transient (M m) \<or> d \<and> \<not> e)) \<or> e'"
  by (auto simp: live_def)

lemma live_kept:
  assumes st: "restart_state B view R M js P ad ae" and q: "q \<in> set (recoveredJournal P)"
    and a: "all_read M f view js (recoveredJournal P) (rstate_start [] [] [] ad ae) s'"
    and c: "cleaned M view (rstate_start [] [] [] ad ae) (persistenceId q) (js (persistenceId q)) J"
  shows "live M (jview view (js (persistenceId q)) m \<noteq> None) (pset_find ad (persistenceId q) m \<noteq> None) (pset_find ae (persistenceId q) m \<noteq> None) m
    \<longleftrightarrow> jview view J m \<noteq> None \<or> pset_find (aeset s') (persistenceId q) m \<noteq> None"
proof -
  let ?q = "persistenceId q" and ?s = "rstate_start [] [] [] ad ae"
  have s: "adset ?s = ad" "aeset ?s = ae" by (simp_all add: rstate_start_def)
  have J: "jview view J m \<noteq> None \<longleftrightarrow> jview view (js ?q) m \<noteq> None \<and>
      \<not> (mi_transient (M m) \<or> pset_find ad ?q m \<noteq> None \<and> \<not> pset_find ae ?q m \<noteq> None)"
    using c by (simp add: cleaned_def s)
  show ?thesis
    unfolding J
  proof (rule live_stored)
    assume e: "pset_find (aeset s') ?q m \<noteq> None"
    then have "pset_find ae ?q m \<noteq> None" using all_read_sub[OF a, of ?q m] s by auto
    then show "pset_find ae ?q m \<noteq> None \<and> \<not> pset_find ad ?q m \<noteq> None \<and> \<not> mi_transient (M m)"
      using all_read_kept[OF a restart_queues[OF st] e] s by simp
  next
    assume "pset_find ae ?q m \<noteq> None" "\<not> pset_find ad ?q m \<noteq> None" "\<not> mi_transient (M m)"
    then show "pset_find (aeset s') ?q m \<noteq> None \<or> jview view (js ?q) m \<noteq> None"
      using all_read_keeps[OF a, of ?q m] s by auto
  qed
qed


text \<open>C35. A message that is in the database of its queue, pending to be enqueued and pending to be
  dequeued is put back on the queue and stays in the database: the pass over the pending
  enqueues drops the pending dequeue before the database is read. It was dequeued before
  the restart.\<close>

theorem dequeued_message_comes_back:
  assumes "restart_state B view R M js P ad ae" and q: "q \<in> set (recoveredJournal P)" and "\<not> mi_transient (M m)"
    and "jview view (js (persistenceId q)) m \<noteq> None" and "pset_find ad (persistenceId q) m \<noteq> None"
    and "pset_find ae (persistenceId q) m \<noteq> None"
  shows "\<exists>mm mq P' J. provider_recoverMessages B R [] [] P = (Inr (mm, mq), P') \<and> on_queue mq (persistenceId q) m \<and>
    jheap P' ! addr q = Some J \<and> jview view J m = jview view (js (persistenceId q)) m"
proof -
  obtain s' P' r where s': "provider_recoverMessages B R [] [] P = (Inr (messageMap s', messageQueueMap s'), P')"
    "all_read M (framing B) view js (recoveredJournal P) (rstate_start [] [] [] ad ae) s'"
    "\<forall>q \<in> set (recoveredJournal P). \<exists>J2. jheap P' ! addr q = Some J2 \<and>
       cleaned M view (rstate_start [] [] [] ad ae) (persistenceId q) (js (persistenceId q)) J2"
    by (rule recovery_spec[OF assms(1)])
  obtain J where J: "jheap P' ! addr q = Some J" "cleaned M view (rstate_start [] [] [] ad ae) (persistenceId q) (js (persistenceId q)) J"
    using s'(3) q by blast
  have "jview view J m = jview view (js (persistenceId q)) m" using J(2) assms(3,6) by (auto simp: cleaned_def rstate_start_def)
  moreover have "on_queue (messageQueueMap s') (persistenceId q) m"
    using on_queue_live[OF s'(2) q, of m] assms(3-6) by (simp add: live_def)
  ultimately show ?thesis using s'(1) J(1) by blast
qed

text \<open>C8. After the recovery the store holds what it has handed to the broker: a message is on a queue
  if and only if it is in the databases of the queue or a task that will store it there is
  in the pool.\<close>

theorem recovery_store_agrees:
  assumes st: "restart_state B view R M js P ad ae"
  shows "\<exists>mm mq P'. provider_recoverMessages B R [] [] P = (Inr (mm, mq), P') \<and>
    (\<forall>q \<in> set (recoveredJournal P). \<exists>J. jheap P' ! addr q = Some J \<and> jinv view J \<and>
      (\<forall>m. on_queue mq (persistenceId q) m \<longleftrightarrow> jview view J m \<noteq> None \<or>
         (\<exists>t \<in> set (enqueuePool P'). task_jc t = Some (addr q) \<and> task_pid t = m)))"
proof -
  let ?s = "rstate_start [] [] [] ad ae"
  obtain s' P' r where s': "provider_recoverMessages B R [] [] P = (Inr (messageMap s', messageQueueMap s'), P')"
    "all_read M (framing B) view js (recoveredJournal P) ?s s'"
    "\<forall>q \<in> set (recoveredJournal P). \<exists>J2. jheap P' ! addr q = Some J2 \<and> cleaned M view ?s (persistenceId q) (js (persistenceId q)) J2"
    "enqueuePool P' = store_tasks B P (pset_list (aeset s'))"
    by (rule recovery_spec[OF st])
  have "\<exists>J. jheap P' ! addr q = Some J \<and> jinv view J \<and> (\<forall>m. on_queue (messageQueueMap s') (persistenceId q) m \<longleftrightarrow> jview view J m \<noteq> None \<or>
      (\<exists>t \<in> set (enqueuePool P'). task_jc t = Some (addr q) \<and> task_pid t = m))" if q: "q \<in> set (recoveredJournal P)" for q
  proof -
    obtain J where J: "jheap P' ! addr q = Some J" "cleaned M view ?s (persistenceId q) (js (persistenceId q)) J" using s'(3) q by blast
    have "on_queue (messageQueueMap s') (persistenceId q) m \<longleftrightarrow> jview view J m \<noteq> None \<or>
        (\<exists>t \<in> set (enqueuePool P'). task_jc t = Some (addr q) \<and> task_pid t = m)" for m
      unfolding on_queue_live[OF s'(2) q] s'(4) task_of_pending[OF st q all_read_aeset[OF s'(2)]]
      by (rule live_kept[OF st q s'(2) J(2)])
    then show ?thesis using J by (auto simp: cleaned_def)
  qed
  then show ?thesis using s'(1) by blast
qed

text \<open>C20. With ids below \<open>2\<^sup>6\<^sup>3\<close>, the id given to the first message after the recovery is higher than
  the id of every message that is back on a queue.\<close>

theorem recovered_ids_not_reused:
  assumes st: "restart_state B view R M js P ad ae" and "highestRid P < 0x8000000000000000"
    and "small_ids view js (recoveredJournal P) (rstate_start [] [] [] ad ae)"
  shows "\<exists>mm mq P'. provider_recoverMessages B R [] [] P = (Inr (mm, mq), P') \<and>
    (\<forall>q \<in> set (recoveredJournal P). \<forall>m. on_queue mq (persistenceId q) m \<longrightarrow> m < fst (IdSequence_next (messageIdSequence P')))"
proof -
  obtain s' P' r where s': "provider_recoverMessages B R [] [] P = (Inr (messageMap s', messageQueueMap s'), P')"
    "all_read M (framing B) view js (recoveredJournal P) (rstate_start [] [] [] ad ae) s'" "messageIdSequence P' = r + 1"
    "ids_read M view js (recoveredJournal P) (rstate_start [] [] [] ad ae) (highestRid P) r"
    by (rule recovery_spec[OF st])
  have r: "r < 0x8000000000000000" using s'(4) assms(2,3) by (simp add: ids_read_def)
  then have n: "r < r + 1" "r + 1 \<noteq> 0" by (auto simp: word_less_nat_alt unat_word_ariths word_unat_eq_iff)
  have "m < fst (IdSequence_next (messageIdSequence P'))"
    if q: "q \<in> set (recoveredJournal P)" and "on_queue (messageQueueMap s') (persistenceId q) m" for q m
  proof -
    have "m \<le> r" using that(2) s'(4) assms(2,3) q unfolding on_queue_live[OF s'(2) q] ids_read_def by (auto simp: rstate_start_def)
    then show ?thesis using n s'(3) by (simp add: IdSequence_next_def)
  qed
  with s'(1) show ?thesis by blast
qed

section \<open>A concrete restart\<close>

text \<open>One queue with the messages 3 and 6 in its database, and logs with one pending enqueue and
  one pending dequeue.\<close>

definition wit_info :: "u64 \<Rightarrow> message_info" where
  "wit_info m = \<lparr>mi_transient = False, mi_header = [7], mi_content = [10, 11, 12]\<rparr>"

definition wit_image :: bytes where
  "wit_image = stored_msg wit_putLong 0 [7] [10, 11, 12]"

definition wit_aol :: aol where
  "wit_aol = \<lparr>enqueueFileIndex = 0, dequeueFileIndex = 0, enqueueFile = ofs_new, dequeueFile = ofs_new, logBaseDir = ''d''\<rparr>"

definition wit_machine :: "u64 \<Rightarrow> u64 \<Rightarrow> os" where
  "wit_machine e d = \<lparr>files = (\<lambda>p. if p = ''d/enq00.log'' then Some (enq_preamble e 1 9 False @ wit_image)
      else if p = ''d/deq00.log'' then Some (deq_start_record d 1) else None),
     can_open = \<lambda>_. True, can_alloc = \<lambda>_ _. True\<rparr>"

definition wit_pending :: "u64 \<Rightarrow> pending_enq" where
  "wit_pending e = (PendingAsyncEnqueue e 1 False)\<lparr>enq_size := 9, enq_buff := wit_image\<rparr>"

lemma wit_image_length [simp]: "length wit_image = 9"
  by (simp add: wit_image_def stored_msg_def wit_putLong_def)

lemma wit_names:
  "buildEnqLogName A 0 False = logBaseDir A @ ''/enq00.log''" "buildEnqLogName A 1 False = logBaseDir A @ ''/enq01.log''"
  "buildDeqLogName A 0 False = logBaseDir A @ ''/deq00.log''" "buildDeqLogName A 1 False = logBaseDir A @ ''/deq01.log''"
proof -
  have "nat_string 0 = ''0''" "nat_string (Suc 0) = ''1''"
    using char_of_char[of "CHR ''0''", where 'a = nat] char_of_char[of "CHR ''1''", where 'a = nat]
    by (simp_all add: nat_string.simps)
  then show "buildEnqLogName A 0 False = logBaseDir A @ ''/enq00.log''" "buildEnqLogName A 1 False = logBaseDir A @ ''/enq01.log''"
    "buildDeqLogName A 0 False = logBaseDir A @ ''/deq00.log''" "buildDeqLogName A 1 False = logBaseDir A @ ''/deq01.log''"
    by (simp_all add: buildEnqLogName_def buildDeqLogName_def int_string_def)
qed

lemma wit_deq_read: "deq_read_loop (deq_start_record d 1) ([], []) = ([(1, [(d, PendingAsyncDequeue d 1)])], [])"
  by (simp add: deq_start_record_def aolog_codes aolog_sizes Let_def pset_insert_def)

lemma wit_enq_read: "enq_read_loop (\<lambda>_. True) (enq_preamble e 1 9 False @ wit_image) ([], []) = Inr ([(1, [(e, wit_pending e)])], [])"
  by (simp add: enq_preamble_def aolog_codes aolog_sizes Let_def pset_insert_def wit_pending_def nth_append)

lemma wit_logs:
  "\<exists>r1 Aw1 r2 Aw2. recoverAsyncDequeue [] (wit_aol, wit_machine e d) = (r1, [(1, [(d, PendingAsyncDequeue d 1)])], Aw1) \<and>
    recoverAsyncEnqueue [] Aw1 = Inr (r2, [(1, [(e, wit_pending e)])], Aw2)"
  by (simp add: recoverAsyncDequeue_def recoverAsyncEnqueue_def extractPendingDequeueFromFile_def extractPendingEnqueueFromFile_def
      wit_names wit_aol_def wit_machine_def Let_def wit_deq_read wit_enq_read os_remove_def open_enq_def open_deq_def ofs_open_app_def
      ofs_new_def content_def pset_list_def log_dequeue_start_def log_dequeue_start_on_file_def ofs_write_def log_enqueue_start_def
      log_enqueue_start_on_file_def wit_pending_def PendingAsyncEnqueue_def)

definition wit_journal3 :: "(u64 \<times> bytes) list journal" where
  "wit_journal3 = wit_journal0\<lparr>messageDbs := [Some [(3, wit_image), (6, wit_image)]]\<rparr>"

definition wit_restart :: "u64 \<Rightarrow> u64 \<Rightarrow> ((u64 \<times> bytes) list, (u64 \<times> bytes) list) provider" where
  "wit_restart e d = wit_running\<lparr>jheap := [Some wit_journal3], enqueuePool := [], recoveredJournal := [wit_queue1],
     aologger := Some wit_aol, machine := wit_machine e d\<rparr>"

abbreviation wit_ad :: "u64 \<Rightarrow> PendingDequeueSet" where
  "wit_ad d \<equiv> [(1, [(d, PendingAsyncDequeue d 1)])]"

abbreviation wit_ae :: "u64 \<Rightarrow> PendingEnqueueSet" where
  "wit_ae e \<equiv> [(1, [(e, wit_pending e)])]"

lemma wit_journal3_view: "jview map_of wit_journal3 m = (if m = 3 \<or> m = 6 then Some wit_image else None)"
  by (simp add: jview_def jindex_def wit_journal3_def wit_journal0_def)

lemma wit_journal3_inv: "jinv map_of wit_journal3"
  by (auto simp: jinv_def jindex_def wit_journal3_def wit_journal0_def)

lemma wit_msg_image: "msg_image wit_wire wit_info m = wit_image"
  by (simp add: msg_image_def wit_info_def wit_wire_def wit_image_def)

lemma wit_find: "pset_find (wit_ae e) q m = (if q = 1 \<and> m = e then Some (wit_pending e) else None)"
  "pset_find (wit_ad d) q m = (if q = 1 \<and> m = d then Some (PendingAsyncDequeue d 1) else None)"
  by (simp_all add: pset_find_def)

lemma wit_pending_fields [simp]: "msgId (wit_pending e) = e" "queueId (wit_pending e) = 1" "enq_size (wit_pending e) = 9"
  "enq_buff (wit_pending e) = wit_image" "enq_transient (wit_pending e) = False"
  by (simp_all add: wit_pending_def PendingAsyncEnqueue_def)

lemma wit_pending_ok: "pending_ok wit_wire wit_info (wit_ae e)"
proof -
  have "keyed (wit_ae e)" by (auto simp: keyed_def wit_find opkey_def split: if_splits)
  moreover have "take 9 wit_image = wit_image" by simp
  ultimately show ?thesis
    by (auto simp: pending_ok_def pset_ok_def wit_find wit_msg_image wit_info_def split: if_splits)
qed

lemma wit_readable: "readable (framing wit_bdb) wit_rm wit_info"
  using wit_long_codec by (simp add: readable_def wit_bdb_def wit_wire_def wit_rm_def wit_info_def)

lemma wit_queue_at:
  assumes "key_window {3, 6, e}"
  shows "queue_at wit_bdb map_of wit_info (wit_restart e d) (wit_ae e) wit_queue1 0 wit_journal3"
proof -
  have dm: "dom (jview map_of wit_journal3) = {3, 6}" by (auto simp: wit_journal3_view dom_def split: if_splits)
  have "dom (jview map_of wit_journal3) \<union> {m. pset_find (wit_ae e) 1 m \<noteq> None} = {3, 6, e}"
    unfolding dm by (auto simp: wit_find split: if_splits)
  moreover have "init_message_db (msg_api wit_bdb) wit_journal3 = Inr wit_journal3"
    using wit_journal3_inv by (simp add: init_message_db_def jinv_def)
  moreover have "transientList wit_journal3 = []" "acceptedList wit_journal3 = []" "queuePid wit_journal3 = 1"
    by (simp_all add: wit_journal3_def wit_journal0_def)
  moreover have "\<forall>m v. jview map_of wit_journal3 m = Some v \<longrightarrow> v = msg_image (framing wit_bdb) wit_info m"
    by (auto simp: wit_journal3_view wit_bdb_def wit_msg_image split: if_splits)
  moreover have "card (dom (jview map_of wit_journal3)) = 2" unfolding dm by simp
  ultimately show ?thesis using assms wit_journal3_inv
    by (simp add: queue_at_def wit_queue1_def wit_restart_def pset_list_def)
qed

lemma wit_restart_state:
  assumes "key_window {3, 6, e}"
  shows "restart_state wit_bdb map_of wit_rm wit_info (\<lambda>_. wit_journal3) (wit_restart e d) (wit_ad d) (wit_ae e)"
proof -
  have l: "\<exists>A r1 Aw1 r2 Aw2. aologger (wit_restart e d) = Some A \<and>
      recoverAsyncDequeue [] (A, machine (wit_restart e d)) = (r1, wit_ad d, Aw1) \<and> recoverAsyncEnqueue [] Aw1 = Inr (r2, wit_ae e, Aw2)"
    using wit_logs[of e d] by (simp add: wit_restart_def)
  have q: "recoveredJournal (wit_restart e d) = [wit_queue1]" "addr wit_queue1 = 0" "persistenceId wit_queue1 = 1"
    "journalList (wit_restart e d) = [(1, Some 0)]" "enqueuePool (wit_restart e d) = []" "options (wit_restart e d) = StoreOptions"
    by (simp_all add: wit_restart_def wit_running_def wit_ready_def wit_provider_def BdbStoreProvider_new_def addr_def wit_queue1_def)
  have b: "msg_api wit_bdb = list_db bt_compare_func" "framing wit_bdb = wit_wire" "pool_accepts wit_bdb" by (simp_all add: wit_bdb_def)
  show ?thesis
    unfolding restart_state_def q
    using l wit_readable wit_pending_ok[of e] wit_queue_at[OF assms, of d] list_db_laws
    by (simp add: q b StoreOptions_def)
qed

lemma wit_window: "key_window {3, 6, 4}" "key_window {3, 6, 3}"
  by (auto simp: key_window_def)

lemma wit_restart_queue: "recoveredJournal (wit_restart e d) = [wit_queue1]" "persistenceId wit_queue1 = 1" "addr wit_queue1 = 0"
  by (simp_all add: wit_restart_def wit_queue1_def addr_def)


theorem dequeued_message_comes_back_witness:
  "\<exists>mm mq P'. provider_recoverMessages wit_bdb wit_rm [] [] (wit_restart 3 3) = (Inr (mm, mq), P') \<and> on_queue mq 1 3"
proof -
  have "wit_queue1 \<in> set (recoveredJournal (wit_restart 3 3))" "\<not> mi_transient (wit_info 3)" "jview map_of wit_journal3 3 \<noteq> None"
    "pset_find (wit_ad 3) (persistenceId wit_queue1) 3 \<noteq> None" "pset_find (wit_ae 3) (persistenceId wit_queue1) 3 \<noteq> None"
    by (simp_all add: wit_restart_queue wit_find wit_journal3_view wit_info_def)
  from dequeued_message_comes_back[OF wit_restart_state[OF wit_window(2)] this] show ?thesis
    unfolding wit_restart_queue by blast
qed

theorem recovery_store_agrees_witness:
  "\<exists>mm mq P'. provider_recoverMessages wit_bdb wit_rm [] [] (wit_restart 4 6) = (Inr (mm, mq), P') \<and>
    (\<exists>J. jheap P' ! 0 = Some J \<and> jinv map_of J \<and> (\<forall>m. on_queue mq 1 m \<longleftrightarrow> jview map_of J m \<noteq> None \<or>
       (\<exists>t \<in> set (enqueuePool P'). task_jc t = Some 0 \<and> task_pid t = m)))"
  using recovery_store_agrees[OF wit_restart_state[OF wit_window(1), of 6]] by (simp add: wit_restart_queue)

theorem recovered_ids_not_reused_witness:
  "\<exists>mm mq P'. provider_recoverMessages wit_bdb wit_rm [] [] (wit_restart 4 6) = (Inr (mm, mq), P') \<and>
    (\<forall>m. on_queue mq 1 m \<longrightarrow> m < fst (IdSequence_next (messageIdSequence P')))"
proof -
  have h: "highestRid (wit_restart 4 6) < 0x8000000000000000"
    by (simp add: wit_restart_def wit_running_def wit_ready_def wit_provider_def BdbStoreProvider_new_def)
  have "small_ids map_of (\<lambda>_. wit_journal3) (recoveredJournal (wit_restart 4 6)) (rstate_start [] [] [] (wit_ad 6) (wit_ae 4))"
    by (auto simp: small_ids_def wit_restart_queue rstate_start_def wit_find wit_journal3_view split: if_splits)
  from recovered_ids_not_reused[OF wit_restart_state[OF wit_window(1)] h this] show ?thesis by (simp add: wit_restart_queue)
qed

end
