(* ===== verification/MessageStorePlugin.thy ===== *)
theory MessageStorePlugin
  imports MessageRecovery Bindings "HOL-Library.List_Lexorder" "HOL-Library.Char_ord"
begin

text \<open>
  \<^verbatim>\<open>lib/MessageStorePlugin.cpp\<close>, the front end the broker talks to, and the abstract class of
  \<^verbatim>\<open>lib/StorageProvider.h\<close> it calls through. A provider is an object of its own: its table of
  virtual functions, a record, and its state. The plugin keeps pointers to the providers
  by name and an iterator to the one in use. What \<^verbatim>\<open>qpid::Plugin\<close> does to reach the other
  plugins (\<^verbatim>\<open>earlyInitAll\<close>) and to run finalizers is a parameter.
\<close>

section \<open>The interface of a storage provider\<close>

text \<open>Field tables are their encoded bytes. \<open>sp_earlyInitialize\<close> is the call with the message
  store as its target; it returns the name the provider announces itself with, if it does.
  \<open>sp_recoverTransactions\<close> returns the ids of the prepared transactions.\<close>

record 's storage_provider =
  sp_earlyInitialize :: "('s, string option) comp"
  sp_initialize :: "('s, unit) comp"
  sp_activate :: "('s, unit) comp"
  sp_finalize :: "('s, unit) comp"
  sp_truncateInit :: "bool \<Rightarrow> ('s, unit) comp"
  sp_create_queue :: "pqueue \<Rightarrow> bytes \<Rightarrow> ('s, pqueue) comp"
  sp_destroy_queue :: "pqueue \<Rightarrow> ('s, pqueue) comp"
  sp_create_exchange :: "persistable \<Rightarrow> bytes \<Rightarrow> ('s, persistable) comp"
  sp_destroy_exchange :: "persistable \<Rightarrow> ('s, unit) comp"
  sp_bind :: "persistable \<Rightarrow> pqueue \<Rightarrow> string \<Rightarrow> bytes \<Rightarrow> ('s, unit) comp"
  sp_unbind :: "persistable \<Rightarrow> pqueue \<Rightarrow> string \<Rightarrow> bytes \<Rightarrow> ('s, unit) comp"
  sp_create_config :: "persistable \<Rightarrow> ('s, persistable) comp"
  sp_destroy_config :: "persistable \<Rightarrow> ('s, unit) comp"
  sp_stage :: "message \<Rightarrow> ('s, unit) comp"
  sp_destroy_message :: "message \<Rightarrow> ('s, unit) comp"
  sp_appendContent :: "message \<Rightarrow> bytes \<Rightarrow> ('s, unit) comp"
  sp_loadContent :: "pqueue \<Rightarrow> message \<Rightarrow> bytes \<Rightarrow> u64 \<Rightarrow> u32 \<Rightarrow> ('s, bytes) comp"
  sp_enqueue :: "message \<Rightarrow> pqueue \<Rightarrow> ('s, message) comp"
  sp_dequeue :: "message \<Rightarrow> pqueue \<Rightarrow> ('s, unit) comp"
  sp_flush :: "pqueue \<Rightarrow> ('s, unit) comp"
  sp_outstandingQueueAIO :: "pqueue \<Rightarrow> ('s, u32) comp"
  sp_begin :: "('s, unit) comp"
  sp_begin_tpc :: "string \<Rightarrow> ('s, unit) comp"
  sp_prepare :: "('s, unit) comp"
  sp_commit :: "('s, unit) comp"
  sp_abort :: "('s, unit) comp"
  sp_collectPreparedXids :: "('s, string list) comp"
  sp_recoverConfigs :: "recovery_manager \<Rightarrow> ('s, (u64 \<times> bytes) list) comp"
  sp_recoverExchanges :: "recovery_manager \<Rightarrow> (u64, bytes) smap \<Rightarrow> ('s, (u64, bytes) smap) comp"
  sp_recoverQueues :: "recovery_manager \<Rightarrow> (u64, pqueue) smap \<Rightarrow> ('s, (u64, pqueue) smap) comp"
  sp_recoverBindings :: "recovery_manager \<Rightarrow> (u64, bytes) smap \<Rightarrow> (u64, pqueue) smap \<Rightarrow> ('s, binding list) comp"
  sp_recoverMessages :: "recovery_manager \<Rightarrow> message_map \<Rightarrow> message_queue_map \<Rightarrow> ('s, message_map \<times> message_queue_map) comp"
  sp_recoverTransactions :: "recovery_manager \<Rightarrow> string list \<Rightarrow> ('s, string list) comp"

text \<open>The Berkeley DB provider behind that interface. It announces itself as \<open>BDB\<close>; \<^verbatim>\<open>initialize\<close>
  has no body and \<^verbatim>\<open>activate\<close> only logs. \<open>obs\<close> are the tracker states \<^verbatim>\<open>loadContent\<close> sees.\<close>

definition bdb_provider ::
    "('db, 'mdb) bdb \<Rightarrow> string option \<Rightarrow> pid_tracker list list \<Rightarrow> ('db, 'mdb) provider storage_provider" where
  "bdb_provider B data_dir obs = \<lparr>
     sp_earlyInitialize = bindE (earlyInitialize B True data_dir) (\<lambda>announced. retE (if announced then Some ''BDB'' else None)),
     sp_initialize = retE (), sp_activate = retE (), sp_finalize = finalizeMe, sp_truncateInit = truncateInit B,
     sp_create_queue = (\<lambda>q args. create_queue B q), sp_destroy_queue = destroy_queue B,
     sp_create_exchange = (\<lambda>e args. create_exchange B e), sp_destroy_exchange = destroy_exchange B,
     sp_bind = bind B, sp_unbind = (\<lambda>e q k args. unbind B e q k),
     sp_create_config = create_config B, sp_destroy_config = destroy_config B,
     sp_stage = stage, sp_destroy_message = destroy_message, sp_appendContent = appendContent,
     sp_loadContent = loadContent B obs, sp_enqueue = enqueue B, sp_dequeue = dequeue B,
     sp_flush = flush_queue B, sp_outstandingQueueAIO = outstandingQueueAIO,
     sp_begin = begin_txn, sp_begin_tpc = begin_tpc, sp_prepare = prepare, sp_commit = commit, sp_abort = abort_txn,
     sp_collectPreparedXids = collectPreparedXids,
     sp_recoverConfigs = recoverConfigs B, sp_recoverExchanges = recoverExchanges B, sp_recoverQueues = recoverQueues B,
     sp_recoverBindings = (\<lambda>R. recoverBindings B), sp_recoverMessages = provider_recoverMessages B,
     sp_recoverTransactions = (\<lambda>R dtx. thenE recoverTransactions (retE dtx))\<rparr>"

section \<open>The state of the plugin\<close>

text \<open>The iterator \<^verbatim>\<open>provider\<close> before it is assigned, at the end of the map, or at an entry.\<close>

datatype provider_iterator = Singular | AtEnd | At string

text \<open>What the recovery does to the broker's queues and prepared transactions.\<close>

datatype broker_call =
    QueueRecover pqueue rmessage
  | TxnEnqueue string pqueue rmessage
  | TxnDequeue string pqueue rmessage

record 's store_plugin =
  providerName :: string
  providers :: "(string, nat) smap"
  provider_it :: provider_iterator
  pl_broker :: bool
  pl_finalizers :: "nat list"
  objects :: "('s storage_provider \<times> 's) list"
  broker_store :: bool
  broker_finalizer :: bool
  calls :: "broker_call list"

definition MessageStorePlugin_new :: "string \<Rightarrow> ('s storage_provider \<times> 's) list \<Rightarrow> 's store_plugin" where
  "MessageStorePlugin_new name objs = \<lparr>providerName = name, providers = [], provider_it = Singular, pl_broker = False,
     pl_finalizers = [], objects = objs, broker_store = False, broker_finalizer = False, calls = []\<rparr>"

text \<open>A call of a virtual function on the provider at an address, and on \<^verbatim>\<open>provider->second\<close>.\<close>

definition at_object :: "nat \<Rightarrow> ('s storage_provider \<Rightarrow> ('s, 'a) comp) \<Rightarrow> ('s store_plugin, 'a) comp" where
  "at_object a f S =
     (if a < length (objects S)
      then case objects S ! a of (V, s) \<Rightarrow> (case f V s of (r, s') \<Rightarrow> (r, S\<lparr>objects := (objects S)[a := (V, s')]\<rparr>))
      else (Inl (Fault UseAfterFree), S))"

definition via_provider :: "('s storage_provider \<Rightarrow> ('s, 'a) comp) \<Rightarrow> ('s store_plugin, 'a) comp" where
  "via_provider f S =
     (case provider_it S of
        Singular \<Rightarrow> (Inl (Fault NullPointer), S)
      | AtEnd \<Rightarrow> (Inl (Fault OutOfBounds), S)
      | At n \<Rightarrow> (case map_of (providers S) n of None \<Rightarrow> (Inl (Fault OutOfBounds), S) | Some a \<Rightarrow> at_object a f S))"

section \<open>Initialisation\<close>

definition providerAvailable :: "string \<Rightarrow> nat \<Rightarrow> ('s store_plugin, unit) comp" where
  "providerAvailable name be = modE (\<lambda>S. S\<lparr>providers := smap_insert name be (providers S)\<rparr>)"

text \<open>The call back of a provider that announces itself, and the finalizer it registers.\<close>

definition announce :: "nat \<Rightarrow> ('s store_plugin, unit) comp" where
  "announce a =
     bindE (at_object a sp_earlyInitialize) (\<lambda>n.
       case n of
         None \<Rightarrow> retE ()
       | Some name \<Rightarrow> thenE (providerAvailable name a) (modE (\<lambda>S. S\<lparr>pl_finalizers := pl_finalizers S @ [a]\<rparr>)))"

text \<open>The part that settles which provider is used.\<close>

definition select_provider :: "('s store_plugin, unit) comp" where
  "select_provider =
     bindE (getE id) (\<lambda>S.
       if providerName S \<noteq> []
       then (if map_of (providers S) (providerName S) = None
             then thenE (modE (\<lambda>S. S\<lparr>provider_it := AtEnd\<rparr>))
                    (throwE (QpidException (''Message store plugin: storage provider '' @ [CHR 0x27] @ providerName S @ [CHR 0x27] @ '' does not exist.'')))
             else modE (\<lambda>S. S\<lparr>provider_it := At (providerName S)\<rparr>))
       else if length (providers S) > 1
       then thenE (modE (\<lambda>S. S\<lparr>provider_it := AtEnd\<rparr>))
              (throwE (QpidException (''Message store plugin: multiple provider plugins '' @
                 ''loaded; must either load only one or select one using --storage-provider'')))
       else modE (\<lambda>S. S\<lparr>provider_it := At (fst (hd (providers S)))\<rparr>))"

definition plugin_earlyInitialize ::
    "((nat \<Rightarrow> ('s store_plugin, unit) comp) \<Rightarrow> ('s store_plugin, unit) comp) \<Rightarrow> bool \<Rightarrow> ('s store_plugin, unit) comp" where
  "plugin_earlyInitialize earlyInitAll is_broker =
     (if \<not> is_broker then retE ()
      else thenE (modE (\<lambda>S. S\<lparr>pl_broker := True\<rparr>))
           (thenE (earlyInitAll announce)
           (bindE (getE providers) (\<lambda>ps.
            if ps = [] then modE (\<lambda>S. S\<lparr>provider_it := AtEnd\<rparr>)
            else thenE select_provider
                 (thenE (via_provider sp_activate)
                 (modE (\<lambda>S. S\<lparr>broker_store := True, broker_finalizer := True\<rparr>)))))))"

definition plugin_initialize :: "bool \<Rightarrow> ('s store_plugin, unit) comp" where
  "plugin_initialize is_broker =
     (if \<not> is_broker then retE ()
      else bindE (getE provider_it) (\<lambda>i. whenE (i \<noteq> AtEnd) (via_provider sp_initialize)))"

definition plugin_finalizeMe ::
    "(nat list \<Rightarrow> (nat \<Rightarrow> ('s store_plugin, unit) comp) \<Rightarrow> ('s store_plugin, unit) comp) \<Rightarrow> ('s store_plugin, unit) comp" where
  "plugin_finalizeMe finalize = bindE (getE pl_finalizers) (\<lambda>l. finalize l (\<lambda>a. at_object a sp_finalize))"

text \<open>Only logs.\<close>

definition plugin_truncateInit :: "bool \<Rightarrow> ('s store_plugin, unit) comp" where
  "plugin_truncateInit saveStoreContent = retE ()"

section \<open>Operations\<close>

definition plugin_create_queue :: "pqueue \<Rightarrow> bytes \<Rightarrow> ('s store_plugin, pqueue) comp" where
  "plugin_create_queue queue args =
     (if length (pname queue) = 0 then retE queue
      else if persistenceId queue \<noteq> 0 then throwE (StoreException (''Queue already created: '' @ pname queue))
      else via_provider (\<lambda>V. sp_create_queue V queue args))"

definition plugin_destroy_queue :: "pqueue \<Rightarrow> ('s store_plugin, pqueue) comp" where
  "plugin_destroy_queue queue = via_provider (\<lambda>V. sp_destroy_queue V queue)"

definition plugin_create_exchange :: "persistable \<Rightarrow> bytes \<Rightarrow> ('s store_plugin, persistable) comp" where
  "plugin_create_exchange exchange args =
     (if persistenceId exchange \<noteq> 0 then throwE (StoreException (''Exchange already created: '' @ pname exchange))
      else via_provider (\<lambda>V. sp_create_exchange V exchange args))"

definition plugin_destroy_exchange :: "persistable \<Rightarrow> ('s store_plugin, unit) comp" where
  "plugin_destroy_exchange exchange = via_provider (\<lambda>V. sp_destroy_exchange V exchange)"

definition plugin_bind :: "persistable \<Rightarrow> pqueue \<Rightarrow> string \<Rightarrow> bytes \<Rightarrow> ('s store_plugin, unit) comp" where
  "plugin_bind exchange queue key args = via_provider (\<lambda>V. sp_bind V exchange queue key args)"

definition plugin_unbind :: "persistable \<Rightarrow> pqueue \<Rightarrow> string \<Rightarrow> bytes \<Rightarrow> ('s store_plugin, unit) comp" where
  "plugin_unbind exchange queue key args = via_provider (\<lambda>V. sp_unbind V exchange queue key args)"

definition plugin_create_config :: "persistable \<Rightarrow> ('s store_plugin, persistable) comp" where
  "plugin_create_config config =
     (if persistenceId config \<noteq> 0 then throwE (StoreException (''Config item already created: '' @ pname config))
      else via_provider (\<lambda>V. sp_create_config V config))"

definition plugin_destroy_config :: "persistable \<Rightarrow> ('s store_plugin, unit) comp" where
  "plugin_destroy_config config = via_provider (\<lambda>V. sp_destroy_config V config)"

definition plugin_stage :: "message \<Rightarrow> bool \<Rightarrow> ('s store_plugin, unit) comp" where
  "plugin_stage msg isContentReleased =
     whenE (msg_pid msg = 0 \<and> \<not> isContentReleased) (via_provider (\<lambda>V. sp_stage V msg))"

definition plugin_destroy_message :: "message \<Rightarrow> ('s store_plugin, unit) comp" where
  "plugin_destroy_message msg = whenE (msg_pid msg \<noteq> 0) (via_provider (\<lambda>V. sp_destroy_message V msg))"

definition plugin_appendContent :: "message \<Rightarrow> bytes \<Rightarrow> ('s store_plugin, unit) comp" where
  "plugin_appendContent msg data =
     (if msg_pid msg \<noteq> 0 then via_provider (\<lambda>V. sp_appendContent V msg data)
      else throwE (StoreException ''Cannot append content. Message not known to store!''))"

definition plugin_loadContent :: "pqueue \<Rightarrow> message \<Rightarrow> bytes \<Rightarrow> u64 \<Rightarrow> u32 \<Rightarrow> ('s store_plugin, bytes) comp" where
  "plugin_loadContent queue msg data offset len =
     (if msg_pid msg \<noteq> 0 then via_provider (\<lambda>V. sp_loadContent V queue msg data offset len)
      else throwE (StoreException ''Cannot load content. Message not known to store!''))"

definition plugin_enqueue :: "message \<Rightarrow> pqueue \<Rightarrow> ('s store_plugin, message) comp" where
  "plugin_enqueue msg queue =
     (if persistenceId queue = 0 then throwE (StoreException (''Queue not created: '' @ pname queue))
      else via_provider (\<lambda>V. sp_enqueue V msg queue))"

definition plugin_dequeue :: "message \<Rightarrow> pqueue \<Rightarrow> ('s store_plugin, unit) comp" where
  "plugin_dequeue msg queue = via_provider (\<lambda>V. sp_dequeue V msg queue)"

definition plugin_flush :: "pqueue \<Rightarrow> ('s store_plugin, unit) comp" where
  "plugin_flush queue = via_provider (\<lambda>V. sp_flush V queue)"

definition plugin_outstandingQueueAIO :: "pqueue \<Rightarrow> ('s store_plugin, u32) comp" where
  "plugin_outstandingQueueAIO queue = via_provider (\<lambda>V. sp_outstandingQueueAIO V queue)"

definition plugin_begin :: "('s store_plugin, unit) comp" where
  "plugin_begin = via_provider sp_begin"

definition plugin_begin_tpc :: "string \<Rightarrow> ('s store_plugin, unit) comp" where
  "plugin_begin_tpc xid = via_provider (\<lambda>V. sp_begin_tpc V xid)"

definition plugin_prepare :: "('s store_plugin, unit) comp" where
  "plugin_prepare = via_provider sp_prepare"

definition plugin_commit :: "('s store_plugin, unit) comp" where
  "plugin_commit = via_provider sp_commit"

definition plugin_abort :: "('s store_plugin, unit) comp" where
  "plugin_abort = via_provider sp_abort"

definition plugin_collectPreparedXids :: "('s store_plugin, string list) comp" where
  "plugin_collectPreparedXids = via_provider sp_collectPreparedXids"

section \<open>Recovery\<close>

text \<open>The six calls on the provider, in their order. The maps start empty.\<close>

record recovered_objects =
  ro_configs :: "(u64 \<times> bytes) list"
  ro_exchanges :: "(u64, bytes) smap"
  ro_queues :: "(u64, pqueue) smap"
  ro_bindings :: "binding list"
  ro_messages :: message_map
  ro_messageQueueMap :: message_queue_map
  ro_dtxMap :: "string list"

definition recover_objects :: "recovery_manager \<Rightarrow> 's storage_provider \<Rightarrow> ('s, recovered_objects) comp" where
  "recover_objects R V =
     bindE (sp_recoverConfigs V R) (\<lambda>cs.
     bindE (sp_recoverExchanges V R []) (\<lambda>em.
     bindE (sp_recoverQueues V R []) (\<lambda>qm.
     bindE (sp_recoverBindings V R em qm) (\<lambda>bs.
     bindE (sp_recoverMessages V R [] []) (\<lambda>(mm, mq).
     bindE (sp_recoverTransactions V R []) (\<lambda>dtx.
     retE \<lparr>ro_configs = cs, ro_exchanges = em, ro_queues = qm, ro_bindings = bs, ro_messages = mm,
           ro_messageQueueMap = mq, ro_dtxMap = dtx\<rparr>))))))"

definition broker_does :: "broker_call \<Rightarrow> ('s store_plugin, unit) comp" where
  "broker_does c = modE (\<lambda>S. S\<lparr>calls := calls S @ [c]\<rparr>)"

text \<open>\<^verbatim>\<open>dtxMap[xid]\<close> is a null pointer for an unknown transaction.\<close>

definition requeue_entry :: "recovered_objects \<Rightarrow> rmessage \<Rightarrow> queue_entry \<Rightarrow> ('s store_plugin, unit) comp" where
  "requeue_entry ro msg j =
     (case map_of (ro_queues ro) (qe_queueId j) of
        None \<Rightarrow> throwE (StoreException (''No matching queue trying to re-enqueue message  on queue Id '' @ nat_string (unat (qe_queueId j))))
      | Some q \<Rightarrow>
          thenE (whenE (tplStatus j \<noteq> ADDING) (broker_does (QueueRecover q msg)))
          (case tplStatus j of
             ADDING \<Rightarrow> if qe_xid j \<in> set (ro_dtxMap ro) then broker_does (TxnEnqueue (qe_xid j) q msg) else throwE (Fault NullPointer)
           | REMOVING \<Rightarrow> if qe_xid j \<in> set (ro_dtxMap ro) then broker_does (TxnDequeue (qe_xid j) q msg) else throwE (Fault NullPointer)
           | NONE \<Rightarrow> retE ()))"

definition requeue_message :: "recovered_objects \<Rightarrow> u64 \<times> queue_entry list \<Rightarrow> ('s store_plugin, unit) comp" where
  "requeue_message ro = (\<lambda>(i, entries).
     case map_of (ro_messages ro) i of
       None \<Rightarrow> throwE (StoreException (''No matching message trying to re-enqueue message '' @ nat_string (unat i)))
     | Some msg \<Rightarrow> forE entries (requeue_entry ro msg))"

definition plugin_recover :: "recovery_manager \<Rightarrow> ('s store_plugin, recovered_objects) comp" where
  "plugin_recover R =
     bindE (via_provider (recover_objects R)) (\<lambda>ro.
     thenE (forE (ro_messageQueueMap ro) (requeue_message ro)) (retE ro))"

section \<open>Which provider is used\<close>

text \<open>A provider may be used if it has announced itself and no other one was asked for.\<close>

definition eligible :: "'s store_plugin \<Rightarrow> string \<Rightarrow> bool" where
  "eligible S n \<longleftrightarrow> n \<in> dom (map_of (providers S)) \<and> (providerName S = [] \<or> n = providerName S)"

lemma singleton_smap:
  assumes "smap_ok m" and "m \<noteq> []"
  shows "length m > 1 \<longleftrightarrow> \<not> (\<exists>!k. k \<in> dom (map_of m))" and "fst (hd m) \<in> dom (map_of m)"
proof -
  obtain k v m' where m: "m = (k, v) # m'" using assms(2) by (metis list.exhaust surj_pair)
  show "fst (hd m) \<in> dom (map_of m)" by (simp add: m)
  show "length m > 1 \<longleftrightarrow> \<not> (\<exists>!k. k \<in> dom (map_of m))"
  proof (cases m')
    case (Cons x l)
    then have "k \<noteq> fst x" "k \<in> dom (map_of m)" "fst x \<in> dom (map_of m)" using assms(1) by (auto simp: m dom_map_of_conv_image_fst)
    then show ?thesis using Cons m by auto
  qed (auto simp: m)
qed

text \<open>The three outcomes of the choice.\<close>

definition points_to :: "'s store_plugin \<Rightarrow> string \<Rightarrow> 's store_plugin" where
  "points_to S n = S\<lparr>provider_it := At n\<rparr>"

lemma select_provider_spec:
  assumes "smap_ok (providers S)" and "providers S \<noteq> []"
  shows "(\<exists>n. eligible S n \<and> (\<forall>k. eligible S k \<longrightarrow> k = n) \<and> select_provider S = (Inr (), points_to S n)) \<or>
    \<not> (\<exists>!n. eligible S n) \<and> (\<exists>t. select_provider S = (Inl (QpidException t), S\<lparr>provider_it := AtEnd\<rparr>))"
proof (cases "providerName S = []")
  case True
  note h = singleton_smap[OF assms]
  have e: "eligible S = (\<lambda>n. n \<in> dom (map_of (providers S)))" using True by (simp add: eligible_def fun_eq_iff)
  show ?thesis
  proof (cases "length (providers S) > 1")
    case True
    then show ?thesis using h(1) \<open>providerName S = []\<close> by (simp add: e select_provider_def comp_simps)
  next
    case False
    then have "\<forall>k. k \<in> dom (map_of (providers S)) \<longrightarrow> k = fst (hd (providers S))" using h by blast
    moreover have "select_provider S = (Inr (), points_to S (fst (hd (providers S))))"
      using False \<open>providerName S = []\<close> by (simp add: select_provider_def comp_simps points_to_def)
    ultimately show ?thesis using h(2) unfolding e by blast
  qed
next
  case False
  then have e: "eligible S n \<longleftrightarrow> n = providerName S \<and> map_of (providers S) n \<noteq> None" for n by (auto simp: eligible_def)
  show ?thesis unfolding e using False
    by (cases "map_of (providers S) (providerName S)") (auto simp: select_provider_def comp_simps points_to_def)
qed

lemma via_provider_at:
  "provider_it S = At n \<Longrightarrow> map_of (providers S) n = Some a \<Longrightarrow> a < length (objects S) \<Longrightarrow> objects S ! a = (V, s) \<Longrightarrow>
   via_provider f S = (fst (f V s), S\<lparr>objects := (objects S)[a := (V, snd (f V s))]\<rparr>)"
  by (simp add: via_provider_def at_object_def case_prod_beta)

text \<open>C28. When the providers have announced themselves, the broker gets the store if and only if
  exactly one of them may be used, and then the plugin forwards to that one. Without any
  provider it returns and leaves the broker without a store; otherwise it throws. In no
  case does the later \<^verbatim>\<open>initialize\<close> follow an invalid iterator.\<close>

theorem provider_selection:
  assumes "earlyInitAll announce (S\<lparr>pl_broker := True\<rparr>) = (Inr (), S1)" and "\<not> broker_store S1"
    and "smap_ok (providers S1)" and "\<forall>n a. map_of (providers S1) n = Some a \<longrightarrow> a < length (objects S1)"
    and "\<forall>(V, s) \<in> set (objects S1). fst (sp_activate V s) = Inr () \<and> (\<forall>s'. fst (sp_initialize V s') = Inr ())"
  shows "\<exists>r S2. plugin_earlyInitialize earlyInitAll True S = (r, S2) \<and>
    (broker_store S2 \<longleftrightarrow> (\<exists>!n. eligible S1 n)) \<and>
    (\<forall>n. broker_store S2 \<longrightarrow> eligible S1 n \<longrightarrow> r = Inr () \<and> provider_it S2 = At n) \<and>
    (\<not> broker_store S2 \<longrightarrow> provider_it S2 = AtEnd \<and> (r = Inr () \<longleftrightarrow> providers S1 = [])) \<and>
    fst (plugin_initialize True S2) = Inr ()"
proof -
  have start: "plugin_earlyInitialize earlyInitAll True S = (if providers S1 = [] then modE (\<lambda>S. S\<lparr>provider_it := AtEnd\<rparr>)
      else thenE select_provider (thenE (via_provider sp_activate) (modE (\<lambda>S. S\<lparr>broker_store := True, broker_finalizer := True\<rparr>)))) S1"
    using assms(1) by (simp add: plugin_earlyInitialize_def comp_simps)
  show ?thesis
  proof (cases "providers S1 = []")
    case True
    then show ?thesis using assms(2) by (simp add: start comp_simps eligible_def plugin_initialize_def Ex1_def)
  next
    case False
    from select_provider_spec[OF assms(3) this] show ?thesis
    proof (elim disjE exE conjE)
      fix n assume n: "eligible S1 n" "\<forall>k. eligible S1 k \<longrightarrow> k = n" "select_provider S1 = (Inr (), points_to S1 n)"
      obtain a where a: "map_of (providers S1) n = Some a" using n(1) by (auto simp: eligible_def)
      obtain V s where V: "objects S1 ! a = (V, s)" by (cases "objects S1 ! a")
      have l: "a < length (objects S1)" using assms(4) a by blast
      then have ok: "fst (sp_activate V s) = Inr ()" "\<And>s'. fst (sp_initialize V s') = Inr ()"
        using assms(5) V nth_mem[OF l] by auto
      let ?S2 = "(points_to S1 n)\<lparr>objects := (objects S1)[a := (V, snd (sp_activate V s))], broker_store := True, broker_finalizer := True\<rparr>"
      have "via_provider sp_activate (points_to S1 n) = (Inr (), (points_to S1 n)\<lparr>objects := (objects S1)[a := (V, snd (sp_activate V s))]\<rparr>)"
        using via_provider_at[of "points_to S1 n" n a V s sp_activate] a l V ok(1) by (simp add: points_to_def)
      then have "plugin_earlyInitialize earlyInitAll True S = (Inr (), ?S2)" using n(3) False by (simp add: start comp_simps)
      moreover have "fst (plugin_initialize True ?S2) = Inr ()"
        using via_provider_at[of ?S2 n a V "snd (sp_activate V s)" sp_initialize] a l ok(2)
        by (simp add: plugin_initialize_def comp_simps points_to_def)
      moreover have "\<exists>!n. eligible S1 n" using n(1,2) by blast
      ultimately show ?thesis using n(2) by (auto simp: points_to_def)
    next
      fix t assume t: "\<not> (\<exists>!n. eligible S1 n)" "select_provider S1 = (Inl (QpidException t), S1\<lparr>provider_it := AtEnd\<rparr>)"
      have "plugin_earlyInitialize earlyInitAll True S = (Inl (QpidException t), S1\<lparr>provider_it := AtEnd\<rparr>)"
        using t(2) False by (simp add: start comp_simps)
      then show ?thesis using t(1) assms(2) False by (simp add: plugin_initialize_def comp_simps)
    qed
  qed
qed

text \<open>The plugin with the Berkeley DB provider loaded and none asked for.\<close>

definition wit_plugin :: "((u64 \<times> bytes) list, (u64 \<times> bytes) list) provider store_plugin" where
  "wit_plugin = MessageStorePlugin_new [] [(bdb_provider wit_bdb (Some ''d'') [], wit_ready)]"

theorem provider_selection_witness:
  "\<exists>S2. plugin_earlyInitialize (\<lambda>f. forE [0] f) True wit_plugin = (Inr (), S2) \<and> provider_it S2 = At ''BDB'' \<and> broker_store S2"
proof -
  obtain P1 where P1: "earlyInitialize wit_bdb True (Some ''d'') wit_ready = (Inr True, P1)"
    by (auto simp: earlyInitialize_def init_options_def init_dir_def comp_simps wit_ready_def wit_provider_def
        BdbStoreProvider_new_def StoreOptions_def)
  let ?V = "bdb_provider wit_bdb (Some ''d'') []"
  let ?S1 = "wit_plugin\<lparr>pl_broker := True, objects := [(?V, P1)], providers := [(''BDB'', 0)], pl_finalizers := [0]\<rparr>"
  have V: "sp_earlyInitialize ?V wit_ready = (Inr (Some ''BDB''), P1)" "sp_activate ?V = retE ()" "sp_initialize ?V = retE ()"
    using P1 by (simp_all add: bdb_provider_def comp_simps)
  have s1: "forE [0] announce (wit_plugin\<lparr>pl_broker := True\<rparr>) = (Inr (), ?S1)"
    by (simp add: announce_def at_object_def providerAvailable_def comp_simps wit_plugin_def MessageStorePlugin_new_def V)
  have "eligible ?S1 n \<longleftrightarrow> n = ''BDB''" for n
    by (simp add: eligible_def wit_plugin_def MessageStorePlugin_new_def)
  then have u: "\<exists>!n. eligible ?S1 n" "eligible ?S1 ''BDB''" by simp_all
  have h: "\<not> broker_store ?S1" "smap_ok (providers ?S1)" "\<forall>n a. map_of (providers ?S1) n = Some a \<longrightarrow> a < length (objects ?S1)"
    by (simp_all add: wit_plugin_def MessageStorePlugin_new_def)
  have "\<forall>(V, s) \<in> set (objects ?S1). fst (sp_activate V s) = Inr () \<and> (\<forall>s'. fst (sp_initialize V s') = Inr ())"
    using V(2,3) by (simp add: retE_def)
  from provider_selection[where earlyInitAll = "\<lambda>f. forE [0] f", OF s1 h this]
  obtain r S2 where r: "plugin_earlyInitialize (\<lambda>f. forE [0] f) True wit_plugin = (r, S2)" "broker_store S2 \<longleftrightarrow> (\<exists>!n. eligible ?S1 n)"
    "\<forall>n. broker_store S2 \<longrightarrow> eligible ?S1 n \<longrightarrow> r = Inr () \<and> provider_it S2 = At n"
    by (elim exE conjE) (rule that)
  have b: "broker_store S2" using r(2) u(1) by (rule iffD2)
  then have "r = Inr () \<and> provider_it S2 = At ''BDB''" using r(3) u(2) by (simp only: simp_thms)
  with r(1) b show ?thesis by simp
qed

end
