(* ===== verification/PluginRecovery.thy ===== *)
theory PluginRecovery
  imports MessageStorePlugin
begin

text \<open>
  The recovery of the whole store as the broker sees it: \<^verbatim>\<open>MessageStorePlugin::recover\<close> on the
  Berkeley DB provider. The contract between the plugin and a provider is a locale; what
  the plugin does with the provider's maps is proved in it once, and the provider's side is
  its interpretation.
\<close>

section \<open>Computations that succeed\<close>

lemma bindE_InrE:
  assumes "bindE m f s = (Inr y, s')"
  obtains x s1 where "m s = (Inr x, s1)" "f x s1 = (Inr y, s')"
  using assms by (auto simp: bindE_def split: prod.splits sum.splits)

lemma thenE_InrE:
  assumes "thenE m n s = (Inr y, s')"
  obtains x s1 where "m s = (Inr x, s1)" "n s1 = (Inr y, s')"
  using assms unfolding thenE_def by (rule bindE_InrE)

lemma catch_rethrow_InrE:
  assumes "catchE m (rethrow_jexception g) s = (Inr y, s')"
  shows "m s = (Inr y, s')"
  using assms by (auto simp: catchE_def rethrow_jexception_def throwE_def split: prod.splits sum.splits exn.splits)

lemma retE_Inr: "retE x s = (Inr y, s') \<longleftrightarrow> y = x \<and> s' = s"
  by (auto simp: retE_def)

lemma liftE_Inr: "liftE r s = (Inr y, s') \<longleftrightarrow> r = Inr y \<and> s' = s"
  by (auto simp: liftE_def)

lemma throwE_Inr [simp]: "throwE e s \<noteq> (Inr y, s')"
  by (simp add: throwE_def)

lemmas compE_elims = bindE_InrE thenE_InrE

section \<open>The map of queue entries\<close>

text \<open>Sorted, and without empty vectors.\<close>

definition entries_ok :: "message_queue_map \<Rightarrow> bool" where
  "entries_ok mq \<longleftrightarrow> smap_ok mq \<and> (\<forall>m. map_of mq m \<noteq> Some [])"

lemma entries_ok_assign: "entries_ok mq \<Longrightarrow> l \<noteq> [] \<Longrightarrow> entries_ok (smap_assign m l mq)"
  by (simp add: entries_ok_def smap_simps)

lemma scan_pending_entries: "scan_pending B J pae s P = (Inr (k, s'), P') \<Longrightarrow> messageQueueMap s' = messageQueueMap s"
  by (auto simp: scan_pending_def own_pending_def Let_def retE_Inr elim!: compE_elims split: if_splits)

lemma scan_subset_entries: "scan_subset B J l s P = (Inr (l', s'), P') \<Longrightarrow> messageQueueMap s' = messageQueueMap s"
proof (induction l arbitrary: s P l')
  case (Cons x l)
  then show ?case by (cases x) (force simp: retE_Inr dest: scan_pending_entries elim!: compE_elims)
qed (simp add: retE_Inr)

lemma scan_pendings_entries: "scan_pendings B J l s P = (Inr (l', s'), P') \<Longrightarrow> messageQueueMap s' = messageQueueMap s"
proof (induction l arbitrary: s P l')
  case (Cons x l)
  then show ?case by (cases x) (force simp: retE_Inr dest: scan_subset_entries elim!: compE_elims)
qed (simp add: retE_Inr)

lemma deliver_entries: "deliver R qid f hs x s = Inr s' \<Longrightarrow> entries_ok (messageQueueMap s) \<Longrightarrow> entries_ok (messageQueueMap s')"
  by (auto simp: deliver_def Let_def entries_ok_assign split: prod.splits sum.splits if_splits)

lemma accept_message_entries [simp]: "messageQueueMap (accept_message q m u s) = messageQueueMap s"
  by (simp add: accept_message_def Let_def)

lemma accept_check_entries: "accept_check R acc data hs q m s = Inr (t, s') \<Longrightarrow> messageQueueMap s' = messageQueueMap s"
  by (auto simp: accept_check_def Let_def split: sum.splits if_splits)

lemma dequeue_check_entries: "dequeue_check q m (t, s) = (t', s') \<Longrightarrow> messageQueueMap s' = messageQueueMap s"
  by (auto simp: dequeue_check_def split: if_splits)

lemma decode_message_entries:
  assumes "decode_message B R f acc J qid x s = Inr s'" and "entries_ok (messageQueueMap s)"
  shows "entries_ok (messageQueueMap s')"
  using assms
  by (auto simp: decode_message_def Let_def split: prod.splits list.splits if_splits sum.splits
      dest!: accept_check_entries dequeue_check_entries deliver_entries)

lemma decode_messages_entries:
  "decode_messages B R f acc J qid l s = Inr s' \<Longrightarrow> entries_ok (messageQueueMap s) \<Longrightarrow> entries_ok (messageQueueMap s')"
  by (induction l arbitrary: s) (auto split: sum.splits dest: decode_message_entries)

lemma decodeAndRecoverMsg_entries:
  assumes "decodeAndRecoverMsg B R q s P = (Inr s', P')" and "entries_ok (messageQueueMap s)"
  shows "entries_ok (messageQueueMap s')"
  using assms unfolding decodeAndRecoverMsg_def
  by (auto simp: liftE_Inr retE_Inr dest!: catch_rethrow_InrE scan_pendings_entries decode_messages_entries elim!: compE_elims)

lemma recover_each_entries:
  "recover_each B R qs s l P = (Inr (s', l'), P') \<Longrightarrow> entries_ok (messageQueueMap s) \<Longrightarrow> entries_ok (messageQueueMap s')"
proof (induction qs arbitrary: s l P)
  case (Cons q qs)
  from Cons.prems(1) obtain s1 P1 P2 l1 where "decodeAndRecoverMsg B R q (rstate_start (messageMap s) (messageQueueMap s) (foundMsg s) (adset s) (aeset s)) P = (Inr s1, P1)"
    "recover_each B R qs s1 l1 P2 = (Inr (s', l'), P')"
    by (auto dest!: catch_rethrow_InrE elim!: compE_elims)
  then show ?case using Cons.IH decodeAndRecoverMsg_entries Cons.prems(2) by (fastforce simp: rstate_start_def)
qed (simp add: retE_Inr)

lemma recoverMessages_entries:
  assumes "provider_recoverMessages B R [] [] P = (Inr (mm, mq), P')"
  shows "entries_ok mq"
proof -
  from assms obtain ad ae qs P1 s l P2 where "recover_each B R qs (rstate_start [] [] [] ad ae) 0 P1 = (Inr (s, l), P2)" "mq = messageQueueMap s"
    unfolding provider_recoverMessages_def by (auto simp: retE_Inr elim!: compE_elims)
  then show ?thesis using recover_each_entries by (fastforce simp: rstate_start_def entries_ok_def)
qed

section \<open>What the plugin relies on\<close>

text \<open>The maps a provider hands over: every entry names a queue and a message the plugin is given,
  and the entries are those of the relation \<open>on\<close>.\<close>

definition handed_over :: "recovered_objects \<Rightarrow> (u64 \<Rightarrow> u64 \<Rightarrow> bool) \<Rightarrow> (u64 \<Rightarrow> rmessage) \<Rightarrow> bool" where
  "handed_over ro on body \<longleftrightarrow> entries_ok (ro_messageQueueMap ro) \<and>
     (\<forall>k q. map_of (ro_queues ro) k = Some q \<longrightarrow> persistenceId q = k) \<and>
     (\<forall>m l j. map_of (ro_messageQueueMap ro) m = Some l \<longrightarrow> j \<in> set l \<longrightarrow>
        (\<exists>k. j = QueueEntry k \<and> k \<in> dom (map_of (ro_queues ro)) \<and> on k m)) \<and>
     (\<forall>k m. k \<in> dom (map_of (ro_queues ro)) \<longrightarrow> on k m \<longrightarrow> map_of (ro_messages ro) m = Some (body m) \<and>
        (\<exists>l. map_of (ro_messageQueueMap ro) m = Some l \<and> QueueEntry k \<in> set l))"

definition uses :: "'s store_plugin \<Rightarrow> 's storage_provider \<Rightarrow> 's \<Rightarrow> bool" where
  "uses S V s \<longleftrightarrow> (\<exists>n a. provider_it S = At n \<and> map_of (providers S) n = Some a \<and> a < length (objects S) \<and> objects S ! a = (V, s))"

text \<open>The queue entries of one message, and of all, as calls of the broker.\<close>

definition entry_call :: "recovered_objects \<Rightarrow> rmessage \<Rightarrow> queue_entry \<Rightarrow> broker_call" where
  "entry_call ro msg j = QueueRecover (the (map_of (ro_queues ro) (qe_queueId j))) msg"

lemma requeue_entries:
  "\<forall>j \<in> set l. tplStatus j = NONE \<and> qe_queueId j \<in> dom (map_of (ro_queues ro)) \<Longrightarrow>
   forE l (requeue_entry ro msg) S = (Inr (), S\<lparr>calls := calls S @ map (entry_call ro msg) l\<rparr>)"
proof (induction l arbitrary: S)
  case (Cons j l)
  then obtain q where "map_of (ro_queues ro) (qe_queueId j) = Some q" "tplStatus j = NONE" by auto
  with Cons show ?case by (simp add: requeue_entry_def broker_does_def entry_call_def comp_simps)
qed (simp add: retE_def)

lemma requeue_messages:
  "\<forall>(m, l) \<in> set mq. m \<in> dom (map_of (ro_messages ro)) \<and> (\<forall>j \<in> set l. tplStatus j = NONE \<and> qe_queueId j \<in> dom (map_of (ro_queues ro))) \<Longrightarrow>
   forE mq (requeue_message ro) S =
     (Inr (), S\<lparr>calls := calls S @ concat (map (\<lambda>(m, l). map (entry_call ro (the (map_of (ro_messages ro) m))) l) mq)\<rparr>)"
proof (induction mq arbitrary: S)
  case (Cons x mq)
  obtain m l where x: "x = (m, l)" by (cases x)
  with Cons.prems obtain msg where msg: "map_of (ro_messages ro) m = Some msg" by auto
  have "requeue_message ro x S = (Inr (), S\<lparr>calls := calls S @ map (entry_call ro msg) l\<rparr>)"
    using requeue_entries[of l ro msg S] Cons.prems msg by (simp add: x requeue_message_def)
  with Cons x msg show ?case by (simp add: thenE_def bindE_def)
qed (simp add: retE_def)

lemma handed_over_calls:
  assumes h: "handed_over ro on body"
  shows "forE (ro_messageQueueMap ro) (requeue_message ro) S = (Inr (), S\<lparr>calls := calls S @
      concat (map (\<lambda>(m, l). map (entry_call ro (the (map_of (ro_messages ro) m))) l) (ro_messageQueueMap ro))\<rparr>)" (is ?returns)
    and "set (concat (map (\<lambda>(m, l). map (entry_call ro (the (map_of (ro_messages ro) m))) l) (ro_messageQueueMap ro))) =
      {QueueRecover q (body m) | q m. q \<in> ran (map_of (ro_queues ro)) \<and> on (persistenceId q) m}" (is "set ?c = ?R")
proof -
  have ok: "smap_ok (ro_messageQueueMap ro)" "\<And>m. map_of (ro_messageQueueMap ro) m \<noteq> Some []"
    and key: "\<And>k q. map_of (ro_queues ro) k = Some q \<Longrightarrow> persistenceId q = k"
    and sound: "\<And>m l j. map_of (ro_messageQueueMap ro) m = Some l \<Longrightarrow> j \<in> set l \<Longrightarrow>
       \<exists>k. j = QueueEntry k \<and> k \<in> dom (map_of (ro_queues ro)) \<and> on k m"
    and full: "\<And>k m. k \<in> dom (map_of (ro_queues ro)) \<Longrightarrow> on k m \<Longrightarrow> map_of (ro_messages ro) m = Some (body m) \<and>
       (\<exists>l. map_of (ro_messageQueueMap ro) m = Some l \<and> QueueEntry k \<in> set l)"
    using h unfolding handed_over_def entries_ok_def by blast+
  have mem: "(m, l) \<in> set (ro_messageQueueMap ro) \<longleftrightarrow> map_of (ro_messageQueueMap ro) m = Some l" for m l by (rule set_smap_iff[OF ok(1)])
  have "m \<in> dom (map_of (ro_messages ro)) \<and> (\<forall>j \<in> set l. tplStatus j = NONE \<and> qe_queueId j \<in> dom (map_of (ro_queues ro)))"
    if ml: "map_of (ro_messageQueueMap ro) m = Some l" for m l
  proof
    obtain j where "j \<in> set l" using ok(2)[of m] ml by (cases l) auto
    then show "m \<in> dom (map_of (ro_messages ro))" using sound[OF ml] full by blast
    show "\<forall>j \<in> set l. tplStatus j = NONE \<and> qe_queueId j \<in> dom (map_of (ro_queues ro))"
      using sound[OF ml] by (metis QueueEntry_def queue_entry.select_convs(1,2))
  qed
  then have "\<forall>(m, l) \<in> set (ro_messageQueueMap ro). m \<in> dom (map_of (ro_messages ro)) \<and>
      (\<forall>j \<in> set l. tplStatus j = NONE \<and> qe_queueId j \<in> dom (map_of (ro_queues ro)))"
    using mem by blast
  then show ?returns by (rule requeue_messages)
  show "set ?c = ?R"
  proof (intro subset_antisym subsetI)
    fix c assume "c \<in> set ?c"
    then obtain m l j where c: "map_of (ro_messageQueueMap ro) m = Some l" "j \<in> set l" "c = entry_call ro (the (map_of (ro_messages ro) m)) j"
      by (auto simp: mem)
    obtain k q where k: "j = QueueEntry k" "map_of (ro_queues ro) k = Some q" "on k m" using sound[OF c(1,2)] by auto
    then have "map_of (ro_messages ro) m = Some (body m)" using full[of k m] by blast
    then have "c = QueueRecover q (body m)" using c(3) k by (simp add: entry_call_def QueueEntry_def)
    moreover have "q \<in> ran (map_of (ro_queues ro))" using k(2) by (rule ranI)
    ultimately show "c \<in> ?R" using k key[OF k(2)] by blast
  next
    fix c assume "c \<in> ?R"
    then obtain q m k where c: "c = QueueRecover q (body m)" "map_of (ro_queues ro) k = Some q" "on k m" using key by (auto simp: ran_def)
    then obtain l where l: "map_of (ro_messages ro) m = Some (body m)" "map_of (ro_messageQueueMap ro) m = Some l" "QueueEntry k \<in> set l"
      using full[of k m] by blast
    have "entry_call ro (body m) (QueueEntry k) = c" using c by (simp add: entry_call_def QueueEntry_def)
    then show "c \<in> set ?c" using l by (force simp: mem[symmetric])
  qed
qed

text \<open>The contract: from a good state the provider's recovery returns, with the queues \<open>ids\<close> and the
  messages \<open>on\<close> them.\<close>

locale recovering_provider =
  fixes V :: "'s storage_provider" and R :: recovery_manager and good :: "'s \<Rightarrow> bool" and ids :: "'s \<Rightarrow> u64 set"
    and on :: "'s \<Rightarrow> u64 \<Rightarrow> u64 \<Rightarrow> bool" and body :: "u64 \<Rightarrow> rmessage"
  assumes recovery_returns: "good s \<Longrightarrow> \<exists>ro s'. recover_objects R V s = (Inr ro, s') \<and>
      dom (map_of (ro_queues ro)) = ids s \<and> handed_over ro (on s) body"
begin

lemma recover_delivers:
  assumes "uses S V s" and "good s"
  shows "\<exists>ro S'. plugin_recover R S = (Inr ro, S') \<and> dom (map_of (ro_queues ro)) = ids s \<and>
    (\<forall>k q. map_of (ro_queues ro) k = Some q \<longrightarrow> persistenceId q = k) \<and>
    set (calls S') = set (calls S) \<union> {QueueRecover q (body m) | q m. q \<in> ran (map_of (ro_queues ro)) \<and> on s (persistenceId q) m}"
proof -
  obtain n a where u: "provider_it S = At n" "map_of (providers S) n = Some a" "a < length (objects S)" "objects S ! a = (V, s)"
    using assms(1) unfolding uses_def by blast
  obtain ro s' where r: "recover_objects R V s = (Inr ro, s')" "dom (map_of (ro_queues ro)) = ids s" "handed_over ro (on s) body"
    using recovery_returns[OF assms(2)] by blast
  let ?S = "S\<lparr>objects := (objects S)[a := (V, s')]\<rparr>"
  note c = handed_over_calls[OF r(3)]
  have "plugin_recover R S = (Inr ro, ?S\<lparr>calls := calls ?S @
      concat (map (\<lambda>(m, l). map (entry_call ro (the (map_of (ro_messages ro) m))) l) (ro_messageQueueMap ro))\<rparr>)"
    using via_provider_at[OF u, of "recover_objects R"] r(1) c(1)[of ?S] by (simp add: plugin_recover_def bindE_def thenE_def retE_def)
  moreover have "\<forall>k q. map_of (ro_queues ro) k = Some q \<longrightarrow> persistenceId q = k" using r(3) by (simp add: handed_over_def)
  ultimately show ?thesis using r(2) c(2) by (intro exI conjI) (assumption | simp)+
qed

end

section \<open>The catalogue of the Berkeley DB provider\<close>

text \<open>The queues and the unopened journals \<^verbatim>\<open>recoverQueues\<close> makes of a list of records, the first
  journal going to address \<open>a\<close>.\<close>

fun recovered_queues :: "recovery_manager \<Rightarrow> nat \<Rightarrow> (u64 \<times> bytes) list \<Rightarrow> pqueue list" where
  "recovered_queues R a [] = []"
| "recovered_queues R a ((k, v) # l) =
     \<lparr>persistenceId = k, pname = rm_queue R v, encoded = v, externalQueueStore = Some a\<rparr> # recovered_queues R (Suc a) l"

definition unopened :: "('db, 'mdb) provider \<Rightarrow> recovery_manager \<Rightarrow> u64 \<times> bytes \<Rightarrow> 'db journal" where
  "unopened P R = (\<lambda>(k, v). projr (JournalImpl (c_str (rm_queue R v)) k (getJrnlHashDir (c_str (rm_queue R v)))
     (getBdbBaseDir P) (prov_num_jfiles P) True (agent P)))"

lemma recover_queues_loop_state:
  fixes P :: "('db, 'mdb) provider"
  assumes "0 \<le> prov_num_jfiles P" and "\<forall>(k, v) \<in> set l. c_str (rm_queue R v) \<noteq> []"
  shows "\<exists>mx'. recover_queues_loop R l mx m P = (Inr (fold (\<lambda>q. smap_assign (persistenceId q) q) (recovered_queues R (length (jheap P)) l) m, mx'),
    P\<lparr>jheap := jheap P @ map (Some \<circ> unopened P R) l,
      journalList := fold (\<lambda>q. smap_assign (persistenceId q) (externalQueueStore q)) (recovered_queues R (length (jheap P)) l) (journalList P),
      recoveredJournal := recoveredJournal P @ recovered_queues R (length (jheap P)) l\<rparr>)"
  using assms
proof (induction l arbitrary: mx m P)
  case (Cons x l)
  obtain k v where x: "x = (k, v)" by (cases x)
  let ?n = "c_str (rm_queue R v)" and ?q = "\<lparr>persistenceId = k, pname = rm_queue R v, encoded = v, externalQueueStore = Some (length (jheap P))\<rparr>"
  have n: "?n \<noteq> []" using Cons.prems(2) x by simp
  have J: "JournalImpl ?n k (getJrnlHashDir ?n) (getBdbBaseDir P) (prov_num_jfiles P) True (agent P) = Inr (unopened P R x)"
    using Cons.prems(1) by (simp add: x unopened_def JournalImpl_def Let_def)
  let ?P = "P\<lparr>jheap := jheap P @ [Some (unopened P R x)], journalList := smap_assign k (Some (length (jheap P))) (journalList P),
      recoveredJournal := recoveredJournal P @ [?q]\<rparr>"
  have step: "recover_queues_loop R (x # l) mx m P = recover_queues_loop R l (max k mx) (smap_assign k ?q m) ?P"
    using n J by (simp add: x comp_simps new_journal_def Let_def)
  have "unopened ?P R = unopened P R" by (simp add: unopened_def getBdbBaseDir_def)
  then show ?case using Cons.IH[of ?P "max k mx" "smap_assign k ?q m"] Cons.prems step by (simp add: x)
qed (simp add: retE_def)

lemma recovered_queues_fields:
  "map persistenceId (recovered_queues R a l) = map fst l"
  "map externalQueueStore (recovered_queues R a l) = map Some [a..<a + length l]"
  "length (recovered_queues R a l) = length l"
  by (induction R a l rule: recovered_queues.induct) (simp_all add: upt_conv_Cons del: upt_Suc)

lemma map_of_fold_assign:
  "distinct (map f qs) \<Longrightarrow> \<forall>k \<in> f ` set qs. map_of m k = None \<Longrightarrow>
   map_of (fold (\<lambda>q. smap_assign (f q) (g q)) qs m) k = Some y \<longleftrightarrow> map_of m k = Some y \<or> (\<exists>q \<in> set qs. f q = k \<and> g q = y)"
proof (induction qs arbitrary: m)
  case (Cons q qs)
  have new: "f q \<notin> f ` set qs" "map_of m (f q) = None" and old: "\<And>x. x \<in> set qs \<Longrightarrow> map_of m (f x) = None" using Cons.prems by auto
  have "\<forall>k \<in> f ` set qs. map_of (smap_assign (f q) (g q) m) k = None"
  proof
    fix k assume k: "k \<in> f ` set qs"
    have "k \<noteq> f q" using k new(1) by metis
    then show "map_of (smap_assign (f q) (g q) m) k = None" using k old by (auto simp: smap_simps)
  qed
  with Cons have IH: "map_of (fold (\<lambda>q. smap_assign (f q) (g q)) qs (smap_assign (f q) (g q) m)) k = Some y \<longleftrightarrow>
      map_of (smap_assign (f q) (g q) m) k = Some y \<or> (\<exists>q \<in> set qs. f q = k \<and> g q = y)" by simp
  show ?case
  proof (cases "k = f q")
    case True
    then show ?thesis using IH new(2) by (simp add: smap_simps)
  next
    case False
    then show ?thesis using IH by (simp add: smap_simps)
  qed
qed simp

lemma smap_ok_fold_assign: "smap_ok m \<Longrightarrow> smap_ok (fold (\<lambda>q. smap_assign (f q) (g q)) qs m)"
  by (induction qs arbitrary: m) simp_all

text \<open>
  A provider that has just opened its catalogue, before any recovery: \<open>qs\<close> are the records of
  its queues, none with an empty name, \<open>js\<close> the journals of the queues once their databases
  are open, and \<open>ad\<close> and \<open>ae\<close> what the two logs hold as pending.
\<close>

definition cold_state ::
    "('db, 'mdb) bdb \<Rightarrow> ('db \<Rightarrow> u64 \<Rightarrow> bytes option) \<Rightarrow> ('mdb \<Rightarrow> (u64 \<times> bytes) set) \<Rightarrow> recovery_manager \<Rightarrow> (u64 \<Rightarrow> message_info) \<Rightarrow>
     (u64 \<Rightarrow> bytes option) \<Rightarrow> (u64 \<Rightarrow> 'db journal) \<Rightarrow> PendingDequeueSet \<Rightarrow> PendingEnqueueSet \<Rightarrow> ('db, 'mdb) provider \<Rightarrow> bool" where
  "cold_state B view mv R M qs js ad ae P \<longleftrightarrow>
     (bdb_laws bt_compare_func (msg_api B) view \<and> (\<exists>cmp. bdb_laws cmp (cat_api B) view) \<and> mdb_laws (multi_api B) mv \<and> readable (framing B) R M) \<and>
     (\<exists>A r1 Aw1 r2 Aw2. aologger P = Some A \<and> recoverAsyncDequeue [] (A, machine P) = (r1, ad, Aw1) \<and>
        recoverAsyncEnqueue [] Aw1 = Inr (r2, ae, Aw2)) \<and> pending_ok (framing B) M ae \<and>
     (generalDb P \<noteq> None \<and> exchangeDb P \<noteq> None) \<and> (\<exists>db. queueDb P = Some db \<and> view db = qs) \<and>
     (\<exists>db. bindingDb P = Some db \<and> (\<forall>(k, v) \<in> mv db. 8 \<le> length v)) \<and>
     (journalList P = [] \<and> recoveredJournal P = [] \<and> enqueuePool P = [] \<and> \<not> enableAcceptRecoveryFlag (options P) \<and>
      0 \<le> prov_num_jfiles P \<and> pool_accepts B \<and> qs \<noteq> Map.empty) \<and>
     (\<forall>k v. qs k = Some v \<longrightarrow> c_str (rm_queue R v) \<noteq> [] \<and> init_message_db (msg_api B) (unopened P R (k, v)) = Inr (js k) \<and>
        jinv view (js k) \<and> key_window (dom (jview view (js k)) \<union> {m. pset_find ae k m \<noteq> None}) \<and>
        (\<forall>m d. jview view (js k) m = Some d \<longrightarrow> d = msg_image (framing B) M m) \<and>
        17 * (card (dom (jview view (js k))) + length (pset_list ae)) < 2 ^ 31)"

lemma opened_journal:
  assumes "init_message_db api (unopened P R (k, v)) = Inr J" and "0 \<le> prov_num_jfiles P"
  shows "queuePid J = k" "transientList J = []" "acceptedList J = []"
  using assms by (auto simp: init_message_db_def unopened_def JournalImpl_def Let_def split: sum.splits if_splits)

lemma recovered_queue_nth:
  "q \<in> set (recovered_queues R a l) \<Longrightarrow> \<exists>i < length l. persistenceId q = fst (l ! i) \<and> externalQueueStore q = Some (a + i)"
proof (induction R a l rule: recovered_queues.induct)
  case (2 R a k v l)
  show ?case
  proof (cases "q \<in> set (recovered_queues R (Suc a) l)")
    case True
    then obtain i where "i < length l" "persistenceId q = fst (l ! i)" "externalQueueStore q = Some (Suc a + i)" using 2 by blast
    then show ?thesis by (intro exI[of _ "Suc i"]) simp
  next
    case False
    then show ?thesis using 2 by (intro exI[of _ 0]) simp
  qed
qed simp

lemma recovered_queues_apart:
  "distinct (map fst l) \<Longrightarrow> distinct (map persistenceId (recovered_queues R a l))" "distinct (map addr (recovered_queues R a l))"
proof -
  show "distinct (map fst l) \<Longrightarrow> distinct (map persistenceId (recovered_queues R a l))" by (simp add: recovered_queues_fields)
  have "map addr (recovered_queues R a l) = map the (map externalQueueStore (recovered_queues R a l))" by (simp add: addr_def)
  also have "\<dots> = [a..<a + length l]" by (simp add: recovered_queues_fields del: upt_Suc)
  finally show "distinct (map addr (recovered_queues R a l))" by simp
qed

lemma cold_restart_state:
  assumes c: "cold_state B view mv R M qs js ad ae P" and l: "distinct (map fst l)" "map_of l = qs"
    and P1: "jheap P1 = jheap P @ map (Some \<circ> unopened P R) l"
      "journalList P1 = fold (\<lambda>q. smap_assign (persistenceId q) (externalQueueStore q)) (recovered_queues R (length (jheap P)) l) []"
      "recoveredJournal P1 = recovered_queues R (length (jheap P)) l"
      "aologger P1 = aologger P" "machine P1 = machine P" "options P1 = options P" "enqueuePool P1 = enqueuePool P"
  shows "restart_state B view R M js P1 ad ae"
proof -
  let ?q = "recovered_queues R (length (jheap P)) l"
  have J: "c_str (rm_queue R v) \<noteq> [] \<and> init_message_db (msg_api B) (unopened P R (k, v)) = Inr (js k) \<and>
        jinv view (js k) \<and> key_window (dom (jview view (js k)) \<union> {m. pset_find ae k m \<noteq> None}) \<and>
        (\<forall>m d. jview view (js k) m = Some d \<longrightarrow> d = msg_image (framing B) M m) \<and>
        17 * (card (dom (jview view (js k))) + length (pset_list ae)) < 2 ^ 31" if "qs k = Some v" for k v
    using c that unfolding cold_state_def by blast
  have n: "0 \<le> prov_num_jfiles P" "qs \<noteq> Map.empty" using c unfolding cold_state_def by blast+
  have at: "queue_at B view M P1 ae q (addr q) (js (persistenceId q))" if "q \<in> set ?q" for q
  proof -
    obtain i where i: "i < length l" "persistenceId q = fst (l ! i)" "externalQueueStore q = Some (length (jheap P) + i)"
      using recovered_queue_nth[OF \<open>q \<in> set ?q\<close>] by blast
    obtain k v where kv: "l ! i = (k, v)" by (cases "l ! i")
    then have q: "persistenceId q = k" "qs k = Some v" using i(1,2) l nth_mem[OF i(1)] by (auto simp: map_of_is_SomeI)
    note j = J[OF q(2)]
    have "jheap P1 ! addr q = Some (unopened P R (k, v))" using i kv by (simp add: P1(1) addr_def nth_append)
    moreover have "addr q < length (jheap P1)" "externalQueueStore q = Some (addr q)" using i by (simp_all add: P1(1) addr_def)
    ultimately show ?thesis using j opened_journal[OF _ n(1), of "msg_api B" R k v "js k"] by (simp add: queue_at_def q(1))
  qed
  have dp: "distinct (map persistenceId ?q)" by (rule recovered_queues_apart(1)[OF l(1)])
  have jl: "map_of (journalList P1) i = Some (Some a) \<longleftrightarrow> (\<exists>q \<in> set ?q. persistenceId q = i \<and> addr q = a)" for i a
  proof -
    have "map_of (journalList P1) i = Some (Some a) \<longleftrightarrow> (\<exists>q \<in> set ?q. persistenceId q = i \<and> externalQueueStore q = Some a)"
      unfolding P1(2) using map_of_fold_assign[OF dp, of "[]" externalQueueStore i "Some a"] by simp
    moreover have "externalQueueStore q = Some a \<longleftrightarrow> addr q = a" if "q \<in> set ?q" for q
      using recovered_queue_nth[OF that] by (auto simp: addr_def)
    ultimately show ?thesis by blast
  qed
  have "l \<noteq> []" using l(2) n(2) by auto
  then have "?q \<noteq> []" using recovered_queues_fields(3)[of R "length (jheap P)" l] by auto
  then show ?thesis
    unfolding restart_state_def P1(3-7)
    using c at jl dp recovered_queues_apart(2) smap_ok_fold_assign[OF smap_ok_Nil]
    unfolding cold_state_def P1(2) by (intro conjI ballI allI) blast+
qed

lemma catalogue_recovered:
  assumes c: "cold_state B view mv R M qs js ad ae P"
  obtains cs em bs qm P1 where
    "bindE (recoverConfigs B R) (\<lambda>cs. bindE (recoverExchanges B R []) (\<lambda>em. bindE (recoverQueues B R []) (\<lambda>qm.
       bindE (recoverBindings B em qm) (\<lambda>bs. retE (cs, em, qm, bs))))) P = (Inr (cs, em, qm, bs), P1)"
    "restart_state B view R M js P1 ad ae" "dom (map_of qm) = dom qs"
    "persistenceId ` set (recoveredJournal P1) = dom qs" "\<forall>k q. map_of qm k = Some q \<longrightarrow> persistenceId q = k"
proof -
  obtain gdb edb qdb bdb where d: "generalDb P = Some gdb" "exchangeDb P = Some edb" "queueDb P = Some qdb" "view qdb = qs"
    "bindingDb P = Some bdb" "\<forall>(k, v) \<in> mv bdb. 8 \<le> length v" using c unfolding cold_state_def by blast
  obtain cmp where laws: "bdb_laws cmp (cat_api B) view" "mdb_laws (multi_api B) mv" using c unfolding cold_state_def by blast
  have p: "journalList P = []" "recoveredJournal P = []" "0 \<le> prov_num_jfiles P" "qs \<noteq> Map.empty"
    using c unfolding cold_state_def by blast+
  have J: "c_str (rm_queue R v) \<noteq> [] \<and> init_message_db (msg_api B) (unopened P R (k, v)) = Inr (js k) \<and>
        jinv view (js k) \<and> key_window (dom (jview view (js k)) \<union> {m. pset_find ae k m \<noteq> None}) \<and>
        (\<forall>m d. jview view (js k) m = Some d \<longrightarrow> d = msg_image (framing B) M m) \<and>
        17 * (card (dom (jview view (js k))) + length (pset_list ae)) < 2 ^ 31" if "qs k = Some v" for k v
    using c that unfolding cold_state_def by blast
  let ?l = "api_scan (cat_api B) qdb" and ?a = "length (jheap P)"
  let ?q = "recovered_queues R ?a ?l"
  have sc: "distinct (map fst ?l)" "map_of ?l = qs" using law_scan[OF laws(1), of qdb] d(4) by simp_all
  have mem: "qs k = Some v" if "(k, v) \<in> set ?l" for k v using that sc by (metis map_of_is_SomeI)
  obtain cs gi where g: "recover_configs_loop R (api_scan (cat_api B) gdb) 1 [] = (cs, gi)" by fastforce
  obtain em ei where e: "recover_exchanges_loop R (api_scan (cat_api B) edb) 1 [] = (em, ei)" by fastforce
  let ?P0 = "P\<lparr>generalIdSequence := gi + 1, exchangeIdSequence := ei + 1\<rparr>"
  have un: "unopened ?P0 R = unopened P R" by (simp add: unopened_def getBdbBaseDir_def)
  obtain mx where qu: "recover_queues_loop R ?l 1 [] ?P0 = (Inr (fold (\<lambda>q. smap_assign (persistenceId q) q) ?q [], mx),
    ?P0\<lparr>jheap := jheap P @ map (Some \<circ> unopened P R) ?l, journalList := fold (\<lambda>q. smap_assign (persistenceId q) (externalQueueStore q)) ?q [],
      recoveredJournal := ?q\<rparr>)"
    using recover_queues_loop_state[of ?P0 ?l R 1 "[]"] p J mem un by fastforce
  let ?qm = "fold (\<lambda>q. smap_assign (persistenceId q) q) ?q []"
  have "\<forall>(k, v) \<in> set (m_scan (multi_api B) bdb). 8 \<le> length v" using mdb_scan[OF laws(2), of bdb] d(6) by blast
  then obtain bs bdb' where b: "recover_bindings_loop B em ?qm (m_scan (multi_api B) bdb) bdb [] = Inr (bs, bdb')"
    using recover_bindings_loop_works[OF laws(2), of "m_scan (multi_api B) bdb" bdb em ?qm "[]"] mdb_scan[OF laws(2), of bdb] by auto
  let ?P1 = "?P0\<lparr>jheap := jheap P @ map (Some \<circ> unopened P R) ?l, journalList := fold (\<lambda>q. smap_assign (persistenceId q) (externalQueueStore q)) ?q [],
      recoveredJournal := ?q, queueIdSequence := mx + 1, bindingDb := Some bdb'\<rparr>"
  have run: "bindE (recoverConfigs B R) (\<lambda>cs. bindE (recoverExchanges B R []) (\<lambda>em. bindE (recoverQueues B R []) (\<lambda>qm.
       bindE (recoverBindings B em qm) (\<lambda>bs. retE (cs, em, qm, bs))))) P = (Inr (cs, em, ?qm, bs), ?P1)"
    using d(1-3,5) g e qu b by (simp add: recoverConfigs_def recoverExchanges_def recoverQueues_def recoverBindings_def comp_simps handle_def)
  have dp: "distinct (map persistenceId ?q)" by (rule recovered_queues_apart(1)[OF sc(1)])
  have ids: "persistenceId ` set ?q = dom qs"
    using arg_cong[OF recovered_queues_fields(1)[of R ?a ?l], of set] sc(2) dom_map_of_conv_image_fst[of ?l] by (simp add: image_set del: set_map)
  have qm: "map_of ?qm k = Some q \<longleftrightarrow> q \<in> set ?q \<and> persistenceId q = k" for k q
    using map_of_fold_assign[OF dp, of "[]" "\<lambda>q. q" k q] by auto
  have "dom (map_of ?qm) = persistenceId ` set ?q" using qm by (auto simp: dom_def)
  then have "dom (map_of ?qm) = dom qs" using ids by simp
  moreover have "restart_state B view R M js ?P1 ad ae" by (rule cold_restart_state[OF c sc]) simp_all
  ultimately show thesis using run ids qm by (intro that[of cs em ?qm bs ?P1]) simp_all
qed

section \<open>The provider keeps the contract\<close>

text \<open>What is on a queue after a restart.\<close>

definition back_on ::
    "(u64 \<Rightarrow> message_info) \<Rightarrow> ('db \<Rightarrow> u64 \<Rightarrow> bytes option) \<Rightarrow> (u64 \<Rightarrow> 'db journal) \<Rightarrow> PendingDequeueSet \<Rightarrow> PendingEnqueueSet \<Rightarrow> u64 \<Rightarrow> u64 \<Rightarrow> bool" where
  "back_on M view js ad ae k m \<longleftrightarrow>
     live M (jview view (js k) m \<noteq> None) (pset_find ad k m \<noteq> None) (pset_find ae k m \<noteq> None) m"

lemma provider_hands_over:
  assumes c: "cold_state B view mv R M qs js ad ae P"
  shows "\<exists>ro P'. recover_objects R (bdb_provider B dd obs) P = (Inr ro, P') \<and> dom (map_of (ro_queues ro)) = dom qs \<and>
    handed_over ro (back_on M view js ad ae) (restored M)"
proof -
  obtain cs em bs qm P1 where k: "bindE (recoverConfigs B R) (\<lambda>cs. bindE (recoverExchanges B R []) (\<lambda>em. bindE (recoverQueues B R []) (\<lambda>qm.
       bindE (recoverBindings B em qm) (\<lambda>bs. retE (cs, em, qm, bs))))) P = (Inr (cs, em, qm, bs), P1)"
    "restart_state B view R M js P1 ad ae" "dom (map_of qm) = dom qs"
    "persistenceId ` set (recoveredJournal P1) = dom qs" "\<forall>k q. map_of qm k = Some q \<longrightarrow> persistenceId q = k"
    by (rule catalogue_recovered[OF c])
  let ?s = "rstate_start [] [] [] ad ae"
  obtain s' P' r where s': "provider_recoverMessages B R [] [] P1 = (Inr (messageMap s', messageQueueMap s'), P')"
    "all_read M (framing B) view js (recoveredJournal P1) ?s s'" by (rule recovery_spec[OF k(2)])
  let ?ro = "\<lparr>ro_configs = cs, ro_exchanges = em, ro_queues = qm, ro_bindings = bs, ro_messages = messageMap s',
      ro_messageQueueMap = messageQueueMap s', ro_dtxMap = []\<rparr>"
  have "recover_objects R (bdb_provider B dd obs) P = (Inr ?ro, P')"
    using k(1) s'(1)
    by (auto simp: recover_objects_def bdb_provider_def recoverTransactions_def thenE_def bindE_def retE_def split: prod.splits sum.splits)
  moreover have "handed_over ?ro (back_on M view js ad ae) (restored M)"
  proof -
    have ent: "set (qentries s' m) = {QueueEntry q | q. q \<in> dom qs \<and> back_on M view js ad ae q m}" for m
      using all_read_entries[OF s'(2), of m] unfolding k(4) back_on_def by (simp add: rstate_start_def qentries_def)
    have mm: "map_of (messageMap s') m = Some (restored M m)" if "q \<in> dom qs" "back_on M view js ad ae q m" for q m
      using all_read_map[OF s'(2), of m] that unfolding k(4) back_on_def by (auto simp: rstate_start_def)
    have "\<exists>k. j = QueueEntry k \<and> k \<in> dom qs \<and> back_on M view js ad ae k m" if "map_of (messageQueueMap s') m = Some l" "j \<in> set l" for m l j
      using ent[of m] that by (simp add: qentries_def)
    moreover have "\<exists>l. map_of (messageQueueMap s') m = Some l \<and> QueueEntry q \<in> set l" if "q \<in> dom qs" "back_on M view js ad ae q m" for q m
    proof -
      have "QueueEntry q \<in> set (qentries s' m)" using ent[of m] that by blast
      then show ?thesis by (cases "map_of (messageQueueMap s') m") (simp_all add: qentries_def)
    qed
    ultimately show ?thesis using recoverMessages_entries[OF s'(1)] k(3,5) mm by (simp add: handed_over_def)
  qed
  ultimately show ?thesis using k(3) by (intro exI[of _ ?ro] exI[of _ P'] conjI) simp_all
qed

interpretation bdb: recovering_provider "bdb_provider B dd obs" R "cold_state B view mv R M qs js ad ae" "\<lambda>_. dom qs"
  "\<lambda>_. back_on M view js ad ae" "restored M" for B view mv R M qs js ad ae dd obs
  by unfold_locales (rule provider_hands_over)


section \<open>A concrete recovery\<close>

text \<open>One queue whose journal finds the message 3 in its fourth database and the message 6 in its
  third, and logs with one pending enqueue and one pending dequeue.\<close>

definition wit_cold_bdb :: "((u64 \<times> bytes) list, (u64 \<times> bytes) list) bdb" where
  "wit_cold_bdb = wit_bdb\<lparr>msg_api := (list_db bt_compare_func)\<lparr>api_open := \<lambda>p.
     Inr (if p = ''jrnl/001a/q/q_s003.db'' then [(3, wit_image)] else if p = ''jrnl/001a/q/q_s002.db'' then [(6, wit_image)] else [])\<rparr>\<rparr>"

definition wit_cold :: "u64 \<Rightarrow> u64 \<Rightarrow> ((u64 \<times> bytes) list, (u64 \<times> bytes) list) provider" where
  "wit_cold e d = wit_ready\<lparr>aologger := Some wit_aol, machine := wit_machine e d\<rparr>"

definition wit_opened :: "(u64 \<times> bytes) list journal" where
  "wit_opened = wit_journal0\<lparr>journalDirectory := ''jrnl/001a/q/'', num_jfiles := 4,
     messageDbs := [Some [], Some [], Some [(6, wit_image)], Some [(3, wit_image)]]\<rparr>"

lemma wit_digits: "pad3 (nat_string 0) = ''000''" "pad3 (nat_string (Suc 0)) = ''001''" "pad3 (nat_string 2) = ''002''" "pad3 (nat_string 3) = ''003''"
proof -
  have "nat_string 0 = ''0''" "nat_string (Suc 0) = ''1''" "nat_string 2 = ''2''" "nat_string 3 = ''3''"
    using char_of_char[of "CHR ''0''", where 'a = nat] char_of_char[of "CHR ''1''", where 'a = nat]
      char_of_char[of "CHR ''2''", where 'a = nat] char_of_char[of "CHR ''3''", where 'a = nat]
    by (simp_all add: nat_string.simps)
  then show "pad3 (nat_string 0) = ''000''" "pad3 (nat_string (Suc 0)) = ''001''" "pad3 (nat_string 2) = ''002''" "pad3 (nat_string 3) = ''003''"
    by (simp_all add: pad3_def numeral_2_eq_2)
qed

lemma bdb_laws_open: "bdb_laws cmp (api\<lparr>api_open := f\<rparr>) view = bdb_laws cmp api view"
  by (simp add: bdb_laws_def)

lemma wit_unopened: "unopened (wit_cold e d) wit_rm (1, v) = wit_opened\<lparr>is_init := False, messageDbs := replicate 4 None\<rparr>"
proof -
  have "getJrnlHashDir ''q'' = ''jrnl/001a/q/''" using wit_hash by (simp add: getJrnlDir_def wit_queue_def c_str_def)
  then show ?thesis
    by (simp add: unopened_def JournalImpl_def wit_rm_def c_str_def wit_cold_def wit_ready_def wit_provider_def BdbStoreProvider_new_def
        getBdbBaseDir_def storeTopLevelDir_def wit_opened_def wit_journal0_def)
qed

lemma wit_open: "init_message_db (msg_api wit_cold_bdb) (unopened (wit_cold e d) wit_rm (1, v)) = Inr wit_opened"
proof -
  have "[0..<4] = [0, 1, 2, 3 :: nat]" by (simp add: upt_rec)
  then show ?thesis
    unfolding wit_unopened
    by (simp add: init_message_db_def wit_opened_def wit_journal0_def wit_cold_bdb_def getSubDbPath_def getSubDbName_def
        wit_digits in_txn_def TxnCtxt_begin_def TxnCtxt_commit_def list_db_def)
qed

lemma wit_opened_view: "jview map_of wit_opened m = (if m = 3 \<or> m = 6 then Some wit_image else None)"
proof -
  have "unat m mod 4 = 0 \<or> unat m mod 4 = 1 \<or> unat m mod 4 = 2 \<or> unat m mod 4 = 3" by presburger
  moreover have "unat (3 :: u64) mod 4 = 3" "unat (6 :: u64) mod 4 = 2" by simp_all
  ultimately show ?thesis by (auto simp: jview_def jindex_def wit_opened_def wit_journal0_def)
qed

lemma wit_opened_inv: "jinv map_of wit_opened"
proof -
  have "\<exists>d. messageDbs wit_opened ! k = Some d \<and> (\<forall>p \<in> dom (map_of d). jindex wit_opened p = k)" if "k < 4" for k
  proof -
    have "k = 0 \<or> k = 1 \<or> k = 2 \<or> k = 3" using that by presburger
    then show ?thesis by (elim disjE) (simp_all add: wit_opened_def wit_journal0_def jindex_def)
  qed
  then show ?thesis by (simp add: jinv_def wit_opened_def wit_journal0_def)
qed

lemma wit_cold_state:
  assumes "key_window {3, 6, e}"
  shows "cold_state wit_cold_bdb map_of set wit_rm wit_info [1 \<mapsto> [7]] (\<lambda>_. wit_opened) (wit_ad d) (wit_ae e) (wit_cold e d)"
proof -
  have p: "aologger (wit_cold e d) = Some wit_aol" "machine (wit_cold e d) = wit_machine e d" "generalDb (wit_cold e d) \<noteq> None"
    "exchangeDb (wit_cold e d) \<noteq> None" "queueDb (wit_cold e d) = Some [(1, [7])]" "bindingDb (wit_cold e d) = Some []"
    "journalList (wit_cold e d) = []" "recoveredJournal (wit_cold e d) = []" "enqueuePool (wit_cold e d) = []"
    "\<not> enableAcceptRecoveryFlag (options (wit_cold e d))" "0 \<le> prov_num_jfiles (wit_cold e d)"
    by (simp_all add: wit_cold_def wit_ready_def wit_provider_def BdbStoreProvider_new_def StoreOptions_def)
  have b: "framing wit_cold_bdb = wit_wire" "multi_api wit_cold_bdb = list_mdb" "cat_api wit_cold_bdb = list_db cat_cmp" "pool_accepts wit_cold_bdb"
    "bdb_laws bt_compare_func (msg_api wit_cold_bdb) map_of"
    using list_db_laws[of bt_compare_func] by (simp_all add: wit_cold_bdb_def wit_bdb_def bdb_laws_open)
  have dm: "dom (jview map_of wit_opened) = {3, 6}" by (auto simp: wit_opened_view dom_def split: if_splits)
  then have w: "key_window (dom (jview map_of wit_opened) \<union> {m. pset_find (wit_ae e) 1 m \<noteq> None})"
    "card (dom (jview map_of wit_opened)) = 2"
    using assms by (simp_all add: wit_find insert_commute)
  have r: "readable wit_wire wit_rm wit_info" using wit_readable by (simp add: wit_bdb_def)
  have l: "\<exists>A r1 Aw1 r2 Aw2. aologger (wit_cold e d) = Some A \<and>
      recoverAsyncDequeue [] (A, machine (wit_cold e d)) = (r1, wit_ad d, Aw1) \<and> recoverAsyncEnqueue [] Aw1 = Inr (r2, wit_ae e, Aw2)"
    using wit_logs[of e d] p(1,2) by simp
  have j: "c_str (rm_queue wit_rm v) \<noteq> [] \<and> init_message_db (msg_api wit_cold_bdb) (unopened (wit_cold e d) wit_rm (k, v)) = Inr wit_opened \<and>
        jinv map_of wit_opened \<and> key_window (dom (jview map_of wit_opened) \<union> {m. pset_find (wit_ae e) k m \<noteq> None}) \<and>
        (\<forall>m d. jview map_of wit_opened m = Some d \<longrightarrow> d = msg_image wit_wire wit_info m) \<and>
        17 * (card (dom (jview map_of wit_opened)) + length (pset_list (wit_ae e))) < 2 ^ 31" if "[1 \<mapsto> [7 :: u8]] k = Some v" for k v
  proof -
    have k: "k = 1" using that by (auto split: if_splits)
    have "c_str (rm_queue wit_rm v) \<noteq> []" by (simp add: wit_rm_def c_str_def)
    moreover have "\<forall>m d. jview map_of wit_opened m = Some d \<longrightarrow> d = msg_image wit_wire wit_info m"
      by (auto simp: wit_opened_view wit_msg_image split: if_splits)
    ultimately show ?thesis using w wit_opened_inv unfolding k by (simp add: wit_open pset_list_def)
  qed
  have q: "\<exists>db. queueDb (wit_cold e d) = Some db \<and> map_of db = [1 \<mapsto> [7]]" "\<exists>db. bindingDb (wit_cold e d) = Some db \<and> (\<forall>(k, v) \<in> set db. 8 \<le> length v)"
    "\<exists>cmp. bdb_laws cmp (list_db cat_cmp) map_of" using p(5,6) list_db_laws by auto
  have o: "[1 \<mapsto> [7 :: u8]] \<noteq> (Map.empty :: u64 \<Rightarrow> bytes option)" by simp
  show ?thesis
    unfolding cold_state_def b(1-3)
    by (intro conjI) ((fact b list_mdb_laws r l wit_pending_ok p q o) | (intro allI impI, rule j, assumption))+
qed

definition wit_store :: "((u64 \<times> bytes) list, (u64 \<times> bytes) list) provider store_plugin" where
  "wit_store = (MessageStorePlugin_new [] [(bdb_provider wit_cold_bdb None [], wit_cold 4 6)])
     \<lparr>providers := [(''BDB'', 0)], provider_it := At ''BDB''\<rparr>"


end
