(* ===== verification/TwoLogs.thy ===== *)
theory TwoLogs
  imports LogRecovery
begin

text \<open>
  The two sides of the logger together. \<open>LogRecovery\<close> follows the enqueue log and the dequeue
  log each on its own; here every call on one side is shown to leave the other alone, so
  that both histories can be followed through one run, and a crash that cuts both active
  files is survived by both.
\<close>

section \<open>Files an operation may touch\<close>

definition only_files :: "string set \<Rightarrow> os \<Rightarrow> os \<Rightarrow> bool" where
  "only_files N w w' \<longleftrightarrow> (\<forall>p. p \<notin> N \<longrightarrow> files w' p = files w p) \<and> can_open w' = can_open w \<and> can_alloc w' = can_alloc w"

lemma only_files_refl [simp]: "only_files N w w"
  by (simp add: only_files_def)

lemma only_files_trans: "only_files N w w1 \<Longrightarrow> only_files N w1 w2 \<Longrightarrow> only_files N w w2"
  by (simp add: only_files_def)

lemma only_files_ops:
  "ofs_path (fst fw) \<in> N \<Longrightarrow> only_files N (snd fw) (snd (ofs_write bs fw))"
  "p \<in> N \<Longrightarrow> only_files N (snd fw) (snd (ofs_open_app p fw))"
  "p \<in> N \<Longrightarrow> only_files N w (os_remove p w)"
  "p \<in> N \<Longrightarrow> p' \<in> N \<Longrightarrow> only_files N w (os_rename p p' w)"
  by (auto simp: only_files_def ofs_write_def ofs_open_app_def os_remove_def os_rename_def split: prod.splits option.splits)

definition enq_names :: "aol \<Rightarrow> string set" where
  "enq_names A = {buildEnqLogName A i b | i b. True}"

definition deq_names :: "aol \<Rightarrow> string set" where
  "deq_names A = {buildDeqLogName A i b | i b. True}"

lemma names_mem [simp]:
  "buildEnqLogName A i b \<in> enq_names A" "buildDeqLogName A i b \<in> deq_names A"
  "buildDeqLogName A i b \<notin> enq_names A" "buildEnqLogName A i b \<notin> deq_names A"
  by (auto simp: enq_names_def deq_names_def)

lemma deq_names_upd: "deq_names (A\<lparr>dequeueFileIndex := i, dequeueFile := f\<rparr>) = deq_names A"
  by (simp add: deq_names_def)

lemma names_base: "logBaseDir A' = logBaseDir A \<Longrightarrow> buildEnqLogName A' = buildEnqLogName A"
  "logBaseDir A' = logBaseDir A \<Longrightarrow> buildDeqLogName A' = buildDeqLogName A"
  by (intro ext; simp add: buildEnqLogName_def buildDeqLogName_def)+

lemma write_frame: "fst (ofs_write bs (f, w)) = (if ofs_open f \<and> \<not> ofs_fail f then f else f\<lparr>ofs_fail := True\<rparr>)"
  "ofs_path (fst (ofs_write bs (f, w))) = ofs_path f"
  by (simp_all add: ofs_write_def)

text \<open>What an operation on one side leaves of the other.\<close>

definition deq_kept :: "aol \<Rightarrow> os \<Rightarrow> aol \<Rightarrow> os \<Rightarrow> bool" where
  "deq_kept A w A' w' \<longleftrightarrow> dequeueFile A' = dequeueFile A \<and> dequeueFileIndex A' = dequeueFileIndex A \<and>
     logBaseDir A' = logBaseDir A \<and> only_files (enq_names A) w w'"

definition enq_kept :: "aol \<Rightarrow> os \<Rightarrow> aol \<Rightarrow> os \<Rightarrow> bool" where
  "enq_kept A w A' w' \<longleftrightarrow> enqueueFile A' = enqueueFile A \<and> enqueueFileIndex A' = enqueueFileIndex A \<and>
     logBaseDir A' = logBaseDir A \<and> only_files (deq_names A) w w'"

lemma calm_only: "only_files N w w' \<Longrightarrow> calm w' = calm w"
  by (simp add: only_files_def calm_def)

lemma deq_abs_kept: "deq_abs A w fs \<Longrightarrow> deq_kept A w A' w' \<Longrightarrow> deq_abs A' w' fs"
  by (simp add: deq_kept_def names_base[of A' A] deq_abs_defs calm_def content_def only_files_def)

lemma enq_abs_kept: "enq_abs A w fs \<Longrightarrow> enq_kept A w A' w' \<Longrightarrow> enq_abs A' w' fs"
  by (simp add: enq_kept_def names_base[of A' A] enq_abs_defs calm_def content_def only_files_def)

lemma write_enqueues_only:
  "ofs_path (fst fw) \<in> N \<Longrightarrow> write_enqueues es fw = Inr fw' \<Longrightarrow> only_files N (snd fw) (snd fw') \<and> ofs_path (fst fw') = ofs_path (fst fw)"
proof (induction es arbitrary: fw)
  case (Cons e es)
  let ?fw = "ofs_write (take (unat (enq_size e)) (enq_buff e)) (ofs_write (enq_preamble (msgId e) (queueId e) (enq_size e) (enq_transient e)) fw)"
  have p: "ofs_path (fst ?fw) = ofs_path (fst fw)" by (metis prod.collapse write_frame(2))
  have "only_files N (snd fw) (snd ?fw)"
    by (rule only_files_trans[OF only_files_ops(1) only_files_ops(1)]) (use Cons.prems(1) in \<open>metis prod.collapse write_frame(2)\<close>)+
  moreover have "only_files N (snd ?fw) (snd fw') \<and> ofs_path (fst fw') = ofs_path (fst ?fw)"
    using Cons.prems p by (intro Cons.IH) (auto simp: log_enqueue_start_on_file_def split: if_splits)
  ultimately show ?case using p only_files_trans by metis
qed simp

lemma write_dequeues_only:
  "ofs_path (fst fw) \<in> N \<Longrightarrow> only_files N (snd fw) (snd (write_dequeues ds fw)) \<and> ofs_path (fst (write_dequeues ds fw)) = ofs_path (fst fw)"
proof (induction ds arbitrary: fw)
  case (Cons d ds)
  let ?fw = "ofs_write (deq_start_record (msgId d) (queueId d)) fw"
  have p: "ofs_path (fst ?fw) = ofs_path (fst fw)" by (metis prod.collapse write_frame(2))
  have "write_dequeues (d # ds) fw = write_dequeues ds ?fw" by (simp add: log_dequeue_start_on_file_def)
  moreover have "only_files N (snd fw) (snd ?fw)" by (rule only_files_ops(1)[OF Cons.prems])
  ultimately show ?case using Cons.IH[of ?fw] Cons.prems p only_files_trans by metis
qed simp

lemma log_enqueue_kept:
  assumes "ofs_path (enqueueFile A) \<in> enq_names A"
  shows "log_enqueue_start m q b n t (A, w) = Inr (r, A', w') \<Longrightarrow> deq_kept A w A' w'"
    and "log_enqueue_complete m q (A, w) = (r, A', w') \<Longrightarrow> deq_kept A w A' w'"
proof -
  let ?p = "ofs_write (enq_preamble m q n t) (enqueueFile A, w)"
  have "only_files (enq_names A) w (snd (ofs_write (take (unat n) b) ?p))"
    by (rule only_files_trans[OF only_files_ops(1)[of "(enqueueFile A, w)", simplified] only_files_ops(1)])
      (use assms in \<open>simp_all add: write_frame\<close>)
  then show "log_enqueue_start m q b n t (A, w) = Inr (r, A', w') \<Longrightarrow> deq_kept A w A' w'"
    by (auto simp: deq_kept_def log_enqueue_start_def log_enqueue_start_on_file_def split: prod.splits if_splits)
  show "log_enqueue_complete m q (A, w) = (r, A', w') \<Longrightarrow> deq_kept A w A' w'"
    using only_files_ops(1)[of "(enqueueFile A, w)"] assms
    by (auto simp: deq_kept_def log_enqueue_complete_def split: prod.splits) (metis snd_conv)
qed

lemma log_dequeue_kept:
  assumes "ofs_path (dequeueFile A) \<in> deq_names A"
  shows "log_dequeue_start m q (A, w) = (r, A', w') \<Longrightarrow> enq_kept A w A' w'"
    and "log_dequeue_complete m q (A, w) = (r, A', w') \<Longrightarrow> enq_kept A w A' w'"
  using only_files_ops(1)[of "(dequeueFile A, w)" "deq_names A"] assms
  by (auto simp: enq_kept_def log_dequeue_start_def log_dequeue_start_on_file_def log_dequeue_complete_def split: prod.splits) (metis snd_conv)+

lemma open_kept:
  "open_enq i (A, w) = (A', w') \<Longrightarrow> deq_kept A w A' w'"
  "open_deq i (A, w) = (A', w') \<Longrightarrow> enq_kept A w A' w'"
proof -
  have "only_files (enq_names A) w (snd (ofs_open_app (buildEnqLogName A i False) (enqueueFile A, w)))"
    "only_files (deq_names A) w (snd (ofs_open_app (buildDeqLogName A i False) (dequeueFile A, w)))"
    using only_files_ops(2)[of _ _ "(enqueueFile A, w)"] only_files_ops(2)[of _ _ "(dequeueFile A, w)"] by simp_all
  then show "open_enq i (A, w) = (A', w') \<Longrightarrow> deq_kept A w A' w'" "open_deq i (A, w) = (A', w') \<Longrightarrow> enq_kept A w A' w'"
    by (auto simp: deq_kept_def enq_kept_def open_enq_def open_deq_def split: prod.splits)
qed

lemma rewrite_enqueue_kept:
  assumes "cleanEnqueue_rewrite j (A, w) = Inr (l, w')"
  shows "deq_kept A w A w'"
proof -
  let ?t = "buildEnqLogName A 0 True" and ?h = "buildEnqLogName A j False" and ?N = "enq_names A"
  obtain f w1 where o: "ofs_open_app ?t (ofs_new, w) = (f, w1)" by (cases "ofs_open_app ?t (ofs_new, w)")
  have 1: "only_files ?N w w1" using only_files_ops(2)[of ?t ?N "(ofs_new, w)"] o by simp
  have f: "\<not> ofs_fail f \<Longrightarrow> ofs_path f \<in> ?N" using o by (auto simp: ofs_open_app_def ofs_new_def split: if_splits)
  have "only_files ?N w w'"
  proof (cases "ofs_fail f")
    case True
    then show ?thesis using assms o 1 by (auto simp: cleanEnqueue_rewrite_def split: sum.splits prod.splits)
  next
    case False
    then obtain pend f2 w2 where "write_enqueues pend (f, w1) = Inr (f2, w2)" "w' = os_rename ?t ?h (os_remove ?h w2)"
      using assms o by (auto simp: cleanEnqueue_rewrite_def Let_def split: sum.splits prod.splits)
    then show ?thesis
      using write_enqueues_only[of "(f, w1)" ?N pend "(f2, w2)"] f[OF False] 1
        only_files_ops(3)[of ?h ?N w2] only_files_ops(4)[of ?t ?N ?h "os_remove ?h w2"] only_files_trans by (metis fst_conv names_mem(1) snd_conv)
  qed
  then show ?thesis by (simp add: deq_kept_def)
qed

lemma rewrite_dequeue_kept:
  assumes "cleanDequeue_rewrite j (A, w) = (l, w')"
  shows "enq_kept A w A w'"
proof -
  let ?t = "buildDeqLogName A 0 True" and ?h = "buildDeqLogName A j False" and ?N = "deq_names A"
  obtain f w1 where o: "ofs_open_app ?t (ofs_new, w) = (f, w1)" by (cases "ofs_open_app ?t (ofs_new, w)")
  have 1: "only_files ?N w w1" using only_files_ops(2)[of ?t ?N "(ofs_new, w)"] o by simp
  have f: "\<not> ofs_fail f \<Longrightarrow> ofs_path f \<in> ?N" using o by (auto simp: ofs_open_app_def ofs_new_def split: if_splits)
  have "only_files ?N w w'"
  proof (cases "ofs_fail f")
    case True
    then show ?thesis using assms o 1 by (auto simp: cleanDequeue_rewrite_def Let_def split: prod.splits)
  next
    case False
    then obtain pend f2 w2 where "write_dequeues pend (f, w1) = (f2, w2)" "w' = os_rename ?t ?h (os_remove ?h w2)"
      using assms o by (auto simp: cleanDequeue_rewrite_def Let_def split: prod.splits)
    then show ?thesis
      using write_dequeues_only[of "(f, w1)" ?N pend] f[OF False] 1
        only_files_ops(3)[of ?h ?N w2] only_files_ops(4)[of ?t ?N ?h "os_remove ?h w2"] only_files_trans by (metis fst_conv names_mem(2) snd_conv)
  qed
  then show ?thesis by (simp add: enq_kept_def)
qed

lemma enq_path: "enq_abs A w fs \<Longrightarrow> ofs_path (enqueueFile A) \<in> enq_names A"
  by (auto simp: enq_abs_def ofs_at_def enq_names_def)

lemma deq_path: "deq_abs A w fs \<Longrightarrow> ofs_path (dequeueFile A) \<in> deq_names A"
  by (auto simp: deq_abs_def ofs_at_def deq_names_def)

lemma deq_kept_upd: "deq_kept (A\<lparr>enqueueFile := f\<rparr>) w A' w' \<Longrightarrow> deq_kept A w A' w'"
  by (simp add: deq_kept_def enq_names_def)

lemma enq_kept_upd: "enq_kept (A\<lparr>dequeueFile := f\<rparr>) w A' w' \<Longrightarrow> enq_kept A w A' w'"
  by (simp add: enq_kept_def deq_names_def)

lemma kept_refl [simp]: "deq_kept A w A w" "enq_kept A w A w"
  by (simp_all add: deq_kept_def enq_kept_def)

lemma enq_exec_kept:
  assumes "ofs_path (enqueueFile A) \<in> enq_names A" and "enq_exec e (A, w, c) = Inr (A', w', c')"
  shows "deq_kept A w A' w'"
proof (cases e)
  case (EvStart v)
  then show ?thesis using assms log_enqueue_kept(1)[OF assms(1)] by (auto split: sum.splits prod.splits)
next
  case (EvComplete p q)
  then show ?thesis using assms log_enqueue_kept(2)[OF assms(1)] by (auto split: prod.splits)
next
  case EvSwitch
  then show ?thesis using assms(2) open_kept(1)[THEN deq_kept_upd]
    by (auto simp: cleanEnqueue_switch_def split: cleaner.splits prod.splits)
next
  case EvRewrite
  then show ?thesis using assms(2) rewrite_enqueue_kept by (auto split: cleaner.splits sum.splits prod.splits)
next
  case EvRelog
  then show ?thesis using assms log_enqueue_kept(2)[OF assms(1)] by (auto split: cleaner.splits list.splits prod.splits)
qed

lemma deq_exec_kept:
  assumes "ofs_path (dequeueFile A) \<in> deq_names A" and "deq_exec e (A, w, c) = (A', w', c')"
  shows "enq_kept A w A' w'"
proof (cases e)
  case (EvStart v)
  then show ?thesis using assms log_dequeue_kept(1)[OF assms(1)] by (auto split: prod.splits)
next
  case (EvComplete p q)
  then show ?thesis using assms log_dequeue_kept(2)[OF assms(1)] by (auto split: prod.splits)
next
  case EvSwitch
  then show ?thesis using assms(2) open_kept(2)[THEN enq_kept_upd]
    by (auto simp: cleanDequeue_switch_def split: cleaner.splits prod.splits)
next
  case EvRewrite
  then show ?thesis using assms(2) rewrite_dequeue_kept by (auto split: cleaner.splits prod.splits)
next
  case EvRelog
  then show ?thesis using assms log_dequeue_kept(2)[OF assms(1)] by (auto split: cleaner.splits list.splits prod.splits)
qed

section \<open>Both histories\<close>

text \<open>Every start in the files is one of the history.\<close>

definition starts_from :: "(u64 \<times> u64, 'v) oprec list \<Rightarrow> 'v rlog \<Rightarrow> bool" where
  "starts_from H fs \<longleftrightarrow> (\<forall>k v. Started k v \<in> set (fst fs @ snd fs) \<longrightarrow> Started k v \<in> set H)"

lemma starts_from_app: "starts_from H fs \<Longrightarrow> starts_from (H @ [r]) (rl_app i [r] fs)"
  by (cases fs) (auto simp: starts_from_def rl_app_def)

lemma starts_from_relog: "starts_from H fs \<Longrightarrow> starts_from H (rl_app i [Completed x] fs)"
  by (cases fs) (auto simp: starts_from_def rl_app_def)

lemma starts_from_rewrite:
  fixes fs :: "'a pending_op_scheme rlog"
  assumes "starts_from H fs" and "well_keyed (fst fs @ snd fs)"
  shows "starts_from H (rl_set j (start_records (fst (replay_all (rl_file j fs)))) fs)"
proof -
  have "well_keyed (rl_file j fs)" using assms(2) by (simp add: rl_file_def)
  then have "set (start_records (fst (replay_all (rl_file j fs)))) \<subseteq> set (rl_file j fs)"
    using pending_was_started by (auto simp: start_records_def)
  moreover have "set (rl_file j fs) \<subseteq> set (fst fs @ snd fs)" by (auto simp: rl_file_def)
  ultimately show ?thesis using assms(1) by (cases fs) (auto simp: starts_from_def rl_set_def)
qed

lemma starts_from_exec:
  assumes "starts_from H fs" and "rl_inv H (fs, i, c)"
  shows "starts_from (H @ history [e]) (fst (rl_exec e (fs, i, c)))"
proof (cases e)
  case EvRewrite
  then show ?thesis
    using assms starts_from_rewrite[OF assms(1)] by (auto simp: rl_inv_def split_beta Let_def split: cleaner.splits)
qed (use assms(1) starts_from_app[OF assms(1)] starts_from_relog[OF assms(1)] in \<open>auto split: cleaner.splits list.splits\<close>)

text \<open>The logger's files and the cleaners' memory tell the histories \<open>He\<close> of enqueues and \<open>Hd\<close> of
  dequeues.\<close>

definition both_logs ::
    "(u64 \<times> u64, pending_enq) oprec list \<Rightarrow> (u64 \<times> u64, pending_deq) oprec list \<Rightarrow> aol \<Rightarrow> os \<Rightarrow> cleaner \<Rightarrow> cleaner \<Rightarrow> bool" where
  "both_logs He Hd A w ce cd \<longleftrightarrow>
     (\<exists>fs. enq_abs A w fs \<and> rl_inv He (fs, enqueueFileIndex A, ce) \<and> starts_from He fs) \<and>
     (\<exists>fs. deq_abs A w fs \<and> rl_inv Hd (fs, dequeueFileIndex A, cd) \<and> starts_from Hd fs)"

lemma rl_inv_cleaner: "rl_inv H (fs, i, c) \<Longrightarrow> cleaner_ok i c"
  by (auto simp: rl_inv_def cleaner_ok_def)

lemma both_logs_enq:
  assumes b: "both_logs He Hd A w ce cd" and e: "enq_event_ok e" and o: "started_once (He @ history [e])"
  obtains A' w' ce' where "enq_exec e (A, w, ce) = Inr (A', w', ce')" "both_logs (He @ history [e]) Hd A' w' ce' cd"
    "logBaseDir A' = logBaseDir A"
proof -
  obtain fs fs' where 1: "enq_abs A w fs" "rl_inv He (fs, enqueueFileIndex A, ce)" "starts_from He fs"
    and 2: "deq_abs A w fs'" "rl_inv Hd (fs', dequeueFileIndex A, cd)" "starts_from Hd fs'" using b unfolding both_logs_def by blast
  obtain A' w' c' where x: "enq_exec e (A, w, ce) = Inr (A', w', c')" "enq_abs A' w' (fst (rl_exec e (fs, enqueueFileIndex A, ce)))"
    "snd (rl_exec e (fs, enqueueFileIndex A, ce)) = (enqueueFileIndex A', c')"
    using enq_exec_simulates[OF 1(1) rl_inv_cleaner[OF 1(2)] e] by blast
  have k: "deq_kept A w A' w'" by (rule enq_exec_kept[OF enq_path[OF 1(1)] x(1)])
  have "rl_inv (He @ history [e]) (fst (rl_exec e (fs, enqueueFileIndex A, ce)), enqueueFileIndex A', c')"
    using rl_inv_exec[OF 1(2) o] x(3) by (metis prod.collapse)
  moreover have "deq_abs A' w' fs'" "dequeueFileIndex A' = dequeueFileIndex A" "logBaseDir A' = logBaseDir A"
    using deq_abs_kept[OF 2(1) k] k by (simp_all add: deq_kept_def)
  ultimately have "both_logs (He @ history [e]) Hd A' w' c' cd" using x(2) 2(2,3) starts_from_exec[OF 1(3,2)]
    unfolding both_logs_def by (metis (no_types, lifting))
  then show thesis using \<open>logBaseDir A' = logBaseDir A\<close> by (rule that[OF x(1)])
qed

lemma both_logs_deq:
  assumes b: "both_logs He Hd A w ce cd" and o: "started_once (Hd @ history [e])"
  obtains A' w' cd' where "deq_exec e (A, w, cd) = (A', w', cd')" "both_logs He (Hd @ history [e]) A' w' ce cd'"
    "logBaseDir A' = logBaseDir A"
proof -
  obtain fs fs' where 1: "enq_abs A w fs" "rl_inv He (fs, enqueueFileIndex A, ce)" "starts_from He fs"
    and 2: "deq_abs A w fs'" "rl_inv Hd (fs', dequeueFileIndex A, cd)" "starts_from Hd fs'" using b unfolding both_logs_def by blast
  obtain A' w' c' where x: "deq_exec e (A, w, cd) = (A', w', c')" "deq_abs A' w' (fst (rl_exec e (fs', dequeueFileIndex A, cd)))"
    "snd (rl_exec e (fs', dequeueFileIndex A, cd)) = (dequeueFileIndex A', c')"
    using deq_exec_simulates[OF 2(1) rl_inv_cleaner[OF 2(2)], of e] by blast
  have k: "enq_kept A w A' w'" by (rule deq_exec_kept[OF deq_path[OF 2(1)] x(1)])
  have "rl_inv (Hd @ history [e]) (fst (rl_exec e (fs', dequeueFileIndex A, cd)), dequeueFileIndex A', c')"
    using rl_inv_exec[OF 2(2) o] x(3) by (metis prod.collapse)
  moreover have "enq_abs A' w' fs" "enqueueFileIndex A' = enqueueFileIndex A" "logBaseDir A' = logBaseDir A"
    using enq_abs_kept[OF 1(1) k] k by (simp_all add: enq_kept_def)
  ultimately have "both_logs He (Hd @ history [e]) A' w' ce c'" using x(2) 1(2,3) starts_from_exec[OF 2(3,2)]
    unfolding both_logs_def by (metis (no_types, lifting))
  then show thesis using \<open>logBaseDir A' = logBaseDir A\<close> by (rule that[OF x(1)])
qed

section \<open>A crash of both\<close>

lemma kept_trans:
  "enq_kept A w A1 w1 \<Longrightarrow> enq_kept A1 w1 A2 w2 \<Longrightarrow> enq_kept A w A2 w2"
  by (simp add: enq_kept_def deq_names_def names_base[of A1 A]) (blast intro: only_files_trans)

lemma log_dequeue_start_path:
  "log_dequeue_start m q (A, w) = (r, A', w') \<Longrightarrow> ofs_path (dequeueFile A') = ofs_path (dequeueFile A)"
  by (auto simp: log_dequeue_start_def log_dequeue_start_on_file_def write_frame split: prod.splits) (metis fst_conv write_frame(2))

lemma relog_dequeues_kept:
  "ofs_path (dequeueFile A) \<in> deq_names A \<Longrightarrow> relog_dequeues ds (A, w) = (A', w') \<Longrightarrow> enq_kept A w A' w'"
proof (induction ds arbitrary: A w)
  case (Cons d ds)
  obtain r A1 w1 where 1: "log_dequeue_start (msgId d) (queueId d) (A, w) = (r, A1, w1)" by (metis surj_pair)
  have k: "enq_kept A w A1 w1" by (rule log_dequeue_kept(1)[OF Cons.prems(1) 1])
  then have "ofs_path (dequeueFile A1) \<in> deq_names A1"
    using log_dequeue_start_path[OF 1] Cons.prems(1) by (simp add: enq_kept_def deq_names_def names_base[of A1 A])
  then show ?case using Cons 1 kept_trans[OF k] by simp
qed simp

lemma recoverAsyncDequeue_kept:
  assumes "calm w" and "recoverAsyncDequeue [] (A, w) = (r, ad, A', w')"
  shows "enq_kept A w A' w'"
proof -
  define A1 where "A1 = A\<lparr>dequeueFile := if ofs_open (dequeueFile A) then ofs_close (dequeueFile A) else dequeueFile A\<rparr>"
  define w1 where "w1 = os_remove (buildDeqLogName A1 1 False) (os_remove (buildDeqLogName A1 0 False) w)"
  obtain A2 w2 where o: "open_deq 0 (A1, w1) = (A2, w2)" by (metis surj_pair)
  have n: "buildDeqLogName A1 = buildDeqLogName A" by (simp add: A1_def)
  have 1: "enq_kept A w A1 w1"
    unfolding w1_def n using only_files_trans[OF only_files_ops(3) only_files_ops(3), of "buildDeqLogName A 0 False" "deq_names A" "buildDeqLogName A 1 False" w]
    by (simp add: enq_kept_def A1_def)
  have 2: "enq_kept A1 w1 A2 w2" by (rule open_kept(2)[OF o])
  have "\<not> ofs_open (dequeueFile A1)" by (simp add: A1_def ofs_close_def)
  moreover have "calm w1" using assms(1) calm_only 1 unfolding enq_kept_def by blast
  ultimately have "ofs_path (dequeueFile A2) \<in> deq_names A2"
    using o by (auto simp: open_deq_def ofs_open_app_def calm_def deq_names_upd split: prod.splits)
  moreover obtain ds where "relog_dequeues ds (A2, w2) = (A', w')"
    using assms(2) o by (auto simp: recoverAsyncDequeue_def Let_def w1_def n simp flip: A1_def)
  ultimately show ?thesis by (rule kept_trans[OF kept_trans[OF 1 2] relog_dequeues_kept])
qed

lemma crash_kept:
  assumes "enq_abs A w fs" and "deq_abs A w fs'"
  shows "enq_kept A w A (crash_image (ofs_path (dequeueFile A)) t w)" and "deq_kept A w A (crash_image (ofs_path (enqueueFile A)) t' w)"
  using enq_path[OF assms(1)] deq_path[OF assms(2)]
  by (auto simp: enq_kept_def deq_kept_def only_files_def crash_image_def)

lemma crash_commute: "p \<noteq> p' \<Longrightarrow> crash_image p t (crash_image p' t' w) = crash_image p' t' (crash_image p t w)"
  by (simp add: crash_image_def content_def fun_upd_twist)

lemma enq_torn_kept: "enq_torn_files A w fs \<Longrightarrow> enq_kept A w A' w' \<Longrightarrow> enq_torn_files A' w' fs"
  by (simp add: enq_kept_def names_base[of A' A] enq_torn_files_def calm_def content_def only_files_def)

text \<open>The crash of a run: every file as it is, the active one of either side perhaps with the
  beginning of a record.\<close>

definition crashed :: "bytes \<Rightarrow> bytes \<Rightarrow> aol \<Rightarrow> os \<Rightarrow> os" where
  "crashed te td A w = crash_image (ofs_path (dequeueFile A)) td (crash_image (ofs_path (enqueueFile A)) te w)"

lemma both_logs_restart:
  assumes b: "both_logs He Hd A w ce cd" and once: "started_once He" "started_once Hd"
    and cut: "cut_record enq_bytes (enq_valid (\<lambda>_. True)) te" "cut_record deq_bytes deq_valid td"
  obtains B w' r1 ad Aw1 r2 ae Aw2 where
    "AsyncOperationLogger (logBaseDir A) (crashed te td A w) = Inr (B, w')"
    "recoverAsyncDequeue [] (B, w') = (r1, ad, Aw1)" "recoverAsyncEnqueue [] Aw1 = Inr (r2, ae, Aw2)"
    "pset_ok ad" "pset_ok ae" "keyed ae"
    "\<forall>q p v. pending_at He (q, p) v \<longrightarrow> pset_find ae q p = Some v"
    "\<forall>q p v. pending_at Hd (q, p) v \<longrightarrow> pset_find ad q p = Some v"
    "\<forall>q p v. ce = CIdle \<or> (\<exists>j. ce = CSwitched j) \<longrightarrow> pset_find ae q p = Some v \<longrightarrow> pending_at He (q, p) v"
    "\<forall>q p v. cd = CIdle \<or> (\<exists>j. cd = CSwitched j) \<longrightarrow> pset_find ad q p = Some v \<longrightarrow> pending_at Hd (q, p) v"
    "\<forall>q p v. pset_find ae q p = Some v \<longrightarrow> Started (q, p) v \<in> set He"
    "\<forall>q p v. pset_find ad q p = Some v \<longrightarrow> Started (q, p) v \<in> set Hd"
proof -
  obtain fs fs' where 1: "enq_abs A w fs" "rl_inv He (fs, enqueueFileIndex A, ce)" "starts_from He fs"
    and 2: "deq_abs A w fs'" "rl_inv Hd (fs', dequeueFileIndex A, cd)" "starts_from Hd fs'" using b unfolding both_logs_def by blast
  let ?pe = "ofs_path (enqueueFile A)" and ?pd = "ofs_path (dequeueFile A)"
  have ne: "?pe \<noteq> ?pd" using enq_path[OF 1(1)] deq_path[OF 2(1)] by (auto simp: enq_names_def deq_names_def)
  have "calm (crashed te td A w)" using 1(1) by (simp add: crashed_def crash_image_def calm_def enq_abs_defs)
  then obtain B w' where B: "AsyncOperationLogger (logBaseDir A) (crashed te td A w) = Inr (B, w')"
    by (rule new_logger[where base = "logBaseDir A"])
  have td: "deq_torn_files B w' fs'"
    by (rule crash_torn_deq[OF deq_abs_kept[OF 2(1) crash_kept(2)[OF 1(1) 2(1)]] cut(2) B[unfolded crashed_def]])
  have te: "enq_torn_files B w' fs"
    by (rule crash_torn_enq[OF enq_abs_kept[OF 1(1) crash_kept(1)[OF 1(1) 2(1)]] cut(1)
        B[unfolded crashed_def crash_commute[OF ne[symmetric]]]])
  let ?ad = "fst (replay_all (fst fs' @ snd fs'))" and ?ae = "fst (replay_all (fst fs @ snd fs))"
  obtain A1 w1 where d: "recoverAsyncDequeue [] (B, w') = (0, ?ad, A1, w1)" using recoverAsyncDequeue_torn[OF td] by blast
  have "calm w'" using td by (simp add: deq_torn_files_def)
  from recoverAsyncDequeue_kept[OF this d] have "enq_torn_files A1 w1 fs" by (rule enq_torn_kept[OF te])
  then obtain A2 w2 where e: "recoverAsyncEnqueue [] (A1, w1) = Inr (0, ?ae, A2, w2)" using recoverAsyncEnqueue_torn by blast
  have wk: "well_keyed (fst fs @ snd fs)" using 1(2) by (simp add: rl_inv_def)
  have f: "Started (q, p) v \<in> set H" if "starts_from H gs" "pset_find (fst (replay_all (fst gs @ snd gs))) q p = Some v"
    for gs :: "'v rlog" and H q p v
    using that key_run_started[of "(q, p)" "fst gs @ snd gs" Idle v] by (auto simp: find_replay_all starts_from_def)
  have idle: "in_flight c = []" if "c = CIdle \<or> (\<exists>j. c = CSwitched j)" for c :: cleaner using that by auto
  show thesis
    by (rule that[OF B d e pset_ok_replay_all(1) pset_ok_replay_all(1) keyed_pend[OF wk]]; intro allI impI)
      (fact rl_inv_recovered(1)[OF 1(2) once(1)] rl_inv_recovered(1)[OF 2(2) once(2)]
        rl_inv_recovered(2)[OF 1(2) once(1) idle] rl_inv_recovered(2)[OF 2(2) once(2) idle] f[OF 1(3)] f[OF 2(3)])+
qed

end
