(* ===== verification/Protocol.thy ===== *)
theory Protocol
  imports TwoLogs PluginRecovery
begin

text \<open>
  The threads of a running provider: the callers of \<^verbatim>\<open>enqueue\<close> and \<^verbatim>\<open>dequeue\<close>, the workers of the
  two pools and the two cleaners of the logs, interleaved at the locks of the code. The
  calls are cut into the pieces between two lock acquisitions; a schedule is a list of
  events, each of which lets one thread do its next piece.
\<close>

section \<open>The calls, piece by piece\<close>

text \<open>\<^verbatim>\<open>enqueue\<close>: the id and the encoding, the record in the log, the token of the smart mode, the
  task for the pool.\<close>

definition enq_begin :: "('db, 'mdb) bdb \<Rightarrow> message \<Rightarrow> pqueue \<Rightarrow> (('db, 'mdb) provider, u64 \<times> bytes \<times> u64) comp" where
  "enq_begin B msg queue =
     thenE (checkInit B)
     (if persistenceId queue = 0 then throwE (StoreException (''Queue not created: '' @ pname queue))
      else bindE (enqueue_id msg (persistenceId queue)) (\<lambda>messageId.
           bindE (msgEncode B msg) (\<lambda>(buff, size). retE (messageId, buff, size))))"

definition enq_log :: "u64 \<Rightarrow> u64 \<Rightarrow> bytes \<Rightarrow> u64 \<Rightarrow> bool \<Rightarrow> (('db, 'mdb) provider, int) comp" where
  "enq_log m q buff sz transient = with_log (log_enqueue_start m q buff sz transient)"

definition enq_will :: "u64 \<Rightarrow> u64 \<Rightarrow> (('db, 'mdb) provider, unit) comp" where
  "enq_will m q = modE (\<lambda>P. if enableSmartAsync (options P) then P\<lparr>tracker := snd (willEnqueue m q (tracker P))\<rparr> else P)"

definition enq_sched :: "('db, 'mdb) bdb \<Rightarrow> store_task \<Rightarrow> (('db, 'mdb) provider, unit) comp" where
  "enq_sched B t = bindE (schedule_store B t) (\<lambda>ok.
     if \<not> ok then throwE (StoreException ''Unable to dispatch the enqueue!'') else retE ())"

lemma enqueue_pieces:
  "enqueue B msg queue = bindE (enq_begin B msg queue) (\<lambda>(m, buff, size).
     thenE (enq_log m (persistenceId queue) buff size (\<not> msg_persistent msg))
     (thenE (enq_will m (persistenceId queue))
     (thenE (enq_sched B (StoreTask (externalQueueStore queue) buff size m (\<not> msg_persistent msg)))
       (retE (msg\<lparr>msg_pid := m\<rparr>)))))"
  by (rule ext) (auto simp: enqueue_def enq_begin_def enq_log_def enq_will_def enq_sched_def thenE_def bindE_def retE_def throwE_def
      modE_def split: prod.splits sum.splits if_splits)

text \<open>\<^verbatim>\<open>store\<close> on a worker: the check, the write, the completion record, the tracker.\<close>

definition store_check :: "u64 \<Rightarrow> u64 \<Rightarrow> (('db, 'mdb) provider, bool) comp" where
  "store_check m q P =
     (case (if enableSmartAsync (options P) then enqueueCheck m q (tracker P) else (True, tracker P)) of
        (toExec, t) \<Rightarrow> (Inr toExec, P\<lparr>tracker := t\<rparr>))"

definition store_write :: "('db, 'mdb) bdb \<Rightarrow> nat \<Rightarrow> bytes \<Rightarrow> u64 \<Rightarrow> u64 \<Rightarrow> (('db, 'mdb) provider, unit) comp" where
  "store_write B a buff sz m =
     bindE (deref a) (\<lambda>J. bindE (liftE (enqueue_data (msg_api B) (take (unat sz) buff) m J)) (update_at a))"

definition store_log :: "u64 \<Rightarrow> u64 \<Rightarrow> (('db, 'mdb) provider, int) comp" where
  "store_log m q = with_log (Inr \<circ> log_enqueue_complete m q)"

definition store_add :: "u64 \<Rightarrow> u64 \<Rightarrow> (('db, 'mdb) provider, unit) comp" where
  "store_add m q = modE (\<lambda>P. P\<lparr>tracker := snd (snd (addPid m q (tracker P)))\<rparr>)"

lemma store_pieces:
  assumes "deref a P = (Inr J, P)"
  shows "store B (Some a) buff sz m transient P =
    catchE (bindE (store_check m (queuePid J)) (\<lambda>toExec.
        thenE (whenE toExec (store_write B a buff sz m)) (thenE (store_log m (queuePid J)) (store_add m (queuePid J)))))
      (rethrow_jexception (\<lambda>w. ''Queue '' @ journalName J @ '': BdbStoreProvider::store() failed: '' @ w)) P"
proof -
  have "deref a (P\<lparr>tracker := t\<rparr>) = (Inr J, P\<lparr>tracker := t\<rparr>)" for t
    using assms by (auto simp: deref_def split: if_splits option.splits)
  then show ?thesis using assms
    by (auto simp: store_def store_check_def store_write_def store_log_def store_add_def thenE_def bindE_def catchE_def getE_def
        modE_def whenE_def liftE_def split: prod.splits sum.splits)
qed

text \<open>\<^verbatim>\<open>dequeue\<close>: the checks, then either the record in the log and the task, or the completion of the
  enqueue that is no longer needed.\<close>

definition deq_begin :: "('db, 'mdb) bdb \<Rightarrow> message \<Rightarrow> pqueue \<Rightarrow> (('db, 'mdb) provider, bool) comp" where
  "deq_begin B msg queue =
     thenE (checkInit B)
     (if msg_pid msg = 0 then throwE (StoreException ''Error dequeuing message, persistence id not set'')
      else if persistenceId queue = 0 then throwE (StoreException (''Queue not created: '' @ pname queue))
      else (\<lambda>P. case (if enableSmartAsync (options P) then dequeueCheck (msg_pid msg) (persistenceId queue) (tracker P)
                      else (True, tracker P)) of
                  (toExec, t) \<Rightarrow> (Inr toExec, P\<lparr>tracker := t\<rparr>)))"

definition deq_log :: "u64 \<Rightarrow> u64 \<Rightarrow> (('db, 'mdb) provider, int) comp" where
  "deq_log m q = with_log (Inr \<circ> log_dequeue_start m q)"

definition deq_sched :: "('db, 'mdb) bdb \<Rightarrow> string \<Rightarrow> dequeue_task \<Rightarrow> (('db, 'mdb) provider, unit) comp" where
  "deq_sched B err t = bindE (schedule_dequeue B t) (\<lambda>ok. if \<not> ok then throwE (StoreException err) else retE ())"

definition deq_skip :: "u64 \<Rightarrow> u64 \<Rightarrow> (('db, 'mdb) provider, int) comp" where
  "deq_skip m q = with_log (Inr \<circ> log_enqueue_complete m q)"

lemma dequeue_pieces:
  "dequeue B msg queue = bindE (deq_begin B msg queue) (\<lambda>toExec.
     if toExec then thenE (deq_log (msg_pid msg) (persistenceId queue))
       (deq_sched B ''Unable to dispatch the dequeue!'' (DequeueTask (msg_pid msg) (externalQueueStore queue)))
     else thenE (deq_skip (msg_pid msg) (persistenceId queue)) (retE ()))"
  by (rule ext) (auto simp: dequeue_def deq_begin_def deq_log_def deq_sched_def deq_skip_def thenE_def bindE_def retE_def throwE_def
      getE_def modE_def split: prod.splits sum.splits if_splits)

text \<open>\<^verbatim>\<open>async_dequeue\<close> on a worker, once the wait is over: the deletion and the completion record.\<close>

definition async_delete :: "('db, 'mdb) bdb \<Rightarrow> nat \<Rightarrow> u64 \<Rightarrow> (('db, 'mdb) provider, unit) comp" where
  "async_delete B a m = bindE (deref a) (\<lambda>J. bindE (liftE (dequeue_data (msg_api B) m J)) (update_at a))"

definition async_log :: "u64 \<Rightarrow> u64 \<Rightarrow> (('db, 'mdb) provider, int) comp" where
  "async_log m q = with_log (Inr \<circ> log_dequeue_complete m q)"

lemma async_dequeue_pieces:
  assumes "deref a P = (Inr J, P)" and "waitForPid m (queuePid J) obs = Returned r"
  shows "async_dequeue B obs m (Some a) P =
    catchE (if r = -1 then deq_sched B ''Unable to redispatch the dequeue!'' (DequeueTask m (Some a))
            else if r = -2 then retE ()
            else thenE (async_delete B a m) (thenE (async_log m (queuePid J)) (retE ())))
      (rethrow_jexception (\<lambda>w. ''Queue '' @ journalName J @ '': async_dequeue() failed: '' @ w)) P"
  using assms
  by (auto simp: async_dequeue_def async_delete_def async_log_def deq_sched_def thenE_def bindE_def catchE_def liftE_def
      split: prod.splits sum.splits if_splits)

section \<open>The running system\<close>

text \<open>Where a caller or a worker stands with a message \<open>(queue, id)\<close>: what it does next. The
  booleans tell whether the message was written.\<close>

datatype epc = ENone | ELog | EWill | ESched | EPool | SCheck | SWrite | SLog bool | SAdd bool | EDone bool

datatype dpc = DNone | DLog | DSched | DSkip | DSkipped | DPool | AWait | ADel | ALog | DDone | DDropped

type_synonym key = "u64 \<times> u64"

text \<open>The provider, the two cleaners, the threads; \<open>again\<close> are the messages that had an id when
  they were enqueued, \<open>waits\<close> what the waiting workers have seen of the tracker, \<open>ehist\<close> and \<open>dhist\<close>
  the calls the logger was given.\<close>

record ('db, 'mdb) system =
  prov :: "('db, 'mdb) provider"
  ecl :: cleaner
  dcl :: cleaner
  eth :: "key \<Rightarrow> epc"
  dth :: "key \<Rightarrow> dpc"
  ebuf :: "key \<Rightarrow> bytes \<times> u64"
  waits :: "key \<Rightarrow> pid_tracker list"
  again :: "key set"
  ehist :: "(key, pending_enq) oprec list"
  dhist :: "(key, pending_deq) oprec list"

definition msg_of :: "(u64 \<Rightarrow> message_info) \<Rightarrow> u64 \<Rightarrow> u64 \<Rightarrow> message" where
  "msg_of M pid m = \<lparr>msg_pid = pid, msg_persistent = \<not> mi_transient (M m), enc_header = mi_header (M m), enc_content = mi_content (M m)\<rparr>"

definition edesc :: "(u64 \<Rightarrow> message_info) \<Rightarrow> ('db, 'mdb) system \<Rightarrow> key \<Rightarrow> pending_enq" where
  "edesc M s k = \<lparr>msgId = snd k, queueId = fst k, enq_buff = fst (ebuf s k), enq_size = snd (ebuf s k), enq_transient = mi_transient (M (snd k))\<rparr>"

definition ddesc :: "key \<Rightarrow> pending_deq" where
  "ddesc k = PendingAsyncDequeue (snd k) (fst k)"

definition etask :: "(u64 \<Rightarrow> message_info) \<Rightarrow> (u64 \<rightharpoonup> pqueue) \<Rightarrow> ('db, 'mdb) system \<Rightarrow> key \<Rightarrow> store_task" where
  "etask M Q s k = StoreTask (externalQueueStore (the (Q (fst k)))) (fst (ebuf s k)) (snd (ebuf s k)) (snd k) (mi_transient (M (snd k)))"

definition dtask :: "(u64 \<rightharpoonup> pqueue) \<Rightarrow> key \<Rightarrow> dequeue_task" where
  "dtask Q k = DequeueTask (snd k) (externalQueueStore (the (Q (fst k))))"

text \<open>A piece of code runs on the provider; an exception of it would end the run.\<close>

definition fire :: "(('db, 'mdb) provider, 'a) comp \<Rightarrow> ('a \<Rightarrow> ('db, 'mdb) system \<Rightarrow> ('db, 'mdb) system) \<Rightarrow>
    ('db, 'mdb) system \<Rightarrow> exn + ('db, 'mdb) system" where
  "fire f g s = (case f (prov s) of (Inl e, _) \<Rightarrow> Inl e | (Inr x, P) \<Rightarrow> Inr (g x (s\<lparr>prov := P\<rparr>)))"

abbreviation goto_e :: "key \<Rightarrow> epc \<Rightarrow> ('db, 'mdb) system \<Rightarrow> ('db, 'mdb) system" where
  "goto_e k e s \<equiv> s\<lparr>eth := (eth s)(k := e)\<rparr>"

abbreviation goto_d :: "key \<Rightarrow> dpc \<Rightarrow> ('db, 'mdb) system \<Rightarrow> ('db, 'mdb) system" where
  "goto_d k d s \<equiv> s\<lparr>dth := (dth s)(k := d)\<rparr>"

text \<open>The next piece of the enqueue of \<open>k\<close>, by its caller and then by the worker that takes the task.\<close>

definition estep :: "('db, 'mdb) bdb \<Rightarrow> (u64 \<Rightarrow> message_info) \<Rightarrow> (u64 \<rightharpoonup> pqueue) \<Rightarrow> key \<Rightarrow>
    ('db, 'mdb) system \<Rightarrow> exn + ('db, 'mdb) system" where
  "estep B M Q k s =
     (let q = fst k; m = snd k in
      case eth s k of
        ELog \<Rightarrow> fire (enq_log m q (fst (ebuf s k)) (snd (ebuf s k)) (mi_transient (M m)))
                  (\<lambda>_ s. goto_e k EWill (s\<lparr>ehist := ehist s @ [Started k (edesc M s k)]\<rparr>)) s
      | EWill \<Rightarrow> fire (enq_will m q) (\<lambda>_. goto_e k ESched) s
      | ESched \<Rightarrow> fire (enq_sched B (etask M Q s k)) (\<lambda>_. goto_e k EPool) s
      | EPool \<Rightarrow> if etask M Q s k \<in> set (enqueuePool (prov s))
                 then Inr (goto_e k SCheck (s\<lparr>prov := (prov s)\<lparr>enqueuePool := remove1 (etask M Q s k) (enqueuePool (prov s))\<rparr>\<rparr>))
                 else Inr s
      | SCheck \<Rightarrow> fire (store_check m q) (\<lambda>toExec. goto_e k (if toExec then SWrite else SLog False)) s
      | SWrite \<Rightarrow> fire (store_write B (addr (the (Q q))) (fst (ebuf s k)) (snd (ebuf s k)) m) (\<lambda>_. goto_e k (SLog True)) s
      | SLog b \<Rightarrow> fire (store_log m q) (\<lambda>_ s. goto_e k (SAdd b) (s\<lparr>ehist := ehist s @ [Completed k]\<rparr>)) s
      | SAdd b \<Rightarrow> fire (store_add m q) (\<lambda>_. goto_e k (EDone b)) s
      | _ \<Rightarrow> Inr s)"

text \<open>The next piece of the dequeue of \<open>k\<close>. A worker whose wait has not ended stays where it is.\<close>

definition dstep :: "('db, 'mdb) bdb \<Rightarrow> (u64 \<rightharpoonup> pqueue) \<Rightarrow> key \<Rightarrow> ('db, 'mdb) system \<Rightarrow> exn + ('db, 'mdb) system" where
  "dstep B Q k s =
     (let q = fst k; m = snd k in
      case dth s k of
        DLog \<Rightarrow> fire (deq_log m q) (\<lambda>_ s. goto_d k DSched (s\<lparr>dhist := dhist s @ [Started k (ddesc k)]\<rparr>)) s
      | DSched \<Rightarrow> fire (deq_sched B ''Unable to dispatch the dequeue!'' (dtask Q k)) (\<lambda>_. goto_d k DPool) s
      | DSkip \<Rightarrow> fire (deq_skip m q) (\<lambda>_ s. goto_d k DSkipped (s\<lparr>ehist := ehist s @ [Completed k]\<rparr>)) s
      | DPool \<Rightarrow> if dtask Q k \<in> set (dequeuePool (prov s))
                 then Inr (goto_d k AWait (s\<lparr>prov := (prov s)\<lparr>dequeuePool := remove1 (dtask Q k) (dequeuePool (prov s))\<rparr>,
                                              waits := (waits s)(k := [tracker (prov s)])\<rparr>))
                 else Inr s
      | AWait \<Rightarrow> (case waitForPid m q (waits s k) of
                    Blocked \<Rightarrow> Inr s
                  | Returned r \<Rightarrow>
                      if r = -1 then fire (deq_sched B ''Unable to redispatch the dequeue!'' (dtask Q k)) (\<lambda>_. goto_d k DPool) s
                      else if r = -2 then Inr (goto_d k DDropped s)
                      else Inr (goto_d k ADel s))
      | ADel \<Rightarrow> fire (async_delete B (addr (the (Q q))) m) (\<lambda>_. goto_d k ALog) s
      | ALog \<Rightarrow> fire (async_log m q) (\<lambda>_ s. goto_d k DDone (s\<lparr>dhist := dhist s @ [Completed k]\<rparr>)) s
      | _ \<Rightarrow> Inr s)"

text \<open>The events of a schedule: a message without an id is enqueued, a message that has one (on
  the queue given second) is enqueued on a further queue, a message whose enqueue has returned
  is dequeued, a thread does its next piece, a waiting worker looks at the tracker, a
  cleaner does its next step. An event whose thread is not there changes nothing.\<close>

datatype event = Enqueue u64 | EnqueueAgain key u64 | Dequeue key | EStep key | DStep key | Observe key | CleanEnq | CleanDeq

text \<open>The next step of a cleaner.\<close>

fun cleaner_event :: "cleaner \<Rightarrow> 'v log_event" where
  "cleaner_event CIdle = EvSwitch"
| "cleaner_event (CSwitched j) = EvRewrite"
| "cleaner_event (CRelog xs) = EvRelog"

definition returned :: "epc \<Rightarrow> bool" where
  "returned e \<longleftrightarrow> e \<notin> {ENone, ELog, EWill, ESched}"

definition begin_with :: "('db, 'mdb) bdb \<Rightarrow> message \<Rightarrow> pqueue \<Rightarrow> (key \<Rightarrow> ('db, 'mdb) system \<Rightarrow> ('db, 'mdb) system) \<Rightarrow>
    ('db, 'mdb) system \<Rightarrow> exn + ('db, 'mdb) system" where
  "begin_with B msg queue f = fire (enq_begin B msg queue) (\<lambda>(m, bs) s.
     let k = (persistenceId queue, m) in f k (goto_e k ELog (s\<lparr>ebuf := (ebuf s)(k := bs)\<rparr>)))"

fun exec :: "('db, 'mdb) bdb \<Rightarrow> (u64 \<Rightarrow> message_info) \<Rightarrow> (u64 \<rightharpoonup> pqueue) \<Rightarrow> event \<Rightarrow>
    ('db, 'mdb) system \<Rightarrow> exn + ('db, 'mdb) system" where
  "exec B M Q (Enqueue q) s =
     (case Q q of
        None \<Rightarrow> Inr s
      | Some queue \<Rightarrow> begin_with B (msg_of M 0 (fst (IdSequence_next (messageIdSequence (prov s))))) queue (\<lambda>_ s. s) s)"
| "exec B M Q (EnqueueAgain k q') s =
     (case Q (fst k) of
        None \<Rightarrow> Inr s
      | Some queue \<Rightarrow>
          if eth s (q', snd k) \<noteq> ENone \<and> eth s k = ENone
          then begin_with B (msg_of M (snd k) (snd k)) queue (\<lambda>k s. s\<lparr>again := insert k (again s)\<rparr>) s
          else Inr s)"
| "exec B M Q (Dequeue k) s =
     (if returned (eth s k) \<and> dth s k = DNone
      then fire (deq_begin B (msg_of M (snd k) (snd k)) (the (Q (fst k)))) (\<lambda>toExec. goto_d k (if toExec then DLog else DSkip)) s
      else Inr s)"
| "exec B M Q (EStep k) s = estep B M Q k s"
| "exec B M Q (DStep k) s = dstep B Q k s"
| "exec B M Q (Observe k) s =
     Inr (if dth s k = AWait then s\<lparr>waits := (waits s)(k := waits s k @ [tracker (prov s)])\<rparr> else s)"
| "exec B M Q CleanEnq s =
     (case aologger (prov s) of
        None \<Rightarrow> Inl (Fault NullPointer)
      | Some A \<Rightarrow> (case enq_exec (cleaner_event (ecl s)) (A, machine (prov s), ecl s) of
                     Inl e \<Rightarrow> Inl e
                   | Inr (A', w', c) \<Rightarrow> Inr (s\<lparr>prov := (prov s)\<lparr>aologger := Some A', machine := w'\<rparr>, ecl := c\<rparr>)))"
| "exec B M Q CleanDeq s =
     (case aologger (prov s) of
        None \<Rightarrow> Inl (Fault NullPointer)
      | Some A \<Rightarrow> (case deq_exec (cleaner_event (dcl s)) (A, machine (prov s), dcl s) of
                     (A', w', c) \<Rightarrow> Inr (s\<lparr>prov := (prov s)\<lparr>aologger := Some A', machine := w'\<rparr>, dcl := c\<rparr>)))"

fun run :: "('db, 'mdb) bdb \<Rightarrow> (u64 \<Rightarrow> message_info) \<Rightarrow> (u64 \<rightharpoonup> pqueue) \<Rightarrow> event list \<Rightarrow>
    ('db, 'mdb) system \<Rightarrow> exn + ('db, 'mdb) system" where
  "run B M Q [] s = Inr s"
| "run B M Q (e # es) s = (case exec B M Q e s of Inl x \<Rightarrow> Inl x | Inr s' \<Rightarrow> run B M Q es s')"

end
