(* ===== verification/ProtocolInvariant.thy ===== *)
theory ProtocolInvariant
  imports Protocol
begin

text \<open>
  What every schedule keeps true of the running system: what the logs, the databases, the
  tracker and the pools hold is a function of where the threads stand. Every piece of
  code is shown to end without an exception and to keep it so.
\<close>

declare split_paired_All [simp del] split_paired_Ex [simp del]

section \<open>Histories\<close>

text \<open>The history \<open>H\<close> has the pending operations \<open>p\<close> and says nothing of the operations in \<open>fresh\<close>.\<close>

definition tells :: "(key, 'v) oprec list \<Rightarrow> (key \<Rightarrow> 'v option) \<Rightarrow> (key \<Rightarrow> bool) \<Rightarrow> bool" where
  "tells H p fresh \<longleftrightarrow> started_once H \<and> (\<forall>k v. pending_at H k v \<longleftrightarrow> p k = Some v) \<and>
     (\<forall>k. fresh k \<longrightarrow> starts k H = [] \<and> Completed k \<notin> set H)"

lemma tells_cong: "tells H p f \<Longrightarrow> \<forall>k. p' k = p k \<Longrightarrow> \<forall>k. f' k \<longrightarrow> f k \<Longrightarrow> tells H p' f'"
  by (simp add: tells_def)

lemma tells_started:
  assumes "tells H p f" and "f k" and "\<forall>k'. p' k' = (if k' = k then Some v else p k')" and "\<forall>k'. f' k' \<longrightarrow> f k' \<and> k' \<noteq> k"
  shows "tells (H @ [Started k v]) p' f'"
proof -
  have k: "starts k H = []" "Completed k \<notin> set H" using assms(1,2) by (simp_all add: tells_def)
  then have "Started k x \<notin> set H" for x using starts_iff[of x k H] by simp
  then have "pending_at (H @ [Started k v]) k' x \<longleftrightarrow> p' k' = Some x" for k' x
    using assms(1,3) k by (auto simp: tells_def pending_at_def)
  moreover have "started_once (H @ [Started k v])"
    using assms(1) k by (auto simp: tells_def started_once_def)
  ultimately show ?thesis using assms(1,4) by (auto simp: tells_def)
qed

lemma tells_completed:
  assumes "tells H p f" and "\<forall>k'. p' k' = (if k' = k then None else p k')" and "\<forall>k'. f' k' \<longrightarrow> f k' \<and> k' \<noteq> k"
  shows "tells (H @ [Completed k]) p' f'"
proof -
  have "pending_at (H @ [Completed k]) k' x \<longleftrightarrow> p' k' = Some x" for k' x
    using assms(1,2) by (auto simp: tells_def pending_at_def)
  moreover have "started_once (H @ [Completed k])" using assms(1) by (simp add: tells_def started_once_def)
  ultimately show ?thesis using assms(1,3) by (auto simp: tells_def)
qed

section \<open>The pieces that write to the logs\<close>

lemma enq_log_runs:
  assumes "aologger P = Some A" and "both_logs He Hd A (machine P) ce cd" and "started_once (He @ [Started (q, m) v])"
    and "v = \<lparr>msgId = m, queueId = q, enq_buff = b, enq_size = n, enq_transient = t\<rparr>" and "length b = unat n"
  obtains x A' w' where "enq_log m q b n t P = (Inr x, P\<lparr>aologger := Some A', machine := w'\<rparr>)"
    "both_logs (He @ [Started (q, m) v]) Hd A' w' ce cd"
proof -
  have "opkey v = (q, m)" using assms(4) by (simp add: opkey_def)
  then have v: "enq_event_ok (EvStart v)" "history [EvStart v] = [Started (q, m) v]" using assms(4,5) by simp_all
  obtain A' w' c where e: "enq_exec (EvStart v) (A, machine P, ce) = Inr (A', w', c)" "both_logs (He @ [Started (q, m) v]) Hd A' w' c cd"
    by (rule both_logs_enq[OF assms(2) v(1), unfolded v(2), OF assms(3)])
  from e(1) have "c = ce" "\<exists>x. log_enqueue_start m q b n t (A, machine P) = Inr (x, A', w')"
    using assms(4) by (auto split: sum.splits prod.splits)
  then show thesis using that e(2) assms(1) by (auto simp: enq_log_def with_log_def)
qed

lemma enq_complete_runs:
  assumes "aologger P = Some A" and "both_logs He Hd A (machine P) ce cd" and "started_once He"
  obtains x A' w' where "with_log (Inr \<circ> log_enqueue_complete m q) P = (Inr x, P\<lparr>aologger := Some A', machine := w'\<rparr>)"
    "both_logs (He @ [Completed (q, m)]) Hd A' w' ce cd"
proof -
  have o: "started_once (He @ history [EvComplete m q :: pending_enq log_event])" using assms(3) by (simp add: started_once_def)
  obtain A' w' c where e: "enq_exec (EvComplete m q) (A, machine P, ce) = Inr (A', w', c)" "both_logs (He @ [Completed (q, m)]) Hd A' w' c cd"
    by (rule both_logs_enq[OF assms(2) _ o]) simp_all
  from e(1) have "c = ce" "\<exists>x. log_enqueue_complete m q (A, machine P) = (x, A', w')" by (auto split: prod.splits)
  then show thesis using that e(2) assms(1) by (auto simp: with_log_def)
qed

lemma deq_log_runs:
  assumes "aologger P = Some A" and "both_logs He Hd A (machine P) ce cd" and "started_once (Hd @ [Started k (ddesc k)])"
  obtains x A' w' where "deq_log (snd k) (fst k) P = (Inr x, P\<lparr>aologger := Some A', machine := w'\<rparr>)"
    "both_logs He (Hd @ [Started k (ddesc k)]) A' w' ce cd"
proof -
  have d: "opkey (ddesc k) = k" "msgId (ddesc k) = snd k" "queueId (ddesc k) = fst k"
    by (simp_all add: ddesc_def opkey_def PendingAsyncDequeue_def PendingAsyncOperation_def)
  then have h: "history [EvStart (ddesc k)] = [Started k (ddesc k)]" by simp
  obtain A' w' c where e: "deq_exec (EvStart (ddesc k)) (A, machine P, cd) = (A', w', c)" "both_logs He (Hd @ [Started k (ddesc k)]) A' w' ce c"
    by (rule both_logs_deq[OF assms(2), of "EvStart (ddesc k)", unfolded h, OF assms(3)])
  from e(1) have "c = cd" "\<exists>x. log_dequeue_start (snd k) (fst k) (A, machine P) = (x, A', w')" by (auto simp: d split: prod.splits)
  then show thesis using that e(2) assms(1) by (auto simp: deq_log_def with_log_def)
qed

lemma deq_complete_runs:
  assumes "aologger P = Some A" and "both_logs He Hd A (machine P) ce cd" and "started_once Hd"
  obtains x A' w' where "async_log m q P = (Inr x, P\<lparr>aologger := Some A', machine := w'\<rparr>)"
    "both_logs He (Hd @ [Completed (q, m)]) A' w' ce cd"
proof -
  have o: "started_once (Hd @ history [EvComplete m q :: pending_deq log_event])" using assms(3) by (simp add: started_once_def)
  obtain A' w' c where e: "deq_exec (EvComplete m q) (A, machine P, cd) = (A', w', c)" "both_logs He (Hd @ [Completed (q, m)]) A' w' ce c"
    by (rule both_logs_deq[OF assms(2) o]) simp
  from e(1) have "c = cd" "\<exists>x. log_dequeue_complete m q (A, machine P) = (x, A', w')" by (auto split: prod.splits)
  then show thesis using that e(2) assms(1) by (auto simp: async_log_def with_log_def)
qed

section \<open>The tracker\<close>

lemma addDuplicate_mem:
  assumes "smap_ok (dupMap t)" and "t' = snd (addDuplicate p q t)"
  shows "smap_ok (dupMap t')" "qm_mem (dupMap t') q' p' \<longleftrightarrow> (q', p') = (q, p) \<or> qm_mem (dupMap t) q' p'"
    "pendMap t' = pendMap t" "mainRecord t' = mainRecord t" "stopped t' = stopped t"
  using assms by (auto simp: addDuplicate_def smap_simps qm_mem_def split: option.splits)

lemma addPid_dup:
  assumes "smap_ok (dupMap t)" and "qm_mem (dupMap t) q p" and "t' = snd (snd (addPid p q t))"
  shows "smap_ok (dupMap t')" "qm_mem (dupMap t') q' p' \<longleftrightarrow> qm_mem (dupMap t) q' p' \<and> (q', p') \<noteq> (q, p)"
    "pendMap t' = pendMap t" "mainRecord t' = mainRecord t" "stopped t' = stopped t"
proof -
  obtain s where s: "map_of (dupMap t) q = Some s" "p \<in> set s" using assms(2) by (auto simp: qm_mem_def split: option.splits)
  let ?d = "if sset_erase p s = [] then smap_erase q (dupMap t) else smap_assign q (sset_erase p s) (dupMap t)"
  have t': "t' = t\<lparr>dupMap := ?d\<rparr>" using assms(3) s by (simp add: addPid_def Let_def)
  have e: "sset_erase p s = [] \<Longrightarrow> set s = {p}" using s(2) set_sset_erase[of p s] by auto
  show "smap_ok (dupMap t')" "pendMap t' = pendMap t" "mainRecord t' = mainRecord t" "stopped t' = stopped t"
    using assms(1) by (simp_all add: t' smap_simps)
  show "qm_mem (dupMap t') q' p' \<longleftrightarrow> qm_mem (dupMap t) q' p' \<and> (q', p') \<noteq> (q, p)"
    using assms(1) s e by (auto simp: t' qm_mem_def smap_simps split: option.splits if_splits)
qed

text \<open>The tracker after a start at \<open>l0\<close>: the main record counts the ids in \<open>F\<close> besides the old ones, the
  duplicates to come are \<open>D\<close>, and in the smart mode the tokens are \<open>U\<close>.\<close>

definition tracks :: "u64 \<Rightarrow> u64 set \<Rightarrow> (key \<Rightarrow> bool) \<Rightarrow> (key \<Rightarrow> bool) \<Rightarrow> bool \<Rightarrow> pid_tracker \<Rightarrow> bool" where
  "tracks l0 F D U sm t \<longleftrightarrow> smap_ok (dupMap t) \<and> smap_ok (pendMap t) \<and> \<not> stopped t \<and> record_ok (mainRecord t) \<and>
     l0 \<le> lastPid (mainRecord t) \<and> enqueued (mainRecord t) = {p. p \<le> l0} \<union> F \<and>
     (\<forall>k. qm_mem (dupMap t) (fst k) (snd k) \<longleftrightarrow> D k) \<and> (sm \<longrightarrow> (\<forall>k. qm_mem (pendMap t) (fst k) (snd k) \<longleftrightarrow> U k))"

lemma tracks_cong: "tracks l0 F D U sm t \<Longrightarrow> F' = F \<Longrightarrow> \<forall>k. D' k = D k \<Longrightarrow> \<forall>k. U' k = U k \<Longrightarrow> tracks l0 F' D' U' sm t"
  by (simp add: tracks_def)

lemma pair_eq: "(fst k, snd k) = (q, m) \<longleftrightarrow> k = (q, m)"
  by (cases k) simp

lemma tracks_duplicate:
  assumes "tracks l0 F D U sm t" and "\<forall>k. D' k = (k = (q, m) \<or> D k)"
  shows "tracks l0 F D' U sm (snd (addDuplicate m q t))"
proof -
  have "smap_ok (dupMap t)" using assms(1) by (simp add: tracks_def)
  note a = addDuplicate_mem[OF this refl, of m q]
  show ?thesis using assms unfolding tracks_def a(2-5) pair_eq by (simp add: a(1))
qed

lemma tracks_will:
  assumes "tracks l0 F D U sm t" and "\<forall>k. U' k = (k = (q, m) \<or> U k)"
  shows "tracks l0 F D U' sm (snd (willEnqueue m q t))"
proof -
  have "smap_ok (pendMap t)" using assms(1) by (simp add: tracks_def)
  note w = willEnqueue_mem[OF this, of m q]
  have f: "dupMap (snd (willEnqueue m q t)) = dupMap t" "mainRecord (snd (willEnqueue m q t)) = mainRecord t" "stopped (snd (willEnqueue m q t)) = stopped t"
    by (auto simp: willEnqueue_def split: option.splits)
  show ?thesis using assms w unfolding tracks_def f by (simp add: prod_eq_iff)
qed

lemma tracks_check:
  assumes "tracks l0 F D U sm t" and "sm \<Longrightarrow> \<forall>k. U' k = (U k \<and> k \<noteq> (q, m))"
  shows "tracks l0 F D U' sm (snd (enqueueCheck m q t))" "tracks l0 F D U' sm (snd (dequeueCheck m q t))"
proof -
  have f: "dupMap (snd (enqueueCheck m q t)) = dupMap t" "mainRecord (snd (enqueueCheck m q t)) = mainRecord t" "stopped (snd (enqueueCheck m q t)) = stopped t"
    "dupMap (snd (dequeueCheck m q t)) = dupMap t" "mainRecord (snd (dequeueCheck m q t)) = mainRecord t" "stopped (snd (dequeueCheck m q t)) = stopped t"
    by (auto simp: enqueueCheck_def dequeueCheck_def split: option.splits)
  have "smap_ok (pendMap t)" using assms(1) by (simp add: tracks_def)
  then have o: "smap_ok (pendMap (snd (enqueueCheck m q t)))" "smap_ok (pendMap (snd (dequeueCheck m q t)))"
    by (auto simp: enqueueCheck_def dequeueCheck_def split: option.splits)
  show "tracks l0 F D U' sm (snd (enqueueCheck m q t))" "tracks l0 F D U' sm (snd (dequeueCheck m q t))"
    using assms o unfolding tracks_def f by (simp_all add: check_mem pair_eq)
qed

lemma tracks_decision:
  assumes "tracks l0 F D U True t"
  shows "fst (enqueueCheck m q t) = U (q, m)" "fst (dequeueCheck m q t) = (\<not> U (q, m))"
proof -
  have "qm_mem (pendMap t) q m = U (q, m)" using assms unfolding tracks_def by (metis fst_conv snd_conv)
  then show "fst (enqueueCheck m q t) = U (q, m)" "fst (dequeueCheck m q t) = (\<not> U (q, m))" by (simp_all add: check_mem)
qed

lemma tracks_added_again:
  assumes "tracks l0 F D U sm t" and "D (q, m)" and "\<forall>k. D' k = (D k \<and> k \<noteq> (q, m))"
  shows "tracks l0 F D' U sm (snd (snd (addPid m q t)))"
proof -
  have "smap_ok (dupMap t)" "qm_mem (dupMap t) q m"
    using assms(1,2) unfolding tracks_def by (blast, metis fst_conv snd_conv)
  note a = addPid_dup[OF this refl]
  show ?thesis using assms(1,3) unfolding tracks_def a(2-5) pair_eq by (simp add: a(1))
qed

lemma tracks_added:
  assumes "tracks l0 F D U sm t" and "\<not> D (q, m)" and "unat m < unat l0 + 2 ^ 31" and "F' \<union> {p. p \<le> l0} = insert m (F \<union> {p. p \<le> l0})"
  shows "tracks l0 F' D U sm (snd (snd (addPid m q t)))"
proof -
  have n: "\<not> qm_mem (dupMap t) q m" using assms(1,2) unfolding tracks_def by (metis fst_conv snd_conv)
  have t: "snd (snd (addPid m q t)) = t\<lparr>mainRecord := snd (add_main m (mainRecord t))\<rparr>"
    by (simp add: addPid_fresh[OF n] split_beta Let_def)
  have r: "record_ok (mainRecord t)" "l0 \<le> lastPid (mainRecord t)" "enqueued (mainRecord t) = {p. p \<le> l0} \<union> F"
    using assms(1) by (simp_all add: tracks_def)
  have "below_window (lastPid (mainRecord t)) m" using assms(3) r(2) by (simp add: below_window_def word_le_nat_alt)
  note a = add_main_spec[OF r(1) this]
  show ?thesis using assms(1,4) a r unfolding tracks_def t by (simp add: Un_commute) (meson order_trans)
qed

section \<open>Where the threads stand\<close>

text \<open>What the state of a message's threads says about the enqueue log, the database, the
  token, the duplicates and the main record of the tracker, and about the dequeue log.\<close>

fun e_open :: "epc \<Rightarrow> bool" where
  "e_open (SLog b) = True"
| "e_open e = (e \<in> {EWill, ESched, EPool, SCheck, SWrite})"

fun begun :: "epc \<Rightarrow> bool" where
  "begun e = (e \<noteq> ENone \<and> e \<noteq> ELog)"

fun wrote :: "epc \<Rightarrow> bool" where
  "wrote (SLog b) = b"
| "wrote (SAdd b) = b"
| "wrote (EDone b) = b"
| "wrote _ = False"

fun finished :: "epc \<Rightarrow> bool" where
  "finished (EDone b) = True"
| "finished _ = False"

definition busy :: "epc \<Rightarrow> bool" where
  "busy e \<longleftrightarrow> e \<noteq> ENone \<and> \<not> finished e"

definition undecided :: "epc \<Rightarrow> bool" where
  "undecided e \<longleftrightarrow> e \<in> {ESched, EPool, SCheck}"

definition d_open :: "dpc \<Rightarrow> bool" where
  "d_open d \<longleftrightarrow> d \<in> {DSched, DPool, AWait, ADel, ALog}"

definition removed :: "dpc \<Rightarrow> bool" where
  "removed d \<longleftrightarrow> d \<in> {ALog, DDone}"

text \<open>How far the two sides of a message can be apart.\<close>

definition phase_ok :: "bool \<Rightarrow> epc \<Rightarrow> dpc \<Rightarrow> bool" where
  "phase_ok smart e d \<longleftrightarrow>
     (case d of
        DNone \<Rightarrow> e \<notin> {SLog False, SAdd False, EDone False}
      | DSkip \<Rightarrow> smart \<and> e \<in> {EPool, SCheck, SLog False, SAdd False, EDone False}
      | DSkipped \<Rightarrow> smart \<and> e \<in> {EPool, SCheck, SLog False, SAdd False, EDone False}
      | ADel \<Rightarrow> e = EDone True
      | ALog \<Rightarrow> e = EDone True
      | DDone \<Rightarrow> e = EDone True
      | DDropped \<Rightarrow> False
      | _ \<Rightarrow> e \<in> {SWrite, SLog True, SAdd True, EDone True} \<or> \<not> smart \<and> e \<in> {EPool, SCheck})"

lemmas pc_simps = busy_def undecided_def d_open_def removed_def phase_ok_def returned_def

section \<open>The invariant\<close>

text \<open>The circumstances of a run: the laws of Berkeley DB and of the codec, the messages \<open>M\<close> fit the
  32-bit lengths, the pools accept tasks, the queues \<open>Q\<close> have ids and journals of their own.
  The ids in use are between \<open>lo\<close> and \<open>hi\<close>, a window the comparisons of the code can bear;
  \<open>l0\<close> is the last id given out before the run.\<close>

definition setting ::
    "('db, 'mdb) bdb \<Rightarrow> ('db \<Rightarrow> u64 \<Rightarrow> bytes option) \<Rightarrow> (u64 \<Rightarrow> message_info) \<Rightarrow> (u64 \<rightharpoonup> pqueue) \<Rightarrow> u64 \<Rightarrow> nat \<Rightarrow> nat \<Rightarrow> bool" where
  "setting B view M Q l0 lo hi \<longleftrightarrow> bdb_laws bt_compare_func (msg_api B) view \<and> long_codec (putLong (framing B)) (getLong (framing B)) \<and>
     (\<forall>m. 5 + length (mi_header (M m)) + length (mi_content (M m)) < 2 ^ 32) \<and> pool_accepts B \<and>
     (\<forall>q queue. Q q = Some queue \<longrightarrow> persistenceId queue = q \<and> q \<noteq> 0 \<and> externalQueueStore queue = Some (addr queue)) \<and>
     (\<forall>q q'. q \<in> dom Q \<longrightarrow> q' \<in> dom Q \<longrightarrow> addr (the (Q q)) = addr (the (Q q')) \<longrightarrow> q = q') \<and>
     1 \<le> lo \<and> hi \<le> lo + 2 ^ 31 \<and> hi \<le> unat l0 + 2 ^ 31 \<and> hi < 2 ^ 64"

abbreviation smart :: "('db, 'mdb) system \<Rightarrow> bool" where
  "smart s \<equiv> enableSmartAsync (options (prov s))"

definition ids_inv :: "(u64 \<rightharpoonup> pqueue) \<Rightarrow> u64 \<Rightarrow> nat \<Rightarrow> nat \<Rightarrow> nat \<Rightarrow> ('db, 'mdb) system \<Rightarrow> bool" where
  "ids_inv Q l0 lo hi n s \<longleftrightarrow> isInit (prov s) \<and> lo \<le> unat (messageIdSequence (prov s)) \<and> unat (messageIdSequence (prov s)) + n \<le> hi \<and>
     l0 < messageIdSequence (prov s) \<and>
     (\<forall>k. eth s k \<noteq> ENone \<longrightarrow> fst k \<in> dom Q \<and> lo \<le> unat (snd k) \<and> snd k < messageIdSequence (prov s)) \<and>
     (\<forall>k. k \<in> again s \<longrightarrow> eth s k \<noteq> ENone) \<and>
     (\<forall>k. k \<notin> again s \<longrightarrow> snd k \<le> l0 \<longrightarrow> eth s k = ENone \<or> finished (eth s k)) \<and>
     (\<forall>q q' m. (q, m) \<notin> again s \<longrightarrow> (q', m) \<notin> again s \<longrightarrow> l0 < m \<longrightarrow> eth s (q, m) \<noteq> ENone \<longrightarrow> eth s (q', m) \<noteq> ENone \<longrightarrow> q = q')"

text \<open>The record of an enqueue in the log.\<close>

definition idesc :: "('db, 'mdb) bdb \<Rightarrow> (u64 \<Rightarrow> message_info) \<Rightarrow> key \<Rightarrow> pending_enq" where
  "idesc B M k = \<lparr>msgId = snd k, queueId = fst k, enq_buff = msg_image (framing B) M (snd k),
     enq_size = word_of_nat (length (msg_image (framing B) M (snd k))), enq_transient = mi_transient (M (snd k))\<rparr>"

definition threads_inv :: "('db, 'mdb) bdb \<Rightarrow> (u64 \<Rightarrow> message_info) \<Rightarrow> ('db, 'mdb) system \<Rightarrow> bool" where
  "threads_inv B M s \<longleftrightarrow> (\<forall>k. phase_ok (smart s) (eth s k) (dth s k)) \<and>
     (\<forall>k. eth s k \<noteq> ENone \<longrightarrow> \<not> finished (eth s k) \<longrightarrow>
        ebuf s k = (msg_image (framing B) M (snd k), word_of_nat (length (msg_image (framing B) M (snd k))))) \<and>
     (\<forall>k v. Started k v \<in> set (ehist s) \<longrightarrow> v = idesc B M k)"

definition logs_inv :: "(u64 \<Rightarrow> message_info) \<Rightarrow> ('db, 'mdb) system \<Rightarrow> bool" where
  "logs_inv M s \<longleftrightarrow>
     (\<exists>A. aologger (prov s) = Some A \<and> both_logs (ehist s) (dhist s) A (machine (prov s)) (ecl s) (dcl s)) \<and>
     tells (ehist s) (\<lambda>k. if e_open (eth s k) \<and> dth s k \<noteq> DSkipped then Some (edesc M s k) else None) (\<lambda>k. \<not> begun (eth s k)) \<and>
     tells (dhist s) (\<lambda>k. if d_open (dth s k) then Some (ddesc k) else None) (\<lambda>k. dth s k = DNone \<or> dth s k = DLog)"

definition ids :: "(key \<Rightarrow> bool) \<Rightarrow> u64 set" where
  "ids G = {m. \<exists>q. G (q, m)}"

definition tracker_inv :: "u64 \<Rightarrow> ('db, 'mdb) system \<Rightarrow> bool" where
  "tracker_inv l0 s \<longleftrightarrow> tracks l0 (ids (\<lambda>k. k \<notin> again s \<and> finished (eth s k))) (\<lambda>k. k \<in> again s \<and> busy (eth s k))
     (\<lambda>k. undecided (eth s k) \<and> dth s k = DNone) (smart s) (tracker (prov s))"

definition journals_inv ::
    "('db, 'mdb) bdb \<Rightarrow> ('db \<Rightarrow> u64 \<Rightarrow> bytes option) \<Rightarrow> (u64 \<Rightarrow> message_info) \<Rightarrow> (u64 \<rightharpoonup> pqueue) \<Rightarrow> ('db, 'mdb) system \<Rightarrow> bool" where
  "journals_inv B view M Q s \<longleftrightarrow> (\<forall>q \<in> dom Q. \<exists>J. deref (addr (the (Q q))) (prov s) = (Inr J, prov s) \<and> jinv view J \<and> queuePid J = q \<and>
     (\<forall>m. jview view J m = (if wrote (eth s (q, m)) \<and> \<not> removed (dth s (q, m)) then Some (msg_image (framing B) M m) else None)))"

definition pools_inv :: "(u64 \<Rightarrow> message_info) \<Rightarrow> (u64 \<rightharpoonup> pqueue) \<Rightarrow> ('db, 'mdb) system \<Rightarrow> bool" where
  "pools_inv M Q s \<longleftrightarrow>
     (\<exists>ks. enqueuePool (prov s) = map (etask M Q s) ks \<and> distinct ks \<and> set ks = {k. eth s k = EPool}) \<and>
     (\<exists>ks. dequeuePool (prov s) = map (dtask Q) ks \<and> distinct ks \<and> set ks = {k. dth s k = DPool})"

definition waits_inv :: "('db, 'mdb) system \<Rightarrow> bool" where
  "waits_inv s \<longleftrightarrow> (\<forall>k t. dth s k = AWait \<longrightarrow> t \<in> set (waits s k) \<longrightarrow> \<not> stopped t \<and>
     ((if k \<in> again s then \<not> qm_mem (dupMap t) (fst k) (snd k) else snd k \<le> lastPid (mainRecord t)) \<longrightarrow> finished (eth s k)))"

definition sys_inv ::
    "('db, 'mdb) bdb \<Rightarrow> ('db \<Rightarrow> u64 \<Rightarrow> bytes option) \<Rightarrow> (u64 \<Rightarrow> message_info) \<Rightarrow> (u64 \<rightharpoonup> pqueue) \<Rightarrow> u64 \<Rightarrow> nat \<Rightarrow> nat \<Rightarrow> nat \<Rightarrow>
     ('db, 'mdb) system \<Rightarrow> bool" where
  "sys_inv B view M Q l0 lo hi n s \<longleftrightarrow> ids_inv Q l0 lo hi n s \<and> threads_inv B M s \<and> logs_inv M s \<and> tracker_inv l0 s \<and>
     journals_inv B view M Q s \<and> pools_inv M Q s \<and> waits_inv s"

section \<open>What leaves a part of it alone\<close>

named_theorems sys_frames
  \<open>when a part of the invariant survives a change of the rest of the state\<close>

lemma ids_frame [sys_frames]:
  assumes "ids_inv Q l0 lo hi (Suc n) s" and "isInit (prov s') = isInit (prov s)" and "messageIdSequence (prov s') = messageIdSequence (prov s)"
    and "again s' = again s" and "\<forall>k. (eth s' k = ENone) = (eth s k = ENone)" and "\<forall>k. finished (eth s k) \<longrightarrow> finished (eth s' k)"
  shows "ids_inv Q l0 lo hi n s'"
proof -
  have "unat (messageIdSequence (prov s)) + n \<le> hi" using assms(1) by (simp add: ids_inv_def)
  then show ?thesis using assms(1,6) unfolding ids_inv_def assms(2-4) assms(5)[rule_format] by blast
qed

lemma threads_frame [sys_frames]:
  assumes "threads_inv B M s" and "ebuf s' = ebuf s" and "\<forall>k. busy (eth s' k) \<longrightarrow> busy (eth s k)"
    and "\<forall>k. phase_ok (smart s') (eth s' k) (dth s' k)" and "\<forall>k v. Started k v \<in> set (ehist s') \<longrightarrow> Started k v \<in> set (ehist s)"
  shows "threads_inv B M s'"
  using assms by (simp add: threads_inv_def busy_def)

lemma logs_frame [sys_frames]:
  assumes "logs_inv M s" and "aologger (prov s') = aologger (prov s)" and "machine (prov s') = machine (prov s)"
    and "ehist s' = ehist s" and "dhist s' = dhist s" and "ecl s' = ecl s" and "dcl s' = dcl s"
    and "\<forall>k. e_open (eth s k) \<longrightarrow> ebuf s' k = ebuf s k"
    and "\<forall>k. (e_open (eth s' k) \<and> dth s' k \<noteq> DSkipped) = (e_open (eth s k) \<and> dth s k \<noteq> DSkipped)" and "\<forall>k. begun (eth s k) \<longrightarrow> begun (eth s' k)"
    and "\<forall>k. d_open (dth s' k) = d_open (dth s k)" and "\<forall>k. dth s' k = DNone \<or> dth s' k = DLog \<longrightarrow> dth s k = DNone \<or> dth s k = DLog"
  shows "logs_inv M s'"
proof -
  have "edesc M s' k = edesc M s k" if "e_open (eth s k)" for k using assms(8) that by (simp add: edesc_def)
  then show ?thesis
    using assms(1) unfolding logs_inv_def assms(2-7)
    by (elim conjE, intro conjI) (assumption | (erule tells_cong; use assms(9-12) in auto))+
qed

lemma logs_upd:
  assumes "aologger (prov s') = Some A" and "both_logs (ehist s') (dhist s') A (machine (prov s')) (ecl s') (dcl s')"
    and e: "tells (ehist s') p f" "\<forall>k. p k = (if e_open (eth s' k) \<and> dth s' k \<noteq> DSkipped then Some (edesc M s' k) else None)" "\<forall>k. \<not> begun (eth s' k) \<longrightarrow> f k"
    and d: "tells (dhist s') p' f'" "\<forall>k. p' k = (if d_open (dth s' k) then Some (ddesc k) else None)" "\<forall>k. dth s' k = DNone \<or> dth s' k = DLog \<longrightarrow> f' k"
  shows "logs_inv M s'"
  unfolding logs_inv_def using assms(1,2) tells_cong[OF e(1) _ e(3)] tells_cong[OF d(1) _ d(3)] e(2) d(2) by simp

lemma logs_parts:
  assumes "logs_inv M s"
  obtains A where "aologger (prov s) = Some A" "both_logs (ehist s) (dhist s) A (machine (prov s)) (ecl s) (dcl s)"
    "tells (ehist s) (\<lambda>k. if e_open (eth s k) \<and> dth s k \<noteq> DSkipped then Some (edesc M s k) else None) (\<lambda>k. \<not> begun (eth s k))"
    "tells (dhist s) (\<lambda>k. if d_open (dth s k) then Some (ddesc k) else None) (\<lambda>k. dth s k = DNone \<or> dth s k = DLog)"
  using assms unfolding logs_inv_def by blast

lemma tells_once: "tells H p f \<Longrightarrow> started_once H"
  by (simp add: tells_def)

lemma tracker_frame [sys_frames]:
  assumes "tracker_inv l0 s" and "tracker (prov s') = tracker (prov s)" and "options (prov s') = options (prov s)" and "again s' = again s"
    and "\<forall>k. finished (eth s' k) = finished (eth s k)" and "\<forall>k. k \<in> again s \<longrightarrow> busy (eth s' k) = busy (eth s k)"
    and "\<forall>k. (undecided (eth s' k) \<and> dth s' k = DNone) = (undecided (eth s k) \<and> dth s k = DNone)"
  shows "tracker_inv l0 s'"
  unfolding tracker_inv_def assms(2-4)
  by (rule tracks_cong[OF assms(1)[unfolded tracker_inv_def]]) (use assms(5-7) in auto)

lemma tracker_upd:
  assumes "tracks l0 (ids G) D U sm t" and "smart s' = sm" and "tracker (prov s') = t"
    and "\<forall>k. (k \<notin> again s' \<and> finished (eth s' k)) = G k" and "\<forall>k. (k \<in> again s' \<and> busy (eth s' k)) = D k"
    and "\<forall>k. (undecided (eth s' k) \<and> dth s' k = DNone) = U k"
  shows "tracker_inv l0 s'"
  unfolding tracker_inv_def assms(2,3) using assms(4) by (intro tracks_cong[OF assms(1) _ assms(5,6)]) simp

lemma deref_eq: "jheap P' = jheap P \<Longrightarrow> deref a P = (Inr J, P) \<Longrightarrow> deref a P' = (Inr J, P')"
  by (auto simp: deref_def split: if_splits option.splits)

lemma journals_frame [sys_frames]:
  assumes "journals_inv B view M Q s" and "jheap (prov s') = jheap (prov s)"
    and "\<forall>k. (wrote (eth s' k) \<and> \<not> removed (dth s' k)) = (wrote (eth s k) \<and> \<not> removed (dth s k))"
  shows "journals_inv B view M Q s'"
  unfolding journals_inv_def
proof
  fix q assume "q \<in> dom Q"
  with assms(1) obtain J where J: "deref (addr (the (Q q))) (prov s) = (Inr J, prov s)" "jinv view J" "queuePid J = q"
    "\<forall>m. jview view J m = (if wrote (eth s (q, m)) \<and> \<not> removed (dth s (q, m)) then Some (msg_image (framing B) M m) else None)"
    unfolding journals_inv_def by blast
  show "\<exists>J. deref (addr (the (Q q))) (prov s') = (Inr J, prov s') \<and> jinv view J \<and> queuePid J = q \<and>
     (\<forall>m. jview view J m = (if wrote (eth s' (q, m)) \<and> \<not> removed (dth s' (q, m)) then Some (msg_image (framing B) M m) else None))"
    using J deref_eq[OF assms(2) J(1)] by (intro exI[of _ J]) (simp only: assms(3) simp_thms)
qed

lemma pools_frame [sys_frames]:
  assumes "pools_inv M Q s" and "enqueuePool (prov s') = enqueuePool (prov s)" and "dequeuePool (prov s') = dequeuePool (prov s)"
    and "\<forall>k. eth s k = EPool \<longrightarrow> ebuf s' k = ebuf s k" and "\<forall>k. (eth s' k = EPool) = (eth s k = EPool)" and "\<forall>k. (dth s' k = DPool) = (dth s k = DPool)"
  shows "pools_inv M Q s'"
proof -
  have "map (etask M Q s') ks = map (etask M Q s) ks" if "set ks = {k. eth s k = EPool}" for ks
    using assms(4) that by (intro map_cong[OF refl]) (auto simp: etask_def)
  then show ?thesis using assms(1) unfolding pools_inv_def by (simp only: assms(2,3,5,6)) metis
qed

lemma waits_frame [sys_frames]:
  assumes "waits_inv s" and "again s' = again s" and "\<forall>k. dth s' k = AWait \<longrightarrow> dth s k = AWait \<and> waits s' k = waits s k"
    and "\<forall>k. finished (eth s k) \<longrightarrow> finished (eth s' k)"
  shows "waits_inv s'"
  using assms(1,3,4) unfolding waits_inv_def assms(2) by metis

lemma sys_invI:
  assumes "ids_inv Q l0 lo hi n s" "threads_inv B M s" "logs_inv M s" "tracker_inv l0 s" "journals_inv B view M Q s" "pools_inv M Q s" "waits_inv s"
  shows "sys_inv B view M Q l0 lo hi n s"
  using assms by (simp add: sys_inv_def)

lemma sys_invE:
  assumes "sys_inv B view M Q l0 lo hi n s"
  obtains "ids_inv Q l0 lo hi n s" "threads_inv B M s" "logs_inv M s" "tracker_inv l0 s" "journals_inv B view M Q s" "pools_inv M Q s" "waits_inv s"
  using assms by (simp add: sys_inv_def)

lemma sys_inv_less: "sys_inv B view M Q l0 lo hi (Suc n) s \<Longrightarrow> sys_inv B view M Q l0 lo hi n s"
  by (simp add: sys_inv_def ids_inv_def)

end
