(* ===== verification/ProtocolSteps.thy ===== *)
theory ProtocolSteps
  imports ProtocolInvariant
begin

text \<open>Every event of a schedule keeps the invariant of the running system, and no piece of code ends
  with an exception.\<close>

section \<open>Beginning an enqueue\<close>

lemma inv_calm: "logs_inv M s \<Longrightarrow> calm (machine (prov s))"
  by (auto simp: logs_inv_def both_logs_def enq_abs_defs)

lemma settingD:
  assumes "setting B view M Q l0 lo hi" and "Q q = Some queue"
  shows "persistenceId queue = q" "q \<noteq> 0" "externalQueueStore queue = Some (addr queue)"
  using assms unfolding setting_def by blast+

lemma msgEncode_image:
  assumes "setting B view M Q l0 lo hi" and "calm (machine P)"
  shows "msgEncode B (msg_of M p m) P = (Inr (msg_image (framing B) M m, word_of_nat (length (msg_image (framing B) M m))), P)"
proof -
  have "length (putLong (framing B) x) = 4" for x using assms(1) by (simp add: setting_def long_codec_def)
  then have "length (msg_image (framing B) M m) = length (mi_header (M m)) + length (mi_content (M m)) + 5"
    by (simp add: msg_image_def stored_msg_def)
  then show ?thesis
    using assms(2) by (simp add: msgEncode_def msg_of_def comp_simps Let_def calm_def msg_image_def stored_msg_def)
qed

lemma enq_begin_first:
  assumes "setting B view M Q l0 lo hi" and "calm (machine P)" and "isInit P" and "Q q = Some queue" and "messageIdSequence P \<noteq> 0"
  shows "enq_begin B (msg_of M 0 m) queue P =
    (Inr (messageIdSequence P, msg_image (framing B) M m, word_of_nat (length (msg_image (framing B) M m))), P\<lparr>messageIdSequence := messageIdSequence P + 1\<rparr>)"
proof -
  have "calm (machine (P\<lparr>messageIdSequence := x\<rparr>))" for x using assms(2) by simp
  note e = msgEncode_image[OF assms(1) this]
  show ?thesis
    using assms(3,5) settingD[OF assms(1,4)] e
    by (simp add: enq_begin_def checkInit_def enqueue_id_def comp_simps IdSequence_next_def Let_def) (simp add: msg_of_def)
qed

lemma enq_begin_again:
  assumes "setting B view M Q l0 lo hi" and "calm (machine P)" and "isInit P" and "Q q = Some queue" and "m \<noteq> 0"
  shows "enq_begin B (msg_of M m m) queue P =
    (Inr (m, msg_image (framing B) M m, word_of_nat (length (msg_image (framing B) M m))), P\<lparr>tracker := snd (addDuplicate m q (tracker P))\<rparr>)"
proof -
  have "calm (machine (P\<lparr>tracker := x\<rparr>))" for x using assms(2) by simp
  note e = msgEncode_image[OF assms(1) this]
  show ?thesis
    using assms(3,5) settingD[OF assms(1,4)] e
    by (simp add: enq_begin_def checkInit_def enqueue_id_def comp_simps) (simp add: msg_of_def)
qed

lemma phase_early: "phase_ok sm e d \<Longrightarrow> \<not> returned e \<Longrightarrow> d = DNone"
  by (cases d) (auto simp: phase_ok_def returned_def)

lemma phase_new [simp]: "phase_ok sm ELog DNone" "phase_ok sm EWill DNone" "phase_ok sm ESched DNone" "phase_ok sm EPool DNone"
  by (simp_all add: phase_ok_def)

lemma threads_phase: "threads_inv B M s \<Longrightarrow> phase_ok (smart s) (eth s k) (dth s k)"
  by (simp add: threads_inv_def)

lemma threads_none: "threads_inv B M s \<Longrightarrow> eth s k \<in> {ENone, ELog, EWill, ESched} \<Longrightarrow> dth s k = DNone"
  by (rule phase_early[OF threads_phase]) (auto simp: returned_def)

text \<open>The thread of a new message enters at \<open>ELog\<close>; the parts of the invariant that look at the logs,
  the journals and the pools do not see it yet.\<close>

lemma enter:
  assumes inv: "threads_inv B M s" "logs_inv M s" "journals_inv B view M Q s" "pools_inv M Q s" and new: "eth s k = ENone"
    and s': "eth s' = (eth s)(k := ELog)" "dth s' = dth s" "ebuf s' = (ebuf s)(k := (msg_image (framing B) M (snd k), word_of_nat (length (msg_image (framing B) M (snd k)))))"
      "ehist s' = ehist s" "dhist s' = dhist s" "ecl s' = ecl s" "dcl s' = dcl s"
    and P': "options (prov s') = options (prov s)" "aologger (prov s') = aologger (prov s)" "machine (prov s') = machine (prov s)"
      "jheap (prov s') = jheap (prov s)" "enqueuePool (prov s') = enqueuePool (prov s)" "dequeuePool (prov s') = dequeuePool (prov s)"
  shows "threads_inv B M s'" "logs_inv M s'" "journals_inv B view M Q s'" "pools_inv M Q s'"
proof -
  have d: "dth s k = DNone" using threads_none[OF inv(1)] new by simp
  show "threads_inv B M s'" using inv(1) d by (auto simp: threads_inv_def s' P')
  show "logs_inv M s'" by (rule logs_frame[OF inv(2) P'(2,3) s'(4-7)]) (auto simp: s' new)
  show "journals_inv B view M Q s'" by (rule journals_frame[OF inv(3) P'(4)]) (auto simp: s' new)
  show "pools_inv M Q s'" by (rule pools_frame[OF inv(4) P'(5,6)]) (auto simp: s' new)
qed

lemma Enqueue_keeps:
  assumes st: "setting B view M Q l0 lo hi" and inv: "sys_inv B view M Q l0 lo hi (Suc n) s"
  shows "\<exists>s'. exec B M Q (Enqueue q) s = Inr s' \<and> sys_inv B view M Q l0 lo hi n s'"
proof (cases "Q q")
  case None
  then show ?thesis using sys_inv_less[OF inv] by simp
next
  case (Some queue)
  let ?P = "prov s" and ?m = "messageIdSequence (prov s)"
  from inv have i: "ids_inv Q l0 lo hi (Suc n) s" "threads_inv B M s" "logs_inv M s" "tracker_inv l0 s" "journals_inv B view M Q s"
    "pools_inv M Q s" "waits_inv s" by (auto elim: sys_invE)
  have m: "isInit ?P" "l0 < ?m" "unat ?m + Suc n \<le> hi" "lo \<le> unat ?m" "?m \<noteq> 0" "hi < 2 ^ 64"
    using i(1) st by (auto simp: ids_inv_def setting_def)
  have f: "fst (IdSequence_next ?m) = ?m" using m(5) by (simp add: IdSequence_next_def Let_def)
  have new: "eth s (q', ?m) = ENone" for q' using i(1) unfolding ids_inv_def by (metis order_less_irrefl snd_conv)
  have un: "(q', ?m) \<notin> again s" for q' using i(1) new unfolding ids_inv_def by blast
  let ?k = "(q, ?m)"
  let ?s = "s\<lparr>prov := ?P\<lparr>messageIdSequence := ?m + 1\<rparr>, ebuf := (ebuf s)(?k := (msg_image (framing B) M ?m, word_of_nat (length (msg_image (framing B) M ?m)))),
    eth := (eth s)(?k := ELog)\<rparr>"
  have run: "exec B M Q (Enqueue q) s = Inr ?s"
    using enq_begin_first[OF st inv_calm[OF i(3)] m(1) Some m(5), of ?m] settingD(1)[OF st Some] Some
    by (simp add: begin_with_def fire_def Let_def f)
  have nx: "unat (?m + 1) = unat ?m + 1"
    using m(3,6) by (simp add: unat_word_ariths)
  have lt: "x < ?m + 1" if "x < ?m" for x using that nx by (simp add: word_less_nat_alt)
  have "?m < ?m + 1" using nx by (simp add: word_less_nat_alt)
  then have "ids_inv Q l0 lo hi n ?s"
    using i(1) m Some nx lt new un by (auto simp: ids_inv_def)
  moreover have "tracker_inv l0 ?s"
    by (rule tracker_frame[OF i(4)]) (auto simp: pc_simps new un)
  moreover have "waits_inv ?s" by (rule waits_frame[OF i(7)]) (auto simp: new)
  moreover note enter[OF i(2,3,5,6) new, of ?s]
  ultimately show ?thesis using run by (auto intro!: sys_invI)
qed

lemma EnqueueAgain_keeps:
  assumes st: "setting B view M Q l0 lo hi" and inv: "sys_inv B view M Q l0 lo hi (Suc n) s"
  shows "\<exists>s'. exec B M Q (EnqueueAgain k q') s = Inr s' \<and> sys_inv B view M Q l0 lo hi n s'"
proof (cases "Q (fst k) \<noteq> None \<and> eth s (q', snd k) \<noteq> ENone \<and> eth s k = ENone")
  case False
  then show ?thesis using sys_inv_less[OF inv] by (auto split: option.splits)
next
  case True
  then obtain queue where Q: "Q (fst k) = Some queue" and old: "eth s (q', snd k) \<noteq> ENone" and new: "eth s k = ENone" by blast
  obtain q m where k: "k = (q, m)" by (cases k)
  let ?P = "prov s" and ?t = "tracker (prov s)"
  from inv have i: "ids_inv Q l0 lo hi (Suc n) s" "threads_inv B M s" "logs_inv M s" "tracker_inv l0 s" "journals_inv B view M Q s"
    "pools_inv M Q s" "waits_inv s" by (auto elim: sys_invE)
  have m: "isInit ?P" "lo \<le> unat m" "m < messageIdSequence ?P" using i(1) old k by (auto simp: ids_inv_def)
  then have m0: "m \<noteq> 0" using st by (auto simp: setting_def)
  have un: "k \<notin> again s" using i(1) new unfolding ids_inv_def by blast
  let ?s = "s\<lparr>prov := ?P\<lparr>tracker := snd (addDuplicate m q ?t)\<rparr>, ebuf := (ebuf s)(k := (msg_image (framing B) M m, word_of_nat (length (msg_image (framing B) M m)))),
    eth := (eth s)(k := ELog), again := insert k (again s)\<rparr>"
  have run: "exec B M Q (EnqueueAgain k q') s = Inr ?s"
    using enq_begin_again[OF st inv_calm[OF i(3)] m(1) Q m0] settingD(1)[OF st Q] Q old new
    by (simp add: begin_with_def fire_def Let_def k)
  have "ids_inv Q l0 lo hi n ?s"
    using i(1) m Q new by (auto simp: ids_inv_def k)
  moreover have "tracker_inv l0 ?s"
    by (rule tracker_upd[OF tracks_duplicate[OF i(4)[unfolded tracker_inv_def] allI[OF refl]]])
      (use new un in \<open>auto simp: k busy_def undecided_def\<close>)
  moreover have "waits_inv ?s"
    using i(7) new threads_none[OF i(2), of k] by (auto simp: waits_inv_def)
  moreover note enter[OF i(2,3,5,6) new, of ?s]
  ultimately show ?thesis using run by (auto intro!: sys_invI simp: k)
qed

section \<open>The pieces of an enqueue\<close>

lemma sys_parts:
  assumes "sys_inv B view M Q l0 lo hi n s"
  shows "ids_inv Q l0 lo hi n s" "threads_inv B M s" "logs_inv M s" "tracker_inv l0 s" "journals_inv B view M Q s" "pools_inv M Q s" "waits_inv s"
  using assms by (simp_all add: sys_inv_def)

lemma len64: "LENGTH(64) = 64"
  by simp

lemma image_size:
  assumes "setting B view M Q l0 lo hi"
  shows "length (msg_image (framing B) M m) = unat (word_of_nat (length (msg_image (framing B) M m)) :: u64)"
proof -
  have "length (putLong (framing B) x) = 4" for x using assms by (simp add: setting_def long_codec_def)
  then have "length (msg_image (framing B) M m) = 5 + length (mi_header (M m)) + length (mi_content (M m))"
    by (simp add: msg_image_def stored_msg_def)
  moreover have "5 + length (mi_header (M m)) + length (mi_content (M m)) < 2 ^ 32" using assms by (simp add: setting_def)
  ultimately have "length (msg_image (framing B) M m) < 2 ^ 64" by simp
  then show ?thesis by (simp only: unsigned_of_nat take_bit_nat_eq_self len64 of_nat_id)
qed

lemma step_ELog:
  assumes st: "setting B view M Q l0 lo hi" and inv: "sys_inv B view M Q l0 lo hi (Suc n) s" and pc: "eth s k = ELog"
  shows "\<exists>s'. estep B M Q k s = Inr s' \<and> sys_inv B view M Q l0 lo hi n s'"
proof -
  note i = sys_parts[OF inv]
  have d: "dth s k = DNone" using threads_none[OF i(2)] pc by simp
  have b: "length (fst (ebuf s k)) = unat (snd (ebuf s k))"
    using i(2) pc image_size[OF st] by (simp add: threads_inv_def)
  obtain A where A: "aologger (prov s) = Some A" "both_logs (ehist s) (dhist s) A (machine (prov s)) (ecl s) (dcl s)"
    and T: "tells (ehist s) (\<lambda>k. if e_open (eth s k) \<and> dth s k \<noteq> DSkipped then Some (edesc M s k) else None) (\<lambda>k. \<not> begun (eth s k))"
      "tells (dhist s) (\<lambda>k. if d_open (dth s k) then Some (ddesc k) else None) (\<lambda>k. dth s k = DNone \<or> dth s k = DLog)"
    by (rule logs_parts[OF i(3)])
  have T': "tells (ehist s @ [Started k (edesc M s k)]) (\<lambda>k'. if k' = k then Some (edesc M s k) else
        if e_open (eth s k') \<and> dth s k' \<noteq> DSkipped then Some (edesc M s k') else None) (\<lambda>k'. \<not> begun (eth s k') \<and> k' \<noteq> k)"
    by (rule tells_started[OF T(1)]) (simp_all add: pc)
  from tells_once[OF this]
  obtain x A' w' where r: "enq_log (snd k) (fst k) (fst (ebuf s k)) (snd (ebuf s k)) (mi_transient (M (snd k))) (prov s) =
      (Inr x, (prov s)\<lparr>aologger := Some A', machine := w'\<rparr>)"
    "both_logs (ehist s @ [Started k (edesc M s k)]) (dhist s) A' w' (ecl s) (dcl s)"
    by (rule enq_log_runs[OF A _ edesc_def b, unfolded prod.collapse])
  let ?s = "s\<lparr>prov := (prov s)\<lparr>aologger := Some A', machine := w'\<rparr>, ehist := ehist s @ [Started k (edesc M s k)], eth := (eth s)(k := EWill)\<rparr>"
  have "edesc M (s\<lparr>prov := P\<rparr>) = edesc M s" for P by (simp add: edesc_def fun_eq_iff)
  then have run: "estep B M Q k s = Inr ?s" using r(1) pc by (simp add: estep_def fire_def)
  have "logs_inv M ?s" by (rule logs_upd[of ?s A']) (use r(2) T(2) T' d in \<open>auto simp: edesc_def\<close>)
  moreover have "ids_inv Q l0 lo hi n ?s" by (rule ids_frame[OF i(1)]) (auto simp: pc)
  moreover have "edesc M s k = idesc B M k" using i(2) pc by (simp add: threads_inv_def edesc_def idesc_def)
  then have "threads_inv B M ?s" using i(2) d by (auto simp: threads_inv_def pc)
  moreover have "tracker_inv l0 ?s" by (rule tracker_frame[OF i(4)]) (auto simp: pc pc_simps)
  moreover have "journals_inv B view M Q ?s" by (rule journals_frame[OF i(5)]) (auto simp: pc)
  moreover have "pools_inv M Q ?s" by (rule pools_frame[OF i(6)]) (auto simp: pc)
  moreover have "waits_inv ?s" by (rule waits_frame[OF i(7)]) (auto simp: pc)
  ultimately show ?thesis using run sys_invI by blast
qed

lemma tracks_dull: "\<not> sm \<Longrightarrow> tracks l0 F D U sm t \<Longrightarrow> tracks l0 F D U' sm t"
  by (simp add: tracks_def)

lemma step_EWill:
  assumes st: "setting B view M Q l0 lo hi" and inv: "sys_inv B view M Q l0 lo hi (Suc n) s" and pc: "eth s k = EWill"
  shows "\<exists>s'. estep B M Q k s = Inr s' \<and> sys_inv B view M Q l0 lo hi n s'"
proof -
  note i = sys_parts[OF inv]
  have d: "dth s k = DNone" using threads_none[OF i(2)] pc by simp
  let ?t = "if smart s then snd (willEnqueue (snd k) (fst k) (tracker (prov s))) else tracker (prov s)"
  let ?s = "s\<lparr>prov := (prov s)\<lparr>tracker := ?t\<rparr>, eth := (eth s)(k := ESched)\<rparr>"
  have run: "estep B M Q k s = Inr ?s" using pc by (simp add: estep_def fire_def enq_will_def modE_def)
  have "tracks l0 (ids (\<lambda>k. k \<notin> again s \<and> finished (eth s k))) (\<lambda>k. k \<in> again s \<and> busy (eth s k))
      (\<lambda>k'. k' = (fst k, snd k) \<or> undecided (eth s k') \<and> dth s k' = DNone) (smart s) ?t"
    using tracks_will[OF i(4)[unfolded tracker_inv_def] allI[OF refl], where q = "fst k" and m = "snd k"] tracks_dull[OF _ i(4)[unfolded tracker_inv_def]]
    by (cases "smart s") simp_all
  then have "tracker_inv l0 ?s" by (rule tracker_upd) (use pc d in \<open>auto simp: pc_simps\<close>)
  moreover have "logs_inv M ?s" by (rule logs_frame[OF i(3)]) (auto simp: pc)
  moreover have "ids_inv Q l0 lo hi n ?s" by (rule ids_frame[OF i(1)]) (auto simp: pc)
  moreover have "threads_inv B M ?s" by (rule threads_frame[OF i(2)]) (use threads_phase[OF i(2)] in \<open>auto simp: pc d busy_def\<close>)
  moreover have "journals_inv B view M Q ?s" by (rule journals_frame[OF i(5)]) (auto simp: pc)
  moreover have "pools_inv M Q ?s" by (rule pools_frame[OF i(6)]) (auto simp: pc)
  moreover have "waits_inv ?s" by (rule waits_frame[OF i(7)]) (auto simp: pc)
  ultimately show ?thesis using run sys_invI by blast
qed

lemma remove1_map: "inj_on f (insert x (set xs)) \<Longrightarrow> remove1 (f x) (map f xs) = map f (remove1 x xs)"
  by (induction xs) (auto simp: inj_on_def)

lemma setting_apart:
  assumes "setting B view M Q l0 lo hi" and "q \<in> dom Q" and "q' \<in> dom Q"
  shows "addr (the (Q q)) = addr (the (Q q')) \<Longrightarrow> q = q'"
  using assms unfolding setting_def by blast

lemma task_inj:
  assumes "setting B view M Q l0 lo hi" and "fst k \<in> dom Q" and "fst k' \<in> dom Q"
  shows "etask M Q s k = etask M Q s k' \<Longrightarrow> k = k'" "dtask Q k = dtask Q k' \<Longrightarrow> k = k'"
proof -
  obtain a b where a: "Q (fst k) = Some a" "Q (fst k') = Some b" using assms(2,3) by blast
  have "externalQueueStore a = externalQueueStore b \<Longrightarrow> fst k = fst k'"
    using setting_apart[OF assms] settingD(3)[OF assms(1) a(1)] settingD(3)[OF assms(1) a(2)] a by simp
  then show "etask M Q s k = etask M Q s k' \<Longrightarrow> k = k'" "dtask Q k = dtask Q k' \<Longrightarrow> k = k'"
    using a by (simp_all add: etask_def dtask_def prod_eq_iff)
qed

lemma pools_parts:
  assumes "pools_inv M Q s"
  obtains es ds where "enqueuePool (prov s) = map (etask M Q s) es" "distinct es" "set es = {k. eth s k = EPool}"
    "dequeuePool (prov s) = map (dtask Q) ds" "distinct ds" "set ds = {k. dth s k = DPool}"
  using assms unfolding pools_inv_def by blast

lemma pools_upd:
  assumes "ebuf s' = ebuf s" and "enqueuePool (prov s') = map (etask M Q s) es" and "distinct es" and "set es = {k. eth s' k = EPool}"
    and "dequeuePool (prov s') = map (dtask Q) ds" and "distinct ds" and "set ds = {k. dth s' k = DPool}"
  shows "pools_inv M Q s'"
proof -
  have "etask M Q s' = etask M Q s" using assms(1) by (simp add: etask_def fun_eq_iff)
  then show ?thesis using assms(2-7) unfolding pools_inv_def by (metis (no_types, lifting))
qed

lemma step_ESched:
  assumes st: "setting B view M Q l0 lo hi" and inv: "sys_inv B view M Q l0 lo hi (Suc n) s" and pc: "eth s k = ESched"
  shows "\<exists>s'. estep B M Q k s = Inr s' \<and> sys_inv B view M Q l0 lo hi n s'"
proof -
  note i = sys_parts[OF inv]
  have d: "dth s k = DNone" using threads_none[OF i(2)] pc by simp
  let ?s = "s\<lparr>prov := (prov s)\<lparr>enqueuePool := enqueuePool (prov s) @ [etask M Q s k]\<rparr>, eth := (eth s)(k := EPool)\<rparr>"
  have "pool_accepts B" using st by (simp add: setting_def)
  then have run: "estep B M Q k s = Inr ?s" using pc by (simp add: estep_def fire_def enq_sched_def schedule_store_def comp_simps)
  have "pools_inv M Q ?s"
  proof -
    obtain es ds where "enqueuePool (prov s) = map (etask M Q s) es" "distinct es" "set es = {k. eth s k = EPool}"
      "dequeuePool (prov s) = map (dtask Q) ds" "distinct ds" "set ds = {k. dth s k = DPool}" by (rule pools_parts[OF i(6)])
    then show ?thesis using pc by (intro pools_upd[where es = "es @ [k]" and ds = ds and s = s]) auto
  qed
  moreover have "tracker_inv l0 ?s" by (rule tracker_frame[OF i(4)]) (auto simp: pc pc_simps)
  moreover have "logs_inv M ?s" by (rule logs_frame[OF i(3)]) (auto simp: pc)
  moreover have "ids_inv Q l0 lo hi n ?s" by (rule ids_frame[OF i(1)]) (auto simp: pc)
  moreover have "threads_inv B M ?s" by (rule threads_frame[OF i(2)]) (use threads_phase[OF i(2)] in \<open>auto simp: pc d busy_def\<close>)
  moreover have "journals_inv B view M Q ?s" by (rule journals_frame[OF i(5)]) (auto simp: pc)
  moreover have "waits_inv ?s" by (rule waits_frame[OF i(7)]) (auto simp: pc)
  ultimately show ?thesis using run sys_invI by blast
qed

lemma ids_dom: "ids_inv Q l0 lo hi n s \<Longrightarrow> eth s k \<noteq> ENone \<Longrightarrow> fst k \<in> dom Q"
  unfolding ids_inv_def by blast

lemma tasks_inj:
  assumes "setting B view M Q l0 lo hi" and "ids_inv Q l0 lo hi n s"
  shows "inj_on (etask M Q s) {k. eth s k \<noteq> ENone}" "inj_on (dtask Q) {k. eth s k \<noteq> ENone}"
  by (rule inj_onI, erule task_inj[OF assms(1) ids_dom[OF assms(2)] ids_dom[OF assms(2)], rotated -1]; simp)+

lemma step_EPool:
  assumes st: "setting B view M Q l0 lo hi" and inv: "sys_inv B view M Q l0 lo hi (Suc n) s" and pc: "eth s k = EPool"
  shows "\<exists>s'. estep B M Q k s = Inr s' \<and> sys_inv B view M Q l0 lo hi n s'"
proof -
  note i = sys_parts[OF inv]
  let ?s = "s\<lparr>prov := (prov s)\<lparr>enqueuePool := remove1 (etask M Q s k) (enqueuePool (prov s))\<rparr>, eth := (eth s)(k := SCheck)\<rparr>"
  obtain es ds where p: "enqueuePool (prov s) = map (etask M Q s) es" "distinct es" "set es = {k. eth s k = EPool}"
    "dequeuePool (prov s) = map (dtask Q) ds" "distinct ds" "set ds = {k. dth s k = DPool}" by (rule pools_parts[OF i(6)])
  have k: "k \<in> set es" using p(3) pc by simp
  have "inj_on (etask M Q s) (insert k (set es))"
    by (rule inj_on_subset[OF tasks_inj(1)[OF st i(1)]]) (use p(3) pc in auto)
  then have "enqueuePool (prov ?s) = map (etask M Q s) (remove1 k es)" by (simp add: p(1) remove1_map)
  moreover have "set (remove1 k es) = {x. eth ?s x = EPool}" using p(2,3) by auto
  ultimately have "pools_inv M Q ?s" using p by (intro pools_upd[where es = "remove1 k es" and ds = ds and s = s]) simp_all
  moreover have run: "estep B M Q k s = Inr ?s" using pc k by (simp add: estep_def p(1))
  moreover have "tracker_inv l0 ?s" by (rule tracker_frame[OF i(4)]) (auto simp: pc pc_simps)
  moreover have "logs_inv M ?s" by (rule logs_frame[OF i(3)]) (auto simp: pc)
  moreover have "ids_inv Q l0 lo hi n ?s" by (rule ids_frame[OF i(1)]) (auto simp: pc)
  moreover have "phase_ok (smart s) SCheck (dth s k)" using threads_phase[OF i(2), of k] by (cases "dth s k") (auto simp: pc phase_ok_def)
  then have "threads_inv B M ?s" by (intro threads_frame[OF i(2)]) (use threads_phase[OF i(2)] in \<open>auto simp: pc busy_def\<close>)
  moreover have "journals_inv B view M Q ?s" by (rule journals_frame[OF i(5)]) (auto simp: pc)
  moreover have "waits_inv ?s" by (rule waits_frame[OF i(7)]) (auto simp: pc)
  ultimately show ?thesis using sys_invI by blast
qed

lemma step_SCheck:
  assumes st: "setting B view M Q l0 lo hi" and inv: "sys_inv B view M Q l0 lo hi (Suc n) s" and pc: "eth s k = SCheck"
  shows "\<exists>s'. estep B M Q k s = Inr s' \<and> sys_inv B view M Q l0 lo hi n s'"
proof -
  note i = sys_parts[OF inv]
  let ?t = "if smart s then snd (enqueueCheck (snd k) (fst k) (tracker (prov s))) else tracker (prov s)"
  let ?x = "smart s \<longrightarrow> dth s k = DNone"
  let ?s = "s\<lparr>prov := (prov s)\<lparr>tracker := ?t\<rparr>, eth := (eth s)(k := if ?x then SWrite else SLog False)\<rparr>"
  note t = i(4)[unfolded tracker_inv_def]
  have "fst (enqueueCheck (snd k) (fst k) (tracker (prov s))) = (dth s k = DNone)" if "smart s"
    using tracks_decision(1)[of l0 _ _ "\<lambda>k. undecided (eth s k) \<and> dth s k = DNone"] t that pc by (simp add: undecided_def)
  then have run: "estep B M Q k s = Inr ?s"
    using pc by (auto simp: estep_def fire_def store_check_def split: prod.splits)
  have "tracks l0 (ids (\<lambda>k. k \<notin> again s \<and> finished (eth s k))) (\<lambda>k. k \<in> again s \<and> busy (eth s k))
      (\<lambda>k'. (undecided (eth s k') \<and> dth s k' = DNone) \<and> k' \<noteq> (fst k, snd k)) (smart s) ?t"
    using tracks_check(1)[OF t allI[OF refl], where q = "fst k" and m = "snd k"] tracks_dull[OF _ t] by (cases "smart s") simp_all
  then have "tracker_inv l0 ?s" by (rule tracker_upd) (use pc in \<open>auto simp: pc_simps\<close>)
  moreover have "logs_inv M ?s" by (rule logs_frame[OF i(3)]) (auto simp: pc)
  moreover have "ids_inv Q l0 lo hi n ?s" by (rule ids_frame[OF i(1)]) (auto simp: pc)
  moreover have "phase_ok (smart s) (if ?x then SWrite else SLog False) (dth s k)"
    using threads_phase[OF i(2), of k] by (cases "dth s k") (auto simp: pc phase_ok_def)
  then have "threads_inv B M ?s" by (intro threads_frame[OF i(2)]) (use threads_phase[OF i(2)] in \<open>auto simp: pc busy_def\<close>)
  moreover have "journals_inv B view M Q ?s" by (rule journals_frame[OF i(5)]) (auto simp: pc)
  moreover have "pools_inv M Q ?s" by (rule pools_frame[OF i(6)]) (auto simp: pc)
  moreover have "waits_inv ?s" by (rule waits_frame[OF i(7)]) (auto simp: pc)
  ultimately show ?thesis using run sys_invI by blast
qed

lemma ids_range: "ids_inv Q l0 lo hi n s \<Longrightarrow> eth s k \<noteq> ENone \<Longrightarrow> lo \<le> unat (snd k) \<and> snd k < messageIdSequence (prov s)"
  unfolding ids_inv_def by blast

lemma ids_window:
  assumes "setting B view M Q l0 lo hi" and "ids_inv Q l0 lo hi n s" and "\<forall>m \<in> S. eth s (q, m) \<noteq> ENone"
  shows "key_window S"
proof -
  have r: "lo \<le> unat m \<and> unat m < hi" if "m \<in> S" for m
  proof -
    have "eth s (q, m) \<noteq> ENone" using assms(3) that by blast
    from ids_range[OF assms(2) this] have "lo \<le> unat m \<and> m < messageIdSequence (prov s)" by simp
    moreover have "unat (messageIdSequence (prov s)) + n \<le> hi" using assms(2) unfolding ids_inv_def by blast
    ultimately show ?thesis by (simp add: word_less_nat_alt)
  qed
  have h: "hi \<le> lo + 2147483648" using assms(1) by (simp add: setting_def)
  have "unat x - unat y < 2147483648" if "x \<in> S" "y \<in> S" for x y using r[OF that(1)] r[OF that(2)] h by linarith
  then show ?thesis by (simp add: key_window_def)
qed

lemma journal_at:
  assumes "journals_inv B view M Q s" and "q \<in> dom Q"
  obtains J where "deref (addr (the (Q q))) (prov s) = (Inr J, prov s)" "jinv view J" "queuePid J = q"
    "\<forall>m. jview view J m = (if wrote (eth s (q, m)) \<and> \<not> removed (dth s (q, m)) then Some (msg_image (framing B) M m) else None)"
  using assms unfolding journals_inv_def by blast

lemma journal_window:
  assumes "setting B view M Q l0 lo hi" and "ids_inv Q l0 lo hi n s"
    and "\<forall>m. jview view J m = (if wrote (eth s (q, m)) \<and> \<not> removed (dth s (q, m)) then Some (msg_image (framing B) M m) else None)"
    and "eth s (q, m) \<noteq> ENone"
  shows "key_window (insert m (dom (jview view J)))"
proof -
  have "eth s (q, x) \<noteq> ENone" if "x \<in> dom (jview view J)" for x
  proof -
    have "wrote (eth s (q, x))" using that assms(3) by (auto split: if_splits)
    then show ?thesis by auto
  qed
  then show ?thesis using assms(4) by (intro ids_window[OF assms(1,2), where q = q]) auto
qed

lemma deref_upd:
  assumes "deref a P = (Inr J, P)" and "jheap P' = (jheap P)[b := Some J']"
  shows "deref a P' = (Inr (if a = b then J' else J), P')"
  using assms by (auto simp: deref_def split: if_splits option.splits)

lemma journals_upd:
  assumes st: "setting B view M Q l0 lo hi" and j: "journals_inv B view M Q s" and q: "q \<in> dom Q"
    and h: "jheap (prov s') = (jheap (prov s))[addr (the (Q q)) := Some J']" and J': "jinv view J'" "queuePid J' = q"
      "\<forall>m. jview view J' m = (if wrote (eth s' (q, m)) \<and> \<not> removed (dth s' (q, m)) then Some (msg_image (framing B) M m) else None)"
    and f: "\<forall>k. fst k \<noteq> q \<longrightarrow> (wrote (eth s' k) \<and> \<not> removed (dth s' k)) = (wrote (eth s k) \<and> \<not> removed (dth s k))"
  shows "journals_inv B view M Q s'"
  unfolding journals_inv_def
proof
  fix x assume x: "x \<in> dom Q"
  from journal_at[OF j x] obtain J where J: "deref (addr (the (Q x))) (prov s) = (Inr J, prov s)" "jinv view J" "queuePid J = x"
    "\<forall>m. jview view J m = (if wrote (eth s (x, m)) \<and> \<not> removed (dth s (x, m)) then Some (msg_image (framing B) M m) else None)" by blast
  note d = deref_upd[OF J(1) h]
  show "\<exists>J. deref (addr (the (Q x))) (prov s') = (Inr J, prov s') \<and> jinv view J \<and> queuePid J = x \<and>
      (\<forall>m. jview view J m = (if wrote (eth s' (x, m)) \<and> \<not> removed (dth s' (x, m)) then Some (msg_image (framing B) M m) else None))"
  proof (cases "x = q")
    case True
    then show ?thesis using d J' by (intro exI[of _ J']) simp
  next
    case False
    then have "addr (the (Q x)) \<noteq> addr (the (Q q))" using setting_apart[OF st x q] by blast
    moreover have "(wrote (eth s' (x, m)) \<and> \<not> removed (dth s' (x, m))) = (wrote (eth s (x, m)) \<and> \<not> removed (dth s (x, m)))" for m
      using f False by (metis fst_conv)
    ultimately show ?thesis using d J by (intro exI[of _ J]) simp
  qed
qed

lemma step_SWrite:
  assumes st: "setting B view M Q l0 lo hi" and inv: "sys_inv B view M Q l0 lo hi (Suc n) s" and pc: "eth s k = SWrite"
  shows "\<exists>s'. estep B M Q k s = Inr s' \<and> sys_inv B view M Q l0 lo hi n s'"
proof -
  note i = sys_parts[OF inv]
  obtain q m where k: "k = (q, m)" by (cases k) simp
  let ?img = "msg_image (framing B) M m"
  have q: "q \<in> dom Q" using ids_dom[OF i(1), of k] pc k by simp
  obtain J where J: "deref (addr (the (Q q))) (prov s) = (Inr J, prov s)" "jinv view J" "queuePid J = q"
    "\<forall>m. jview view J m = (if wrote (eth s (q, m)) \<and> \<not> removed (dth s (q, m)) then Some (msg_image (framing B) M m) else None)"
    by (rule journal_at[OF i(5) q])
  have w: "key_window (insert m (dom (jview view J)))"
    by (rule journal_window[OF st i(1) J(4)]) (simp add: pc flip: k)
  have laws: "bdb_laws bt_compare_func (msg_api B) view" using st by (simp add: setting_def)
  have b: "fst (ebuf s k) = ?img" "take (unat (snd (ebuf s k))) ?img = ?img"
    using i(2) pc k image_size[OF st, of m] by (auto simp: threads_inv_def)
  have v: "jview view J m = None" using J(4) pc k by simp
  obtain J' where J': "enqueue_data (msg_api B) ?img m J = Inr J'" "jinv view J'" "jview view J' = (jview view J)(m \<mapsto> ?img)" "queuePid J' = q"
    using journal_map[OF laws J(2) w, of ?img] v J(3) by auto
  let ?P = "(prov s)\<lparr>jheap := (jheap (prov s))[addr (the (Q q)) := Some J']\<rparr>"
  let ?s = "s\<lparr>prov := ?P, eth := (eth s)(k := SLog True)\<rparr>"
  have run: "estep B M Q k s = Inr ?s"
    using pc J(1) J'(1) b k by (simp add: estep_def fire_def store_write_def comp_simps update_at_def)
  have nr: "\<not> removed (dth s k)" using threads_phase[OF i(2), of k] pc by (auto simp: phase_ok_def removed_def)
  have "journals_inv B view M Q ?s"
    by (rule journals_upd[OF st i(5) q _ J'(2,4)]) (use J'(3) J(4) k nr in \<open>auto simp: k\<close>)
  moreover have "tracker_inv l0 ?s" by (rule tracker_frame[OF i(4)]) (auto simp: pc pc_simps)
  moreover have "logs_inv M ?s" by (rule logs_frame[OF i(3)]) (auto simp: pc)
  moreover have "ids_inv Q l0 lo hi n ?s" by (rule ids_frame[OF i(1)]) (auto simp: pc)
  moreover have "phase_ok (smart s) (SLog True) (dth s k)" using threads_phase[OF i(2), of k] by (cases "dth s k") (auto simp: pc phase_ok_def)
  then have "threads_inv B M ?s" by (intro threads_frame[OF i(2)]) (use threads_phase[OF i(2)] in \<open>auto simp: pc busy_def\<close>)
  moreover have "pools_inv M Q ?s" by (rule pools_frame[OF i(6)]) (auto simp: pc)
  moreover have "waits_inv ?s" by (rule waits_frame[OF i(7)]) (auto simp: pc)
  ultimately show ?thesis using run sys_invI by blast
qed

lemma step_SLog:
  assumes st: "setting B view M Q l0 lo hi" and inv: "sys_inv B view M Q l0 lo hi (Suc n) s" and pc: "eth s k = SLog b"
  shows "\<exists>s'. estep B M Q k s = Inr s' \<and> sys_inv B view M Q l0 lo hi n s'"
proof -
  note i = sys_parts[OF inv]
  obtain A where A: "aologger (prov s) = Some A" "both_logs (ehist s) (dhist s) A (machine (prov s)) (ecl s) (dcl s)"
    and T: "tells (ehist s) (\<lambda>k. if e_open (eth s k) \<and> dth s k \<noteq> DSkipped then Some (edesc M s k) else None) (\<lambda>k. \<not> begun (eth s k))"
      "tells (dhist s) (\<lambda>k. if d_open (dth s k) then Some (ddesc k) else None) (\<lambda>k. dth s k = DNone \<or> dth s k = DLog)"
    by (rule logs_parts[OF i(3)])
  obtain x A' w' where r: "store_log (snd k) (fst k) (prov s) = (Inr x, (prov s)\<lparr>aologger := Some A', machine := w'\<rparr>)"
    "both_logs (ehist s @ [Completed k]) (dhist s) A' w' (ecl s) (dcl s)"
    unfolding store_log_def by (rule enq_complete_runs[OF A tells_once[OF T(1)], of "snd k" "fst k", unfolded prod.collapse])
  have T': "tells (ehist s @ [Completed k]) (\<lambda>k'. if k' = k then None else
        if e_open (eth s k') \<and> dth s k' \<noteq> DSkipped then Some (edesc M s k') else None) (\<lambda>k'. \<not> begun (eth s k') \<and> k' \<noteq> k)"
    by (rule tells_completed[OF T(1)]) simp_all
  let ?s = "s\<lparr>prov := (prov s)\<lparr>aologger := Some A', machine := w'\<rparr>, ehist := ehist s @ [Completed k], eth := (eth s)(k := SAdd b)\<rparr>"
  have run: "estep B M Q k s = Inr ?s" using r(1) pc by (simp add: estep_def fire_def)
  have "logs_inv M ?s" by (rule logs_upd[of ?s A']) (use r(2) T(2) T' in \<open>auto simp: edesc_def\<close>)
  moreover have "ids_inv Q l0 lo hi n ?s" by (rule ids_frame[OF i(1)]) (auto simp: pc)
  moreover have "phase_ok (smart s) (SAdd b) (dth s k)" using threads_phase[OF i(2), of k] by (cases "dth s k") (auto simp: pc phase_ok_def)
  then have "threads_inv B M ?s" by (intro threads_frame[OF i(2)]) (use threads_phase[OF i(2)] in \<open>auto simp: pc busy_def\<close>)
  moreover have "tracker_inv l0 ?s" by (rule tracker_frame[OF i(4)]) (auto simp: pc pc_simps)
  moreover have "journals_inv B view M Q ?s" by (rule journals_frame[OF i(5)]) (auto simp: pc)
  moreover have "pools_inv M Q ?s" by (rule pools_frame[OF i(6)]) (auto simp: pc)
  moreover have "waits_inv ?s" by (rule waits_frame[OF i(7)]) (auto simp: pc)
  ultimately show ?thesis using run sys_invI by blast
qed

lemma step_SAdd:
  assumes st: "setting B view M Q l0 lo hi" and inv: "sys_inv B view M Q l0 lo hi (Suc n) s" and pc: "eth s k = SAdd b"
  shows "\<exists>s'. estep B M Q k s = Inr s' \<and> sys_inv B view M Q l0 lo hi n s'"
proof -
  note i = sys_parts[OF inv]
  let ?m = "snd k"
  note t = i(4)[unfolded tracker_inv_def]
  let ?s = "s\<lparr>prov := (prov s)\<lparr>tracker := snd (snd (addPid ?m (fst k) (tracker (prov s))))\<rparr>, eth := (eth s)(k := EDone b)\<rparr>"
  have run: "estep B M Q k s = Inr ?s" using pc by (simp add: estep_def fire_def store_add_def modE_def)
  have "tracker_inv l0 ?s"
  proof (cases "k \<in> again s")
    case True
    then have "(fst k, snd k) \<in> again s \<and> busy (eth s (fst k, snd k))" using pc by (simp add: busy_def)
    from tracks_added_again[OF t this allI[OF refl]] show ?thesis
      by (rule tracker_upd) (use True in \<open>auto simp: pc pc_simps\<close>)
  next
    case False
    then have n: "\<not> ((fst k, snd k) \<in> again s \<and> busy (eth s (fst k, snd k)))" by simp
    have "hi \<le> unat l0 + 2 ^ 31" using st unfolding setting_def by blast
    moreover have "unat (messageIdSequence (prov s)) + Suc n \<le> hi" using i(1) unfolding ids_inv_def by blast
    ultimately have w: "unat ?m < unat l0 + 2 ^ 31"
      using ids_range[OF i(1), of k] pc by (simp add: word_less_nat_alt)
    have "ids (\<lambda>k'. k' = k \<or> k' \<notin> again s \<and> finished (eth s k')) \<union> {p. p \<le> l0} = insert ?m (ids (\<lambda>k. k \<notin> again s \<and> finished (eth s k)) \<union> {p. p \<le> l0})"
      unfolding ids_def by (cases k) auto
    from tracks_added[OF t n w this] show ?thesis
      by (rule tracker_upd) (use False in \<open>auto simp: pc pc_simps\<close>)
  qed
  moreover have "logs_inv M ?s" by (rule logs_frame[OF i(3)]) (auto simp: pc)
  moreover have "ids_inv Q l0 lo hi n ?s" by (rule ids_frame[OF i(1)]) (auto simp: pc)
  moreover have "phase_ok (smart s) (EDone b) (dth s k)" using threads_phase[OF i(2), of k] by (cases "dth s k") (auto simp: pc phase_ok_def)
  then have "threads_inv B M ?s" by (intro threads_frame[OF i(2)]) (use threads_phase[OF i(2)] in \<open>auto simp: pc busy_def\<close>)
  moreover have "journals_inv B view M Q ?s" by (rule journals_frame[OF i(5)]) (auto simp: pc)
  moreover have "pools_inv M Q ?s" by (rule pools_frame[OF i(6)]) (auto simp: pc)
  moreover have "waits_inv ?s" by (rule waits_frame[OF i(7)]) (auto simp: pc)
  ultimately show ?thesis using run sys_invI by blast
qed

lemma EStep_keeps:
  assumes "setting B view M Q l0 lo hi" and "sys_inv B view M Q l0 lo hi (Suc n) s"
  shows "\<exists>s'. exec B M Q (EStep k) s = Inr s' \<and> sys_inv B view M Q l0 lo hi n s'"
proof (cases "eth s k")
  case ENone
  then show ?thesis using sys_inv_less[OF assms(2)] by (simp add: estep_def)
next
  case (EDone b)
  then show ?thesis using sys_inv_less[OF assms(2)] by (simp add: estep_def)
qed (use step_ELog[OF assms] step_EWill[OF assms] step_ESched[OF assms] step_EPool[OF assms] step_SCheck[OF assms]
    step_SWrite[OF assms] step_SLog[OF assms] step_SAdd[OF assms] in \<open>simp_all\<close>)

section \<open>The pieces of a dequeue\<close>

lemma deq_begin_runs:
  assumes "isInit P" and "persistenceId queue = q" and "q \<noteq> 0" and "m \<noteq> 0"
  shows "deq_begin B (msg_of M m m) queue P =
    (Inr (\<not> enableSmartAsync (options P) \<or> fst (dequeueCheck m q (tracker P))),
     P\<lparr>tracker := if enableSmartAsync (options P) then snd (dequeueCheck m q (tracker P)) else tracker P\<rparr>)"
  using assms by (simp add: deq_begin_def checkInit_def comp_simps msg_of_def split: prod.splits)

lemma Dequeue_keeps:
  assumes st: "setting B view M Q l0 lo hi" and inv: "sys_inv B view M Q l0 lo hi (Suc n) s"
  shows "\<exists>s'. exec B M Q (Dequeue k) s = Inr s' \<and> sys_inv B view M Q l0 lo hi n s'"
proof (cases "returned (eth s k) \<and> dth s k = DNone")
  case False
  then show ?thesis using sys_inv_less[OF inv] by (simp only: exec.simps if_False) simp
next
  case True
  then have pc: "returned (eth s k)" "dth s k = DNone" by blast+
  note i = sys_parts[OF inv]
  note t = i(4)[unfolded tracker_inv_def]
  have e: "eth s k \<noteq> ENone" using pc(1) by (auto simp: returned_def)
  obtain queue where Q: "Q (fst k) = Some queue" using ids_dom[OF i(1) e] by blast
  have "1 \<le> lo" using st unfolding setting_def by blast
  then have m0: "snd k \<noteq> 0" using ids_range[OF i(1) e] by auto
  have "isInit (prov s)" using i(1) unfolding ids_inv_def by blast
  note r = deq_begin_runs[OF this settingD(1,2)[OF st Q] m0, of B M]
  let ?x = "\<not> (smart s \<and> undecided (eth s k))"
  let ?t = "if smart s then snd (dequeueCheck (snd k) (fst k) (tracker (prov s))) else tracker (prov s)"
  let ?s = "s\<lparr>prov := (prov s)\<lparr>tracker := ?t\<rparr>, dth := (dth s)(k := if ?x then DLog else DSkip)\<rparr>"
  have "fst (dequeueCheck (snd k) (fst k) (tracker (prov s))) = (\<not> undecided (eth s k))" if "smart s"
    using tracks_decision(2)[of l0 _ _ "\<lambda>k. undecided (eth s k) \<and> dth s k = DNone"] t that pc by simp
  then have run: "exec B M Q (Dequeue k) s = Inr ?s" using pc r Q by (auto simp: fire_def)
  have "tracks l0 (ids (\<lambda>k. k \<notin> again s \<and> finished (eth s k))) (\<lambda>k. k \<in> again s \<and> busy (eth s k))
      (\<lambda>k'. (undecided (eth s k') \<and> dth s k' = DNone) \<and> k' \<noteq> (fst k, snd k)) (smart s) ?t"
    using tracks_check(2)[OF t allI[OF refl], where q = "fst k" and m = "snd k"] tracks_dull[OF _ t] by (cases "smart s") simp_all
  then have "tracker_inv l0 ?s" by (rule tracker_upd) auto
  moreover have "logs_inv M ?s" by (rule logs_frame[OF i(3)]) (auto simp: pc d_open_def)
  moreover have "ids_inv Q l0 lo hi n ?s" by (rule ids_frame[OF i(1)]) auto
  moreover have "phase_ok (smart s) (eth s k) (if ?x then DLog else DSkip)"
    using threads_phase[OF i(2), of k] pc by (cases "eth s k") (auto simp: phase_ok_def undecided_def returned_def)
  then have "threads_inv B M ?s" by (intro threads_frame[OF i(2)]) (use threads_phase[OF i(2)] in auto)
  moreover have "journals_inv B view M Q ?s" by (rule journals_frame[OF i(5)]) (auto simp: pc removed_def)
  moreover have "pools_inv M Q ?s" by (rule pools_frame[OF i(6)]) (auto simp: pc)
  moreover have "waits_inv ?s" by (rule waits_frame[OF i(7)]) auto
  ultimately show ?thesis using run sys_invI by blast
qed

lemma step_DLog:
  assumes st: "setting B view M Q l0 lo hi" and inv: "sys_inv B view M Q l0 lo hi (Suc n) s" and pc: "dth s k = DLog"
  shows "\<exists>s'. dstep B Q k s = Inr s' \<and> sys_inv B view M Q l0 lo hi n s'"
proof -
  note i = sys_parts[OF inv]
  obtain A where A: "aologger (prov s) = Some A" "both_logs (ehist s) (dhist s) A (machine (prov s)) (ecl s) (dcl s)"
    and T: "tells (ehist s) (\<lambda>k. if e_open (eth s k) \<and> dth s k \<noteq> DSkipped then Some (edesc M s k) else None) (\<lambda>k. \<not> begun (eth s k))"
      "tells (dhist s) (\<lambda>k. if d_open (dth s k) then Some (ddesc k) else None) (\<lambda>k. dth s k = DNone \<or> dth s k = DLog)"
    by (rule logs_parts[OF i(3)])
  have T': "tells (dhist s @ [Started k (ddesc k)]) (\<lambda>k'. if k' = k then Some (ddesc k) else if d_open (dth s k') then Some (ddesc k') else None)
      (\<lambda>k'. (dth s k' = DNone \<or> dth s k' = DLog) \<and> k' \<noteq> k)"
    by (rule tells_started[OF T(2)]) (simp_all add: pc)
  obtain x A' w' where r: "deq_log (snd k) (fst k) (prov s) = (Inr x, (prov s)\<lparr>aologger := Some A', machine := w'\<rparr>)"
    "both_logs (ehist s) (dhist s @ [Started k (ddesc k)]) A' w' (ecl s) (dcl s)"
    by (rule deq_log_runs[OF A tells_once[OF T']])
  let ?s = "s\<lparr>prov := (prov s)\<lparr>aologger := Some A', machine := w'\<rparr>, dhist := dhist s @ [Started k (ddesc k)], dth := (dth s)(k := DSched)\<rparr>"
  have run: "dstep B Q k s = Inr ?s" using r(1) pc by (simp add: dstep_def fire_def)
  have "logs_inv M ?s" by (rule logs_upd[of ?s A']) (use r(2) T(1) T' pc in \<open>auto simp: edesc_def d_open_def\<close>)
  moreover have "ids_inv Q l0 lo hi n ?s" by (rule ids_frame[OF i(1)]) auto
  moreover have "phase_ok (smart s) (eth s k) DSched" using threads_phase[OF i(2), of k] by (auto simp: pc phase_ok_def)
  then have "threads_inv B M ?s" by (intro threads_frame[OF i(2)]) (use threads_phase[OF i(2)] in auto)
  moreover have "tracker_inv l0 ?s" by (rule tracker_frame[OF i(4)]) (auto simp: pc)
  moreover have "journals_inv B view M Q ?s" by (rule journals_frame[OF i(5)]) (auto simp: pc removed_def)
  moreover have "pools_inv M Q ?s" by (rule pools_frame[OF i(6)]) (auto simp: pc)
  moreover have "waits_inv ?s" by (rule waits_frame[OF i(7)]) auto
  ultimately show ?thesis using run sys_invI by blast
qed

text \<open>A dequeue task enters the pool, from its caller or from a worker that gave up waiting.\<close>

lemma scheduled_again:
  assumes st: "setting B view M Q l0 lo hi" and inv: "sys_inv B view M Q l0 lo hi (Suc n) s" and pc: "dth s k = DSched \<or> dth s k = AWait"
  shows "\<exists>s'. fire (deq_sched B err (dtask Q k)) (\<lambda>_. goto_d k DPool) s = Inr s' \<and> sys_inv B view M Q l0 lo hi n s'"
proof -
  note i = sys_parts[OF inv]
  let ?s = "s\<lparr>prov := (prov s)\<lparr>dequeuePool := dequeuePool (prov s) @ [dtask Q k]\<rparr>, dth := (dth s)(k := DPool)\<rparr>"
  have "pool_accepts B" using st by (simp add: setting_def)
  then have run: "fire (deq_sched B err (dtask Q k)) (\<lambda>_. goto_d k DPool) s = Inr ?s"
    by (simp add: fire_def deq_sched_def schedule_dequeue_def comp_simps)
  obtain es ds where p: "enqueuePool (prov s) = map (etask M Q s) es" "distinct es" "set es = {k. eth s k = EPool}"
    "dequeuePool (prov s) = map (dtask Q) ds" "distinct ds" "set ds = {k. dth s k = DPool}" by (rule pools_parts[OF i(6)])
  have "pools_inv M Q ?s" using p pc by (intro pools_upd[where es = es and ds = "ds @ [k]" and s = s]) auto
  moreover have "logs_inv M ?s" by (rule logs_frame[OF i(3)]) (use pc in \<open>auto simp: d_open_def\<close>)
  moreover have "ids_inv Q l0 lo hi n ?s" by (rule ids_frame[OF i(1)]) auto
  moreover have "phase_ok (smart s) (eth s k) DPool" using threads_phase[OF i(2), of k] pc by (auto simp: phase_ok_def)
  then have "threads_inv B M ?s" by (intro threads_frame[OF i(2)]) (use threads_phase[OF i(2)] in auto)
  moreover have "tracker_inv l0 ?s" by (rule tracker_frame[OF i(4)]) (use pc in auto)
  moreover have "journals_inv B view M Q ?s" by (rule journals_frame[OF i(5)]) (use pc in \<open>auto simp: removed_def\<close>)
  moreover have "waits_inv ?s" by (rule waits_frame[OF i(7)]) auto
  ultimately show ?thesis using run sys_invI by blast
qed

lemma step_DSkip:
  assumes st: "setting B view M Q l0 lo hi" and inv: "sys_inv B view M Q l0 lo hi (Suc n) s" and pc: "dth s k = DSkip"
  shows "\<exists>s'. dstep B Q k s = Inr s' \<and> sys_inv B view M Q l0 lo hi n s'"
proof -
  note i = sys_parts[OF inv]
  obtain A where A: "aologger (prov s) = Some A" "both_logs (ehist s) (dhist s) A (machine (prov s)) (ecl s) (dcl s)"
    and T: "tells (ehist s) (\<lambda>k. if e_open (eth s k) \<and> dth s k \<noteq> DSkipped then Some (edesc M s k) else None) (\<lambda>k. \<not> begun (eth s k))"
      "tells (dhist s) (\<lambda>k. if d_open (dth s k) then Some (ddesc k) else None) (\<lambda>k. dth s k = DNone \<or> dth s k = DLog)"
    by (rule logs_parts[OF i(3)])
  have ph: "phase_ok (smart s) (eth s k) DSkip" using threads_phase[OF i(2), of k] pc by simp
  then have bg: "begun (eth s k)" by (auto simp: phase_ok_def)
  obtain x A' w' where r: "deq_skip (snd k) (fst k) (prov s) = (Inr x, (prov s)\<lparr>aologger := Some A', machine := w'\<rparr>)"
    "both_logs (ehist s @ [Completed k]) (dhist s) A' w' (ecl s) (dcl s)"
    unfolding deq_skip_def by (rule enq_complete_runs[OF A tells_once[OF T(1)], of "snd k" "fst k", unfolded prod.collapse])
  have T': "tells (ehist s @ [Completed k]) (\<lambda>k'. if k' = k then None else
        if e_open (eth s k') \<and> dth s k' \<noteq> DSkipped then Some (edesc M s k') else None) (\<lambda>k'. \<not> begun (eth s k') \<and> k' \<noteq> k)"
    by (rule tells_completed[OF T(1)]) simp_all
  let ?s = "s\<lparr>prov := (prov s)\<lparr>aologger := Some A', machine := w'\<rparr>, ehist := ehist s @ [Completed k], dth := (dth s)(k := DSkipped)\<rparr>"
  have run: "dstep B Q k s = Inr ?s" using r(1) pc by (simp add: dstep_def fire_def)
  have "logs_inv M ?s" by (rule logs_upd[of ?s A']) (use r(2) T(2) T' pc bg in \<open>auto simp: edesc_def d_open_def\<close>)
  moreover have "ids_inv Q l0 lo hi n ?s" by (rule ids_frame[OF i(1)]) auto
  moreover have "phase_ok (smart s) (eth s k) DSkipped" using ph by (auto simp: phase_ok_def)
  then have "threads_inv B M ?s" by (intro threads_frame[OF i(2)]) (use threads_phase[OF i(2)] in auto)
  moreover have "tracker_inv l0 ?s" by (rule tracker_frame[OF i(4)]) (auto simp: pc)
  moreover have "journals_inv B view M Q ?s" by (rule journals_frame[OF i(5)]) (auto simp: pc removed_def)
  moreover have "pools_inv M Q ?s" by (rule pools_frame[OF i(6)]) (auto simp: pc)
  moreover have "waits_inv ?s" by (rule waits_frame[OF i(7)]) auto
  ultimately show ?thesis using run sys_invI by blast
qed

text \<open>What a worker reads off the tracker: a duplicate entry that is gone, or a mark that has reached
  the id, means that the enqueue is complete.\<close>

lemma seen_done:
  assumes ids: "ids_inv Q l0 lo hi n s" and tr: "tracker_inv l0 s" and e: "eth s k \<noteq> ENone"
    and see: "if k \<in> again s then \<not> qm_mem (dupMap (tracker (prov s))) (fst k) (snd k) else snd k \<le> lastPid (mainRecord (tracker (prov s)))"
  shows "finished (eth s k)"
proof (cases "k \<in> again s")
  case True
  then have "\<not> busy (eth s k)" using see tr unfolding tracker_inv_def tracks_def by (metis (no_types, lifting))
  then show ?thesis using e by (simp add: busy_def)
next
  case False
  then have "snd k \<in> enqueued (mainRecord (tracker (prov s)))" using see by (simp add: enqueued_def)
  then have "snd k \<le> l0 \<or> snd k \<in> ids (\<lambda>k. k \<notin> again s \<and> finished (eth s k))" using tr by (simp add: tracker_inv_def tracks_def)
  then show ?thesis
  proof
    assume "snd k \<le> l0"
    then show ?thesis using ids False e unfolding ids_inv_def by blast
  next
    assume "snd k \<in> ids (\<lambda>k. k \<notin> again s \<and> finished (eth s k))"
    then obtain q where q: "(q, snd k) \<notin> again s" "finished (eth s (q, snd k))" by (auto simp: ids_def)
    then have "eth s (q, snd k) \<noteq> ENone" by auto
    have un: "(q, m) \<notin> again s \<Longrightarrow> (q', m) \<notin> again s \<Longrightarrow> l0 < m \<Longrightarrow> eth s (q, m) \<noteq> ENone \<Longrightarrow> eth s (q', m) \<noteq> ENone \<Longrightarrow> q = q'" for q q' m
      using ids unfolding ids_inv_def by blast
    show ?thesis
    proof (cases "snd k \<le> l0")
      case True
      then show ?thesis using ids False e unfolding ids_inv_def by blast
    next
      case above: False
      then have "q = fst k" using un[of q "snd k" "fst k"] q(1) False e \<open>eth s (q, snd k) \<noteq> ENone\<close> by simp
      then show ?thesis using q(2) by simp
    qed
  qed
qed

lemma not_stopped: "tracker_inv l0 s \<Longrightarrow> \<not> stopped (tracker (prov s))"
  by (simp add: tracker_inv_def tracks_def)

lemma step_DPool:
  assumes st: "setting B view M Q l0 lo hi" and inv: "sys_inv B view M Q l0 lo hi (Suc n) s" and pc: "dth s k = DPool"
  shows "\<exists>s'. dstep B Q k s = Inr s' \<and> sys_inv B view M Q l0 lo hi n s'"
proof -
  note i = sys_parts[OF inv]
  let ?s = "s\<lparr>prov := (prov s)\<lparr>dequeuePool := remove1 (dtask Q k) (dequeuePool (prov s))\<rparr>, waits := (waits s)(k := [tracker (prov s)]),
    dth := (dth s)(k := AWait)\<rparr>"
  obtain es ds where p: "enqueuePool (prov s) = map (etask M Q s) es" "distinct es" "set es = {k. eth s k = EPool}"
    "dequeuePool (prov s) = map (dtask Q) ds" "distinct ds" "set ds = {k. dth s k = DPool}" by (rule pools_parts[OF i(6)])
  have k: "k \<in> set ds" using p(6) pc by simp
  have en: "eth s x \<noteq> ENone" if "dth s x = DPool" for x using threads_phase[OF i(2), of x] that by (auto simp: phase_ok_def)
  have "inj_on (dtask Q) (insert k (set ds))"
    by (rule inj_on_subset[OF tasks_inj(2)[OF st i(1)]]) (use p(6) pc en in auto)
  then have "dequeuePool (prov ?s) = map (dtask Q) (remove1 k ds)" by (simp add: p(4) remove1_map)
  moreover have "set (remove1 k ds) = {x. dth ?s x = DPool}" using p(5,6) by auto
  ultimately have "pools_inv M Q ?s" using p by (intro pools_upd[where es = es and ds = "remove1 k ds" and s = s]) simp_all
  moreover have run: "dstep B Q k s = Inr ?s" using pc k by (simp add: dstep_def p(4))
  moreover have "waits_inv ?s"
    using i(7) seen_done[OF i(1,4) en[OF pc]] not_stopped[OF i(4)] unfolding waits_inv_def by auto
  moreover have "logs_inv M ?s" by (rule logs_frame[OF i(3)]) (auto simp: pc d_open_def)
  moreover have "ids_inv Q l0 lo hi n ?s" by (rule ids_frame[OF i(1)]) auto
  moreover have "phase_ok (smart s) (eth s k) AWait" using threads_phase[OF i(2), of k] pc by (auto simp: phase_ok_def)
  then have "threads_inv B M ?s" by (intro threads_frame[OF i(2)]) (use threads_phase[OF i(2)] in auto)
  moreover have "tracker_inv l0 ?s" by (rule tracker_frame[OF i(4)]) (use pc in auto)
  moreover have "journals_inv B view M Q ?s" by (rule journals_frame[OF i(5)]) (use pc in \<open>auto simp: removed_def\<close>)
  ultimately show ?thesis using sys_invI by blast
qed

lemma Observe_keeps:
  assumes st: "setting B view M Q l0 lo hi" and inv: "sys_inv B view M Q l0 lo hi (Suc n) s"
  shows "\<exists>s'. exec B M Q (Observe k) s = Inr s' \<and> sys_inv B view M Q l0 lo hi n s'"
proof (cases "dth s k = AWait")
  case False
  then show ?thesis using sys_inv_less[OF inv] by simp
next
  case pc: True
  note i = sys_parts[OF inv]
  let ?s = "s\<lparr>waits := (waits s)(k := waits s k @ [tracker (prov s)])\<rparr>"
  have en: "eth s k \<noteq> ENone" using threads_phase[OF i(2), of k] pc by (auto simp: phase_ok_def)
  have "waits_inv ?s"
    using i(7) seen_done[OF i(1,4) en] not_stopped[OF i(4)] unfolding waits_inv_def by auto
  moreover have "logs_inv M ?s" by (rule logs_frame[OF i(3)]) auto
  moreover have "ids_inv Q l0 lo hi n ?s" by (rule ids_frame[OF i(1)]) auto
  moreover have "threads_inv B M ?s" by (rule threads_frame[OF i(2)]) (use threads_phase[OF i(2)] in auto)
  moreover have "tracker_inv l0 ?s" by (rule tracker_frame[OF i(4)]) auto
  moreover have "journals_inv B view M Q ?s" by (rule journals_frame[OF i(5)]) auto
  moreover have "pools_inv M Q ?s" by (rule pools_frame[OF i(6)]) auto
  ultimately show ?thesis using pc sys_invI[of Q l0 lo hi n ?s] by simp
qed

lemma step_AWait:
  assumes st: "setting B view M Q l0 lo hi" and inv: "sys_inv B view M Q l0 lo hi (Suc n) s" and pc: "dth s k = AWait"
  shows "\<exists>s'. dstep B Q k s = Inr s' \<and> sys_inv B view M Q l0 lo hi n s'"
proof (cases "waitForPid (snd k) (fst k) (waits s k)")
  case Blocked
  then show ?thesis using sys_inv_less[OF inv] pc by (simp add: dstep_def)
next
  case (Returned r)
  note i = sys_parts[OF inv]
  have w: "\<not> stopped t \<and> ((if k \<in> again s then \<not> qm_mem (dupMap t) (fst k) (snd k) else snd k \<le> lastPid (mainRecord t)) \<longrightarrow> finished (eth s k))"
    if "t \<in> set (waits s k)" for t using i(7) pc that unfolding waits_inv_def by blast
  have "wait_answer 0 (waits s k) r" using wait_dup_code[of 0] Returned by (simp add: waitForPid_def)
  then have r: "0 \<le> r \<or> r = -1" using w by (auto simp: wait_answer_def)
  show ?thesis
  proof (cases "r = -1")
    case True
    then show ?thesis using scheduled_again[OF st inv disjI2[OF pc]] Returned pc by (simp add: dstep_def)
  next
    case False
    then have "0 \<le> r" using r by blast
    then have "finished (eth s k)"
      using wait_dup_success[of "snd k" "fst k" 0 "waits s k" r] Returned w unfolding waitForPid_def by (cases "k \<in> again s") auto
    then have e: "eth s k = EDone True"
      using threads_phase[OF i(2), of k] pc by (cases "eth s k") (auto simp: phase_ok_def)
    let ?s = "goto_d k ADel s"
    have run: "dstep B Q k s = Inr ?s" using Returned pc r False by (simp add: dstep_def)
    have "waits_inv ?s" by (rule waits_frame[OF i(7)]) auto
    moreover have "logs_inv M ?s" by (rule logs_frame[OF i(3)]) (auto simp: pc d_open_def)
    moreover have "ids_inv Q l0 lo hi n ?s" by (rule ids_frame[OF i(1)]) auto
    moreover have "threads_inv B M ?s" by (rule threads_frame[OF i(2)]) (use threads_phase[OF i(2)] e in \<open>auto simp: phase_ok_def\<close>)
    moreover have "tracker_inv l0 ?s" by (rule tracker_frame[OF i(4)]) (use pc in auto)
    moreover have "journals_inv B view M Q ?s" by (rule journals_frame[OF i(5)]) (use pc in \<open>auto simp: removed_def\<close>)
    moreover have "pools_inv M Q ?s" by (rule pools_frame[OF i(6)]) (auto simp: pc)
    ultimately show ?thesis using run sys_invI by blast
  qed
qed

lemma step_ADel:
  assumes st: "setting B view M Q l0 lo hi" and inv: "sys_inv B view M Q l0 lo hi (Suc n) s" and pc: "dth s k = ADel"
  shows "\<exists>s'. dstep B Q k s = Inr s' \<and> sys_inv B view M Q l0 lo hi n s'"
proof -
  note i = sys_parts[OF inv]
  obtain q m where k: "k = (q, m)" by (cases k) simp
  have e: "eth s k = EDone True" using threads_phase[OF i(2), of k] pc by (simp add: phase_ok_def)
  have q: "q \<in> dom Q" using ids_dom[OF i(1), of k] e k by simp
  obtain J where J: "deref (addr (the (Q q))) (prov s) = (Inr J, prov s)" "jinv view J" "queuePid J = q"
    "\<forall>m. jview view J m = (if wrote (eth s (q, m)) \<and> \<not> removed (dth s (q, m)) then Some (msg_image (framing B) M m) else None)"
    by (rule journal_at[OF i(5) q])
  have w: "key_window (insert m (dom (jview view J)))"
    by (rule journal_window[OF st i(1) J(4)]) (simp add: e flip: k)
  have laws: "bdb_laws bt_compare_func (msg_api B) view" using st by (simp add: setting_def)
  obtain J' where J': "dequeue_data (msg_api B) m J = Inr J'" "jinv view J'" "jview view J' = (jview view J)(m := None)" "queuePid J' = q"
    using journal_map[OF laws J(2) w] J(3) by auto
  let ?s = "s\<lparr>prov := (prov s)\<lparr>jheap := (jheap (prov s))[addr (the (Q q)) := Some J']\<rparr>, dth := (dth s)(k := ALog)\<rparr>"
  have run: "dstep B Q k s = Inr ?s"
    using pc J(1) J'(1) k by (simp add: dstep_def fire_def async_delete_def comp_simps update_at_def)
  have "journals_inv B view M Q ?s"
    by (rule journals_upd[OF st i(5) q _ J'(2,4)]) (use J'(3) J(4) in \<open>auto simp: k removed_def\<close>)
  moreover have "waits_inv ?s" by (rule waits_frame[OF i(7)]) auto
  moreover have "logs_inv M ?s" by (rule logs_frame[OF i(3)]) (auto simp: pc d_open_def)
  moreover have "ids_inv Q l0 lo hi n ?s" by (rule ids_frame[OF i(1)]) auto
  moreover have "threads_inv B M ?s" by (rule threads_frame[OF i(2)]) (use threads_phase[OF i(2)] e in \<open>auto simp: phase_ok_def\<close>)
  moreover have "tracker_inv l0 ?s" by (rule tracker_frame[OF i(4)]) (use pc in auto)
  moreover have "pools_inv M Q ?s" by (rule pools_frame[OF i(6)]) (auto simp: pc)
  ultimately show ?thesis using run sys_invI by blast
qed

lemma step_ALog:
  assumes st: "setting B view M Q l0 lo hi" and inv: "sys_inv B view M Q l0 lo hi (Suc n) s" and pc: "dth s k = ALog"
  shows "\<exists>s'. dstep B Q k s = Inr s' \<and> sys_inv B view M Q l0 lo hi n s'"
proof -
  note i = sys_parts[OF inv]
  obtain A where A: "aologger (prov s) = Some A" "both_logs (ehist s) (dhist s) A (machine (prov s)) (ecl s) (dcl s)"
    and T: "tells (ehist s) (\<lambda>k. if e_open (eth s k) \<and> dth s k \<noteq> DSkipped then Some (edesc M s k) else None) (\<lambda>k. \<not> begun (eth s k))"
      "tells (dhist s) (\<lambda>k. if d_open (dth s k) then Some (ddesc k) else None) (\<lambda>k. dth s k = DNone \<or> dth s k = DLog)"
    by (rule logs_parts[OF i(3)])
  obtain x A' w' where r: "async_log (snd k) (fst k) (prov s) = (Inr x, (prov s)\<lparr>aologger := Some A', machine := w'\<rparr>)"
    "both_logs (ehist s) (dhist s @ [Completed k]) A' w' (ecl s) (dcl s)"
    by (rule deq_complete_runs[OF A tells_once[OF T(2)], of "snd k" "fst k", unfolded prod.collapse])
  have T': "tells (dhist s @ [Completed k]) (\<lambda>k'. if k' = k then None else if d_open (dth s k') then Some (ddesc k') else None)
      (\<lambda>k'. (dth s k' = DNone \<or> dth s k' = DLog) \<and> k' \<noteq> k)"
    by (rule tells_completed[OF T(2)]) simp_all
  let ?s = "s\<lparr>prov := (prov s)\<lparr>aologger := Some A', machine := w'\<rparr>, dhist := dhist s @ [Completed k], dth := (dth s)(k := DDone)\<rparr>"
  have run: "dstep B Q k s = Inr ?s" using r(1) pc by (simp add: dstep_def fire_def)
  have e: "eth s k = EDone True" using threads_phase[OF i(2), of k] pc by (simp add: phase_ok_def)
  have "logs_inv M ?s" by (rule logs_upd[of ?s A']) (use r(2) T(1) T' pc in \<open>auto simp: edesc_def d_open_def\<close>)
  moreover have "ids_inv Q l0 lo hi n ?s" by (rule ids_frame[OF i(1)]) auto
  moreover have "threads_inv B M ?s" by (rule threads_frame[OF i(2)]) (use threads_phase[OF i(2)] e in \<open>auto simp: phase_ok_def\<close>)
  moreover have "tracker_inv l0 ?s" by (rule tracker_frame[OF i(4)]) (auto simp: pc)
  moreover have "journals_inv B view M Q ?s" by (rule journals_frame[OF i(5)]) (auto simp: pc removed_def)
  moreover have "pools_inv M Q ?s" by (rule pools_frame[OF i(6)]) (auto simp: pc)
  moreover have "waits_inv ?s" by (rule waits_frame[OF i(7)]) auto
  ultimately show ?thesis using run sys_invI by blast
qed

lemma DStep_keeps:
  assumes "setting B view M Q l0 lo hi" and "sys_inv B view M Q l0 lo hi (Suc n) s"
  shows "\<exists>s'. exec B M Q (DStep k) s = Inr s' \<and> sys_inv B view M Q l0 lo hi n s'"
proof (cases "dth s k")
  case DSched
  then show ?thesis using scheduled_again[OF assms disjI1[OF DSched]] by (simp add: dstep_def)
qed (use sys_inv_less[OF assms(2)] step_DLog[OF assms] step_DSkip[OF assms] step_DPool[OF assms] step_AWait[OF assms]
    step_ADel[OF assms] step_ALog[OF assms] in \<open>simp_all add: dstep_def\<close>)

section \<open>The cleaners\<close>

lemma logs_only:
  assumes inv: "sys_inv B view M Q l0 lo hi (Suc n) s" and logs: "logs_inv M s'"
    and s': "eth s' = eth s" "dth s' = dth s" "ebuf s' = ebuf s" "waits s' = waits s" "again s' = again s" "ehist s' = ehist s"
    and P': "prov s' = (prov s)\<lparr>aologger := A, machine := w\<rparr>"
  shows "sys_inv B view M Q l0 lo hi n s'"
proof -
  note i = sys_parts[OF inv]
  have "ids_inv Q l0 lo hi n s'" by (rule ids_frame[OF i(1)]) (auto simp: s' P')
  moreover have "threads_inv B M s'" by (rule threads_frame[OF i(2)]) (use threads_phase[OF i(2)] in \<open>auto simp: s' P'\<close>)
  moreover have "tracker_inv l0 s'" by (rule tracker_frame[OF i(4)]) (auto simp: s' P')
  moreover have "journals_inv B view M Q s'" by (rule journals_frame[OF i(5)]) (auto simp: s' P')
  moreover have "pools_inv M Q s'" by (rule pools_frame[OF i(6)]) (auto simp: s' P')
  moreover have "waits_inv s'" by (rule waits_frame[OF i(7)]) (auto simp: s' P')
  ultimately show ?thesis using logs sys_invI by blast
qed

lemma cleaner_history: "history [cleaner_event c] = []" "enq_event_ok (cleaner_event c)"
  by (cases c; simp)+

lemma CleanEnq_keeps:
  assumes inv: "sys_inv B view M Q l0 lo hi (Suc n) s"
  shows "\<exists>s'. exec B M Q CleanEnq s = Inr s' \<and> sys_inv B view M Q l0 lo hi n s'"
proof -
  note i = sys_parts[OF inv]
  obtain A where A: "aologger (prov s) = Some A" "both_logs (ehist s) (dhist s) A (machine (prov s)) (ecl s) (dcl s)"
    and T: "tells (ehist s) (\<lambda>k. if e_open (eth s k) \<and> dth s k \<noteq> DSkipped then Some (edesc M s k) else None) (\<lambda>k. \<not> begun (eth s k))"
      "tells (dhist s) (\<lambda>k. if d_open (dth s k) then Some (ddesc k) else None) (\<lambda>k. dth s k = DNone \<or> dth s k = DLog)"
    by (rule logs_parts[OF i(3)])
  have o: "started_once (ehist s @ history [cleaner_event (ecl s)])" using tells_once[OF T(1)] by (simp add: cleaner_history)
  obtain A' w' c where r: "enq_exec (cleaner_event (ecl s)) (A, machine (prov s), ecl s) = Inr (A', w', c)"
    "both_logs (ehist s @ history [cleaner_event (ecl s)]) (dhist s) A' w' c (dcl s)"
    by (rule both_logs_enq[OF A(2) cleaner_history(2) o])
  let ?s = "s\<lparr>prov := (prov s)\<lparr>aologger := Some A', machine := w'\<rparr>, ecl := c\<rparr>"
  have "logs_inv M ?s" by (rule logs_upd[of ?s A']) (use r(2) T in \<open>auto simp: edesc_def cleaner_history\<close>)
  then have "sys_inv B view M Q l0 lo hi n ?s" by (rule logs_only[OF inv]) simp_all
  moreover have "exec B M Q CleanEnq s = Inr ?s" using A(1) r(1) by simp
  ultimately show ?thesis by blast
qed

lemma CleanDeq_keeps:
  assumes inv: "sys_inv B view M Q l0 lo hi (Suc n) s"
  shows "\<exists>s'. exec B M Q CleanDeq s = Inr s' \<and> sys_inv B view M Q l0 lo hi n s'"
proof -
  note i = sys_parts[OF inv]
  obtain A where A: "aologger (prov s) = Some A" "both_logs (ehist s) (dhist s) A (machine (prov s)) (ecl s) (dcl s)"
    and T: "tells (ehist s) (\<lambda>k. if e_open (eth s k) \<and> dth s k \<noteq> DSkipped then Some (edesc M s k) else None) (\<lambda>k. \<not> begun (eth s k))"
      "tells (dhist s) (\<lambda>k. if d_open (dth s k) then Some (ddesc k) else None) (\<lambda>k. dth s k = DNone \<or> dth s k = DLog)"
    by (rule logs_parts[OF i(3)])
  have o: "started_once (dhist s @ history [cleaner_event (dcl s)])" using tells_once[OF T(2)] by (simp add: cleaner_history)
  obtain A' w' c where r: "deq_exec (cleaner_event (dcl s)) (A, machine (prov s), dcl s) = (A', w', c)"
    "both_logs (ehist s) (dhist s @ history [cleaner_event (dcl s)]) A' w' (ecl s) c"
    by (rule both_logs_deq[OF A(2) o])
  let ?s = "s\<lparr>prov := (prov s)\<lparr>aologger := Some A', machine := w'\<rparr>, dcl := c\<rparr>"
  have "logs_inv M ?s" by (rule logs_upd[of ?s A']) (use r(2) T in \<open>auto simp: edesc_def cleaner_history\<close>)
  then have "sys_inv B view M Q l0 lo hi n ?s" by (rule logs_only[OF inv]) simp_all
  moreover have "exec B M Q CleanDeq s = Inr ?s" using A(1) r(1) by simp
  ultimately show ?thesis by blast
qed

section \<open>Every schedule\<close>

lemma exec_keeps:
  assumes "setting B view M Q l0 lo hi" and "sys_inv B view M Q l0 lo hi (Suc n) s"
  shows "\<exists>s'. exec B M Q e s = Inr s' \<and> sys_inv B view M Q l0 lo hi n s'"
proof (cases e)
  case (Enqueue q)
  show ?thesis unfolding Enqueue by (rule Enqueue_keeps[OF assms])
next
  case (EnqueueAgain k q)
  show ?thesis unfolding EnqueueAgain by (rule EnqueueAgain_keeps[OF assms])
next
  case (Dequeue k)
  show ?thesis unfolding Dequeue by (rule Dequeue_keeps[OF assms])
next
  case (EStep k)
  show ?thesis unfolding EStep by (rule EStep_keeps[OF assms])
next
  case (DStep k)
  show ?thesis unfolding DStep by (rule DStep_keeps[OF assms])
next
  case (Observe k)
  show ?thesis unfolding Observe by (rule Observe_keeps[OF assms])
next
  case CleanEnq
  show ?thesis unfolding CleanEnq by (rule CleanEnq_keeps[OF assms(2)])
next
  case CleanDeq
  show ?thesis unfolding CleanDeq by (rule CleanDeq_keeps[OF assms(2)])
qed

lemma run_keeps:
  assumes "setting B view M Q l0 lo hi"
  shows "sys_inv B view M Q l0 lo hi (length es + n) s \<Longrightarrow> \<exists>s'. run B M Q es s = Inr s' \<and> sys_inv B view M Q l0 lo hi n s'"
proof (induction es arbitrary: s)
  case (Cons e es)
  then obtain s1 where "exec B M Q e s = Inr s1" "sys_inv B view M Q l0 lo hi (length es + n) s1"
    using exec_keeps[OF assms, of "length es + n" s e] by auto
  then show ?case using Cons.IH by simp
qed simp

end
