(* ===== verification/Durability.thy ===== *)
theory Durability
  imports ProtocolSteps
begin

text \<open>
  The promise of the store: whatever its threads were doing when the machine went down,
  the broker gets back the messages whose enqueue had returned and that nobody had begun to
  dequeue. The run is that of \<open>Protocol\<close>, the recovery that of \<open>PluginRecovery\<close>.
\<close>

section \<open>The start of a run\<close>

text \<open>A provider that is up: initialized, with a new logger on an empty directory, empty pools and a tracker
  and a sequence that continue after the last id \<open>l0\<close>; the databases hold the messages \<open>St\<close> of
  earlier runs. The run may give out \<open>n\<close> ids.\<close>

definition ready ::
    "('db, 'mdb) bdb \<Rightarrow> ('db \<Rightarrow> u64 \<Rightarrow> bytes option) \<Rightarrow> (u64 \<Rightarrow> message_info) \<Rightarrow> (u64 \<rightharpoonup> pqueue) \<Rightarrow> key set \<Rightarrow> u64 \<Rightarrow> nat \<Rightarrow> nat \<Rightarrow> nat \<Rightarrow>
     ('db, 'mdb) provider \<Rightarrow> bool" where
  "ready B view M Q St l0 lo hi n P \<longleftrightarrow> isInit P \<and> enqueuePool P = [] \<and> dequeuePool P = [] \<and>
     tracker P = PidTracker_reset l0 PidTracker_new \<and> messageIdSequence P = l0 + 1 \<and> lo \<le> unat l0 + 1 \<and> unat l0 + 1 + n \<le> hi \<and>
     (\<exists>A base w. calm w \<and> fresh_dir base w \<and> AsyncOperationLogger base w = Inr (A, machine P) \<and> aologger P = Some A) \<and>
     (\<forall>k \<in> St. fst k \<in> dom Q \<and> lo \<le> unat (snd k) \<and> snd k \<le> l0) \<and>
     (\<forall>q \<in> dom Q. \<exists>J. deref (addr (the (Q q))) P = (Inr J, P) \<and> jinv view J \<and> queuePid J = q \<and>
        (\<forall>m. jview view J m = (if (q, m) \<in> St then Some (msg_image (framing B) M m) else None)))"

definition start_system :: "('db, 'mdb) provider \<Rightarrow> key set \<Rightarrow> ('db, 'mdb) system" where
  "start_system P St = \<lparr>prov = P, ecl = CIdle, dcl = CIdle, eth = \<lambda>k. if k \<in> St then EDone True else ENone, dth = \<lambda>_. DNone,
     ebuf = \<lambda>_. ([], 0), waits = \<lambda>_. [], again = {}, ehist = [], dhist = []\<rparr>"

lemma ready_inv:
  assumes st: "setting B view M Q l0 lo hi" and rd: "ready B view M Q St l0 lo hi n P"
  shows "sys_inv B view M Q l0 lo hi n (start_system P St)"
proof -
  let ?s = "start_system P St"
  have f: "eth ?s = (\<lambda>k. if k \<in> St then EDone True else ENone)" "dth ?s = (\<lambda>_. DNone)" "prov ?s = P" "again ?s = {}" "ehist ?s = []" "dhist ?s = []"
    "ecl ?s = CIdle" "dcl ?s = CIdle" by (simp_all add: start_system_def)
  have r: "isInit P" "enqueuePool P = []" "dequeuePool P = []" "tracker P = PidTracker_reset l0 PidTracker_new" "messageIdSequence P = l0 + 1"
    "lo \<le> unat l0 + 1" "unat l0 + 1 + n \<le> hi" "\<forall>k \<in> St. fst k \<in> dom Q \<and> lo \<le> unat (snd k) \<and> snd k \<le> l0"
    using rd unfolding ready_def by blast+
  have "hi < 2 ^ 64" using st unfolding setting_def by blast
  then have u: "unat (l0 + 1) = unat l0 + 1" using r(7) by (simp add: unat_word_ariths)
  have lt: "l0 < l0 + 1" "x \<le> l0 \<Longrightarrow> x < l0 + 1" for x by (simp_all add: word_less_nat_alt word_le_nat_alt u)
  have "ids_inv Q l0 lo hi n ?s" using r lt u by (auto simp: ids_inv_def f)
  moreover have "threads_inv B M ?s" by (simp add: threads_inv_def f phase_ok_def)
  moreover have "logs_inv M ?s"
  proof -
    obtain A base w where A: "calm w" "fresh_dir base w" "AsyncOperationLogger base w = Inr (A, machine P)" "aologger P = Some A"
      using rd unfolding ready_def by blast
    obtain A' w' where A': "AsyncOperationLogger base w = Inr (A', w')" "logBaseDir A' = base" "enqueueFileIndex A' = 0" "dequeueFileIndex A' = 0"
      "enq_abs A' w' ([], [])" "deq_abs A' w' ([], [])" by (rule new_logger_abs[OF A(1,2)])
    then have "both_logs [] [] A (machine P) CIdle CIdle"
      using A(3) unfolding both_logs_def by (intro conjI exI[of _ "([], [])"]) (auto simp: starts_from_def rl_inv_start)
    then show ?thesis using A(4) by (simp add: logs_inv_def f tells_def started_once_def pending_at_def d_open_def)
  qed
  moreover have "tracker_inv l0 ?s"
  proof -
    have "ids (\<lambda>k. k \<notin> again ?s \<and> finished (eth ?s k)) \<subseteq> {p. p \<le> l0}" using r(8) by (auto simp: ids_def f split: if_splits)
    then have "{p. p \<le> l0} = {p. p \<le> l0} \<union> ids (\<lambda>k. k \<notin> again ?s \<and> finished (eth ?s k))" by blast
    then show ?thesis
      by (simp add: tracker_inv_def tracks_def f r(4) PidTracker_reset_def PidTracker_new_def PidRecord_def record_ok_def enqueued_def
          qm_mem_def undecided_def)
  qed
  moreover have "journals_inv B view M Q ?s"
  proof -
    have "wrote (eth ?s k) \<and> \<not> removed (dth ?s k) \<longleftrightarrow> k \<in> St" for k by (simp add: f removed_def)
    then show ?thesis using rd unfolding ready_def journals_inv_def f(3) by (simp only:) (elim conjE)
  qed
  moreover have "pools_inv M Q ?s" using r(2,3) by (simp add: pools_inv_def f)
  moreover have "waits_inv ?s" by (simp add: waits_inv_def f)
  ultimately show ?thesis by (rule sys_invI)
qed

section \<open>Any schedule\<close>

text \<open>C2. Whatever the schedule of callers, workers and cleaners, no piece of code ends with an exception.
  A message is deleted from the database of its queue only after its enqueue is complete, a
  message whose dequeue came before the worker's check is never written, and at every
  moment each database holds exactly the messages written and not yet deleted.\<close>

theorem every_schedule_returns:
  assumes st: "setting B view M Q l0 lo hi" and rd: "ready B view M Q St l0 lo hi (length es) P"
  shows "\<exists>s. run B M Q es (start_system P St) = Inr s \<and>
    (\<forall>k. dth s k \<in> {ADel, ALog, DDone} \<longrightarrow> eth s k = EDone True) \<and>
    (\<forall>k. dth s k \<in> {DSkip, DSkipped} \<longrightarrow> \<not> wrote (eth s k) \<and> eth s k \<noteq> SWrite) \<and>
    (\<forall>q \<in> dom Q. \<exists>J. deref (addr (the (Q q))) (prov s) = (Inr J, prov s) \<and>
       (\<forall>m. jview view J m = (if wrote (eth s (q, m)) \<and> \<not> removed (dth s (q, m)) then Some (msg_image (framing B) M m) else None)))"
proof -
  have "sys_inv B view M Q l0 lo hi (length es + 0) (start_system P St)" using ready_inv[OF st rd] by simp
  then obtain s where s: "run B M Q es (start_system P St) = Inr s" "sys_inv B view M Q l0 lo hi 0 s" using run_keeps[OF st] by blast
  note i = sys_parts[OF s(2)]
  have "dth s k \<in> {ADel, ALog, DDone} \<longrightarrow> eth s k = EDone True" "dth s k \<in> {DSkip, DSkipped} \<longrightarrow> \<not> wrote (eth s k) \<and> eth s k \<noteq> SWrite" for k
    using threads_phase[OF i(2), of k] by (auto simp: phase_ok_def)
  with s(1) i(5) show ?thesis unfolding journals_inv_def by blast
qed

section \<open>The restart\<close>

text \<open>The provider \<open>P0\<close> of the next process: its logger is constructed on what the crash left of the files
  of \<open>P\<close>, with the beginnings \<open>te\<close> and \<open>td\<close> of a record at the end of the active ones.\<close>

definition restarted :: "bytes \<Rightarrow> bytes \<Rightarrow> ('db, 'mdb) provider \<Rightarrow> ('db, 'mdb) provider \<Rightarrow> bool" where
  "restarted te td P P0 \<longleftrightarrow> cut_record enq_bytes (enq_valid (\<lambda>_. True)) te \<and> cut_record deq_bytes deq_valid td \<and>
     (\<exists>A A'. aologger P = Some A \<and> AsyncOperationLogger (logBaseDir A) (crashed te td A (machine P)) = Inr (A', machine P0) \<and> aologger P0 = Some A')"

text \<open>Its catalogue has the queues, and opening the databases of a queue finds the messages
  they held, which is what Berkeley DB promises of committed transactions.\<close>

definition reopened ::
    "('db, 'mdb) bdb \<Rightarrow> ('db \<Rightarrow> u64 \<Rightarrow> bytes option) \<Rightarrow> ('mdb \<Rightarrow> (u64 \<times> bytes) set) \<Rightarrow> recovery_manager \<Rightarrow> (u64 \<Rightarrow> message_info) \<Rightarrow>
     (u64 \<rightharpoonup> pqueue) \<Rightarrow> (u64 \<Rightarrow> 'db journal) \<Rightarrow> ('db, 'mdb) provider \<Rightarrow> ('db, 'mdb) provider \<Rightarrow> bool" where
  "reopened B view mv R M Q js P P0 \<longleftrightarrow> ((\<exists>cmp. bdb_laws cmp (cat_api B) view) \<and> mdb_laws (multi_api B) mv \<and> readable (framing B) R M) \<and>
     (generalDb P0 \<noteq> None \<and> exchangeDb P0 \<noteq> None) \<and>
     (\<exists>db. queueDb P0 = Some db \<and> dom (view db) = dom Q \<and> (\<forall>q v. view db q = Some v \<longrightarrow>
        c_str (rm_queue R v) \<noteq> [] \<and> init_message_db (msg_api B) (unopened P0 R (q, v)) = Inr (js q))) \<and>
     (\<exists>db. bindingDb P0 = Some db \<and> (\<forall>(k, v) \<in> mv db. 8 \<le> length v)) \<and>
     (journalList P0 = [] \<and> recoveredJournal P0 = [] \<and> enqueuePool P0 = [] \<and> \<not> enableAcceptRecoveryFlag (options P0) \<and>
      0 \<le> prov_num_jfiles P0 \<and> dom Q \<noteq> {}) \<and>
     (\<forall>q \<in> dom Q. jinv view (js q) \<and> (\<forall>J. deref (addr (the (Q q))) P = (Inr J, P) \<longrightarrow> jview view (js q) = jview view J))"

lemma card_window: "card {m :: u64. lo \<le> unat m \<and> unat m < hi} \<le> hi - lo"
proof -
  have "card {m :: u64. lo \<le> unat m \<and> unat m < hi} = card (unat ` {m :: u64. lo \<le> unat m \<and> unat m < hi})"
    by (rule card_image[symmetric]) (simp add: inj_on_def word_unat_eq_iff)
  also have "\<dots> \<le> card {lo..<hi}" by (rule card_mono) auto
  finally show ?thesis by simp
qed

lemma pset_list_bound:
  assumes "pset_ok m" and "keyed m" and "\<And>q p v. pset_find m q p = Some v \<Longrightarrow> q \<in> D \<and> lo \<le> unat p \<and> unat p < hi"
  shows "length (pset_list m) \<le> card (D :: u64 set) * (hi - lo)"
proof -
  let ?W = "{p :: u64. lo \<le> unat p \<and> unat p < hi}"
  have "set (map opkey (pset_list m)) \<subseteq> D \<times> ?W"
  proof
    fix x assume "x \<in> set (map opkey (pset_list m))"
    then obtain v where v: "v \<in> set (pset_list m)" "x = opkey v" by auto
    then obtain q p where f: "pset_find m q p = Some v" using set_pset_list[OF assms(1)] by blast
    then have "opkey v = (q, p)" using assms(2) by (simp add: keyed_def)
    then show "x \<in> D \<times> ?W" using assms(3)[OF f] v(2) by simp
  qed
  then have "card (set (map opkey (pset_list m))) \<le> card (D \<times> ?W)" by (rule card_mono[rotated]) simp
  also have "\<dots> \<le> card D * (hi - lo)" using card_window[of lo hi] by (simp add: card_cartesian_product)
  finally show ?thesis using distinct_card[OF distinct_opkeys[OF assms(1,2)]] by simp
qed

text \<open>A cleaner that holds no completions in memory.\<close>

definition settled :: "cleaner \<Rightarrow> bool" where
  "settled c \<longleftrightarrow> c = CIdle \<or> (\<exists>j. c = CSwitched j)"

text \<open>What the next process finds of the run: the pending operations of the two logs and the messages of
  the databases.\<close>

definition found ::
    "('db \<Rightarrow> u64 \<Rightarrow> bytes option) \<Rightarrow> (u64 \<Rightarrow> 'db journal) \<Rightarrow> PendingDequeueSet \<Rightarrow> PendingEnqueueSet \<Rightarrow> ('db, 'mdb) system \<Rightarrow> key \<Rightarrow> bool" where
  "found view js ad ae s k \<longleftrightarrow>
     (e_open (eth s k) \<and> dth s k \<noteq> DSkipped \<longrightarrow> pset_find ae (fst k) (snd k) \<noteq> None) \<and>
     (d_open (dth s k) \<longrightarrow> pset_find ad (fst k) (snd k) \<noteq> None) \<and>
     (pset_find ae (fst k) (snd k) \<noteq> None \<longrightarrow> begun (eth s k)) \<and>
     (settled (ecl s) \<longrightarrow> pset_find ae (fst k) (snd k) \<noteq> None \<longrightarrow> e_open (eth s k) \<and> dth s k \<noteq> DSkipped) \<and>
     (pset_find ad (fst k) (snd k) \<noteq> None \<longrightarrow> dth s k \<noteq> DNone \<and> dth s k \<noteq> DLog) \<and>
     (jview view (js (fst k)) (snd k) \<noteq> None \<longleftrightarrow> wrote (eth s k) \<and> \<not> removed (dth s k))"

lemma logs_found:
  assumes st: "setting B view M Q l0 lo hi" and inv: "sys_inv B view M Q l0 lo hi n s" and re: "restarted te td (prov s) P0"
  obtains A r1 ad Aw1 r2 ae Aw2 where "aologger P0 = Some A" "recoverAsyncDequeue [] (A, machine P0) = (r1, ad, Aw1)"
    "recoverAsyncEnqueue [] Aw1 = Inr (r2, ae, Aw2)" "pset_ok ae" "keyed ae"
    "\<forall>k. e_open (eth s k) \<and> dth s k \<noteq> DSkipped \<longrightarrow> pset_find ae (fst k) (snd k) \<noteq> None"
    "\<forall>k. d_open (dth s k) \<longrightarrow> pset_find ad (fst k) (snd k) \<noteq> None"
    "\<forall>k. settled (ecl s) \<longrightarrow> pset_find ae (fst k) (snd k) \<noteq> None \<longrightarrow> e_open (eth s k) \<and> dth s k \<noteq> DSkipped"
    "\<forall>k v. pset_find ae (fst k) (snd k) = Some v \<longrightarrow> begun (eth s k) \<and> v = idesc B M k"
    "\<forall>k. pset_find ad (fst k) (snd k) \<noteq> None \<longrightarrow> dth s k \<noteq> DNone \<and> dth s k \<noteq> DLog"
proof -
  note i = sys_parts[OF inv]
  obtain A where A: "aologger (prov s) = Some A" "both_logs (ehist s) (dhist s) A (machine (prov s)) (ecl s) (dcl s)"
    and T: "tells (ehist s) (\<lambda>k. if e_open (eth s k) \<and> dth s k \<noteq> DSkipped then Some (edesc M s k) else None) (\<lambda>k. \<not> begun (eth s k))"
      "tells (dhist s) (\<lambda>k. if d_open (dth s k) then Some (ddesc k) else None) (\<lambda>k. dth s k = DNone \<or> dth s k = DLog)"
    by (rule logs_parts[OF i(3)])
  have cut: "cut_record enq_bytes (enq_valid (\<lambda>_. True)) te" "cut_record deq_bytes deq_valid td" using re unfolding restarted_def by blast+
  obtain A' w' r1 ad Aw1 r2 ae Aw2 where r:
    "AsyncOperationLogger (logBaseDir A) (crashed te td A (machine (prov s))) = Inr (A', w')"
    "recoverAsyncDequeue [] (A', w') = (r1, ad, Aw1)" "recoverAsyncEnqueue [] Aw1 = Inr (r2, ae, Aw2)" "pset_ok ad" "pset_ok ae" "keyed ae"
    and f: "\<forall>q p v. pending_at (ehist s) (q, p) v \<longrightarrow> pset_find ae q p = Some v" "\<forall>q p v. pending_at (dhist s) (q, p) v \<longrightarrow> pset_find ad q p = Some v"
      "\<forall>q p v. ecl s = CIdle \<or> (\<exists>j. ecl s = CSwitched j) \<longrightarrow> pset_find ae q p = Some v \<longrightarrow> pending_at (ehist s) (q, p) v"
      "\<forall>q p v. dcl s = CIdle \<or> (\<exists>j. dcl s = CSwitched j) \<longrightarrow> pset_find ad q p = Some v \<longrightarrow> pending_at (dhist s) (q, p) v"
      "\<forall>q p v. pset_find ae q p = Some v \<longrightarrow> Started (q, p) v \<in> set (ehist s)" "\<forall>q p v. pset_find ad q p = Some v \<longrightarrow> Started (q, p) v \<in> set (dhist s)"
    by (rule both_logs_restart[OF A(2) tells_once[OF T(1)] tells_once[OF T(2)] cut])
  have P0: "aologger P0 = Some A'" "machine P0 = w'" using re A(1) r(1) by (auto simp: restarted_def)
  have fresh: "tells H p g \<Longrightarrow> Started k v \<in> set H \<Longrightarrow> \<not> g k" for H :: "(key, 'v) oprec list" and p g k v
    using starts_iff[of v k H] by (auto simp: tells_def)
  note f = f[rule_format]
  show thesis
  proof (rule that[OF P0(1) r(2)[folded P0(2)] r(3,5,6)]; intro allI impI)
    fix k
    show "pset_find ae (fst k) (snd k) \<noteq> None" if "e_open (eth s k) \<and> dth s k \<noteq> DSkipped"
      using f(1)[of "fst k" "snd k" "edesc M s k"] T(1) that by (simp add: tells_def)
    show "pset_find ad (fst k) (snd k) \<noteq> None" if "d_open (dth s k)"
      using f(2)[of "fst k" "snd k" "ddesc k"] T(2) that by (simp add: tells_def)
    show "e_open (eth s k) \<and> dth s k \<noteq> DSkipped" if c: "settled (ecl s)" "pset_find ae (fst k) (snd k) \<noteq> None"
    proof -
      obtain v where "pset_find ae (fst k) (snd k) = Some v" using c(2) by blast
      then have "pending_at (ehist s) k v" using f(3)[of "fst k" "snd k" v] c(1) by (simp add: settled_def)
      then show ?thesis using T(1) by (auto simp: tells_def split: if_splits)
    qed
    show "begun (eth s k) \<and> v = idesc B M k" if "pset_find ae (fst k) (snd k) = Some v" for v
      using fresh[OF T(1), of k v] f(5)[OF that] i(2) by (simp add: threads_inv_def)
    show "dth s k \<noteq> DNone \<and> dth s k \<noteq> DLog" if "pset_find ad (fst k) (snd k) \<noteq> None"
      using that fresh[OF T(2), of k] f(6)[of "fst k" "snd k"] by auto
  qed
qed

text \<open>Everything the next process finds belongs to a message that was enqueued, so its id is in the window.\<close>

lemma ids_bounds:
  assumes "ids_inv Q l0 lo hi n s" and "eth s k \<noteq> ENone"
  shows "fst k \<in> dom Q \<and> lo \<le> unat (snd k) \<and> unat (snd k) < hi"
proof -
  have "unat (messageIdSequence (prov s)) + n \<le> hi" using assms(1) unfolding ids_inv_def by blast
  then show ?thesis using ids_range[OF assms] ids_dom[OF assms] by (simp add: word_less_nat_alt)
qed

lemma journals_found:
  assumes "sys_inv B view M Q l0 lo hi n s" and "reopened B view mv R M Q js (prov s) P0" and q: "q \<in> dom Q"
  shows "jinv view (js q)"
    and "jview view (js q) m = (if wrote (eth s (q, m)) \<and> \<not> removed (dth s (q, m)) then Some (msg_image (framing B) M m) else None)"
proof -
  obtain J where J: "deref (addr (the (Q q))) (prov s) = (Inr J, prov s)" "jinv view J" "queuePid J = q"
    "\<forall>m. jview view J m = (if wrote (eth s (q, m)) \<and> \<not> removed (dth s (q, m)) then Some (msg_image (framing B) M m) else None)"
    by (rule journal_at[OF sys_parts(5)[OF assms(1)] q])
  have "jinv view (js q) \<and> jview view (js q) = jview view J" using assms(2) q J(1) unfolding reopened_def by blast
  then show "jinv view (js q)" "jview view (js q) m = (if wrote (eth s (q, m)) \<and> \<not> removed (dth s (q, m)) then Some (msg_image (framing B) M m) else None)"
    using J(4) by simp_all
qed

lemma found_bounds:
  assumes st: "setting B view M Q l0 lo hi" and ids: "ids_inv Q l0 lo hi n s" and bound: "17 * ((card (dom Q) + 1) * (hi - lo)) < 2 ^ 31"
    and ae: "pset_ok ae" "keyed ae" "\<forall>k. pset_find ae (fst k) (snd k) \<noteq> None \<longrightarrow> eth s k \<noteq> ENone" and J: "\<forall>m \<in> dom (jview view J). eth s (q, m) \<noteq> ENone"
  shows "key_window (dom (jview view J) \<union> {m. pset_find ae q m \<noteq> None})" "17 * (card (dom (jview view J)) + length (pset_list ae)) < 2 ^ 31"
proof -
  have e: "eth s (q, m) \<noteq> ENone" if "pset_find ae q m \<noteq> None" for q m using ae(3) that by (metis fst_conv snd_conv)
  show "key_window (dom (jview view J) \<union> {m. pset_find ae q m \<noteq> None})"
    using J e by (intro ids_window[OF st ids, where q = q]) blast
  have "dom (jview view J) \<subseteq> {m. lo \<le> unat m \<and> unat m < hi}" using J ids_bounds[OF ids] by force
  from card_mono[OF _ this] have "card (dom (jview view J)) \<le> hi - lo" using card_window[of lo hi] by simp
  moreover have "length (pset_list ae) \<le> card (dom Q) * (hi - lo)"
    by (rule pset_list_bound[OF ae(1,2)]) (use ids_bounds[OF ids e] in force)
  ultimately have "17 * (card (dom (jview view J)) + length (pset_list ae)) \<le> 17 * ((card (dom Q) + 1) * (hi - lo))"
    by (simp add: algebra_simps)
  then show "17 * (card (dom (jview view J)) + length (pset_list ae)) < 2 ^ 31" using bound by linarith
qed

lemma run_recovered:
  assumes st: "setting B view M Q l0 lo hi" and inv: "sys_inv B view M Q l0 lo hi n s" and bound: "17 * ((card (dom Q) + 1) * (hi - lo)) < 2 ^ 31"
    and re: "restarted te td (prov s) P0" and ro: "reopened B view mv R M Q js (prov s) P0"
  obtains qs ad ae where "cold_state B view mv R M qs js ad ae P0" "dom qs = dom Q" "\<forall>k. fst k \<in> dom Q \<longrightarrow> found view js ad ae s k"
proof -
  note i = sys_parts[OF inv] and js = journals_found[OF inv ro]
  obtain A r1 ad Aw1 r2 ae Aw2 where l: "aologger P0 = Some A" "recoverAsyncDequeue [] (A, machine P0) = (r1, ad, Aw1)"
    "recoverAsyncEnqueue [] Aw1 = Inr (r2, ae, Aw2)" "pset_ok ae" "keyed ae"
    "\<forall>k. e_open (eth s k) \<and> dth s k \<noteq> DSkipped \<longrightarrow> pset_find ae (fst k) (snd k) \<noteq> None"
    "\<forall>k. d_open (dth s k) \<longrightarrow> pset_find ad (fst k) (snd k) \<noteq> None"
    "\<forall>k. settled (ecl s) \<longrightarrow> pset_find ae (fst k) (snd k) \<noteq> None \<longrightarrow> e_open (eth s k) \<and> dth s k \<noteq> DSkipped"
    "\<forall>k v. pset_find ae (fst k) (snd k) = Some v \<longrightarrow> begun (eth s k) \<and> v = idesc B M k"
    "\<forall>k. pset_find ad (fst k) (snd k) \<noteq> None \<longrightarrow> dth s k \<noteq> DNone \<and> dth s k \<noteq> DLog"
    by (rule logs_found[OF st inv re])
  obtain db where db: "queueDb P0 = Some db" "dom (view db) = dom Q" "\<forall>q v. view db q = Some v \<longrightarrow>
        c_str (rm_queue R v) \<noteq> [] \<and> init_message_db (msg_api B) (unopened P0 R (q, v)) = Inr (js q)"
    using ro unfolding reopened_def by blast
  have "enq_transient v = mi_transient (M m) \<and> unat (enq_size v) \<le> length (enq_buff v) \<and> take (unat (enq_size v)) (enq_buff v) = msg_image (framing B) M m"
    if "pset_find ae q m = Some v" for q m v
    using l(9)[rule_format, of "(q, m)" v] that image_size[OF st, of m, symmetric] by (simp add: idesc_def)
  then have po: "pending_ok (framing B) M ae" using l(4,5) unfolding pending_ok_def by blast
  have en: "\<forall>k. pset_find ae (fst k) (snd k) \<noteq> None \<longrightarrow> eth s k \<noteq> ENone" using l(9) by auto
  have ne: "view db \<noteq> Map.empty" using db(2) ro unfolding reopened_def by (metis dom_empty)
  have b: "pool_accepts B" "bdb_laws bt_compare_func (msg_api B) view" using st unfolding setting_def by blast+
  have q: "c_str (rm_queue R v) \<noteq> [] \<and> init_message_db (msg_api B) (unopened P0 R (k, v)) = Inr (js k) \<and>
        jinv view (js k) \<and> key_window (dom (jview view (js k)) \<union> {m. pset_find ae k m \<noteq> None}) \<and>
        (\<forall>m d. jview view (js k) m = Some d \<longrightarrow> d = msg_image (framing B) M m) \<and>
        17 * (card (dom (jview view (js k))) + length (pset_list ae)) < 2 ^ 31" if "view db k = Some v" for k v
  proof -
    have q: "k \<in> dom Q" using that db(2) by blast
    have "\<forall>m \<in> dom (jview view (js k)). eth s (k, m) \<noteq> ENone" using js(2)[OF q] by (auto split: if_splits)
    from found_bounds[OF st i(1) bound l(4,5) en this] show ?thesis using db(3) that js[OF q] by (auto split: if_splits)
  qed
  have lg: "\<exists>A r1 Aw1 r2 Aw2. aologger P0 = Some A \<and> recoverAsyncDequeue [] (A, machine P0) = (r1, ad, Aw1) \<and> recoverAsyncEnqueue [] Aw1 = Inr (r2, ae, Aw2)"
    using l(1-3) by blast
  have qd: "\<exists>d. queueDb P0 = Some d \<and> view d = view db" using db(1) by blast
  have r: "\<exists>cmp. bdb_laws cmp (cat_api B) view" "mdb_laws (multi_api B) mv" "readable (framing B) R M" "generalDb P0 \<noteq> None" "exchangeDb P0 \<noteq> None"
    "\<exists>db. bindingDb P0 = Some db \<and> (\<forall>(k, v) \<in> mv db. 8 \<le> length v)" "journalList P0 = []" "recoveredJournal P0 = []" "enqueuePool P0 = []"
    "\<not> enableAcceptRecoveryFlag (options P0)" "0 \<le> prov_num_jfiles P0"
    using ro unfolding reopened_def by blast+
  have c: "cold_state B view mv R M (view db) js ad ae P0"
    unfolding cold_state_def by (intro conjI) ((fact b lg po ne qd r) | (intro allI impI, rule q, assumption))+
  have "\<forall>k. fst k \<in> dom Q \<longrightarrow> found view js ad ae s k"
  proof (intro allI impI)
    fix k :: key assume k: "fst k \<in> dom Q"
    have "jview view (js (fst k)) (snd k) \<noteq> None \<longleftrightarrow> wrote (eth s k) \<and> \<not> removed (dth s k)" using js(2)[OF k, of "snd k"] by simp
    moreover have "pset_find ae (fst k) (snd k) \<noteq> None \<longrightarrow> begun (eth s k)" using l(9) by auto
    ultimately show "found view js ad ae s k"
      unfolding found_def using spec[OF l(6), of k] spec[OF l(7), of k] spec[OF l(8), of k] spec[OF l(10), of k] by (intro conjI)
  qed
  from that[OF c db(2) this] show thesis .
qed

section \<open>No message is lost\<close>

text \<open>The recovery of the plugin \<open>S'\<close> has put the message \<open>m\<close> back on the queue \<open>q\<close>.\<close>

definition delivered :: "(u64 \<Rightarrow> message_info) \<Rightarrow> 's store_plugin \<Rightarrow> u64 \<Rightarrow> u64 \<Rightarrow> bool" where
  "delivered M S' q m \<longleftrightarrow> (\<exists>queue. QueueRecover queue (restored M m) \<in> set (calls S') \<and> persistenceId queue = q)"

lemma delivered_iff:
  assumes n: "\<forall>k q. f k = Some q \<longrightarrow> persistenceId q = k"
    and c: "set (calls S') = {QueueRecover q (restored M m) | q m. q \<in> ran f \<and> on (persistenceId q) m}"
  shows "delivered M S' q m \<longleftrightarrow> q \<in> dom f \<and> on q m"
proof
  assume "delivered M S' q m"
  then obtain queue where "QueueRecover queue (restored M m) \<in> set (calls S')" and q: "persistenceId queue = q" unfolding delivered_def by blast
  then obtain m' where m': "queue \<in> ran f" "restored M m = restored M m'" "on q m'" unfolding c by blast
  then obtain k where "f k = Some queue" unfolding ran_def by blast
  moreover have "m' = m" using m'(2) by (simp add: restored_def)
  ultimately show "q \<in> dom f \<and> on q m" using n m'(3) q by blast
next
  assume a: "q \<in> dom f \<and> on q m"
  then obtain queue where "f q = Some queue" by blast
  moreover have "persistenceId queue = q" using n calculation by blast
  ultimately show "delivered M S' q m" unfolding delivered_def c using a by (intro exI[of _ queue]) (auto intro: ranI)
qed

text \<open>The call of \<^verbatim>\<open>dequeue\<close> has returned.\<close>

definition d_returned :: "dpc \<Rightarrow> bool" where
  "d_returned d \<longleftrightarrow> d \<in> {DSkipped, DPool, AWait, ADel, ALog, DDone}"

lemma back_cases:
  assumes f: "found view js ad ae s k" and ph: "phase_ok sm (eth s k) (dth s k)"
  shows "returned (eth s k) \<Longrightarrow> dth s k = DNone \<Longrightarrow> \<not> mi_transient (M (snd k)) \<Longrightarrow> back_on M view js ad ae (fst k) (snd k)"
    and "back_on M view js ad ae (fst k) (snd k) \<Longrightarrow> begun (eth s k) \<and> \<not> mi_transient (M (snd k))"
    and "settled (ecl s) \<Longrightarrow> d_returned (dth s k) \<Longrightarrow> eth s k \<noteq> SLog True \<Longrightarrow> \<not> back_on M view js ad ae (fst k) (snd k)"
proof -
  show "back_on M view js ad ae (fst k) (snd k)" if "returned (eth s k)" "dth s k = DNone" "\<not> mi_transient (M (snd k))"
  proof -
    have "e_open (eth s k) \<or> wrote (eth s k)" using that(1,2) ph by (cases "eth s k") (auto simp: returned_def phase_ok_def)
    then show ?thesis using f that by (auto simp: found_def back_on_def live_def removed_def)
  qed
  show "begun (eth s k) \<and> \<not> mi_transient (M (snd k))" if "back_on M view js ad ae (fst k) (snd k)"
  proof -
    have "wrote (eth s k) \<Longrightarrow> begun (eth s k)" by (cases "eth s k") auto
    then show ?thesis using f that by (auto simp: found_def back_on_def live_def split: if_splits)
  qed
  show "\<not> back_on M view js ad ae (fst k) (snd k)" if "settled (ecl s)" "d_returned (dth s k)" "eth s k \<noteq> SLog True"
    using f ph that by (cases "dth s k") (auto simp: found_def back_on_def live_def d_returned_def phase_ok_def d_open_def removed_def split: if_splits)
qed

lemma restart_delivers:
  assumes st: "setting B view M Q l0 lo hi" and inv: "sys_inv B view M Q l0 lo hi n s"
    and bound: "17 * ((card (dom Q) + 1) * (hi - lo)) < 2 ^ 31"
    and re: "restarted te td (prov s) P0" and ro: "reopened B view mv R M Q js (prov s) P0"
    and u: "uses S (bdb_provider B dd obs) P0" and c: "calls S = []"
  shows "\<exists>recovered S'. plugin_recover R S = (Inr recovered, S') \<and>
    (\<forall>q m. returned (eth s (q, m)) \<longrightarrow> dth s (q, m) = DNone \<longrightarrow> \<not> mi_transient (M m) \<longrightarrow> delivered M S' q m) \<and>
    (\<forall>q m. delivered M S' q m \<longrightarrow> begun (eth s (q, m)) \<and> \<not> mi_transient (M m)) \<and>
    (settled (ecl s) \<longrightarrow> (\<forall>q m. d_returned (dth s (q, m)) \<longrightarrow> eth s (q, m) \<noteq> SLog True \<longrightarrow> \<not> delivered M S' q m))"
proof -
  note i = sys_parts[OF inv]
  obtain qs ad ae where r: "cold_state B view mv R M qs js ad ae P0" "dom qs = dom Q" "\<forall>k. fst k \<in> dom Q \<longrightarrow> found view js ad ae s k"
    by (rule run_recovered[OF st inv bound re ro])
  obtain rec S' where p: "plugin_recover R S = (Inr rec, S')" "dom (map_of (ro_queues rec)) = dom qs"
    "\<forall>k q. map_of (ro_queues rec) k = Some q \<longrightarrow> persistenceId q = k"
    "set (calls S') = set (calls S) \<union> {QueueRecover q (restored M m) | q m. q \<in> ran (map_of (ro_queues rec)) \<and> back_on M view js ad ae (persistenceId q) m}"
    using bdb.recover_delivers[OF u r(1)] by blast
  have "delivered M S' q m \<longleftrightarrow> q \<in> dom (map_of (ro_queues rec)) \<and> back_on M view js ad ae q m" for q m
    by (rule delivered_iff[OF p(3)]) (simp add: p(4) c)
  then have d: "delivered M S' q m \<longleftrightarrow> q \<in> dom Q \<and> back_on M view js ad ae q m" for q m by (simp only: p(2) r(2))
  note lc = back_cases[OF r(3)[rule_format] threads_phase[OF i(2)], where k = "(q, m)" and M = M for q m, simplified fst_conv snd_conv]
  have e: "q \<in> dom Q" if "eth s (q, m) \<noteq> ENone" for q m using ids_dom[OF i(1) that] by simp
  have dr: "d_returned (dth s k) \<Longrightarrow> eth s k \<noteq> ENone" for k
    using threads_phase[OF i(2), of k] by (auto simp: d_returned_def phase_ok_def)
  have "delivered M S' q m" if "returned (eth s (q, m))" "dth s (q, m) = DNone" "\<not> mi_transient (M m)" for q m
    using lc(1)[OF _ that] e[of q m] that(1) d by (auto simp: returned_def)
  moreover have "begun (eth s (q, m)) \<and> \<not> mi_transient (M m)" if "delivered M S' q m" for q m
    using lc(2) that d by blast
  moreover have "\<not> delivered M S' q m" if "settled (ecl s)" "d_returned (dth s (q, m))" "eth s (q, m) \<noteq> SLog True" for q m
    using lc(3)[OF _ that] e[OF dr[OF that(2)]] d by blast
  ultimately show ?thesis using p(1) by blast
qed


section \<open>A concrete run\<close>

text \<open>One queue that holds the messages 3 and 6; a caller enqueues a message, which gets the id 7, and the
  machine goes down when its task is in the pool.\<close>

definition run_os :: os where
  "run_os = \<lparr>files = \<lambda>_. None, can_open = \<lambda>_. True, can_alloc = \<lambda>_ _. True\<rparr>"

definition run_logger :: "aol \<times> os" where
  "run_logger = projr (AsyncOperationLogger ''d'' run_os)"

definition run_queues :: "u64 \<rightharpoonup> pqueue" where
  "run_queues = [1 \<mapsto> wit_queue1]"

definition run_provider :: "((u64 \<times> bytes) list, (u64 \<times> bytes) list) provider" where
  "run_provider = wit_ready\<lparr>aologger := Some (fst run_logger), machine := snd run_logger, jheap := [Some wit_opened],
     tracker := PidTracker_reset 6 PidTracker_new, messageIdSequence := 7\<rparr>"

definition run_events :: "event list" where
  "run_events = [Enqueue 1, EStep (1, 7), EStep (1, 7), EStep (1, 7)]"

lemma run_setting: "setting wit_cold_bdb map_of wit_info run_queues 6 1 20"
proof -
  have "bdb_laws bt_compare_func (msg_api wit_cold_bdb) map_of"
    using list_db_laws[of bt_compare_func] by (simp add: wit_cold_bdb_def wit_bdb_def bdb_laws_open)
  moreover have "long_codec (putLong (framing wit_cold_bdb)) (getLong (framing wit_cold_bdb))"
    using wit_readable by (simp add: readable_def wit_cold_bdb_def)
  ultimately show ?thesis
    by (auto simp: setting_def run_queues_def wit_queue1_def addr_def wit_info_def wit_cold_bdb_def wit_bdb_def split: if_splits)
qed

lemma run_logger_new: "AsyncOperationLogger ''d'' run_os = Inr run_logger" "calm run_os" "fresh_dir ''d'' run_os"
proof -
  show c: "calm run_os" "fresh_dir ''d'' run_os" by (simp_all add: run_os_def calm_def fresh_dir_def)
  then show "AsyncOperationLogger ''d'' run_os = Inr run_logger"
    using new_logger[OF c(1), of "''d''"] unfolding run_logger_def by (metis sum.sel(2))
qed

lemma run_fields:
  "isInit run_provider" "enqueuePool run_provider = []" "dequeuePool run_provider = []" "tracker run_provider = PidTracker_reset 6 PidTracker_new"
  "messageIdSequence run_provider = 7" "aologger run_provider = Some (fst run_logger)" "machine run_provider = snd run_logger"
  "deref 0 run_provider = (Inr wit_opened, run_provider)"
  by (simp_all add: run_provider_def wit_ready_def wit_provider_def BdbStoreProvider_new_def deref_def)

lemma run_ready: "ready wit_cold_bdb map_of wit_info run_queues {(1, 3), (1, 6)} 6 1 20 (length run_events) run_provider"
proof -
  have "\<exists>A base w. calm w \<and> fresh_dir base w \<and> AsyncOperationLogger base w = Inr (A, machine run_provider) \<and> aologger run_provider = Some A"
    using run_logger_new by (intro exI[of _ "fst run_logger"] exI[of _ "''d''"] exI[of _ run_os]) (simp add: run_fields)
  moreover have "framing wit_cold_bdb = wit_wire" by (simp add: wit_cold_bdb_def wit_bdb_def)
  moreover have "queuePid wit_opened = 1" by (simp add: wit_opened_def wit_journal0_def)
  ultimately show ?thesis
    using wit_opened_inv unfolding ready_def
    by (simp add: run_fields run_queues_def run_events_def wit_queue1_def addr_def wit_opened_view wit_msg_image)
qed

theorem every_schedule_returns_witness:
  "\<exists>s. run wit_cold_bdb wit_info run_queues run_events (start_system run_provider {(1, 3), (1, 6)}) = Inr s"
  using every_schedule_returns[OF run_setting run_ready] by blast

lemma estep_moves:
  assumes "estep B M Q k s = Inr s'"
  shows "eth s k = ELog \<Longrightarrow> eth s' = (eth s)(k := EWill) \<and> dth s' = dth s" "eth s k = EWill \<Longrightarrow> eth s' = (eth s)(k := ESched) \<and> dth s' = dth s"
    "eth s k = ESched \<Longrightarrow> eth s' = (eth s)(k := EPool) \<and> dth s' = dth s"
  using assms by (auto simp: estep_def fire_def Let_def split: prod.splits sum.splits)

lemma run_scheduled:
  assumes "run wit_cold_bdb wit_info run_queues run_events (start_system run_provider {(1, 3), (1, 6)}) = Inr s"
  shows "eth s = (\<lambda>k. if k = (1, 7) then EPool else if k \<in> {(1, 3), (1, 6)} then EDone True else ENone)" "dth s = (\<lambda>_. DNone)"
proof -
  let ?s = "start_system run_provider {(1, 3), (1, 6)}"
  have c: "calm (machine run_provider)"
    using inv_calm[OF sys_parts(3)[OF ready_inv[OF run_setting run_ready]]] by (simp add: start_system_def)
  have Q: "run_queues 1 = Some wit_queue1" "persistenceId wit_queue1 = 1" by (simp_all add: run_queues_def wit_queue1_def)
  obtain P bs where b: "enq_begin wit_cold_bdb (msg_of wit_info 0 7) wit_queue1 run_provider = (Inr (7, bs), P)"
    using enq_begin_first[OF run_setting c run_fields(1) Q(1), of 7] run_fields(5) by auto
  have p: "prov ?s = run_provider" "fst (IdSequence_next (messageIdSequence run_provider)) = 7"
    by (simp_all add: start_system_def run_fields IdSequence_next_def)
  obtain s1 where s1: "exec wit_cold_bdb wit_info run_queues (Enqueue 1) ?s = Inr s1" "eth s1 = (eth ?s)((1, 7) := ELog)" "dth s1 = dth ?s"
    using b Q p by (simp add: begin_with_def fire_def Let_def)
  let ?step = "estep wit_cold_bdb wit_info run_queues (1, 7)"
  obtain s2 s3 where "?step s1 = Inr s2" "?step s2 = Inr s3" "?step s3 = Inr s"
    using assms s1(1) by (auto simp: run_events_def split: sum.splits)
  from estep_moves(1)[OF this(1)] estep_moves(2)[OF this(2)] estep_moves(3)[OF this(3)]
  have "eth s = (eth ?s)((1, 7) := EPool)" "dth s = dth ?s" using s1(2,3) by simp_all
  then show "eth s = (\<lambda>k. if k = (1, 7) then EPool else if k \<in> {(1, 3), (1, 6)} then EDone True else ENone)" "dth s = (\<lambda>_. DNone)"
    by (simp_all add: start_system_def fun_eq_iff)
qed

lemma run_reopened:
  assumes run: "run wit_cold_bdb wit_info run_queues run_events (start_system run_provider {(1, 3), (1, 6)}) = Inr s"
    and inv: "sys_inv wit_cold_bdb map_of wit_info run_queues 6 1 20 0 s"
  shows "reopened wit_cold_bdb map_of set wit_rm wit_info run_queues (\<lambda>_. wit_opened) (prov s) ((wit_cold 4 6)\<lparr>aologger := A, machine := w\<rparr>)"
proof -
  let ?P = "(wit_cold 4 6)\<lparr>aologger := A, machine := w\<rparr>"
  have u: "unopened ?P wit_rm = unopened (wit_cold 4 6) wit_rm" by (simp add: unopened_def getBdbBaseDir_def)
  have v: "jview map_of wit_opened = jview map_of J" if J: "deref (addr (the (run_queues q))) (prov s) = (Inr J, prov s)" and q: "q \<in> dom run_queues" for q J
  proof -
    obtain J' where J': "deref (addr (the (run_queues q))) (prov s) = (Inr J', prov s)" "jinv map_of J'" "queuePid J' = q"
      "\<forall>m. jview map_of J' m = (if wrote (eth s (q, m)) \<and> \<not> removed (dth s (q, m)) then Some (msg_image (framing wit_cold_bdb) wit_info m) else None)"
      by (rule journal_at[OF sys_parts(5)[OF inv] q])
    have "q = 1" "J' = J" "framing wit_cold_bdb = wit_wire" using q J J'(1) by (auto simp: run_queues_def wit_cold_bdb_def wit_bdb_def split: if_splits)
    then show ?thesis using J'(4) run_scheduled[OF run] by (auto simp: fun_eq_iff wit_opened_view wit_msg_image removed_def)
  qed
  have "\<exists>cmp. bdb_laws cmp (cat_api wit_cold_bdb) map_of" "mdb_laws (multi_api wit_cold_bdb) set" "readable (framing wit_cold_bdb) wit_rm wit_info"
    using list_db_laws list_mdb_laws wit_readable by (auto simp: wit_cold_bdb_def wit_bdb_def)
  moreover have "generalDb ?P \<noteq> None" "exchangeDb ?P \<noteq> None" "queueDb ?P = Some [(1, [7])]" "bindingDb ?P = Some []" "journalList ?P = []"
    "recoveredJournal ?P = []" "enqueuePool ?P = []" "\<not> enableAcceptRecoveryFlag (options ?P)" "0 \<le> prov_num_jfiles ?P"
    by (simp_all add: wit_cold_def wit_ready_def wit_provider_def BdbStoreProvider_new_def StoreOptions_def)
  moreover have "c_str (rm_queue wit_rm x) \<noteq> []" for x by (simp add: wit_rm_def c_str_def)
  ultimately show ?thesis
    unfolding reopened_def using v wit_opened_inv wit_open u by (simp add: run_queues_def)
qed

lemma run_restarts:
  obtains s P0 S where "run wit_cold_bdb wit_info run_queues run_events (start_system run_provider {(1, 3), (1, 6)}) = Inr s"
    "restarted [] [] (prov s) P0" "reopened wit_cold_bdb map_of set wit_rm wit_info run_queues (\<lambda>_. wit_opened) (prov s) P0"
    "uses S (bdb_provider wit_cold_bdb None []) P0" "calls S = []"
proof -
  have "sys_inv wit_cold_bdb map_of wit_info run_queues 6 1 20 (length run_events + 0) (start_system run_provider {(1, 3), (1, 6)})"
    using ready_inv[OF run_setting run_ready] by simp
  then obtain s where s: "run wit_cold_bdb wit_info run_queues run_events (start_system run_provider {(1, 3), (1, 6)}) = Inr s"
    "sys_inv wit_cold_bdb map_of wit_info run_queues 6 1 20 0 s" using run_keeps[OF run_setting] by blast
  obtain A where A: "aologger (prov s) = Some A" using sys_parts(3)[OF s(2)] unfolding logs_inv_def by blast
  have "calm (crashed [] [] A (machine (prov s)))"
    using inv_calm[OF sys_parts(3)[OF s(2)]] by (simp add: crashed_def crash_image_def calm_def)
  then obtain A' w' where A': "AsyncOperationLogger (logBaseDir A) (crashed [] [] A (machine (prov s))) = Inr (A', w')"
    by (rule new_logger[where base = "logBaseDir A"])
  let ?P = "(wit_cold 4 6)\<lparr>aologger := Some A', machine := w'\<rparr>"
  let ?S = "(MessageStorePlugin_new [] [(bdb_provider wit_cold_bdb None [], ?P)])\<lparr>providers := [(''BDB'', 0)], provider_it := At ''BDB''\<rparr>"
  have re: "restarted [] [] (prov s) ?P" using A A' by (simp add: restarted_def cut_record_def)
  have "uses ?S (bdb_provider wit_cold_bdb None []) ?P" "calls ?S = []" by (simp_all add: uses_def MessageStorePlugin_new_def)
  from that[OF s(1) re run_reopened[OF s] this] show thesis .
qed

lemma run_small: "17 * ((card (dom run_queues) + 1) * (20 - 1)) < (2 :: nat) ^ 31"
  by (simp add: run_queues_def)


end
