(* ===== verification/ThreadPool.thy ===== *)
theory ThreadPool
  imports Prelude
begin

text \<open>
  The thread pool the provider hands its tasks to, \<^verbatim>\<open>lib/ext/boost/threadpool\<close>: the scheduling
  policies, the core with its counters and its two condition variables, the run loop of a
  worker, resizing and the three ways to shut down. A lock acquisition of \<^verbatim>\<open>m_monitor\<close> up to
  its release (or up to a wait on a condition) is one step; the threads stand where the
  last step left them, and \<open>pool_step\<close> lets any of them go on.
\<close>

section \<open>Scheduling policies\<close>

text \<open>A policy is a container class the core is instantiated with; \<open>sp_set\<close> tells whether the
  \<^verbatim>\<open>function0<void>\<close> made of a task is callable.\<close>

record ('c, 't) scheduling_policy =
  sp_new :: 'c
  sp_push :: "'t \<Rightarrow> 'c \<Rightarrow> bool \<times> 'c"
  sp_pop :: "'c \<Rightarrow> 'c"
  sp_top :: "'c \<Rightarrow> 't"
  sp_size :: "'c \<Rightarrow> u64"
  sp_empty :: "'c \<Rightarrow> bool"
  sp_clear :: "'c \<Rightarrow> 'c"
  sp_set :: "'t \<Rightarrow> bool"

text \<open>A \<^verbatim>\<open>task_func\<close> that holds no function is \<open>None\<close>. A deque is its list of elements.\<close>

definition fifo_scheduler :: "('f option list, 'f option) scheduling_policy" where
  "fifo_scheduler = \<lparr>sp_new = [], sp_push = (\<lambda>t c. (True, c @ [t])), sp_pop = tl, sp_top = hd, sp_size = (\<lambda>c. of_nat (length c)),
     sp_empty = (\<lambda>c. c = []), sp_clear = (\<lambda>_. []), sp_set = (\<lambda>t. t \<noteq> None)\<rparr>"

definition lifo_scheduler :: "('f option list, 'f option) scheduling_policy" where
  "lifo_scheduler = \<lparr>sp_new = [], sp_push = (\<lambda>t c. (True, t # c)), sp_pop = tl, sp_top = hd, sp_size = (\<lambda>c. of_nat (length c)),
     sp_empty = (\<lambda>c. c = []), sp_clear = (\<lambda>_. []), sp_set = (\<lambda>t. t \<noteq> None)\<rparr>"

text \<open>Tasks with a priority, compared by it. The priority queue is the list of its elements from the top
  down; which of two elements of the same priority is above the other is left open by the
  C++ standard, here it is the older one.\<close>

record 'f prio_task_func =
  m_priority :: u32
  m_function :: "'f option"

definition prio_less :: "'f prio_task_func \<Rightarrow> 'f prio_task_func \<Rightarrow> bool" where
  "prio_less t rhs \<longleftrightarrow> m_priority t < m_priority rhs"

fun prio_insert :: "'f prio_task_func \<Rightarrow> 'f prio_task_func list \<Rightarrow> 'f prio_task_func list" where
  "prio_insert t [] = [t]"
| "prio_insert t (x # xs) = (if prio_less x t then t # x # xs else x # prio_insert t xs)"

text \<open>\<^verbatim>\<open>clear\<close> pops until the queue is empty.\<close>

fun prio_clear :: "'f prio_task_func list \<Rightarrow> 'f prio_task_func list" where
  "prio_clear [] = []"
| "prio_clear (x # xs) = prio_clear xs"

definition prio_scheduler :: "('f prio_task_func list, 'f prio_task_func) scheduling_policy" where
  "prio_scheduler = \<lparr>sp_new = [], sp_push = (\<lambda>t c. (True, prio_insert t c)), sp_pop = tl, sp_top = hd, sp_size = (\<lambda>c. of_nat (length c)),
     sp_empty = (\<lambda>c. c = []), sp_clear = prio_clear, sp_set = (\<lambda>_. True)\<rparr>"

section \<open>The core\<close>

text \<open>Where a worker stands: about to take the lock in \<^verbatim>\<open>execute_task\<close>, waiting for a task, notified but not yet
  back under the lock, in a task, on its way out after \<^verbatim>\<open>execute_task\<close> returned false or
  after an exception of the task, ended.\<close>

datatype 't worker = Fetching | Waiting | Woken | Running 't | Leaving | Dying | Ended

text \<open>The calls that may block, and what a thread that does a sequence of them is at: about to begin the
  first, asleep in its wait, asleep in \<^verbatim>\<open>terminate_all_workers\<close> or about to test the condition there again.
  A wait with a timestamp may return false, and then the rest is not done.\<close>

datatype pool_call = CallClear | CallWait u64 | CallTimedWait u64 | CallTerminate bool

datatype caller = Ready "pool_call list" | Asleep "pool_call list" | TermTest "pool_call list" | TermAsleep "pool_call list" | TimedOut

text \<open>The shutdown policies.\<close>

definition wait_for_all_tasks :: "pool_call list" where
  "wait_for_all_tasks = [CallWait 0, CallTerminate True]"

definition wait_for_active_tasks :: "pool_call list" where
  "wait_for_active_tasks = [CallClear, CallWait 0, CallTerminate True]"

definition immediately :: "pool_call list" where
  "immediately = [CallClear, CallTerminate False]"

record ('c, 't) pool_core =
  m_worker_count :: u64
  m_target_worker_count :: u64
  m_active_worker_count :: u64
  m_scheduler :: 'c
  m_terminate_all_workers :: bool
  m_terminated_workers :: "nat list"
  workers :: "'t worker list"
  callers :: "caller list"

definition pool_core_new :: "('c, 't) scheduling_policy \<Rightarrow> ('c, 't) pool_core" where
  "pool_core_new S = \<lparr>m_worker_count = 0, m_target_worker_count = 0, m_active_worker_count = 0, m_scheduler = sp_clear S (sp_new S),
     m_terminate_all_workers = False, m_terminated_workers = [], workers = [], callers = []\<rparr>"

text \<open>The two conditions. \<^verbatim>\<open>notify_one\<close> wakes a thread of the system's choice, here \<open>w\<close> or, if that one
  does not wait, the first that does.\<close>

fun wake_first :: "'t worker list \<Rightarrow> 't worker list" where
  "wake_first [] = []"
| "wake_first (x # xs) = (case x of Waiting \<Rightarrow> Woken # xs | _ \<Rightarrow> x # wake_first xs)"

fun is_waiting :: "'t worker \<Rightarrow> bool" where
  "is_waiting Waiting = True"
| "is_waiting _ = False"

definition wake :: "'t worker \<Rightarrow> 't worker" where
  "wake x = (if is_waiting x then Woken else x)"

definition notify_one_worker :: "nat \<Rightarrow> ('c, 't) pool_core \<Rightarrow> ('c, 't) pool_core" where
  "notify_one_worker w p = p\<lparr>workers := (if w < length (workers p) \<and> is_waiting (workers p ! w) then (workers p)[w := Woken]
                                         else wake_first (workers p))\<rparr>"

definition notify_all_workers :: "('c, 't) pool_core \<Rightarrow> ('c, 't) pool_core" where
  "notify_all_workers p = p\<lparr>workers := map wake (workers p)\<rparr>"

fun wake_caller :: "caller \<Rightarrow> caller" where
  "wake_caller (Asleep cs) = Ready cs"
| "wake_caller (TermAsleep cs) = TermTest cs"
| "wake_caller c = c"

definition notify_callers :: "('c, 't) pool_core \<Rightarrow> ('c, 't) pool_core" where
  "notify_callers p = p\<lparr>callers := map wake_caller (callers p)\<rparr>"

text \<open>The operations of the interface.\<close>

definition pool_schedule :: "('c, 't) scheduling_policy \<Rightarrow> nat \<Rightarrow> 't \<Rightarrow> ('c, 't) pool_core \<Rightarrow> bool \<times> ('c, 't) pool_core" where
  "pool_schedule S w task p =
     (case sp_push S task (m_scheduler p) of
        (True, c) \<Rightarrow> (True, notify_one_worker w (p\<lparr>m_scheduler := c\<rparr>))
      | (False, c) \<Rightarrow> (False, p\<lparr>m_scheduler := c\<rparr>))"

definition pool_size :: "('c, 't) pool_core \<Rightarrow> u64" where
  "pool_size p = m_worker_count p"

definition pool_active :: "('c, 't) pool_core \<Rightarrow> u64" where
  "pool_active p = m_active_worker_count p"

definition pool_pending :: "('c, 't) scheduling_policy \<Rightarrow> ('c, 't) pool_core \<Rightarrow> u64" where
  "pool_pending S p = sp_size S (m_scheduler p)"

definition pool_empty :: "('c, 't) scheduling_policy \<Rightarrow> ('c, 't) pool_core \<Rightarrow> bool" where
  "pool_empty S p = sp_empty S (m_scheduler p)"

definition pool_clear :: "('c, 't) scheduling_policy \<Rightarrow> ('c, 't) pool_core \<Rightarrow> ('c, 't) pool_core" where
  "pool_clear S p = p\<lparr>m_scheduler := sp_clear S (m_scheduler p)\<rparr>"

text \<open>The condition of the loop in \<^verbatim>\<open>wait\<close>.\<close>

definition wait_goes_on :: "('c, 't) scheduling_policy \<Rightarrow> u64 \<Rightarrow> ('c, 't) pool_core \<Rightarrow> bool" where
  "wait_goes_on S task_threshold p =
     (if task_threshold = 0 then m_active_worker_count p \<noteq> 0 \<or> \<not> sp_empty S (m_scheduler p)
      else task_threshold < m_active_worker_count p + sp_size S (m_scheduler p))"

definition set_caller :: "nat \<Rightarrow> caller \<Rightarrow> ('c, 't) pool_core \<Rightarrow> ('c, 't) pool_core" where
  "set_caller c x p = p\<lparr>callers := (callers p)[c := x]\<rparr>"

text \<open>\<^verbatim>\<open>terminate_all_workers\<close>, up to its wait. The workers in \<^verbatim>\<open>m_terminated_workers\<close> have done their last
  step, so joining them returns.\<close>

definition terminate_test :: "nat \<Rightarrow> pool_call list \<Rightarrow> ('c, 't) pool_core \<Rightarrow> ('c, 't) pool_core" where
  "terminate_test c cs p =
     (if m_active_worker_count p > 0 then set_caller c (TermAsleep cs) p
      else set_caller c (Ready cs) (p\<lparr>m_terminated_workers := []\<rparr>))"

definition terminate_all_workers :: "bool \<Rightarrow> nat \<Rightarrow> pool_call list \<Rightarrow> ('c, 't) pool_core \<Rightarrow> ('c, 't) pool_core" where
  "terminate_all_workers wait c cs p =
     (let p' = notify_all_workers (p\<lparr>m_terminate_all_workers := True, m_target_worker_count := 0\<rparr>)
      in if wait then terminate_test c cs p' else set_caller c (Ready cs) p')"

text \<open>The next call of the caller \<open>c\<close>; a wait whose condition holds puts it to sleep, and it tests the
  condition again when it is notified.\<close>

definition wait_test :: "('c, 't) scheduling_policy \<Rightarrow> nat \<Rightarrow> u64 \<Rightarrow> pool_call list \<Rightarrow> pool_call list \<Rightarrow> ('c, 't) pool_core \<Rightarrow> ('c, 't) pool_core" where
  "wait_test S c task_threshold again cs p = set_caller c (if wait_goes_on S task_threshold p then Asleep again else Ready cs) p"

fun call_next :: "('c, 't) scheduling_policy \<Rightarrow> nat \<Rightarrow> pool_call list \<Rightarrow> ('c, 't) pool_core \<Rightarrow> ('c, 't) pool_core" where
  "call_next S c [] p = p"
| "call_next S c (CallClear # cs) p = set_caller c (Ready cs) (pool_clear S p)"
| "call_next S c (CallWait k # cs) p = wait_test S c k (CallWait k # cs) cs p"
| "call_next S c (CallTimedWait k # cs) p = wait_test S c k (CallTimedWait k # cs) cs p"
| "call_next S c (CallTerminate wait # cs) p = terminate_all_workers wait c cs p"

text \<open>\<^verbatim>\<open>create_and_attach\<close> and the loop of \<^verbatim>\<open>resize\<close>; the system can start \<open>n\<close> further threads and then
  refuses.\<close>

definition create_and_attach :: "('c, 't) pool_core \<Rightarrow> ('c, 't) pool_core" where
  "create_and_attach p = p\<lparr>workers := workers p @ [Fetching], m_worker_count := m_worker_count p + 1,
     m_active_worker_count := m_active_worker_count p + 1\<rparr>"

fun add_workers :: "nat \<Rightarrow> ('c, 't) pool_core \<Rightarrow> bool \<times> ('c, 't) pool_core" where
  "add_workers 0 p = (\<not> m_worker_count p < m_target_worker_count p, p)"
| "add_workers (Suc n) p = (if m_worker_count p < m_target_worker_count p then add_workers n (create_and_attach p) else (True, p))"

definition pool_resize :: "nat \<Rightarrow> u64 \<Rightarrow> ('c, 't) pool_core \<Rightarrow> bool \<times> ('c, 't) pool_core" where
  "pool_resize n worker_count p =
     (if m_terminate_all_workers p then (False, p)
      else let p' = p\<lparr>m_target_worker_count := worker_count\<rparr>
           in if m_worker_count p' \<le> m_target_worker_count p' then add_workers n p' else (True, notify_all_workers p'))"

text \<open>The size policy \<^verbatim>\<open>static_size\<close> passes on to the pool, and replaces a worker that died.\<close>

definition static_size_init :: "nat \<Rightarrow> u64 \<Rightarrow> ('c, 't) pool_core \<Rightarrow> ('c, 't) pool_core" where
  "static_size_init n worker_count p = snd (pool_resize n worker_count p)"

definition static_size_died :: "nat \<Rightarrow> u64 \<Rightarrow> ('c, 't) pool_core \<Rightarrow> ('c, 't) pool_core" where
  "static_size_died n new_worker_count p = snd (pool_resize n (new_worker_count + 1) p)"

definition thread_pool_new :: "('c, 't) scheduling_policy \<Rightarrow> nat \<Rightarrow> u64 \<Rightarrow> ('c, 't) pool_core" where
  "thread_pool_new S n initial_threads = static_size_init n initial_threads (pool_core_new S)"

section \<open>A worker\<close>

definition set_worker :: "nat \<Rightarrow> 't worker \<Rightarrow> ('c, 't) pool_core \<Rightarrow> ('c, 't) pool_core" where
  "set_worker w x p = p\<lparr>workers := (workers p)[w := x]\<rparr>"

text \<open>Both ways out end with the counters decremented and the callers notified.\<close>

definition sign_off :: "nat \<Rightarrow> ('c, 't) pool_core \<Rightarrow> ('c, 't) pool_core" where
  "sign_off w p = notify_callers (set_worker w Ended
     (p\<lparr>m_worker_count := m_worker_count p - 1, m_active_worker_count := m_active_worker_count p - 1\<rparr>))"

definition worker_died_unexpectedly :: "nat \<Rightarrow> nat \<Rightarrow> ('c, 't) pool_core \<Rightarrow> ('c, 't) pool_core" where
  "worker_died_unexpectedly n w p =
     (let p' = sign_off w p
      in if m_terminate_all_workers p' then p'\<lparr>m_terminated_workers := m_terminated_workers p' @ [w]\<rparr>
         else static_size_died n (m_worker_count p') p')"

definition worker_destructed :: "nat \<Rightarrow> ('c, 't) pool_core \<Rightarrow> ('c, 't) pool_core" where
  "worker_destructed w p =
     (let p' = sign_off w p
      in if m_terminate_all_workers p' then p'\<lparr>m_terminated_workers := m_terminated_workers p' @ [w]\<rparr> else p')"

text \<open>The loop of \<^verbatim>\<open>execute_task\<close> up to the fetched task, the next wait, or the return of false. A task that
  cannot be called is dropped, and the run loop calls \<^verbatim>\<open>execute_task\<close> again.\<close>

definition fetch_loop :: "('c, 't) scheduling_policy \<Rightarrow> nat \<Rightarrow> ('c, 't) pool_core \<Rightarrow> ('c, 't) pool_core" where
  "fetch_loop S w p =
     (if sp_empty S (m_scheduler p)
      then if m_worker_count p > m_target_worker_count p then set_worker w Leaving p
           else notify_callers (set_worker w Waiting (p\<lparr>m_active_worker_count := m_active_worker_count p - 1\<rparr>))
      else let task = sp_top S (m_scheduler p)
           in set_worker w (if sp_set S task then Running task else Fetching) (p\<lparr>m_scheduler := sp_pop S (m_scheduler p)\<rparr>))"

definition execute_task :: "('c, 't) scheduling_policy \<Rightarrow> nat \<Rightarrow> ('c, 't) pool_core \<Rightarrow> ('c, 't) pool_core" where
  "execute_task S w p =
     (if m_worker_count p > m_target_worker_count p then set_worker w Leaving p else fetch_loop S w p)"

definition woken_up :: "('c, 't) scheduling_policy \<Rightarrow> nat \<Rightarrow> ('c, 't) pool_core \<Rightarrow> ('c, 't) pool_core" where
  "woken_up S w p = fetch_loop S w (p\<lparr>m_active_worker_count := m_active_worker_count p + 1\<rparr>)"

section \<open>The pool at work\<close>

text \<open>What a step does to the pending tasks: one is added, one is fetched by a worker, all are discarded, or
  nothing.\<close>

datatype 't pool_label = Pushed 't | Popped 't | Cleared | Quiet

definition fetch_label :: "('c, 't) scheduling_policy \<Rightarrow> ('c, 't) pool_core \<Rightarrow> 't pool_label" where
  "fetch_label S p = (if sp_empty S (m_scheduler p) then Quiet else Popped (sp_top S (m_scheduler p)))"

fun call_label :: "pool_call list \<Rightarrow> 't pool_label" where
  "call_label (CallClear # cs) = Cleared"
| "call_label _ = Quiet"

text \<open>The steps of the workers and of the threads that call the pool. A worker may also wake up without
  being notified.\<close>

inductive pool_step :: "('c, 't) scheduling_policy \<Rightarrow> ('c, 't) pool_core \<Rightarrow> 't pool_label \<Rightarrow> ('c, 't) pool_core \<Rightarrow> bool"
  for S :: "('c, 't) scheduling_policy" and p :: "('c, 't) pool_core" where
  Schedule: "pool_schedule S w t p = (True, p') \<Longrightarrow> pool_step S p (Pushed t) p'"
| Refuse: "pool_schedule S w t p = (False, p') \<Longrightarrow> pool_step S p Quiet p'"
| Resize: "pool_step S p Quiet (snd (pool_resize n k p))"
| Call: "pool_step S p Quiet (p\<lparr>callers := callers p @ [Ready cs]\<rparr>)"
| Next: "c < length (callers p) \<Longrightarrow> callers p ! c = Ready cs \<Longrightarrow> pool_step S p (call_label cs) (call_next S c cs p)"
| Timeout: "c < length (callers p) \<Longrightarrow> callers p ! c = Asleep (CallTimedWait k # cs) \<Longrightarrow> pool_step S p Quiet (set_caller c TimedOut p)"
| Again: "c < length (callers p) \<Longrightarrow> callers p ! c = TermTest cs \<Longrightarrow> pool_step S p Quiet (terminate_test c cs p)"
| Fetch: "w < length (workers p) \<Longrightarrow> workers p ! w = Fetching \<Longrightarrow>
    pool_step S p (if m_worker_count p > m_target_worker_count p then Quiet else fetch_label S p) (execute_task S w p)"
| Wake: "w < length (workers p) \<Longrightarrow> workers p ! w = Woken \<Longrightarrow> pool_step S p (fetch_label S p) (woken_up S w p)"
| Spurious: "w < length (workers p) \<Longrightarrow> workers p ! w = Waiting \<Longrightarrow> pool_step S p Quiet (set_worker w Woken p)"
| Finish: "w < length (workers p) \<Longrightarrow> workers p ! w = Running t \<Longrightarrow> pool_step S p Quiet (set_worker w Fetching p)"
| Throw: "w < length (workers p) \<Longrightarrow> workers p ! w = Running t \<Longrightarrow> pool_step S p Quiet (set_worker w Dying p)"
| Leave: "w < length (workers p) \<Longrightarrow> workers p ! w = Leaving \<Longrightarrow> pool_step S p Quiet (worker_destructed w p)"
| Die: "w < length (workers p) \<Longrightarrow> workers p ! w = Dying \<Longrightarrow> pool_step S p Quiet (worker_died_unexpectedly n w p)"

text \<open>The runs of a pool from its construction, with the labels of their steps.\<close>

inductive pool_run :: "('c, 't) scheduling_policy \<Rightarrow> 't pool_label list \<Rightarrow> ('c, 't) pool_core \<Rightarrow> bool"
  for S :: "('c, 't) scheduling_policy" where
  Start: "pool_run S [] (thread_pool_new S n k)"
| Step: "pool_run S ls p \<Longrightarrow> pool_step S p l p' \<Longrightarrow> pool_run S (ls @ [l]) p'"

end
