(* ===== verification/PoolProperties.thy ===== *)
theory PoolProperties
  imports ThreadPool "HOL-Library.Sublist"
begin

text \<open>
  What the thread pool promises whatever its threads do: its counters count, a wait ends
  only when nothing is pending or running, no worker sleeps while there is work nobody was
  woken for, and every task is fetched at most once, in the order of the scheduling policy.
  Then two races of the pool that its own comments do not allow for.
\<close>

section \<open>Counting threads\<close>

definition cnt :: "('a \<Rightarrow> bool) \<Rightarrow> 'a list \<Rightarrow> nat" where
  "cnt P xs = length (filter P xs)"

lemma cnt_simps [simp]: "cnt P [] = 0" "cnt P (x # xs) = of_bool (P x) + cnt P xs" "cnt P (xs @ ys) = cnt P xs + cnt P ys"
  by (simp_all add: cnt_def)

lemma cnt_update: "w < length xs \<Longrightarrow> cnt P (xs[w := x]) + of_bool (P (xs ! w)) = cnt P xs + of_bool (P x)"
proof (induction xs arbitrary: w)
  case (Cons y xs)
  then show ?case using Cons.IH[of "w - 1"] by (cases w) simp_all
qed simp

lemma cnt_same [simp]: "w < length xs \<Longrightarrow> P x = P (xs ! w) \<Longrightarrow> cnt P (xs[w := x]) = cnt P xs"
  using cnt_update[of w xs P x] by simp

lemma cnt_zero: "cnt P xs = 0 \<longleftrightarrow> (\<forall>x \<in> set xs. \<not> P x)"
  by (auto simp: cnt_def filter_empty_conv)

lemma cnt_mono: "(\<And>x. P x \<Longrightarrow> Q x) \<Longrightarrow> cnt P xs \<le> cnt Q xs"
  by (induction xs) (auto simp: add_mono of_bool_def)

fun is_live :: "'t worker \<Rightarrow> bool" where
  "is_live Ended = False"
| "is_live _ = True"

fun is_woken :: "'t worker \<Rightarrow> bool" where
  "is_woken Woken = True"
| "is_woken _ = False"

fun is_busy :: "'t worker \<Rightarrow> bool" where
  "is_busy Waiting = False"
| "is_busy Woken = False"
| "is_busy Ended = False"
| "is_busy _ = True"

lemma busy_live: "is_busy x \<Longrightarrow> is_live x"
  by (cases x) simp_all

lemma wake_simps [simp]: "is_live (wake x) = is_live x" "is_busy (wake x) = is_busy x" "\<not> is_waiting (wake x)"
  by (cases x; simp add: wake_def)+

lemma cnt_map_wake [simp]: "cnt is_live (map wake xs) = cnt is_live xs" "cnt is_busy (map wake xs) = cnt is_busy xs" "cnt is_waiting (map wake xs) = 0"
  by (induction xs) simp_all

text \<open>\<^verbatim>\<open>notify_one\<close> moves one sleeper, if there is one, to the woken.\<close>

lemma cnt_wake_first [simp]: "cnt is_live (wake_first xs) = cnt is_live xs" "cnt is_busy (wake_first xs) = cnt is_busy xs"
  by (induction xs) (auto split: worker.split)

lemma cnt_wake_first_moves:
  "cnt is_waiting xs = 0 \<Longrightarrow> wake_first xs = xs"
  "cnt is_waiting xs \<noteq> 0 \<Longrightarrow> cnt is_woken (wake_first xs) = Suc (cnt is_woken xs)"
  by (induction xs) (auto split: worker.splits)

lemma notify_one_counts [simp]: "cnt is_live (workers (notify_one_worker w p)) = cnt is_live (workers p)"
  "cnt is_busy (workers (notify_one_worker w p)) = cnt is_busy (workers p)"
proof -
  have "cnt is_live ((workers p)[w := Woken]) = cnt is_live (workers p) \<and> cnt is_busy ((workers p)[w := Woken]) = cnt is_busy (workers p)"
    if "w < length (workers p)" "is_waiting (workers p ! w)"
    using cnt_update[OF that(1), of is_live Woken] cnt_update[OF that(1), of is_busy Woken] that(2)
    by (cases "workers p ! w") simp_all
  then show "cnt is_live (workers (notify_one_worker w p)) = cnt is_live (workers p)"
    "cnt is_busy (workers (notify_one_worker w p)) = cnt is_busy (workers p)"
    by (simp_all add: notify_one_worker_def)
qed

lemma notify_one_frame [simp]: "m_worker_count (notify_one_worker w p) = m_worker_count p"
  "m_active_worker_count (notify_one_worker w p) = m_active_worker_count p" "m_scheduler (notify_one_worker w p) = m_scheduler p"
  by (simp_all add: notify_one_worker_def)

lemma notify_one_wakes:
  assumes "cnt is_waiting (workers p) \<noteq> 0"
  shows "cnt is_woken (workers (notify_one_worker w p)) = Suc (cnt is_woken (workers p))"
  using assms cnt_wake_first_moves(2)[OF assms] cnt_update[of w "workers p" is_woken Woken]
  by (cases "workers p ! w") (auto simp: notify_one_worker_def)

lemma notify_one_idle: "cnt is_waiting (workers p) = 0 \<Longrightarrow> cnt is_waiting (workers (notify_one_worker w p)) = 0"
proof -
  assume z: "cnt is_waiting (workers p) = 0"
  then have "w < length (workers p) \<Longrightarrow> \<not> is_waiting (workers p ! w)" by (simp add: cnt_zero)
  with z show ?thesis by (auto simp: notify_one_worker_def cnt_wake_first_moves(1))
qed

section \<open>The counters\<close>

definition counts_ok :: "('c, 't) pool_core \<Rightarrow> bool" where
  "counts_ok p \<longleftrightarrow> m_worker_count p = of_nat (cnt is_live (workers p)) \<and> m_active_worker_count p = of_nat (cnt is_busy (workers p)) \<and>
     cnt is_live (workers p) < 2 ^ 64"

lemma counts_unat:
  assumes "counts_ok p"
  shows "unat (m_worker_count p) = cnt is_live (workers p)" "unat (m_active_worker_count p) = cnt is_busy (workers p)"
proof -
  have "cnt is_busy (workers p) \<le> cnt is_live (workers p)" by (rule cnt_mono) (rule busy_live)
  then show "unat (m_worker_count p) = cnt is_live (workers p)" "unat (m_active_worker_count p) = cnt is_busy (workers p)"
    using assms by (simp_all add: counts_ok_def unat_of_nat take_bit_nat_eq_self)
qed

lemma counts_cong:
  assumes "counts_ok p" and "m_worker_count p' = m_worker_count p" "m_active_worker_count p' = m_active_worker_count p"
    and "cnt is_live (workers p') = cnt is_live (workers p)" "cnt is_busy (workers p') = cnt is_busy (workers p)"
  shows "counts_ok p'"
  using assms by (simp add: counts_ok_def)

lemma cnt_word: "w < length xs \<Longrightarrow> (of_nat (cnt P (xs[w := x])) :: 'a :: len word) = of_nat (cnt P xs) + of_bool (P x) - of_bool (P (xs ! w))"
  using arg_cong[OF cnt_update[of w xs P x], where f = "of_nat :: nat \<Rightarrow> 'a word"] by (simp add: algebra_simps)

text \<open>A worker moves on.\<close>

lemma counts_moved:
  assumes "counts_ok p" and "w < length (workers p)" and "is_live (workers p ! w)"
    and "m_worker_count p' = m_worker_count p + of_bool (is_live x) - 1"
    and "m_active_worker_count p' = m_active_worker_count p + of_bool (is_busy x) - of_bool (is_busy (workers p ! w))"
    and "workers p' = (workers p)[w := x]"
  shows "counts_ok p'"
  using assms cnt_update[OF assms(2), of is_live x] by (auto simp: counts_ok_def cnt_word of_bool_def split: if_splits)

lemma counts_add_workers: "counts_ok p \<Longrightarrow> counts_ok (snd (add_workers n p))"
proof (induction n arbitrary: p)
  case (Suc n)
  have "counts_ok (create_and_attach p)" if less: "m_worker_count p < m_target_worker_count p"
  proof -
    have "Suc (cnt is_live (workers p)) < 2 ^ 64"
      using less counts_unat(1)[OF Suc.prems] unsigned_less[where 'a = nat, of "m_target_worker_count p"] by (simp add: word_less_nat_alt)
    then show ?thesis using Suc.prems by (simp add: counts_ok_def create_and_attach_def)
  qed
  then show ?case using Suc by simp
qed simp

lemma counts_resize: "counts_ok p \<Longrightarrow> counts_ok (snd (pool_resize n k p))"
  by (auto simp: pool_resize_def Let_def notify_all_workers_def intro!: counts_add_workers elim!: counts_cong)

lemma counts_sign_off: "counts_ok p \<Longrightarrow> w < length (workers p) \<Longrightarrow> is_busy (workers p ! w) \<Longrightarrow> counts_ok (sign_off w p)"
  by (rule counts_moved[where x = Ended and w = w]) (auto simp: sign_off_def notify_callers_def set_worker_def busy_live)

lemma counts_fetch_loop:
  assumes "counts_ok p" and "w < length (workers p)" and "is_busy (workers p ! w)"
  shows "counts_ok (fetch_loop S w p)"
  unfolding fetch_loop_def Let_def
  by (auto simp: set_worker_def notify_callers_def assms busy_live intro!: counts_moved[OF assms(1,2)])

lemma counts_awake:
  assumes "counts_ok p" and "w < length (workers p)" and "workers p ! w = Woken"
  shows "counts_ok (set_worker w Fetching (p\<lparr>m_active_worker_count := m_active_worker_count p + 1\<rparr>))"
  using assms by (intro counts_moved[OF assms(1,2)]) (auto simp: set_worker_def)

lemma counts_woken_up:
  assumes "counts_ok p" and "w < length (workers p)" and "workers p ! w = Woken"
  shows "counts_ok (woken_up S w p)"
proof -
  let ?q = "set_worker w Fetching (p\<lparr>m_active_worker_count := m_active_worker_count p + 1\<rparr>)"
  have "counts_ok (fetch_loop S w ?q)" by (rule counts_fetch_loop[OF counts_awake[OF assms]]) (simp_all add: assms(2) set_worker_def)
  moreover have "fetch_loop S w ?q = woken_up S w p" by (simp add: woken_up_def fetch_loop_def set_worker_def notify_callers_def Let_def)
  ultimately show ?thesis by simp
qed

lemma counts_call_next: "counts_ok p \<Longrightarrow> counts_ok (call_next S c cs p)"
  by (erule counts_cong; induction S c cs p rule: call_next.induct)
    (simp_all add: set_caller_def pool_clear_def wait_test_def terminate_all_workers_def terminate_test_def notify_all_workers_def Let_def)

lemma counts_step: "pool_step S p l p' \<Longrightarrow> counts_ok p \<Longrightarrow> counts_ok p'"
proof (induction rule: pool_step.induct)
  case (Schedule w t p')
  then obtain c where "p' = notify_one_worker w (p\<lparr>m_scheduler := c\<rparr>)" by (auto simp: pool_schedule_def split: prod.splits bool.splits)
  with Schedule(2) show ?case by (simp add: counts_ok_def)
next
  case (Fetch w)
  then show ?case unfolding execute_task_def
    by (auto intro!: counts_fetch_loop counts_moved[OF Fetch(3,1)] simp: set_worker_def)
next
  case (Leave w)
  then have "counts_ok (sign_off w p)" by (simp add: counts_sign_off)
  then show ?case by (auto simp: worker_destructed_def Let_def elim!: counts_cong)
next
  case (Die w n)
  then have "counts_ok (sign_off w p)" by (simp add: counts_sign_off)
  then show ?case by (auto simp: worker_died_unexpectedly_def static_size_died_def Let_def intro!: counts_resize elim!: counts_cong)
qed (auto simp: pool_schedule_def terminate_test_def set_caller_def set_worker_def split: prod.splits bool.splits
      intro!: counts_resize counts_call_next counts_woken_up counts_moved elim!: counts_cong)

lemma counts_run: "pool_run S ls p \<Longrightarrow> counts_ok p"
proof (induction rule: pool_run.induct)
  case (Start n k)
  have "counts_ok (pool_core_new S)" by (simp add: counts_ok_def pool_core_new_def)
  then show ?case by (simp add: thread_pool_new_def static_size_init_def counts_resize)
qed (rule counts_step)

section \<open>Sleeping workers and pending tasks\<close>

text \<open>The contract of a scheduling policy: its container is a bag of tasks.\<close>

locale scheduler =
  fixes S :: "('c, 't) scheduling_policy" and bag :: "'c \<Rightarrow> 't multiset"
  assumes bag_new: "bag (sp_new S) = {#}"
    and push_taken: "sp_push S t c = (True, c') \<Longrightarrow> bag c' = add_mset t (bag c)"
    and push_refused: "sp_push S t c = (False, c') \<Longrightarrow> bag c' = bag c"
    and bag_top: "\<not> sp_empty S c \<Longrightarrow> bag c = add_mset (sp_top S c) (bag (sp_pop S c))"
    and empty_iff: "sp_empty S c \<longleftrightarrow> bag c = {#}"
    and bag_clear: "bag (sp_clear S c) = {#}"
    and size_bag: "sp_size S c = of_nat (size (bag c))"

text \<open>While a worker sleeps there is a woken worker for every pending task.\<close>

definition sleepers_ok :: "('c \<Rightarrow> 't multiset) \<Rightarrow> ('c, 't) pool_core \<Rightarrow> bool" where
  "sleepers_ok bag p \<longleftrightarrow> cnt is_waiting (workers p) = 0 \<or> size (bag (m_scheduler p)) \<le> cnt is_woken (workers p)"

lemma sleepers_cong:
  assumes "sleepers_ok bag p" and "cnt is_waiting (workers p') \<le> cnt is_waiting (workers p)" and "cnt is_woken (workers p) \<le> cnt is_woken (workers p')"
    and "size (bag (m_scheduler p')) \<le> size (bag (m_scheduler p))"
  shows "sleepers_ok bag p'"
  using assms by (auto simp: sleepers_ok_def)

lemma add_workers_frame: "m_scheduler (snd (add_workers n p)) = m_scheduler p \<and> callers (snd (add_workers n p)) = callers p \<and>
    (\<exists>k. workers (snd (add_workers n p)) = workers p @ replicate k Fetching)"
proof (induction n arbitrary: p)
  case (Suc n)
  obtain k where "workers (snd (add_workers n (create_and_attach p))) = workers p @ replicate (Suc k) Fetching"
    "m_scheduler (snd (add_workers n (create_and_attach p))) = m_scheduler p" "callers (snd (add_workers n (create_and_attach p))) = callers p"
    using Suc[of "create_and_attach p"] by (auto simp: create_and_attach_def)
  then show ?case by (auto intro: exI[of _ "Suc k"] exI[of _ 0])
qed (auto intro: exI[of _ 0])

lemma resize_workers: "(\<exists>k. workers (snd (pool_resize n m p)) = workers p @ replicate k Fetching) \<or> workers (snd (pool_resize n m p)) = map wake (workers p)"
  using add_workers_frame[of n "p\<lparr>m_target_worker_count := m\<rparr>"]
  by (auto simp: pool_resize_def Let_def notify_all_workers_def intro: exI[of _ 0])

lemma resize_scheduler [simp]: "m_scheduler (snd (pool_resize n m p)) = m_scheduler p" "callers (snd (pool_resize n m p)) = callers p"
  using add_workers_frame[of n "p\<lparr>m_target_worker_count := m\<rparr>"] by (auto simp: pool_resize_def Let_def notify_all_workers_def)

lemma cnt_replicate [simp]: "cnt P (replicate k x) = (if P x then k else 0)"
  by (induction k) auto

lemma sleepers_resize: "sleepers_ok bag p \<Longrightarrow> sleepers_ok bag (snd (pool_resize n m p))"
  using resize_workers[of n m p] by (auto simp: sleepers_ok_def)

context scheduler
begin

lemma bag_empty_size: "sp_empty S c \<longleftrightarrow> size (bag c) = 0"
  by (simp add: empty_iff)

lemma sleepers_fetch_loop:
  assumes "sleepers_ok bag p" and "w < length (workers p)" and "\<not> is_waiting (workers p ! w)"
  shows "sleepers_ok bag (fetch_loop S w p)"
proof (cases "sp_empty S (m_scheduler p)")
  case True
  then show ?thesis by (simp add: sleepers_ok_def fetch_loop_def set_worker_def notify_callers_def bag_empty_size)
next
  case False
  define x where "x = (if sp_set S (sp_top S (m_scheduler p)) then Running (sp_top S (m_scheduler p)) else Fetching)"
  have "size (bag (m_scheduler p)) = Suc (size (bag (sp_pop S (m_scheduler p))))" by (subst bag_top[OF False]) simp
  moreover have "cnt is_waiting ((workers p)[w := x]) = cnt is_waiting (workers p)" using assms(2,3) by (simp add: x_def)
  moreover have "cnt is_woken (workers p) \<le> Suc (cnt is_woken ((workers p)[w := x]))"
    using cnt_update[OF assms(2), of is_woken x] by (auto simp: of_bool_def split: if_splits)
  moreover have "fetch_loop S w p = set_worker w x (p\<lparr>m_scheduler := sp_pop S (m_scheduler p)\<rparr>)"
    using False by (simp add: fetch_loop_def x_def Let_def)
  ultimately show ?thesis using assms(1) by (auto simp: sleepers_ok_def set_worker_def)
qed

lemma sleepers_schedule:
  assumes "sleepers_ok bag p" and "pool_schedule S w t p = (b, p')"
  shows "sleepers_ok bag p'"
proof (cases "sp_push S t (m_scheduler p)")
  case (Pair r c)
  show ?thesis
  proof (cases r)
    case True
    then have p': "p' = notify_one_worker w (p\<lparr>m_scheduler := c\<rparr>)" using assms(2) Pair by (simp add: pool_schedule_def)
    have "size (bag c) = Suc (size (bag (m_scheduler p)))" using push_taken Pair True by simp
    then show ?thesis using assms(1) notify_one_wakes[of "p\<lparr>m_scheduler := c\<rparr>" w] notify_one_idle[of "p\<lparr>m_scheduler := c\<rparr>" w]
      unfolding p' by (cases "cnt is_waiting (workers p) = 0") (auto simp: sleepers_ok_def)
  next
    case False
    then show ?thesis using assms Pair push_refused[of t "m_scheduler p" c] by (auto simp: pool_schedule_def sleepers_ok_def)
  qed
qed

lemma sleepers_call_next: "sleepers_ok bag p \<Longrightarrow> sleepers_ok bag (call_next S c cs p)"
  by (cases "(S, c, cs, p)" rule: call_next.cases)
    (simp_all add: sleepers_ok_def set_caller_def pool_clear_def bag_clear wait_test_def terminate_all_workers_def terminate_test_def notify_all_workers_def Let_def)

lemma sleepers_sign_off: "sleepers_ok bag p \<Longrightarrow> w < length (workers p) \<Longrightarrow> is_busy (workers p ! w) \<Longrightarrow> sleepers_ok bag (sign_off w p)"
  by (cases "workers p ! w") (auto simp: sleepers_ok_def sign_off_def notify_callers_def set_worker_def)

lemma sleepers_step: "pool_step S p l p' \<Longrightarrow> sleepers_ok bag p \<Longrightarrow> sleepers_ok bag p'"
proof (induction rule: pool_step.induct)
  case (Fetch w)
  then show ?case using sleepers_fetch_loop[of p w] by (auto simp: execute_task_def set_worker_def sleepers_ok_def)
next
  case (Wake w)
  then show ?case unfolding woken_up_def by (intro sleepers_fetch_loop) (simp_all add: sleepers_ok_def)
next
  case (Spurious w)
  then show ?case using cnt_update[of w "workers p" is_waiting Woken] cnt_update[of w "workers p" is_woken Woken]
    by (auto simp: sleepers_ok_def set_worker_def)
next
  case (Leave w)
  then have "sleepers_ok bag (sign_off w p)" by (simp add: sleepers_sign_off)
  then show ?case by (auto simp: worker_destructed_def Let_def elim!: sleepers_cong)
next
  case (Die w n)
  then have "sleepers_ok bag (sign_off w p)" by (simp add: sleepers_sign_off)
  then show ?case by (auto simp: worker_died_unexpectedly_def static_size_died_def Let_def intro!: sleepers_resize elim!: sleepers_cong)
qed (auto simp: terminate_test_def set_caller_def set_worker_def intro: sleepers_schedule sleepers_resize sleepers_call_next elim: sleepers_cong)

lemma sleepers_run: "pool_run S ls p \<Longrightarrow> sleepers_ok bag p"
proof (induction rule: pool_run.induct)
  case (Start n k)
  have "sleepers_ok bag (pool_core_new S)" by (simp add: sleepers_ok_def pool_core_new_def)
  then show ?case by (simp add: thread_pool_new_def static_size_init_def sleepers_resize)
qed (rule sleepers_step)

end

section \<open>What happens to a task\<close>

text \<open>The pool as its clients see it: a container of tasks, and steps that add a task, hand out the top
  one, or discard all.\<close>

fun container_step :: "('c, 't) scheduling_policy \<Rightarrow> 'c \<Rightarrow> 't pool_label \<Rightarrow> 'c \<Rightarrow> bool" where
  "container_step S c (Pushed t) c' \<longleftrightarrow> sp_push S t c = (True, c')"
| "container_step S c (Popped t) c' \<longleftrightarrow> \<not> sp_empty S c \<and> t = sp_top S c \<and> c' = sp_pop S c"
| "container_step S c Cleared c' \<longleftrightarrow> c' = sp_clear S c"
| "container_step S c Quiet c' \<longleftrightarrow> c' = c \<or> (\<exists>t. sp_push S t c = (False, c'))"

lemma fetch_loop_container: "container_step S (m_scheduler p) (fetch_label S p) (m_scheduler (fetch_loop S w p))"
  by (simp add: fetch_loop_def fetch_label_def set_worker_def notify_callers_def Let_def)

lemma call_next_container: "container_step S (m_scheduler p) (call_label cs) (m_scheduler (call_next S c cs p))"
  by (cases "(S, c, cs, p)" rule: call_next.cases)
    (simp_all add: set_caller_def pool_clear_def wait_test_def terminate_all_workers_def terminate_test_def notify_all_workers_def Let_def)

lemma pool_refines_container: "pool_step S p l p' \<Longrightarrow> container_step S (m_scheduler p) l (m_scheduler p')"
proof (induction rule: pool_step.induct)
  case (Fetch w)
  then show ?case using fetch_loop_container[of S p w] by (simp add: execute_task_def set_worker_def)
next
  case (Wake w)
  then show ?case using fetch_loop_container[of S "p\<lparr>m_active_worker_count := m_active_worker_count p + 1\<rparr>" w]
    by (auto simp: woken_up_def fetch_label_def split: if_splits)
qed (auto simp: call_next_container pool_schedule_def terminate_test_def set_caller_def set_worker_def worker_destructed_def
      worker_died_unexpectedly_def static_size_died_def sign_off_def notify_callers_def Let_def split: prod.splits bool.splits)

fun pushed :: "'t pool_label list \<Rightarrow> 't list" where
  "pushed [] = []"
| "pushed (Pushed t # ls) = t # pushed ls"
| "pushed (_ # ls) = pushed ls"

fun popped :: "'t pool_label list \<Rightarrow> 't list" where
  "popped [] = []"
| "popped (Popped t # ls) = t # popped ls"
| "popped (_ # ls) = popped ls"

lemma pushed_append [simp]: "pushed (ls @ ls') = pushed ls @ pushed ls'"
  by (induction ls rule: pushed.induct) simp_all

lemma popped_append [simp]: "popped (ls @ ls') = popped ls @ popped ls'"
  by (induction ls rule: popped.induct) simp_all

lemma new_scheduler: "m_scheduler (thread_pool_new S n k) = sp_clear S (sp_new S)"
  by (simp add: thread_pool_new_def static_size_init_def pool_core_new_def)

context scheduler
begin

lemma bag_step:
  assumes "container_step S c l c'"
  shows "mset (popped [l]) + bag c' \<subseteq># mset (pushed [l]) + bag c" "l \<noteq> Cleared \<Longrightarrow> mset (popped [l]) + bag c' = mset (pushed [l]) + bag c"
  using assms by (cases l; auto simp: push_taken push_refused bag_clear bag_top)+

lemma tasks_conserved:
  "pool_run S ls p \<Longrightarrow> mset (popped ls) + bag (m_scheduler p) \<subseteq># mset (pushed ls) \<and>
    (Cleared \<notin> set ls \<longrightarrow> mset (popped ls) + bag (m_scheduler p) = mset (pushed ls))"
proof (induction rule: pool_run.induct)
  case (Step ls p l p')
  note b = bag_step[OF pool_refines_container[OF Step(2)]]
  have "mset (popped ls) + (mset (popped [l]) + bag (m_scheduler p')) \<subseteq># mset (popped ls) + (mset (pushed [l]) + bag (m_scheduler p))"
    using b(1) by simp
  also have "\<dots> = mset (pushed [l]) + (mset (popped ls) + bag (m_scheduler p))" by (simp add: ac_simps)
  also have "\<dots> \<subseteq># mset (pushed [l]) + mset (pushed ls)" using Step(3) by simp
  finally have "mset (popped (ls @ [l])) + bag (m_scheduler p') \<subseteq># mset (pushed (ls @ [l]))" by (simp add: ac_simps)
  moreover have "mset (popped (ls @ [l])) + bag (m_scheduler p') = mset (pushed (ls @ [l]))" if "Cleared \<notin> set (ls @ [l])"
  proof -
    have "mset (popped ls) + (mset (popped [l]) + bag (m_scheduler p')) = mset (popped ls) + (mset (pushed [l]) + bag (m_scheduler p))"
      using b(2) that by auto
    also have "\<dots> = mset (pushed [l]) + mset (pushed ls)" using Step(3) that by (simp add: ac_simps)
    finally show ?thesis by (simp add: ac_simps)
  qed
  ultimately show ?case by blast
qed (simp add: new_scheduler bag_clear)

end

text \<open>The three policies keep the contract.\<close>

lemma mset_prio_insert: "mset (prio_insert t xs) = add_mset t (mset xs)"
  by (induction xs) (simp_all add: add_mset_commute)

lemma mset_hd_tl: "c \<noteq> [] \<Longrightarrow> mset c = add_mset (hd c) (mset (tl c))"
  by (cases c) simp_all

lemma prio_clear_Nil [simp]: "prio_clear xs = []"
  by (induction xs) simp_all

interpretation fifo: scheduler fifo_scheduler mset
  by unfold_locales (auto simp: fifo_scheduler_def mset_hd_tl)

interpretation lifo: scheduler lifo_scheduler mset
  by unfold_locales (auto simp: lifo_scheduler_def mset_hd_tl)

interpretation prio: scheduler prio_scheduler mset
  by unfold_locales (auto simp: prio_scheduler_def mset_prio_insert mset_hd_tl)

lemma fifo_simps [simp]: "sp_push fifo_scheduler t c = (True, c @ [t])" "sp_pop fifo_scheduler c = tl c" "sp_top fifo_scheduler c = hd c"
  "sp_empty fifo_scheduler c \<longleftrightarrow> c = []" "sp_clear fifo_scheduler c = []" "sp_new fifo_scheduler = []" "sp_set fifo_scheduler t \<longleftrightarrow> t \<noteq> None"
  "sp_size fifo_scheduler c = of_nat (length c)"
  by (simp_all add: fifo_scheduler_def)

text \<open>The priority queue hands out a task that no other one exceeds.\<close>

lemma prio_insert_sorted:
  "sorted_wrt (\<lambda>x y. \<not> prio_less x y) xs \<Longrightarrow> sorted_wrt (\<lambda>x y. \<not> prio_less x y) (prio_insert t xs)"
proof (induction xs)
  case (Cons x xs)
  have "set (prio_insert t xs) = insert t (set xs)" using mset_prio_insert[of t xs] by (metis set_mset_add_mset_insert set_mset_mset)
  with Cons show ?case by (fastforce simp: prio_less_def)
qed simp

section \<open>Callers that wait\<close>

text \<open>A caller asleep in \<^verbatim>\<open>wait(0)\<close> has its reason: unless tasks are discarded behind its back, the condition
  it sleeps on still holds.\<close>

definition asleep_in_wait :: "caller \<Rightarrow> bool" where
  "asleep_in_wait x \<longleftrightarrow> (\<exists>cs. x = Asleep (CallWait 0 # cs))"

definition callers_ok :: "('c, 't) scheduling_policy \<Rightarrow> ('c, 't) pool_core \<Rightarrow> bool" where
  "callers_ok S p \<longleftrightarrow> (\<exists>x \<in> set (callers p). asleep_in_wait x) \<longrightarrow> wait_goes_on S 0 p"

lemma callers_okI: "(\<forall>x \<in> set (callers p'). \<not> asleep_in_wait x) \<Longrightarrow> callers_ok S p'"
  by (auto simp: callers_ok_def)

lemma callers_cong:
  assumes "callers_ok S p" and "\<And>x. x \<in> set (callers p') \<Longrightarrow> asleep_in_wait x \<Longrightarrow> x \<in> set (callers p)" and "wait_goes_on S 0 p \<Longrightarrow> wait_goes_on S 0 p'"
  shows "callers_ok S p'"
  using assms by (auto simp: callers_ok_def)

lemma woken_callers [simp]: "\<not> asleep_in_wait (wake_caller x)"
  by (cases x) (auto simp: asleep_in_wait_def)

lemma notified_ok: "callers_ok S (notify_callers p)"
  by (rule callers_okI) (auto simp: notify_callers_def)

lemma busy_active: "counts_ok p \<Longrightarrow> w < length (workers p) \<Longrightarrow> is_busy (workers p ! w) \<Longrightarrow> m_active_worker_count p \<noteq> 0"
  using counts_unat(2)[of p] by (metis cnt_zero nth_mem unat_0)

lemma callers_fetch_loop:
  assumes "callers_ok S p" and "m_active_worker_count p \<noteq> 0"
  shows "callers_ok S (fetch_loop S w p)"
proof (cases "sp_empty S (m_scheduler p) \<and> \<not> m_worker_count p > m_target_worker_count p")
  case True
  then show ?thesis by (simp add: fetch_loop_def notified_ok)
next
  case False
  then show ?thesis using assms(2)
    by (intro callers_cong[OF assms(1)]) (auto simp: fetch_loop_def Let_def set_worker_def wait_goes_on_def split: if_splits)
qed

lemma callers_set:
  assumes "callers_ok S p" and "asleep_in_wait x \<Longrightarrow> wait_goes_on S 0 p"
  shows "callers_ok S (set_caller c x p)"
  using assms set_update_subset_insert[of "callers p" c x] by (fastforce simp: callers_ok_def set_caller_def wait_goes_on_def)

lemma callers_frame:
  assumes "callers_ok S p" and "callers p' = callers p" "m_scheduler p' = m_scheduler p" "m_active_worker_count p' = m_active_worker_count p"
  shows "callers_ok S p'"
  using assms by (simp add: callers_ok_def wait_goes_on_def)

lemma callers_terminate_test: "callers_ok S p \<Longrightarrow> callers_ok S (terminate_test c cs p)"
  by (auto simp: terminate_test_def asleep_in_wait_def intro!: callers_set elim: callers_frame)

lemma callers_call_next:
  assumes "callers_ok S p" and "call_label cs \<noteq> Cleared"
  shows "callers_ok S (call_next S c cs p)"
proof (cases "(S, c, cs, p)" rule: call_next.cases)
  case (5 S' c' wait cs' p')
  have "callers_ok S (notify_all_workers (p\<lparr>m_terminate_all_workers := True, m_target_worker_count := 0\<rparr>))"
    by (rule callers_frame[OF assms(1)]) (simp_all add: notify_all_workers_def)
  with 5 show ?thesis by (auto simp: terminate_all_workers_def Let_def asleep_in_wait_def intro!: callers_terminate_test callers_set)
qed (use assms in \<open>auto simp: wait_test_def asleep_in_wait_def intro!: callers_set\<close>)

lemma callers_resize:
  assumes "counts_ok p" and "callers_ok S p"
  shows "callers_ok S (snd (pool_resize n k p))"
proof -
  have "cnt is_busy (workers p) \<le> cnt is_busy (workers (snd (pool_resize n k p)))" using resize_workers[of n k p] by auto
  then have "m_active_worker_count p \<noteq> 0 \<Longrightarrow> m_active_worker_count (snd (pool_resize n k p)) \<noteq> 0"
    using counts_unat(2)[OF assms(1)] counts_unat(2)[OF counts_resize[OF assms(1), of n k]] by (metis le_zero_eq unat_eq_zero)
  then show ?thesis by (intro callers_cong[OF assms(2)]) (auto simp: wait_goes_on_def)
qed

lemma callers_signed_off: "callers_ok S (sign_off w p)"
  by (simp add: sign_off_def notified_ok)

lemma callers_step:
  assumes "pool_step S p l p'" and "l \<noteq> Cleared" and "callers_ok S p" and "counts_ok p"
    and push: "\<And>t c c' b. sp_push S t c = (b, c') \<Longrightarrow> \<not> sp_empty S c \<Longrightarrow> \<not> sp_empty S c'"
  shows "callers_ok S p'"
  using assms(1-4)
proof (induction rule: pool_step.induct)
  case (Schedule w t p')
  then show ?case
    by (intro callers_cong[OF Schedule(3)]) (auto simp: pool_schedule_def wait_goes_on_def notify_one_worker_def dest: push split: prod.splits bool.splits)
next
  case (Refuse w t p')
  then show ?case
    by (intro callers_cong[OF Refuse(3)]) (auto simp: pool_schedule_def wait_goes_on_def dest: push split: prod.splits bool.splits)
next
  case (Resize n k)
  then show ?case by (simp add: callers_resize)
next
  case (Call cs)
  then show ?case by (auto simp: callers_ok_def wait_goes_on_def asleep_in_wait_def)
next
  case (Fetch w)
  then show ?case using busy_active[of p w] by (auto simp: execute_task_def set_worker_def intro: callers_fetch_loop elim: callers_frame)
next
  case (Wake w)
  have "m_active_worker_count p + 1 \<noteq> 0" using busy_active[OF counts_awake[OF Wake(5,1,2)], of w] Wake(1) by (simp add: set_worker_def)
  then show ?case unfolding woken_up_def
    by (intro callers_fetch_loop callers_cong[OF Wake(4)]) (simp_all add: wait_goes_on_def)
next
  case (Leave w)
  then show ?case by (auto simp: worker_destructed_def Let_def intro: callers_signed_off callers_frame[OF callers_signed_off])
next
  case (Die w n)
  then have "counts_ok (sign_off w p)" by (simp add: counts_sign_off)
  then show ?case by (auto simp: worker_died_unexpectedly_def static_size_died_def Let_def
        intro: callers_resize callers_signed_off callers_frame[OF callers_signed_off])
qed (auto simp: set_worker_def asleep_in_wait_def intro!: callers_call_next callers_terminate_test callers_set elim: callers_frame)

lemma callers_run:
  assumes "pool_run S ls p" and "Cleared \<notin> set ls"
    and "\<And>t c c' b. sp_push S t c = (b, c') \<Longrightarrow> \<not> sp_empty S c \<Longrightarrow> \<not> sp_empty S c'"
  shows "callers_ok S p"
  using assms(1,2)
proof (induction rule: pool_run.induct)
  case (Start n k)
  show ?case by (rule callers_okI) (simp add: thread_pool_new_def static_size_init_def pool_core_new_def)
next
  case (Step ls p l p')
  then show ?case using callers_step[OF Step(2) _ _ counts_run[OF Step(1)] assms(3)] by auto
qed

section \<open>Properties of the pool\<close>

lemma subseq_fifo_step:
  assumes "container_step fifo_scheduler c l c'" and "subseq (xs @ c) ys"
  shows "subseq ((xs @ popped [l]) @ c') (ys @ pushed [l])"
proof (cases l)
  case (Pushed t)
  then show ?thesis using assms subseq_append[of "xs @ c" "[t]" ys] by simp
next
  case Cleared
  have "subseq xs (xs @ c)" by (simp add: subseq_rev_drop_many)
  with Cleared show ?thesis using assms subseq_order.order_trans[of xs "xs @ c" ys] by simp
qed (use assms in auto)

lemma fifo_step:
  assumes "container_step fifo_scheduler c l c'" and "l \<noteq> Cleared" and "xs @ c = ys"
  shows "(xs @ popped [l]) @ c' = ys @ pushed [l]"
  using assms by (cases l) auto

text \<open>C9. Every task is executed at most once and in the order of the calls of \<^verbatim>\<open>schedule\<close>: what the workers
  have fetched, followed by what is pending, is a subsequence of what was scheduled; unless \<^verbatim>\<open>clear\<close> was
  called it is all of it.\<close>

theorem pool_executes_in_order:
  assumes "pool_run fifo_scheduler ls p"
  shows "subseq (popped ls @ m_scheduler p) (pushed ls) \<and> (Cleared \<notin> set ls \<longrightarrow> popped ls @ m_scheduler p = pushed ls)"
  using assms
proof (induction rule: pool_run.induct)
  case (Step ls p l p')
  note c = pool_refines_container[OF Step(2)]
  have "subseq ((popped ls @ popped [l]) @ m_scheduler p') (pushed ls @ pushed [l])" using subseq_fifo_step[OF c] Step(3) by blast
  moreover have "Cleared \<notin> set (ls @ [l]) \<Longrightarrow> (popped ls @ popped [l]) @ m_scheduler p' = pushed ls @ pushed [l]"
    using fifo_step[OF c] Step(3) by auto
  ultimately show ?case by simp
qed (simp add: new_scheduler)

text \<open>C10. The pool keeps its workers at work: while a task is pending and the pool is not being made smaller, some
  worker can fetch the oldest task at once, or every worker is in a task or has left. No worker
  is asleep without another having been woken for each pending task.\<close>

theorem pool_work_conserving:
  assumes "pool_run fifo_scheduler ls p" and "m_scheduler p = t # ts" and "m_worker_count p \<le> m_target_worker_count p"
  shows "(\<exists>p'. pool_step fifo_scheduler p (Popped t) p') \<or> (\<forall>x \<in> set (workers p). (\<exists>u. x = Running u) \<or> x = Leaving \<or> x = Dying \<or> x = Ended)"
proof -
  have fetch: "fetch_label fifo_scheduler p = Popped t" using assms(2) by (simp add: fetch_label_def)
  have "\<exists>p'. pool_step fifo_scheduler p (Popped t) p'" if x: "w < length (workers p)" "workers p ! w = Fetching \<or> workers p ! w = Woken" for w
    using x pool_step.Fetch[OF x(1), of fifo_scheduler] pool_step.Wake[OF x(1), of fifo_scheduler] fetch assms(3) by (auto simp: not_less split: if_splits)
  moreover have "\<exists>w < length (workers p). workers p ! w = Woken" if "Waiting \<in> set (workers p)"
  proof -
    have "sleepers_ok mset p" by (rule fifo.sleepers_run[OF assms(1)])
    moreover have "cnt is_waiting (workers p) \<noteq> 0" using that by (auto simp: cnt_zero intro!: bexI[of _ Waiting])
    ultimately have "cnt is_woken (workers p) \<noteq> 0" using assms(2) by (auto simp: sleepers_ok_def)
    then obtain x where x: "x \<in> set (workers p)" "is_woken x" by (auto simp: cnt_zero)
    from x(2) have "x = Woken" by (cases x) simp_all
    with x(1) show ?thesis by (simp add: in_set_conv_nth)
  qed
  ultimately have "(\<exists>p'. pool_step fifo_scheduler p (Popped t) p') \<or> x \<noteq> Fetching \<and> x \<noteq> Woken \<and> x \<noteq> Waiting" if "x \<in> set (workers p)" for x
    using that by (metis in_set_conv_nth)
  then show ?thesis by (meson worker.exhaust)
qed

text \<open>C11. \<^verbatim>\<open>wait\<close> returns only when nothing is pending and no worker is in a task. Conversely nobody sleeps in
  \<^verbatim>\<open>wait\<close> for nothing: as long as \<^verbatim>\<open>clear\<close> is not called, a sleeping caller's condition still holds, so
  a worker is active or a task is pending.\<close>

theorem wait_returns_when_idle:
  assumes "pool_run fifo_scheduler ls p" and "c < length (callers p)"
  shows "(callers p ! c = Ready (CallWait 0 # cs) \<longrightarrow> callers (call_next fifo_scheduler c (CallWait 0 # cs) p) ! c = Ready cs \<longrightarrow>
      m_scheduler p = [] \<and> (\<forall>x \<in> set (workers p). x = Waiting \<or> x = Woken \<or> x = Ended)) \<and>
    (Cleared \<notin> set ls \<longrightarrow> callers p ! c = Asleep (CallWait 0 # cs) \<longrightarrow>
      m_scheduler p \<noteq> [] \<or> (\<exists>x \<in> set (workers p). x \<noteq> Waiting \<and> x \<noteq> Woken \<and> x \<noteq> Ended))"
proof -
  note n = counts_unat[OF counts_run[OF assms(1)]]
  have busy: "is_busy x \<longleftrightarrow> x \<noteq> Waiting \<and> x \<noteq> Woken \<and> x \<noteq> Ended" for x :: "'a option worker" by (cases x) simp_all
  have idle: "m_active_worker_count p = 0 \<longleftrightarrow> (\<forall>x \<in> set (workers p). \<not> is_busy x)" using n(2) by (metis cnt_zero unat_eq_zero)
  have "\<not> wait_goes_on fifo_scheduler 0 p" if "callers (call_next fifo_scheduler c (CallWait 0 # cs) p) ! c = Ready cs"
    using that assms(2) by (auto simp: wait_test_def set_caller_def split: if_splits)
  moreover have "wait_goes_on fifo_scheduler 0 p" if "Cleared \<notin> set ls" "callers p ! c = Asleep (CallWait 0 # cs)"
  proof -
    have "callers_ok fifo_scheduler p" by (rule callers_run[OF assms(1) that(1)]) auto
    moreover have "Asleep (CallWait 0 # cs) \<in> set (callers p)" using that(2) assms(2) by (metis nth_mem)
    ultimately show ?thesis by (auto simp: callers_ok_def asleep_in_wait_def)
  qed
  ultimately show ?thesis using idle by (auto simp: wait_goes_on_def busy)
qed

text \<open>The comment on \<^verbatim>\<open>wait_for_all_tasks\<close> promises to wait for the termination of the workers. The code does not:
  when its \<^verbatim>\<open>wait\<close> has returned, \<^verbatim>\<open>terminate_all_workers\<close> finds no active worker, joins nobody it has
  not seen end, and returns with all sleeping workers still alive.\<close>

theorem shutdown_leaves_workers:
  assumes "pool_run fifo_scheduler ls p" and "c < length (callers p)" and "callers p ! c = Ready wait_for_all_tasks"
    and "\<not> wait_goes_on fifo_scheduler 0 p"
  shows "\<exists>p1 p2. pool_step fifo_scheduler p Quiet p1 \<and> pool_step fifo_scheduler p1 Quiet p2 \<and> callers p2 ! c = Ready [] \<and>
    cnt is_live (workers p2) = cnt is_live (workers p)"
proof -
  let ?p1 = "call_next fifo_scheduler c wait_for_all_tasks p" and ?cs = "[CallTerminate True]"
  have p1: "?p1 = set_caller c (Ready ?cs) p" using assms(4) by (simp add: wait_for_all_tasks_def wait_test_def)
  have "pool_step fifo_scheduler p Quiet ?p1" using pool_step.Next[OF assms(2,3), of fifo_scheduler] by (simp add: wait_for_all_tasks_def)
  moreover have "pool_step fifo_scheduler ?p1 Quiet (call_next fifo_scheduler c ?cs ?p1)"
    using pool_step.Next[of c ?p1 ?cs fifo_scheduler] assms(2) by (simp add: p1 set_caller_def)
  moreover have "callers (call_next fifo_scheduler c ?cs ?p1) ! c = Ready [] \<and> cnt is_live (workers (call_next fifo_scheduler c ?cs ?p1)) = cnt is_live (workers p)"
    using assms(2,4) by (simp add: p1 terminate_all_workers_def terminate_test_def notify_all_workers_def set_caller_def wait_goes_on_def Let_def)
  ultimately show ?thesis by blast
qed

section \<open>Concrete runs\<close>

text \<open>A pool of one worker is given a task.\<close>

lemma one_worker: "thread_pool_new fifo_scheduler 1 1 = \<lparr>m_worker_count = 1, m_target_worker_count = 1, m_active_worker_count = 1, m_scheduler = [],
    m_terminate_all_workers = False, m_terminated_workers = [], workers = [Fetching], callers = []\<rparr>"
  by (simp add: thread_pool_new_def static_size_init_def pool_resize_def pool_core_new_def create_and_attach_def Let_def)

lemmas pool_eval = execute_task_def fetch_loop_def fetch_label_def set_worker_def notify_callers_def notify_all_workers_def notify_one_worker_def
  pool_schedule_def pool_resize_def worker_destructed_def sign_off_def set_caller_def terminate_all_workers_def terminate_test_def wait_test_def
  wait_goes_on_def create_and_attach_def wake_def Let_def

definition one_sleeping :: "(nat option list, nat option) pool_core" where
  "one_sleeping = \<lparr>m_worker_count = 1, m_target_worker_count = 1, m_active_worker_count = 0, m_scheduler = [],
    m_terminate_all_workers = False, m_terminated_workers = [], workers = [Waiting], callers = []\<rparr>"

lemma run_sleeping: "pool_run fifo_scheduler [Quiet] one_sleeping"
  using pool_run.Step[OF pool_run.Start[of fifo_scheduler 1 1], of Quiet one_sleeping]
    pool_step.Fetch[of 0 "thread_pool_new fifo_scheduler 1 1" fifo_scheduler]
  unfolding one_worker by (simp add: one_sleeping_def pool_eval)

definition one_pending :: "(nat option list, nat option) pool_core" where
  "one_pending = one_sleeping\<lparr>m_scheduler := [Some 7], workers := [Woken]\<rparr>"

lemma run_pending: "pool_run fifo_scheduler [Quiet, Pushed (Some 7)] one_pending"
  using pool_run.Step[OF run_sleeping, of "Pushed (Some 7)" one_pending] pool_step.Schedule[of fifo_scheduler 0 "Some 7" one_sleeping one_pending]
  by (simp add: one_sleeping_def one_pending_def pool_eval)

theorem pool_executes_in_order_witness:
  "pool_run fifo_scheduler [Quiet, Pushed (Some 7)] one_pending \<and> popped [Quiet, Pushed (Some (7 :: nat))] @ m_scheduler one_pending = [Some 7]"
  using pool_executes_in_order[OF run_pending] run_pending by simp

theorem pool_work_conserving_witness: "\<exists>p'. pool_step fifo_scheduler one_pending (Popped (Some 7)) p'"
  using pool_work_conserving[OF run_pending, of "Some 7" "[]"] by (simp add: one_pending_def one_sleeping_def)

text \<open>A thread calls \<^verbatim>\<open>shutdown\<close> on the sleeping pool.\<close>

lemma run_shutdown: "pool_run fifo_scheduler [Quiet, Quiet] (one_sleeping\<lparr>callers := [Ready wait_for_all_tasks]\<rparr>)"
  using pool_run.Step[OF run_sleeping pool_step.Call[of fifo_scheduler one_sleeping wait_for_all_tasks]] by (simp add: one_sleeping_def)

theorem shutdown_leaves_workers_witness:
  "\<exists>p1 p2. pool_step fifo_scheduler (one_sleeping\<lparr>callers := [Ready wait_for_all_tasks]\<rparr>) Quiet p1 \<and> pool_step fifo_scheduler p1 Quiet p2 \<and>
     callers p2 ! 0 = Ready [] \<and> cnt is_live (workers p2) = 1"
  using shutdown_leaves_workers[OF run_shutdown, of 0] by (simp add: one_sleeping_def wait_goes_on_def)

theorem wait_returns_when_idle_witness:
  "m_scheduler (one_sleeping\<lparr>callers := [Ready wait_for_all_tasks]\<rparr>) = [] \<and>
     workers (one_sleeping\<lparr>callers := [Ready wait_for_all_tasks]\<rparr>) ! 0 \<in> {Waiting, Woken, Ended}"
  using wait_returns_when_idle[OF run_shutdown, of 0 "[CallTerminate True]"]
  by (simp add: one_sleeping_def wait_for_all_tasks_def pool_eval)

text \<open>Two workers and a call of \<^verbatim>\<open>resize(1)\<close>: each worker compares the counters before the other has signed off.\<close>

definition both_leaving :: "(nat option list, nat option) pool_core" where
  "both_leaving = \<lparr>m_worker_count = 2, m_target_worker_count = 1, m_active_worker_count = 2, m_scheduler = [],
    m_terminate_all_workers = False, m_terminated_workers = [], workers = [Leaving, Leaving], callers = []\<rparr>"

lemma run_both_leaving: "pool_run fifo_scheduler [Quiet, Quiet, Quiet] both_leaving"
proof -
  let ?p = "\<lambda>k ws. \<lparr>m_worker_count = 2, m_target_worker_count = k, m_active_worker_count = 2, m_scheduler = [] :: nat option list,
    m_terminate_all_workers = False, m_terminated_workers = [], workers = ws, callers = []\<rparr>"
  have two: "\<not> (2 :: u64) \<le> 1" by (simp add: word_le_nat_alt)
  have "thread_pool_new fifo_scheduler 2 2 = ?p 2 [Fetching, Fetching]"
    by (simp add: thread_pool_new_def static_size_init_def pool_core_new_def pool_eval eval_nat_numeral)
  moreover have "pool_run fifo_scheduler [] (thread_pool_new fifo_scheduler 2 2 :: (nat option list, nat option) pool_core)" by (rule pool_run.Start)
  ultimately have "pool_run fifo_scheduler [] (?p 2 [Fetching, Fetching])" by simp
  from pool_run.Step[OF this pool_step.Resize[of _ _ 0 1]]
  have "pool_run fifo_scheduler [Quiet] (?p 1 [Fetching, Fetching])" by (simp add: pool_eval two)
  from pool_run.Step[OF this pool_step.Fetch[of 0]]
  have "pool_run fifo_scheduler [Quiet, Quiet] (?p 1 [Leaving, Fetching])" by (simp add: pool_eval)
  from pool_run.Step[OF this pool_step.Fetch[of 1]]
  show ?thesis by (simp add: pool_eval both_leaving_def)
qed

text \<open>A pool made smaller can lose all its workers: while two workers both still find themselves one too
  many, both leave. The pool then has a target of one worker, accepts a task, and has nobody
  to execute it.\<close>

theorem shrinking_loses_all_workers:
  "\<exists>ls p. pool_run fifo_scheduler ls p \<and> m_target_worker_count p = 1 \<and> \<not> m_terminate_all_workers p \<and> m_scheduler p = [Some (7 :: nat)] \<and>
     workers p = [Ended, Ended]"
proof -
  let ?p = "\<lambda>n ws. \<lparr>m_worker_count = n, m_target_worker_count = 1, m_active_worker_count = n, m_scheduler = [] :: nat option list,
    m_terminate_all_workers = False, m_terminated_workers = [], workers = ws, callers = []\<rparr>"
  have "pool_run fifo_scheduler [Quiet, Quiet, Quiet] (?p 2 [Leaving, Leaving])" using run_both_leaving by (simp add: both_leaving_def)
  from pool_run.Step[OF this pool_step.Leave[of 0]]
  have "pool_run fifo_scheduler [Quiet, Quiet, Quiet, Quiet] (?p 1 [Ended, Leaving])" by (simp add: pool_eval)
  from pool_run.Step[OF this pool_step.Leave[of 1]]
  have "pool_run fifo_scheduler [Quiet, Quiet, Quiet, Quiet, Quiet] (?p 0 [Ended, Ended])" by (simp add: pool_eval)
  from pool_run.Step[OF this pool_step.Schedule[of fifo_scheduler 0 "Some 7"]]
  show ?thesis by (intro exI) (auto simp: pool_eval)
qed

end
