(* ===== verification/QmfLibrary.thy ===== *)
theory QmfLibrary
  imports ProviderState
begin

text \<open>
  What the management classes of \<^verbatim>\<open>lib/gen/qmf\<close> take from the broker's library, as a parameter:
  \<^verbatim>\<open>qpid::management::Buffer\<close>, \<^verbatim>\<open>qpid::types::Variant\<close>, \<^verbatim>\<open>ObjectId\<close> and the base class
  \<^verbatim>\<open>ManagementObject\<close>. \<open>qmf_ok\<close> names what the library documents: a put appends the encoding of its
  argument as long as there is room, the get of the same kind takes it off again, the
  widths of the encodings, and the conversions of a variant undo its constructors.
\<close>

section \<open>The library\<close>

text \<open>Buffers are values of type \<open>'b\<close>, variants of type \<open>'v\<close>, object ids of type \<open>'o\<close>; \<open>'h\<close> are
  the time stamps and the own id of a management object. \<open>new_buffer\<close> is a buffer to write to,
  over an array of the given size; \<open>wrap_buffer\<close> one to read what an array holds; \<open>rewind\<close>
  is \<^verbatim>\<open>reset\<close>.\<close>

record ('b, 'v, 'o, 'h) qmf =
  new_buffer :: "nat \<Rightarrow> 'b"
  wrap_buffer :: "bytes \<Rightarrow> 'b"
  put_Octet :: "u8 \<Rightarrow> ('b, unit) comp"
  put_Short :: "16 word \<Rightarrow> ('b, unit) comp"
  put_Long :: "u32 \<Rightarrow> ('b, unit) comp"
  put_LongLong :: "u64 \<Rightarrow> ('b, unit) comp"
  put_ShortString :: "string \<Rightarrow> ('b, unit) comp"
  put_Bin128 :: "u8 list \<Rightarrow> ('b, unit) comp"
  put_RawData :: "bytes \<Rightarrow> ('b, unit) comp"
  put_Map :: "(string \<rightharpoonup> 'v) \<Rightarrow> ('b, unit) comp"
  get_Octet :: "('b, u8) comp"
  get_Long :: "('b, u32) comp"
  get_ShortString :: "('b, string) comp"
  get_RawData :: "u32 \<Rightarrow> ('b, bytes) comp"
  get_Position :: "'b \<Rightarrow> u32"
  rewind :: "'b \<Rightarrow> 'b"
  of_string :: "string \<Rightarrow> 'v"
  of_uint8 :: "u8 \<Rightarrow> 'v"
  of_int32 :: "int \<Rightarrow> 'v"
  of_uint32 :: "u32 \<Rightarrow> 'v"
  of_uint64 :: "u64 \<Rightarrow> 'v"
  of_boolean :: "bool \<Rightarrow> 'v"
  of_oid :: "'o \<Rightarrow> 'v"
  get_string :: "'v \<Rightarrow> exn + string"
  to_uint32 :: "'v \<Rightarrow> exn + u32"
  to_boolean :: "'v \<Rightarrow> exn + bool"
  to_oid :: "'v \<Rightarrow> exn + 'o"
  null_oid :: 'o
  oid_encode :: "'o \<Rightarrow> bytes"
  oid_decode :: "bytes \<Rightarrow> exn + 'o"
  oid_encodedSize :: u32
  getV2Key :: "'o \<Rightarrow> string"
  writeTimestampsSize :: u32
  writeTimestamps :: "'h \<Rightarrow> bytes"
  readTimestamps :: "bytes \<Rightarrow> ('h, unit) comp"
  status_unknown_method :: u32
  StatusText :: "u32 \<Rightarrow> string"
  CLASS_KIND_TABLE :: u8
  CLASS_KIND_EVENT :: u8
  TYPE_REF :: u8
  TYPE_SSTR :: u8
  TYPE_U32 :: u8
  TYPE_U64 :: u8
  TYPE_BOOL :: u8
  TYPE_DELTATIME :: u8
  ACCESS_RO :: u8

section \<open>Sequences of computations\<close>

definition seqE :: "('s, unit) comp list \<Rightarrow> ('s, unit) comp" where
  "seqE ms = foldr thenE ms (retE ())"

lemma seqE_simps [simp]: "seqE [] = retE ()" "seqE (m # ms) = thenE m (seqE ms)"
  by (simp_all add: seqE_def)

lemma seqE_run: "m s = (Inr (), s') \<Longrightarrow> seqE (m # ms) s = seqE ms s'"
  by (simp add: thenE_def bindE_def)

text \<open>Code that reads from a buffer and puts what it has read into an object: the state is the pair.\<close>

definition from_buf :: "('b, 'a) comp \<Rightarrow> ('a \<Rightarrow> ('s, unit) comp) \<Rightarrow> ('s \<times> 'b, unit) comp" where
  "from_buf g f = (\<lambda>(s, b). case g b of
      (Inl e, b') \<Rightarrow> (Inl e, (s, b'))
    | (Inr x, b') \<Rightarrow> (case f x s of (r, s') \<Rightarrow> (r, (s', b'))))"

text \<open>The frame of every writer: a buffer of 65536 bytes on the stack, the puts, the position
  read, the buffer rewound and its bytes up to the position taken out.\<close>

definition bufSize :: nat where
  "bufSize = 65536"

definition filled :: "('b, 'v, 'o, 'h) qmf \<Rightarrow> ('b, unit) comp list \<Rightarrow> exn + 'b" where
  "filled L ps = (case seqE ps (new_buffer L bufSize) of (Inl e, _) \<Rightarrow> Inl e | (Inr _, b) \<Rightarrow> Inr b)"

definition taken :: "('b, 'v, 'o, 'h) qmf \<Rightarrow> 'b \<Rightarrow> exn + bytes" where
  "taken L b = fst (get_RawData L (get_Position L b) (rewind L b))"

definition written :: "('b, 'v, 'o, 'h) qmf \<Rightarrow> ('b, unit) comp list \<Rightarrow> exn + bytes" where
  "written L ps = (case filled L ps of Inl e \<Rightarrow> Inl e | Inr b \<Rightarrow> taken L b)"

text \<open>\<^verbatim>\<open>map[k] = v\<close>, one after the other, and a field that is decoded only when its key is there.\<close>

definition assign_all :: "(string \<times> 'v) list \<Rightarrow> (string \<rightharpoonup> 'v) \<Rightarrow> (string \<rightharpoonup> 'v)" where
  "assign_all kvs m = foldl (\<lambda>m (k, v). m(k \<mapsto> v)) m kvs"

definition decode_key :: "(string \<rightharpoonup> 'v) \<Rightarrow> string \<Rightarrow> ('v \<Rightarrow> exn + 'a) \<Rightarrow> ('a \<Rightarrow> 's \<Rightarrow> 's) \<Rightarrow> ('s, unit) comp" where
  "decode_key m k g f = (case m k of None \<Rightarrow> retE () | Some v \<Rightarrow> bindE (liftE (g v)) (\<lambda>x. modE (f x)))"

lemma assign_all_simps [simp]:
  "assign_all [] m = m" "assign_all ((k, v) # kvs) m = assign_all kvs (m(k \<mapsto> v))"
  by (simp_all add: assign_all_def)

lemma assign_all_other: "k \<notin> fst ` set kvs \<Longrightarrow> assign_all kvs m k = m k"
  by (induction kvs arbitrary: m) auto

lemma assign_all_at: "distinct (map fst kvs) \<Longrightarrow> (k, v) \<in> set kvs \<Longrightarrow> assign_all kvs m k = Some v"
proof (induction kvs arbitrary: m)
  case (Cons x kvs)
  obtain k' v' where x: "x = (k', v')" by (cases x)
  show ?case
  proof (cases "(k, v) \<in> set kvs")
    case True
    then show ?thesis using Cons x by simp
  next
    case False
    then have "k = k'" "v = v'" using Cons.prems x by auto
    moreover have "k' \<notin> fst ` set kvs" using Cons.prems x by simp
    ultimately show ?thesis using x by (simp add: assign_all_other)
  qed
qed simp

lemma assign_all_map_of: "distinct (map fst kvs) \<Longrightarrow> assign_all kvs m = m ++ map_of kvs"
proof
  fix k assume d: "distinct (map fst kvs)"
  show "assign_all kvs m k = (m ++ map_of kvs) k"
  proof (cases "map_of kvs k")
    case None
    then have "k \<notin> fst ` set kvs" by (simp add: map_of_eq_None_iff)
    then show ?thesis using None by (simp add: map_add_def assign_all_other)
  next
    case (Some v)
    then show ?thesis using assign_all_at[OF d] map_of_SomeD by (fastforce simp: map_add_def)
  qed
qed

section \<open>What the library documents\<close>

text \<open>\<open>H n w b\<close>: buffer \<open>b\<close>, over \<open>n\<close> bytes, has been given the bytes \<open>w\<close>; \<open>R r b\<close>: the bytes \<open>r\<close>
  are still to be read from \<open>b\<close>. \<open>puts\<close> and \<open>gets\<close> are the contracts of one put and one get.\<close>

definition puts :: "(nat \<Rightarrow> bytes \<Rightarrow> 'b \<Rightarrow> bool) \<Rightarrow> ('b, unit) comp \<Rightarrow> bytes \<Rightarrow> bool" where
  "puts H p bs = (\<forall>n w b. H n w b \<longrightarrow> length w + length bs \<le> n \<longrightarrow> (\<exists>b'. p b = (Inr (), b') \<and> H n (w @ bs) b'))"

definition gets :: "(bytes \<Rightarrow> 'b \<Rightarrow> bool) \<Rightarrow> ('b, 'a) comp \<Rightarrow> bytes \<Rightarrow> 'a \<Rightarrow> bool" where
  "gets R g bs x = (\<forall>r b. R (bs @ r) b \<longrightarrow> (\<exists>b'. g b = (Inr x, b') \<and> R r b'))"

definition codec_ok ::
  "(nat \<Rightarrow> bytes \<Rightarrow> 'b \<Rightarrow> bool) \<Rightarrow> (bytes \<Rightarrow> 'b \<Rightarrow> bool) \<Rightarrow> ('a \<Rightarrow> bool) \<Rightarrow> ('a \<Rightarrow> ('b, unit) comp) \<Rightarrow> ('b, 'a) comp \<Rightarrow>
   ('a \<Rightarrow> bytes) \<Rightarrow> ('a \<Rightarrow> nat) \<Rightarrow> bool" where
  "codec_ok H R ok p g e n = (\<forall>x. ok x \<longrightarrow> puts H (p x) (e x) \<and> gets R g (e x) x \<and> length (e x) = n x)"

text \<open>The encodings of the scalar types.\<close>

record encoding =
  enc_octet :: "u8 \<Rightarrow> bytes"
  enc_long :: "u32 \<Rightarrow> bytes"
  enc_longlong :: "u64 \<Rightarrow> bytes"
  enc_sstr :: "string \<Rightarrow> bytes"

definition buffer_ok ::
  "('b, 'v, 'o, 'h) qmf \<Rightarrow> (nat \<Rightarrow> bytes \<Rightarrow> 'b \<Rightarrow> bool) \<Rightarrow> (bytes \<Rightarrow> 'b \<Rightarrow> bool) \<Rightarrow> encoding \<Rightarrow> bool" where
  "buffer_ok L H R E \<longleftrightarrow>
     (\<forall>n. H n [] (new_buffer L n)) \<and> (\<forall>bs. R bs (wrap_buffer L bs)) \<and>
     (\<forall>n w b. H n w b \<longrightarrow> length w < 2 ^ 32 \<longrightarrow> fst (get_RawData L (get_Position L b) (rewind L b)) = Inr w) \<and>
     (\<forall>bs. puts H (put_RawData L bs) bs) \<and>
     (\<forall>bs n. length bs = unat n \<longrightarrow> gets R (get_RawData L n) bs bs) \<and>
     codec_ok H R (\<lambda>_. True) (put_Octet L) (get_Octet L) (enc_octet E) (\<lambda>_. 1) \<and>
     codec_ok H R (\<lambda>_. True) (put_Long L) (get_Long L) (enc_long E) (\<lambda>_. 4) \<and>
     (\<forall>x. puts H (put_LongLong L x) (enc_longlong E x) \<and> length (enc_longlong E x) = 8) \<and>
     codec_ok H R (\<lambda>s. length s \<le> 255) (put_ShortString L) (get_ShortString L) (enc_sstr E) (\<lambda>s. 1 + length s)"

definition object_ok :: "('b, 'v, 'o, 'h) qmf \<Rightarrow> bool" where
  "object_ok L \<longleftrightarrow>
     oid_encodedSize L = 16 \<and> writeTimestampsSize L \<le> 1000 \<and>
     (\<forall>x. length (oid_encode L x) = 16 \<and> oid_decode L (oid_encode L x) = Inr x) \<and>
     (\<forall>h. length (writeTimestamps L h) = unat (writeTimestampsSize L)) \<and>
     (\<forall>h h'. readTimestamps L (writeTimestamps L h) h' = (Inr (), h))"

definition variant_ok :: "('b, 'v, 'o, 'h) qmf \<Rightarrow> bool" where
  "variant_ok L \<longleftrightarrow>
     (\<forall>x. get_string L (of_string L x) = Inr x) \<and> (\<forall>x. to_uint32 L (of_uint32 L x) = Inr x) \<and>
     (\<forall>x. to_boolean L (of_boolean L x) = Inr x) \<and> (\<forall>x. to_oid L (of_oid L x) = Inr x)"

section \<open>Writers and readers\<close>

lemma puts_seq:
  assumes "list_all2 (puts H) ps bss"
  shows "puts H (seqE ps) (concat bss)"
  using assms
proof (induction rule: list_all2_induct)
  case Nil
  then show ?case by (auto simp: puts_def retE_def)
next
  case (Cons p ps bs bss)
  show ?case
    unfolding puts_def
  proof (intro allI impI)
    fix n w b assume b: "H n w b" and fits: "length w + length (concat (bs # bss)) \<le> n"
    then obtain b1 where b1: "p b = (Inr (), b1)" "H n (w @ bs) b1"
      using Cons.hyps(1) by (fastforce simp: puts_def)
    then obtain b2 where "seqE ps b1 = (Inr (), b2)" "H n ((w @ bs) @ concat bss) b2"
      using Cons.IH fits unfolding puts_def by (metis append_assoc concat.simps(2) length_append add.assoc)
    then show "\<exists>b'. seqE (p # ps) b = (Inr (), b') \<and> H n (w @ concat (bs # bss)) b'"
      using b1 by (simp add: thenE_def bindE_def)
  qed
qed

lemma filled_puts:
  assumes "buffer_ok L H R E" and "list_all2 (puts H) ps bss" and "length (concat bss) \<le> bufSize"
  shows "\<exists>b. filled L ps = Inr b \<and> taken L b = Inr (concat bss)"
proof -
  have "H bufSize [] (new_buffer L bufSize)" using assms(1) by (simp add: buffer_ok_def)
  then obtain b where b: "seqE ps (new_buffer L bufSize) = (Inr (), b)" "H bufSize (concat bss) b"
    using puts_seq[OF assms(2)] assms(3) by (fastforce simp: puts_def)
  have "length (concat bss) < 2 ^ 32" using assms(3) by (simp add: bufSize_def)
  then have "taken L b = Inr (concat bss)"
    using assms(1) b(2) by (auto simp: buffer_ok_def taken_def)
  then show ?thesis using b(1) by (simp add: filled_def)
qed

lemma written_puts:
  "buffer_ok L H R E \<Longrightarrow> list_all2 (puts H) ps bss \<Longrightarrow> length (concat bss) \<le> bufSize \<Longrightarrow> written L ps = Inr (concat bss)"
  using filled_puts by (fastforce simp: written_def)

text \<open>A reader takes an encoding off the buffer and updates the object.\<close>

definition reads :: "(bytes \<Rightarrow> 'b \<Rightarrow> bool) \<Rightarrow> ('s \<times> 'b, unit) comp \<Rightarrow> bytes \<Rightarrow> ('s \<Rightarrow> 's) \<Rightarrow> bool" where
  "reads R m bs f = (\<forall>r b s. R (bs @ r) b \<longrightarrow> (\<exists>b'. m (s, b) = (Inr (), (f s, b')) \<and> R r b'))"

lemma reads_Nil: "reads R (seqE []) [] (\<lambda>s. s)"
  by (simp add: reads_def retE_def)

lemma reads_Cons:
  assumes "gets R g bs x" and "\<And>s. f x s = (Inr (), h s)" and "reads R (seqE ms) cs k"
  shows "reads R (seqE (from_buf g f # ms)) (bs @ cs) (\<lambda>s. k (h s))"
  unfolding reads_def
proof (intro allI impI)
  fix r b s assume "R ((bs @ cs) @ r) b"
  then obtain b1 where "g b = (Inr x, b1)" "R (cs @ r) b1" using assms(1) by (auto simp: gets_def)
  then show "\<exists>b'. seqE (from_buf g f # ms) (s, b) = (Inr (), (k (h s), b')) \<and> R r b'"
    using assms(2,3) by (simp add: reads_def thenE_def bindE_def from_buf_def)
qed

lemma unat_size: "x = of_nat n \<Longrightarrow> n < 3000 \<Longrightarrow> n = unat (x :: u32)"
  by (simp add: unat_of_nat take_bit_nat_eq_self)

lemma codecD:
  assumes "codec_ok H R ok p g e n" and "ok x"
  shows "puts H (p x) (e x)" and "gets R g (e x) x" and "length (e x) = n x"
  using assms by (simp_all add: codec_ok_def)

lemma buffer_okD:
  assumes "buffer_ok L H R E"
  shows "puts H (put_RawData L bs) bs" and "length bs = unat n \<Longrightarrow> gets R (get_RawData L n) bs bs"
    and "puts H (put_Octet L o8) (enc_octet E o8)" and "gets R (get_Octet L) (enc_octet E o8) o8" and "length (enc_octet E o8) = 1"
    and "puts H (put_Long L x) (enc_long E x)" and "gets R (get_Long L) (enc_long E x) x" and "length (enc_long E x) = 4"
    and "puts H (put_LongLong L y) (enc_longlong E y)" and "length (enc_longlong E y) = 8"
    and "length s \<le> 255 \<Longrightarrow> puts H (put_ShortString L s) (enc_sstr E s)"
    and "length s \<le> 255 \<Longrightarrow> gets R (get_ShortString L) (enc_sstr E s) s"
    and "length s \<le> 255 \<Longrightarrow> length (enc_sstr E s) = 1 + length s"
  using assms by (auto simp: buffer_ok_def codec_ok_def)

text \<open>The readers of the scalar types.\<close>

lemma reads_scalar:
  assumes "buffer_ok L H R E" and "reads R (seqE ms) cs k"
  shows "reads R (seqE (from_buf (get_Long L) (\<lambda>x. modE (f x)) # ms)) (enc_long E x @ cs) (\<lambda>s. k (f x s))"
    and "reads R (seqE (from_buf (get_Octet L) (\<lambda>x. modE (f' x)) # ms)) (enc_octet E o8 @ cs) (\<lambda>s. k (f' o8 s))"
    and "length t \<le> 255 \<Longrightarrow> reads R (seqE (from_buf (get_ShortString L) (\<lambda>x. modE (f'' x)) # ms)) (enc_sstr E t @ cs) (\<lambda>s. k (f'' t s))"
  by (rule reads_Cons[OF _ _ assms(2)]; simp add: buffer_okD[OF assms(1)] modE_def)+

lemma reads_oid:
  assumes "buffer_ok L H R E" and "object_ok L" and "reads R (seqE ms) cs k"
  shows "reads R (seqE (from_buf (get_RawData L (oid_encodedSize L)) (\<lambda>s. bindE (liftE (oid_decode L s)) (\<lambda>x. modE (f x))) # ms))
    (oid_encode L x @ cs) (\<lambda>s. k (f x s))"
proof (rule reads_Cons[OF _ _ assms(3)])
  show "gets R (get_RawData L (oid_encodedSize L)) (oid_encode L x) (oid_encode L x)"
    using assms(2) by (intro buffer_okD(2)[OF assms(1)]) (simp add: object_ok_def)
qed (use assms(2) in \<open>simp add: object_ok_def modE_def bindE_def liftE_def\<close>)

lemma reads_stamps:
  assumes "buffer_ok L H R E" and "object_ok L" and "reads R (seqE ms) cs k"
  shows "reads R (seqE (from_buf (get_RawData L (writeTimestampsSize L))
      (\<lambda>tbuf s. case readTimestamps L tbuf (g s) of (r, h) \<Rightarrow> (r, f h s)) # ms)) (writeTimestamps L h @ cs) (\<lambda>s. k (f h s))"
proof (rule reads_Cons[OF _ _ assms(3)])
  show "gets R (get_RawData L (writeTimestampsSize L)) (writeTimestamps L h) (writeTimestamps L h)"
    using assms(2) by (intro buffer_okD(2)[OF assms(1)]) (simp add: object_ok_def)
qed (use assms(2) in \<open>simp add: object_ok_def\<close>)

end
