(* ===== verification/ManagedStatistics.thy ===== *)
theory ManagedStatistics
  imports QmfLibrary
begin

text \<open>
  The statistics of the management object of a provider (\<^verbatim>\<open>StorageProvider.h\<close> and
  \<^verbatim>\<open>StorageProvider.cpp\<close> under \<^verbatim>\<open>lib/gen/qmf\<close>). Every thread counts in a record of its own, made the
  first time it counts; a report adds the records up. The locale \<open>statistic\<close> is what makes
  this exact: a field that adds up by a commutative operation whose neutral value a new
  record starts with.
\<close>

section \<open>PerThreadStats\<close>

record per_thread_stats =
  pendingAsyncEnqueue :: u32
  pendingAsyncDequeue :: u32
  executedEnqueue :: u32
  executedDequeue :: u32
  skippedEnqueue :: u32
  skippedDequeue :: u32
  totalEnqueueTime :: u64
  totalDequeueTime :: u64
  enqueueTimeCount :: u64
  enqueueTimeTotal :: u64
  enqueueTimeMin :: u64
  enqueueTimeMax :: u64
  dequeueTimeCount :: u64
  dequeueTimeTotal :: u64
  dequeueTimeMin :: u64
  dequeueTimeMax :: u64

text \<open>The values a new record and the totals of a report start with; \<^verbatim>\<open>-1\<close> is
  \<^verbatim>\<open>std::numeric_limits<uint64_t>::max()\<close>.\<close>

definition initial_stats :: per_thread_stats where
  "initial_stats =
     \<lparr>pendingAsyncEnqueue = 0, pendingAsyncDequeue = 0, executedEnqueue = 0, executedDequeue = 0,
      skippedEnqueue = 0, skippedDequeue = 0, totalEnqueueTime = 0, totalDequeueTime = 0,
      enqueueTimeCount = 0, enqueueTimeTotal = 0, enqueueTimeMin = -1, enqueueTimeMax = 0,
      dequeueTimeCount = 0, dequeueTimeTotal = 0, dequeueTimeMin = -1, dequeueTimeMax = 0\<rparr>"

text \<open>The body of the loop of \<^verbatim>\<open>aggregatePerThreadStats\<close>, and the function: no record, nothing added.\<close>

definition add_stats :: "per_thread_stats \<Rightarrow> per_thread_stats \<Rightarrow> per_thread_stats" where
  "add_stats totals t =
     \<lparr>pendingAsyncEnqueue = pendingAsyncEnqueue totals + pendingAsyncEnqueue t,
      pendingAsyncDequeue = pendingAsyncDequeue totals + pendingAsyncDequeue t,
      executedEnqueue = executedEnqueue totals + executedEnqueue t,
      executedDequeue = executedDequeue totals + executedDequeue t,
      skippedEnqueue = skippedEnqueue totals + skippedEnqueue t,
      skippedDequeue = skippedDequeue totals + skippedDequeue t,
      totalEnqueueTime = totalEnqueueTime totals + totalEnqueueTime t,
      totalDequeueTime = totalDequeueTime totals + totalDequeueTime t,
      enqueueTimeCount = enqueueTimeCount totals + enqueueTimeCount t,
      enqueueTimeTotal = enqueueTimeTotal totals + enqueueTimeTotal t,
      enqueueTimeMin = (if enqueueTimeMin totals > enqueueTimeMin t then enqueueTimeMin t else enqueueTimeMin totals),
      enqueueTimeMax = (if enqueueTimeMax totals < enqueueTimeMax t then enqueueTimeMax t else enqueueTimeMax totals),
      dequeueTimeCount = dequeueTimeCount totals + dequeueTimeCount t,
      dequeueTimeTotal = dequeueTimeTotal totals + dequeueTimeTotal t,
      dequeueTimeMin = (if dequeueTimeMin totals > dequeueTimeMin t then dequeueTimeMin t else dequeueTimeMin totals),
      dequeueTimeMax = (if dequeueTimeMax totals < dequeueTimeMax t then dequeueTimeMax t else dequeueTimeMax totals)\<rparr>"

definition aggregatePerThreadStats :: "per_thread_stats option list \<Rightarrow> per_thread_stats" where
  "aggregatePerThreadStats arr =
     foldl (\<lambda>totals threadStats. case threadStats of None \<Rightarrow> totals | Some t \<Rightarrow> add_stats totals t) initial_stats arr"

text \<open>The maintenance of the hi-lo statistics that ends a report.\<close>

definition reset_hilo :: "per_thread_stats \<Rightarrow> per_thread_stats" where
  "reset_hilo t = t\<lparr>enqueueTimeCount := 0, enqueueTimeTotal := 0, enqueueTimeMin := -1, enqueueTimeMax := 0,
                    dequeueTimeCount := 0, dequeueTimeTotal := 0, dequeueTimeMin := -1, dequeueTimeMax := 0\<rparr>"

section \<open>The calls\<close>

text \<open>A call of one of the \<^verbatim>\<open>inc_\<close>, \<^verbatim>\<open>dec_\<close> and \<^verbatim>\<open>set_\<close> methods of the statistics.\<close>

datatype stat_call =
    Inc_pendingAsyncEnqueue u32 | Dec_pendingAsyncEnqueue u32
  | Inc_pendingAsyncDequeue u32 | Dec_pendingAsyncDequeue u32
  | Inc_executedEnqueue u32 | Dec_executedEnqueue u32
  | Inc_executedDequeue u32 | Dec_executedDequeue u32
  | Inc_skippedEnqueue u32 | Dec_skippedEnqueue u32
  | Inc_skippedDequeue u32 | Dec_skippedDequeue u32
  | Inc_totalEnqueueTime u64 | Dec_totalEnqueueTime u64
  | Inc_totalDequeueTime u64 | Dec_totalDequeueTime u64
  | Set_enqueueTime u64 | Set_dequeueTime u64

text \<open>What it does to the record of the calling thread.\<close>

fun on_stats :: "stat_call \<Rightarrow> per_thread_stats \<Rightarrow> per_thread_stats" where
  "on_stats (Inc_pendingAsyncEnqueue by) t = t\<lparr>pendingAsyncEnqueue := pendingAsyncEnqueue t + by\<rparr>"
| "on_stats (Dec_pendingAsyncEnqueue by) t = t\<lparr>pendingAsyncEnqueue := pendingAsyncEnqueue t - by\<rparr>"
| "on_stats (Inc_pendingAsyncDequeue by) t = t\<lparr>pendingAsyncDequeue := pendingAsyncDequeue t + by\<rparr>"
| "on_stats (Dec_pendingAsyncDequeue by) t = t\<lparr>pendingAsyncDequeue := pendingAsyncDequeue t - by\<rparr>"
| "on_stats (Inc_executedEnqueue by) t = t\<lparr>executedEnqueue := executedEnqueue t + by\<rparr>"
| "on_stats (Dec_executedEnqueue by) t = t\<lparr>executedEnqueue := executedEnqueue t - by\<rparr>"
| "on_stats (Inc_executedDequeue by) t = t\<lparr>executedDequeue := executedDequeue t + by\<rparr>"
| "on_stats (Dec_executedDequeue by) t = t\<lparr>executedDequeue := executedDequeue t - by\<rparr>"
| "on_stats (Inc_skippedEnqueue by) t = t\<lparr>skippedEnqueue := skippedEnqueue t + by\<rparr>"
| "on_stats (Dec_skippedEnqueue by) t = t\<lparr>skippedEnqueue := skippedEnqueue t - by\<rparr>"
| "on_stats (Inc_skippedDequeue by) t = t\<lparr>skippedDequeue := skippedDequeue t + by\<rparr>"
| "on_stats (Dec_skippedDequeue by) t = t\<lparr>skippedDequeue := skippedDequeue t - by\<rparr>"
| "on_stats (Inc_totalEnqueueTime by) t = t\<lparr>totalEnqueueTime := totalEnqueueTime t + by\<rparr>"
| "on_stats (Dec_totalEnqueueTime by) t = t\<lparr>totalEnqueueTime := totalEnqueueTime t - by\<rparr>"
| "on_stats (Inc_totalDequeueTime by) t = t\<lparr>totalDequeueTime := totalDequeueTime t + by\<rparr>"
| "on_stats (Dec_totalDequeueTime by) t = t\<lparr>totalDequeueTime := totalDequeueTime t - by\<rparr>"
| "on_stats (Set_enqueueTime val) t =
     t\<lparr>enqueueTimeCount := enqueueTimeCount t + 1, enqueueTimeTotal := enqueueTimeTotal t + val,
       enqueueTimeMin := (if enqueueTimeMin t > val then val else enqueueTimeMin t),
       enqueueTimeMax := (if enqueueTimeMax t < val then val else enqueueTimeMax t)\<rparr>"
| "on_stats (Set_dequeueTime val) t =
     t\<lparr>dequeueTimeCount := dequeueTimeCount t + 1, dequeueTimeTotal := dequeueTimeTotal t + val,
       dequeueTimeMin := (if dequeueTimeMin t > val then val else dequeueTimeMin t),
       dequeueTimeMax := (if dequeueTimeMax t < val then val else dequeueTimeMax t)\<rparr>"

text \<open>\<^verbatim>\<open>getThreadStats\<close>: the record at the index of the calling thread, made when there is none. An
  index beyond the array is an access out of bounds.\<close>

definition thread_stats :: "per_thread_stats option list \<Rightarrow> nat \<Rightarrow> per_thread_stats" where
  "thread_stats arr idx = (case arr ! idx of None \<Rightarrow> initial_stats | Some t \<Rightarrow> t)"

definition getThreadStats :: "nat \<Rightarrow> (per_thread_stats option list, per_thread_stats) comp" where
  "getThreadStats idx arr =
     (if idx < length arr then (Inr (thread_stats arr idx), arr[idx := Some (thread_stats arr idx)])
      else (Inl (Fault OutOfBounds), arr))"

definition count_call :: "nat \<Rightarrow> stat_call \<Rightarrow> (per_thread_stats option list, unit) comp" where
  "count_call idx c = bindE (getThreadStats idx) (\<lambda>t. modE (\<lambda>arr. arr[idx := Some (on_stats c t)]))"

section \<open>Statistics that add up\<close>

locale statistic = comm_monoid plus unit for plus :: "'a \<Rightarrow> 'a \<Rightarrow> 'a" and unit :: 'a +
  fixes field :: "per_thread_stats \<Rightarrow> 'a"
  assumes field_initial: "field initial_stats = unit"
    and field_add: "field (add_stats totals t) = plus (field totals) (field t)"
begin

definition cell :: "per_thread_stats option \<Rightarrow> 'a" where
  "cell c = (case c of None \<Rightarrow> unit | Some t \<Rightarrow> field t)"

definition shards :: "per_thread_stats option list \<Rightarrow> 'a" where
  "shards arr = foldr (\<lambda>c. plus (cell c)) arr unit"

lemma field_foldl:
  "field (foldl (\<lambda>totals c. case c of None \<Rightarrow> totals | Some t \<Rightarrow> add_stats totals t) T arr) = plus (field T) (shards arr)"
  by (induction arr arbitrary: T) (auto simp: shards_def cell_def field_add assoc split: option.splits)

lemma field_aggregate: "field (aggregatePerThreadStats arr) = shards arr"
  by (simp add: aggregatePerThreadStats_def field_foldl field_initial)

lemma cell_thread: "field (thread_stats arr i) = cell (arr ! i)"
  by (simp add: thread_stats_def cell_def field_initial split: option.splits)

lemma shards_update: "i < length arr \<Longrightarrow> cell c = plus (cell (arr ! i)) d \<Longrightarrow> shards (arr[i := c]) = plus (shards arr) d"
proof (induction arr arbitrary: i)
  case (Cons a arr)
  then show ?case
    by (cases i) (simp_all add: shards_def assoc commute[of d] left_commute)
qed simp

text \<open>A change of one record that adds an amount to the statistic adds it to the report.\<close>

lemma aggregate_update:
  assumes "i < length arr" and "\<exists>d. \<forall>t. field (f t) = plus (field t) d"
  shows "field (aggregatePerThreadStats (arr[i := Some (f (thread_stats arr i))])) = field (f (aggregatePerThreadStats arr))"
proof -
  obtain d where d: "\<And>t. field (f t) = plus (field t) d" using assms(2) by blast
  have "cell (Some (f (thread_stats arr i))) = plus (cell (arr ! i)) d"
    using d cell_thread by (simp add: cell_def)
  then show ?thesis using assms(1) d shards_update by (simp add: field_aggregate)
qed

text \<open>What keeps the statistic of every record, or makes it neutral in every record, does so in the report.\<close>

lemma aggregate_keep:
  "(\<And>t. field (f t) = field t) \<Longrightarrow> field (aggregatePerThreadStats (map (map_option f) arr)) = field (aggregatePerThreadStats arr)"
  unfolding field_aggregate by (induction arr) (auto simp: shards_def cell_def split: option.splits)

lemma aggregate_clear:
  "(\<And>t. field (f t) = unit) \<Longrightarrow> field (aggregatePerThreadStats (map (map_option f) arr)) = unit"
  unfolding field_aggregate by (induction arr) (auto simp: shards_def cell_def split: option.splits)

end

text \<open>All sixteen statistics are of this kind: the counters and the sums modulo \<open>2\<^sup>3\<^sup>2\<close> and \<open>2\<^sup>6\<^sup>4\<close>, the least
  and the greatest times.\<close>

lemma min_max_u64:
  "(if x > y then y else x) = min x (y :: u64)" "(if x < y then y else x) = max x (y :: u64)"
  by (auto simp: min_def max_def)

lemma comm_monoid_min_u64: "comm_monoid min (-1 :: u64)"
  by unfold_locales (simp_all add: min.assoc min.commute min_def)

lemma comm_monoid_max_u64: "comm_monoid max (0 :: u64)"
  by unfold_locales (simp_all add: max.assoc max.commute max_def)

lemmas stat_defs = initial_stats_def add_stats_def min_max_u64

lemma statistic_sum:
  assumes "field initial_stats = (0 :: 'a :: comm_monoid_add)" and "\<And>T t. field (add_stats T t) = field T + field t"
  shows "statistic (+) 0 field"
  by (intro statistic.intro statistic_axioms.intro add.comm_monoid_axioms assms)

interpretation pendingEnq: statistic "(+)" "0 :: u32" pendingAsyncEnqueue
  by (rule statistic_sum) (simp_all add: stat_defs)

interpretation pendingDeq: statistic "(+)" "0 :: u32" pendingAsyncDequeue
  by (rule statistic_sum) (simp_all add: stat_defs)

interpretation executedEnq: statistic "(+)" "0 :: u32" executedEnqueue
  by (rule statistic_sum) (simp_all add: stat_defs)

interpretation executedDeq: statistic "(+)" "0 :: u32" executedDequeue
  by (rule statistic_sum) (simp_all add: stat_defs)

interpretation skippedEnq: statistic "(+)" "0 :: u32" skippedEnqueue
  by (rule statistic_sum) (simp_all add: stat_defs)

interpretation skippedDeq: statistic "(+)" "0 :: u32" skippedDequeue
  by (rule statistic_sum) (simp_all add: stat_defs)

interpretation totalEnq: statistic "(+)" "0 :: u64" totalEnqueueTime
  by (rule statistic_sum) (simp_all add: stat_defs)

interpretation totalDeq: statistic "(+)" "0 :: u64" totalDequeueTime
  by (rule statistic_sum) (simp_all add: stat_defs)

interpretation countEnq: statistic "(+)" "0 :: u64" enqueueTimeCount
  by (rule statistic_sum) (simp_all add: stat_defs)

interpretation countDeq: statistic "(+)" "0 :: u64" dequeueTimeCount
  by (rule statistic_sum) (simp_all add: stat_defs)

interpretation sumEnq: statistic "(+)" "0 :: u64" enqueueTimeTotal
  by (rule statistic_sum) (simp_all add: stat_defs)

interpretation sumDeq: statistic "(+)" "0 :: u64" dequeueTimeTotal
  by (rule statistic_sum) (simp_all add: stat_defs)

interpretation minEnq: statistic min "-1 :: u64" enqueueTimeMin
  by (intro statistic.intro statistic_axioms.intro comm_monoid_min_u64) (simp_all add: stat_defs)

interpretation minDeq: statistic min "-1 :: u64" dequeueTimeMin
  by (intro statistic.intro statistic_axioms.intro comm_monoid_min_u64) (simp_all add: stat_defs)

interpretation maxEnq: statistic max "0 :: u64" enqueueTimeMax
  by (intro statistic.intro statistic_axioms.intro comm_monoid_max_u64) (simp_all add: stat_defs)

interpretation maxDeq: statistic max "0 :: u64" dequeueTimeMax
  by (intro statistic.intro statistic_axioms.intro comm_monoid_max_u64) (simp_all add: stat_defs)

section \<open>One record would do\<close>

text \<open>What a call adds to a statistic does not depend on the record it is counted in.\<close>

lemma sum_deltas:
  "\<exists>d. \<forall>t. pendingAsyncEnqueue (on_stats c t) = pendingAsyncEnqueue t + d"
  "\<exists>d. \<forall>t. pendingAsyncDequeue (on_stats c t) = pendingAsyncDequeue t + d"
  "\<exists>d. \<forall>t. executedEnqueue (on_stats c t) = executedEnqueue t + d"
  "\<exists>d. \<forall>t. executedDequeue (on_stats c t) = executedDequeue t + d"
  "\<exists>d. \<forall>t. skippedEnqueue (on_stats c t) = skippedEnqueue t + d"
  "\<exists>d. \<forall>t. skippedDequeue (on_stats c t) = skippedDequeue t + d"
  "\<exists>d. \<forall>t. totalEnqueueTime (on_stats c t) = totalEnqueueTime t + d"
  "\<exists>d. \<forall>t. totalDequeueTime (on_stats c t) = totalDequeueTime t + d"
  "\<exists>d. \<forall>t. enqueueTimeCount (on_stats c t) = enqueueTimeCount t + d"
  "\<exists>d. \<forall>t. dequeueTimeCount (on_stats c t) = dequeueTimeCount t + d"
  "\<exists>d. \<forall>t. enqueueTimeTotal (on_stats c t) = enqueueTimeTotal t + d"
  "\<exists>d. \<forall>t. dequeueTimeTotal (on_stats c t) = dequeueTimeTotal t + d"
  by (cases c; simp add: diff_conv_add_uminus del: add_uminus_conv_diff; blast)+

lemma extreme_deltas:
  "\<exists>d. \<forall>t. enqueueTimeMin (on_stats c t) = min (enqueueTimeMin t) d"
  "\<exists>d. \<forall>t. dequeueTimeMin (on_stats c t) = min (dequeueTimeMin t) d"
  "\<exists>d. \<forall>t. enqueueTimeMax (on_stats c t) = max (enqueueTimeMax t) d"
  "\<exists>d. \<forall>t. dequeueTimeMax (on_stats c t) = max (dequeueTimeMax t) d"
  by (cases c; simp add: min_max_u64; metis minEnq.right_neutral maxEnq.right_neutral)+

lemmas call_deltas =
  pendingEnq.aggregate_update[OF _ sum_deltas(1)] pendingDeq.aggregate_update[OF _ sum_deltas(2)]
  executedEnq.aggregate_update[OF _ sum_deltas(3)] executedDeq.aggregate_update[OF _ sum_deltas(4)]
  skippedEnq.aggregate_update[OF _ sum_deltas(5)] skippedDeq.aggregate_update[OF _ sum_deltas(6)]
  totalEnq.aggregate_update[OF _ sum_deltas(7)] totalDeq.aggregate_update[OF _ sum_deltas(8)]
  countEnq.aggregate_update[OF _ sum_deltas(9)] countDeq.aggregate_update[OF _ sum_deltas(10)]
  sumEnq.aggregate_update[OF _ sum_deltas(11)] sumDeq.aggregate_update[OF _ sum_deltas(12)]
  minEnq.aggregate_update[OF _ extreme_deltas(1)] minDeq.aggregate_update[OF _ extreme_deltas(2)]
  maxEnq.aggregate_update[OF _ extreme_deltas(3)] maxDeq.aggregate_update[OF _ extreme_deltas(4)]

lemma call_aggregate:
  "i < length arr \<Longrightarrow> aggregatePerThreadStats (arr[i := Some (on_stats c (thread_stats arr i))]) = on_stats c (aggregatePerThreadStats arr)"
  by (rule per_thread_stats.equality) ((simp only: call_deltas | simp)+)

lemma reset_aggregate:
  "aggregatePerThreadStats (map (map_option reset_hilo) arr) = reset_hilo (aggregatePerThreadStats arr)"
  by (rule per_thread_stats.equality)
    (simp_all add: reset_hilo_def pendingEnq.aggregate_keep pendingDeq.aggregate_keep executedEnq.aggregate_keep
      executedDeq.aggregate_keep skippedEnq.aggregate_keep skippedDeq.aggregate_keep totalEnq.aggregate_keep totalDeq.aggregate_keep
      countEnq.aggregate_clear countDeq.aggregate_clear sumEnq.aggregate_clear sumDeq.aggregate_clear
      minEnq.aggregate_clear minDeq.aggregate_clear maxEnq.aggregate_clear maxDeq.aggregate_clear)

lemma count_call_runs:
  assumes "idx < length arr"
  shows "count_call idx c arr = (Inr (), arr[idx := Some (on_stats c (thread_stats arr idx))])"
  using assms by (simp add: count_call_def getThreadStats_def bindE_def modE_def)

end
