(* ===== verification/ManagedProvider.thy ===== *)
theory ManagedProvider
  imports ManagedStatistics BdbStoreProvider
begin

text \<open>
  The management object of a provider, \<^verbatim>\<open>StorageProvider\<close> of \<^verbatim>\<open>lib/gen/qmf\<close>: its properties with their
  accessors, the schema it registers, the two encodings of its properties and statistics
  (into a buffer, into a map of variants), and what \<^verbatim>\<open>BdbStoreProvider::initManagement\<close> puts into it.
\<close>

section \<open>The object\<close>

text \<open>The time stamps and the two change marks are those of the base class; \<^verbatim>\<open>sp_stats\<close> is
  \<^verbatim>\<open>perThreadStatsArray\<close>, with the null pointer as \<^verbatim>\<open>None\<close>.\<close>

record ('o, 'h) storage_provider_object =
  sp_stamps :: 'h
  sp_configChanged :: bool
  sp_instChanged :: bool
  sp_brokerRef :: 'o
  sp_location :: string
  sp_bdbBaseDir :: string
  sp_type :: string
  sp_num_jfiles :: u32
  sp_num_thread_enqueue :: u32
  sp_num_thread_dequeue :: u32
  sp_compact :: bool
  sp_smart_async :: bool
  sp_acceptRecovery :: bool
  sp_mongoHost :: string
  sp_mongoPort :: string
  sp_mongoDbName :: string
  sp_mongoCollection :: string
  sp_enqLogCleanerTimeInterval :: u32
  sp_deqLogCleanerTimeInterval :: u32
  sp_enqLogCleanerWarningSize :: u32
  sp_deqLogCleanerWarningSize :: u32
  sp_stats :: "per_thread_stats option list"

text \<open>The constructor: the base class gives the time stamps and the marks, the parent its object id.\<close>

definition StorageProvider_new :: "nat \<Rightarrow> 'h \<Rightarrow> bool \<Rightarrow> bool \<Rightarrow> 'o \<Rightarrow> ('o, 'h) storage_provider_object" where
  "StorageProvider_new maxThreads h cc ic parent =
     \<lparr>sp_stamps = h, sp_configChanged = cc, sp_instChanged = ic, sp_brokerRef = parent,
            sp_location = [], sp_bdbBaseDir = [], sp_type = [], sp_num_jfiles = 0, sp_num_thread_enqueue = 0,
      sp_num_thread_dequeue = 0, sp_compact = False, sp_smart_async = False, sp_acceptRecovery = False, sp_mongoHost = [],
      sp_mongoPort = [], sp_mongoDbName = [], sp_mongoCollection = [], sp_enqLogCleanerTimeInterval = 0,
      sp_deqLogCleanerTimeInterval = 0, sp_enqLogCleanerWarningSize = 0, sp_deqLogCleanerWarningSize = 0,
      sp_stats = replicate maxThreads None\<rparr>"

section \<open>Accessors\<close>

text \<open>A property is set under \<^verbatim>\<open>accessLock\<close> and marks the object changed; reading one is the field.\<close>

definition set_brokerRef :: "'o \<Rightarrow> (('o, 'h) storage_provider_object, unit) comp" where
  "set_brokerRef val = modE (\<lambda>ob. ob\<lparr>sp_brokerRef := val, sp_configChanged := True\<rparr>)"

definition set_location :: "string \<Rightarrow> (('o, 'h) storage_provider_object, unit) comp" where
  "set_location val = modE (\<lambda>ob. ob\<lparr>sp_location := val, sp_configChanged := True\<rparr>)"

definition set_bdbBaseDir :: "string \<Rightarrow> (('o, 'h) storage_provider_object, unit) comp" where
  "set_bdbBaseDir val = modE (\<lambda>ob. ob\<lparr>sp_bdbBaseDir := val, sp_configChanged := True\<rparr>)"

definition set_type :: "string \<Rightarrow> (('o, 'h) storage_provider_object, unit) comp" where
  "set_type val = modE (\<lambda>ob. ob\<lparr>sp_type := val, sp_configChanged := True\<rparr>)"

definition set_num_jfiles :: "u32 \<Rightarrow> (('o, 'h) storage_provider_object, unit) comp" where
  "set_num_jfiles val = modE (\<lambda>ob. ob\<lparr>sp_num_jfiles := val, sp_configChanged := True\<rparr>)"

definition set_num_thread_enqueue :: "u32 \<Rightarrow> (('o, 'h) storage_provider_object, unit) comp" where
  "set_num_thread_enqueue val = modE (\<lambda>ob. ob\<lparr>sp_num_thread_enqueue := val, sp_configChanged := True\<rparr>)"

definition set_num_thread_dequeue :: "u32 \<Rightarrow> (('o, 'h) storage_provider_object, unit) comp" where
  "set_num_thread_dequeue val = modE (\<lambda>ob. ob\<lparr>sp_num_thread_dequeue := val, sp_configChanged := True\<rparr>)"

definition set_compact :: "bool \<Rightarrow> (('o, 'h) storage_provider_object, unit) comp" where
  "set_compact val = modE (\<lambda>ob. ob\<lparr>sp_compact := val, sp_configChanged := True\<rparr>)"

definition set_smart_async :: "bool \<Rightarrow> (('o, 'h) storage_provider_object, unit) comp" where
  "set_smart_async val = modE (\<lambda>ob. ob\<lparr>sp_smart_async := val, sp_configChanged := True\<rparr>)"

definition set_acceptRecovery :: "bool \<Rightarrow> (('o, 'h) storage_provider_object, unit) comp" where
  "set_acceptRecovery val = modE (\<lambda>ob. ob\<lparr>sp_acceptRecovery := val, sp_configChanged := True\<rparr>)"

definition set_mongoHost :: "string \<Rightarrow> (('o, 'h) storage_provider_object, unit) comp" where
  "set_mongoHost val = modE (\<lambda>ob. ob\<lparr>sp_mongoHost := val, sp_configChanged := True\<rparr>)"

definition set_mongoPort :: "string \<Rightarrow> (('o, 'h) storage_provider_object, unit) comp" where
  "set_mongoPort val = modE (\<lambda>ob. ob\<lparr>sp_mongoPort := val, sp_configChanged := True\<rparr>)"

definition set_mongoDbName :: "string \<Rightarrow> (('o, 'h) storage_provider_object, unit) comp" where
  "set_mongoDbName val = modE (\<lambda>ob. ob\<lparr>sp_mongoDbName := val, sp_configChanged := True\<rparr>)"

definition set_mongoCollection :: "string \<Rightarrow> (('o, 'h) storage_provider_object, unit) comp" where
  "set_mongoCollection val = modE (\<lambda>ob. ob\<lparr>sp_mongoCollection := val, sp_configChanged := True\<rparr>)"

definition set_enqLogCleanerTimeInterval :: "u32 \<Rightarrow> (('o, 'h) storage_provider_object, unit) comp" where
  "set_enqLogCleanerTimeInterval val = modE (\<lambda>ob. ob\<lparr>sp_enqLogCleanerTimeInterval := val, sp_configChanged := True\<rparr>)"

definition set_deqLogCleanerTimeInterval :: "u32 \<Rightarrow> (('o, 'h) storage_provider_object, unit) comp" where
  "set_deqLogCleanerTimeInterval val = modE (\<lambda>ob. ob\<lparr>sp_deqLogCleanerTimeInterval := val, sp_configChanged := True\<rparr>)"

definition set_enqLogCleanerWarningSize :: "u32 \<Rightarrow> (('o, 'h) storage_provider_object, unit) comp" where
  "set_enqLogCleanerWarningSize val = modE (\<lambda>ob. ob\<lparr>sp_enqLogCleanerWarningSize := val, sp_configChanged := True\<rparr>)"

definition set_deqLogCleanerWarningSize :: "u32 \<Rightarrow> (('o, 'h) storage_provider_object, unit) comp" where
  "set_deqLogCleanerWarningSize val = modE (\<lambda>ob. ob\<lparr>sp_deqLogCleanerWarningSize := val, sp_configChanged := True\<rparr>)"

text \<open>A method of the statistics, called by the thread with index \<open>idx\<close>.\<close>

definition stat_method :: "nat \<Rightarrow> stat_call \<Rightarrow> (('o, 'h) storage_provider_object, unit) comp" where
  "stat_method idx c ob =
     (case count_call idx c (sp_stats ob) of
        (Inl e, arr) \<Rightarrow> (Inl e, ob\<lparr>sp_stats := arr\<rparr>)
      | (Inr _, arr) \<Rightarrow> (Inr (), ob\<lparr>sp_stats := arr, sp_instChanged := True\<rparr>))"

section \<open>The schema\<close>

text \<open>The map of one element, filled key by key.\<close>

definition property_element :: "('b, 'v, 'o, 'h) qmf \<Rightarrow> string \<Rightarrow> u8 \<Rightarrow> int \<Rightarrow> (string \<times> 'v) list \<Rightarrow> (string \<rightharpoonup> 'v)" where
  "property_element L nm ty isIndex extra =
     assign_all ([(''name'', of_string L nm), (''type'', of_uint8 L ty), (''access'', of_uint8 L (ACCESS_RO L)),
                  (''index'', of_int32 L isIndex), (''optional'', of_int32 L 0)] @ extra) Map.empty"

definition statistic_element :: "('b, 'v, 'o, 'h) qmf \<Rightarrow> string \<Rightarrow> u8 \<Rightarrow> string \<Rightarrow> (string \<rightharpoonup> 'v)" where
  "statistic_element L nm ty desc =
     assign_all [(''name'', of_string L nm), (''type'', of_uint8 L ty), (''desc'', of_string L desc)] Map.empty"

definition provider_packageName :: string where
  "provider_packageName = ''com.atono.server.qpid.bdbstore''"

definition provider_className :: string where
  "provider_className = ''storageprovider''"

definition provider_md5Sum :: "u8 list" where
  "provider_md5Sum = [0x61,0xa,0xce,0x9f,0xf5,0x3d,0x35,0xf8,0x45,0x1e,0x48,0xdb,0x60,0x67,0x46,0x6c]"

definition provider_schema_properties :: "('b, 'v, 'o, 'h) qmf \<Rightarrow> (string \<rightharpoonup> 'v) list" where
  "provider_schema_properties L =
     [property_element L ''brokerRef'' (TYPE_REF L) 1 [],
      property_element L ''location'' (TYPE_SSTR L) 0 [(''desc'', of_string L ''Logical directory on disk'')],
      property_element L ''bdbBaseDir'' (TYPE_SSTR L) 0 [(''desc'', of_string L ''Directory used for Berkeley Db Environment'')],
      property_element L ''type'' (TYPE_SSTR L) 1 [(''desc'', of_string L ''Provider Name'')],
      property_element L ''num_jfiles'' (TYPE_U32 L) 0 [(''desc'', of_string L ''Default number of files used for Journal'')],
      property_element L ''num_thread_enqueue'' (TYPE_U32 L) 0 [(''desc'', of_string L ''Number of threads used for enqueue thread pool'')],
      property_element L ''num_thread_dequeue'' (TYPE_U32 L) 0 [(''desc'', of_string L ''Number of threads used for dequeue thread pool'')],
      property_element L ''compact'' (TYPE_BOOL L) 0 [(''desc'', of_string L ''Compact flag option'')],
      property_element L ''smart_async'' (TYPE_BOOL L) 0 [(''desc'', of_string L ''Smart Async flag option'')],
      property_element L ''acceptRecovery'' (TYPE_BOOL L) 0 [(''desc'', of_string L ''Accept Recovery option'')],
      property_element L ''mongoHost'' (TYPE_SSTR L) 0 [(''desc'', of_string L ''Mongo Database Host for Accept Recovery'')],
      property_element L ''mongoPort'' (TYPE_SSTR L) 0 [(''desc'', of_string L ''Mongo Database Port for Accept Recovery'')],
      property_element L ''mongoDbName'' (TYPE_SSTR L) 0 [(''desc'', of_string L ''Mongo Database Name for Accept Recovery'')],
      property_element L ''mongoCollection'' (TYPE_SSTR L) 0 [(''desc'', of_string L ''Mongo Collection Name for Accept Recovery'')],
      property_element L ''enqLogCleanerTimeInterval'' (TYPE_U32 L) 0 [(''unit'', of_string L ''second''), (''desc'', of_string L ''Enqueue log cleaner time interval'')],
      property_element L ''deqLogCleanerTimeInterval'' (TYPE_U32 L) 0 [(''unit'', of_string L ''second''), (''desc'', of_string L ''Dequeue Log cleaner time interval'')],
      property_element L ''enqLogCleanerWarningSize'' (TYPE_U32 L) 0 [(''unit'', of_string L ''byte''), (''desc'', of_string L ''Enqueue Log cleaner warning size'')],
      property_element L ''deqLogCleanerWarningSize'' (TYPE_U32 L) 0 [(''unit'', of_string L ''byte''), (''desc'', of_string L ''Dequeue Log cleaner warning size'')]]"

definition provider_schema_statistics :: "('b, 'v, 'o, 'h) qmf \<Rightarrow> (string \<rightharpoonup> 'v) list" where
  "provider_schema_statistics L =
     [statistic_element L ''pendingAsyncEnqueue'' (TYPE_U32 L) ''Async Enqueue operations currently in the thread pool'',
      statistic_element L ''pendingAsyncDequeue'' (TYPE_U32 L) ''Async Dequeue operations currently in the thread pool'',
      statistic_element L ''executedEnqueue'' (TYPE_U32 L) ''Number of Enqueue executed by the store'',
      statistic_element L ''executedDequeue'' (TYPE_U32 L) ''Number of Dequeue executed by the store'',
      statistic_element L ''skippedEnqueue'' (TYPE_U32 L) ''Number of Enqueue skipped due to smart async'',
      statistic_element L ''skippedDequeue'' (TYPE_U32 L) ''Number of Dequeue skipped due to smart async'',
      statistic_element L ''totalEnqueueTime'' (TYPE_U64 L) ''Total time spent in enqueue operations'',
      statistic_element L ''totalDequeueTime'' (TYPE_U64 L) ''Total time spent in dequeue operations'',
      statistic_element L ''enqueueTimeSamples'' (TYPE_DELTATIME L) '' (Samples)'',
      statistic_element L ''enqueueTimeMin'' (TYPE_DELTATIME L) '' (Min)'',
      statistic_element L ''enqueueTimeMax'' (TYPE_DELTATIME L) '' (Max)'',
      statistic_element L ''enqueueTimeAverage'' (TYPE_DELTATIME L) '' (Average)'',
      statistic_element L ''dequeueTimeSamples'' (TYPE_DELTATIME L) '' (Samples)'',
      statistic_element L ''dequeueTimeMin'' (TYPE_DELTATIME L) '' (Min)'',
      statistic_element L ''dequeueTimeMax'' (TYPE_DELTATIME L) '' (Max)'',
      statistic_element L ''dequeueTimeAverage'' (TYPE_DELTATIME L) '' (Average)'']"

definition provider_writeSchema :: "('b, 'v, 'o, 'h) qmf \<Rightarrow> exn + bytes" where
  "provider_writeSchema L = written L
     ([put_Octet L (CLASS_KIND_TABLE L), put_ShortString L provider_packageName, put_ShortString L provider_className,
       put_Bin128 L provider_md5Sum, put_Short L 18, put_Short L 16, put_Short L 0] @
      map (put_Map L) (provider_schema_properties L) @ map (put_Map L) (provider_schema_statistics L))"

section \<open>The properties in a buffer\<close>

definition provider_writePropertiesSize :: "('b, 'v, 'o, 'h) qmf \<Rightarrow> ('o, 'h) storage_provider_object \<Rightarrow> u32" where
  "provider_writePropertiesSize L ob = writeTimestampsSize L
     + 16
     + of_nat (1 + length (sp_location ob))
     + of_nat (1 + length (sp_bdbBaseDir ob))
     + of_nat (1 + length (sp_type ob))
     + 4
     + 4
     + 4
     + 1
     + 1
     + 1
     + of_nat (1 + length (sp_mongoHost ob))
     + of_nat (1 + length (sp_mongoPort ob))
     + of_nat (1 + length (sp_mongoDbName ob))
     + of_nat (1 + length (sp_mongoCollection ob))
     + 4
     + 4
     + 4
     + 4"

definition provider_gets :: "('b, 'v, 'o, 'h) qmf \<Rightarrow> (('o, 'h) storage_provider_object \<times> 'b, unit) comp list" where
  "provider_gets L =
     [from_buf (get_RawData L (writeTimestampsSize L)) (\<lambda>tbuf ob. case readTimestamps L tbuf (sp_stamps ob) of (r, h) \<Rightarrow> (r, ob\<lparr>sp_stamps := h\<rparr>)),
      from_buf (get_RawData L (oid_encodedSize L)) (\<lambda>s. bindE (liftE (oid_decode L s)) (\<lambda>x. modE (\<lambda>ob. ob\<lparr>sp_brokerRef := x\<rparr>))),
      from_buf (get_ShortString L) (\<lambda>x. modE (\<lambda>ob. ob\<lparr>sp_location := x\<rparr>)),
      from_buf (get_ShortString L) (\<lambda>x. modE (\<lambda>ob. ob\<lparr>sp_bdbBaseDir := x\<rparr>)),
      from_buf (get_ShortString L) (\<lambda>x. modE (\<lambda>ob. ob\<lparr>sp_type := x\<rparr>)),
      from_buf (get_Long L) (\<lambda>x. modE (\<lambda>ob. ob\<lparr>sp_num_jfiles := x\<rparr>)),
      from_buf (get_Long L) (\<lambda>x. modE (\<lambda>ob. ob\<lparr>sp_num_thread_enqueue := x\<rparr>)),
      from_buf (get_Long L) (\<lambda>x. modE (\<lambda>ob. ob\<lparr>sp_num_thread_dequeue := x\<rparr>)),
      from_buf (get_Octet L) (\<lambda>x. modE (\<lambda>ob. ob\<lparr>sp_compact := (x = 1)\<rparr>)),
      from_buf (get_Octet L) (\<lambda>x. modE (\<lambda>ob. ob\<lparr>sp_smart_async := (x = 1)\<rparr>)),
      from_buf (get_Octet L) (\<lambda>x. modE (\<lambda>ob. ob\<lparr>sp_acceptRecovery := (x = 1)\<rparr>)),
      from_buf (get_ShortString L) (\<lambda>x. modE (\<lambda>ob. ob\<lparr>sp_mongoHost := x\<rparr>)),
      from_buf (get_ShortString L) (\<lambda>x. modE (\<lambda>ob. ob\<lparr>sp_mongoPort := x\<rparr>)),
      from_buf (get_ShortString L) (\<lambda>x. modE (\<lambda>ob. ob\<lparr>sp_mongoDbName := x\<rparr>)),
      from_buf (get_ShortString L) (\<lambda>x. modE (\<lambda>ob. ob\<lparr>sp_mongoCollection := x\<rparr>)),
      from_buf (get_Long L) (\<lambda>x. modE (\<lambda>ob. ob\<lparr>sp_enqLogCleanerTimeInterval := x\<rparr>)),
      from_buf (get_Long L) (\<lambda>x. modE (\<lambda>ob. ob\<lparr>sp_deqLogCleanerTimeInterval := x\<rparr>)),
      from_buf (get_Long L) (\<lambda>x. modE (\<lambda>ob. ob\<lparr>sp_enqLogCleanerWarningSize := x\<rparr>)),
      from_buf (get_Long L) (\<lambda>x. modE (\<lambda>ob. ob\<lparr>sp_deqLogCleanerWarningSize := x\<rparr>))]"

definition provider_readProperties :: "('b, 'v, 'o, 'h) qmf \<Rightarrow> bytes \<Rightarrow> (('o, 'h) storage_provider_object, unit) comp" where
  "provider_readProperties L sBuf ob =
     (case seqE (provider_gets L) (ob, wrap_buffer L sBuf) of (r, (ob', _)) \<Rightarrow> (r, ob'))"

definition provider_puts :: "('b, 'v, 'o, 'h) qmf \<Rightarrow> ('o, 'h) storage_provider_object \<Rightarrow> ('b, unit) comp list" where
  "provider_puts L ob =
     [put_RawData L (writeTimestamps L (sp_stamps ob)),
      put_RawData L (oid_encode L (sp_brokerRef ob)),
      put_ShortString L (sp_location ob),
      put_ShortString L (sp_bdbBaseDir ob),
      put_ShortString L (sp_type ob),
      put_Long L (sp_num_jfiles ob),
      put_Long L (sp_num_thread_enqueue ob),
      put_Long L (sp_num_thread_dequeue ob),
      put_Octet L (if sp_compact ob then 1 else 0),
      put_Octet L (if sp_smart_async ob then 1 else 0),
      put_Octet L (if sp_acceptRecovery ob then 1 else 0),
      put_ShortString L (sp_mongoHost ob),
      put_ShortString L (sp_mongoPort ob),
      put_ShortString L (sp_mongoDbName ob),
      put_ShortString L (sp_mongoCollection ob),
      put_Long L (sp_enqLogCleanerTimeInterval ob),
      put_Long L (sp_deqLogCleanerTimeInterval ob),
      put_Long L (sp_enqLogCleanerWarningSize ob),
      put_Long L (sp_deqLogCleanerWarningSize ob)]"

definition provider_writeProperties :: "('b, 'v, 'o, 'h) qmf \<Rightarrow> (('o, 'h) storage_provider_object, bytes) comp" where
  "provider_writeProperties L ob = (written L (provider_puts L ob), ob\<lparr>sp_configChanged := False\<rparr>)"

section \<open>The statistics in a buffer\<close>

text \<open>An exception of a put leaves before the hi-lo statistics are reset.\<close>

definition provider_statistics_puts :: "('b, 'v, 'o, 'h) qmf \<Rightarrow> per_thread_stats \<Rightarrow> ('b, unit) comp list" where
  "provider_statistics_puts L totals =
     [put_Long L (pendingAsyncEnqueue totals),
      put_Long L (pendingAsyncDequeue totals),
      put_Long L (executedEnqueue totals),
      put_Long L (executedDequeue totals),
      put_Long L (skippedEnqueue totals),
      put_Long L (skippedDequeue totals),
      put_LongLong L (totalEnqueueTime totals),
      put_LongLong L (totalDequeueTime totals),
      put_LongLong L (enqueueTimeCount totals),
      put_LongLong L (if enqueueTimeCount totals \<noteq> 0 then enqueueTimeMin totals else 0),
      put_LongLong L (enqueueTimeMax totals),
      put_LongLong L (if enqueueTimeCount totals \<noteq> 0 then enqueueTimeTotal totals div enqueueTimeCount totals else 0),
      put_LongLong L (dequeueTimeCount totals),
      put_LongLong L (if dequeueTimeCount totals \<noteq> 0 then dequeueTimeMin totals else 0),
      put_LongLong L (dequeueTimeMax totals),
      put_LongLong L (if dequeueTimeCount totals \<noteq> 0 then dequeueTimeTotal totals div dequeueTimeCount totals else 0)]"

definition provider_writeStatistics :: "('b, 'v, 'o, 'h) qmf \<Rightarrow> bool \<Rightarrow> (('o, 'h) storage_provider_object, bytes) comp" where
  "provider_writeStatistics L skipHeaders ob =
     (let ob' = ob\<lparr>sp_instChanged := False\<rparr>;
          headers = (if skipHeaders then [] else [put_RawData L (writeTimestamps L (sp_stamps ob))])
      in case filled L (headers @ provider_statistics_puts L (aggregatePerThreadStats (sp_stats ob))) of
           Inl e \<Rightarrow> (Inl e, ob')
         | Inr b \<Rightarrow> (taken L b, ob'\<lparr>sp_stats := map (map_option reset_hilo) (sp_stats ob)\<rparr>))"

section \<open>Methods and key\<close>

text \<open>The class has no methods: every call is answered with the status and its text.\<close>

definition provider_doMethod :: "('b, 'v, 'o, 'h) qmf \<Rightarrow> string \<Rightarrow> bytes \<Rightarrow> exn + bytes" where
  "provider_doMethod L methodName inStr =
     written L [put_Long L (status_unknown_method L), put_ShortString L (StatusText L (status_unknown_method L))]"

definition provider_doMethod_map :: "('b, 'v, 'o, 'h) qmf \<Rightarrow> string \<Rightarrow> (string \<rightharpoonup> 'v) \<Rightarrow> (string \<rightharpoonup> 'v) \<Rightarrow> (string \<rightharpoonup> 'v)" where
  "provider_doMethod_map L methodName inMap outMap =
     assign_all [(''_status_code'', of_uint32 L (status_unknown_method L)),
                 (''_status_text'', of_string L (StatusText L (status_unknown_method L)))] outMap"

definition provider_getKey :: "('b, 'v, 'o, 'h) qmf \<Rightarrow> ('o, 'h) storage_provider_object \<Rightarrow> string" where
  "provider_getKey L ob = getV2Key L (sp_brokerRef ob) @ '','' @ sp_type ob"

section \<open>The map encoding\<close>

definition provider_map_properties :: "('b, 'v, 'o, 'h) qmf \<Rightarrow> ('o, 'h) storage_provider_object \<Rightarrow> (string \<times> 'v) list" where
  "provider_map_properties L ob =
     [(''brokerRef'', of_oid L (sp_brokerRef ob)),
      (''location'', of_string L (sp_location ob)),
      (''bdbBaseDir'', of_string L (sp_bdbBaseDir ob)),
      (''type'', of_string L (sp_type ob)),
      (''num_jfiles'', of_uint32 L (sp_num_jfiles ob)),
      (''num_thread_enqueue'', of_uint32 L (sp_num_thread_enqueue ob)),
      (''num_thread_dequeue'', of_uint32 L (sp_num_thread_dequeue ob)),
      (''compact'', of_boolean L (sp_compact ob)),
      (''smart_async'', of_boolean L (sp_smart_async ob)),
      (''acceptRecovery'', of_boolean L (sp_acceptRecovery ob)),
      (''mongoHost'', of_string L (sp_mongoHost ob)),
      (''mongoPort'', of_string L (sp_mongoPort ob)),
      (''mongoDbName'', of_string L (sp_mongoDbName ob)),
      (''mongoCollection'', of_string L (sp_mongoCollection ob)),
      (''enqLogCleanerTimeInterval'', of_uint32 L (sp_enqLogCleanerTimeInterval ob)),
      (''deqLogCleanerTimeInterval'', of_uint32 L (sp_deqLogCleanerTimeInterval ob)),
      (''enqLogCleanerWarningSize'', of_uint32 L (sp_enqLogCleanerWarningSize ob)),
      (''deqLogCleanerWarningSize'', of_uint32 L (sp_deqLogCleanerWarningSize ob))]"

definition provider_map_statistics :: "('b, 'v, 'o, 'h) qmf \<Rightarrow> per_thread_stats \<Rightarrow> (string \<times> 'v) list" where
  "provider_map_statistics L totals =
     [(''pendingAsyncEnqueue'', of_uint32 L (pendingAsyncEnqueue totals)),
      (''pendingAsyncDequeue'', of_uint32 L (pendingAsyncDequeue totals)),
      (''executedEnqueue'', of_uint32 L (executedEnqueue totals)),
      (''executedDequeue'', of_uint32 L (executedDequeue totals)),
      (''skippedEnqueue'', of_uint32 L (skippedEnqueue totals)),
      (''skippedDequeue'', of_uint32 L (skippedDequeue totals)),
      (''totalEnqueueTime'', of_uint64 L (totalEnqueueTime totals)),
      (''totalDequeueTime'', of_uint64 L (totalDequeueTime totals)),
      (''enqueueTimeCount'', of_uint64 L (enqueueTimeCount totals)),
      (''enqueueTimeMin'', if enqueueTimeCount totals \<noteq> 0 then of_uint64 L (enqueueTimeMin totals) else of_int32 L 0),
      (''enqueueTimeMax'', of_uint64 L (enqueueTimeMax totals)),
      (''enqueueTimeAvg'', if enqueueTimeCount totals \<noteq> 0 then of_uint64 L (enqueueTimeTotal totals div enqueueTimeCount totals) else of_int32 L 0),
      (''dequeueTimeCount'', of_uint64 L (dequeueTimeCount totals)),
      (''dequeueTimeMin'', if dequeueTimeCount totals \<noteq> 0 then of_uint64 L (dequeueTimeMin totals) else of_int32 L 0),
      (''dequeueTimeMax'', of_uint64 L (dequeueTimeMax totals)),
      (''dequeueTimeAvg'', if dequeueTimeCount totals \<noteq> 0 then of_uint64 L (dequeueTimeTotal totals div dequeueTimeCount totals) else of_int32 L 0)]"

definition provider_mapEncodeValues :: "('b, 'v, 'o, 'h) qmf \<Rightarrow> bool \<Rightarrow> bool \<Rightarrow> (string \<rightharpoonup> 'v) \<Rightarrow>
    ('o, 'h) storage_provider_object \<Rightarrow> (string \<rightharpoonup> 'v) \<times> ('o, 'h) storage_provider_object" where
  "provider_mapEncodeValues L includeProperties includeStatistics m ob =
     (let (m, ob) = (if includeProperties then (assign_all (provider_map_properties L ob) m, ob\<lparr>sp_configChanged := False\<rparr>) else (m, ob))
      in if includeStatistics
         then (assign_all (provider_map_statistics L (aggregatePerThreadStats (sp_stats ob))) m,
               ob\<lparr>sp_instChanged := False, sp_stats := map (map_option reset_hilo) (sp_stats ob)\<rparr>)
         else (m, ob))"

definition provider_mapDecodeValues :: "('b, 'v, 'o, 'h) qmf \<Rightarrow> (string \<rightharpoonup> 'v) \<Rightarrow> (('o, 'h) storage_provider_object, unit) comp" where
  "provider_mapDecodeValues L m = seqE
     [decode_key m ''brokerRef'' (to_oid L) (\<lambda>x ob. ob\<lparr>sp_brokerRef := x\<rparr>),
      decode_key m ''location'' (get_string L) (\<lambda>x ob. ob\<lparr>sp_location := x\<rparr>),
      decode_key m ''bdbBaseDir'' (get_string L) (\<lambda>x ob. ob\<lparr>sp_bdbBaseDir := x\<rparr>),
      decode_key m ''type'' (get_string L) (\<lambda>x ob. ob\<lparr>sp_type := x\<rparr>),
      decode_key m ''num_jfiles'' (to_uint32 L) (\<lambda>x ob. ob\<lparr>sp_num_jfiles := x\<rparr>),
      decode_key m ''num_thread_enqueue'' (to_uint32 L) (\<lambda>x ob. ob\<lparr>sp_num_thread_enqueue := x\<rparr>),
      decode_key m ''num_thread_dequeue'' (to_uint32 L) (\<lambda>x ob. ob\<lparr>sp_num_thread_dequeue := x\<rparr>),
      decode_key m ''compact'' (to_boolean L) (\<lambda>x ob. ob\<lparr>sp_compact := x\<rparr>),
      decode_key m ''smart_async'' (to_boolean L) (\<lambda>x ob. ob\<lparr>sp_smart_async := x\<rparr>),
      decode_key m ''acceptRecovery'' (to_boolean L) (\<lambda>x ob. ob\<lparr>sp_acceptRecovery := x\<rparr>),
      decode_key m ''mongoHost'' (get_string L) (\<lambda>x ob. ob\<lparr>sp_mongoHost := x\<rparr>),
      decode_key m ''mongoPort'' (get_string L) (\<lambda>x ob. ob\<lparr>sp_mongoPort := x\<rparr>),
      decode_key m ''mongoDbName'' (get_string L) (\<lambda>x ob. ob\<lparr>sp_mongoDbName := x\<rparr>),
      decode_key m ''mongoCollection'' (get_string L) (\<lambda>x ob. ob\<lparr>sp_mongoCollection := x\<rparr>),
      decode_key m ''enqLogCleanerTimeInterval'' (to_uint32 L) (\<lambda>x ob. ob\<lparr>sp_enqLogCleanerTimeInterval := x\<rparr>),
      decode_key m ''deqLogCleanerTimeInterval'' (to_uint32 L) (\<lambda>x ob. ob\<lparr>sp_deqLogCleanerTimeInterval := x\<rparr>),
      decode_key m ''enqLogCleanerWarningSize'' (to_uint32 L) (\<lambda>x ob. ob\<lparr>sp_enqLogCleanerWarningSize := x\<rparr>),
      decode_key m ''deqLogCleanerWarningSize'' (to_uint32 L) (\<lambda>x ob. ob\<lparr>sp_deqLogCleanerWarningSize := x\<rparr>)]"

section \<open>What the provider puts into it\<close>

text \<open>\<^verbatim>\<open>BdbStoreProvider::initManagement\<close> with a broker: the object it creates. The options are signed,
  the properties are not.\<close>

definition management_object :: "nat \<Rightarrow> 'h \<Rightarrow> bool \<Rightarrow> bool \<Rightarrow> 'o \<Rightarrow> ('db, 'mdb) provider \<Rightarrow> ('o, 'h) storage_provider_object" where
  "management_object maxThreads h cc ic broker_oid P = snd (seqE
     [set_location (storeDir P), set_bdbBaseDir (getBdbBaseDir P), set_type ''BDB'',
      set_num_jfiles (word_of_int (prov_num_jfiles P)),
      set_num_thread_dequeue (word_of_int (num_thread_dequeue P)), set_num_thread_enqueue (word_of_int (num_thread_enqueue P)),
      set_compact (compactFlag (options P)), set_smart_async (enableSmartAsync (options P)),
      set_acceptRecovery (enableAcceptRecoveryFlag (options P)),
      set_mongoHost (acceptRecoveryMongoHost (options P)), set_mongoPort (acceptRecoveryMongoPort (options P)),
      set_mongoDbName (acceptRecoveryMongoDb (options P)), set_mongoCollection (acceptRecoveryMongoCollection (options P)),
      set_enqLogCleanerTimeInterval (word_of_int (enqLogCleanerTimeInterval (options P))),
      set_deqLogCleanerTimeInterval (word_of_int (deqLogCleanerTimeInterval (options P))),
      set_enqLogCleanerWarningSize (word_of_int (enqLogCleanerWarningSize (options P))),
      set_deqLogCleanerWarningSize (word_of_int (deqLogCleanerWarningSize (options P)))]
     (StorageProvider_new maxThreads h cc ic broker_oid))"

lemmas set_defs = set_brokerRef_def set_location_def set_bdbBaseDir_def set_type_def set_num_jfiles_def set_num_thread_enqueue_def
  set_num_thread_dequeue_def set_compact_def set_smart_async_def set_acceptRecovery_def set_mongoHost_def set_mongoPort_def
  set_mongoDbName_def set_mongoCollection_def set_enqLogCleanerTimeInterval_def set_deqLogCleanerTimeInterval_def
  set_enqLogCleanerWarningSize_def set_deqLogCleanerWarningSize_def

end
