(* ===== verification/ManagedEncoding.thy ===== *)
theory ManagedEncoding
  imports ManagedProvider
begin

text \<open>
  What the encodings of the management object of a provider promise. A console knows a class
  only by its schema, so the schema has to describe, element by element and type by type,
  what the object writes; what is written fits the buffer, has the size announced, and is
  read back.
\<close>

section \<open>Typed values\<close>

text \<open>A value with the type a schema can give it, the code of the type, its encoding in a buffer
  and as a variant.\<close>

datatype 'o qmf_value = Ref 'o | Sstr string | U32 u32 | U64 u64 | Boolean bool | Deltatime u64

fun type_code :: "('b, 'v, 'o, 'h) qmf \<Rightarrow> 'o qmf_value \<Rightarrow> u8" where
  "type_code L (Ref _) = TYPE_REF L"
| "type_code L (Sstr _) = TYPE_SSTR L"
| "type_code L (U32 _) = TYPE_U32 L"
| "type_code L (U64 _) = TYPE_U64 L"
| "type_code L (Boolean _) = TYPE_BOOL L"
| "type_code L (Deltatime _) = TYPE_DELTATIME L"

fun value_bytes :: "('b, 'v, 'o, 'h) qmf \<Rightarrow> encoding \<Rightarrow> 'o qmf_value \<Rightarrow> bytes" where
  "value_bytes L E (Ref x) = oid_encode L x"
| "value_bytes L E (Sstr x) = enc_sstr E x"
| "value_bytes L E (U32 x) = enc_long E x"
| "value_bytes L E (U64 x) = enc_longlong E x"
| "value_bytes L E (Boolean x) = enc_octet E (if x then 1 else 0)"
| "value_bytes L E (Deltatime x) = enc_longlong E x"

fun value_variant :: "('b, 'v, 'o, 'h) qmf \<Rightarrow> 'o qmf_value \<Rightarrow> 'v" where
  "value_variant L (Ref x) = of_oid L x"
| "value_variant L (Sstr x) = of_string L x"
| "value_variant L (U32 x) = of_uint32 L x"
| "value_variant L (U64 x) = of_uint64 L x"
| "value_variant L (Boolean x) = of_boolean L x"
| "value_variant L (Deltatime x) = of_uint64 L x"

text \<open>An element of a schema describes a named value: same name, the code of its type.\<close>

definition describes :: "('b, 'v, 'o, 'h) qmf \<Rightarrow> (string \<rightharpoonup> 'v) \<Rightarrow> string \<times> 'o qmf_value \<Rightarrow> bool" where
  "describes L ft nv \<longleftrightarrow> ft ''name'' = Some (of_string L (fst nv)) \<and> ft ''type'' = Some (of_uint8 L (type_code L (snd nv)))"

text \<open>The properties and the statistics as named values.\<close>

definition provider_values :: "('o, 'h) storage_provider_object \<Rightarrow> (string \<times> 'o qmf_value) list" where
  "provider_values ob =
     [(''brokerRef'', Ref (sp_brokerRef ob)),
      (''location'', Sstr (sp_location ob)),
      (''bdbBaseDir'', Sstr (sp_bdbBaseDir ob)),
      (''type'', Sstr (sp_type ob)),
      (''num_jfiles'', U32 (sp_num_jfiles ob)),
      (''num_thread_enqueue'', U32 (sp_num_thread_enqueue ob)),
      (''num_thread_dequeue'', U32 (sp_num_thread_dequeue ob)),
      (''compact'', Boolean (sp_compact ob)),
      (''smart_async'', Boolean (sp_smart_async ob)),
      (''acceptRecovery'', Boolean (sp_acceptRecovery ob)),
      (''mongoHost'', Sstr (sp_mongoHost ob)),
      (''mongoPort'', Sstr (sp_mongoPort ob)),
      (''mongoDbName'', Sstr (sp_mongoDbName ob)),
      (''mongoCollection'', Sstr (sp_mongoCollection ob)),
      (''enqLogCleanerTimeInterval'', U32 (sp_enqLogCleanerTimeInterval ob)),
      (''deqLogCleanerTimeInterval'', U32 (sp_deqLogCleanerTimeInterval ob)),
      (''enqLogCleanerWarningSize'', U32 (sp_enqLogCleanerWarningSize ob)),
      (''deqLogCleanerWarningSize'', U32 (sp_deqLogCleanerWarningSize ob))]"

definition statistics_values :: "per_thread_stats \<Rightarrow> (string \<times> 'o qmf_value) list" where
  "statistics_values T =
     [(''pendingAsyncEnqueue'', U32 (pendingAsyncEnqueue T)),
      (''pendingAsyncDequeue'', U32 (pendingAsyncDequeue T)),
      (''executedEnqueue'', U32 (executedEnqueue T)),
      (''executedDequeue'', U32 (executedDequeue T)),
      (''skippedEnqueue'', U32 (skippedEnqueue T)),
      (''skippedDequeue'', U32 (skippedDequeue T)),
      (''totalEnqueueTime'', U64 (totalEnqueueTime T)),
      (''totalDequeueTime'', U64 (totalDequeueTime T)),
      (''enqueueTimeSamples'', Deltatime (enqueueTimeCount T)),
      (''enqueueTimeMin'', Deltatime (if enqueueTimeCount T = 0 then 0 else enqueueTimeMin T)),
      (''enqueueTimeMax'', Deltatime (enqueueTimeMax T)),
      (''enqueueTimeAverage'', Deltatime (if enqueueTimeCount T = 0 then 0 else enqueueTimeTotal T div enqueueTimeCount T)),
      (''dequeueTimeSamples'', Deltatime (dequeueTimeCount T)),
      (''dequeueTimeMin'', Deltatime (if dequeueTimeCount T = 0 then 0 else dequeueTimeMin T)),
      (''dequeueTimeMax'', Deltatime (dequeueTimeMax T)),
      (''dequeueTimeAverage'', Deltatime (if dequeueTimeCount T = 0 then 0 else dequeueTimeTotal T div dequeueTimeCount T))]"

text \<open>The names a short string can hold.\<close>

definition strings_fit :: "('o, 'h) storage_provider_object \<Rightarrow> bool" where
  "strings_fit ob \<longleftrightarrow> list_all (\<lambda>s. length s \<le> 255)
     [sp_location ob, sp_bdbBaseDir ob, sp_type ob, sp_mongoHost ob, sp_mongoPort ob, sp_mongoDbName ob, sp_mongoCollection ob]"

text \<open>The object \<open>ob'\<close> with the properties and the time stamps of \<open>ob\<close>.\<close>

definition with_properties_of :: "('o, 'h) storage_provider_object \<Rightarrow> ('o, 'h) storage_provider_object \<Rightarrow> ('o, 'h) storage_provider_object" where
  "with_properties_of ob ob' =
     ob'\<lparr>sp_stamps := sp_stamps ob, sp_brokerRef := sp_brokerRef ob, sp_location := sp_location ob, sp_bdbBaseDir := sp_bdbBaseDir ob, sp_type :=
         sp_type ob, sp_num_jfiles := sp_num_jfiles ob, sp_num_thread_enqueue := sp_num_thread_enqueue ob,
         sp_num_thread_dequeue := sp_num_thread_dequeue ob, sp_compact := sp_compact ob, sp_smart_async := sp_smart_async ob,
         sp_acceptRecovery := sp_acceptRecovery ob, sp_mongoHost := sp_mongoHost ob, sp_mongoPort := sp_mongoPort ob,
         sp_mongoDbName := sp_mongoDbName ob, sp_mongoCollection := sp_mongoCollection ob, sp_enqLogCleanerTimeInterval :=
         sp_enqLogCleanerTimeInterval ob, sp_deqLogCleanerTimeInterval := sp_deqLogCleanerTimeInterval ob,
         sp_enqLogCleanerWarningSize := sp_enqLogCleanerWarningSize ob, sp_deqLogCleanerWarningSize :=
         sp_deqLogCleanerWarningSize ob\<rparr>"

section \<open>What is written\<close>

lemma object_okD:
  assumes "object_ok L"
  shows "length (oid_encode L x) = 16" and "oid_decode L (oid_encode L x) = Inr x" and "oid_encodedSize L = 16"
    and "length (writeTimestamps L h) = unat (writeTimestampsSize L)" and "unat (writeTimestampsSize L) \<le> 1000"
    and "readTimestamps L (writeTimestamps L h) h' = (Inr (), h)"
  using assms by (auto simp: object_ok_def word_le_nat_alt)

lemma provider_puts_ok:
  assumes "buffer_ok L H R E" and "strings_fit ob"
  shows "list_all2 (puts H) (provider_puts L ob) (writeTimestamps L (sp_stamps ob) # map (value_bytes L E \<circ> snd) (provider_values ob))"
  using assms(2) by (simp add: provider_puts_def provider_values_def strings_fit_def buffer_okD[OF assms(1)])

lemma provider_image_length:
  assumes "buffer_ok L H R E" and "object_ok L" and "strings_fit ob"
  shows "length (writeTimestamps L (sp_stamps ob) @ concat (map (value_bytes L E \<circ> snd) (provider_values ob))) =
     unat (writeTimestampsSize L) + 16 + 28 + 3 + 7 + length (sp_location ob) + length (sp_bdbBaseDir ob) + length (sp_type ob)
     + length (sp_mongoHost ob) + length (sp_mongoPort ob) + length (sp_mongoDbName ob) + length (sp_mongoCollection ob)"
  using assms(3) by (simp add: provider_values_def strings_fit_def buffer_okD[OF assms(1)] object_okD[OF assms(2)])

lemma provider_written:
  assumes "buffer_ok L H R E" and "object_ok L" and "strings_fit ob"
  shows "provider_writeProperties L ob =
    (Inr (writeTimestamps L (sp_stamps ob) @ concat (map (value_bytes L E \<circ> snd) (provider_values ob))), ob\<lparr>sp_configChanged := False\<rparr>)"
proof -
  have "length (concat (writeTimestamps L (sp_stamps ob) # map (value_bytes L E \<circ> snd) (provider_values ob))) \<le> bufSize"
    using provider_image_length[OF assms] object_okD(5)[OF assms(2)] assms(3) by (simp add: strings_fit_def bufSize_def)
  from written_puts[OF assms(1) provider_puts_ok[OF assms(1,3)] this] show ?thesis
    by (simp add: provider_writeProperties_def)
qed

text \<open>The size a management object announces for its properties is the number of bytes it
  writes, and the buffer of 65536 bytes on the stack is large enough for them, whatever the
  properties are, as long as every string fits a short string.\<close>

lemma writePropertiesSize_exact:
  assumes "buffer_ok L H R E" and "object_ok L" and "strings_fit ob" and "provider_writeProperties L ob = (Inr bs, ob')"
  shows "length bs = unat (provider_writePropertiesSize L ob) \<and> length bs < 3000"
proof -
  have len: "length bs = unat (writeTimestampsSize L) + 16 + 28 + 3 + 7 + length (sp_location ob) + length (sp_bdbBaseDir ob)
     + length (sp_type ob) + length (sp_mongoHost ob) + length (sp_mongoPort ob) + length (sp_mongoDbName ob) + length (sp_mongoCollection ob)"
    using provider_image_length[OF assms(1-3)] provider_written[OF assms(1-3)] assms(4) by simp
  then have small: "length bs < 3000"
    using object_okD(5)[OF assms(2)] assms(3) by (simp add: strings_fit_def)
  have "provider_writePropertiesSize L ob = of_nat (length bs)"
    unfolding len by (simp add: provider_writePropertiesSize_def)
  then show ?thesis
    using small unat_size by blast
qed

section \<open>What is read back\<close>

lemma bool_octet [simp]: "((if b then 1 else 0 :: u8) = 1) = b"
  by simp

lemma provider_reads:
  assumes "buffer_ok L H R E" and "object_ok L" and "strings_fit ob"
  shows "\<exists>k. reads R (seqE (provider_gets L)) (writeTimestamps L (sp_stamps ob) @ concat (map (value_bytes L E \<circ> snd) (provider_values ob))) k \<and>
    (\<forall>ob'. k ob' = with_properties_of ob ob')"
proof -
  have fit: "length (sp_location ob) \<le> 255" "length (sp_bdbBaseDir ob) \<le> 255" "length (sp_type ob) \<le> 255" "length (sp_mongoHost ob) \<le> 255"
    "length (sp_mongoPort ob) \<le> 255" "length (sp_mongoDbName ob) \<le> 255" "length (sp_mongoCollection ob) \<le> 255"
    using assms(3) by (simp_all add: strings_fit_def)
  show ?thesis
    unfolding provider_gets_def provider_values_def list.map concat.simps o_def snd_conv value_bytes.simps
    by (rule exI, rule conjI, (rule reads_stamps[OF assms(1,2)] reads_oid[OF assms(1,2)] reads_scalar[OF assms(1)] reads_Nil fit)+)
      (simp add: with_properties_of_def)
qed

text \<open>C24. Reading the properties that were written gives them back: writing succeeds within the buffer
  on the stack and gives as many bytes as announced, and an object that reads them gets all eighteen
  properties and the time stamps of the other, and keeps the rest of its state.\<close>

theorem properties_round_trip:
  assumes "buffer_ok L H R E" and "object_ok L" and "strings_fit ob"
  shows "\<exists>bs. fst (provider_writeProperties L ob) = Inr bs \<and> length bs = unat (provider_writePropertiesSize L ob)
    \<and> provider_readProperties L bs ob' = (Inr (), with_properties_of ob ob')"
proof -
  let ?bs = "writeTimestamps L (sp_stamps ob) @ concat (map (value_bytes L E \<circ> snd) (provider_values ob))"
  have "R (?bs @ []) (wrap_buffer L ?bs)" using assms(1) by (simp add: buffer_ok_def)
  then obtain b' where "seqE (provider_gets L) (ob', wrap_buffer L ?bs) = (Inr (), with_properties_of ob ob', b')"
    using provider_reads[OF assms] unfolding reads_def by metis
  then show ?thesis
    using writePropertiesSize_exact[OF assms] by (simp add: provider_written[OF assms] provider_readProperties_def)
qed

section \<open>The schema describes what is written\<close>

lemma element_simps [simp]:
  "describes L (property_element L nm ty i []) (nm', v) \<longleftrightarrow> of_string L nm = of_string L nm' \<and> of_uint8 L ty = of_uint8 L (type_code L v)"
  "describes L (property_element L nm ty i [(''desc'', d)]) (nm', v) \<longleftrightarrow> of_string L nm = of_string L nm' \<and> of_uint8 L ty = of_uint8 L (type_code L v)"
  "describes L (property_element L nm ty i [(''unit'', u), (''desc'', d)]) (nm', v) \<longleftrightarrow>
     of_string L nm = of_string L nm' \<and> of_uint8 L ty = of_uint8 L (type_code L v)"
  "describes L (statistic_element L nm ty ds) (nm', v) \<longleftrightarrow> of_string L nm = of_string L nm' \<and> of_uint8 L ty = of_uint8 L (type_code L v)"
  by (simp_all add: describes_def property_element_def statistic_element_def)

text \<open>C25. The schema a provider registers types what it writes: its eighteen property elements
  have, in order, the names and the types of the values that \<^verbatim>\<open>writeProperties\<close> writes one after
  the other behind the time stamps, and the map encoding holds exactly these names with
  these values.\<close>

theorem schema_types_properties:
  assumes "buffer_ok L H R E" and "object_ok L" and "strings_fit ob"
  shows "list_all2 (describes L) (provider_schema_properties L) (provider_values ob)
    \<and> length (provider_schema_properties L) = 18
    \<and> fst (provider_writeProperties L ob) = Inr (writeTimestamps L (sp_stamps ob) @ concat (map (value_bytes L E \<circ> snd) (provider_values ob)))
    \<and> fst (provider_mapEncodeValues L True False Map.empty ob) = map_of (map (\<lambda>(nm, v). (nm, value_variant L v)) (provider_values ob))"
proof (intro conjI)
  show "list_all2 (describes L) (provider_schema_properties L) (provider_values ob)" "length (provider_schema_properties L) = 18"
    by (simp_all add: provider_schema_properties_def provider_values_def)
  have "map (\<lambda>(nm, v). (nm, value_variant L v)) (provider_values ob) = provider_map_properties L ob"
    by (simp add: provider_values_def provider_map_properties_def)
  moreover have "distinct (map fst (provider_map_properties L ob))"
    by (simp add: provider_map_properties_def)
  ultimately show "fst (provider_mapEncodeValues L True False Map.empty ob) = map_of (map (\<lambda>(nm, v). (nm, value_variant L v)) (provider_values ob))"
    by (simp add: provider_mapEncodeValues_def assign_all_map_of)
qed (simp add: provider_written[OF assms])

section \<open>The map encoding\<close>

lemma decode_key_Some: "m k = Some v \<Longrightarrow> g v = Inr x \<Longrightarrow> seqE (decode_key m k g f # ms) s = seqE ms (f x s)"
  by (simp add: decode_key_def thenE_def bindE_def liftE_def modE_def)

lemma provider_map_lookup:
  assumes "(k, v) \<in> set (provider_map_properties L ob)"
  shows "fst (provider_mapEncodeValues L True st m ob) k = Some v"
proof -
  have "distinct (map fst (provider_map_properties L ob))" by (simp add: provider_map_properties_def)
  then have "assign_all (provider_map_properties L ob) m k = Some v" using assms by (rule assign_all_at)
  moreover have "k \<notin> fst ` set (provider_map_statistics L T)" for T
    using assms by (auto simp: provider_map_properties_def provider_map_statistics_def)
  ultimately show ?thesis by (simp add: provider_mapEncodeValues_def assign_all_other)
qed

text \<open>Decoding the map that was encoded gives the properties back, whatever the map held
  before and whether or not the statistics are encoded with them; decoding leaves the
  time stamps, the marks and the statistics of the object alone.\<close>

lemma map_round_trip:
  assumes "variant_ok L"
  shows "provider_mapDecodeValues L (fst (provider_mapEncodeValues L True st m ob)) ob' =
    (Inr (), with_properties_of (ob\<lparr>sp_stamps := sp_stamps ob'\<rparr>) ob')"
proof -
  have get: "get_string L (of_string L x) = Inr x" "to_uint32 L (of_uint32 L y) = Inr y"
    "to_boolean L (of_boolean L b) = Inr b" "to_oid L (of_oid L i) = Inr i" for x y b i
    using assms by (simp_all add: variant_ok_def)
  have "list_all (\<lambda>(k, v). fst (provider_mapEncodeValues L True st m ob) k = Some v) (provider_map_properties L ob)"
    by (auto simp: list_all_iff provider_map_lookup)
  then show ?thesis
    by (simp add: provider_map_properties_def provider_mapDecodeValues_def decode_key_Some get del: seqE_simps(2))
      (simp add: with_properties_of_def retE_def)
qed

end
