(* ===== verification/ManagedReports.thy ===== *)
theory ManagedReports
  imports ManagedEncoding Bindings
begin

text \<open>
  The reports of the statistics: what \<^verbatim>\<open>writeStatistics\<close> writes is typed by the schema, and any
  number of threads counting, each in its own record, gives the reports one shared record
  would give. The theory ends with a concrete library that has the documented behaviour.
\<close>

section \<open>A report\<close>

definition report_bytes :: "('b, 'v, 'o, 'h) qmf \<Rightarrow> encoding \<Rightarrow> bool \<Rightarrow> 'h \<Rightarrow> per_thread_stats \<Rightarrow> bytes" where
  "report_bytes L E skipHeaders h T =
     (if skipHeaders then [] else writeTimestamps L h) @
     concat (map (value_bytes L E \<circ> snd) (statistics_values T :: (string \<times> 'o qmf_value) list))"

lemma statistics_puts_ok:
  assumes "buffer_ok L H R E"
  shows "list_all2 (puts H) (provider_statistics_puts L T) (map (value_bytes L E \<circ> snd) (statistics_values T))"
  by (simp add: provider_statistics_puts_def statistics_values_def buffer_okD[OF assms])

lemma statistics_length:
  assumes "buffer_ok L H R E"
  shows "length (concat (map (value_bytes L E \<circ> snd) (statistics_values T))) = 104"
  by (simp add: statistics_values_def buffer_okD[OF assms])

lemma report_written:
  assumes "buffer_ok L H R E" and "object_ok L"
  shows "provider_writeStatistics L skipHeaders ob =
    (Inr (report_bytes L E skipHeaders (sp_stamps ob) (aggregatePerThreadStats (sp_stats ob))),
     ob\<lparr>sp_instChanged := False, sp_stats := map (map_option reset_hilo) (sp_stats ob)\<rparr>)"
proof -
  let ?T = "aggregatePerThreadStats (sp_stats ob)"
  let ?ps = "(if skipHeaders then [] else [put_RawData L (writeTimestamps L (sp_stamps ob))]) @ provider_statistics_puts L ?T"
  let ?bss = "(if skipHeaders then [] else [writeTimestamps L (sp_stamps ob)]) @ map (value_bytes L E \<circ> snd) (statistics_values ?T)"
  have "list_all2 (puts H) ?ps ?bss"
    using statistics_puts_ok[OF assms(1)] by (simp add: buffer_okD[OF assms(1)])
  moreover have "length (concat ?bss) \<le> bufSize"
    using statistics_length[OF assms(1), of ?T] object_okD(5)[OF assms(2)]
    by (simp add: object_okD(4)[OF assms(2)] bufSize_def del: concat_map_singleton)
  ultimately obtain b where "filled L ?ps = Inr b" "taken L b = Inr (concat ?bss)"
    using filled_puts[OF assms(1)] by blast
  then show ?thesis by (simp add: provider_writeStatistics_def Let_def report_bytes_def)
qed

text \<open>The schema types the statistics as well: its sixteen statistic elements have, in order,
  the names and the types of the values a report holds, namely the totals over all threads,
  with the least time and the mean given as 0 when nothing was timed.\<close>

theorem schema_types_statistics:
  assumes "buffer_ok L H R E" and "object_ok L"
  shows "list_all2 (describes L) (provider_schema_statistics L) (statistics_values (aggregatePerThreadStats (sp_stats ob)))
    \<and> length (provider_schema_statistics L) = 16
    \<and> fst (provider_writeStatistics L True ob) =
        Inr (concat (map (value_bytes L E \<circ> snd) (statistics_values (aggregatePerThreadStats (sp_stats ob)))))"
proof (intro conjI)
  show "list_all2 (describes L) (provider_schema_statistics L) (statistics_values (aggregatePerThreadStats (sp_stats ob)))"
    "length (provider_schema_statistics L) = 16"
    by (simp_all add: provider_schema_statistics_def statistics_values_def)
qed (simp add: report_written[OF assms] report_bytes_def)

section \<open>Counting in many records or in one\<close>

text \<open>What happens to the object: a thread calls one of the counting methods, or the agent
  takes a report.\<close>

datatype stat_op = Count nat stat_call | Report bool

fun stat_run :: "('b, 'v, 'o, 'h) qmf \<Rightarrow> stat_op list \<Rightarrow> (('o, 'h) storage_provider_object, bytes list) comp" where
  "stat_run L [] = retE []"
| "stat_run L (Count idx c # ops) = thenE (stat_method idx c) (stat_run L ops)"
| "stat_run L (Report skip # ops) =
     bindE (provider_writeStatistics L skip) (\<lambda>bs. bindE (stat_run L ops) (\<lambda>rs. retE (bs # rs)))"

text \<open>The same with one record for all threads.\<close>

fun one_record :: "('b, 'v, 'o, 'h) qmf \<Rightarrow> encoding \<Rightarrow> 'h \<Rightarrow> stat_op list \<Rightarrow> per_thread_stats \<Rightarrow> bytes list \<times> per_thread_stats" where
  "one_record L E h [] T = ([], T)"
| "one_record L E h (Count _ c # ops) T = one_record L E h ops (on_stats c T)"
| "one_record L E h (Report skip # ops) T =
     (case one_record L E h ops (reset_hilo T) of (rs, T') \<Rightarrow> (report_bytes L E skip h T # rs, T'))"

fun index_ok :: "nat \<Rightarrow> stat_op \<Rightarrow> bool" where
  "index_ok n (Count idx _) = (idx < n)"
| "index_ok n (Report _) = True"

lemma stat_method_runs:
  assumes "idx < length (sp_stats ob)"
  shows "\<exists>ob'. stat_method idx c ob = (Inr (), ob') \<and> length (sp_stats ob') = length (sp_stats ob) \<and> sp_stamps ob' = sp_stamps ob
    \<and> aggregatePerThreadStats (sp_stats ob') = on_stats c (aggregatePerThreadStats (sp_stats ob))"
  using assms by (simp add: stat_method_def count_call_runs call_aggregate)

text \<open>C15. The statistics are exact: whatever threads count whatever they count, in whatever
  order, and whenever reports are taken, the reports and the final totals are those of one
  record all of them had counted in. Splitting the statistics by thread loses and adds nothing,
  the counters wrap together, and every sample is in exactly one report.\<close>

theorem statistics_as_one_record:
  assumes "buffer_ok L H R E" and "object_ok L" and "list_all (index_ok (length (sp_stats ob))) ops"
  shows "\<exists>ob'. stat_run L ops ob = (Inr (fst (one_record L E (sp_stamps ob) ops (aggregatePerThreadStats (sp_stats ob)))), ob')
    \<and> aggregatePerThreadStats (sp_stats ob') = snd (one_record L E (sp_stamps ob) ops (aggregatePerThreadStats (sp_stats ob)))"
  using assms(3)
proof (induction ops arbitrary: ob)
  case Nil
  then show ?case by (simp add: retE_def)
next
  case (Cons op ops)
  show ?case
  proof (cases op)
    case (Count idx c)
    then have "idx < length (sp_stats ob)" using Cons.prems by simp
    then obtain ob1 where ob1: "stat_method idx c ob = (Inr (), ob1)" "length (sp_stats ob1) = length (sp_stats ob)"
        "sp_stamps ob1 = sp_stamps ob" "aggregatePerThreadStats (sp_stats ob1) = on_stats c (aggregatePerThreadStats (sp_stats ob))"
      using stat_method_runs by blast
    then show ?thesis using Cons.IH[of ob1] Cons.prems Count by (simp add: thenE_def bindE_def)
  next
    case (Report skip)
    then show ?thesis
      using Cons.IH[of "ob\<lparr>sp_instChanged := False, sp_stats := map (map_option reset_hilo) (sp_stats ob)\<rparr>"] Cons.prems
        report_written[OF assms(1,2)]
      by (auto simp: reset_aggregate bindE_def retE_def split: prod.splits)
  qed
qed

section \<open>A concrete library\<close>

text \<open>Buffers as their size, the bytes before the position and the bytes after it; variants as a
  tagged union; object ids of two 64-bit halves; one 64-bit time stamp.\<close>

datatype wit_variant = WString string | WUint8 u8 | WInt int | WUint32 u32 | WUint64 u64 | WBool bool | WOid "u64 \<times> u64"

type_synonym wit_buffer = "nat \<times> bytes \<times> bytes"

definition wit_put :: "('a \<Rightarrow> bytes) \<Rightarrow> 'a \<Rightarrow> (wit_buffer, unit) comp" where
  "wit_put e x = (\<lambda>(n, w, r). if length w + length (e x) \<le> n then (Inr (), (n, w @ e x, []))
                               else (Inl (QpidException ''out of bounds''), (n, w, r)))"

definition wit_get :: "nat \<Rightarrow> (bytes \<Rightarrow> 'a) \<Rightarrow> (wit_buffer, 'a) comp" where
  "wit_get k d = (\<lambda>(n, w, r). if k \<le> length r then (Inr (d (take k r)), (n, w @ take k r, drop k r))
                               else (Inl (QpidException ''out of bounds''), (n, w, r)))"

definition wit_sstr :: "string \<Rightarrow> bytes" where
  "wit_sstr s = word_of_nat (length s) # map (\<lambda>c. word_of_nat (of_char c)) s"

definition wit_get_sstr :: "(wit_buffer, string) comp" where
  "wit_get_sstr = (\<lambda>(n, w, r). (Inr (fst (short_get r)), (n, w @ take (length r - length (snd (short_get r))) r, snd (short_get r))))"

definition wit_oid_decode :: "bytes \<Rightarrow> exn + u64 \<times> u64" where
  "wit_oid_decode bs = Inr (bytes_u64 (take 8 bs), bytes_u64 (take 8 (drop 8 bs)))"

definition wit_qmf :: "(wit_buffer, wit_variant, u64 \<times> u64, u64) qmf" where
  "wit_qmf =
     \<lparr>new_buffer = \<lambda>n. (n, [], []), wrap_buffer = \<lambda>bs. (length bs, [], bs), put_Octet = wit_put (\<lambda>x. [x]),
      put_Short = wit_put (\<lambda>x. [ucast (drop_bit 8 x), ucast x]), put_Long = wit_put wit_putLong, put_LongLong = wit_put u64_bytes,
      put_ShortString = wit_put wit_sstr, put_Bin128 = wit_put id, put_RawData = wit_put id, put_Map = \<lambda>_. retE (),
      get_Octet = wit_get 1 hd, get_Long = wit_get 4 wit_getLong, get_ShortString = wit_get_sstr, get_RawData = \<lambda>n. wit_get (unat n) id,
      get_Position = \<lambda>(n, w, r). word_of_nat (length w), rewind = \<lambda>(n, w, r). (n, [], w @ r),
      of_string = WString, of_uint8 = WUint8, of_int32 = WInt, of_uint32 = WUint32, of_uint64 = WUint64, of_boolean = WBool, of_oid = WOid,
      get_string = \<lambda>v. case v of WString x \<Rightarrow> Inr x | _ \<Rightarrow> Inl (QpidException ''invalid conversion''),
      to_uint32 = \<lambda>v. case v of WUint32 x \<Rightarrow> Inr x | _ \<Rightarrow> Inl (QpidException ''invalid conversion''),
      to_boolean = \<lambda>v. case v of WBool x \<Rightarrow> Inr x | _ \<Rightarrow> Inl (QpidException ''invalid conversion''),
      to_oid = \<lambda>v. case v of WOid x \<Rightarrow> Inr x | _ \<Rightarrow> Inl (QpidException ''invalid conversion''),
      null_oid = (0, 0), oid_encode = \<lambda>(a, b). u64_bytes a @ u64_bytes b, oid_decode = wit_oid_decode, oid_encodedSize = 16,
      getV2Key = \<lambda>_. ''broker'', writeTimestampsSize = 8, writeTimestamps = u64_bytes,
      readTimestamps = \<lambda>bs _. (Inr (), bytes_u64 bs), status_unknown_method = 1, StatusText = \<lambda>_. ''UnknownMethod'',
      CLASS_KIND_TABLE = 1, CLASS_KIND_EVENT = 2, TYPE_REF = 10, TYPE_SSTR = 6, TYPE_U32 = 3, TYPE_U64 = 4, TYPE_BOOL = 11,
      TYPE_DELTATIME = 9, ACCESS_RO = 3\<rparr>"

definition wit_enc :: encoding where
  "wit_enc = \<lparr>enc_octet = \<lambda>x. [x], enc_long = wit_putLong, enc_longlong = u64_bytes, enc_sstr = wit_sstr\<rparr>"

definition wit_holds :: "nat \<Rightarrow> bytes \<Rightarrow> wit_buffer \<Rightarrow> bool" where
  "wit_holds n w b \<longleftrightarrow> b = (n, w, [])"

definition wit_rest :: "bytes \<Rightarrow> wit_buffer \<Rightarrow> bool" where
  "wit_rest r b \<longleftrightarrow> snd (snd b) = r"

lemma wit_puts: "puts wit_holds (wit_put e x) (e x)"
  by (simp add: puts_def wit_holds_def wit_put_def)

lemma wit_gets: "length bs = k \<Longrightarrow> d bs = x \<Longrightarrow> gets wit_rest (wit_get k d) bs x"
  by (auto simp: gets_def wit_rest_def wit_get_def)

lemma wit_gets_sstr: "length s \<le> 255 \<Longrightarrow> gets wit_rest wit_get_sstr (wit_sstr s) s"
  using wit_wire_laws by (auto simp: gets_def wit_rest_def wit_get_sstr_def wit_sstr_def wire_laws_def wit_wire_def)

lemma wit_long: "length (wit_putLong x) = 4" "wit_getLong (wit_putLong x) = x"
  using wit_long_codec unfolding long_codec_def by (simp, metis append_Nil2)

lemma wit_buffer_ok: "buffer_ok wit_qmf wit_holds wit_rest wit_enc"
proof -
  have "fst (wit_get (unat (word_of_nat (length w) :: u32)) id (n, [], w)) = Inr w" if "length w < 2 ^ 32" for n w
    using that by (simp add: wit_get_def unat_of_nat take_bit_nat_eq_self)
  then show ?thesis
    by (simp add: buffer_ok_def codec_ok_def wit_qmf_def wit_enc_def wit_puts wit_gets wit_gets_sstr wit_long wit_puts[of id, simplified] wit_puts[of "\<lambda>x. [x]"])
      (auto simp: wit_holds_def wit_rest_def wit_sstr_def)
qed

lemma wit_object_ok: "object_ok wit_qmf"
  by (auto simp: object_ok_def wit_qmf_def wit_oid_decode_def)

lemma wit_variant_ok: "variant_ok wit_qmf"
  by (simp add: variant_ok_def wit_qmf_def)

text \<open>The management object of a provider with the default options.\<close>

definition wit_object :: "(u64 \<times> u64, u64) storage_provider_object" where
  "wit_object = management_object 4 7 True True (1, 2) wit_provider"

lemma wit_strings_fit: "strings_fit wit_object"
  by (simp add: strings_fit_def wit_object_def management_object_def StorageProvider_new_def wit_provider_def BdbStoreProvider_new_def
      StoreOptions_def getBdbBaseDir_def storeTopLevelDir_def set_defs thenE_def bindE_def modE_def retE_def)

lemma wit_stats_empty: "sp_stats wit_object = [None, None, None, None]"
  by (simp add: wit_object_def management_object_def StorageProvider_new_def set_defs thenE_def bindE_def modE_def retE_def
      numeral_eq_Suc)

theorem schema_types_statistics_witness:
  "length (provider_schema_statistics wit_qmf) = 16 \<and>
   fst (provider_writeStatistics wit_qmf True wit_object) = Inr (replicate 104 0)"
  using schema_types_statistics[OF wit_buffer_ok wit_object_ok, of wit_object]
  by (simp add: wit_stats_empty aggregatePerThreadStats_def initial_stats_def statistics_values_def wit_enc_def u64_bytes_def wit_putLong_def
      numeral_eq_Suc upt_rec)

text \<open>Two threads count, a report is taken, a third thread counts, a second report is taken.\<close>

definition wit_ops :: "stat_op list" where
  "wit_ops = [Count 0 (Inc_pendingAsyncEnqueue 1), Count 1 (Dec_pendingAsyncEnqueue 1), Count 1 (Set_enqueueTime 30),
     Count 0 (Inc_executedEnqueue 1), Report True, Count 3 (Inc_executedEnqueue 1), Report True]"

theorem statistics_as_one_record_witness:
  "\<exists>ob'. fst (stat_run wit_qmf wit_ops wit_object) = Inr (fst (one_record wit_qmf wit_enc (sp_stamps wit_object) wit_ops initial_stats))
    \<and> snd (stat_run wit_qmf wit_ops wit_object) = ob' \<and> executedEnqueue (aggregatePerThreadStats (sp_stats ob')) = 2
    \<and> pendingAsyncEnqueue (aggregatePerThreadStats (sp_stats ob')) = 0"
proof -
  have "list_all (index_ok (length (sp_stats wit_object))) wit_ops" by (simp add: wit_stats_empty wit_ops_def)
  from statistics_as_one_record[OF wit_buffer_ok wit_object_ok this] obtain ob' where
    "stat_run wit_qmf wit_ops wit_object = (Inr (fst (one_record wit_qmf wit_enc (sp_stamps wit_object) wit_ops initial_stats)), ob')"
    "aggregatePerThreadStats (sp_stats ob') = snd (one_record wit_qmf wit_enc (sp_stamps wit_object) wit_ops initial_stats)"
    by (auto simp: wit_stats_empty aggregatePerThreadStats_def)
  then show ?thesis by (simp add: wit_ops_def initial_stats_def reset_hilo_def)
qed

theorem properties_round_trip_witness:
  "\<exists>bs ob'. fst (provider_writeProperties wit_qmf wit_object) = Inr bs \<and>
     provider_readProperties wit_qmf bs (StorageProvider_new 4 0 True True (0, 0)) = (Inr (), ob') \<and> sp_mongoPort ob' = ''27017''"
proof -
  have "sp_mongoPort wit_object = ''27017''"
    by (simp add: wit_object_def management_object_def StorageProvider_new_def wit_provider_def BdbStoreProvider_new_def
        StoreOptions_def set_defs thenE_def bindE_def modE_def retE_def)
  then show ?thesis
    using properties_round_trip[OF wit_buffer_ok wit_object_ok wit_strings_fit, of "StorageProvider_new 4 0 True True (0, 0)"]
    by (auto simp: with_properties_of_def)
qed

theorem schema_types_properties_witness:
  "length (provider_schema_properties wit_qmf) = 18 \<and>
   fst (provider_mapEncodeValues wit_qmf True False Map.empty wit_object) ''brokerRef'' = Some (WOid (1, 2))"
proof -
  have "sp_brokerRef wit_object = (1, 2)"
    by (simp add: wit_object_def management_object_def StorageProvider_new_def set_defs thenE_def bindE_def modE_def retE_def)
  then show ?thesis
    using schema_types_properties[OF wit_buffer_ok wit_object_ok wit_strings_fit] by (simp add: provider_values_def wit_qmf_def)
qed

lemma map_round_trip_here:
  "provider_mapDecodeValues wit_qmf (fst (provider_mapEncodeValues wit_qmf True True Map.empty wit_object)) wit_object = (Inr (), wit_object)"
  using map_round_trip[OF wit_variant_ok, of True Map.empty wit_object wit_object] by (simp add: with_properties_of_def)

end
