(* ===== verification/ManagedJournal.thy ===== *)
theory ManagedJournal
  imports ManagedReports
begin

text \<open>
  The other management classes of \<^verbatim>\<open>lib/gen/qmf\<close>: \<^verbatim>\<open>Journal\<close>, the object of one journal, which has
  properties but no statistics; the four events; and \<^verbatim>\<open>Package\<close>, which registers all of them.
\<close>

section \<open>The object of a journal\<close>

record ('o, 'h) journal_object =
  jo_stamps :: 'h
  jo_configChanged :: bool
  jo_instChanged :: bool
  jo_queueRef :: 'o
  jo_name :: string
  jo_directory :: string
  jo_bdbDir :: string
  jo_num_jfiles :: u32

definition Journal_new :: "('b, 'v, 'o, 'h) qmf \<Rightarrow> 'h \<Rightarrow> bool \<Rightarrow> bool \<Rightarrow> ('o, 'h) journal_object" where
  "Journal_new L h cc ic = \<lparr>jo_stamps = h, jo_configChanged = cc, jo_instChanged = ic, jo_queueRef = null_oid L,
     jo_name = [], jo_directory = [], jo_bdbDir = [], jo_num_jfiles = 0\<rparr>"

definition jset_queueRef :: "'o \<Rightarrow> (('o, 'h) journal_object, unit) comp" where
  "jset_queueRef val = modE (\<lambda>ob. ob\<lparr>jo_queueRef := val, jo_configChanged := True\<rparr>)"

definition jset_name :: "string \<Rightarrow> (('o, 'h) journal_object, unit) comp" where
  "jset_name val = modE (\<lambda>ob. ob\<lparr>jo_name := val, jo_configChanged := True\<rparr>)"

definition jset_directory :: "string \<Rightarrow> (('o, 'h) journal_object, unit) comp" where
  "jset_directory val = modE (\<lambda>ob. ob\<lparr>jo_directory := val, jo_configChanged := True\<rparr>)"

definition jset_bdbDir :: "string \<Rightarrow> (('o, 'h) journal_object, unit) comp" where
  "jset_bdbDir val = modE (\<lambda>ob. ob\<lparr>jo_bdbDir := val, jo_configChanged := True\<rparr>)"

definition jset_num_jfiles :: "u32 \<Rightarrow> (('o, 'h) journal_object, unit) comp" where
  "jset_num_jfiles val = modE (\<lambda>ob. ob\<lparr>jo_num_jfiles := val, jo_configChanged := True\<rparr>)"

text \<open>\<^verbatim>\<open>setReference\<close> sets the reference without the mark; there are no statistics to change.\<close>

definition setReference :: "'o \<Rightarrow> (('o, 'h) journal_object, unit) comp" where
  "setReference oid = modE (\<lambda>ob. ob\<lparr>jo_queueRef := oid\<rparr>)"

definition journal_getInstChanged :: "('o, 'h) journal_object \<Rightarrow> bool" where
  "journal_getInstChanged ob = False"

definition journal_hasInst :: "('o, 'h) journal_object \<Rightarrow> bool" where
  "journal_hasInst ob = False"

definition journal_className :: string where
  "journal_className = ''journal''"

definition journal_md5Sum :: "u8 list" where
  "journal_md5Sum = [0xa7,0xb5,0x73,0xab,0x54,0x77,0x4,0xaa,0x23,0x26,0x1b,0xf1,0x7d,0xf3,0xa5,0x33]"

definition journal_schema_properties :: "('b, 'v, 'o, 'h) qmf \<Rightarrow> (string \<rightharpoonup> 'v) list" where
  "journal_schema_properties L =
     [property_element L ''queueRef'' (TYPE_REF L) 0 [],
      property_element L ''name'' (TYPE_SSTR L) 1 [],
      property_element L ''directory'' (TYPE_SSTR L) 0 [(''desc'', of_string L ''Directory containing journal files'')],
      property_element L ''bdbDir'' (TYPE_SSTR L) 0 [(''desc'', of_string L ''Berkeley DB directory'')],
      property_element L ''num_jfiles'' (TYPE_U32 L) 0 [(''desc'', of_string L ''Number of files used for this journal'')]]"

definition journal_writeSchema :: "('b, 'v, 'o, 'h) qmf \<Rightarrow> exn + bytes" where
  "journal_writeSchema L = written L
     ([put_Octet L (CLASS_KIND_TABLE L), put_ShortString L provider_packageName, put_ShortString L journal_className,
       put_Bin128 L journal_md5Sum, put_Short L 5, put_Short L 0, put_Short L 0] @ map (put_Map L) (journal_schema_properties L))"

definition journal_writePropertiesSize :: "('b, 'v, 'o, 'h) qmf \<Rightarrow> ('o, 'h) journal_object \<Rightarrow> u32" where
  "journal_writePropertiesSize L ob = writeTimestampsSize L + 16 + of_nat (1 + length (jo_name ob))
     + of_nat (1 + length (jo_directory ob)) + of_nat (1 + length (jo_bdbDir ob)) + 4"

definition journal_gets :: "('b, 'v, 'o, 'h) qmf \<Rightarrow> (('o, 'h) journal_object \<times> 'b, unit) comp list" where
  "journal_gets L =
     [from_buf (get_RawData L (writeTimestampsSize L)) (\<lambda>tbuf ob. case readTimestamps L tbuf (jo_stamps ob) of (r, h) \<Rightarrow> (r, ob\<lparr>jo_stamps := h\<rparr>)),
      from_buf (get_RawData L (oid_encodedSize L)) (\<lambda>s. bindE (liftE (oid_decode L s)) (\<lambda>x. modE (\<lambda>ob. ob\<lparr>jo_queueRef := x\<rparr>))),
      from_buf (get_ShortString L) (\<lambda>x. modE (\<lambda>ob. ob\<lparr>jo_name := x\<rparr>)),
      from_buf (get_ShortString L) (\<lambda>x. modE (\<lambda>ob. ob\<lparr>jo_directory := x\<rparr>)),
      from_buf (get_ShortString L) (\<lambda>x. modE (\<lambda>ob. ob\<lparr>jo_bdbDir := x\<rparr>)),
      from_buf (get_Long L) (\<lambda>x. modE (\<lambda>ob. ob\<lparr>jo_num_jfiles := x\<rparr>))]"

definition journal_readProperties :: "('b, 'v, 'o, 'h) qmf \<Rightarrow> bytes \<Rightarrow> (('o, 'h) journal_object, unit) comp" where
  "journal_readProperties L sBuf ob =
     (case seqE (journal_gets L) (ob, wrap_buffer L sBuf) of (r, (ob', _)) \<Rightarrow> (r, ob'))"

definition journal_writeProperties :: "('b, 'v, 'o, 'h) qmf \<Rightarrow> (('o, 'h) journal_object, bytes) comp" where
  "journal_writeProperties L ob =
     (written L [put_RawData L (writeTimestamps L (jo_stamps ob)), put_RawData L (oid_encode L (jo_queueRef ob)),
        put_ShortString L (jo_name ob), put_ShortString L (jo_directory ob), put_ShortString L (jo_bdbDir ob), put_Long L (jo_num_jfiles ob)],
      ob\<lparr>jo_configChanged := False\<rparr>)"

definition journal_writeStatistics :: "('b, 'v, 'o, 'h) qmf \<Rightarrow> bool \<Rightarrow> (('o, 'h) journal_object, bytes) comp" where
  "journal_writeStatistics L skipHeaders ob =
     (written L (if skipHeaders then [] else [put_RawData L (writeTimestamps L (jo_stamps ob))]), ob\<lparr>jo_instChanged := False\<rparr>)"

definition journal_doMethod :: "('b, 'v, 'o, 'h) qmf \<Rightarrow> string \<Rightarrow> bytes \<Rightarrow> exn + bytes" where
  "journal_doMethod L methodName inStr =
     written L [put_Long L (status_unknown_method L), put_ShortString L (StatusText L (status_unknown_method L))]"

definition journal_getKey :: "('o, 'h) journal_object \<Rightarrow> string" where
  "journal_getKey ob = jo_name ob"

definition journal_map_properties :: "('b, 'v, 'o, 'h) qmf \<Rightarrow> ('o, 'h) journal_object \<Rightarrow> (string \<times> 'v) list" where
  "journal_map_properties L ob =
     [(''queueRef'', of_oid L (jo_queueRef ob)), (''name'', of_string L (jo_name ob)), (''directory'', of_string L (jo_directory ob)),
      (''bdbDir'', of_string L (jo_bdbDir ob)), (''num_jfiles'', of_uint32 L (jo_num_jfiles ob))]"

definition journal_mapEncodeValues :: "('b, 'v, 'o, 'h) qmf \<Rightarrow> bool \<Rightarrow> bool \<Rightarrow> (string \<rightharpoonup> 'v) \<Rightarrow>
    ('o, 'h) journal_object \<Rightarrow> (string \<rightharpoonup> 'v) \<times> ('o, 'h) journal_object" where
  "journal_mapEncodeValues L includeProperties includeStatistics m ob =
     (let (m, ob) = (if includeProperties then (assign_all (journal_map_properties L ob) m, ob\<lparr>jo_configChanged := False\<rparr>) else (m, ob))
      in (m, if includeStatistics then ob\<lparr>jo_instChanged := False\<rparr> else ob))"

definition journal_mapDecodeValues :: "('b, 'v, 'o, 'h) qmf \<Rightarrow> (string \<rightharpoonup> 'v) \<Rightarrow> (('o, 'h) journal_object, unit) comp" where
  "journal_mapDecodeValues L m = seqE
     [decode_key m ''queueRef'' (to_oid L) (\<lambda>x ob. ob\<lparr>jo_queueRef := x\<rparr>),
      decode_key m ''name'' (get_string L) (\<lambda>x ob. ob\<lparr>jo_name := x\<rparr>),
      decode_key m ''directory'' (get_string L) (\<lambda>x ob. ob\<lparr>jo_directory := x\<rparr>),
      decode_key m ''bdbDir'' (get_string L) (\<lambda>x ob. ob\<lparr>jo_bdbDir := x\<rparr>),
      decode_key m ''num_jfiles'' (to_uint32 L) (\<lambda>x ob. ob\<lparr>jo_num_jfiles := x\<rparr>)]"

definition journal_doMethod_map :: "('b, 'v, 'o, 'h) qmf \<Rightarrow> string \<Rightarrow> (string \<rightharpoonup> 'v) \<Rightarrow> (string \<rightharpoonup> 'v) \<Rightarrow> (string \<rightharpoonup> 'v)" where
  "journal_doMethod_map L methodName inMap outMap =
     assign_all [(''_status_code'', of_uint32 L (status_unknown_method L)),
                 (''_status_text'', of_string L (StatusText L (status_unknown_method L)))] outMap"

text \<open>The object \<^verbatim>\<open>JournalImpl\<close> creates for itself when it has an agent: the number of files is left for
  \<^verbatim>\<open>initialize\<close>, which does not set it.\<close>

definition journal_management_object :: "('b, 'v, 'o, 'h) qmf \<Rightarrow> 'h \<Rightarrow> bool \<Rightarrow> bool \<Rightarrow> 'db journal \<Rightarrow> ('o, 'h) journal_object" where
  "journal_management_object L h cc ic J = snd (seqE
     [jset_name (journalName J), jset_directory (journalDirectory J), jset_bdbDir (bdbDir J)] (Journal_new L h cc ic))"

section \<open>Events\<close>

definition argument_element :: "('b, 'v, 'o, 'h) qmf \<Rightarrow> string \<Rightarrow> string \<Rightarrow> (string \<rightharpoonup> 'v)" where
  "argument_element L nm desc =
     assign_all [(''name'', of_string L nm), (''type'', of_uint8 L (TYPE_SSTR L)), (''desc'', of_string L desc)] Map.empty"

definition EventCreated_name :: string where
  "EventCreated_name = ''created''"

definition EventCreated_md5Sum :: "u8 list" where
  "EventCreated_md5Sum = [0x32,0x0,0x49,0x34,0xc8,0xdd,0xdd,0x2f,0x3c,0x3,0xd2,0x59,0x56,0x3c,0x80,0x97]"

definition EventCreated_severity :: u8 where
  "EventCreated_severity = 5"

definition EventCreated_elements :: "('b, 'v, 'o, 'h) qmf \<Rightarrow> (string \<rightharpoonup> 'v) list" where
  "EventCreated_elements L = [argument_element L ''jrnlId'' ''Journal Id'']"

definition EventCreated_writeSchema :: "('b, 'v, 'o, 'h) qmf \<Rightarrow> exn + bytes" where
  "EventCreated_writeSchema L = written L
     ([put_Octet L (CLASS_KIND_EVENT L), put_ShortString L provider_packageName, put_ShortString L EventCreated_name,
       put_Bin128 L EventCreated_md5Sum, put_Short L 1] @ map (put_Map L) (EventCreated_elements L))"

definition EventCreated_encode :: "('b, 'v, 'o, 'h) qmf \<Rightarrow> string \<Rightarrow> exn + bytes" where
  "EventCreated_encode L jrnlId = written L [put_ShortString L jrnlId]"

definition EventCreated_mapEncode :: "('b, 'v, 'o, 'h) qmf \<Rightarrow> string \<Rightarrow> (string \<rightharpoonup> 'v) \<Rightarrow> (string \<rightharpoonup> 'v)" where
  "EventCreated_mapEncode L jrnlId m = assign_all [(''jrnlId'', of_string L jrnlId)] m"

definition EventEnqThresholdExceeded_name :: string where
  "EventEnqThresholdExceeded_name = ''enqThresholdExceeded''"

definition EventEnqThresholdExceeded_md5Sum :: "u8 list" where
  "EventEnqThresholdExceeded_md5Sum = [0x5b,0x1f,0xd4,0x87,0x9c,0xf6,0x1e,0xc3,0xdc,0x3e,0xc4,0x4,0x49,0xf3,0xa8,0xf3]"

definition EventEnqThresholdExceeded_severity :: u8 where
  "EventEnqThresholdExceeded_severity = 4"

definition EventEnqThresholdExceeded_elements :: "('b, 'v, 'o, 'h) qmf \<Rightarrow> (string \<rightharpoonup> 'v) list" where
  "EventEnqThresholdExceeded_elements L = [argument_element L ''jrnlId'' ''Journal Id'', argument_element L ''what'' ''Description of event'']"

definition EventEnqThresholdExceeded_writeSchema :: "('b, 'v, 'o, 'h) qmf \<Rightarrow> exn + bytes" where
  "EventEnqThresholdExceeded_writeSchema L = written L
     ([put_Octet L (CLASS_KIND_EVENT L), put_ShortString L provider_packageName, put_ShortString L EventEnqThresholdExceeded_name,
       put_Bin128 L EventEnqThresholdExceeded_md5Sum, put_Short L 2] @ map (put_Map L) (EventEnqThresholdExceeded_elements L))"

definition EventEnqThresholdExceeded_encode :: "('b, 'v, 'o, 'h) qmf \<Rightarrow> string \<Rightarrow> string \<Rightarrow> exn + bytes" where
  "EventEnqThresholdExceeded_encode L jrnlId what = written L [put_ShortString L jrnlId, put_ShortString L what]"

definition EventEnqThresholdExceeded_mapEncode :: "('b, 'v, 'o, 'h) qmf \<Rightarrow> string \<Rightarrow> string \<Rightarrow> (string \<rightharpoonup> 'v) \<Rightarrow> (string \<rightharpoonup> 'v)" where
  "EventEnqThresholdExceeded_mapEncode L jrnlId what m = assign_all [(''jrnlId'', of_string L jrnlId), (''what'', of_string L what)] m"

definition EventFull_name :: string where
  "EventFull_name = ''full''"

definition EventFull_md5Sum :: "u8 list" where
  "EventFull_md5Sum = [0x23,0x4c,0x70,0xc1,0xb0,0xeb,0x4e,0x5d,0x72,0x37,0x56,0x60,0xc3,0x10,0x78,0x68]"

definition EventFull_severity :: u8 where
  "EventFull_severity = 3"

definition EventFull_elements :: "('b, 'v, 'o, 'h) qmf \<Rightarrow> (string \<rightharpoonup> 'v) list" where
  "EventFull_elements L = [argument_element L ''jrnlId'' ''Journal Id'', argument_element L ''what'' ''Description of event'']"

definition EventFull_writeSchema :: "('b, 'v, 'o, 'h) qmf \<Rightarrow> exn + bytes" where
  "EventFull_writeSchema L = written L
     ([put_Octet L (CLASS_KIND_EVENT L), put_ShortString L provider_packageName, put_ShortString L EventFull_name,
       put_Bin128 L EventFull_md5Sum, put_Short L 2] @ map (put_Map L) (EventFull_elements L))"

definition EventFull_encode :: "('b, 'v, 'o, 'h) qmf \<Rightarrow> string \<Rightarrow> string \<Rightarrow> exn + bytes" where
  "EventFull_encode L jrnlId what = written L [put_ShortString L jrnlId, put_ShortString L what]"

definition EventFull_mapEncode :: "('b, 'v, 'o, 'h) qmf \<Rightarrow> string \<Rightarrow> string \<Rightarrow> (string \<rightharpoonup> 'v) \<Rightarrow> (string \<rightharpoonup> 'v)" where
  "EventFull_mapEncode L jrnlId what m = assign_all [(''jrnlId'', of_string L jrnlId), (''what'', of_string L what)] m"

definition EventRecovered_name :: string where
  "EventRecovered_name = ''recovered''"

definition EventRecovered_md5Sum :: "u8 list" where
  "EventRecovered_md5Sum = [0x9d,0x3b,0x9e,0x3e,0x5a,0x17,0x74,0x2e,0xbc,0xd5,0xa3,0x6b,0xc2,0x7d,0x90,0x51]"

definition EventRecovered_severity :: u8 where
  "EventRecovered_severity = 5"

definition EventRecovered_elements :: "('b, 'v, 'o, 'h) qmf \<Rightarrow> (string \<rightharpoonup> 'v) list" where
  "EventRecovered_elements L = [argument_element L ''jrnlId'' ''Journal Id'']"

definition EventRecovered_writeSchema :: "('b, 'v, 'o, 'h) qmf \<Rightarrow> exn + bytes" where
  "EventRecovered_writeSchema L = written L
     ([put_Octet L (CLASS_KIND_EVENT L), put_ShortString L provider_packageName, put_ShortString L EventRecovered_name,
       put_Bin128 L EventRecovered_md5Sum, put_Short L 1] @ map (put_Map L) (EventRecovered_elements L))"

definition EventRecovered_encode :: "('b, 'v, 'o, 'h) qmf \<Rightarrow> string \<Rightarrow> exn + bytes" where
  "EventRecovered_encode L jrnlId = written L [put_ShortString L jrnlId]"

definition EventRecovered_mapEncode :: "('b, 'v, 'o, 'h) qmf \<Rightarrow> string \<Rightarrow> (string \<rightharpoonup> 'v) \<Rightarrow> (string \<rightharpoonup> 'v)" where
  "EventRecovered_mapEncode L jrnlId m = assign_all [(''jrnlId'', of_string L jrnlId)] m"

section \<open>Registration\<close>

text \<open>What the agent is given, in order: the kind, the package, the name, the hash and the schema
  writer of each class.\<close>

datatype registration_kind = RegisterClass | RegisterEvent

definition Package :: "('b, 'v, 'o, 'h) qmf \<Rightarrow> (registration_kind \<times> string \<times> string \<times> u8 list \<times> (exn + bytes)) list" where
  "Package L =
     [(RegisterClass, provider_packageName, provider_className, provider_md5Sum, provider_writeSchema L),
      (RegisterClass, provider_packageName, journal_className, journal_md5Sum, journal_writeSchema L),
      (RegisterEvent, provider_packageName, EventEnqThresholdExceeded_name, EventEnqThresholdExceeded_md5Sum, EventEnqThresholdExceeded_writeSchema L),
      (RegisterEvent, provider_packageName, EventCreated_name, EventCreated_md5Sum, EventCreated_writeSchema L),
      (RegisterEvent, provider_packageName, EventFull_name, EventFull_md5Sum, EventFull_writeSchema L),
      (RegisterEvent, provider_packageName, EventRecovered_name, EventRecovered_md5Sum, EventRecovered_writeSchema L)]"

section \<open>The journal's encodings\<close>

definition journal_values :: "('o, 'h) journal_object \<Rightarrow> (string \<times> 'o qmf_value) list" where
  "journal_values ob = [(''queueRef'', Ref (jo_queueRef ob)), (''name'', Sstr (jo_name ob)), (''directory'', Sstr (jo_directory ob)),
     (''bdbDir'', Sstr (jo_bdbDir ob)), (''num_jfiles'', U32 (jo_num_jfiles ob))]"

definition jstrings_fit :: "('o, 'h) journal_object \<Rightarrow> bool" where
  "jstrings_fit ob \<longleftrightarrow> length (jo_name ob) \<le> 255 \<and> length (jo_directory ob) \<le> 255 \<and> length (jo_bdbDir ob) \<le> 255"

lemma journal_written:
  assumes "buffer_ok L H R E" and "object_ok L" and "jstrings_fit ob"
  shows "journal_writeProperties L ob =
    (Inr (writeTimestamps L (jo_stamps ob) @ concat (map (value_bytes L E \<circ> snd) (journal_values ob))), ob\<lparr>jo_configChanged := False\<rparr>)"
    and "length (writeTimestamps L (jo_stamps ob) @ concat (map (value_bytes L E \<circ> snd) (journal_values ob))) =
      unat (writeTimestampsSize L) + 23 + length (jo_name ob) + length (jo_directory ob) + length (jo_bdbDir ob)"
proof -
  let ?bss = "writeTimestamps L (jo_stamps ob) # map (value_bytes L E \<circ> snd) (journal_values ob)"
  show len: "length (writeTimestamps L (jo_stamps ob) @ concat (map (value_bytes L E \<circ> snd) (journal_values ob))) =
      unat (writeTimestampsSize L) + 23 + length (jo_name ob) + length (jo_directory ob) + length (jo_bdbDir ob)"
    using assms(3) by (simp add: journal_values_def jstrings_fit_def buffer_okD[OF assms(1)] object_okD[OF assms(2)])
  have short: "length (concat ?bss) \<le> bufSize"
    using len object_okD(5)[OF assms(2)] assms(3) by (simp add: jstrings_fit_def bufSize_def)
  have "list_all2 (puts H) [put_RawData L (writeTimestamps L (jo_stamps ob)), put_RawData L (oid_encode L (jo_queueRef ob)),
      put_ShortString L (jo_name ob), put_ShortString L (jo_directory ob), put_ShortString L (jo_bdbDir ob), put_Long L (jo_num_jfiles ob)] ?bss"
    using assms(3) by (simp add: journal_values_def jstrings_fit_def buffer_okD[OF assms(1)])
  from written_puts[OF assms(1) this short] show "journal_writeProperties L ob =
    (Inr (writeTimestamps L (jo_stamps ob) @ concat (map (value_bytes L E \<circ> snd) (journal_values ob))), ob\<lparr>jo_configChanged := False\<rparr>)"
    by (simp add: journal_writeProperties_def)
qed

lemma journal_reads:
  assumes "buffer_ok L H R E" and "object_ok L" and "jstrings_fit ob"
  shows "\<exists>k. reads R (seqE (journal_gets L)) (writeTimestamps L (jo_stamps ob) @ concat (map (value_bytes L E \<circ> snd) (journal_values ob))) k \<and>
    (\<forall>ob'. k ob' = ob\<lparr>jo_configChanged := jo_configChanged ob', jo_instChanged := jo_instChanged ob'\<rparr>)"
proof -
  have fit: "length (jo_name ob) \<le> 255" "length (jo_directory ob) \<le> 255" "length (jo_bdbDir ob) \<le> 255"
    using assms(3) by (simp_all add: jstrings_fit_def)
  show ?thesis
    unfolding journal_gets_def journal_values_def list.map concat.simps o_def snd_conv value_bytes.simps
    by (rule exI, rule conjI, (rule reads_stamps[OF assms(1,2)] reads_oid[OF assms(1,2)] reads_scalar[OF assms(1)] reads_Nil fit)+) simp
qed

text \<open>C26. The object of a journal is encoded as its schema says and read back: its five schema elements
  describe, in order, the values it writes behind the time stamps; these have the announced size;
  another journal object that reads them has all five properties and the time stamps of the first.\<close>

theorem journal_object_typed:
  assumes "buffer_ok L H R E" and "object_ok L" and "jstrings_fit ob"
  shows "list_all2 (describes L) (journal_schema_properties L) (journal_values ob)
    \<and> (\<exists>bs. fst (journal_writeProperties L ob) = Inr bs
         \<and> bs = writeTimestamps L (jo_stamps ob) @ concat (map (value_bytes L E \<circ> snd) (journal_values ob))
         \<and> length bs = unat (journal_writePropertiesSize L ob)
         \<and> journal_readProperties L bs ob' = (Inr (), ob\<lparr>jo_configChanged := jo_configChanged ob', jo_instChanged := jo_instChanged ob'\<rparr>))"
proof -
  let ?bs = "writeTimestamps L (jo_stamps ob) @ concat (map (value_bytes L E \<circ> snd) (journal_values ob))"
  have "journal_writePropertiesSize L ob = of_nat (length ?bs)"
    unfolding journal_written(2)[OF assms] by (simp add: journal_writePropertiesSize_def)
  moreover have "length ?bs < 3000"
    using journal_written(2)[OF assms] object_okD(5)[OF assms(2)] assms(3) by (simp add: jstrings_fit_def)
  ultimately have size: "length ?bs = unat (journal_writePropertiesSize L ob)"
    by (rule unat_size)
  have "R (?bs @ []) (wrap_buffer L ?bs)" using assms(1) by (simp add: buffer_ok_def)
  then obtain b' where "seqE (journal_gets L) (ob', wrap_buffer L ?bs) =
      (Inr (), ob\<lparr>jo_configChanged := jo_configChanged ob', jo_instChanged := jo_instChanged ob'\<rparr>, b')"
    using journal_reads[OF assms] unfolding reads_def by metis
  then have "journal_readProperties L ?bs ob' = (Inr (), ob\<lparr>jo_configChanged := jo_configChanged ob', jo_instChanged := jo_instChanged ob'\<rparr>)"
    by (simp add: journal_readProperties_def)
  moreover have "list_all2 (describes L) (journal_schema_properties L) (journal_values ob)"
    by (simp add: journal_schema_properties_def journal_values_def)
  ultimately show ?thesis using size journal_written(1)[OF assms] by (metis fst_conv)
qed

definition wit_jobject :: "(u64 \<times> u64, u64) journal_object" where
  "wit_jobject = \<lparr>jo_stamps = 5, jo_configChanged = True, jo_instChanged = True, jo_queueRef = (3, 4), jo_name = ''q'',
     jo_directory = ''jrnl/q/'', jo_bdbDir = ''dat'', jo_num_jfiles = 8\<rparr>"

theorem journal_object_typed_witness:
  "\<exists>bs. fst (journal_writeProperties wit_qmf wit_jobject) = Inr bs \<and> length bs = 42
    \<and> fst (journal_readProperties wit_qmf bs (Journal_new wit_qmf 0 True True)) = Inr ()"
proof -
  have "jstrings_fit wit_jobject" by (simp add: jstrings_fit_def wit_jobject_def)
  from journal_object_typed[OF wit_buffer_ok wit_object_ok this, of "Journal_new wit_qmf 0 True True"] show ?thesis
    by (auto simp: journal_writePropertiesSize_def wit_jobject_def wit_qmf_def)
qed

text \<open>No two classes are registered under one name, none has the hash of another, and a journal's
  object never shows its number of files.\<close>

lemma Package_distinct:
  "distinct (map (\<lambda>(k, p, n, h, s). (p, n)) (Package L))" "distinct (map (\<lambda>(k, p, n, h, s). h) (Package L))"
  by (simp_all add: Package_def provider_className_def journal_className_def EventCreated_name_def EventEnqThresholdExceeded_name_def
      EventFull_name_def EventRecovered_name_def provider_md5Sum_def journal_md5Sum_def EventCreated_md5Sum_def
      EventEnqThresholdExceeded_md5Sum_def EventFull_md5Sum_def EventRecovered_md5Sum_def)

lemma journal_num_jfiles_unset: "jo_num_jfiles (journal_management_object L h cc ic J) = 0"
  by (simp add: journal_management_object_def Journal_new_def jset_name_def jset_directory_def jset_bdbDir_def
      thenE_def bindE_def modE_def retE_def)

end
