(* ===== verification/RunningStatistics.thy ===== *)
theory RunningStatistics
  imports Durability ManagedReports
begin

text \<open>
  The statistics of a running provider: every thread of \<open>Protocol\<close> counts, at the places the code
  counts, in its own record of the management object. Under every schedule the reported
  counters are the numbers of operations that are where the descriptions of the statistics
  say they are.
\<close>

section \<open>Where the code counts\<close>

text \<open>In \<^verbatim>\<open>enqueue\<close>, behind the record in the log; in \<^verbatim>\<open>store\<close>, at the end; in \<^verbatim>\<open>dequeue\<close>, behind either
  record in the log; in \<^verbatim>\<open>async_dequeue\<close>, at the end. \<open>ms\<close> and \<open>us\<close> are the milliseconds and the
  microseconds of the duration the clock gave.\<close>

definition enqueue_counts :: "stat_call list" where
  "enqueue_counts = [Inc_pendingAsyncEnqueue 1]"

definition store_counts :: "u64 \<Rightarrow> u64 \<Rightarrow> bool \<Rightarrow> stat_call list" where
  "store_counts ms us toExec =
     [Dec_pendingAsyncEnqueue 1, Inc_totalEnqueueTime ms, Set_enqueueTime (us * 10),
      if toExec then Inc_executedEnqueue 1 else Inc_skippedEnqueue 1]"

definition dequeue_counts :: "stat_call list" where
  "dequeue_counts = [Inc_pendingAsyncDequeue 1]"

definition dequeue_skip_counts :: "stat_call list" where
  "dequeue_skip_counts = [Inc_skippedDequeue 1]"

definition async_dequeue_counts :: "u64 \<Rightarrow> u64 \<Rightarrow> stat_call list" where
  "async_dequeue_counts ms us =
     [Dec_pendingAsyncDequeue 1, Inc_totalDequeueTime ms, Set_dequeueTime (us * 10), Inc_executedDequeue 1]"

text \<open>The piece a thread has just done, by where it stood and where it stands, and what it counts.\<close>

fun e_counts :: "u64 \<Rightarrow> u64 \<Rightarrow> epc \<Rightarrow> epc \<Rightarrow> stat_call list" where
  "e_counts ms us ELog EWill = enqueue_counts"
| "e_counts ms us (SAdd b) (EDone _) = store_counts ms us b"
| "e_counts ms us _ _ = []"

fun d_counts :: "u64 \<Rightarrow> u64 \<Rightarrow> dpc \<Rightarrow> dpc \<Rightarrow> stat_call list" where
  "d_counts ms us DLog DSched = dequeue_counts"
| "d_counts ms us DSkip DSkipped = dequeue_skip_counts"
| "d_counts ms us ALog DDone = async_dequeue_counts ms us"
| "d_counts ms us _ _ = []"

text \<open>An event of a schedule with the index of its thread and the duration it measures.\<close>

record counted_event =
  thread_index :: nat
  dur_ms :: u64
  dur_us :: u64
  the_event :: event

fun event_counts :: "u64 \<Rightarrow> u64 \<Rightarrow> event \<Rightarrow> ('db, 'mdb) system \<Rightarrow> ('db, 'mdb) system \<Rightarrow> stat_call list" where
  "event_counts ms us (EStep k) s s' = e_counts ms us (eth s k) (eth s' k)"
| "event_counts ms us (DStep k) s s' = d_counts ms us (dth s k) (dth s' k)"
| "event_counts ms us _ s s' = []"

definition counted_exec :: "('db, 'mdb) bdb \<Rightarrow> (u64 \<Rightarrow> message_info) \<Rightarrow> (u64 \<rightharpoonup> pqueue) \<Rightarrow> counted_event \<Rightarrow>
    ('db, 'mdb) system \<times> ('o, 'h) storage_provider_object \<Rightarrow> exn + ('db, 'mdb) system \<times> ('o, 'h) storage_provider_object" where
  "counted_exec B M Q c = (\<lambda>(s, ob).
     case exec B M Q (the_event c) s of
       Inl x \<Rightarrow> Inl x
     | Inr s' \<Rightarrow> (case seqE (map (stat_method (thread_index c)) (event_counts (dur_ms c) (dur_us c) (the_event c) s s')) ob of
                    (Inl x, _) \<Rightarrow> Inl x
                  | (Inr _, ob') \<Rightarrow> Inr (s', ob')))"

fun counted_run :: "('db, 'mdb) bdb \<Rightarrow> (u64 \<Rightarrow> message_info) \<Rightarrow> (u64 \<rightharpoonup> pqueue) \<Rightarrow> counted_event list \<Rightarrow>
    ('db, 'mdb) system \<times> ('o, 'h) storage_provider_object \<Rightarrow> exn + ('db, 'mdb) system \<times> ('o, 'h) storage_provider_object" where
  "counted_run B M Q [] so = Inr so"
| "counted_run B M Q (c # cs) so = (case counted_exec B M Q c so of Inl x \<Rightarrow> Inl x | Inr so' \<Rightarrow> counted_run B M Q cs so')"

section \<open>Counting keys\<close>

lemma card_update:
  fixes f :: "key \<Rightarrow> 'a"
  shows "(of_nat (card {x. G x ((f(k := v)) x)}) :: u32) =
    of_nat (card {x. G x (f x)}) + (if G k v then 1 else 0) - (if G k (f k) then 1 else 0)"
proof -
  let ?S = "{x. x \<noteq> k \<and> G x (f x)}"
  have "{x. G x ((f(k := w)) x)} = (if G k w then insert k ?S else ?S)" for w by (auto split: if_splits)
  then have "(of_nat (card {x. G x ((f(k := w)) x)}) :: u32) = of_nat (card ?S) + (if G k w then 1 else 0)" for w by simp
  from this[of v] this[of "f k"] show ?thesis by simp
qed

text \<open>The operations a caller has announced and no worker has finished.\<close>

definition e_pending :: "epc \<Rightarrow> bool" where
  "e_pending e \<longleftrightarrow> begun e \<and> \<not> finished e"

definition d_pending :: "dpc \<Rightarrow> bool" where
  "d_pending d \<longleftrightarrow> d_open d \<or> d = DDropped"

definition counted :: "key set \<Rightarrow> (key \<Rightarrow> epc) \<Rightarrow> (key \<Rightarrow> dpc) \<Rightarrow> per_thread_stats \<Rightarrow> bool" where
  "counted St es ds T \<longleftrightarrow>
     pendingAsyncEnqueue T = of_nat (card {k. e_pending (es k)}) \<and>
     executedEnqueue T = of_nat (card {k. k \<notin> St \<and> es k = EDone True}) \<and>
     skippedEnqueue T = of_nat (card {k. es k = EDone False}) \<and>
     pendingAsyncDequeue T = of_nat (card {k. d_pending (ds k)}) \<and>
     executedDequeue T = of_nat (card {k. ds k = DDone}) \<and>
     skippedDequeue T = of_nat (card {k. ds k = DSkipped})"

section \<open>Moves\<close>

text \<open>From where to where a piece takes a thread.\<close>

definition e_move :: "epc \<Rightarrow> epc \<Rightarrow> bool" where
  "e_move e e' \<longleftrightarrow> e' = e \<or> (case e of ENone \<Rightarrow> e' = ELog | ELog \<Rightarrow> e' = EWill | EWill \<Rightarrow> e' = ESched | ESched \<Rightarrow> e' = EPool
     | EPool \<Rightarrow> e' = SCheck | SCheck \<Rightarrow> e' = SWrite \<or> e' = SLog False | SWrite \<Rightarrow> e' = SLog True | SLog b \<Rightarrow> e' = SAdd b
     | SAdd b \<Rightarrow> e' = EDone b | EDone b \<Rightarrow> False)"

definition d_move :: "dpc \<Rightarrow> dpc \<Rightarrow> bool" where
  "d_move d d' \<longleftrightarrow> d' = d \<or> (case d of DNone \<Rightarrow> d' = DLog \<or> d' = DSkip | DLog \<Rightarrow> d' = DSched | DSched \<Rightarrow> d' = DPool | DSkip \<Rightarrow> d' = DSkipped
     | DPool \<Rightarrow> d' = AWait | AWait \<Rightarrow> d' = DPool \<or> d' = DDropped \<or> d' = ADel | ADel \<Rightarrow> d' = ALog | ALog \<Rightarrow> d' = DDone | _ \<Rightarrow> False)"

lemma e_counted:
  assumes "counted St es ds T" and "e_move (es k) e'" and "k \<in> St \<longrightarrow> es k = EDone True"
  shows "counted St (es(k := e')) ds (fold on_stats (e_counts ms us (es k) e') T)"
  using assms
  unfolding counted_def
    card_update[where G = "\<lambda>_. e_pending"] card_update[where G = "\<lambda>x e. x \<notin> St \<and> e = EDone True"] card_update[where G = "\<lambda>_ e. e = EDone False"]
  by (cases "es k"; cases e') (auto simp: e_move_def e_pending_def enqueue_counts_def store_counts_def)

lemma d_counted:
  assumes "counted St es ds T" and "d_move (ds k) d'"
  shows "counted St es (ds(k := d')) (fold on_stats (d_counts ms us (ds k) d') T)"
  using assms
  unfolding counted_def card_update[where G = "\<lambda>_. d_pending"] card_update[where G = "\<lambda>_ d. d = DDone"] card_update[where G = "\<lambda>_ d. d = DSkipped"]
  by (cases "ds k"; cases d')
    (auto simp: d_move_def d_pending_def d_open_def dequeue_counts_def dequeue_skip_counts_def async_dequeue_counts_def)

definition e_goes :: "key \<Rightarrow> ('db, 'mdb) system \<Rightarrow> ('db, 'mdb) system \<Rightarrow> bool" where
  "e_goes k s s' \<longleftrightarrow> dth s' = dth s \<and> eth s' = (eth s)(k := eth s' k) \<and> e_move (eth s k) (eth s' k)"

definition d_goes :: "key \<Rightarrow> ('db, 'mdb) system \<Rightarrow> ('db, 'mdb) system \<Rightarrow> bool" where
  "d_goes k s s' \<longleftrightarrow> eth s' = eth s \<and> dth s' = (dth s)(k := dth s' k) \<and> d_move (dth s k) (dth s' k)"

lemma estep_goes: "estep B M Q k s = Inr s' \<Longrightarrow> e_goes k s s'"
  by (cases "eth s k") (auto simp: e_goes_def estep_def fire_def Let_def e_move_def split: prod.splits sum.splits if_splits)

lemma dstep_goes: "dstep B Q k s = Inr s' \<Longrightarrow> d_goes k s s'"
  by (cases "dth s k") (auto simp: d_goes_def dstep_def fire_def Let_def d_move_def split: prod.splits sum.splits if_splits wait_result.splits)

lemma e_goes_stay: "dth s' = dth s \<Longrightarrow> eth s' = eth s \<Longrightarrow> e_goes k s s'"
  by (simp add: e_goes_def e_move_def)

lemma e_goes_enter: "dth s' = dth s \<Longrightarrow> eth s' = (eth s)(k := ELog) \<Longrightarrow> eth s k = ENone \<Longrightarrow> e_goes k s s'"
  by (simp add: e_goes_def e_move_def)

lemma counts_stay [simp]: "e_counts ms us e e = []" "d_counts ms us d d = []"
  by (cases e; simp) (cases d; simp)

text \<open>A message enters with a key no thread has.\<close>

lemma Enqueue_goes:
  assumes "setting B view M Q l0 lo hi" and "sys_inv B view M Q l0 lo hi n s" and "exec B M Q (Enqueue q) s = Inr s'"
  shows "e_goes (q, messageIdSequence (prov s)) s s' \<and> (eth s (q, messageIdSequence (prov s)) = ENone)"
proof -
  note i = sys_parts[OF assms(2)]
  let ?m = "messageIdSequence (prov s)"
  have m: "isInit (prov s)" "?m \<noteq> 0" using i(1) by (auto simp: ids_inv_def)
  have f: "fst (IdSequence_next ?m) = ?m" using m(2) by (simp add: IdSequence_next_def Let_def)
  have new: "eth s (q, ?m) = ENone" using i(1) unfolding ids_inv_def by (metis order_less_irrefl snd_conv)
  show ?thesis
  proof (cases "Q q")
    case None
    then show ?thesis using assms(3) new by (auto intro: e_goes_stay)
  next
    case (Some queue)
    then have "dth s' = dth s" "eth s' = (eth s)((q, ?m) := ELog)"
      using assms(3) enq_begin_first[OF assms(1) inv_calm[OF i(3)] m(1) Some m(2), of ?m] settingD(1)[OF assms(1) Some]
      by (auto simp: begin_with_def fire_def Let_def f)
    then show ?thesis using new by (simp add: e_goes_enter)
  qed
qed

lemma EnqueueAgain_goes:
  assumes "setting B view M Q l0 lo hi" and "sys_inv B view M Q l0 lo hi n s" and "exec B M Q (EnqueueAgain k q) s = Inr s'"
  shows "e_goes k s s' \<and> (eth s k = ENone \<or> s' = s)"
proof (cases "Q (fst k) \<noteq> None \<and> eth s (q, snd k) \<noteq> ENone \<and> eth s k = ENone")
  case False
  then have "s' = s" using assms(3) by (auto split: option.splits)
  then show ?thesis by (simp add: e_goes_stay)
next
  case True
  note i = sys_parts[OF assms(2)]
  obtain queue where Q: "Q (fst k) = Some queue" using True by blast
  have "isInit (prov s)" "lo \<le> unat (snd k)" using i(1) True unfolding ids_inv_def by (blast, fastforce)
  moreover from this(2) have "snd k \<noteq> 0" using assms(1) by (auto simp: setting_def)
  ultimately have "dth s' = dth s" "eth s' = (eth s)((fst k, snd k) := ELog)"
    using assms(3) enq_begin_again[OF assms(1) inv_calm[OF i(3)] _ Q] Q True settingD(1)[OF assms(1) Q]
    by (auto simp: begin_with_def fire_def Let_def)
  then show ?thesis using True by (simp add: e_goes_enter)
qed

lemma exec_goes:
  assumes "setting B view M Q l0 lo hi" and "sys_inv B view M Q l0 lo hi n s" and "exec B M Q e s = Inr s'"
  shows "\<exists>k. e_goes k s s' \<and> event_counts ms us e s s' = e_counts ms us (eth s k) (eth s' k) \<or>
             d_goes k s s' \<and> event_counts ms us e s s' = d_counts ms us (dth s k) (dth s' k)"
proof (cases e)
  case (Enqueue q)
  with Enqueue_goes[OF assms(1,2), of q s'] assms(3) show ?thesis by (intro exI[of _ "(q, messageIdSequence (prov s))"]) simp
next
  case (EnqueueAgain k q)
  with EnqueueAgain_goes[OF assms(1,2), of k q s'] assms(3) show ?thesis by (intro exI[of _ k]) auto
next
  case (Dequeue k)
  with assms(3) have "d_goes k s s' \<and> (dth s k = DNone \<or> s' = s)"
    by (auto simp: fire_def d_goes_def d_move_def split: if_splits prod.splits sum.splits)
  then show ?thesis using Dequeue by (intro exI[of _ k]) auto
next
  case (EStep k)
  with estep_goes[of B M Q k s s'] assms(3) show ?thesis by (intro exI[of _ k]) simp
next
  case (DStep k)
  with dstep_goes[of B Q k s s'] assms(3) show ?thesis by (intro exI[of _ k]) simp
next
  case (Observe k)
  with assms(3) have "eth s' = eth s" "dth s' = dth s" by auto
  then show ?thesis using Observe by (auto intro: e_goes_stay)
next
  case CleanEnq
  with assms(3) have "eth s' = eth s" "dth s' = dth s" by (auto split: option.splits sum.splits prod.splits)
  then show ?thesis using CleanEnq by (auto intro: e_goes_stay)
next
  case CleanDeq
  with assms(3) have "eth s' = eth s" "dth s' = dth s" by (auto split: option.splits prod.splits)
  then show ?thesis using CleanDeq by (auto intro: e_goes_stay)
qed

lemma e_goes_done:
  assumes "e_goes k s s'" and "eth s x = EDone b"
  shows "eth s' x = EDone b"
proof (cases "x = k")
  case True
  then show ?thesis using assms by (auto simp: e_goes_def e_move_def)
next
  case False
  then show ?thesis using assms unfolding e_goes_def by (metis fun_upd_other)
qed

lemma goes_counted:
  assumes "counted St (eth s) (dth s) T" and "\<forall>k \<in> St. eth s k = EDone True"
  shows "e_goes k s s' \<Longrightarrow> counted St (eth s') (dth s') (fold on_stats (e_counts ms us (eth s k) (eth s' k)) T) \<and> (\<forall>k \<in> St. eth s' k = EDone True)"
    and "d_goes k s s' \<Longrightarrow> counted St (eth s') (dth s') (fold on_stats (d_counts ms us (dth s k) (dth s' k)) T) \<and> (\<forall>k \<in> St. eth s' k = EDone True)"
proof -
  assume g: "e_goes k s s'"
  have "counted St ((eth s)(k := eth s' k)) (dth s) (fold on_stats (e_counts ms us (eth s k) (eth s' k)) T)"
    by (rule e_counted[OF assms(1)]) (use assms(2) g in \<open>auto simp: e_goes_def\<close>)
  moreover have "\<forall>x \<in> St. eth s' x = EDone True" using assms(2) e_goes_done[OF g] by blast
  ultimately show "counted St (eth s') (dth s') (fold on_stats (e_counts ms us (eth s k) (eth s' k)) T) \<and> (\<forall>k \<in> St. eth s' k = EDone True)"
    using g unfolding e_goes_def by metis
next
  assume g: "d_goes k s s'"
  have "counted St (eth s) ((dth s)(k := dth s' k)) (fold on_stats (d_counts ms us (dth s k) (dth s' k)) T)"
    by (rule d_counted[OF assms(1)]) (use g in \<open>simp add: d_goes_def\<close>)
  then show "counted St (eth s') (dth s') (fold on_stats (d_counts ms us (dth s k) (dth s' k)) T) \<and> (\<forall>k \<in> St. eth s' k = EDone True)"
    using g assms(2) unfolding d_goes_def by metis
qed

section \<open>Every schedule\<close>

lemma stat_calls_run:
  "idx < length (sp_stats ob) \<Longrightarrow> \<exists>ob'. seqE (map (stat_method idx) cs) ob = (Inr (), ob') \<and> length (sp_stats ob') = length (sp_stats ob)
     \<and> aggregatePerThreadStats (sp_stats ob') = fold on_stats cs (aggregatePerThreadStats (sp_stats ob))"
proof (induction cs arbitrary: ob)
  case (Cons c cs)
  then obtain ob1 where "stat_method idx c ob = (Inr (), ob1)" "length (sp_stats ob1) = length (sp_stats ob)"
      "aggregatePerThreadStats (sp_stats ob1) = on_stats c (aggregatePerThreadStats (sp_stats ob))"
    using stat_method_runs by blast
  then show ?case using Cons.IH[of ob1] Cons.prems by (simp add: thenE_def bindE_def)
qed (simp add: retE_def)

lemma counted_exec_keeps:
  assumes "setting B view M Q l0 lo hi" and "sys_inv B view M Q l0 lo hi (Suc n) s" and "thread_index c < length (sp_stats ob)"
    and "counted St (eth s) (dth s) (aggregatePerThreadStats (sp_stats ob))" and "\<forall>k \<in> St. eth s k = EDone True"
  shows "\<exists>s' ob'. counted_exec B M Q c (s, ob) = Inr (s', ob') \<and> exec B M Q (the_event c) s = Inr s' \<and> sys_inv B view M Q l0 lo hi n s'
    \<and> length (sp_stats ob') = length (sp_stats ob) \<and> counted St (eth s') (dth s') (aggregatePerThreadStats (sp_stats ob'))
    \<and> (\<forall>k \<in> St. eth s' k = EDone True)"
proof -
  obtain s' where s': "exec B M Q (the_event c) s = Inr s'" "sys_inv B view M Q l0 lo hi n s'" using exec_keeps[OF assms(1,2)] by blast
  let ?cs = "event_counts (dur_ms c) (dur_us c) (the_event c) s s'"
  obtain ob' where ob': "seqE (map (stat_method (thread_index c)) ?cs) ob = (Inr (), ob')" "length (sp_stats ob') = length (sp_stats ob)"
    "aggregatePerThreadStats (sp_stats ob') = fold on_stats ?cs (aggregatePerThreadStats (sp_stats ob))"
    using stat_calls_run[OF assms(3)] by blast
  have "counted St (eth s') (dth s') (fold on_stats ?cs (aggregatePerThreadStats (sp_stats ob))) \<and> (\<forall>k \<in> St. eth s' k = EDone True)"
    using exec_goes[OF assms(1,2) s'(1), of "dur_ms c" "dur_us c"] goes_counted[OF assms(4,5)] by metis
  then show ?thesis using s' ob' by (simp add: counted_exec_def)
qed

lemma counted_run_keeps:
  assumes "setting B view M Q l0 lo hi"
  shows "sys_inv B view M Q l0 lo hi (length cs) s \<Longrightarrow> list_all (\<lambda>c. thread_index c < length (sp_stats ob)) cs \<Longrightarrow>
    counted St (eth s) (dth s) (aggregatePerThreadStats (sp_stats ob)) \<Longrightarrow> \<forall>k \<in> St. eth s k = EDone True \<Longrightarrow>
    \<exists>s' ob'. counted_run B M Q cs (s, ob) = Inr (s', ob') \<and> run B M Q (map the_event cs) s = Inr s' \<and>
      counted St (eth s') (dth s') (aggregatePerThreadStats (sp_stats ob'))"
proof (induction cs arbitrary: s ob)
  case (Cons c cs)
  from Cons.prems(2) have "thread_index c < length (sp_stats ob)" by simp
  with counted_exec_keeps[OF assms, of "length cs" s c ob St] Cons.prems obtain s1 ob1 where
    1: "counted_exec B M Q c (s, ob) = Inr (s1, ob1)" "exec B M Q (the_event c) s = Inr s1" "sys_inv B view M Q l0 lo hi (length cs) s1"
      "length (sp_stats ob1) = length (sp_stats ob)" "counted St (eth s1) (dth s1) (aggregatePerThreadStats (sp_stats ob1))"
      "\<forall>k \<in> St. eth s1 k = EDone True" by auto
  then show ?case using Cons.IH[OF 1(3) _ 1(5,6)] Cons.prems(2) by simp
qed simp

text \<open>C14. The statistics of a running provider are true. Under every schedule of callers, workers
  and cleaners, with every thread counting in its own record, the totals a report adds up are,
  modulo \<open>2\<^sup>3\<^sup>2\<close>, the number of enqueues announced and not finished, of messages written, of
  enqueues that skipped the write, of dequeues announced and not finished, of dequeues
  executed and of dequeues skipped; counting raises no exception.\<close>

theorem statistics_count_operations:
  assumes st: "setting B view M Q l0 lo hi" and rd: "ready B view M Q St l0 lo hi (length cs) P"
    and idx: "list_all (\<lambda>c. thread_index c < length (sp_stats ob)) cs" and new: "aggregatePerThreadStats (sp_stats ob) = initial_stats"
  shows "\<exists>s ob'. counted_run B M Q cs (start_system P St, ob) = Inr (s, ob') \<and> run B M Q (map the_event cs) (start_system P St) = Inr s \<and>
    (let T = aggregatePerThreadStats (sp_stats ob') in
       pendingAsyncEnqueue T = of_nat (card {k. e_pending (eth s k)}) \<and>
       executedEnqueue T = of_nat (card {k. k \<notin> St \<and> eth s k = EDone True}) \<and>
       skippedEnqueue T = of_nat (card {k. eth s k = EDone False}) \<and>
       pendingAsyncDequeue T = of_nat (card {k. d_pending (dth s k)}) \<and>
       executedDequeue T = of_nat (card {k. dth s k = DDone}) \<and>
       skippedDequeue T = of_nat (card {k. dth s k = DSkipped}))"
proof -
  let ?s = "start_system P St"
  have e: "eth ?s = (\<lambda>k. if k \<in> St then EDone True else ENone)" "dth ?s = (\<lambda>_. DNone)" by (simp_all add: start_system_def)
  then have none: "{k. e_pending (eth ?s k)} = {}" "{k. k \<notin> St \<and> eth ?s k = EDone True} = {}" "{k. eth ?s k = EDone False} = {}"
    by (auto simp: e_pending_def split: if_splits)
  have "counted St (eth ?s) (dth ?s) (aggregatePerThreadStats (sp_stats ob))"
    unfolding counted_def none by (simp add: new initial_stats_def e(2) d_pending_def d_open_def)
  with counted_run_keeps[OF st ready_inv[OF st rd] idx] show ?thesis
    by (simp add: e(1) counted_def Let_def)
qed

section \<open>A concrete run\<close>

text \<open>The run of \<open>Durability\<close>: one enqueue whose task is in the pool when the report is taken.\<close>

definition run_counted :: "counted_event list" where
  "run_counted = map (\<lambda>e. \<lparr>thread_index = 2, dur_ms = 0, dur_us = 40, the_event = e\<rparr>) run_events"

theorem statistics_count_operations_witness:
  "\<exists>s ob'. counted_run wit_cold_bdb wit_info run_queues run_counted (start_system run_provider {(1, 3), (1, 6)}, wit_object) = Inr (s, ob') \<and>
     pendingAsyncEnqueue (aggregatePerThreadStats (sp_stats ob')) = 1 \<and> executedEnqueue (aggregatePerThreadStats (sp_stats ob')) = 0"
proof -
  have ev: "map the_event run_counted = run_events" by (simp add: run_counted_def comp_def)
  have "length run_counted = length run_events" "list_all (\<lambda>c. thread_index c < length (sp_stats wit_object)) run_counted"
    "aggregatePerThreadStats (sp_stats wit_object) = initial_stats"
    by (simp_all add: run_counted_def wit_stats_empty list_all_iff aggregatePerThreadStats_def)
  with statistics_count_operations[OF run_setting, of "{(1, 3), (1, 6)}" run_counted run_provider wit_object] run_ready obtain s ob' where
    s: "counted_run wit_cold_bdb wit_info run_queues run_counted (start_system run_provider {(1, 3), (1, 6)}, wit_object) = Inr (s, ob')"
      "run wit_cold_bdb wit_info run_queues run_events (start_system run_provider {(1, 3), (1, 6)}) = Inr s"
      "pendingAsyncEnqueue (aggregatePerThreadStats (sp_stats ob')) = of_nat (card {k. e_pending (eth s k)})"
      "executedEnqueue (aggregatePerThreadStats (sp_stats ob')) = of_nat (card {k. k \<notin> {(1, 3), (1, 6)} \<and> eth s k = EDone True})"
    by (auto simp: ev Let_def)
  have "{k. e_pending (eth s k)} = {(1, 7)}" "{k. k \<notin> {(1, 3), (1, 6)} \<and> eth s k = EDone True} = {}"
    using run_scheduled(1)[OF s(2)] by (auto simp: e_pending_def split: if_splits)
  then show ?thesis using s(1,3,4) by (intro exI[of _ s] exI[of _ ob']) (simp only: card.empty card_Suc_eq, simp)
qed

end
