(* ===== verification/Shutdown.thy ===== *)
theory Shutdown
  imports Durability
begin

text \<open>
  The shutdown of a running provider: \<^verbatim>\<open>finalizeMe\<close> stops the tracker and clears the two pools
  while callers, workers and cleaners go on. Its steps are further events of a schedule. A
  system that is being shut down is simulated by one that is not: the tasks that were
  cleared are still in the pool there, and the workers that gave up are still waiting.
  What the simulated run keeps in its logs and databases is the same, so a shutdown loses
  no message either.
\<close>

section \<open>The steps of the shutdown\<close>

datatype fevent = Ev event | StopTracker | ClearEnqueues | ClearDequeues

fun fexec :: "('db, 'mdb) bdb \<Rightarrow> (u64 \<Rightarrow> message_info) \<Rightarrow> (u64 \<rightharpoonup> pqueue) \<Rightarrow> fevent \<Rightarrow>
    ('db, 'mdb) system \<Rightarrow> exn + ('db, 'mdb) system" where
  "fexec B M Q (Ev e) s = exec B M Q e s"
| "fexec B M Q StopTracker s = Inr (s\<lparr>prov := (prov s)\<lparr>tracker := snd (PidTracker_stop (tracker (prov s)))\<rparr>\<rparr>)"
| "fexec B M Q ClearEnqueues s = Inr (s\<lparr>prov := (prov s)\<lparr>enqueuePool := []\<rparr>\<rparr>)"
| "fexec B M Q ClearDequeues s = Inr (s\<lparr>prov := (prov s)\<lparr>dequeuePool := []\<rparr>\<rparr>)"

fun frun :: "('db, 'mdb) bdb \<Rightarrow> (u64 \<Rightarrow> message_info) \<Rightarrow> (u64 \<rightharpoonup> pqueue) \<Rightarrow> fevent list \<Rightarrow>
    ('db, 'mdb) system \<Rightarrow> exn + ('db, 'mdb) system" where
  "frun B M Q [] s = Inr s"
| "frun B M Q (e # es) s = (case fexec B M Q e s of Inl x \<Rightarrow> Inl x | Inr s' \<Rightarrow> frun B M Q es s')"

section \<open>What the pieces of the calls do not look at\<close>

text \<open>The provider with the tracker's mark and the pools replaced.\<close>

definition masked :: "bool \<Rightarrow> store_task list \<Rightarrow> dequeue_task list \<Rightarrow> ('db, 'mdb) provider \<Rightarrow> ('db, 'mdb) provider" where
  "masked b ep dp P = P\<lparr>tracker := (tracker P)\<lparr>stopped := b\<rparr>, enqueuePool := ep, dequeuePool := dp\<rparr>"

definition neutral :: "(('db, 'mdb) provider, 'a) comp \<Rightarrow> ('db, 'mdb) provider \<Rightarrow> bool" where
  "neutral f P \<longleftrightarrow> (\<forall>b ep dp. f (masked b ep dp P) = (fst (f P), masked b ep dp (snd (f P)))) \<and>
     enqueuePool (snd (f P)) = enqueuePool P \<and> dequeuePool (snd (f P)) = dequeuePool P"

lemma masked_fields [simp]:
  "enqueuePool (masked b ep dp P) = ep" "dequeuePool (masked b ep dp P) = dp" "tracker (masked b ep dp P) = (tracker P)\<lparr>stopped := b\<rparr>"
  "aologger (masked b ep dp P) = aologger P" "machine (masked b ep dp P) = machine P" "jheap (masked b ep dp P) = jheap P"
  "options (masked b ep dp P) = options P" "isInit (masked b ep dp P) = isInit P" "messageIdSequence (masked b ep dp P) = messageIdSequence P"
  by (simp_all add: masked_def)

lemma tracker_ops_stopped [simp]:
  "willEnqueue m q (t\<lparr>stopped := b\<rparr>) = (fst (willEnqueue m q t), (snd (willEnqueue m q t))\<lparr>stopped := b\<rparr>)"
  "enqueueCheck m q (t\<lparr>stopped := b\<rparr>) = (fst (enqueueCheck m q t), (snd (enqueueCheck m q t))\<lparr>stopped := b\<rparr>)"
  "dequeueCheck m q (t\<lparr>stopped := b\<rparr>) = (fst (dequeueCheck m q t), (snd (dequeueCheck m q t))\<lparr>stopped := b\<rparr>)"
  "addDuplicate m q (t\<lparr>stopped := b\<rparr>) = (fst (addDuplicate m q t), (snd (addDuplicate m q t))\<lparr>stopped := b\<rparr>)"
  "snd (snd (addPid m q (t\<lparr>stopped := b\<rparr>))) = (snd (snd (addPid m q t)))\<lparr>stopped := b\<rparr>"
  by (auto simp: willEnqueue_def enqueueCheck_def dequeueCheck_def addDuplicate_def addPid_def Let_def split: option.splits prod.splits)

lemma neutral_with_log: "neutral (with_log f) P"
  by (auto simp: neutral_def with_log_def split: option.splits sum.splits) (auto simp: masked_def)

lemma neutral_logs: "neutral (enq_log m q bs sz tr) P" "neutral (store_log m q) P" "neutral (deq_log m q) P" "neutral (deq_skip m q) P"
  "neutral (async_log m q) P"
  by (simp_all add: enq_log_def store_log_def deq_log_def deq_skip_def async_log_def neutral_with_log)

lemma neutral_tracker: "neutral (enq_will m q) P" "neutral (store_check m q) P" "neutral (store_add m q) P"
  by (auto simp: neutral_def enq_will_def store_check_def store_add_def modE_def split: prod.splits) (auto simp: masked_def)

lemma neutral_journals: "neutral (store_write B a buff sz m) P" "neutral (async_delete B a m) P"
  by (auto simp: neutral_def store_write_def async_delete_def deref_def bindE_def liftE_def update_at_def modE_def
      split: option.splits sum.splits prod.splits) (auto simp: masked_def)

lemma neutral_begin:
  assumes "isInit P"
  shows "neutral (enq_begin B msg queue) P" "neutral (deq_begin B msg queue) P"
  using assms
  by (auto simp: neutral_def enq_begin_def deq_begin_def checkInit_def enqueue_id_def msgEncode_def comp_simps Let_def
      split: option.splits sum.splits prod.splits) (auto simp: masked_def)

section \<open>The simulation\<close>

text \<open>\<open>s\<close> is being shut down, \<open>v\<close> is not.\<close>

definition unstop :: "pid_tracker \<Rightarrow> pid_tracker" where
  "unstop t = t\<lparr>stopped := False\<rparr>"

definition sim :: "('db, 'mdb) system \<Rightarrow> ('db, 'mdb) system \<Rightarrow> bool" where
  "sim s v \<longleftrightarrow>
     (\<exists>b ep dp. prov s = masked b ep dp (prov v) \<and> mset ep \<subseteq># mset (enqueuePool (prov v)) \<and> mset dp \<subseteq># mset (dequeuePool (prov v))) \<and>
     ecl s = ecl v \<and> dcl s = dcl v \<and> eth s = eth v \<and> ebuf s = ebuf v \<and> again s = again v \<and> ehist s = ehist v \<and> dhist s = dhist v \<and>
     (\<forall>k. dth s k = dth v k \<or> dth s k = DDropped \<and> dth v k = AWait) \<and>
     (\<forall>k. dth s k = AWait \<longrightarrow> map unstop (waits s k) = waits v k)"

lemma sim_refl:
  assumes "\<not> stopped (tracker (prov s))" and "\<And>k t. dth s k = AWait \<Longrightarrow> t \<in> set (waits s k) \<Longrightarrow> \<not> stopped t"
  shows "sim s s"
proof -
  have "(tracker (prov s))\<lparr>stopped := False\<rparr> = tracker (prov s)" using assms(1) by simp
  then have "prov s = masked False (enqueuePool (prov s)) (dequeuePool (prov s)) (prov s)"
    by (simp add: masked_def)
  moreover have "map unstop (waits s k) = waits s k" if "dth s k = AWait" for k
    using assms(2)[OF that] by (intro map_idI) (simp add: unstop_def)
  ultimately show ?thesis unfolding sim_def by blast
qed

text \<open>A piece that is neutral takes the two systems to related ones, if what it does besides does.\<close>

definition relates :: "(('db, 'mdb) system \<Rightarrow> ('db, 'mdb) system) \<Rightarrow> bool" where
  "relates g \<longleftrightarrow> (\<forall>s v. sim s v \<longrightarrow> sim (g s) (g v))"

lemma sim_fire:
  assumes "sim s v" and "neutral f (prov v)" and "fire f g v = Inr v'" and "\<And>x. relates (g x)"
  shows "\<exists>s'. fire f g s = Inr s' \<and> sim s' v'"
proof -
  obtain b ep dp where p: "prov s = masked b ep dp (prov v)" "mset ep \<subseteq># mset (enqueuePool (prov v))" "mset dp \<subseteq># mset (dequeuePool (prov v))"
    using assms(1) unfolding sim_def by blast
  obtain x P where x: "f (prov v) = (Inr x, P)" "v' = g x (v\<lparr>prov := P\<rparr>)"
    using assms(3) by (auto simp: fire_def split: prod.splits sum.splits)
  have n: "f (prov s) = (Inr x, masked b ep dp P)" "enqueuePool P = enqueuePool (prov v)" "dequeuePool P = dequeuePool (prov v)"
    using assms(2) x(1) p(1) by (simp_all add: neutral_def)
  have "\<exists>b' ep' dp'. masked b ep dp P = masked b' ep' dp' P \<and> mset ep' \<subseteq># mset (enqueuePool (prov v)) \<and> mset dp' \<subseteq># mset (dequeuePool (prov v))"
    using p(2,3) by blast
  then have "sim (s\<lparr>prov := masked b ep dp P\<rparr>) (v\<lparr>prov := P\<rparr>)"
    using assms(1) n(2,3) by (simp add: sim_def)
  then show ?thesis using assms(4) x(2) n(1) by (simp add: fire_def relates_def)
qed

lemma relates_goto:
  "relates (goto_e k e)" "relates (\<lambda>s. goto_e k EWill (s\<lparr>ehist := ehist s @ [Started k (edesc M s k)]\<rparr>))"
  "relates (\<lambda>s. goto_e k e (s\<lparr>ehist := ehist s @ [Completed k]\<rparr>))"
  "d \<noteq> AWait \<Longrightarrow> relates (goto_d k d)" "relates (\<lambda>s. goto_d k DSched (s\<lparr>dhist := dhist s @ [Started k (ddesc k)]\<rparr>))"
  "relates (\<lambda>s. goto_d k DSkipped (s\<lparr>ehist := ehist s @ [Completed k]\<rparr>))" "relates (\<lambda>s. goto_d k DDone (s\<lparr>dhist := dhist s @ [Completed k]\<rparr>))"
  "relates (\<lambda>s. goto_e k e (s\<lparr>ebuf := (ebuf s)(k := bs)\<rparr>))"
  "relates (\<lambda>s. (goto_e k e (s\<lparr>ebuf := (ebuf s)(k := bs)\<rparr>))\<lparr>again := insert k (again s)\<rparr>)"
  unfolding relates_def by (auto simp: sim_def edesc_def)

lemma sim_fields:
  assumes "sim s v"
  shows "eth s = eth v" "ebuf s = ebuf v" "etask M Q s = etask M Q v" "isInit (prov s) = isInit (prov v)"
    "messageIdSequence (prov s) = messageIdSequence (prov v)" "options (prov s) = options (prov v)"
    "aologger (prov s) = aologger (prov v)" "machine (prov s) = machine (prov v)" "jheap (prov s) = jheap (prov v)"
    "ecl s = ecl v" "dcl s = dcl v"
  using assms by (auto simp: sim_def etask_def fun_eq_iff)

section \<open>The pieces of an enqueue\<close>

lemma sim_pools:
  assumes "sim s v" and "prov s = masked b ep dp (prov v)" and "mset ep' \<subseteq># mset E" and "mset dp' \<subseteq># mset D"
  shows "sim (s\<lparr>prov := (prov s)\<lparr>enqueuePool := ep', dequeuePool := dp'\<rparr>\<rparr>) (v\<lparr>prov := (prov v)\<lparr>enqueuePool := E, dequeuePool := D\<rparr>\<rparr>)"
proof -
  have "(prov s)\<lparr>enqueuePool := ep', dequeuePool := dp'\<rparr> = masked b ep' dp' ((prov v)\<lparr>enqueuePool := E, dequeuePool := D\<rparr>)"
    by (simp add: assms(2) masked_def)
  then show ?thesis using assms(1,3,4) unfolding sim_def by auto
qed

lemma remove1_sub: "mset xs \<subseteq># mset ys \<Longrightarrow> mset (remove1 t xs) \<subseteq># mset (remove1 t ys)"
  unfolding mset_remove1 subseteq_mset_def by (simp add: diff_le_mono)

lemma relates_pools:
  assumes "sim s v" and "prov s = masked b ep dp (prov v)" and "mset ep \<subseteq># mset (enqueuePool (prov v))" "mset dp \<subseteq># mset (dequeuePool (prov v))"
  shows "sim (s\<lparr>prov := (prov s)\<lparr>enqueuePool := ep @ [t]\<rparr>\<rparr>) (v\<lparr>prov := (prov v)\<lparr>enqueuePool := enqueuePool (prov v) @ [t]\<rparr>\<rparr>)"
    and "sim (s\<lparr>prov := (prov s)\<lparr>enqueuePool := remove1 t ep\<rparr>\<rparr>) (v\<lparr>prov := (prov v)\<lparr>enqueuePool := remove1 t (enqueuePool (prov v))\<rparr>\<rparr>)"
    and "sim (s\<lparr>prov := (prov s)\<lparr>dequeuePool := dp @ [u]\<rparr>\<rparr>) (v\<lparr>prov := (prov v)\<lparr>dequeuePool := dequeuePool (prov v) @ [u]\<rparr>\<rparr>)"
    and "sim (s\<lparr>prov := (prov s)\<lparr>dequeuePool := remove1 u dp\<rparr>\<rparr>) (v\<lparr>prov := (prov v)\<lparr>dequeuePool := remove1 u (dequeuePool (prov v))\<rparr>\<rparr>)"
    and "sim (s\<lparr>prov := (prov s)\<lparr>enqueuePool := []\<rparr>\<rparr>) v" and "sim (s\<lparr>prov := (prov s)\<lparr>dequeuePool := []\<rparr>\<rparr>) v"
proof -
  note sp = sim_pools[OF assms(1,2)]
  have e: "(prov s)\<lparr>enqueuePool := x, dequeuePool := dp\<rparr> = (prov s)\<lparr>enqueuePool := x\<rparr>"
    "(prov s)\<lparr>enqueuePool := ep, dequeuePool := y\<rparr> = (prov s)\<lparr>dequeuePool := y\<rparr>"
    "(prov v)\<lparr>enqueuePool := x, dequeuePool := dequeuePool (prov v)\<rparr> = (prov v)\<lparr>enqueuePool := x\<rparr>"
    "(prov v)\<lparr>enqueuePool := enqueuePool (prov v), dequeuePool := y\<rparr> = (prov v)\<lparr>dequeuePool := y\<rparr>"
    "v\<lparr>prov := (prov v)\<lparr>enqueuePool := enqueuePool (prov v)\<rparr>\<rparr> = v" for x y
    using assms(2) by (simp_all add: masked_def)
  have r: "mset (remove1 t ep) \<subseteq># mset (remove1 t (enqueuePool (prov v)))" "mset (remove1 u dp) \<subseteq># mset (remove1 u (dequeuePool (prov v)))"
    using assms(3,4) by (simp_all add: remove1_sub del: mset_remove1)
  show "sim (s\<lparr>prov := (prov s)\<lparr>enqueuePool := ep @ [t]\<rparr>\<rparr>) (v\<lparr>prov := (prov v)\<lparr>enqueuePool := enqueuePool (prov v) @ [t]\<rparr>\<rparr>)"
    by (rule sp[of "ep @ [t]" "enqueuePool (prov v) @ [t]", OF _ assms(4), unfolded e]) (simp add: assms(3))
  show "sim (s\<lparr>prov := (prov s)\<lparr>enqueuePool := remove1 t ep\<rparr>\<rparr>) (v\<lparr>prov := (prov v)\<lparr>enqueuePool := remove1 t (enqueuePool (prov v))\<rparr>\<rparr>)"
    by (rule sp[OF r(1) assms(4), unfolded e])
  show "sim (s\<lparr>prov := (prov s)\<lparr>dequeuePool := dp @ [u]\<rparr>\<rparr>) (v\<lparr>prov := (prov v)\<lparr>dequeuePool := dequeuePool (prov v) @ [u]\<rparr>\<rparr>)"
    by (rule sp[OF assms(3), of "dp @ [u]" "dequeuePool (prov v) @ [u]", unfolded e]) (simp add: assms(4))
  show "sim (s\<lparr>prov := (prov s)\<lparr>dequeuePool := remove1 u dp\<rparr>\<rparr>) (v\<lparr>prov := (prov v)\<lparr>dequeuePool := remove1 u (dequeuePool (prov v))\<rparr>\<rparr>)"
    by (rule sp[OF assms(3) r(2), unfolded e])
  show "sim (s\<lparr>prov := (prov s)\<lparr>enqueuePool := []\<rparr>\<rparr>) v"
    by (rule sp[of "[]" "enqueuePool (prov v)", OF _ assms(4), unfolded e]) simp
  show "sim (s\<lparr>prov := (prov s)\<lparr>dequeuePool := []\<rparr>\<rparr>) v"
    using sp[OF assms(3), of "[]" "dequeuePool (prov v)"] by (simp add: e)
qed

lemma sim_estep:
  assumes sim: "sim s v" and v': "estep B M Q k v = Inr v'" and pa: "pool_accepts B"
  shows "\<exists>s'. estep B M Q k s = Inr s' \<and> (sim s' v' \<or> sim s' v)"
proof -
  obtain b ep dp where p: "prov s = masked b ep dp (prov v)" "mset ep \<subseteq># mset (enqueuePool (prov v))" "mset dp \<subseteq># mset (dequeuePool (prov v))"
    using sim unfolding sim_def by blast
  note f = sim_fields[OF sim] and fire = sim_fire[OF sim]
  note pools = relates_pools[OF sim p]
  show ?thesis
  proof (cases "eth v k")
    case ESched
    have "sim (goto_e k EPool (s\<lparr>prov := (prov s)\<lparr>enqueuePool := ep @ [etask M Q v k]\<rparr>\<rparr>))
        (goto_e k EPool (v\<lparr>prov := (prov v)\<lparr>enqueuePool := enqueuePool (prov v) @ [etask M Q v k]\<rparr>\<rparr>))"
      using relates_goto(1) pools(1) unfolding relates_def by blast
    then show ?thesis using v' ESched pa p(1)
      by (auto simp: estep_def fire_def enq_sched_def schedule_store_def comp_simps f)
  next
    case EPool
    have "sim (goto_e k SCheck (s\<lparr>prov := (prov s)\<lparr>enqueuePool := remove1 (etask M Q v k) ep\<rparr>\<rparr>))
        (goto_e k SCheck (v\<lparr>prov := (prov v)\<lparr>enqueuePool := remove1 (etask M Q v k) (enqueuePool (prov v))\<rparr>\<rparr>))"
      using relates_goto(1) pools(2) unfolding relates_def by blast
    moreover have "etask M Q v k \<in> set ep \<Longrightarrow> etask M Q v k \<in> set (enqueuePool (prov v))"
      using mset_subset_eqD[OF p(2)] by (metis set_mset_mset)
    ultimately show ?thesis using v' EPool p(1) sim by (auto simp: estep_def f Let_def)
  next
    case ELog
    then show ?thesis using fire[OF neutral_logs(1) _ relates_goto(2)] v' by (fastforce simp: estep_def f Let_def)
  next
    case EWill
    then show ?thesis using fire[OF neutral_tracker(1) _ relates_goto(1)] v' by (fastforce simp: estep_def f Let_def)
  next
    case SCheck
    then show ?thesis using fire[OF neutral_tracker(2) _ relates_goto(1)] v' by (fastforce simp: estep_def f Let_def)
  next
    case SWrite
    then show ?thesis using fire[OF neutral_journals(1) _ relates_goto(1)] v' by (fastforce simp: estep_def f Let_def)
  next
    case (SLog x)
    then show ?thesis using fire[OF neutral_logs(2) _ relates_goto(3)] v' by (fastforce simp: estep_def f Let_def)
  next
    case (SAdd x)
    then show ?thesis using fire[OF neutral_tracker(3) _ relates_goto(1)] v' by (fastforce simp: estep_def f Let_def)
  qed (use sim in \<open>simp_all add: estep_def f\<close>)
qed

section \<open>The pieces of a dequeue\<close>

lemma unstop_simps [simp]: "mainRecord (unstop t) = mainRecord t" "dupMap (unstop t) = dupMap t" "\<not> stopped (unstop t)"
  by (simp_all add: unstop_def)

text \<open>A wait that ends without noticing the stop ends in the same way without the stop.\<close>

lemma wait_main_unstop: "wait_main p n obs = Returned r \<Longrightarrow> r \<noteq> -2 \<Longrightarrow> wait_main p n (map unstop obs) = Returned r"
proof (induction obs arbitrary: n)
  case (Cons s ss)
  show ?case
  proof (cases ss)
    case Nil
    then show ?thesis using Cons.prems by (simp split: if_splits)
  next
    case ss: (Cons w ws)
    then show ?thesis
      using Cons.prems Cons.IH[of "Suc n", unfolded ss]
      by (auto simp only: ss wait_main.simps(2)[where ss = "x # xs" for x xs] list.map list.case unstop_simps if_False split: if_splits)
  qed
qed simp

lemma wait_dup_unstop: "wait_dup p q n obs = Returned r \<Longrightarrow> r \<noteq> -2 \<Longrightarrow> wait_dup p q n (map unstop obs) = Returned r"
proof (induction obs arbitrary: n)
  case (Cons s ss)
  show ?case
  proof (cases ss)
    case Nil
    then show ?thesis using Cons.prems by (simp split: if_splits)
  next
    case ss: (Cons w ws)
    then show ?thesis
      using Cons.prems Cons.IH[of "Suc n", unfolded ss] wait_main_unstop[of p n "w # ws" r]
      by (auto simp only: ss wait_dup.simps(2)[where ss = "x # xs" for x xs] list.map list.case unstop_simps if_False split: if_splits)
  qed
qed simp

lemma sim_wait:
  assumes sim: "sim s v" and aw: "dth s k = AWait" and r: "waitForPid m q (waits s k) = Returned r" "r \<noteq> -2"
  shows "waitForPid m q (waits v k) = Returned r"
proof -
  have "waits v k = map unstop (waits s k)" using sim aw unfolding sim_def by metis
  then show ?thesis using r wait_dup_unstop by (simp add: waitForPid_def)
qed

lemma sim_dth: "sim s v \<Longrightarrow> dth s k \<noteq> DDropped \<Longrightarrow> dth v k = dth s k"
  unfolding sim_def by metis

lemma sim_dropped: "sim s v \<Longrightarrow> dth v k = AWait \<Longrightarrow> sim (goto_d k DDropped s) v"
  by (simp add: sim_def)

lemma sim_take:
  assumes sim: "sim s v" and dp: "prov s = masked b ep dp (prov v)" "mset ep \<subseteq># mset (enqueuePool (prov v))" "mset dp \<subseteq># mset (dequeuePool (prov v))"
    and ns: "\<not> stopped (tracker (prov v))"
  shows "sim (goto_d k AWait (s\<lparr>prov := (prov s)\<lparr>dequeuePool := remove1 t dp\<rparr>, waits := (waits s)(k := [tracker (prov s)])\<rparr>))
     (goto_d k AWait (v\<lparr>prov := (prov v)\<lparr>dequeuePool := remove1 t (dequeuePool (prov v))\<rparr>, waits := (waits v)(k := [tracker (prov v)])\<rparr>))"
proof -
  have "unstop (tracker (prov s)) = tracker (prov v)" using dp(1) ns by (simp add: unstop_def)
  then show ?thesis using relates_pools(4)[OF sim dp] by (auto simp: sim_def)
qed

lemma sim_sched:
  assumes sim: "sim s v" and pa: "pool_accepts B"
  shows "\<exists>s'. fire (deq_sched B err (dtask Q k)) (\<lambda>_. goto_d k DPool) s = Inr s' \<and>
      (\<exists>v'. fire (deq_sched B err (dtask Q k)) (\<lambda>_. goto_d k DPool) v = Inr v' \<and> sim s' v')"
proof -
  obtain b ep dp where p: "prov s = masked b ep dp (prov v)" "mset ep \<subseteq># mset (enqueuePool (prov v))" "mset dp \<subseteq># mset (dequeuePool (prov v))"
    using sim unfolding sim_def by blast
  have "sim (goto_d k DPool (s\<lparr>prov := (prov s)\<lparr>dequeuePool := dp @ [dtask Q k]\<rparr>\<rparr>))
      (goto_d k DPool (v\<lparr>prov := (prov v)\<lparr>dequeuePool := dequeuePool (prov v) @ [dtask Q k]\<rparr>\<rparr>))"
    using relates_goto(4)[of DPool k] relates_pools(3)[OF sim p] unfolding relates_def by blast
  then show ?thesis using pa p(1) by (simp add: fire_def deq_sched_def schedule_dequeue_def comp_simps)
qed

text \<open>A worker in the wait of \<^verbatim>\<open>async_dequeue\<close>: it goes on sleeping, is stopped, goes back to the pool or on to the
  deletion.\<close>

lemma sim_waiting:
  assumes sim: "sim s v" and v': "dstep B Q k v = Inr v'" and pa: "pool_accepts B" and AWait: "dth s k = AWait"
  shows "\<exists>s'. dstep B Q k s = Inr s' \<and> (sim s' v' \<or> sim s' v)"
proof (cases "waitForPid (snd k) (fst k) (waits s k)")
  case (Returned r)
  note d = sim_dth[OF sim, of k]
  show ?thesis
  proof (cases "r = -2")
    case True
    then show ?thesis using AWait Returned d sim_dropped[OF sim] by (auto simp: dstep_def Let_def)
  next
    case False
    then have w: "waitForPid (snd k) (fst k) (waits v k) = Returned r" using sim_wait[OF sim AWait Returned] by blast
    show ?thesis
    proof (cases "r = -1")
      case True
      then show ?thesis using AWait Returned w d v' sim_sched[OF sim pa, of "''Unable to redispatch the dequeue!''" Q k]
        by (auto simp: dstep_def Let_def)
    next
      case r1: False
      have "sim (goto_d k ADel s) (goto_d k ADel v)" using relates_goto(4)[of ADel k] sim unfolding relates_def by blast
      then show ?thesis using AWait Returned w d v' r1 False by (auto simp: dstep_def Let_def)
    qed
  qed
next
  case Blocked
  then show ?thesis using AWait sim by (auto simp: dstep_def Let_def)
qed

lemma sim_dstep:
  assumes sim: "sim s v" and v': "dstep B Q k v = Inr v'" and pa: "pool_accepts B" and ns: "\<not> stopped (tracker (prov v))"
  shows "\<exists>s'. dstep B Q k s = Inr s' \<and> (sim s' v' \<or> sim s' v)"
proof -
  obtain b ep dp where p: "prov s = masked b ep dp (prov v)" "mset ep \<subseteq># mset (enqueuePool (prov v))" "mset dp \<subseteq># mset (dequeuePool (prov v))"
    using sim unfolding sim_def by blast
  note fire = sim_fire[OF sim] and d = sim_dth[OF sim, of k]
  show ?thesis
  proof (cases "dth s k")
    case DLog
    then show ?thesis using fire[OF neutral_logs(3) _ relates_goto(5)] v' d by (fastforce simp: dstep_def Let_def)
  next
    case DSched
    then show ?thesis using sim_sched[OF sim pa, of "''Unable to dispatch the dequeue!''" Q k] v' d by (auto simp: dstep_def Let_def)
  next
    case DSkip
    then show ?thesis using fire[OF neutral_logs(4) _ relates_goto(6)] v' d by (fastforce simp: dstep_def Let_def)
  next
    case DPool
    have "dtask Q k \<in> set dp \<Longrightarrow> dtask Q k \<in> set (dequeuePool (prov v))"
      using mset_subset_eqD[OF p(3)] by (metis set_mset_mset)
    then show ?thesis using sim_take[OF sim p ns, of k "dtask Q k"] DPool v' d p(1) sim by (auto simp: dstep_def Let_def)
  next
    case AWait
    then show ?thesis using sim_waiting[OF sim v' pa] by blast
  next
    case ADel
    then show ?thesis using fire[OF neutral_journals(2) _ relates_goto(4)] v' d by (fastforce simp: dstep_def Let_def)
  next
    case ALog
    then show ?thesis using fire[OF neutral_logs(5) _ relates_goto(7)] v' d by (fastforce simp: dstep_def Let_def)
  qed (use sim in \<open>auto simp: dstep_def\<close>)
qed

section \<open>Every schedule\<close>

lemma sim_begin:
  assumes "sim s v" and "isInit (prov v)" and "begin_with B msg queue f v = Inr v'" and "f = (\<lambda>_ s. s) \<or> f = (\<lambda>k s. s\<lparr>again := insert k (again s)\<rparr>)"
  shows "\<exists>s'. begin_with B msg queue f s = Inr s' \<and> sim s' v'"
proof -
  have "relates (\<lambda>s. let k = (persistenceId queue, m) in f k (goto_e k ELog (s\<lparr>ebuf := (ebuf s)(k := bs)\<rparr>)))" for m bs
    using assms(4) relates_goto(8,9)[where k = "(persistenceId queue, m)" and e = ELog and bs = bs] by (auto simp: Let_def)
  then show ?thesis
    using sim_fire[OF assms(1) neutral_begin(1)[OF assms(2)] assms(3)[unfolded begin_with_def]] unfolding begin_with_def by (simp add: split_beta)
qed

lemma sim_logs:
  assumes "sim s v"
  shows "sim (s\<lparr>prov := (prov s)\<lparr>aologger := A, machine := w\<rparr>\<rparr>) (v\<lparr>prov := (prov v)\<lparr>aologger := A, machine := w\<rparr>\<rparr>)"
proof -
  obtain b ep dp where p: "prov s = masked b ep dp (prov v)" "mset ep \<subseteq># mset (enqueuePool (prov v))" "mset dp \<subseteq># mset (dequeuePool (prov v))"
    using assms unfolding sim_def by blast
  have "(prov s)\<lparr>aologger := A, machine := w\<rparr> = masked b ep dp ((prov v)\<lparr>aologger := A, machine := w\<rparr>)"
    by (simp add: p(1) masked_def)
  then have "\<exists>b ep dp. (prov s)\<lparr>aologger := A, machine := w\<rparr> = masked b ep dp ((prov v)\<lparr>aologger := A, machine := w\<rparr>) \<and>
      mset ep \<subseteq># mset (enqueuePool (prov v)) \<and> mset dp \<subseteq># mset (dequeuePool (prov v))" using p(2,3) by blast
  then show ?thesis using assms by (simp add: sim_def)
qed

lemma relates_cleaners: "relates (\<lambda>s. s\<lparr>ecl := c\<rparr>)" "relates (\<lambda>s. s\<lparr>dcl := c\<rparr>)"
  by (simp_all add: relates_def sim_def)

lemma sim_exec:
  assumes sim: "sim s v" and v': "exec B M Q e v = Inr v'" and pa: "pool_accepts B" and ns: "\<not> stopped (tracker (prov v))" and i: "isInit (prov v)"
  shows "\<exists>s'. exec B M Q e s = Inr s' \<and> (sim s' v' \<or> sim s' v)"
proof -
  note f = sim_fields[OF sim]
  show ?thesis
  proof (cases e)
    case (Enqueue q)
    then show ?thesis using v' sim sim_begin[OF sim i _ disjI1[OF refl]] by (cases "Q q") (auto simp: f, blast)
  next
    case (EnqueueAgain k q)
    then show ?thesis using v' sim sim_begin[OF sim i _ disjI2[OF refl]] by (cases "Q (fst k)") (auto simp: f split: if_splits, blast)
  next
    case (Dequeue k)
    have "relates (goto_d k (if x then DLog else DSkip))" for x by (cases x) (simp_all add: relates_goto(4))
    note fire = sim_fire[OF sim neutral_begin(2)[OF i] _ this]
    show ?thesis
    proof (cases "returned (eth s k) \<and> dth s k = DNone")
      case True
      then have "dth v k = DNone" using sim_dth[OF sim, of k] by simp
      then show ?thesis using Dequeue v' fire True by (fastforce simp: f)
    next
      case False
      then show ?thesis using Dequeue sim by auto
    qed
  next
    case (EStep k)
    then show ?thesis using sim_estep[OF sim _ pa] v' by simp
  next
    case (DStep k)
    then show ?thesis using sim_dstep[OF sim _ pa ns] v' by simp
  next
    case (Observe k)
    have "unstop (tracker (prov s)) = tracker (prov v)" using sim ns by (auto simp: sim_def unstop_def)
    then have "dth s k = AWait \<Longrightarrow> sim (s\<lparr>waits := (waits s)(k := waits s k @ [tracker (prov s)])\<rparr>) (v\<lparr>waits := (waits v)(k := waits v k @ [tracker (prov v)])\<rparr>)"
      using sim by (simp add: sim_def)
    then show ?thesis using Observe v' sim sim_dth[OF sim, of k] by auto
  next
    case CleanEnq
    have "sim (s\<lparr>prov := (prov s)\<lparr>aologger := Some A, machine := w\<rparr>, ecl := c\<rparr>) (v\<lparr>prov := (prov v)\<lparr>aologger := Some A, machine := w\<rparr>, ecl := c\<rparr>)" for A w c
      using relates_cleaners(1)[of c] sim_logs[OF sim] unfolding relates_def by blast
    then show ?thesis using CleanEnq v' by (auto simp: f split: option.splits sum.splits prod.splits)
  next
    case CleanDeq
    have "sim (s\<lparr>prov := (prov s)\<lparr>aologger := Some A, machine := w\<rparr>, dcl := c\<rparr>) (v\<lparr>prov := (prov v)\<lparr>aologger := Some A, machine := w\<rparr>, dcl := c\<rparr>)" for A w c
      using relates_cleaners(2)[of c] sim_logs[OF sim] unfolding relates_def by blast
    then show ?thesis using CleanDeq v' by (auto simp: f split: option.splits prod.splits)
  qed
qed

lemma sim_fexec:
  assumes st: "setting B view M Q l0 lo hi" and sim: "sim s v" and inv: "sys_inv B view M Q l0 lo hi (Suc n) v"
  shows "\<exists>s' v'. fexec B M Q e s = Inr s' \<and> sim s' v' \<and> sys_inv B view M Q l0 lo hi n v'"
proof -
  obtain b ep dp where p: "prov s = masked b ep dp (prov v)" "mset ep \<subseteq># mset (enqueuePool (prov v))" "mset dp \<subseteq># mset (dequeuePool (prov v))"
    using sim unfolding sim_def by blast
  note less = sys_inv_less[OF inv] and i = sys_parts[OF inv]
  show ?thesis
  proof (cases e)
    case (Ev e')
    obtain v' where v': "exec B M Q e' v = Inr v'" "sys_inv B view M Q l0 lo hi n v'" using exec_keeps[OF st inv] by blast
    have "pool_accepts B" "isInit (prov v)" using st i(1) by (auto simp: setting_def ids_inv_def)
    then show ?thesis using Ev v' less sim_exec[OF sim v'(1) _ not_stopped[OF i(4)]] by auto
  next
    case StopTracker
    have "(prov s)\<lparr>tracker := (tracker (prov s))\<lparr>stopped := True\<rparr>\<rparr> = masked True ep dp (prov v)" using p(1) by (simp add: masked_def)
    then have "sim (s\<lparr>prov := (prov s)\<lparr>tracker := (tracker (prov s))\<lparr>stopped := True\<rparr>\<rparr>\<rparr>) v"
      using sim p(2,3) unfolding sim_def by (simp del: masked_fields) blast
    then show ?thesis using StopTracker less by (auto simp: PidTracker_stop_def)
  next
    case ClearEnqueues
    then show ?thesis using relates_pools(5)[OF sim p] less by auto
  next
    case ClearDequeues
    then show ?thesis using relates_pools(6)[OF sim p] less by auto
  qed
qed

lemma sim_frun:
  assumes "setting B view M Q l0 lo hi"
  shows "sim s v \<Longrightarrow> sys_inv B view M Q l0 lo hi (length es) v \<Longrightarrow>
    \<exists>s' v'. frun B M Q es s = Inr s' \<and> sim s' v' \<and> sys_inv B view M Q l0 lo hi 0 v'"
proof (induction es arbitrary: s v)
  case (Cons e es)
  then obtain s1 v1 where "fexec B M Q e s = Inr s1" "sim s1 v1" "sys_inv B view M Q l0 lo hi (length es) v1"
    using sim_fexec[OF assms, of s v "length es" e] by auto
  then show ?case using Cons.IH by simp
qed auto

text \<open>The recovery of the plugin \<open>S\<close> after a run that ended in \<open>s\<close> returns and hands the broker what it should.\<close>

definition hands_back :: "(u64 \<Rightarrow> message_info) \<Rightarrow> ('db, 'mdb) system \<Rightarrow> recovery_manager \<Rightarrow> 's store_plugin \<Rightarrow> bool" where
  "hands_back M s R S \<longleftrightarrow>
     (\<exists>recovered S'. plugin_recover R S = (Inr recovered, S') \<and>
         (\<forall>q m. returned (eth s (q, m)) \<longrightarrow> dth s (q, m) = DNone \<longrightarrow> \<not> mi_transient (M m) \<longrightarrow> delivered M S' q m) \<and>
         (\<forall>q m. delivered M S' q m \<longrightarrow> begun (eth s (q, m)) \<and> \<not> mi_transient (M m)) \<and>
         (settled (ecl s) \<longrightarrow> (\<forall>q m. d_returned (dth s (q, m)) \<or> dth s (q, m) = DDropped \<longrightarrow> eth s (q, m) \<noteq> SLog True \<longrightarrow>
            \<not> delivered M S' q m)))"


section \<open>A concrete shutdown\<close>

text \<open>The run of \<open>Durability\<close>, shut down while the task of message 7 is in the pool.\<close>

definition stop_events :: "fevent list" where
  "stop_events = map Ev run_events @ [StopTracker, ClearEnqueues, ClearDequeues]"

lemma frun_Ev: "run B M Q es s = Inr s' \<Longrightarrow> frun B M Q (map Ev es @ fs) s = frun B M Q fs s'"
  by (induction es arbitrary: s) (auto split: sum.splits)

lemma stop_ready: "ready wit_cold_bdb map_of wit_info run_queues {(1, 3), (1, 6)} 6 1 20 (length stop_events) run_provider"
  using run_ready unfolding ready_def by (simp add: stop_events_def run_events_def)


text \<open>The stop wakes the workers that wait when it comes. A worker that begins to wait after it, for an id above
  the mark, sees the mark only after a further wake-up, which nobody owes it.\<close>

lemma late_waiter_sleeps:
  assumes "stopped t" and "\<not> qm_mem (dupMap t) q p" and "p > lastPid (mainRecord t)"
  shows "waitForPid p q [t, t] = Blocked"
  using assms by (simp add: waitForPid_def)

end
