(* ===== verification/Futures.thy ===== *)
theory Futures
  imports ThreadPool
begin

text \<open>
  The futures of the thread pool, \<^verbatim>\<open>lib/ext/boost/threadpool/detail/future.hpp\<close> and
  \<^verbatim>\<open>lib/ext/boost/threadpool/future.hpp\<close>: the shared result with its monitor, the task that fills it in, and the
  threads that wait for it, ask for it or cancel it. \<^verbatim>\<open>cancel\<close>, \<^verbatim>\<open>ready\<close>, \<^verbatim>\<open>is_cancelled\<close> and
  \<^verbatim>\<open>set_execution_status\<close> take no lock, so their accesses to the members are single steps, and so are the
  assignments inside \<^verbatim>\<open>set_value\<close>.
\<close>

section \<open>The shared result\<close>

text \<open>Where a task function stands: not begun (with the answer to \<^verbatim>\<open>if(m_function)\<close>), about to ask whether the
  future is cancelled, in the wrapped function, before the lock of \<^verbatim>\<open>set_value\<close>, before each statement of its
  branch, before the last \<^verbatim>\<open>set_execution_status\<close>, through, or left by an exception.\<close>

datatype 'r future_task = Created bool | Checking | Evaluating | Storing 'r | Writing 'r | Publishing | Notifying | Closing | Completed | Thrown

text \<open>The calls of the class \<^verbatim>\<open>future\<close>, each passed on to the implementation, and where a thread in one stands.\<close>

datatype future_call = Call_ready | Call_wait | Call_timed_wait | Call_get | Call_cancel | Call_is_cancelled

datatype 'r future_answer = Done | Truth bool | Value 'r

datatype 'r future_client = Calling future_call | Sleeping future_call | Probing | Cancelling | Reading | Answered "'r future_answer"

record 'r future_impl =
  m_ready :: bool
  m_result :: 'r
  m_is_cancelled :: bool
  m_executing :: bool
  m_holder :: "nat option"
  tasks :: "'r future_task list"
  clients :: "'r future_client list"

text \<open>The constructor gives no value to \<^verbatim>\<open>m_result\<close> and \<^verbatim>\<open>m_executing\<close>: they begin with what the memory holds.\<close>

definition future_impl_new :: "'r \<Rightarrow> bool \<Rightarrow> 'r future_impl" where
  "future_impl_new memory_result memory_executing =
     \<lparr>m_ready = False, m_result = memory_result, m_is_cancelled = False, m_executing = memory_executing, m_holder = None, tasks = [], clients = []\<rparr>"

definition set_task :: "nat \<Rightarrow> 'r future_task \<Rightarrow> 'r future_impl \<Rightarrow> 'r future_impl" where
  "set_task t x f = f\<lparr>tasks := (tasks f)[t := x]\<rparr>"

definition set_client :: "nat \<Rightarrow> 'r future_client \<Rightarrow> 'r future_impl \<Rightarrow> 'r future_impl" where
  "set_client c x f = f\<lparr>clients := (clients f)[c := x]\<rparr>"

definition set_execution_status :: "bool \<Rightarrow> 'r future_impl \<Rightarrow> 'r future_impl" where
  "set_execution_status executing f = f\<lparr>m_executing := executing\<rparr>"

fun wake_client :: "'r future_client \<Rightarrow> 'r future_client" where
  "wake_client (Sleeping k) = Calling k"
| "wake_client x = x"

text \<open>\<^verbatim>\<open>set_value\<close> under the lock: the test, and the statements of the branch one by one.\<close>

definition set_value_test :: "nat \<Rightarrow> 'r \<Rightarrow> 'r future_impl \<Rightarrow> 'r future_impl" where
  "set_value_test t r f =
     (if \<not> m_ready f \<and> \<not> m_is_cancelled f then set_task t (Writing r) (f\<lparr>m_holder := Some t\<rparr>) else set_task t Closing f)"

fun task_step :: "nat \<Rightarrow> 'r future_task \<Rightarrow> 'r future_impl \<Rightarrow> 'r future_impl option" where
  "task_step t (Created callable) f =
     Some (if callable then set_task t Checking (set_execution_status True f) else set_task t Completed f)"
| "task_step t Checking f = Some (set_task t (if m_is_cancelled f then Closing else Evaluating) f)"
| "task_step t (Storing r) f = (if m_holder f = None then Some (set_value_test t r f) else None)"
| "task_step t (Writing r) f = Some (set_task t Publishing (f\<lparr>m_result := r\<rparr>))"
| "task_step t Publishing f = Some (set_task t Notifying (f\<lparr>m_ready := True\<rparr>))"
| "task_step t Notifying f = Some (set_task t Closing (f\<lparr>m_holder := None, clients := map wake_client (clients f)\<rparr>))"
| "task_step t Closing f = Some (set_task t Completed (set_execution_status False f))"
| "task_step t _ f = None"

text \<open>The loop of \<^verbatim>\<open>wait\<close> and \<^verbatim>\<open>timed_wait\<close> from one lock acquisition to the next wait; \<^verbatim>\<open>operator()\<close> hands
  out a reference to \<^verbatim>\<open>m_result\<close> that is read after the lock is released.\<close>

definition wait_loop :: "nat \<Rightarrow> future_call \<Rightarrow> 'r future_client \<Rightarrow> 'r future_impl \<Rightarrow> 'r future_impl option" where
  "wait_loop c k through f =
     (if m_holder f \<noteq> None then None else Some (set_client c (if m_ready f then through else Sleeping k) f))"

fun client_step :: "nat \<Rightarrow> 'r future_client \<Rightarrow> 'r future_impl \<Rightarrow> 'r future_impl option" where
  "client_step c (Calling Call_ready) f = Some (set_client c (Answered (Truth (m_ready f))) f)"
| "client_step c (Calling Call_wait) f = wait_loop c Call_wait (Answered Done) f"
| "client_step c (Calling Call_timed_wait) f = wait_loop c Call_timed_wait (Answered (Truth True)) f"
| "client_step c (Calling Call_get) f = wait_loop c Call_get Reading f"
| "client_step c Reading f = Some (set_client c (Answered (Value (m_result f))) f)"
| "client_step c (Calling Call_cancel) f = Some (set_client c (if \<not> m_ready f then Cancelling else Probing) f)"
| "client_step c Probing f = Some (set_client c (if m_executing f then Cancelling else Answered (Truth False)) f)"
| "client_step c Cancelling f = Some (set_client c (Answered (Truth True)) (f\<lparr>m_is_cancelled := True\<rparr>))"
| "client_step c (Calling Call_is_cancelled) f = Some (set_client c (Answered (Truth (m_is_cancelled f))) f)"
| "client_step c _ f = None"

text \<open>The free function \<^verbatim>\<open>schedule\<close>: the shared objects are a list, a task names the one it fills in. The answer
  of the pool is dropped.\<close>

definition future_schedule ::
  "('c, 't) scheduling_policy \<Rightarrow> nat \<Rightarrow> 'r \<Rightarrow> bool \<Rightarrow> ('f \<Rightarrow> nat \<Rightarrow> 't) \<Rightarrow> 'f \<Rightarrow> 'r future_impl list \<Rightarrow> ('c, 't) pool_core
    \<Rightarrow> nat \<times> 'r future_impl list \<times> ('c, 't) pool_core" where
  "future_schedule S w memory_result memory_executing future_impl_task_func task objects pool =
     (let res = length objects
      in (res, objects @ [future_impl_new memory_result memory_executing], snd (pool_schedule S w (future_impl_task_func task res) pool)))"

section \<open>The threads around a future\<close>

text \<open>A step is labelled with the value the wrapped function returned in it, if it did. A sleeping thread may wake
  up without being notified, and one with a timestamp may give up.\<close>

inductive future_step :: "'r future_impl \<Rightarrow> 'r option \<Rightarrow> 'r future_impl \<Rightarrow> bool" for f :: "'r future_impl" where
  Task: "t < length (tasks f) \<Longrightarrow> task_step t (tasks f ! t) f = Some f' \<Longrightarrow> future_step f None f'"
| Return: "t < length (tasks f) \<Longrightarrow> tasks f ! t = Evaluating \<Longrightarrow> future_step f (Some r) (set_task t (Storing r) f)"
| Raise: "t < length (tasks f) \<Longrightarrow> tasks f ! t = Evaluating \<Longrightarrow> future_step f None (set_task t Thrown f)"
| Client: "c < length (clients f) \<Longrightarrow> client_step c (clients f ! c) f = Some f' \<Longrightarrow> future_step f None f'"
| Wake_up: "c < length (clients f) \<Longrightarrow> clients f ! c = Sleeping k \<Longrightarrow> future_step f None (set_client c (Calling k) f)"
| Give_up: "c < length (clients f) \<Longrightarrow> clients f ! c = Sleeping Call_timed_wait \<Longrightarrow> m_holder f = None \<Longrightarrow>
    future_step f None (set_client c (Answered (Truth False)) f)"
| New_task: "future_step f None (f\<lparr>tasks := tasks f @ [Created callable]\<rparr>)"
| New_call: "future_step f None (f\<lparr>clients := clients f @ [Calling k]\<rparr>)"

inductive future_run :: "'r future_impl \<Rightarrow> 'r list \<Rightarrow> 'r future_impl \<Rightarrow> bool" for f0 :: "'r future_impl" where
  Start: "future_run f0 [] f0"
| Step: "future_run f0 rs f \<Longrightarrow> future_step f l f' \<Longrightarrow> future_run f0 (rs @ (case l of None \<Rightarrow> [] | Some r \<Rightarrow> [r])) f'"

section \<open>One value for everybody\<close>

text \<open>What holds between any two steps, with \<open>rs\<close> the values the wrapped functions have returned: the lock belongs to
  the one task inside \<^verbatim>\<open>set_value\<close>, \<^verbatim>\<open>m_result\<close> is a returned value from the moment it may be read, and nobody
  sleeps once the value is there and announced.\<close>

fun inside :: "'r future_task \<Rightarrow> bool" where
  "inside (Writing r) = True"
| "inside Publishing = True"
| "inside Notifying = True"
| "inside _ = False"

fun task_ok :: "bool \<Rightarrow> 'r \<Rightarrow> 'r list \<Rightarrow> 'r future_task \<Rightarrow> bool" where
  "task_ok rdy res rs (Storing r) \<longleftrightarrow> r \<in> set rs"
| "task_ok rdy res rs (Writing r) \<longleftrightarrow> r \<in> set rs \<and> \<not> rdy"
| "task_ok rdy res rs Publishing \<longleftrightarrow> res \<in> set rs \<and> \<not> rdy"
| "task_ok rdy res rs Notifying \<longleftrightarrow> rdy"
| "task_ok rdy res rs _ \<longleftrightarrow> True"

fun client_ok :: "bool \<Rightarrow> 'r \<Rightarrow> bool \<Rightarrow> 'r future_client \<Rightarrow> bool" where
  "client_ok rdy res quiet Reading \<longleftrightarrow> rdy"
| "client_ok rdy res quiet (Answered Done) \<longleftrightarrow> rdy"
| "client_ok rdy res quiet (Answered (Value v)) \<longleftrightarrow> rdy \<and> v = res"
| "client_ok rdy res quiet (Sleeping k) \<longleftrightarrow> \<not> (rdy \<and> quiet)"
| "client_ok rdy res quiet _ \<longleftrightarrow> True"

definition future_inv :: "'r list \<Rightarrow> 'r future_impl \<Rightarrow> bool" where
  "future_inv rs f \<longleftrightarrow>
     (\<forall>t < length (tasks f). task_ok (m_ready f) (m_result f) rs (tasks f ! t)) \<and>
     (\<forall>c < length (clients f). client_ok (m_ready f) (m_result f) (m_holder f = None) (clients f ! c)) \<and>
     (\<forall>t. m_holder f = Some t \<longleftrightarrow> t < length (tasks f) \<and> inside (tasks f ! t)) \<and>
     (m_ready f \<longrightarrow> m_result f \<in> set rs)"

lemma nth_list_update_in: "j < length xs \<Longrightarrow> xs[i := x] ! j = (if i = j then x else xs ! j)"
  by (cases "i = j") simp_all

lemma client_ok_mono:
  assumes "client_ok rdy res q x" "rdy \<Longrightarrow> rdy' \<and> res' = res" "rdy' \<and> q' \<Longrightarrow> rdy \<and> q"
  shows "client_ok rdy' res' q' x"
proof (cases x)
  case (Answered a)
  then show ?thesis using assms(1,2) by (cases a) auto
qed (use assms in auto)

lemma client_ok_woken: "client_ok rdy res q x \<Longrightarrow> client_ok rdy res q' (wake_client x)"
proof (cases x)
  case (Answered a)
  then show "client_ok rdy res q x \<Longrightarrow> ?thesis" by (cases a) auto
qed auto

lemma task_ok_outside: "\<not> inside x \<Longrightarrow> task_ok rdy res rs x \<Longrightarrow> task_ok rdy' res' rs x"
  by (cases x) auto

lemma task_ok_more: "task_ok rdy res rs x \<Longrightarrow> set rs \<subseteq> set rs' \<Longrightarrow> task_ok rdy res rs' x"
  by (cases x) auto

lemma future_inv_more: "future_inv rs f \<Longrightarrow> future_inv (rs @ rs') f"
  unfolding future_inv_def using task_ok_more[of _ _ rs _ "rs @ rs'"] by simp

lemma future_invD:
  assumes "future_inv rs f"
  shows "t < length (tasks f) \<Longrightarrow> task_ok (m_ready f) (m_result f) rs (tasks f ! t)"
    and "t < length (tasks f) \<Longrightarrow> inside (tasks f ! t) \<Longrightarrow> m_holder f = Some t"
    and "c < length (clients f) \<Longrightarrow> client_ok (m_ready f) (m_result f) (m_holder f = None) (clients f ! c)"
    and "m_holder f = Some t \<Longrightarrow> t < length (tasks f) \<and> inside (tasks f ! t)"
    and "m_ready f \<Longrightarrow> m_result f \<in> set rs"
  using assms unfolding future_inv_def by simp_all

text \<open>A task that is alone inside \<^verbatim>\<open>set_value\<close> may change the members; the others change only their own place.\<close>

lemma set_task_inside:
  assumes inv: "future_inv rs f" and g: "tasks g = tasks f" "t < length (tasks f)"
    and alone: "\<And>u. u < length (tasks f) \<Longrightarrow> u \<noteq> t \<Longrightarrow> \<not> inside (tasks f ! u)"
    and x: "task_ok (m_ready g) (m_result g) rs x" "m_holder g = (if inside x then Some t else None)"
    and rest: "\<And>c. c < length (clients g) \<Longrightarrow> client_ok (m_ready g) (m_result g) (m_holder g = None) (clients g ! c)"
      "m_ready g \<Longrightarrow> m_result g \<in> set rs"
  shows "future_inv rs (set_task t x g)"
proof -
  have "task_ok (m_ready g) (m_result g) rs (tasks f ! u)" if "u < length (tasks f)" "u \<noteq> t" for u
    using task_ok_outside[OF alone future_invD(1)[OF inv]] that by blast
  then show ?thesis
    using g x rest alone unfolding future_inv_def set_task_def by (auto simp: nth_list_update)
qed

lemma set_task_outside:
  assumes inv: "future_inv rs f" and t: "t < length (tasks f)" "\<not> inside (tasks f ! t)" "\<not> inside x"
    and x: "task_ok (m_ready f) (m_result f) rs x"
    and g: "tasks g = tasks f" "clients g = clients f" "m_ready g = m_ready f" "m_result g = m_result f" "m_holder g = m_holder f"
  shows "future_inv rs (set_task t x g)"
proof -
  have "u \<noteq> t" if "m_holder f = Some u" for u using future_invD(4)[OF inv that] t(2) by blast
  then show ?thesis
    using inv t x g unfolding future_inv_def set_task_def by (auto simp: nth_list_update)
qed

lemma task_step_inv:
  assumes inv: "future_inv rs f" and t: "t < length (tasks f)" and step: "task_step t (tasks f ! t) f = Some f'"
  shows "future_inv rs f'"
proof -
  note place = set_task_outside[OF inv t] and at = future_invD(1)[OF inv t]
  have alone: "\<not> inside (tasks f ! u)" if "u < length (tasks f)" "u \<noteq> t" "m_holder f = None \<or> m_holder f = Some t" for u
    using future_invD(2)[OF inv that(1)] that by auto
  have holder: "m_holder f = Some t" if "inside (tasks f ! t)" using future_invD(2)[OF inv t that] .
  note sole = set_task_inside[OF inv _ t alone] and clientsM = client_ok_mono[OF future_invD(3)[OF inv]]
  show ?thesis
  proof (cases "tasks f ! t")
    case (Storing r)
    show ?thesis
    proof (cases "\<not> m_ready f \<and> \<not> m_is_cancelled f")
      case True
      have "client_ok (m_ready f) (m_result f) False (clients f ! c)" if "c < length (clients f)" for c
        by (rule clientsM[OF that]) simp_all
      then show ?thesis using step Storing True at by (auto simp: set_value_test_def split: if_splits intro!: sole)
    next
      case False
      then show ?thesis using step Storing by (auto simp: set_value_test_def split: if_splits intro!: place)
    qed
  next
    case (Writing r)
    then show ?thesis using step at holder by (auto intro!: sole clientsM)
  next
    case Publishing
    then show ?thesis using step at holder by (auto intro!: sole clientsM)
  next
    case Notifying
    have "client_ok True (m_result f) True (wake_client (clients f ! c))" if "c < length (clients f)" "m_ready f" for c
      using client_ok_woken[OF future_invD(3)[OF inv that(1)], of True] that(2) by simp
    with Notifying show ?thesis using step at holder future_invD(5)[OF inv] by (auto intro!: sole)
  qed (use step at in \<open>auto simp: set_execution_status_def intro!: place split: if_splits\<close>)
qed

text \<open>A thread that calls the future changes its own place, and \<^verbatim>\<open>cancel\<close> the flag nobody else writes.\<close>

lemma set_client_inv:
  assumes inv: "future_inv rs f" and x: "client_ok (m_ready f) (m_result f) (m_holder f = None) x"
    and g: "tasks g = tasks f" "clients g = clients f" "m_ready g = m_ready f" "m_result g = m_result f" "m_holder g = m_holder f"
  shows "future_inv rs (set_client c x g)"
  using inv x g unfolding future_inv_def set_client_def by (simp add: nth_list_update_in)

lemma wait_loop_inv: "future_inv rs f \<Longrightarrow> wait_loop c k x f = Some f' \<Longrightarrow> (m_ready f \<Longrightarrow> client_ok True (m_result f) True x) \<Longrightarrow> future_inv rs f'"
  unfolding wait_loop_def by (cases "m_ready f") (auto split: if_splits intro!: set_client_inv)

lemma client_step_inv:
  assumes inv: "future_inv rs f" and c: "c < length (clients f)" and step: "client_step c (clients f ! c) f = Some f'"
  shows "future_inv rs f'"
proof -
  note at = future_invD(3)[OF inv c]
  show ?thesis
  proof (cases "clients f ! c")
    case (Calling k)
    then show ?thesis using step by (cases k) (auto intro!: set_client_inv[OF inv] elim!: wait_loop_inv[OF inv])
  qed (use step at in \<open>auto intro!: set_client_inv[OF inv]\<close>)
qed

lemma future_step_inv:
  assumes "future_step f l f'" "future_inv rs f"
  shows "future_inv (rs @ (case l of None \<Rightarrow> [] | Some r \<Rightarrow> [r])) f'"
  using assms
proof cases
  case (Return t r)
  then show ?thesis using future_inv_more[OF assms(2), of "[r]"] by (auto intro!: set_task_outside)
next
  case (New_task callable)
  then show ?thesis using assms(2) by (auto simp: future_inv_def nth_append less_Suc_eq)
next
  case (New_call k)
  then show ?thesis using assms(2) by (auto simp: future_inv_def nth_append less_Suc_eq)
qed (use assms(2) in \<open>auto intro: task_step_inv client_step_inv intro!: set_task_outside set_client_inv\<close>)

lemma future_run_inv: "future_run f0 rs f \<Longrightarrow> future_inv rs0 f0 \<Longrightarrow> future_inv (rs0 @ rs) f"
  by (induction rule: future_run.induct) (auto dest: future_step_inv)

lemma future_new_inv: "future_inv [] (future_impl_new r e)"
  by (simp add: future_inv_def future_impl_new_def)

lemmas future_run_new_inv = future_run_inv[OF _ future_new_inv, simplified]

text \<open>The value is never replaced, \<^verbatim>\<open>m_ready\<close> never taken back.\<close>

lemma task_step_stable:
  assumes "task_ok (m_ready f) (m_result f) rs x" "task_step t x f = Some f'" "m_ready f"
  shows "m_ready f' \<and> m_result f' = m_result f"
  using assms by (cases x) (auto simp: set_task_def set_execution_status_def set_value_test_def split: if_splits)

lemma client_step_members:
  assumes "client_step c x f = Some f'"
  shows "m_ready f' = m_ready f \<and> m_result f' = m_result f \<and> m_holder f' = m_holder f \<and> tasks f' = tasks f \<and> (m_is_cancelled f \<longrightarrow> m_is_cancelled f')"
  using assms by (induction c x f rule: client_step.induct) (auto simp: set_client_def wait_loop_def split: if_splits)

lemma future_step_stable:
  assumes "future_step f l f'" "future_inv rs f" "m_ready f"
  shows "m_ready f' \<and> m_result f' = m_result f"
  using assms(1)
proof cases
  case (Task t)
  then show ?thesis using task_step_stable[OF future_invD(1)[OF assms(2)]] assms(3) by blast
qed (use assms(3) in \<open>auto simp: set_task_def set_client_def dest: client_step_members\<close>)

lemma future_run_stable: "future_run f rs' g \<Longrightarrow> future_inv rs f \<Longrightarrow> m_ready f \<Longrightarrow> m_ready g \<and> m_result g = m_result f"
proof (induction rule: future_run.induct)
  case (Step rs' g l g')
  then show ?case using future_step_stable[OF Step.hyps(2) future_run_inv[OF Step.hyps(1) Step.prems(1)]] by simp
qed simp

text \<open>A future cancelled before a value is on its way stays empty: the value is thrown away.\<close>

definition dead :: "'r future_impl \<Rightarrow> bool" where
  "dead f \<longleftrightarrow> m_is_cancelled f \<and> \<not> m_ready f \<and> m_holder f = None"

lemma dead_step:
  assumes "future_step f l f'" "future_inv rs f" "dead f"
  shows "dead f'"
  using assms(1)
proof cases
  case (Task t)
  have "\<not> inside (tasks f ! t)" using future_invD(2)[OF assms(2) Task(2)] assms(3) unfolding dead_def by auto
  then show ?thesis using Task(3) assms(3)
    by (cases "tasks f ! t") (auto simp: dead_def set_task_def set_execution_status_def set_value_test_def split: if_splits)
qed (use assms(3) in \<open>auto simp: dead_def set_task_def set_client_def dest: client_step_members\<close>)

lemma dead_run: "future_run f rs' g \<Longrightarrow> future_inv rs f \<Longrightarrow> dead f \<Longrightarrow> dead g"
proof (induction rule: future_run.induct)
  case (Step rs' g l g')
  then show ?case using dead_step[OF Step.hyps(2) future_run_inv[OF Step.hyps(1) Step.prems(1)]] by simp
qed simp

theorem cancelled_future_never_answers:
  assumes "future_run (future_impl_new r e) rs f" "m_is_cancelled f" "\<not> m_ready f" "m_holder f = None" "future_run f rs' g"
    "c < length (clients g)"
  shows "clients g ! c \<noteq> Answered Done" "clients g ! c \<noteq> Answered (Value v)"
proof -
  have inv: "future_inv rs f" using future_run_new_inv[OF assms(1)] .
  have "\<not> m_ready g" using dead_run[OF assms(5) inv] assms(2-4) unfolding dead_def by blast
  then show "clients g ! c \<noteq> Answered Done" "clients g ! c \<noteq> Answered (Value v)"
    using future_invD(3)[OF future_run_inv[OF assms(5) inv] assms(6)] by auto
qed

text \<open>The free \<^verbatim>\<open>schedule\<close> on a pool that takes every task: the new task is the last one pending, it names the
  object of the future that is returned, and that object is new and empty.\<close>

lemma future_schedule_appends:
  assumes "future_schedule fifo_scheduler w r e mk task objects pool = (i, objects', pool')"
  shows "m_scheduler pool' = m_scheduler pool @ [mk task i]" "i = length objects" "objects' ! i = future_impl_new r e"
    "j < i \<Longrightarrow> objects' ! j = objects ! j"
  using assms
  by (auto simp: future_schedule_def pool_schedule_def fifo_scheduler_def notify_one_worker_def Let_def nth_append)

text \<open>A pool that refuses the task changes nothing the caller could see: the future is returned all the same.\<close>

lemma refused_future_is_returned:
  assumes "pool_schedule S w (mk task (length objects)) pool = (False, pool')"
  shows "future_schedule S w r e mk task objects pool = (length objects, objects @ [future_impl_new r e], pool')"
  using assms by (simp add: future_schedule_def Let_def)

text \<open>C13. Whatever the threads around a future do, everybody who gets an answer from it gets the same one: a
  value handed out by \<^verbatim>\<open>get\<close> was returned by the wrapped function, is the value of the future and stays it in
  every continuation. \<^verbatim>\<open>wait\<close> returns only when the value is there, and once it is there and announced nobody
  sleeps in \<^verbatim>\<open>wait\<close>, \<^verbatim>\<open>timed_wait\<close> or \<^verbatim>\<open>get\<close>.\<close>

theorem future_one_value:
  assumes "future_run (future_impl_new r e) rs f" and "c < length (clients f)"
  shows "(\<forall>v. clients f ! c = Answered (Value v) \<longrightarrow>
           v \<in> set rs \<and> (\<forall>rs' g. future_run f rs' g \<longrightarrow> m_ready g \<and> m_result g = v)) \<and>
         (clients f ! c = Answered Done \<longrightarrow> m_ready f) \<and>
         (m_ready f \<and> m_holder f = None \<longrightarrow> (\<forall>k. clients f ! c \<noteq> Sleeping k))"
proof -
  have inv: "future_inv rs f" using future_run_new_inv[OF assms(1)] .
  note at = future_invD(3)[OF inv assms(2)]
  show ?thesis
  proof (intro conjI allI impI)
    show "v \<in> set rs" if "clients f ! c = Answered (Value v)" for v using at that future_invD(5)[OF inv] by auto
    show "m_ready g" "m_result g = v" if "clients f ! c = Answered (Value v)" "future_run f rs' g" for v rs' g
      using at that(1) future_run_stable[OF that(2) inv] by auto
  qed (use at in auto)
qed

lemmas run_task = future_run.Step[OF _ future_step.Task, simplified]
lemmas run_client = future_run.Step[OF _ future_step.Client, simplified]
lemmas run_return = future_run.Step[OF _ future_step.Return, simplified]
lemmas run_new = future_run.Step[OF future_run.Start future_step.New_task, simplified]
lemmas run_call = future_run.Step[OF _ future_step.New_call, simplified]

lemma wit_future_run:
  "future_run (future_impl_new 0 True) [7::nat]
     \<lparr>m_ready = True, m_result = 7, m_is_cancelled = False, m_executing = True, m_holder = None, tasks = [Closing], clients = [Answered (Value 7)]\<rparr>"
proof -
  let ?s = "\<lambda>rdy res h t c. \<lparr>m_ready = rdy, m_result = res :: nat, m_is_cancelled = False, m_executing = True, m_holder = h, tasks = [t], clients = [c]\<rparr>"
  let ?f = "future_impl_new 0 True :: nat future_impl"
  have "future_run ?f [] (?s False 0 None (Created True) (Calling Call_get))"
    using run_call[OF run_new[of ?f True], of Call_get] by (simp add: future_impl_new_def)
  then have "future_run ?f [] (?s False 0 None (Created True) (Sleeping Call_get))"
    by (rule run_client[of _ _ _ 0]) (simp_all add: wait_loop_def set_client_def)
  then have "future_run ?f [] (?s False 0 None Checking (Sleeping Call_get))"
    by (rule run_task[of _ _ _ 0]) (simp_all add: set_task_def set_execution_status_def)
  then have "future_run ?f [] (?s False 0 None Evaluating (Sleeping Call_get))"
    by (rule run_task[of _ _ _ 0]) (simp_all add: set_task_def)
  from run_return[OF this, of 0 7] have "future_run ?f [7] (?s False 0 None (Storing 7) (Sleeping Call_get))"
    by (simp add: set_task_def)
  then have "future_run ?f [7] (?s False 0 (Some 0) (Writing 7) (Sleeping Call_get))"
    by (rule run_task[of _ _ _ 0]) (simp_all add: set_task_def set_value_test_def)
  then have "future_run ?f [7] (?s False 7 (Some 0) Publishing (Sleeping Call_get))"
    by (rule run_task[of _ _ _ 0]) (simp_all add: set_task_def)
  then have "future_run ?f [7] (?s True 7 (Some 0) Notifying (Sleeping Call_get))"
    by (rule run_task[of _ _ _ 0]) (simp_all add: set_task_def)
  then have "future_run ?f [7] (?s True 7 None Closing (Calling Call_get))"
    by (rule run_task[of _ _ _ 0]) (simp_all add: set_task_def)
  then have "future_run ?f [7] (?s True 7 None Closing Reading)"
    by (rule run_client[of _ _ _ 0]) (simp_all add: wait_loop_def set_client_def)
  then show ?thesis
    by (rule run_client[of _ _ _ 0]) (simp_all add: set_client_def)
qed

theorem future_one_value_witness:
  "\<exists>f. future_run (future_impl_new 0 True) [7::nat] f \<and> clients f ! 0 = Answered (Value 7) \<and>
     (\<forall>rs' g. future_run f rs' g \<longrightarrow> m_ready g \<and> m_result g = 7)"
  using future_one_value[OF wit_future_run, of 0] wit_future_run by force

end
