(* ===== verification/LoopedTask.thy ===== *)
theory LoopedTask
  imports Prelude
begin

text \<open>
  The looped task of \<^verbatim>\<open>lib/ext/boost/threadpool/task_adaptors.hpp\<close>: a function that is executed in regular
  intervals until it returns false, with the breaks computed from an interval in milliseconds. The clock is the
  sequence of its readings, sleeping and yielding are recorded in the order they happen.
\<close>

section \<open>The breaks\<close>

record looped_task_func =
  m_break_s :: u32
  m_break_ns :: u32

definition looped_task_func_new :: "u32 \<Rightarrow> looped_task_func" where
  "looped_task_func_new interval =
     (let s = interval div 1000 in \<lparr>m_break_s = s, m_break_ns = (interval - s * 1000) * 1000 * 1000\<rparr>)"

record xtime =
  sec :: int
  nsec :: int

definition has_break :: "looped_task_func \<Rightarrow> bool" where
  "has_break l \<longleftrightarrow> m_break_s l > 0 \<or> m_break_ns l > 0"

definition break_until :: "looped_task_func \<Rightarrow> xtime \<Rightarrow> xtime" where
  "break_until l xt = xt\<lparr>nsec := nsec xt + uint (m_break_ns l), sec := sec xt + uint (m_break_s l)\<rparr>"

section \<open>The loop\<close>

datatype looped_action = Execute | Sleep_until xtime | Yield

text \<open>The wrapped function answers and changes the state it works on. \<open>n\<close> counts the readings of the clock; the
  loop need not end.\<close>

partial_function (option) looped_while ::
  "looped_task_func \<Rightarrow> ('s \<Rightarrow> bool \<times> 's) \<Rightarrow> (nat \<Rightarrow> xtime) \<Rightarrow> nat \<Rightarrow> 's \<Rightarrow> (looped_action list \<times> 's) option" where
  "looped_while l F clock n s =
     (if fst (F s)
      then if has_break l
           then Option.bind (looped_while l F clock (Suc n) (snd (F s)))
                  (\<lambda>x. Some (Execute # Sleep_until (break_until l (clock n)) # fst x, snd x))
           else Option.bind (looped_while l F clock n (snd (F s))) (\<lambda>x. Some (Execute # Yield # fst x, snd x))
      else Some ([Execute], snd (F s)))"

text \<open>\<^verbatim>\<open>operator()\<close>: nothing at all without a function.\<close>

definition looped_execute ::
  "looped_task_func \<Rightarrow> ('s \<Rightarrow> bool \<times> 's) option \<Rightarrow> (nat \<Rightarrow> xtime) \<Rightarrow> 's \<Rightarrow> (looped_action list \<times> 's) option" where
  "looped_execute l fn clock s =
     (case fn of None \<Rightarrow> Some ([], s)
      | Some F \<Rightarrow>
          if has_break l
          then Option.bind (looped_while l F clock 1 s) (\<lambda>x. Some (Sleep_until (break_until l (clock 0)) # fst x, snd x))
          else looped_while l F clock 0 s)"

section \<open>What the breaks are worth\<close>

text \<open>On 32 bits nothing overflows: the two parts are the interval exactly, and the nanoseconds are less than a
  second.\<close>

lemma looped_break_exact:
  "uint (m_break_s (looped_task_func_new interval)) * 1000000000 + uint (m_break_ns (looped_task_func_new interval)) = uint interval * 1000000"
  "uint (m_break_ns (looped_task_func_new interval)) < 1000000000"
proof -
  let ?i = "uint interval"
  have s: "uint (interval div 1000) = ?i div 1000" by (simp add: uint_div)
  have d: "uint (interval - interval div 1000 * 1000) = ?i mod 1000" by (simp add: minus_div_mult_eq_mod uint_mod)
  have "uint (w * 1000 * 1000) = uint w * 1000000" if "uint w < 1000" for w :: u32
    using that uint_ge_0[of w] by (simp add: mult.assoc uint_mult_lem[THEN iffD1])
  from this[of "interval - interval div 1000 * 1000"]
  have "uint ((interval - interval div 1000 * 1000) * 1000 * 1000) = ?i mod 1000 * 1000000" unfolding d by simp
  moreover have "?i div 1000 * 1000000000 + ?i mod 1000 * 1000000 = ?i * 1000000"
    using div_mult_mod_eq[of ?i 1000] by linarith
  ultimately show "uint (m_break_s (looped_task_func_new interval)) * 1000000000 + uint (m_break_ns (looped_task_func_new interval)) = ?i * 1000000"
    "uint (m_break_ns (looped_task_func_new interval)) < 1000000000"
    using s by (simp_all add: looped_task_func_new_def Let_def)
qed

text \<open>The sum is not normalised: a time stamp whose nanoseconds are in range may be handed to \<^verbatim>\<open>sleep\<close> with a second
  or more of nanoseconds.\<close>

lemma break_until_not_normal:
  "nsec (break_until (looped_task_func_new 600) \<lparr>sec = 0, nsec = 500000000\<rparr>) = 1100000000"
  by code_simp

section \<open>How often the function is called\<close>

definition after :: "('s \<Rightarrow> bool \<times> 's) \<Rightarrow> nat \<Rightarrow> 's \<Rightarrow> 's" where
  "after F k s = ((\<lambda>s. snd (F s)) ^^ k) s"

lemma after_Suc: "after F (Suc k) s = after F k (snd (F s))"
  by (simp add: after_def funpow_Suc_right del: funpow.simps)

definition pause :: "looped_task_func \<Rightarrow> (nat \<Rightarrow> xtime) \<Rightarrow> nat \<Rightarrow> looped_action" where
  "pause l clock i = (if has_break l then Sleep_until (break_until l (clock i)) else Yield)"

lemma looped_while_returns:
  assumes "\<And>i. i < k \<Longrightarrow> fst (F (after F i s))" "\<not> fst (F (after F k s))"
  shows "looped_while l F clock n s =
    Some (concat (map (\<lambda>i. [Execute, pause l clock (n + i)]) [0..<k]) @ [Execute], after F (Suc k) s)"
  using assms
proof (induction k arbitrary: n s)
  case 0
  then show ?case by (subst looped_while.simps) (simp add: after_def)
next
  case (Suc k)
  have "fst (F s)" using Suc.prems(1)[of 0] by (simp add: after_def)
  moreover have "looped_while l F clock m (snd (F s)) =
      Some (concat (map (\<lambda>i. [Execute, pause l clock (m + i)]) [0..<k]) @ [Execute], after F (Suc (Suc k)) s)" for m
    using Suc.IH[of "snd (F s)" m] Suc.prems(1)[of "Suc i" for i] Suc.prems(2) by (simp add: after_Suc)
  moreover have "[0..<Suc k] = 0 # map Suc [0..<k]" by (simp add: upt_conv_Cons map_Suc_upt del: upt_Suc)
  ultimately show ?case
    by (subst looped_while.simps) (simp add: pause_def comp_def del: upt_Suc)
qed

text \<open>A function that answers true \<open>k\<close> times and then false is executed \<open>k + 1\<close> times, with a break before the
  first execution and one after every execution but the last; without an interval the thread only yields between them.\<close>

theorem looped_execute_returns:
  assumes "\<And>i. i < k \<Longrightarrow> fst (F (after F i s))" "\<not> fst (F (after F k s))"
  shows "looped_execute l (Some F) clock s =
    Some ((if has_break l then [pause l clock 0] else [])
          @ concat (map (\<lambda>i. [Execute, pause l clock (if has_break l then Suc i else i)]) [0..<k]) @ [Execute], after F (Suc k) s)"
  using looped_while_returns[of k F s l clock, OF assms] by (simp add: looped_execute_def pause_def)

end
