(* ===== verification/Locks.thy ===== *)
theory Locks
  imports Jerrno
begin

text \<open>
  \<^verbatim>\<open>lib/jrnl/smutex.hpp\<close>, \<^verbatim>\<open>lib/jrnl/slock.hpp\<close> and \<^verbatim>\<open>lib/jrnl/enums.hpp\<close>: the scoped mutex and the two
  scoped locks of the journal library over the calls of pthread, and the enumerations with their names. The pthread
  calls are parameters: each gives an error number and the mutex afterwards.
\<close>

section \<open>Scoped mutex and locks\<close>

record 'm pthread =
  mutex_init :: "int \<times> 'm"
  mutex_destroy :: "'m \<Rightarrow> int"
  mutex_lock :: "'m \<Rightarrow> int \<times> 'm"
  mutex_trylock :: "'m \<Rightarrow> int \<times> 'm"
  mutex_unlock :: "'m \<Rightarrow> int \<times> 'm"
  EBUSY :: int

text \<open>\<^verbatim>\<open>PTHREAD_CHK\<close> prints a message with the text of the error number and aborts the process: \<open>Inl\<close> with the
  message and the number.\<close>

type_synonym aborted = "string \<times> int"

definition PTHREAD_CHK :: "int \<Rightarrow> string \<Rightarrow> string \<Rightarrow> string \<Rightarrow> aborted + unit" where
  "PTHREAD_CHK err pfn cls fn = (if err \<noteq> 0 then Inl (cls @ ''::'' @ fn @ ''(): '' @ pfn, err) else Inr ())"

definition smutex_new :: "'m pthread \<Rightarrow> aborted + 'm" where
  "smutex_new P = (case PTHREAD_CHK (fst (mutex_init P)) ''::pthread_mutex_init'' ''smutex'' ''smutex'' of
     Inl a \<Rightarrow> Inl a | Inr _ \<Rightarrow> Inr (snd (mutex_init P)))"

definition smutex_delete :: "'m pthread \<Rightarrow> 'm \<Rightarrow> aborted + unit" where
  "smutex_delete P m = PTHREAD_CHK (mutex_destroy P m) ''::pthread_mutex_destroy'' ''smutex'' ''~smutex''"

definition slock_new :: "'m pthread \<Rightarrow> 'm \<Rightarrow> aborted + 'm" where
  "slock_new P m = (case mutex_lock P m of (err, m') \<Rightarrow>
     (case PTHREAD_CHK err ''::pthread_mutex_lock'' ''slock'' ''slock'' of Inl a \<Rightarrow> Inl a | Inr _ \<Rightarrow> Inr m'))"

definition slock_delete :: "'m pthread \<Rightarrow> 'm \<Rightarrow> aborted + 'm" where
  "slock_delete P m = (case mutex_unlock P m of (err, m') \<Rightarrow>
     (case PTHREAD_CHK err ''::pthread_mutex_unlock'' ''slock'' ''~slock'' of Inl a \<Rightarrow> Inl a | Inr _ \<Rightarrow> Inr m'))"

text \<open>The try-lock keeps whether it has the mutex.\<close>

definition stlock_new :: "'m pthread \<Rightarrow> 'm \<Rightarrow> aborted + (bool \<times> 'm)" where
  "stlock_new P m = (case mutex_trylock P m of (ret, m') \<Rightarrow>
     (let locked = (ret = 0)
      in if \<not> locked \<and> ret \<noteq> EBUSY P
         then case PTHREAD_CHK ret ''::pthread_mutex_trylock'' ''stlock'' ''stlock'' of Inl a \<Rightarrow> Inl a | Inr _ \<Rightarrow> Inr (locked, m')
         else Inr (locked, m')))"

definition stlock_delete :: "'m pthread \<Rightarrow> bool \<Rightarrow> 'm \<Rightarrow> aborted + 'm" where
  "stlock_delete P locked m =
     (if locked
      then case mutex_unlock P m of (err, m') \<Rightarrow>
        (case PTHREAD_CHK err ''::pthread_mutex_unlock'' ''stlock'' ''~stlock'' of Inl a \<Rightarrow> Inl a | Inr _ \<Rightarrow> Inr m')
      else Inr m)"

text \<open>A block with a scoped lock: the destructor runs when the body ends, by a return or by an exception. The body
  leaves the mutex alone and works on the state it protects.\<close>

definition slock_scope :: "'m pthread \<Rightarrow> ('s \<Rightarrow> ('e + 'a) \<times> 's) \<Rightarrow> 'm \<Rightarrow> 's \<Rightarrow> aborted + (('e + 'a) \<times> 's \<times> 'm)" where
  "slock_scope P body m s = (case slock_new P m of Inl a \<Rightarrow> Inl a
     | Inr m1 \<Rightarrow> (case body s of (r, s') \<Rightarrow> (case slock_delete P m1 of Inl a \<Rightarrow> Inl a | Inr m2 \<Rightarrow> Inr (r, s', m2))))"

definition stlock_scope :: "'m pthread \<Rightarrow> (bool \<Rightarrow> 's \<Rightarrow> ('e + 'a) \<times> 's) \<Rightarrow> 'm \<Rightarrow> 's \<Rightarrow> aborted + (('e + 'a) \<times> 's \<times> 'm)" where
  "stlock_scope P body m s = (case stlock_new P m of Inl a \<Rightarrow> Inl a
     | Inr (locked, m1) \<Rightarrow> (case body locked s of (r, s') \<Rightarrow> (case stlock_delete P locked m1 of Inl a \<Rightarrow> Inl a | Inr m2 \<Rightarrow> Inr (r, s', m2))))"

text \<open>What POSIX says of a mutex that nobody else releases: a successful lock is undone by the unlock of its owner,
  which succeeds, and a try-lock that answers \<^verbatim>\<open>EBUSY\<close> has changed nothing.\<close>

definition mutex_ok :: "'m pthread \<Rightarrow> bool" where
  "mutex_ok P \<longleftrightarrow> EBUSY P \<noteq> 0 \<and>
     (\<forall>m m'. mutex_lock P m = (0, m') \<longrightarrow> mutex_unlock P m' = (0, m)) \<and>
     (\<forall>m m'. mutex_trylock P m = (0, m') \<longrightarrow> mutex_unlock P m' = (0, m)) \<and>
     (\<forall>m m'. mutex_trylock P m = (EBUSY P, m') \<longrightarrow> m' = m)"

lemma slock_scope_balanced:
  assumes "mutex_ok P"
  shows "slock_scope P body m s =
    (if fst (mutex_lock P m) = 0 then Inr (fst (body s), snd (body s), m)
     else Inl (''slock::slock(): ::pthread_mutex_lock'', fst (mutex_lock P m)))"
proof (cases "mutex_lock P m")
  case (Pair err m')
  then show ?thesis using assms
    by (cases "err = 0") (auto simp: slock_scope_def slock_new_def slock_delete_def PTHREAD_CHK_def mutex_ok_def split: prod.split)
qed

lemma stlock_scope_balanced:
  assumes "mutex_ok P" "fst (mutex_trylock P m) \<in> {0, EBUSY P}"
  shows "stlock_scope P body m s =
    (case body (fst (mutex_trylock P m) = 0) s of (r, s') \<Rightarrow> Inr (r, s', m))"
proof (cases "mutex_trylock P m")
  case (Pair ret m')
  then show ?thesis using assms
    by (cases "ret = 0") (auto simp: stlock_scope_def stlock_new_def stlock_delete_def PTHREAD_CHK_def mutex_ok_def split: prod.split)
qed

text \<open>The laws have a model: a mutex that is free or taken.\<close>

lemma mutex_ok_wit:
  "mutex_ok \<lparr>mutex_init = (0, False), mutex_destroy = (\<lambda>m. if m then 16 else 0),
     mutex_lock = (\<lambda>m. if m then (35, m) else (0, True)), mutex_trylock = (\<lambda>m. if m then (16, m) else (0, True)),
     mutex_unlock = (\<lambda>m. if m then (0, False) else (1, m)), EBUSY = 16\<rparr>"
  by (simp add: mutex_ok_def)

section \<open>Enumerations\<close>

datatype iores = RHM_IORES_SUCCESS | RHM_IORES_PAGE_AIOWAIT | RHM_IORES_FILE_AIOWAIT | RHM_IORES_EMPTY | RHM_IORES_RCINVALID
  | RHM_IORES_ENQCAPTHRESH | RHM_IORES_FULL | RHM_IORES_BUSY | RHM_IORES_TXPENDING | RHM_IORES_NOTIMPL

fun iores_str :: "iores \<Rightarrow> string" where
  "iores_str RHM_IORES_SUCCESS = ''RHM_IORES_SUCCESS''"
| "iores_str RHM_IORES_PAGE_AIOWAIT = ''RHM_IORES_PAGE_AIOWAIT''"
| "iores_str RHM_IORES_FILE_AIOWAIT = ''RHM_IORES_FILE_AIOWAIT''"
| "iores_str RHM_IORES_EMPTY = ''RHM_IORES_EMPTY''"
| "iores_str RHM_IORES_RCINVALID = ''RHM_IORES_RCINVALID''"
| "iores_str RHM_IORES_ENQCAPTHRESH = ''RHM_IORES_ENQCAPTHRESH''"
| "iores_str RHM_IORES_FULL = ''RHM_IORES_FULL''"
| "iores_str RHM_IORES_BUSY = ''RHM_IORES_BUSY''"
| "iores_str RHM_IORES_TXPENDING = ''RHM_IORES_TXPENDING''"
| "iores_str RHM_IORES_NOTIMPL = ''RHM_IORES_NOTIMPL''"

datatype log_level = LOG_TRACE | LOG_DEBUG | LOG_INFO | LOG_NOTICE | LOG_WARN | LOG_ERROR | LOG_CRITICAL

fun log_level_str :: "log_level \<Rightarrow> string" where
  "log_level_str LOG_TRACE = ''TRACE''"
| "log_level_str LOG_DEBUG = ''DEBUG''"
| "log_level_str LOG_INFO = ''INFO''"
| "log_level_str LOG_NOTICE = ''NOTICE''"
| "log_level_str LOG_WARN = ''WARN''"
| "log_level_str LOG_ERROR = ''ERROR''"
| "log_level_str LOG_CRITICAL = ''CRITICAL''"

text \<open>No two results and no two levels have the same name.\<close>

lemma enum_names_distinct: "inj iores_str" "inj log_level_str"
proof -
  show "inj iores_str"
  proof (rule injI)
    fix x y assume "iores_str x = iores_str y"
    then show "x = y" by (cases x; cases y) simp_all
  qed
  show "inj log_level_str"
  proof (rule injI)
    fix x y assume "log_level_str x = log_level_str y"
    then show "x = y" by (cases x; cases y) simp_all
  qed
qed

end
